(* ===== verification/KeyCompare.thy ===== *)
theory KeyCompare
  imports Prelude "HOL-Library.Word"
begin

text \<open>
  The key comparison functions of \<open>bot/src/balanced_btree.c\<close> (\<open>KeyCompareInt\<close>,
  \<open>KeyCompareString\<close>, \<open>KeyComparePthread\<close>) and the C library's
  \<open>strcasecmp\<close> on which the string comparison rests. A \<open>void *\<close> key points to
  an \<open>int\<close>, a \<open>pthread_t\<close> (an unsigned long) or a \<open>char *\<close>.
\<close>

datatype BTreeKey = KInt "32 word" | KString string | KPthread "64 word"

datatype BalancedBTreeKeyType_t = BTREE_KEY_INT | BTREE_KEY_STRING | BTREE_KEY_PTHREAD

section \<open>The C library: tolower and strcasecmp in the C locale\<close>

definition tolower :: "char \<Rightarrow> char" where
  "tolower c = (if 65 \<le> (of_char c :: nat) \<and> (of_char c :: nat) \<le> 90 then char_of (of_char c + 32 :: nat) else c)"

definition char_code :: "char \<Rightarrow> int" where
  "char_code c = int (of_char c)"

text \<open>The difference of the first pair of bytes that differ after \<open>tolower\<close> (the end of a string counts as 0).\<close>

fun strcasecmp :: "string \<Rightarrow> string \<Rightarrow> int" where
  "strcasecmp [] [] = 0"
| "strcasecmp [] (d # ds) = - char_code (tolower d)"
| "strcasecmp (c # cs) [] = char_code (tolower c)"
| "strcasecmp (c # cs) (d # ds) =
     (if tolower c = tolower d then strcasecmp cs ds
      else char_code (tolower c) - char_code (tolower d))"

section \<open>The comparison functions\<close>

text \<open>The clamp at the end of all three.\<close>

definition clamp1 :: "int \<Rightarrow> int" where
  "clamp1 res = (if res > 1 then 1 else if res < -1 then -1 else res)"

text \<open>
  \<open>None\<close> as an argument is a \<open>NULL\<close> key pointer, which compares equal to anything.
  The result is \<open>None\<close> where a key is not of the type the function reads (the C code
  would reinterpret memory).
\<close>

fun KeyCompareInt :: "BTreeKey option \<Rightarrow> BTreeKey option \<Rightarrow> int option" where
  "KeyCompareInt None _ = Some 0"
| "KeyCompareInt _ None = Some 0"
| "KeyCompareInt (Some (KInt l)) (Some (KInt r)) = Some (clamp1 (sint (l - r)))"
| "KeyCompareInt _ _ = None"

fun KeyComparePthread :: "BTreeKey option \<Rightarrow> BTreeKey option \<Rightarrow> int option" where
  "KeyComparePthread None _ = Some 0"
| "KeyComparePthread _ None = Some 0"
| "KeyComparePthread (Some (KPthread l)) (Some (KPthread r)) = Some (clamp1 (sint (l - r)))"
| "KeyComparePthread _ _ = None"

fun KeyCompareString :: "BTreeKey option \<Rightarrow> BTreeKey option \<Rightarrow> int option" where
  "KeyCompareString None _ = Some 0"
| "KeyCompareString _ None = Some 0"
| "KeyCompareString (Some (KString l)) (Some (KString r)) = Some (clamp1 (strcasecmp l r))"
| "KeyCompareString _ _ = None"

section \<open>What a comparison has to satisfy\<close>

text \<open>
  A search tree needs a total preorder on the keys it holds. \<open>ok\<close> is the set of keys
  on which the comparison is one.
\<close>

locale key_order =
  fixes cmp :: "'k \<Rightarrow> 'k \<Rightarrow> int" and ok :: "'k \<Rightarrow> bool"
  assumes cmp_refl: "ok a \<Longrightarrow> cmp a a = 0"
    and cmp_anti: "ok a \<Longrightarrow> ok b \<Longrightarrow> cmp a b < 0 \<longleftrightarrow> cmp b a > 0"
    and cmp_trans: "ok a \<Longrightarrow> ok b \<Longrightarrow> ok c \<Longrightarrow> cmp a b \<le> 0 \<Longrightarrow> cmp b c \<le> 0 \<Longrightarrow> cmp a c \<le> 0"
begin

lemma cmp_sym0: "ok a \<Longrightarrow> ok b \<Longrightarrow> cmp a b = 0 \<longleftrightarrow> cmp b a = 0"
  using cmp_anti [of a b] cmp_anti [of b a] by linarith

lemma cmp_less_trans:
  assumes "ok a" "ok b" "ok c" "cmp a b < 0" "cmp b c \<le> 0" shows "cmp a c < 0"
proof (rule ccontr)
  assume "\<not> cmp a c < 0"
  with assms have "cmp c a \<le> 0" using cmp_anti [of a c] by auto
  with assms have "cmp b a \<le> 0" using cmp_trans [of b c a] by simp
  with assms show False using cmp_anti [of a b] by simp
qed

lemma cmp_le_less_trans:
  assumes "ok a" "ok b" "ok c" "cmp a b \<le> 0" "cmp b c < 0" shows "cmp a c < 0"
proof (rule ccontr)
  assume "\<not> cmp a c < 0"
  with assms have "cmp c a \<le> 0" using cmp_anti [of a c] by auto
  with assms have "cmp c b \<le> 0" using cmp_trans [of c a b] by simp
  with assms show False using cmp_anti [of b c] by simp
qed

lemma cmp_eq_left:
  assumes "ok a" "ok b" "ok c" "cmp a b = 0"
  shows "cmp a c = 0 \<longleftrightarrow> cmp b c = 0" and "cmp a c < 0 \<longleftrightarrow> cmp b c < 0"
proof -
  have ba: "cmp b a = 0" using assms cmp_sym0 by blast
  show lt: "cmp a c < 0 \<longleftrightarrow> cmp b c < 0"
    using assms ba cmp_le_less_trans [of a b c] cmp_le_less_trans [of b a c] by auto
  show "cmp a c = 0 \<longleftrightarrow> cmp b c = 0"
    using lt assms ba cmp_trans [of a b c] cmp_trans [of b a c] by fastforce
qed

end

section \<open>Each comparison is an order on the keys the program uses\<close>

lemma clamp1_sign [simp]:
  "clamp1 x = 0 \<longleftrightarrow> x = 0" "clamp1 x < 0 \<longleftrightarrow> x < 0" "0 < clamp1 x \<longleftrightarrow> 0 < x"
  "clamp1 x \<le> 0 \<longleftrightarrow> x \<le> 0" "0 \<le> clamp1 x \<longleftrightarrow> 0 \<le> x"
  by (auto simp: clamp1_def)

lemma clamp1_range: "- 1 \<le> clamp1 x \<and> clamp1 x \<le> 1"
  by (auto simp: clamp1_def)

definition cmp_of :: "(BTreeKey option \<Rightarrow> BTreeKey option \<Rightarrow> int option) \<Rightarrow> BTreeKey \<Rightarrow> BTreeKey \<Rightarrow> int" where
  "cmp_of f a b = (case f (Some a) (Some b) of None \<Rightarrow> 0 | Some r \<Rightarrow> r)"

text \<open>Integers whose difference cannot overflow: half of the \<open>int\<close> range (database ids are small and non-negative; the form for a new server uses -1).\<close>

fun small_int :: "BTreeKey \<Rightarrow> bool" where
  "small_int (KInt w) \<longleftrightarrow> - (2 ^ 30) \<le> sint w \<and> sint w < 2 ^ 30"
| "small_int _ \<longleftrightarrow> False"

fun user_pthread :: "BTreeKey \<Rightarrow> bool" where
  "user_pthread (KPthread w) \<longleftrightarrow> uint w < 2 ^ 63"
| "user_pthread _ \<longleftrightarrow> False"

fun is_string :: "BTreeKey \<Rightarrow> bool" where
  "is_string (KString s) \<longleftrightarrow> (\<forall>c \<in> set s. c \<noteq> CHR 0x00)"
| "is_string _ \<longleftrightarrow> False"

lemma sint_diff_small:
  fixes l r :: "32 word"
  assumes "- (2 ^ 30) \<le> sint l" "sint l < 2 ^ 30" "- (2 ^ 30) \<le> sint r" "sint r < 2 ^ 30"
  shows "sint (l - r) = sint l - sint r"
  using assms by (simp add: sint_word_diff signed_take_bit_int_eq_self)

lemma sint_diff_pthread:
  fixes l r :: "64 word"
  assumes "uint l < 2 ^ 63" "uint r < 2 ^ 63"
  shows "sint (l - r) = uint l - uint r"
proof -
  have nn: "0 \<le> uint l" "0 \<le> uint r" by simp_all
  have "sint l = uint l" "sint r = uint r"
    unfolding sint_uint using assms
    by (auto intro!: signed_take_bit_int_eq_self intro: order_trans [OF _ uint_ge_0])
  moreover have "- (2 ^ 63) \<le> uint l - uint r" "uint l - uint r < 2 ^ 63"
    using assms nn by linarith+
  ultimately show ?thesis by (simp add: sint_word_diff signed_take_bit_int_eq_self)
qed

interpretation int_key: key_order "cmp_of KeyCompareInt" small_int
proof
  fix a b c
  assume "small_int a" "small_int b"
  then show "cmp_of KeyCompareInt a b < 0 \<longleftrightarrow> cmp_of KeyCompareInt b a > 0"
    by (cases a; cases b) (auto simp: cmp_of_def sint_diff_small)
  assume "small_int c" "cmp_of KeyCompareInt a b \<le> 0" "cmp_of KeyCompareInt b c \<le> 0"
  with \<open>small_int a\<close> \<open>small_int b\<close> show "cmp_of KeyCompareInt a c \<le> 0"
    by (cases a; cases b; cases c) (auto simp: cmp_of_def sint_diff_small)
next
  fix a assume "small_int a"
  then show "cmp_of KeyCompareInt a a = 0" by (cases a) (auto simp: cmp_of_def)
qed

interpretation pthread_key: key_order "cmp_of KeyComparePthread" user_pthread
proof
  fix a b c
  assume "user_pthread a" "user_pthread b"
  then show "cmp_of KeyComparePthread a b < 0 \<longleftrightarrow> cmp_of KeyComparePthread b a > 0"
    by (cases a; cases b) (auto simp: cmp_of_def sint_diff_pthread)
  assume "user_pthread c" "cmp_of KeyComparePthread a b \<le> 0" "cmp_of KeyComparePthread b c \<le> 0"
  with \<open>user_pthread a\<close> \<open>user_pthread b\<close> show "cmp_of KeyComparePthread a c \<le> 0"
    by (cases a; cases b; cases c) (auto simp: cmp_of_def sint_diff_pthread)
next
  fix a assume "user_pthread a"
  then show "cmp_of KeyComparePthread a a = 0" by (cases a) (auto simp: cmp_of_def)
qed

lemma char_code_inj: "char_code c = char_code d \<longleftrightarrow> c = d"
  by (simp add: char_code_def)

lemma char_code_nonneg: "0 \<le> char_code c"
  by (simp add: char_code_def)

lemma char_code_pos: "c \<noteq> CHR 0x00 \<longleftrightarrow> 0 < char_code c"
proof -
  have "char_code c = 0 \<longleftrightarrow> c = CHR 0x00"
    using char_code_inj [of c "CHR 0x00"] by (simp add: char_code_def)
  with char_code_nonneg [of c] show ?thesis by linarith
qed

lemma tolower_nonzero: "c \<noteq> CHR 0x00 \<Longrightarrow> tolower c \<noteq> CHR 0x00"
proof
  assume c: "c \<noteq> CHR 0x00" and t: "tolower c = CHR 0x00"
  then have r: "65 \<le> (of_char c :: nat)" "(of_char c :: nat) \<le> 90"
    and e: "char_of (of_char c + 32 :: nat) = CHR 0x00" by (auto simp: tolower_def split: if_splits)
  from e have "of_char (char_of (of_char c + 32 :: nat)) = (of_char (CHR 0x00) :: nat)" by simp
  with r show False by (simp only: of_char_of) simp
qed

text \<open>Strings are NUL-free; on them the sign of \<open>strcasecmp\<close> is the lexicographic order of the lower-cased bytes.\<close>

definition nul_free :: "string \<Rightarrow> bool" where
  "nul_free s \<longleftrightarrow> CHR 0x00 \<notin> set s"

lemma strcasecmp_self [simp]: "strcasecmp s s = 0"
  by (induction s) auto

lemma tolower_pos: "c \<noteq> CHR 0x00 \<Longrightarrow> 0 < char_code (tolower c)"
  using char_code_pos tolower_nonzero by blast

lemma strcasecmp_anti: "strcasecmp a b = - strcasecmp b a"
  by (induction a b rule: strcasecmp.induct) auto

lemma strcasecmp_sign: "strcasecmp a b < 0 \<longleftrightarrow> 0 < strcasecmp b a"
  using strcasecmp_anti [of a b] by linarith

lemma strcasecmp_Nil_le: "nul_free b \<Longrightarrow> strcasecmp [] b \<le> 0"
  by (cases b) (auto simp: char_code_nonneg)

lemma strcasecmp_le_Nil: "nul_free a \<Longrightarrow> strcasecmp a [] \<le> 0 \<longleftrightarrow> a = []"
proof (cases a)
  case (Cons x xs)
  moreover assume "nul_free a"
  ultimately show ?thesis using tolower_pos [of x] by (auto simp: nul_free_def)
qed simp

lemma strcasecmp_trans:
  "nul_free a \<Longrightarrow> nul_free b \<Longrightarrow> nul_free c \<Longrightarrow> strcasecmp a b \<le> 0 \<Longrightarrow> strcasecmp b c \<le> 0 \<Longrightarrow>
   strcasecmp a c \<le> 0"
proof (induction a arbitrary: b c)
  case Nil
  then show ?case by (simp add: strcasecmp_Nil_le)
next
  case (Cons x xs)
  then obtain y ys where b: "b = y # ys" by (cases b) (auto simp: strcasecmp_le_Nil simp del: strcasecmp.simps)
  with Cons.prems obtain z zs where c: "c = z # zs" by (cases c) (auto simp: strcasecmp_le_Nil simp del: strcasecmp.simps)
  have nf: "nul_free xs" "nul_free ys" "nul_free zs"
    using Cons.prems b c by (auto simp: nul_free_def)
  show ?case
    using Cons.prems(4,5) b c Cons.IH [OF nf] char_code_inj [of "tolower x" "tolower z"]
      char_code_inj [of "tolower z" "tolower y"]
    by (auto split: if_splits)
qed

lemma strcasecmp_0_length: "nul_free a \<Longrightarrow> nul_free b \<Longrightarrow> strcasecmp a b = 0 \<longleftrightarrow> map tolower a = map tolower b"
proof (induction a b rule: strcasecmp.induct)
  case (2 d ds)
  then show ?case using tolower_pos [of d] by (auto simp: nul_free_def)
next
  case (3 c cs)
  then show ?case using tolower_pos [of c] by (auto simp: nul_free_def)
next
  case (4 c cs d ds)
  then show ?case by (auto simp: nul_free_def char_code_inj)
qed simp

lemma is_stringE:
  assumes "is_string k" obtains s where "k = KString s" "nul_free s"
  using assms by (cases k) (auto simp: nul_free_def)

lemma cmp_of_string [simp]: "cmp_of KeyCompareString (KString a) (KString b) = clamp1 (strcasecmp a b)"
  by (simp add: cmp_of_def)

interpretation string_key: key_order "cmp_of KeyCompareString" is_string
proof
  fix a b c
  assume "is_string a" "is_string b"
  then show "cmp_of KeyCompareString a b < 0 \<longleftrightarrow> cmp_of KeyCompareString b a > 0"
    by (auto elim!: is_stringE simp: strcasecmp_sign)
  assume "is_string c" "cmp_of KeyCompareString a b \<le> 0" "cmp_of KeyCompareString b c \<le> 0"
  with \<open>is_string a\<close> \<open>is_string b\<close> show "cmp_of KeyCompareString a c \<le> 0"
    by (auto elim!: is_stringE intro: strcasecmp_trans)
next
  fix a assume "is_string a"
  then show "cmp_of KeyCompareString a a = 0" by (auto elim!: is_stringE)
qed

end
