(* ===== verification/BTreeSpec.thy ===== *)
theory BTreeSpec
  imports KeyCompare "HOL-Library.Tree"
begin

text \<open>
  What \<open>bot/src/balanced_btree.c\<close> computes, on trees as a datatype: the shape of
  the tree after every operation, without pointers. Theory \<open>BTreeHeap\<close> translates
  the C code and proves that it implements these functions; the components that
  use a tree (threads, bot commands, plugins, servers, channels) use these functions
  and the facts of the locales below.

  Elements are of any type \<open>'a\<close> with a key; comparisons are the \<open>keyCompare\<close>
  function of the tree.
\<close>

section \<open>Operations\<close>

fun bt_find :: "('k \<Rightarrow> 'k \<Rightarrow> int) \<Rightarrow> ('a \<Rightarrow> 'k) \<Rightarrow> 'k \<Rightarrow> 'a tree \<Rightarrow> 'a option" where
  "bt_find cmp key k Leaf = None"
| "bt_find cmp key k (Node l x r) =
     (if cmp k (key x) = 0 then Some x
      else if cmp k (key x) < 0 then bt_find cmp key k l
      else bt_find cmp key k r)"

text \<open>
  Insertion descends to a free place (right on equal keys). If the node above that
  place has an equal key, the new item is not linked.
\<close>

fun bt_insert :: "('k \<Rightarrow> 'k \<Rightarrow> int) \<Rightarrow> ('a \<Rightarrow> 'k) \<Rightarrow> 'a \<Rightarrow> 'a tree \<Rightarrow> 'a tree" where
  "bt_insert cmp key x Leaf = Node Leaf x Leaf"
| "bt_insert cmp key x (Node l y r) =
     (if cmp (key x) (key y) < 0 then Node (bt_insert cmp key x l) y r
      else if cmp (key x) (key y) = 0 \<and> r = Leaf then Node l y r
      else Node l y (bt_insert cmp key x r))"

fun max_of :: "'a tree \<Rightarrow> 'a" where
  "max_of (Node l x r) = (if r = Leaf then x else max_of r)"

fun del_max :: "'a tree \<Rightarrow> 'a tree" where
  "del_max Leaf = Leaf"
| "del_max (Node l x r) = (if r = Leaf then l else Node l x (del_max r))"

fun min_of :: "'a tree \<Rightarrow> 'a" where
  "min_of (Node l x r) = (if l = Leaf then x else min_of l)"

fun del_min :: "'a tree \<Rightarrow> 'a tree" where
  "del_min Leaf = Leaf"
| "del_min (Node l x r) = (if l = Leaf then r else Node (del_min l) x r)"

text \<open>The node that takes a removed node's place comes from the heavier side, from the right if equal.\<close>

definition bt_join :: "'a tree \<Rightarrow> 'a tree \<Rightarrow> 'a tree" where
  "bt_join l r =
     (if size l > size r then Node (del_max l) (max_of l) r
      else if r = Leaf then Leaf
      else Node l (min_of r) (del_min r))"

fun bt_remove :: "'a \<Rightarrow> 'a tree \<Rightarrow> 'a tree" where
  "bt_remove x Leaf = Leaf"
| "bt_remove x (Node l y r) =
     (if x = y then bt_join l r else Node (bt_remove x l) y (bt_remove x r))"

lemma size_del_max: "size (del_max t) = size t - 1"
  by (induction t) (auto simp: neq_Leaf_iff)

lemma size_del_min: "size (del_min t) = size t - 1"
  by (induction t) (auto simp: neq_Leaf_iff)

lemma size_gt_neq_Leaf: "n < size t \<Longrightarrow> t \<noteq> Leaf"
  by auto

text \<open>The loop of \<open>BalancedBTreeRebalance\<close>: shift one node over until the sides differ by at most one.\<close>

function bt_rotate :: "'a tree \<Rightarrow> 'a tree" where
  "bt_rotate Leaf = Leaf"
| "bt_rotate (Node l x r) =
     (if size l > size r + 1 then bt_rotate (Node (del_max l) (max_of l) (Node Leaf x r))
      else if size r > size l + 1 then bt_rotate (Node (Node l x Leaf) (min_of r) (del_min r))
      else Node l x r)"
  by pat_completeness auto
termination
  by (relation "measure (\<lambda>t. case t of Leaf \<Rightarrow> 0 | Node l x r \<Rightarrow> (size l - size r) + (size r - size l))")
     (auto simp: size_del_max size_del_min dest: size_gt_neq_Leaf)

declare bt_rotate.simps(2) [simp del]

lemma size_bt_rotate: "size (bt_rotate t) = size t"
proof (induction t rule: bt_rotate.induct)
  case (2 l x r)
  then show ?case
    by (subst bt_rotate.simps)
       (auto simp: size_del_max size_del_min dest: size_gt_neq_Leaf)
qed simp

function bt_rebalance :: "'a tree \<Rightarrow> 'a tree" where
  "bt_rebalance t =
     (case bt_rotate t of Leaf \<Rightarrow> Leaf | Node l x r \<Rightarrow> Node (bt_rebalance l) x (bt_rebalance r))"
  by pat_completeness auto
termination
proof (relation "measure size")
  fix t :: "'a tree" and l x r assume "bt_rotate t = Node l x r"
  then have "size t = size l + size r + 1" using size_bt_rotate [of t] by simp
  then show "(l, t) \<in> measure size" "(r, t) \<in> measure size" by simp_all
qed simp

declare bt_rebalance.simps [simp del]

fun bt_least_cond :: "('a \<Rightarrow> bool) \<Rightarrow> 'a tree \<Rightarrow> 'a option" where
  "bt_least_cond P Leaf = None"
| "bt_least_cond P (Node l x r) =
     (case bt_least_cond P l of
        Some y \<Rightarrow> Some y
      | None \<Rightarrow> if P x then Some x else bt_least_cond P r)"

section \<open>The sequence of elements\<close>

lemma inorder_del_max: "t \<noteq> Leaf \<Longrightarrow> inorder t = inorder (del_max t) @ [max_of t]"
  by (induction t) (auto simp: neq_Leaf_iff)

lemma inorder_del_min: "t \<noteq> Leaf \<Longrightarrow> inorder t = min_of t # inorder (del_min t)"
  by (induction t) (auto simp: neq_Leaf_iff)

lemma max_of_in: "t \<noteq> Leaf \<Longrightarrow> max_of t \<in> set_tree t"
  using inorder_del_max [of t] set_inorder [of t] by (metis in_set_conv_decomp)

lemma min_of_in: "t \<noteq> Leaf \<Longrightarrow> min_of t \<in> set_tree t"
  using inorder_del_min [of t] set_inorder [of t] by (metis list.set_intros(1))

lemma inorder_bt_join [simp]: "inorder (bt_join l r) = inorder l @ inorder r"
  using inorder_del_max [of l] inorder_del_min [of r] by (auto simp: bt_join_def dest: size_gt_neq_Leaf)

lemma bt_remove_notin: "x \<notin> set_tree t \<Longrightarrow> bt_remove x t = t"
  by (induction t) auto

lemma inorder_bt_remove:
  "distinct (inorder t) \<Longrightarrow> inorder (bt_remove x t) = filter (\<lambda>y. y \<noteq> x) (inorder t)"
  by (induction t) (auto simp: filter_neq_id)

lemma inorder_bt_rotate [simp]: "inorder (bt_rotate t) = inorder t"
proof (induction t rule: bt_rotate.induct)
  case (2 l x r)
  then show ?case
    using inorder_del_max [of l] inorder_del_min [of r]
    by (subst bt_rotate.simps) (auto dest: size_gt_neq_Leaf)
qed simp

lemma inorder_bt_rebalance [simp]: "inorder (bt_rebalance t) = inorder t"
proof (induction t rule: bt_rebalance.induct)
  case (1 t)
  show ?case
  proof (cases "bt_rotate t")
    case Leaf
    with inorder_bt_rotate [of t] have "inorder t = []" by simp
    with Leaf show ?thesis by (subst bt_rebalance.simps) simp
  next
    case (Node l x r)
    with inorder_bt_rotate [of t] have "inorder t = inorder l @ x # inorder r" by simp
    with Node 1 [OF Node] show ?thesis by (subst bt_rebalance.simps) simp
  qed
qed

lemma size_bt_rebalance [simp]: "size (bt_rebalance t) = size t"
  by (metis inorder_bt_rebalance length_inorder)

lemma bt_rotate_diff:
  "bt_rotate t = Node l x r \<Longrightarrow> size l \<le> size r + 1 \<and> size r \<le> size l + 1"
proof (induction t rule: bt_rotate.induct)
  case (2 l' x' r')
  then show ?case by (subst (asm) bt_rotate.simps) (auto split: if_splits)
qed simp

theorem bt_rebalance_wbalanced: "wbalanced (bt_rebalance t)"
proof (induction t rule: bt_rebalance.induct)
  case (1 t)
  then show ?case
    using bt_rotate_diff [of t]
    by (subst bt_rebalance.simps) (auto split: tree.splits)
qed

lemma bt_least_cond_find: "bt_least_cond P t = find P (inorder t)"
  by (induction t) (auto simp: find_app split: option.splits)

section \<open>Search order\<close>

definition bt_sorted :: "('k \<Rightarrow> 'k \<Rightarrow> int) \<Rightarrow> ('a \<Rightarrow> 'k) \<Rightarrow> 'a tree \<Rightarrow> bool" where
  "bt_sorted cmp key t \<longleftrightarrow> sorted_wrt (\<lambda>x y. cmp (key x) (key y) \<le> 0) (inorder t)"

definition bt_strict :: "('k \<Rightarrow> 'k \<Rightarrow> int) \<Rightarrow> ('a \<Rightarrow> 'k) \<Rightarrow> 'a tree \<Rightarrow> bool" where
  "bt_strict cmp key t \<longleftrightarrow> sorted_wrt (\<lambda>x y. cmp (key x) (key y) < 0) (inorder t)"

definition bt_keys_ok :: "('k \<Rightarrow> bool) \<Rightarrow> ('a \<Rightarrow> 'k) \<Rightarrow> 'a tree \<Rightarrow> bool" where
  "bt_keys_ok ok key t \<longleftrightarrow> (\<forall>x \<in> set_tree t. ok (key x))"

lemma bt_sorted_Node [simp]:
  "bt_sorted cmp key Leaf"
  "bt_sorted cmp key (Node l y r) \<longleftrightarrow> bt_sorted cmp key l \<and> bt_sorted cmp key r \<and>
     (\<forall>x \<in> set_tree l. cmp (key x) (key y) \<le> 0 \<and> (\<forall>z \<in> set_tree r. cmp (key x) (key z) \<le> 0)) \<and>
     (\<forall>z \<in> set_tree r. cmp (key y) (key z) \<le> 0)"
  by (auto simp: bt_sorted_def sorted_wrt_append)

lemma bt_strict_Node [simp]:
  "bt_strict cmp key Leaf"
  "bt_strict cmp key (Node l y r) \<longleftrightarrow> bt_strict cmp key l \<and> bt_strict cmp key r \<and>
     (\<forall>x \<in> set_tree l. cmp (key x) (key y) < 0 \<and> (\<forall>z \<in> set_tree r. cmp (key x) (key z) < 0)) \<and>
     (\<forall>z \<in> set_tree r. cmp (key y) (key z) < 0)"
  by (auto simp: bt_strict_def sorted_wrt_append)

lemma bt_keys_ok_Node [simp]:
  "bt_keys_ok ok key Leaf"
  "bt_keys_ok ok key (Node l y r) \<longleftrightarrow> ok (key y) \<and> bt_keys_ok ok key l \<and> bt_keys_ok ok key r"
  by (auto simp: bt_keys_ok_def)

lemma bt_strict_sorted: "bt_strict cmp key t \<Longrightarrow> bt_sorted cmp key t"
  by (induction t) (auto intro: less_imp_le)

lemma bt_find_SomeD: "bt_find cmp key k t = Some x \<Longrightarrow> x \<in> set_tree t \<and> cmp k (key x) = 0"
  by (induction t) (auto split: if_splits)

lemma set_bt_insert: "set_tree (bt_insert cmp key x t) \<subseteq> insert x (set_tree t)"
  by (induction t) auto

lemma set_bt_insert_fresh:
  "\<forall>y \<in> set_tree t. cmp (key x) (key y) \<noteq> 0 \<Longrightarrow> set_tree (bt_insert cmp key x t) = insert x (set_tree t)"
  by (induction t) auto

lemma set_tree_rebalance [simp]: "set_tree (bt_rebalance t) = set_tree t"
  by (metis inorder_bt_rebalance set_inorder)

lemma bt_order_rebalance [simp]:
  "bt_sorted cmp key (bt_rebalance t) = bt_sorted cmp key t"
  "bt_strict cmp key (bt_rebalance t) = bt_strict cmp key t"
  "bt_keys_ok ok key (bt_rebalance t) = bt_keys_ok ok key t"
  by (simp_all add: bt_sorted_def bt_strict_def bt_keys_ok_def)

definition bt_inv :: "('k \<Rightarrow> 'k \<Rightarrow> int) \<Rightarrow> ('k \<Rightarrow> bool) \<Rightarrow> ('a \<Rightarrow> 'k) \<Rightarrow> 'a tree \<Rightarrow> bool" where
  "bt_inv cmp ok key t \<longleftrightarrow> bt_keys_ok ok key t \<and> bt_strict cmp key t"

locale btree = key_order cmp ok for cmp :: "'k \<Rightarrow> 'k \<Rightarrow> int" and ok :: "'k \<Rightarrow> bool" +
  fixes key :: "'a \<Rightarrow> 'k"
begin

lemma bt_find_None:
  "bt_keys_ok ok key t \<Longrightarrow> bt_sorted cmp key t \<Longrightarrow> ok k \<Longrightarrow> bt_find cmp key k t = None \<Longrightarrow>
   x \<in> set_tree t \<Longrightarrow> cmp k (key x) \<noteq> 0"
proof (induction t)
  case (Node l y r)
  have okx: "ok (key x)" and oky: "ok (key y)" using Node.prems by (auto simp: bt_keys_ok_def)
  show ?case
  proof (cases "cmp k (key y) < 0")
    case True
    with Node okx oky cmp_less_trans [of k "key y" "key x"] show ?thesis by auto
  next
    case False
    with Node.prems have "cmp (key y) k < 0" using cmp_anti [of "key y" k] oky by (auto split: if_splits)
    then have "cmp k (key x) \<noteq> 0" if "x \<in> set_tree l"
      using that Node.prems okx oky cmp_le_less_trans [of "key x" "key y" k] cmp_sym0 [of k "key x"] by auto
    with False Node show ?thesis by (auto split: if_splits)
  qed
qed simp

lemma bt_sorted_insert:
  "bt_keys_ok ok key t \<Longrightarrow> ok (key x) \<Longrightarrow> bt_sorted cmp key t \<Longrightarrow> bt_sorted cmp key (bt_insert cmp key x t)"
proof (induction t)
  case (Node l y r)
  have ks: "\<And>z. z \<in> set_tree l \<union> set_tree r \<Longrightarrow> ok (key z)" using Node.prems by (auto simp: bt_keys_ok_def)
  show ?case
  proof (cases "cmp (key x) (key y) < 0")
    case True
    then show ?thesis
      using Node ks set_bt_insert [of cmp key x l] cmp_trans [of "key x" "key y"] by fastforce
  next
    case False
    then have "cmp (key y) (key x) \<le> 0" using Node.prems cmp_anti [of "key x" "key y"] cmp_anti [of "key y" "key x"] by fastforce
    then show ?thesis
      using False Node ks set_bt_insert [of cmp key x r] cmp_trans [of _ "key y" "key x"] by fastforce
  qed
qed simp

lemma bt_strict_insert:
  "bt_keys_ok ok key t \<Longrightarrow> ok (key x) \<Longrightarrow> \<forall>y \<in> set_tree t. cmp (key x) (key y) \<noteq> 0 \<Longrightarrow>
   bt_strict cmp key t \<Longrightarrow> bt_strict cmp key (bt_insert cmp key x t)"
proof (induction t)
  case (Node l y r)
  have ks: "\<And>z. z \<in> set_tree l \<union> set_tree r \<Longrightarrow> ok (key z)" using Node.prems by (auto simp: bt_keys_ok_def)
  show ?case
  proof (cases "cmp (key x) (key y) < 0")
    case True
    have "cmp (key x) (key z) < 0" if "z \<in> set_tree r" for z
      using that True Node.prems ks cmp_less_trans [of "key x" "key y" "key z"] by auto
    with True Node ks set_bt_insert_fresh [of l cmp key x] show ?thesis by auto
  next
    case False
    then have yx: "cmp (key y) (key x) < 0" using Node.prems cmp_anti [of "key y" "key x"] by fastforce
    have "cmp (key z) (key x) < 0" if "z \<in> set_tree l" for z
      using that yx Node.prems ks cmp_less_trans [of "key z" "key y" "key x"] by auto
    with False yx Node ks set_bt_insert_fresh [of r cmp key x] show ?thesis by auto
  qed
qed simp

lemma bt_keys_ok_insert: "bt_keys_ok ok key t \<Longrightarrow> ok (key x) \<Longrightarrow> bt_keys_ok ok key (bt_insert cmp key x t)"
  using set_bt_insert [of cmp key x t] by (auto simp: bt_keys_ok_def)

lemma bt_strict_distinct: "bt_keys_ok ok key t \<Longrightarrow> bt_strict cmp key t \<Longrightarrow> distinct (inorder t)"
proof (induction t)
  case (Node l y r)
  have irr: "\<not> cmp (key x) (key x) < 0" if "x \<in> set_tree (Node l y r)" for x
    using that Node.prems cmp_refl [of "key x"] by (auto simp: bt_keys_ok_def)
  have "y \<notin> set_tree l" "y \<notin> set_tree r" "set_tree l \<inter> set_tree r = {}"
    using Node.prems(2) irr by fastforce+
  with Node show ?case by simp
qed simp

end

section \<open>The keyed store interface\<close>

text \<open>
  What the clients of a tree rely on. \<open>elems t\<close> is the set of stored elements, with
  pairwise different keys; \<open>find\<close> is exact on it. Adding requires a new key, removing
  an element that is present.
\<close>

locale keyed_store = key_order cmp ok for cmp :: "'k \<Rightarrow> 'k \<Rightarrow> int" and ok :: "'k \<Rightarrow> bool" +
  fixes key :: "'a \<Rightarrow> 'k"
    and empty :: 't
    and find :: "'k \<Rightarrow> 't \<Rightarrow> 'a option"
    and add :: "'a \<Rightarrow> 't \<Rightarrow> 't"
    and remove :: "'a \<Rightarrow> 't \<Rightarrow> 't"
    and elems :: "'t \<Rightarrow> 'a set"
    and store_inv :: "'t \<Rightarrow> bool"
  assumes empty: "store_inv empty" "elems empty = {}"
    and elems_ok: "store_inv t \<Longrightarrow> x \<in> elems t \<Longrightarrow> ok (key x)"
    and unique: "store_inv t \<Longrightarrow> x \<in> elems t \<Longrightarrow> y \<in> elems t \<Longrightarrow> cmp (key x) (key y) = 0 \<Longrightarrow> x = y"
    and find_iff: "store_inv t \<Longrightarrow> ok k \<Longrightarrow> find k t = Some x \<longleftrightarrow> x \<in> elems t \<and> cmp k (key x) = 0"
    and add: "store_inv t \<Longrightarrow> ok (key x) \<Longrightarrow> find (key x) t = None \<Longrightarrow>
      store_inv (add x t) \<and> elems (add x t) = insert x (elems t)"
    and remove: "store_inv t \<Longrightarrow> x \<in> elems t \<Longrightarrow>
      store_inv (remove x t) \<and> elems (remove x t) = elems t - {x}"
begin

lemma find_None_iff: "store_inv t \<Longrightarrow> ok k \<Longrightarrow> find k t = None \<longleftrightarrow> (\<forall>x \<in> elems t. cmp k (key x) \<noteq> 0)"
  using find_iff [of t k] by (metis option.distinct(1) option.exhaust)

lemma find_elem: "store_inv t \<Longrightarrow> x \<in> elems t \<Longrightarrow> find (key x) t = Some x"
  using find_iff [of t "key x" x] elems_ok [of t x] cmp_refl by auto

lemma find_empty: "ok k \<Longrightarrow> find k empty = None"
  using find_None_iff [of empty k] empty by simp

lemma find_add:
  assumes "store_inv t" "ok (key x)" "find (key x) t = None" "ok k"
  shows "find k (add x t) = (if cmp k (key x) = 0 then Some x else find k t)"
proof (cases "cmp k (key x) = 0")
  case True
  with assms add [of t x] find_iff [of "add x t" k x] show ?thesis by simp
next
  case False
  with assms add [of t x] find_iff [of "add x t" k] find_iff [of t k] show ?thesis
    by (intro option_eqI) auto
qed

lemma find_remove:
  assumes "store_inv t" "x \<in> elems t" "ok k"
  shows "find k (remove x t) = (if cmp k (key x) = 0 then None else find k t)"
proof (cases "cmp k (key x) = 0")
  case True
  have "cmp k (key y) \<noteq> 0" if "y \<in> elems t - {x}" for y
  proof
    assume "cmp k (key y) = 0"
    with True assms that have "cmp (key x) (key y) = 0"
      using cmp_eq_left(1) [of k "key x" "key y"] elems_ok by blast
    with assms that show False using unique by blast
  qed
  with True assms remove [of t x] find_None_iff [of "remove x t" k] show ?thesis by simp
next
  case False
  with assms remove [of t x] find_iff [of "remove x t" k] find_iff [of t k] show ?thesis
    by (intro option_eqI) auto
qed

lemma add_remove:
  assumes "store_inv t" "ok (key x)" "find (key x) t = None"
  shows "store_inv (remove x (add x t)) \<and> elems (remove x (add x t)) = elems t"
proof -
  have "x \<notin> elems t" using assms find_elem [of t x] by auto
  with assms add [of t x] remove [of "add x t" x] show ?thesis by auto
qed

end

context btree begin

lemma inv_remove:
  assumes "bt_inv cmp ok key t" shows "bt_inv cmp ok key (bt_remove x t) \<and> set_tree (bt_remove x t) = set_tree t - {x}"
proof -
  from assms have io: "inorder (bt_remove x t) = filter (\<lambda>y. y \<noteq> x) (inorder t)"
    by (simp add: bt_inv_def inorder_bt_remove bt_strict_distinct)
  then have "set_tree (bt_remove x t) = set_tree t - {x}"
    unfolding set_inorder [symmetric] by auto
  with assms io show ?thesis
    by (auto simp: bt_inv_def bt_strict_def bt_keys_ok_def intro: sorted_wrt_filter)
qed

lemma inv_unique:
  assumes "bt_inv cmp ok key t" "x \<in> set_tree t" "y \<in> set_tree t" "cmp (key x) (key y) = 0" shows "x = y"
  using assms
proof (induction t)
  case (Node l z r)
  from Node.prems have ks: "\<And>u. u \<in> set_tree (Node l z r) \<Longrightarrow> ok (key u)"
    by (auto simp: bt_inv_def bt_keys_ok_def)
  have yx: "cmp (key y) (key x) = 0" using Node.prems ks cmp_sym0 by blast
  have "bt_inv cmp ok key l" "bt_inv cmp ok key r" using Node.prems by (auto simp: bt_inv_def)
  with Node yx show ?case by (fastforce simp: bt_inv_def)
qed simp

lemma inv_insert:
  assumes "bt_inv cmp ok key t" "ok (key x)" "bt_find cmp key (key x) t = None"
  shows "bt_inv cmp ok key (bt_insert cmp key x t) \<and> set_tree (bt_insert cmp key x t) = insert x (set_tree t)"
proof -
  have "\<forall>y \<in> set_tree t. cmp (key x) (key y) \<noteq> 0"
    using assms bt_find_None [of t "key x"] by (auto simp: bt_inv_def bt_strict_sorted)
  with assms show ?thesis
    by (simp add: bt_inv_def bt_strict_insert bt_keys_ok_insert set_bt_insert_fresh)
qed

lemma inv_find:
  assumes "bt_inv cmp ok key t" "ok k"
  shows "bt_find cmp key k t = Some x \<longleftrightarrow> x \<in> set_tree t \<and> cmp k (key x) = 0"
proof
  assume "bt_find cmp key k t = Some x"
  then show "x \<in> set_tree t \<and> cmp k (key x) = 0" by (rule bt_find_SomeD)
next
  assume x: "x \<in> set_tree t \<and> cmp k (key x) = 0"
  with assms obtain y where y: "bt_find cmp key k t = Some y"
    using bt_find_None [of t k x] by (auto simp: bt_inv_def bt_strict_sorted)
  then have "y \<in> set_tree t" "cmp k (key y) = 0" by (auto dest: bt_find_SomeD)
  with assms x have "cmp (key x) (key y) = 0"
    using cmp_eq_left(1) [of k "key x" "key y"] by (auto simp: bt_inv_def bt_keys_ok_def)
  with assms x \<open>y \<in> set_tree t\<close> y show "bt_find cmp key k t = Some x" using inv_unique by blast
qed

end

sublocale btree \<subseteq> plain: keyed_store cmp ok key Leaf "bt_find cmp key" "bt_insert cmp key" bt_remove set_tree "bt_inv cmp ok key"
proof
  show "bt_inv cmp ok key Leaf" by (simp add: bt_inv_def)
  show "ok (key x)" if "bt_inv cmp ok key t" "x \<in> set_tree t" for t x
    using that by (simp add: bt_inv_def bt_keys_ok_def)
qed (simp_all add: inv_find inv_insert inv_remove inv_unique)

sublocale btree \<subseteq> balanced: keyed_store cmp ok key Leaf "bt_find cmp key"
  "\<lambda>x t. bt_rebalance (bt_insert cmp key x t)" "\<lambda>x t. bt_rebalance (bt_remove x t)" set_tree "bt_inv cmp ok key"
proof
  have rb: "bt_inv cmp ok key (bt_rebalance t) = bt_inv cmp ok key t" for t by (simp add: bt_inv_def)
  show "bt_inv cmp ok key Leaf" by (simp add: bt_inv_def)
  show "bt_inv cmp ok key (bt_rebalance (bt_insert cmp key x t)) \<and> set_tree (bt_rebalance (bt_insert cmp key x t)) = insert x (set_tree t)"
    if "bt_inv cmp ok key t" "ok (key x)" "bt_find cmp key (key x) t = None" for t x
    using that by (simp add: rb inv_insert)
  show "bt_inv cmp ok key (bt_rebalance (bt_remove x t)) \<and> set_tree (bt_rebalance (bt_remove x t)) = set_tree t - {x}"
    if "bt_inv cmp ok key t" "x \<in> set_tree t" for t x
    using that by (simp add: rb inv_remove)
  show "ok (key x)" if "bt_inv cmp ok key t" "x \<in> set_tree t" for t x
    using that by (simp add: bt_inv_def bt_keys_ok_def)
qed (simp_all add: inv_find inv_unique)

text \<open>The three kinds of tree the program creates, for elements of any type.\<close>

interpretation int_tree: btree "cmp_of KeyCompareInt" small_int key for key :: "'a \<Rightarrow> BTreeKey"
  by unfold_locales

interpretation string_tree: btree "cmp_of KeyCompareString" is_string key for key :: "'a \<Rightarrow> BTreeKey"
  by unfold_locales

interpretation pthread_tree: btree "cmp_of KeyComparePthread" user_pthread key for key :: "'a \<Rightarrow> BTreeKey"
  by unfold_locales

end
