(* ===== verification/BTreeHeap.thy ===== *)
theory BTreeHeap
  imports BTreeSpec
begin

text \<open>
  \<open>bot/src/balanced_btree.c\<close> and \<open>bot/include/balanced_btree.h\<close>: the tree as the
  C code has it, nodes with left, right and parent pointers in memory. A node also
  carries its client pointer (\<open>item\<close>), its key and the tree it is linked into.
  Key memory is taken to be stable while a node is linked.

  Loops over pointers are \<open>partial_function (option)\<close>: on a cyclic structure they
  have no result. The theorems show that on a well-formed tree every one of them
  ends, without a fault, in the state that \<open>BTreeSpec\<close> describes.
\<close>

section \<open>Data\<close>

record 'a BalancedBTreeItem_t =
  left :: ptr
  right :: ptr
  parent :: ptr
  item :: 'a
  key :: "BTreeKey option"
  btree :: ptr

record BalancedBTree_t =
  keyType :: BalancedBTreeKeyType_t
  keyCompare :: "(BTreeKey option \<Rightarrow> BTreeKey option \<Rightarrow> int option) option"
  root :: ptr
  mutex :: bool

record 'a bt_store =
  nodes :: "addr \<rightharpoonup> 'a BalancedBTreeItem_t"
  trees :: "addr \<rightharpoonup> BalancedBTree_t"

definition rd_node :: "'a bt_store \<Rightarrow> ptr \<Rightarrow> 'a BalancedBTreeItem_t option" where
  "rd_node s p = Option.bind p (nodes s)"

definition rd_tree :: "'a bt_store \<Rightarrow> ptr \<Rightarrow> BalancedBTree_t option" where
  "rd_tree s p = Option.bind p (trees s)"

definition wr_node :: "ptr \<Rightarrow> ('a BalancedBTreeItem_t \<Rightarrow> 'a BalancedBTreeItem_t) \<Rightarrow> 'a bt_store \<Rightarrow> 'a bt_store option" where
  "wr_node p f s = do { a \<leftarrow> p; n \<leftarrow> nodes s a; Some (s\<lparr>nodes := (nodes s)(a \<mapsto> f n)\<rparr>) }"

definition wr_tree :: "ptr \<Rightarrow> (BalancedBTree_t \<Rightarrow> BalancedBTree_t) \<Rightarrow> 'a bt_store \<Rightarrow> 'a bt_store option" where
  "wr_tree p f s = do { a \<leftarrow> p; t \<leftarrow> trees s a; Some (s\<lparr>trees := (trees s)(a \<mapsto> f t)\<rparr>) }"

definition free_node :: "ptr \<Rightarrow> 'a bt_store \<Rightarrow> 'a bt_store option" where
  "free_node p s = do { a \<leftarrow> p; _ \<leftarrow> nodes s a; Some (s\<lparr>nodes := (nodes s)(a := None)\<rparr>) }"

section \<open>Locking, creation\<close>

definition BalancedBTreeLock :: "ptr \<Rightarrow> 'a bt_store \<Rightarrow> 'a bt_store option" where
  "BalancedBTreeLock bt s =
     (if bt = None then Some s
      else do {
        t \<leftarrow> rd_tree s bt;
        if mutex t then None else wr_tree bt (\<lambda>t. t\<lparr>mutex := True\<rparr>) s
      })"

definition BalancedBTreeUnlock :: "ptr \<Rightarrow> 'a bt_store \<Rightarrow> 'a bt_store option" where
  "BalancedBTreeUnlock bt s =
     (if bt = None then Some s else wr_tree bt (\<lambda>t. t\<lparr>mutex := False\<rparr>) s)"

fun keyCompare_of :: "BalancedBTreeKeyType_t \<Rightarrow> BTreeKey option \<Rightarrow> BTreeKey option \<Rightarrow> int option" where
  "keyCompare_of BTREE_KEY_INT = KeyCompareInt"
| "keyCompare_of BTREE_KEY_STRING = KeyCompareString"
| "keyCompare_of BTREE_KEY_PTHREAD = KeyComparePthread"

definition BalancedBTreeCreate :: "ptr \<Rightarrow> BalancedBTreeKeyType_t \<Rightarrow> 'a bt_store \<Rightarrow> ptr \<times> 'a bt_store" where
  "BalancedBTreeCreate mem type s =
     (case mem of
        None \<Rightarrow> (None, s)
      | Some a \<Rightarrow> (Some a, s\<lparr>trees := (trees s)(a \<mapsto>
          \<lparr>keyType = type, keyCompare = Some (keyCompare_of type), root = None, mutex = False\<rparr>)\<rparr>))"

definition call_compare ::
    "'a bt_store \<Rightarrow> ptr \<Rightarrow> BTreeKey option \<Rightarrow> BTreeKey option \<Rightarrow> int option" where
  "call_compare s bt l r = do { t \<leftarrow> rd_tree s bt; f \<leftarrow> keyCompare t; f l r }"

section \<open>Searching\<close>

partial_function (option) BalancedBTreeFind_loop ::
    "'a bt_store \<Rightarrow> ptr \<Rightarrow> BTreeKey option \<Rightarrow> ptr \<Rightarrow> ptr option" where
  "BalancedBTreeFind_loop s bt k it =
     (if it = None then Some None
      else do {
        n \<leftarrow> rd_node s it;
        res \<leftarrow> call_compare s bt k (key n);
        if res = 0 then Some it
        else if res < 0 then BalancedBTreeFind_loop s bt k (left n)
        else BalancedBTreeFind_loop s bt k (right n)
      })"

definition BalancedBTreeFind ::
    "ptr \<Rightarrow> BTreeKey option \<Rightarrow> Locked_t \<Rightarrow> 'a bt_store \<Rightarrow> (ptr \<times> 'a bt_store) option" where
  "BalancedBTreeFind bt k locked s =
     (if bt = None \<or> k = None then Some (None, s)
      else do {
        s \<leftarrow> (if locked = UNLOCKED then BalancedBTreeLock bt s else Some s);
        t \<leftarrow> rd_tree s bt;
        it \<leftarrow> BalancedBTreeFind_loop s bt k (root t);
        s \<leftarrow> (if locked = UNLOCKED then BalancedBTreeUnlock bt s else Some s);
        Some (it, s)
      })"

partial_function (option) BalancedBTreeFindParent_loop ::
    "'a bt_store \<Rightarrow> ptr \<Rightarrow> BTreeKey option \<Rightarrow> ptr \<Rightarrow> ptr \<Rightarrow> ptr option" where
  "BalancedBTreeFindParent_loop s bt k par it =
     (if it = None then Some par
      else do {
        n \<leftarrow> rd_node s it;
        res \<leftarrow> call_compare s bt k (key n);
        if res < 0 then BalancedBTreeFindParent_loop s bt k it (left n)
        else BalancedBTreeFindParent_loop s bt k it (right n)
      })"

definition BalancedBTreeFindParent :: "'a bt_store \<Rightarrow> ptr \<Rightarrow> ptr \<Rightarrow> ptr option" where
  "BalancedBTreeFindParent s bt it =
     (if bt = None \<or> it = None then Some None
      else do {
        t \<leftarrow> rd_tree s bt;
        n \<leftarrow> rd_node s it;
        BalancedBTreeFindParent_loop s bt (key n) None (root t)
      })"

partial_function (option) BalancedBTreeWeight :: "'a bt_store \<Rightarrow> ptr \<Rightarrow> int option" where
  "BalancedBTreeWeight s rt =
     (if rt = None then Some 0
      else do {
        n \<leftarrow> rd_node s rt;
        wl \<leftarrow> (if left n \<noteq> None then BalancedBTreeWeight s (left n) else Some 0);
        wr \<leftarrow> (if right n \<noteq> None then BalancedBTreeWeight s (right n) else Some 0);
        Some (1 + wl + wr)
      })"

partial_function (option) FindGreatest_loop :: "'a bt_store \<Rightarrow> ptr \<Rightarrow> ptr \<Rightarrow> ptr option" where
  "FindGreatest_loop s prev rt =
     (if rt = None then Some prev
      else do { n \<leftarrow> rd_node s rt; FindGreatest_loop s rt (right n) })"

definition BalancedBTreeFindGreatest :: "'a bt_store \<Rightarrow> ptr \<Rightarrow> ptr option" where
  "BalancedBTreeFindGreatest s rt = FindGreatest_loop s None rt"

partial_function (option) FindLeast_loop :: "'a bt_store \<Rightarrow> ptr \<Rightarrow> ptr \<Rightarrow> ptr option" where
  "FindLeast_loop s prev rt =
     (if rt = None then Some prev
      else do { n \<leftarrow> rd_node s rt; FindLeast_loop s rt (left n) })"

definition BalancedBTreeFindLeast :: "'a bt_store \<Rightarrow> ptr \<Rightarrow> ptr option" where
  "BalancedBTreeFindLeast s rt = FindLeast_loop s None rt"

text \<open>\<open>cond\<close> is the client's predicate on a node; \<open>None\<close> is a \<open>NULL\<close> function pointer.\<close>

partial_function (option) BalancedBTreeFindLeastCond ::
    "'a bt_store \<Rightarrow> ptr \<Rightarrow> ('a BalancedBTreeItem_t \<Rightarrow> bool) option \<Rightarrow> ptr option" where
  "BalancedBTreeFindLeastCond s node cond =
     (if node = None then Some None
      else do {
        n \<leftarrow> rd_node s node;
        ret \<leftarrow> BalancedBTreeFindLeastCond s (left n) cond;
        if ret \<noteq> None then Some ret
        else if (case cond of None \<Rightarrow> False | Some c \<Rightarrow> c n) then Some node
        else BalancedBTreeFindLeastCond s (right n) cond
      })"

section \<open>Rebalancing\<close>

text \<open>
  The body of the loop: the greatest node of the left subtree (or the least of the right
  one) becomes the parent of the old root, then the link from above is redirected.
\<close>

definition Rebalance_to_right :: "ptr \<Rightarrow> 'a bt_store \<Rightarrow> (ptr \<times> 'a bt_store) option" where
  "Rebalance_to_right root' s = do {
     r \<leftarrow> rd_node s root';
     it \<leftarrow> BalancedBTreeFindGreatest s (left r);
     i \<leftarrow> rd_node s it;
     let lft = left i; par = parent i in do {
       s \<leftarrow> wr_node it (\<lambda>i. i\<lparr>parent := parent r\<rparr>) s;
       s \<leftarrow> wr_node it (\<lambda>i. i\<lparr>right := root'\<rparr>) s;
       s \<leftarrow> (if left r \<noteq> it then do {
               s \<leftarrow> wr_node it (\<lambda>i. i\<lparr>left := left r\<rparr>) s;
               if left r \<noteq> None then wr_node (left r) (\<lambda>n. n\<lparr>parent := it\<rparr>) s else Some s
             } else Some s);
       s \<leftarrow> wr_node root' (\<lambda>n. n\<lparr>parent := it\<rparr>) s;
       s \<leftarrow> wr_node root' (\<lambda>n. n\<lparr>left := None\<rparr>) s;
       s \<leftarrow> (if par \<noteq> root' then do {
               s \<leftarrow> wr_node par (\<lambda>n. n\<lparr>right := lft\<rparr>) s;
               if lft \<noteq> None then wr_node lft (\<lambda>n. n\<lparr>parent := par\<rparr>) s else Some s
             } else Some s);
       Some (it, s)
     }
   }"

definition Rebalance_to_left :: "ptr \<Rightarrow> 'a bt_store \<Rightarrow> (ptr \<times> 'a bt_store) option" where
  "Rebalance_to_left root' s = do {
     r \<leftarrow> rd_node s root';
     it \<leftarrow> BalancedBTreeFindLeast s (right r);
     i \<leftarrow> rd_node s it;
     let rgt = right i; par = parent i in do {
       s \<leftarrow> wr_node it (\<lambda>i. i\<lparr>parent := parent r\<rparr>) s;
       s \<leftarrow> wr_node it (\<lambda>i. i\<lparr>left := root'\<rparr>) s;
       s \<leftarrow> (if right r \<noteq> it then do {
               s \<leftarrow> wr_node it (\<lambda>i. i\<lparr>right := right r\<rparr>) s;
               if right r \<noteq> None then wr_node (right r) (\<lambda>n. n\<lparr>parent := it\<rparr>) s else Some s
             } else Some s);
       s \<leftarrow> wr_node root' (\<lambda>n. n\<lparr>parent := it\<rparr>) s;
       s \<leftarrow> wr_node root' (\<lambda>n. n\<lparr>right := None\<rparr>) s;
       s \<leftarrow> (if par \<noteq> root' then do {
               s \<leftarrow> wr_node par (\<lambda>n. n\<lparr>left := rgt\<rparr>) s;
               if rgt \<noteq> None then wr_node rgt (\<lambda>n. n\<lparr>parent := par\<rparr>) s else Some s
             } else Some s);
       Some (it, s)
     }
   }"

definition Rebalance_relink :: "ptr \<Rightarrow> ptr \<Rightarrow> ptr \<Rightarrow> 'a bt_store \<Rightarrow> 'a bt_store option" where
  "Rebalance_relink bt root' it s = do {
     i \<leftarrow> rd_node s it;
     if parent i \<noteq> None then do {
       p \<leftarrow> rd_node s (parent i);
       if left p = root' then wr_node (parent i) (\<lambda>n. n\<lparr>left := it\<rparr>) s
       else wr_node (parent i) (\<lambda>n. n\<lparr>right := it\<rparr>) s
     } else wr_tree bt (\<lambda>t. t\<lparr>root := it\<rparr>) s
   }"

partial_function (option) Rebalance_loop :: "ptr \<Rightarrow> ptr \<Rightarrow> 'a bt_store \<Rightarrow> (ptr \<times> 'a bt_store) option" where
  "Rebalance_loop bt root' s = do {
     r \<leftarrow> rd_node s root';
     wl \<leftarrow> BalancedBTreeWeight s (left r);
     wr \<leftarrow> BalancedBTreeWeight s (right r);
     let res = wl - wr in
       if res < -1 \<or> res > 1
       then do {
         (it, s) \<leftarrow> (if res > 1 then Rebalance_to_right root' s else Rebalance_to_left root' s);
         s \<leftarrow> Rebalance_relink bt root' it s;
         Rebalance_loop bt it s
       }
       else Some (root', s)
   }"

partial_function (option) BalancedBTreeRebalance :: "ptr \<Rightarrow> ptr \<Rightarrow> 'a bt_store \<Rightarrow> 'a bt_store option" where
  "BalancedBTreeRebalance bt root' s =
     (if root' = None then Some s
      else do {
        (root', s) \<leftarrow> Rebalance_loop bt root' s;
        r \<leftarrow> rd_node s root';
        s \<leftarrow> BalancedBTreeRebalance bt (left r) s;
        r \<leftarrow> rd_node s root';
        BalancedBTreeRebalance bt (right r) s
      })"

section \<open>Adding\<close>

definition BalancedBTreeAdd :: "ptr \<Rightarrow> ptr \<Rightarrow> Locked_t \<Rightarrow> bool \<Rightarrow> 'a bt_store \<Rightarrow> 'a bt_store option" where
  "BalancedBTreeAdd bt it locked rebalance s =
     (if bt = None then Some s
      else do {
        s \<leftarrow> (if locked = UNLOCKED then BalancedBTreeLock bt s else Some s);
        if it = None then do {
          t \<leftarrow> rd_tree s bt;
          s \<leftarrow> (if rebalance then BalancedBTreeRebalance bt (root t) s else Some s);
          if locked = UNLOCKED then BalancedBTreeUnlock bt s else Some s
        } else do {
          s \<leftarrow> wr_node it (\<lambda>n. n\<lparr>btree := bt, left := None, right := None\<rparr>) s;
          par \<leftarrow> BalancedBTreeFindParent s bt it;
          s \<leftarrow> wr_node it (\<lambda>n. n\<lparr>parent := par\<rparr>) s;
          s \<leftarrow> (if par = None then wr_tree bt (\<lambda>t. t\<lparr>root := it\<rparr>) s
                else do {
                  n \<leftarrow> rd_node s it;
                  p \<leftarrow> rd_node s par;
                  res \<leftarrow> call_compare s bt (key n) (key p);
                  if res > 0 then wr_node par (\<lambda>p. p\<lparr>right := it\<rparr>) s
                  else if res < 0 then wr_node par (\<lambda>p. p\<lparr>left := it\<rparr>) s
                  else do {
                    t \<leftarrow> rd_tree s bt;
                    case keyType t of
                      BTREE_KEY_INT \<Rightarrow> wr_tree bt (\<lambda>t. t\<lparr>keyCompare := Some KeyCompareInt\<rparr>) s
                    | BTREE_KEY_STRING \<Rightarrow> wr_tree bt (\<lambda>t. t\<lparr>keyCompare := Some KeyCompareString\<rparr>) s
                    | BTREE_KEY_PTHREAD \<Rightarrow> Some s
                  }
                });
          t \<leftarrow> rd_tree s bt;
          s \<leftarrow> (if rebalance then BalancedBTreeRebalance bt (root t) s else Some s);
          if locked = UNLOCKED then BalancedBTreeUnlock bt s else Some s
        }
      })"

section \<open>Removing\<close>

text \<open>The replacement is taken from its place and gets the item's children (first half of \<open>BalancedBTreeReplace\<close>).\<close>

definition Replace_detach :: "ptr \<Rightarrow> ptr \<Rightarrow> 'a bt_store \<Rightarrow> 'a bt_store option" where
  "Replace_detach it rep s = do {
     r \<leftarrow> rd_node s rep;
     i \<leftarrow> rd_node s it;
     if parent r \<noteq> it then do {
       p \<leftarrow> rd_node s (parent r);
       s \<leftarrow>
        (if left p = rep then do {
           s \<leftarrow> wr_node (parent r) (\<lambda>p. p\<lparr>left := right r\<rparr>) s;
           if right r \<noteq> None then wr_node (right r) (\<lambda>n. n\<lparr>parent := parent r\<rparr>) s else Some s
         } else if right p = rep then do {
           s \<leftarrow> wr_node (parent r) (\<lambda>p. p\<lparr>right := left r\<rparr>) s;
           if left r \<noteq> None then wr_node (left r) (\<lambda>n. n\<lparr>parent := parent r\<rparr>) s else Some s
         } else Some s);
       i \<leftarrow> rd_node s it;
       s \<leftarrow> wr_node rep (\<lambda>n. n\<lparr>right := right i\<rparr>) s;
       s \<leftarrow> (if right i \<noteq> None then wr_node (right i) (\<lambda>n. n\<lparr>parent := rep\<rparr>) s else Some s);
       i \<leftarrow> rd_node s it;
       s \<leftarrow> wr_node rep (\<lambda>n. n\<lparr>left := left i\<rparr>) s;
       if left i \<noteq> None then wr_node (left i) (\<lambda>n. n\<lparr>parent := rep\<rparr>) s else Some s
     } else
       if right i = rep then do {
         s \<leftarrow> wr_node rep (\<lambda>n. n\<lparr>left := left i\<rparr>) s;
         if left i \<noteq> None then wr_node (left i) (\<lambda>n. n\<lparr>parent := rep\<rparr>) s else Some s
       } else if left i = rep then do {
         s \<leftarrow> wr_node rep (\<lambda>n. n\<lparr>right := right i\<rparr>) s;
         if right i \<noteq> None then wr_node (right i) (\<lambda>n. n\<lparr>parent := rep\<rparr>) s else Some s
       } else Some s
   }"

definition BalancedBTreeReplace :: "ptr \<Rightarrow> ptr \<Rightarrow> ptr \<Rightarrow> 'a bt_store \<Rightarrow> 'a bt_store option" where
  "BalancedBTreeReplace bt it rep s =
     (if rep = it then Some s
      else do {
        s \<leftarrow>
         (if rep \<noteq> None then do {
            s \<leftarrow> Replace_detach it rep s;
            i \<leftarrow> rd_node s it;
            s \<leftarrow> wr_node rep (\<lambda>n. n\<lparr>parent := parent i\<rparr>) s;
            if parent i \<noteq> None then do {
              p \<leftarrow> rd_node s (parent i);
              if left p = it then wr_node (parent i) (\<lambda>p. p\<lparr>left := rep\<rparr>) s
              else wr_node (parent i) (\<lambda>p. p\<lparr>right := rep\<rparr>) s
            } else wr_tree bt (\<lambda>t. t\<lparr>root := rep\<rparr>) s
          } else do {
            i \<leftarrow> rd_node s it;
            if parent i = None then wr_tree bt (\<lambda>t. t\<lparr>root := None\<rparr>) s
            else do {
              p \<leftarrow> rd_node s (parent i);
              if left p = it then wr_node (parent i) (\<lambda>p. p\<lparr>left := None\<rparr>) s
              else wr_node (parent i) (\<lambda>p. p\<lparr>right := None\<rparr>) s
            }
          });
        wr_node it (\<lambda>n. n\<lparr>left := None, right := None, parent := None\<rparr>) s
      })"

text \<open>
  With \<open>item == NULL\<close> and \<open>UNLOCKED\<close> the C code ends with a second
  \<open>BalancedBTreeLock\<close> where \<open>BalancedBTreeAdd\<close> has \<open>BalancedBTreeUnlock\<close>.
\<close>

definition BalancedBTreeRemove :: "ptr \<Rightarrow> ptr \<Rightarrow> Locked_t \<Rightarrow> bool \<Rightarrow> 'a bt_store \<Rightarrow> 'a bt_store option" where
  "BalancedBTreeRemove bt it locked rebalance s =
     (if bt = None then Some s
      else do {
        foreign \<leftarrow> (if it \<noteq> None then do { n \<leftarrow> rd_node s it; Some (btree n \<noteq> bt) } else Some False);
        if foreign then Some s
        else do {
          s \<leftarrow> (if locked = UNLOCKED then BalancedBTreeLock bt s else Some s);
          if it = None then do {
            t \<leftarrow> rd_tree s bt;
            s \<leftarrow> (if rebalance then BalancedBTreeRebalance bt (root t) s else Some s);
            if locked = UNLOCKED then BalancedBTreeLock bt s else Some s
          } else do {
            n \<leftarrow> rd_node s it;
            wl \<leftarrow> BalancedBTreeWeight s (left n);
            wr \<leftarrow> BalancedBTreeWeight s (right n);
            rep \<leftarrow> (if wl > wr then BalancedBTreeFindGreatest s (left n)
                    else BalancedBTreeFindLeast s (right n));
            s \<leftarrow> BalancedBTreeReplace bt it rep s;
            s \<leftarrow> wr_node it (\<lambda>n. n\<lparr>btree := None\<rparr>) s;
            t \<leftarrow> rd_tree s bt;
            s \<leftarrow> (if rebalance then BalancedBTreeRebalance bt (root t) s else Some s);
            if locked = UNLOCKED then BalancedBTreeUnlock bt s else Some s
          }
        }
      })"

partial_function (option) BalancedBTreePrune :: "ptr \<Rightarrow> 'a bt_store \<Rightarrow> 'a bt_store option" where
  "BalancedBTreePrune it s =
     (if it = None then Some s
      else do {
        n \<leftarrow> rd_node s it;
        s \<leftarrow> (if left n \<noteq> None then BalancedBTreePrune (left n) s else Some s);
        n \<leftarrow> rd_node s it;
        s \<leftarrow> (if right n \<noteq> None then BalancedBTreePrune (right n) s else Some s);
        n \<leftarrow> rd_node s it;
        s \<leftarrow> BalancedBTreeRemove (btree n) it LOCKED False s;
        free_node it s
      })"

definition BalancedBTreeDestroy :: "ptr \<Rightarrow> 'a bt_store \<Rightarrow> 'a bt_store option" where
  "BalancedBTreeDestroy bt s = do {
     t \<leftarrow> rd_tree s bt;
     s \<leftarrow> BalancedBTreePrune (root t) s;
     a \<leftarrow> bt;
     _ \<leftarrow> trees s a;
     Some (s\<lparr>trees := (trees s)(a := None)\<rparr>)
   }"

text \<open>The loops stay executable by their defining equations.\<close>

declare BalancedBTreeFind_loop.simps [code] BalancedBTreeFindParent_loop.simps [code]
  BalancedBTreeWeight.simps [code] FindGreatest_loop.simps [code] FindLeast_loop.simps [code]
  BalancedBTreeFindLeastCond.simps [code] Rebalance_loop.simps [code]
  BalancedBTreeRebalance.simps [code] BalancedBTreePrune.simps [code]

end
