(* ===== verification/BTreeRefine.thy ===== *)
theory BTreeRefine
  imports BTreeHeap
begin

text \<open>
  The C code of \<open>balanced_btree.c\<close> (theory \<open>BTreeHeap\<close>) implements the tree
  functions of \<open>BTreeSpec\<close>. \<open>bt_rep s T kt t\<close>: the tree object at address
  \<open>T\<close> has the shape \<open>t\<close>, a tree of node addresses. Each operation is shown to
  end without fault in a store that represents the tree the specification gives, with
  the client data and the keys of every node unchanged.
\<close>

section \<open>Representation\<close>

fun rootp :: "addr tree \<Rightarrow> ptr" where
  "rootp Leaf = None"
| "rootp (Node l a r) = Some a"

fun bt_at :: "(addr \<rightharpoonup> 'a BalancedBTreeItem_t) \<Rightarrow> addr \<Rightarrow> ptr \<Rightarrow> addr tree \<Rightarrow> bool" where
  "bt_at h T par Leaf \<longleftrightarrow> True"
| "bt_at h T par (Node l a r) \<longleftrightarrow>
     (\<exists>n. h a = Some n \<and> parent n = par \<and> left n = rootp l \<and> right n = rootp r \<and> btree n = Some T) \<and>
     bt_at h T (Some a) l \<and> bt_at h T (Some a) r"

fun key_of_type :: "BalancedBTreeKeyType_t \<Rightarrow> BTreeKey \<Rightarrow> bool" where
  "key_of_type BTREE_KEY_INT k \<longleftrightarrow> (case k of KInt _ \<Rightarrow> True | _ \<Rightarrow> False)"
| "key_of_type BTREE_KEY_STRING k \<longleftrightarrow> (case k of KString _ \<Rightarrow> True | _ \<Rightarrow> False)"
| "key_of_type BTREE_KEY_PTHREAD k \<longleftrightarrow> (case k of KPthread _ \<Rightarrow> True | _ \<Rightarrow> False)"

definition key_typed :: "BalancedBTreeKeyType_t \<Rightarrow> (addr \<rightharpoonup> 'a BalancedBTreeItem_t) \<Rightarrow> addr \<Rightarrow> bool" where
  "key_typed kt h a \<longleftrightarrow> (\<exists>n k. h a = Some n \<and> key n = Some k \<and> key_of_type kt k)"

text \<open>The key stored in a node (nodes of a represented tree have one).\<close>

definition nkey :: "(addr \<rightharpoonup> 'a BalancedBTreeItem_t) \<Rightarrow> addr \<Rightarrow> BTreeKey" where
  "nkey h a = (case h a of Some n \<Rightarrow> (case key n of Some k \<Rightarrow> k | None \<Rightarrow> KString []) | None \<Rightarrow> KString [])"

abbreviation type_cmp :: "BalancedBTreeKeyType_t \<Rightarrow> BTreeKey \<Rightarrow> BTreeKey \<Rightarrow> int" where
  "type_cmp kt \<equiv> cmp_of (keyCompare_of kt)"

definition tree_obj :: "'a bt_store \<Rightarrow> addr \<Rightarrow> BalancedBTreeKeyType_t \<Rightarrow> bool" where
  "tree_obj s T kt \<longleftrightarrow>
     (\<exists>t. trees s T = Some t \<and> keyType t = kt \<and> keyCompare t = Some (keyCompare_of kt))"

definition bt_rep :: "'a bt_store \<Rightarrow> addr \<Rightarrow> BalancedBTreeKeyType_t \<Rightarrow> addr tree \<Rightarrow> bool" where
  "bt_rep s T kt t \<longleftrightarrow> distinct (inorder t) \<and> bt_at (nodes s) T None t \<and> tree_obj s T kt \<and>
     map_option root (trees s T) = Some (rootp t) \<and> (\<forall>a \<in> set_tree t. key_typed kt (nodes s) a)"

definition bt_locked :: "'a bt_store \<Rightarrow> addr \<Rightarrow> bool" where
  "bt_locked s T = (case trees s T of None \<Rightarrow> False | Some t \<Rightarrow> mutex t)"

text \<open>What no tree operation changes: the client pointer and the key of every node.\<close>

definition bt_data :: "(addr \<rightharpoonup> 'a BalancedBTreeItem_t) \<Rightarrow> addr \<Rightarrow> ('a \<times> BTreeKey option) option" where
  "bt_data h a = map_option (\<lambda>n. (item n, key n)) (h a)"

lemma rootp_None [simp]: "rootp t = None \<longleftrightarrow> t = Leaf" "None = rootp t \<longleftrightarrow> t = Leaf"
  by (cases t; simp)+

lemma rootp_in: "rootp t = Some a \<Longrightarrow> a \<in> set_tree t"
  by (cases t) auto

lemma bt_at_cong: "(\<And>b. b \<in> set_tree t \<Longrightarrow> h' b = h b) \<Longrightarrow> bt_at h' T par t = bt_at h T par t"
  by (induction t arbitrary: par) auto

lemma bt_at_upd [simp]: "a \<notin> set_tree t \<Longrightarrow> bt_at (h(a := x)) T par t = bt_at h T par t"
  by (rule bt_at_cong) auto

lemma bt_at_alloc: "bt_at h T par t \<Longrightarrow> a \<in> set_tree t \<Longrightarrow> \<exists>n. h a = Some n \<and> btree n = Some T"
  by (induction t arbitrary: par) auto

lemma nkey_data: "bt_data h' = bt_data h \<Longrightarrow> nkey h' = nkey h"
proof (rule ext)
  fix a assume "bt_data h' = bt_data h"
  then have "bt_data h' a = bt_data h a" by simp
  then show "nkey h' a = nkey h a"
    by (auto simp: bt_data_def nkey_def split: option.splits)
qed

lemma key_typed_data: "bt_data h' a = bt_data h a \<Longrightarrow> key_typed kt h' a = key_typed kt h a"
  by (cases "h a"; cases "h' a") (auto simp: bt_data_def key_typed_def)

lemma rd_node_Some [simp]: "rd_node s (Some a) = nodes s a" "rd_node s None = None"
  by (simp_all add: rd_node_def)

lemma rd_tree_Some [simp]: "rd_tree s (Some a) = trees s a"
  by (simp add: rd_tree_def)

lemma wr_node_Some:
  "nodes s a = Some n \<Longrightarrow> wr_node (Some a) f s = Some (s\<lparr>nodes := (nodes s)(a \<mapsto> f n)\<rparr>)"
  by (simp add: wr_node_def)

lemma wr_tree_Some:
  "trees s a = Some t \<Longrightarrow> wr_tree (Some a) f s = Some (s\<lparr>trees := (trees s)(a \<mapsto> f t)\<rparr>)"
  by (simp add: wr_tree_def)

section \<open>Reading the tree\<close>

lemma FindGreatest_loop_at:
  "bt_at (nodes s) T par t \<Longrightarrow>
   FindGreatest_loop s prev (rootp t) = Some (if t = Leaf then prev else Some (max_of t))"
  by (induction t arbitrary: par prev) (subst FindGreatest_loop.simps; force)+

lemma FindLeast_loop_at:
  "bt_at (nodes s) T par t \<Longrightarrow>
   FindLeast_loop s prev (rootp t) = Some (if t = Leaf then prev else Some (min_of t))"
  by (induction t arbitrary: par prev) (subst FindLeast_loop.simps; force)+

lemma FindGreatest_at:
  "bt_at (nodes s) T par t \<Longrightarrow> t \<noteq> Leaf \<Longrightarrow> BalancedBTreeFindGreatest s (rootp t) = Some (Some (max_of t))"
  by (simp add: BalancedBTreeFindGreatest_def FindGreatest_loop_at)

lemma FindLeast_at:
  "bt_at (nodes s) T par t \<Longrightarrow>
   BalancedBTreeFindLeast s (rootp t) = Some (if t = Leaf then None else Some (min_of t))"
  by (simp add: BalancedBTreeFindLeast_def FindLeast_loop_at)

lemma Weight_at: "bt_at (nodes s) T par t \<Longrightarrow> BalancedBTreeWeight s (rootp t) = Some (int (size t))"
proof (induction t arbitrary: par)
  case Leaf
  then show ?case by (subst BalancedBTreeWeight.simps) simp
next
  case (Node l a r)
  then show ?case by (subst BalancedBTreeWeight.simps) auto
qed

lemma FindLeastCond_at:
  "bt_at (nodes s) T par t \<Longrightarrow>
   BalancedBTreeFindLeastCond s (rootp t) (Some c) =
     Some (bt_least_cond (\<lambda>a. case nodes s a of Some n \<Rightarrow> c n | None \<Rightarrow> False) t)"
proof (induction t arbitrary: par)
  case Leaf
  then show ?case by (subst BalancedBTreeFindLeastCond.simps) simp
next
  case (Node l a r)
  then obtain n where n: "nodes s a = Some n" "left n = rootp l" "right n = rootp r" by auto
  with Node.IH Node.prems show ?case
    by (subst BalancedBTreeFindLeastCond.simps) (auto split: option.split)
qed

lemma keyCompare_typed:
  "key_of_type kt a \<Longrightarrow> key_of_type kt b \<Longrightarrow> keyCompare_of kt (Some a) (Some b) = Some (type_cmp kt a b)"
  by (cases kt; cases a; cases b) (auto simp: cmp_of_def)

lemma call_compare_typed:
  "tree_obj s T kt \<Longrightarrow> key_of_type kt k \<Longrightarrow> key_typed kt (nodes s) a \<Longrightarrow> nodes s a = Some n \<Longrightarrow>
   call_compare s (Some T) (Some k) (key n) = Some (type_cmp kt k (nkey (nodes s) a))"
  by (auto simp: call_compare_def tree_obj_def key_typed_def nkey_def keyCompare_typed)

lemma Find_loop_at:
  "bt_at (nodes s) T par t \<Longrightarrow> tree_obj s T kt \<Longrightarrow> key_of_type kt k \<Longrightarrow>
   \<forall>a \<in> set_tree t. key_typed kt (nodes s) a \<Longrightarrow>
   BalancedBTreeFind_loop s (Some T) (Some k) (rootp t) = Some (bt_find (type_cmp kt) (nkey (nodes s)) k t)"
proof (induction t arbitrary: par)
  case Leaf
  then show ?case by (subst BalancedBTreeFind_loop.simps) simp
next
  case (Node l a r)
  then obtain n where n: "nodes s a = Some n" "left n = rootp l" "right n = rootp r" by auto
  with Node call_compare_typed [of s T kt k a n] show ?case
    by (subst BalancedBTreeFind_loop.simps) auto
qed

text \<open>The node under which a new key is linked.\<close>

fun ins_parent :: "('k \<Rightarrow> 'k \<Rightarrow> int) \<Rightarrow> ('a \<Rightarrow> 'k) \<Rightarrow> 'k \<Rightarrow> 'a tree \<Rightarrow> 'a option" where
  "ins_parent cmp kf k Leaf = None"
| "ins_parent cmp kf k (Node l y r) =
     (case ins_parent cmp kf k (if cmp k (kf y) < 0 then l else r) of
        None \<Rightarrow> Some y | Some p \<Rightarrow> Some p)"

lemma ins_parent_in: "ins_parent cmp kf k t = Some p \<Longrightarrow> p \<in> set_tree t"
  by (induction t) (auto split: if_splits option.splits)

lemma ins_parent_None [simp]: "ins_parent cmp kf k t = None \<longleftrightarrow> t = Leaf"
  by (cases t) (auto split: option.splits)

lemma FindParent_loop_at:
  "bt_at (nodes s) T par t \<Longrightarrow> tree_obj s T kt \<Longrightarrow> key_of_type kt k \<Longrightarrow>
   \<forall>a \<in> set_tree t. key_typed kt (nodes s) a \<Longrightarrow>
   BalancedBTreeFindParent_loop s (Some T) (Some k) q (rootp t) =
     Some (case ins_parent (type_cmp kt) (nkey (nodes s)) k t of None \<Rightarrow> q | Some p \<Rightarrow> Some p)"
proof (induction t arbitrary: par q)
  case Leaf
  then show ?case by (subst BalancedBTreeFindParent_loop.simps) simp
next
  case (Node l a r)
  then obtain n where n: "nodes s a = Some n" "left n = rootp l" "right n = rootp r" by auto
  with Node call_compare_typed [of s T kt k a n] show ?case
    by (subst BalancedBTreeFindParent_loop.simps) (auto split: option.split)
qed

section \<open>Linking a new node\<close>

lemma rootp_insert: "t \<noteq> Leaf \<Longrightarrow> rootp (bt_insert cmp kf a t) = rootp t"
  by (cases t) auto

lemma bt_insert_dup:
  "ins_parent cmp kf (kf a) t = Some p \<Longrightarrow> cmp (kf a) (kf p) = 0 \<Longrightarrow> bt_insert cmp kf a t = t"
  by (induction t) (auto split: if_splits option.splits)

definition link_child :: "ptr \<Rightarrow> int \<Rightarrow> 'a BalancedBTreeItem_t \<Rightarrow> 'a BalancedBTreeItem_t" where
  "link_child it res n = (if res > 0 then n\<lparr>right := it\<rparr> else if res < 0 then n\<lparr>left := it\<rparr> else n)"

lemma bt_at_link:
  assumes "bt_at h T par t" "distinct (inorder t)" "a \<notin> set_tree t"
    and "ins_parent cmp kf (kf a) t = Some p" "cmp (kf a) (kf p) \<noteq> 0"
    and "h2 a = Some na" "left na = None" "right na = None" "parent na = Some p" "btree na = Some T"
    and "h2 p = map_option (link_child (Some a) (cmp (kf a) (kf p))) (h p)"
    and "\<forall>b \<in> set_tree t - {p}. h2 b = h b"
  shows "bt_at h2 T par (bt_insert cmp kf a t)"
  using assms
proof (induction t arbitrary: par)
  case (Node l y r)
  from Node.prems(1) obtain n where n: "h y = Some n" "parent n = par" "left n = rootp l" "right n = rootp r" "btree n = Some T"
    and l: "bt_at h T (Some y) l" and r: "bt_at h T (Some y) r" by auto
  from Node.prems(2) have d: "y \<notin> set_tree l" "y \<notin> set_tree r" "set_tree l \<inter> set_tree r = {}"
    "distinct (inorder l)" "distinct (inorder r)" by auto
  show ?case
  proof (cases "cmp (kf a) (kf y) < 0")
    case True
    show ?thesis
    proof (cases "l = Leaf")
      case True
      with Node.prems \<open>cmp (kf a) (kf y) < 0\<close> have p: "p = y" by simp
      have "bt_at h2 T (Some y) r" using r Node.prems(12) p d by (subst bt_at_cong [of r h2 h]) auto
      with True p n \<open>cmp (kf a) (kf y) < 0\<close> Node.prems show ?thesis by (auto simp: link_child_def)
    next
      case False
      with Node.prems(4) \<open>cmp (kf a) (kf y) < 0\<close> have ip: "ins_parent cmp kf (kf a) l = Some p"
        by (auto split: option.splits)
      then have pl: "p \<in> set_tree l" by (rule ins_parent_in)
      have "bt_at h2 T (Some y) r" using r Node.prems(12) pl d by (subst bt_at_cong [of r h2 h]) auto
      moreover have "bt_at h2 T (Some y) (bt_insert cmp kf a l)"
        using Node.IH(1) [OF l d(4) _ ip] Node.prems by auto
      moreover have "h2 y = h y" using Node.prems(12) pl d by auto
      ultimately show ?thesis using n False \<open>cmp (kf a) (kf y) < 0\<close> by (simp add: rootp_insert)
    qed
  next
    case ge: False
    show ?thesis
    proof (cases "r = Leaf")
      case True
      with Node.prems ge have p: "p = y" by simp
      have "bt_at h2 T (Some y) l" using l Node.prems(12) p d by (subst bt_at_cong [of l h2 h]) auto
      with True p n ge Node.prems show ?thesis by (auto simp: link_child_def)
    next
      case False
      with Node.prems(4) ge have ip: "ins_parent cmp kf (kf a) r = Some p"
        by (auto split: option.splits)
      then have pr: "p \<in> set_tree r" by (rule ins_parent_in)
      have "bt_at h2 T (Some y) l" using l Node.prems(12) pr d by (subst bt_at_cong [of l h2 h]) auto
      moreover have "bt_at h2 T (Some y) (bt_insert cmp kf a r)"
        using Node.IH(2) [OF r d(5) _ ip] Node.prems by auto
      moreover have "h2 y = h y" using Node.prems(12) pr d by auto
      ultimately show ?thesis using n False ge by (simp add: rootp_insert)
    qed
  qed
qed simp

section \<open>Taking the greatest or the least node out of a subtree\<close>

lemma bt_at_reparent:
  assumes "bt_at h T q t" "distinct (inorder t)"
    and "\<forall>b \<in> set_tree t. h2 b = (if rootp t = Some b then map_option (\<lambda>n. n\<lparr>parent := q'\<rparr>) (h b) else h b)"
  shows "bt_at h2 T q' t"
proof (cases t)
  case (Node l a r)
  with assms(2) have d: "a \<notin> set_tree l" "a \<notin> set_tree r" by auto
  have "bt_at h2 T (Some a) l \<longleftrightarrow> bt_at h T (Some a) l" "bt_at h2 T (Some a) r \<longleftrightarrow> bt_at h T (Some a) r"
    using assms(3) d Node by (auto intro!: bt_at_cong)
  with assms(1,3) Node show ?thesis by auto
qed simp

definition unlink_right :: "addr \<Rightarrow> ptr \<Rightarrow> ptr \<Rightarrow> ptr \<Rightarrow> addr \<Rightarrow> 'a BalancedBTreeItem_t \<Rightarrow> 'a BalancedBTreeItem_t" where
  "unlink_right p c rt q b n =
     n\<lparr>right := (if b = p then c else right n),
       parent := (if Some b = c then Some p else if Some b = rt then q else parent n)\<rparr>"

definition unlink_left :: "addr \<Rightarrow> ptr \<Rightarrow> ptr \<Rightarrow> ptr \<Rightarrow> addr \<Rightarrow> 'a BalancedBTreeItem_t \<Rightarrow> 'a BalancedBTreeItem_t" where
  "unlink_left p c rt q b n =
     n\<lparr>left := (if b = p then c else left n),
       parent := (if Some b = c then Some p else if Some b = rt then q else parent n)\<rparr>"

lemma set_del_max: "t \<noteq> Leaf \<Longrightarrow> distinct (inorder t) \<Longrightarrow> set_tree (del_max t) = set_tree t - {max_of t}"
proof -
  assume t: "t \<noteq> Leaf" and d: "distinct (inorder t)"
  from inorder_del_max [OF t] have "set_tree t = insert (max_of t) (set_tree (del_max t))"
    by (metis set_inorder list.simps(15) rotate1.simps(2) set_rotate1)
  moreover have "max_of t \<notin> set_tree (del_max t)"
    using d inorder_del_max [OF t] by (metis distinct_append disjoint_iff list.set_intros(1) set_inorder)
  ultimately show ?thesis by auto
qed

lemma set_del_min: "t \<noteq> Leaf \<Longrightarrow> distinct (inorder t) \<Longrightarrow> set_tree (del_min t) = set_tree t - {min_of t}"
proof -
  assume t: "t \<noteq> Leaf" and d: "distinct (inorder t)"
  from inorder_del_min [OF t] have "set_tree t = insert (min_of t) (set_tree (del_min t))"
    by (metis set_inorder list.simps(15))
  moreover have "min_of t \<notin> set_tree (del_min t)"
    using d inorder_del_min [OF t] by (metis distinct.simps(2) set_inorder)
  ultimately show ?thesis by auto
qed

text \<open>The greatest node below the root is the right child of some node; taking it out.\<close>

lemma max_node_at:
  assumes "bt_at h T q t" "t \<noteq> Leaf"
  shows "\<exists>nm. h (max_of t) = Some nm \<and> right nm = None \<and> btree nm = Some T"
  using assms
proof (induction t arbitrary: q)
  case (Node l y r)
  then show ?case by (cases "r = Leaf") auto
qed simp

lemma min_node_at:
  assumes "bt_at h T q t" "t \<noteq> Leaf"
  shows "\<exists>nm. h (min_of t) = Some nm \<and> left nm = None \<and> btree nm = Some T"
  using assms
proof (induction t arbitrary: q)
  case (Node l y r)
  then show ?case by (cases "l = Leaf") auto
qed simp

lemma unlink_max_at:
  assumes "bt_at h T q t" "distinct (inorder t)" "t \<noteq> Leaf" "rootp t \<noteq> Some (max_of t)" "h (max_of t) = Some nm"
  shows "\<exists>p np. parent nm = Some p \<and> p \<in> set_tree (del_max t) \<and> h p = Some np \<and> right np = Some (max_of t) \<and>
      left np \<noteq> Some (max_of t) \<and> (\<forall>c. left nm = Some c \<longrightarrow> c \<in> set_tree (del_max t) \<and> c \<noteq> p \<and> rootp t \<noteq> Some c) \<and>
      (\<forall>h2 q'. (\<forall>b \<in> set_tree (del_max t). h2 b = map_option (unlink_right p (left nm) (rootp t) q' b) (h b)) \<longrightarrow>
        bt_at h2 T q' (del_max t))"
  using assms
proof (induction t arbitrary: q)
  case (Node l y r)
  from Node.prems obtain n where n: "h y = Some n" "parent n = q" "left n = rootp l" "right n = rootp r" "btree n = Some T"
    and l: "bt_at h T (Some y) l" and r: "bt_at h T (Some y) r" by auto
  from Node.prems have rN: "r \<noteq> Leaf" by auto
  from Node.prems(2) have d: "y \<notin> set_tree l" "y \<notin> set_tree r" "set_tree l \<inter> set_tree r = {}"
    "distinct (inorder l)" "distinct (inorder r)" by auto
  let ?m = "max_of r"
  obtain L z R where r': "r = Node L z R" using rN by (cases r) auto
  show ?case
  proof (cases "R = Leaf")
    case True
    with r' have m: "?m = z" "max_of (Node l y r) = z" by auto
    with r r' True Node.prems(5) obtain nL where nm: "parent nm = Some y" "left nm = rootp L" and L: "bt_at h T (Some z) L"
      by auto
    have dL: "distinct (inorder L)" "z \<notin> set_tree L" "y \<notin> set_tree L" "y \<noteq> z" "set_tree L \<inter> set_tree l = {}"
      using d r' by auto
    have dm: "del_max (Node l y r) = Node l y L" using r' True by simp
    show ?thesis
    proof (intro exI conjI allI impI)
      fix c assume c: "left nm = Some c"
      then have "c \<in> set_tree L" using nm by (auto dest: rootp_in)
      then show "c \<in> set_tree (del_max (Node l y r))" "c \<noteq> y" "rootp (Node l y r) \<noteq> Some c"
        using dm dL by auto
    next
      fix h2 q'
      assume h2: "\<forall>b \<in> set_tree (del_max (Node l y r)). h2 b =
        map_option (unlink_right y (left nm) (rootp (Node l y r)) q' b) (h b)"
      have "bt_at h2 T (Some y) l"
      proof -
        have "h2 b = h b" if b: "b \<in> set_tree l" for b
        proof -
          from b dm dL d have "b \<noteq> y" "rootp L \<noteq> Some b" by (auto dest: rootp_in)
          with h2 dm b nm bt_at_alloc [OF l b] show ?thesis by (auto simp: unlink_right_def)
        qed
        with l show ?thesis by (simp add: bt_at_cong [of l h2 h])
      qed
      moreover have "bt_at h2 T (Some y) L"
      proof (rule bt_at_reparent [OF L dL(1)], rule ballI)
        fix b assume b: "b \<in> set_tree L"
        with dL have "b \<noteq> y" by auto
        with h2 dm b nm bt_at_alloc [OF L b]
        show "h2 b = (if rootp L = Some b then map_option (\<lambda>n. n\<lparr>parent := Some y\<rparr>) (h b) else h b)"
          by (auto simp: unlink_right_def)
      qed
      ultimately show "bt_at h2 T q' (del_max (Node l y r))"
        using h2 dm n nm dL rootp_in [of L y] by (auto simp: unlink_right_def)
    qed (use n nm dm m r' d Node.prems rootp_in [of l z] in auto)
  next
    case False
    with r' have m: "max_of (Node l y r) = ?m" "?m = max_of R" by auto
    have "?m \<in> set_tree R" using m False max_of_in by metis
    with d r' have zm: "rootp r \<noteq> Some ?m" by auto
    have dm: "del_max (Node l y r) = Node l y (del_max r)" using rN by simp
    have sd: "set_tree (del_max r) \<subseteq> set_tree r" using set_del_max [OF rN d(5)] by auto
    have rd: "rootp (del_max r) = rootp r" using r' False by simp
    from Node.IH(2) [OF r d(5) rN zm] Node.prems(5) m(1) obtain p np where
      p: "parent nm = Some p" "p \<in> set_tree (del_max r)" "h p = Some np" "right np = Some ?m" "left np \<noteq> Some ?m"
      and c: "\<forall>c. left nm = Some c \<longrightarrow> c \<in> set_tree (del_max r) \<and> c \<noteq> p \<and> rootp r \<noteq> Some c"
      and IH: "\<And>h2 q'. (\<forall>b \<in> set_tree (del_max r). h2 b = map_option (unlink_right p (left nm) (rootp r) q' b) (h b)) \<Longrightarrow>
        bt_at h2 T q' (del_max r)" by auto
    show ?thesis
    proof (intro exI conjI allI impI)
      fix c' assume "left nm = Some c'"
      with c sd d dm show "c' \<in> set_tree (del_max (Node l y r))" "c' \<noteq> p" "rootp (Node l y r) \<noteq> Some c'"
        by auto
    next
      fix h2 q'
      assume h2: "\<forall>b \<in> set_tree (del_max (Node l y r)). h2 b =
        map_option (unlink_right p (left nm) (rootp (Node l y r)) q' b) (h b)"
      have "bt_at h2 T (Some y) l"
      proof -
        have "h2 b = h b" if b: "b \<in> set_tree l" for b
        proof -
          from b d p c sd have "b \<noteq> y" "b \<noteq> p" "left nm \<noteq> Some b" by auto
          with h2 dm b bt_at_alloc [OF l b] show ?thesis by (auto simp: unlink_right_def)
        qed
        with l show ?thesis by (simp add: bt_at_cong [of l h2 h])
      qed
      moreover have "bt_at h2 T (Some y) (del_max r)"
      proof (rule IH, rule ballI)
        fix b assume b: "b \<in> set_tree (del_max r)"
        with sd d have bn: "b \<noteq> y" "b \<in> set_tree r" by auto
        have "rootp r = Some b \<Longrightarrow> \<exists>k. h b = Some k \<and> parent k = Some y" using r r' by auto
        with h2 dm b bn bt_at_alloc [OF r bn(2)]
        show "h2 b = map_option (unlink_right p (left nm) (rootp r) (Some y) b) (h b)"
          by (auto simp: unlink_right_def)
      qed
      moreover have "left nm \<noteq> Some y" using c sd d by blast
      with h2 dm n p c sd d have "h2 y = Some (n\<lparr>parent := q'\<rparr>)"
        by (cases n) (auto simp: unlink_right_def)
      ultimately show "bt_at h2 T q' (del_max (Node l y r))"
        using dm n rd by auto
    qed (use p m dm in auto)
  qed
qed simp

lemma unlink_min_at:
  assumes "bt_at h T q t" "distinct (inorder t)" "t \<noteq> Leaf" "rootp t \<noteq> Some (min_of t)" "h (min_of t) = Some nm"
  shows "\<exists>p np. parent nm = Some p \<and> p \<in> set_tree (del_min t) \<and> h p = Some np \<and> left np = Some (min_of t) \<and>
      right np \<noteq> Some (min_of t) \<and> (\<forall>c. right nm = Some c \<longrightarrow> c \<in> set_tree (del_min t) \<and> c \<noteq> p \<and> rootp t \<noteq> Some c) \<and>
      (\<forall>h2 q'. (\<forall>b \<in> set_tree (del_min t). h2 b = map_option (unlink_left p (right nm) (rootp t) q' b) (h b)) \<longrightarrow>
        bt_at h2 T q' (del_min t))"
  using assms
proof (induction t arbitrary: q)
  case (Node r y l)
  from Node.prems obtain n where n: "h y = Some n" "parent n = q" "right n = rootp l" "left n = rootp r" "btree n = Some T"
    and l: "bt_at h T (Some y) l" and r: "bt_at h T (Some y) r" by auto
  from Node.prems have rN: "r \<noteq> Leaf" by auto
  from Node.prems(2) have d: "y \<notin> set_tree l" "y \<notin> set_tree r" "set_tree l \<inter> set_tree r = {}"
    "distinct (inorder l)" "distinct (inorder r)" by auto
  let ?m = "min_of r"
  obtain L z R where r': "r = Node R z L" using rN by (cases r) auto
  show ?case
  proof (cases "R = Leaf")
    case True
    with r' have m: "?m = z" "min_of (Node r y l) = z" by auto
    with r r' True Node.prems(5) obtain nL where nm: "parent nm = Some y" "right nm = rootp L" and L: "bt_at h T (Some z) L"
      by auto
    have dL: "distinct (inorder L)" "z \<notin> set_tree L" "y \<notin> set_tree L" "y \<noteq> z" "set_tree L \<inter> set_tree l = {}"
      using d r' by auto
    have dm: "del_min (Node r y l) = Node L y l" using r' True by simp
    show ?thesis
    proof (intro exI conjI allI impI)
      fix c assume c: "right nm = Some c"
      then have "c \<in> set_tree L" using nm by (auto dest: rootp_in)
      then show "c \<in> set_tree (del_min (Node r y l))" "c \<noteq> y" "rootp (Node r y l) \<noteq> Some c"
        using dm dL by auto
    next
      fix h2 q'
      assume h2: "\<forall>b \<in> set_tree (del_min (Node r y l)). h2 b =
        map_option (unlink_left y (right nm) (rootp (Node r y l)) q' b) (h b)"
      have "bt_at h2 T (Some y) l"
      proof -
        have "h2 b = h b" if b: "b \<in> set_tree l" for b
        proof -
          from b dm dL d have "b \<noteq> y" "rootp L \<noteq> Some b" by (auto dest: rootp_in)
          with h2 dm b nm bt_at_alloc [OF l b] show ?thesis by (auto simp: unlink_left_def)
        qed
        with l show ?thesis by (simp add: bt_at_cong [of l h2 h])
      qed
      moreover have "bt_at h2 T (Some y) L"
      proof (rule bt_at_reparent [OF L dL(1)], rule ballI)
        fix b assume b: "b \<in> set_tree L"
        with dL have "b \<noteq> y" by auto
        with h2 dm b nm bt_at_alloc [OF L b]
        show "h2 b = (if rootp L = Some b then map_option (\<lambda>n. n\<lparr>parent := Some y\<rparr>) (h b) else h b)"
          by (auto simp: unlink_left_def)
      qed
      ultimately show "bt_at h2 T q' (del_min (Node r y l))"
        using h2 dm n nm dL rootp_in [of L y] by (auto simp: unlink_left_def)
    qed (use n nm dm m r' d Node.prems rootp_in [of l z] in auto)
  next
    case False
    with r' have m: "min_of (Node r y l) = ?m" "?m = min_of R" by auto
    have "?m \<in> set_tree R" using m False min_of_in by metis
    with d r' have zm: "rootp r \<noteq> Some ?m" by auto
    have dm: "del_min (Node r y l) = Node (del_min r) y l" using rN by simp
    have sd: "set_tree (del_min r) \<subseteq> set_tree r" using set_del_min [OF rN d(5)] by auto
    have rd: "rootp (del_min r) = rootp r" using r' False by simp
    from Node.IH(1) [OF r d(5) rN zm] Node.prems(5) m(1) obtain p np where
      p: "parent nm = Some p" "p \<in> set_tree (del_min r)" "h p = Some np" "left np = Some ?m" "right np \<noteq> Some ?m"
      and c: "\<forall>c. right nm = Some c \<longrightarrow> c \<in> set_tree (del_min r) \<and> c \<noteq> p \<and> rootp r \<noteq> Some c"
      and IH: "\<And>h2 q'. (\<forall>b \<in> set_tree (del_min r). h2 b = map_option (unlink_left p (right nm) (rootp r) q' b) (h b)) \<Longrightarrow>
        bt_at h2 T q' (del_min r)" by auto
    show ?thesis
    proof (intro exI conjI allI impI)
      fix c' assume "right nm = Some c'"
      with c sd d dm show "c' \<in> set_tree (del_min (Node r y l))" "c' \<noteq> p" "rootp (Node r y l) \<noteq> Some c'"
        by auto
    next
      fix h2 q'
      assume h2: "\<forall>b \<in> set_tree (del_min (Node r y l)). h2 b =
        map_option (unlink_left p (right nm) (rootp (Node r y l)) q' b) (h b)"
      have "bt_at h2 T (Some y) l"
      proof -
        have "h2 b = h b" if b: "b \<in> set_tree l" for b
        proof -
          from b d p c sd have "b \<noteq> y" "b \<noteq> p" "right nm \<noteq> Some b" by auto
          with h2 dm b bt_at_alloc [OF l b] show ?thesis by (auto simp: unlink_left_def)
        qed
        with l show ?thesis by (simp add: bt_at_cong [of l h2 h])
      qed
      moreover have "bt_at h2 T (Some y) (del_min r)"
      proof (rule IH, rule ballI)
        fix b assume b: "b \<in> set_tree (del_min r)"
        with sd d have bn: "b \<noteq> y" "b \<in> set_tree r" by auto
        have "rootp r = Some b \<Longrightarrow> \<exists>k. h b = Some k \<and> parent k = Some y" using r r' by auto
        with h2 dm b bn bt_at_alloc [OF r bn(2)]
        show "h2 b = map_option (unlink_left p (right nm) (rootp r) (Some y) b) (h b)"
          by (auto simp: unlink_left_def)
      qed
      moreover have "right nm \<noteq> Some y" using c sd d by blast
      with h2 dm n p c sd d have "h2 y = Some (n\<lparr>parent := q'\<rparr>)"
        by (cases n) (auto simp: unlink_left_def)
      ultimately show "bt_at h2 T q' (del_min (Node r y l))"
        using dm n rd by auto
    qed (use p m dm in auto)
  qed
qed simp


end
