(* ===== verification/BTreeRebalance.thy ===== *)
theory BTreeRebalance
  imports BTreeRefine
begin

text \<open>
  Rebalancing on pointers: \<open>BalancedBTreeRebalance\<close> of \<open>balanced_btree.c\<close>
  restructures the subtree it is given into \<open>bt_rebalance\<close> of its shape.
\<close>

section \<open>Replacing a subtree in place\<close>

text \<open>
  \<open>linked s T q S\<close>: the subtree \<open>S\<close> hangs below node \<open>q\<close>, or is the whole tree
  (\<open>q = None\<close>). \<open>moved s T q S S' s'\<close>: in \<open>s'\<close> the subtree has become
  \<open>S'\<close>, the link to it has been redirected, and nothing else has changed.
\<close>

definition relink :: "ptr \<Rightarrow> ptr \<Rightarrow> 'a BalancedBTreeItem_t \<Rightarrow> 'a BalancedBTreeItem_t" where
  "relink old new n = (if left n = old then n\<lparr>left := new\<rparr> else n\<lparr>right := new\<rparr>)"

definition linked :: "'a bt_store \<Rightarrow> addr \<Rightarrow> ptr \<Rightarrow> addr tree \<Rightarrow> bool" where
  "linked s T q S \<longleftrightarrow> trees s T \<noteq> None \<and>
     (case q of
        None \<Rightarrow> map_option root (trees s T) = Some (rootp S)
      | Some p \<Rightarrow> p \<notin> set_tree S \<and>
          (\<exists>n. nodes s p = Some n \<and>
             (left n = rootp S \<or> right n = rootp S \<and> (\<forall>b \<in> set_tree S. left n \<noteq> Some b))))"

definition moved :: "'a bt_store \<Rightarrow> addr \<Rightarrow> ptr \<Rightarrow> addr tree \<Rightarrow> addr tree \<Rightarrow> 'a bt_store \<Rightarrow> bool" where
  "moved s T q S S' s' \<longleftrightarrow>
     bt_at (nodes s') T q S' \<and> bt_data (nodes s') = bt_data (nodes s) \<and>
     (\<forall>b. b \<notin> set_tree S \<longrightarrow> q \<noteq> Some b \<longrightarrow> nodes s' b = nodes s b) \<and>
     (case q of
        None \<Rightarrow> trees s' = (trees s)(T := map_option (\<lambda>t. t\<lparr>root := rootp S'\<rparr>) (trees s T))
      | Some p \<Rightarrow> trees s' = trees s \<and>
          nodes s' p = map_option (relink (rootp S) (rootp S')) (nodes s p))"

text \<open>
  \<open>lifted s T q S S' s'\<close>: the new subtree is in place, the link to it still the old
  one. \<open>Rebalance_relink\<close> completes it.
\<close>

definition lifted :: "'a bt_store \<Rightarrow> addr \<Rightarrow> ptr \<Rightarrow> addr tree \<Rightarrow> addr tree \<Rightarrow> 'a bt_store \<Rightarrow> bool" where
  "lifted s T q S S' s' \<longleftrightarrow>
     bt_at (nodes s') T q S' \<and> bt_data (nodes s') = bt_data (nodes s) \<and>
     (\<forall>b. b \<notin> set_tree S \<longrightarrow> nodes s' b = nodes s b) \<and> trees s' = trees s"

lemma Rebalance_relink_moved:
  assumes "lifted s T q S (Node l m r) s1" "linked s T q S" "rootp S = Some x" "set_tree (Node l m r) = set_tree S"
  shows "\<exists>s'. Rebalance_relink (Some T) (Some x) (Some m) s1 = Some s' \<and> moved s T q S (Node l m r) s'"
proof (cases q)
  case None
  from assms(1) None obtain nm where nm: "nodes s1 m = Some nm" "parent nm = None" and tr: "trees s1 = trees s"
    by (auto simp: lifted_def)
  from assms(2) obtain o' where "trees s T = Some o'" by (auto simp: linked_def)
  with nm tr assms(1) None show ?thesis
    by (auto simp: Rebalance_relink_def wr_tree_Some moved_def lifted_def)
next
  case (Some p)
  from assms(1) Some obtain nm where nm: "nodes s1 m = Some nm" "parent nm = Some p"
    by (auto simp: lifted_def)
  from assms(2) Some obtain np where p: "p \<notin> set_tree S" "nodes s p = Some np"
    by (auto simp: linked_def)
  with assms(1) have p1: "nodes s1 p = Some np" by (simp add: lifted_def)
  have dat: "bt_data ((nodes s1)(p \<mapsto> n)) = bt_data (nodes s1)" if "item n = item np" "key n = key np" for n
    using that p1 by (auto simp: bt_data_def fun_eq_iff)
  have fr: "bt_at ((nodes s1)(p \<mapsto> n)) T q (Node l m r)" for n
    using assms(1,4) p(1) by (subst bt_at_upd) (auto simp: lifted_def)
  show ?thesis
    using nm p p1 assms Some dat fr
    by (auto simp: Rebalance_relink_def wr_node_Some moved_def relink_def lifted_def)
qed

lemma unlink_right_id:
  "b \<noteq> p \<Longrightarrow> Some b \<noteq> c \<Longrightarrow> Some b \<noteq> rt \<Longrightarrow> map_option (unlink_right p c rt q b) n = n"
  by (cases n) (simp_all add: unlink_right_def)

lemma unlink_left_id:
  "b \<noteq> p \<Longrightarrow> Some b \<noteq> c \<Longrightarrow> Some b \<noteq> rt \<Longrightarrow> map_option (unlink_left p c rt q b) n = n"
  by (cases n) (simp_all add: unlink_left_def)

lemma unlink_data [simp]:
  "item (unlink_right p c rt q b n) = item n" "key (unlink_right p c rt q b n) = key n"
  "item (unlink_left p c rt q b n) = item n" "key (unlink_left p c rt q b n) = key n"
  by (simp_all add: unlink_right_def unlink_left_def)

lemma unlink_right_eval:
  "z \<noteq> p \<Longrightarrow> Some z \<noteq> c \<Longrightarrow> unlink_right p c (Some z) q z n = n\<lparr>parent := q\<rparr>"
  "Some p \<noteq> c \<Longrightarrow> Some p \<noteq> rt \<Longrightarrow> unlink_right p c rt q p n = n\<lparr>right := c\<rparr>"
  "Some p \<noteq> c \<Longrightarrow> unlink_right p c (Some p) q p n = n\<lparr>right := c, parent := q\<rparr>"
  "b \<noteq> p \<Longrightarrow> unlink_right p (Some b) rt q b n = n\<lparr>parent := Some p\<rparr>"
  by (cases n; simp add: unlink_right_def)+

lemma unlink_left_eval:
  "z \<noteq> p \<Longrightarrow> Some z \<noteq> c \<Longrightarrow> unlink_left p c (Some z) q z n = n\<lparr>parent := q\<rparr>"
  "Some p \<noteq> c \<Longrightarrow> Some p \<noteq> rt \<Longrightarrow> unlink_left p c rt q p n = n\<lparr>left := c\<rparr>"
  "Some p \<noteq> c \<Longrightarrow> unlink_left p c (Some p) q p n = n\<lparr>left := c, parent := q\<rparr>"
  "b \<noteq> p \<Longrightarrow> unlink_left p (Some b) rt q b n = n\<lparr>parent := Some p\<rparr>"
  by (cases n; simp add: unlink_left_def)+

lemma Rebalance_to_right_lifted:
  assumes at: "bt_at (nodes s) T q (Node l x r)" and dist: "distinct (inorder (Node l x r))" and lN: "l \<noteq> Leaf"
  shows "\<exists>s'. Rebalance_to_right (Some x) s = Some (Some (max_of l), s') \<and>
    lifted s T q (Node l x r) (Node (del_max l) (max_of l) (Node Leaf x r)) s'"
proof -
  let ?m = "max_of l"
  from at obtain nx where x: "nodes s x = Some nx" "parent nx = q" "left nx = rootp l" "right nx = rootp r" "btree nx = Some T"
    and l: "bt_at (nodes s) T (Some x) l" and r: "bt_at (nodes s) T (Some x) r" by auto
  from dist have d: "x \<notin> set_tree l" "x \<notin> set_tree r" "set_tree l \<inter> set_tree r = {}"
    "distinct (inorder l)" "distinct (inorder r)" by auto
  have ml: "?m \<in> set_tree l" using lN by (rule max_of_in)
  with d have mx: "?m \<noteq> x" "x \<noteq> ?m" "?m \<notin> set_tree r" by auto
  from max_node_at [OF l lN] obtain nm where nm: "nodes s ?m = Some nm" "right nm = None" "btree nm = Some T" by auto
  have fg: "BalancedBTreeFindGreatest s (left nx) = Some (Some ?m)" using l lN x by (simp add: FindGreatest_at)
  obtain L z R where l': "l = Node L z R" using lN by (cases l) auto
  show ?thesis
  proof (cases "R = Leaf")
    case True
    with l' have m: "?m = z" by simp
    with l l' True nm have pm: "parent nm = Some x" "left nm = rootp L" and L: "bt_at (nodes s) T (Some z) L" by auto
    have dL: "z \<notin> set_tree L" "x \<notin> set_tree L" "z \<noteq> x" using d l' by auto
    with True x nm m pm fg mx l' L r d show ?thesis
      by (auto simp: Rebalance_to_right_def wr_node_Some Let_def lifted_def bt_data_def fun_eq_iff)
  next
    case False
    have mz: "?m \<in> set_tree R" using l' False by (simp add: max_of_in)
    with d l' have zm: "z \<noteq> ?m" "?m \<noteq> z" "rootp l \<noteq> Some ?m" and rl: "rootp l = Some z" by auto
    from unlink_max_at [OF l d(4) lN zm(3) nm(1)] obtain p np where
      p: "parent nm = Some p" "p \<in> set_tree (del_max l)" "nodes s p = Some np" "right np = Some ?m" "left np \<noteq> Some ?m"
      and c: "\<forall>c. left nm = Some c \<longrightarrow> c \<in> set_tree (del_max l) \<and> c \<noteq> p \<and> rootp l \<noteq> Some c"
      and un: "\<And>h2 q'. (\<forall>b \<in> set_tree (del_max l). h2 b = map_option (unlink_right p (left nm) (rootp l) q' b) (nodes s b)) \<Longrightarrow>
        bt_at h2 T q' (del_max l)" by auto
    have sd: "set_tree (del_max l) = set_tree l - {?m}" using lN d(4) by (rule set_del_max)
    have rd: "rootp (del_max l) = Some z" using l' False by simp
    have px: "p \<noteq> x" "x \<noteq> p" "p \<noteq> ?m" "?m \<noteq> p" "z \<noteq> x" "x \<noteq> z" using p sd d l' by auto
    from l l' obtain nz where nz: "nodes s z = Some nz" by auto
    have cc: "left nm = Some c \<Longrightarrow> \<exists>nc. nodes s c = Some nc \<and> c \<noteq> p \<and> c \<noteq> z \<and> c \<noteq> x \<and> c \<noteq> ?m" for c
      using c sd d rl bt_at_alloc [OF l, of c] by auto
    have run: "\<exists>s'. Rebalance_to_right (Some x) s = Some (Some ?m, s') \<and> trees s' = trees s \<and>
        nodes s' ?m = Some (nm\<lparr>parent := q, right := Some x, left := Some z\<rparr>) \<and>
        nodes s' x = Some (nx\<lparr>parent := Some ?m, left := None\<rparr>) \<and>
        (\<forall>b. b \<noteq> ?m \<longrightarrow> b \<noteq> x \<longrightarrow> nodes s' b = map_option (unlink_right p (left nm) (Some z) (Some ?m) b) (nodes s b))"
    proof (cases "left nm")
      case None
      show ?thesis
        using x nm p px fg mx rl zm nz None
        by (cases "p = z"; simp add: Rebalance_to_right_def wr_node_Some Let_def)
           (auto simp: unlink_right_eval unlink_right_id)
    next
      case (Some c)
      with cc obtain nc where "nodes s c = Some nc" "c \<noteq> p" "c \<noteq> z" "c \<noteq> x" "c \<noteq> ?m" by blast
      then show ?thesis
        using x nm p px fg mx rl zm nz Some
        by (cases "p = z"; simp add: Rebalance_to_right_def wr_node_Some Let_def)
           (simp_all add: unlink_right_eval unlink_right_id)
    qed
    then obtain s' where s': "Rebalance_to_right (Some x) s = Some (Some ?m, s')" "trees s' = trees s"
        "nodes s' ?m = Some (nm\<lparr>parent := q, right := Some x, left := Some z\<rparr>)"
        "nodes s' x = Some (nx\<lparr>parent := Some ?m, left := None\<rparr>)"
      and rest: "\<And>b. b \<noteq> ?m \<Longrightarrow> b \<noteq> x \<Longrightarrow>
        nodes s' b = map_option (unlink_right p (left nm) (Some z) (Some ?m) b) (nodes s b)" by blast
    have out: "nodes s' b = nodes s b" if "b \<notin> set_tree l" "b \<noteq> x" for b
    proof -
      have "z \<in> set_tree l" using l' by simp
      with that ml p(2) sd have "b \<noteq> ?m" "b \<noteq> p" "b \<noteq> z" by blast+
      moreover have "Some b \<noteq> left nm" using that c sd by (metis DiffD1)
      ultimately show ?thesis using that by (simp add: rest unlink_right_id)
    qed
    have "bt_at (nodes s') T (Some ?m) (del_max l)"
      using un [of "nodes s'" "Some ?m"] rest sd d rl by auto
    moreover have "bt_at (nodes s') T (Some x) r"
      using r out d by (subst bt_at_cong [of r "nodes s'" "nodes s"]) auto
    moreover have "bt_data (nodes s') b = bt_data (nodes s) b" for b
    proof (cases "b = ?m \<or> b = x")
      case True
      with s' x nm show ?thesis by (auto simp: bt_data_def)
    next
      case False
      then show ?thesis by (cases "nodes s b") (simp_all add: rest bt_data_def)
    qed
    ultimately show ?thesis
      using s' out x nm rd by (auto simp: lifted_def)
  qed
qed

lemma Rebalance_to_left_lifted:
  assumes at: "bt_at (nodes s) T q (Node l x r)" and dist: "distinct (inorder (Node l x r))" and rN: "r \<noteq> Leaf"
  shows "\<exists>s'. Rebalance_to_left (Some x) s = Some (Some (min_of r), s') \<and>
    lifted s T q (Node l x r) (Node (Node l x Leaf) (min_of r) (del_min r)) s'"
proof -
  let ?m = "min_of r"
  from at obtain nx where x: "nodes s x = Some nx" "parent nx = q" "right nx = rootp r" "left nx = rootp l" "btree nx = Some T"
    and r: "bt_at (nodes s) T (Some x) r" and l: "bt_at (nodes s) T (Some x) l" by auto
  from dist have d: "x \<notin> set_tree r" "x \<notin> set_tree l" "set_tree r \<inter> set_tree l = {}"
    "distinct (inorder r)" "distinct (inorder l)" by auto
  have mr: "?m \<in> set_tree r" using rN by (rule min_of_in)
  with d have mx: "?m \<noteq> x" "x \<noteq> ?m" "?m \<notin> set_tree l" by auto
  from min_node_at [OF r rN] obtain nm where nm: "nodes s ?m = Some nm" "left nm = None" "btree nm = Some T" by auto
  have fg: "BalancedBTreeFindLeast s (right nx) = Some (Some ?m)" using r rN x by (simp add: FindLeast_at)
  obtain R z L where r': "r = Node L z R" using rN by (cases r) auto
  show ?thesis
  proof (cases "L = Leaf")
    case True
    with r' have m: "?m = z" by simp
    with r r' True nm have pm: "parent nm = Some x" "right nm = rootp R" and R: "bt_at (nodes s) T (Some z) R" by auto
    have dR: "z \<notin> set_tree R" "x \<notin> set_tree R" "z \<noteq> x" using d r' by auto
    with True x nm m pm fg mx r' R l d show ?thesis
      by (auto simp: Rebalance_to_left_def wr_node_Some Let_def lifted_def bt_data_def fun_eq_iff)
  next
    case False
    have mz: "?m \<in> set_tree L" using r' False by (simp add: min_of_in)
    with d r' have zm: "z \<noteq> ?m" "?m \<noteq> z" "rootp r \<noteq> Some ?m" and rr: "rootp r = Some z" by auto
    from unlink_min_at [OF r d(4) rN zm(3) nm(1)] obtain p np where
      p: "parent nm = Some p" "p \<in> set_tree (del_min r)" "nodes s p = Some np" "left np = Some ?m" "right np \<noteq> Some ?m"
      and c: "\<forall>c. right nm = Some c \<longrightarrow> c \<in> set_tree (del_min r) \<and> c \<noteq> p \<and> rootp r \<noteq> Some c"
      and un: "\<And>h2 q'. (\<forall>b \<in> set_tree (del_min r). h2 b = map_option (unlink_left p (right nm) (rootp r) q' b) (nodes s b)) \<Longrightarrow>
        bt_at h2 T q' (del_min r)" by auto
    have sd: "set_tree (del_min r) = set_tree r - {?m}" using rN d(4) by (rule set_del_min)
    have rd: "rootp (del_min r) = Some z" using r' False by simp
    have px: "p \<noteq> x" "x \<noteq> p" "p \<noteq> ?m" "?m \<noteq> p" "z \<noteq> x" "x \<noteq> z" using p sd d r' by auto
    from r r' obtain nz where nz: "nodes s z = Some nz" by auto
    have cc: "right nm = Some c \<Longrightarrow> \<exists>nc. nodes s c = Some nc \<and> c \<noteq> p \<and> c \<noteq> z \<and> c \<noteq> x \<and> c \<noteq> ?m" for c
      using c sd d rr bt_at_alloc [OF r, of c] by auto
    have run: "\<exists>s'. Rebalance_to_left (Some x) s = Some (Some ?m, s') \<and> trees s' = trees s \<and>
        nodes s' ?m = Some (nm\<lparr>parent := q, left := Some x, right := Some z\<rparr>) \<and>
        nodes s' x = Some (nx\<lparr>parent := Some ?m, right := None\<rparr>) \<and>
        (\<forall>b. b \<noteq> ?m \<longrightarrow> b \<noteq> x \<longrightarrow> nodes s' b = map_option (unlink_left p (right nm) (Some z) (Some ?m) b) (nodes s b))"
    proof (cases "right nm")
      case None
      show ?thesis
        using x nm p px fg mx rr zm nz None
        by (cases "p = z"; simp add: Rebalance_to_left_def wr_node_Some Let_def)
           (auto simp: unlink_left_eval unlink_left_id)
    next
      case (Some c)
      with cc obtain nc where "nodes s c = Some nc" "c \<noteq> p" "c \<noteq> z" "c \<noteq> x" "c \<noteq> ?m" by blast
      then show ?thesis
        using x nm p px fg mx rr zm nz Some
        by (cases "p = z"; simp add: Rebalance_to_left_def wr_node_Some Let_def)
           (simp_all add: unlink_left_eval unlink_left_id)
    qed
    then obtain s' where s': "Rebalance_to_left (Some x) s = Some (Some ?m, s')" "trees s' = trees s"
        "nodes s' ?m = Some (nm\<lparr>parent := q, left := Some x, right := Some z\<rparr>)"
        "nodes s' x = Some (nx\<lparr>parent := Some ?m, right := None\<rparr>)"
      and rest: "\<And>b. b \<noteq> ?m \<Longrightarrow> b \<noteq> x \<Longrightarrow>
        nodes s' b = map_option (unlink_left p (right nm) (Some z) (Some ?m) b) (nodes s b)" by blast
    have out: "nodes s' b = nodes s b" if "b \<notin> set_tree r" "b \<noteq> x" for b
    proof -
      have "z \<in> set_tree r" using r' by simp
      with that mr p(2) sd have "b \<noteq> ?m" "b \<noteq> p" "b \<noteq> z" by blast+
      moreover have "Some b \<noteq> right nm" using that c sd by (metis DiffD1)
      ultimately show ?thesis using that by (simp add: rest unlink_left_id)
    qed
    have "bt_at (nodes s') T (Some ?m) (del_min r)"
      using un [of "nodes s'" "Some ?m"] rest sd d rr by auto
    moreover have "bt_at (nodes s') T (Some x) l"
      using l out d by (subst bt_at_cong [of l "nodes s'" "nodes s"]) auto
    moreover have "bt_data (nodes s') b = bt_data (nodes s) b" for b
    proof (cases "b = ?m \<or> b = x")
      case True
      with s' x nm show ?thesis by (auto simp: bt_data_def)
    next
      case False
      then show ?thesis by (cases "nodes s b") (simp_all add: rest bt_data_def)
    qed
    ultimately show ?thesis
      using s' out x nm rd by (auto simp: lifted_def)
  qed
qed

section \<open>Chaining replacements\<close>

lemma moved_refl: "bt_at (nodes s) T q S \<Longrightarrow> linked s T q S \<Longrightarrow> moved s T q S S s"
proof -
  assume at: "bt_at (nodes s) T q S" and lk: "linked s T q S"
  show ?thesis
  proof (cases q)
    case None
    from lk None obtain t where "trees s T = Some t" "root t = rootp S" by (auto simp: linked_def)
    then have "trees s = (trees s)(T := map_option (\<lambda>t. t\<lparr>root := rootp S\<rparr>) (trees s T))"
      by (cases t) (simp add: fun_upd_idem)
    with at None show ?thesis by (simp add: moved_def)
  next
    case (Some p)
    from lk Some obtain n where n: "nodes s p = Some n" "left n = rootp S \<or> right n = rootp S" by (auto simp: linked_def)
    then have "relink (rootp S) (rootp S) n = n" by (cases n) (auto simp: relink_def)
    with at Some n show ?thesis by (simp add: moved_def)
  qed
qed

lemma rootp_set_eq: "set_tree S' = set_tree S \<Longrightarrow> S = Leaf \<longleftrightarrow> S' = Leaf"
  by (metis eq_set_tree_empty)

lemma moved_linked:
  assumes m: "moved s T q S S' s'" and lk: "linked s T q S" and st: "set_tree S' = set_tree S"
  shows "linked s' T q S'"
proof (cases q)
  case None
  with m lk show ?thesis by (auto simp: moved_def linked_def)
next
  case (Some p)
  from lk Some obtain n where n: "p \<notin> set_tree S" "nodes s p = Some n"
    "left n = rootp S \<or> right n = rootp S \<and> (\<forall>b \<in> set_tree S. left n \<noteq> Some b)" by (auto simp: linked_def)
  with m Some have "nodes s' p = Some (relink (rootp S) (rootp S') n)" "trees s' = trees s" by (auto simp: moved_def)
  with n lk st Some show ?thesis by (auto simp: linked_def relink_def)
qed

lemma relink_relink:
  assumes "left n = rootp S \<or> right n = rootp S \<and> (\<forall>b \<in> set_tree S. left n \<noteq> Some b)" "set_tree S' = set_tree S"
  shows "relink (rootp S') c (relink (rootp S) (rootp S') n) = relink (rootp S) c n"
proof -
  have "rootp S' = left n \<Longrightarrow> left n \<noteq> rootp S \<Longrightarrow> S' = Leaf"
    using assms by (metis rootp_in rootp_None(1) option.exhaust)
  then show ?thesis
    using assms rootp_set_eq [of S' S] by (cases n) (auto simp: relink_def)
qed

lemma moved_trans:
  assumes m1: "moved s T q S S1 s1" and m2: "moved s1 T q S1 S2 s2"
    and lk: "linked s T q S" and st: "set_tree S1 = set_tree S"
  shows "moved s T q S S2 s2"
proof (cases q)
  case None
  with m1 m2 st show ?thesis by (auto simp: moved_def option.map_comp o_def)
next
  case (Some p)
  from lk Some obtain n where n: "nodes s p = Some n"
    "left n = rootp S \<or> right n = rootp S \<and> (\<forall>b \<in> set_tree S. left n \<noteq> Some b)" by (auto simp: linked_def)
  with m1 m2 Some have "nodes s2 p = Some (relink (rootp S1) (rootp S2) (relink (rootp S) (rootp S1) n))"
    by (simp add: moved_def)
  with n st have "nodes s2 p = Some (relink (rootp S) (rootp S2) n)" by (simp add: relink_relink)
  with m1 m2 Some n st show ?thesis by (auto simp: moved_def)
qed

lemma moved_bt_at: "moved s T q S S' s' \<Longrightarrow> bt_at (nodes s') T q S'"
  by (simp add: moved_def)

lemma set_bt_rotate [simp]: "set_tree (bt_rotate t) = set_tree t"
  by (metis inorder_bt_rotate set_inorder)

section \<open>The loop at one node\<close>

lemma inorder_shift_right: "l \<noteq> Leaf \<Longrightarrow> inorder (Node (del_max l) (max_of l) (Node Leaf x r)) = inorder (Node l x r)"
  using inorder_del_max [of l] by simp

lemma inorder_shift_left: "r \<noteq> Leaf \<Longrightarrow> inorder (Node (Node l x Leaf) (min_of r) (del_min r)) = inorder (Node l x r)"
  using inorder_del_min [of r] by simp

lemma Rebalance_step:
  assumes at: "bt_at (nodes s) T q (Node l x r)" and d: "distinct (inorder (Node l x r))" and lk: "linked s T q (Node l x r)"
    and out: "size l > size r + 1 \<or> size r > size l + 1"
    and S': "S' = (if size l > size r + 1 then Node (del_max l) (max_of l) (Node Leaf x r)
                   else Node (Node l x Leaf) (min_of r) (del_min r))"
  shows "\<exists>s'. Rebalance_loop (Some T) (Some x) s = Rebalance_loop (Some T) (rootp S') s' \<and>
    moved s T q (Node l x r) S' s' \<and> inorder S' = inorder (Node l x r)"
proof -
  from at obtain nx where x: "nodes s x = Some nx" "left nx = rootp l" "right nx = rootp r"
    and l: "bt_at (nodes s) T (Some x) l" and r: "bt_at (nodes s) T (Some x) r" by auto
  note w = Weight_at [OF l] Weight_at [OF r]
  show ?thesis
  proof (cases "size l > size r + 1")
    case True
    then have lN: "l \<noteq> Leaf" by auto
    from Rebalance_to_right_lifted [OF at d lN] obtain s1 where
      s1: "Rebalance_to_right (Some x) s = Some (Some (max_of l), s1)" "lifted s T q (Node l x r) S' s1"
      using True S' by auto
    have io: "inorder S' = inorder (Node l x r)" using True S' inorder_shift_right [OF lN] by simp
    then have st: "set_tree S' = set_tree (Node l x r)" by (metis set_inorder)
    from Rebalance_relink_moved [OF s1(2) [unfolded S' if_P [OF True]] lk, of x] st True S' obtain s2 where
      s2: "Rebalance_relink (Some T) (Some x) (Some (max_of l)) s1 = Some s2" "moved s T q (Node l x r) S' s2"
      by auto
    have "Rebalance_loop (Some T) (Some x) s = Rebalance_loop (Some T) (rootp S') s2"
      using x w True s1(1) s2(1) S' by (subst Rebalance_loop.simps) (simp add: Let_def)
    with s2(2) io show ?thesis by blast
  next
    case False
    with out have o: "size r > size l + 1" by simp
    then have rN: "r \<noteq> Leaf" by auto
    from Rebalance_to_left_lifted [OF at d rN] obtain s1 where
      s1: "Rebalance_to_left (Some x) s = Some (Some (min_of r), s1)" "lifted s T q (Node l x r) S' s1"
      using False S' by auto
    have io: "inorder S' = inorder (Node l x r)" using False S' inorder_shift_left [OF rN] by simp
    then have st: "set_tree S' = set_tree (Node l x r)" by (metis set_inorder)
    from Rebalance_relink_moved [OF s1(2) [unfolded S' if_not_P [OF False]] lk, of x] st False S' obtain s2 where
      s2: "Rebalance_relink (Some T) (Some x) (Some (min_of r)) s1 = Some s2" "moved s T q (Node l x r) S' s2"
      by auto
    have "Rebalance_loop (Some T) (Some x) s = Rebalance_loop (Some T) (rootp S') s2"
      using x w o s1(1) s2(1) S' by (subst Rebalance_loop.simps) (simp add: Let_def)
    with s2(2) io show ?thesis by blast
  qed
qed

lemma Rebalance_loop_moved:
  "bt_at (nodes s) T q S \<Longrightarrow> distinct (inorder S) \<Longrightarrow> linked s T q S \<Longrightarrow> S \<noteq> Leaf \<Longrightarrow>
   \<exists>s'. Rebalance_loop (Some T) (rootp S) s = Some (rootp (bt_rotate S), s') \<and> moved s T q S (bt_rotate S) s'"
proof (induction S arbitrary: s rule: bt_rotate.induct)
  case (2 l x r)
  show ?case
  proof (cases "size l > size r + 1 \<or> size r > size l + 1")
    case True
    let ?S = "if size l > size r + 1 then Node (del_max l) (max_of l) (Node Leaf x r)
              else Node (Node l x Leaf) (min_of r) (del_min r)"
    from Rebalance_step [OF 2(3-5) True refl] obtain s1 where
      s1: "Rebalance_loop (Some T) (Some x) s = Rebalance_loop (Some T) (rootp ?S) s1"
        "moved s T q (Node l x r) ?S s1" "inorder ?S = inorder (Node l x r)" by blast
    from s1(3) have st: "set_tree ?S = set_tree (Node l x r)" by (metis set_inorder)
    have rot: "bt_rotate (Node l x r) = bt_rotate ?S" using True by (subst bt_rotate.simps) auto
    have a: "bt_at (nodes s1) T q ?S" "distinct (inorder ?S)" "linked s1 T q ?S"
      using moved_bt_at [OF s1(2)] moved_linked [OF s1(2) 2(5) st] s1(3) 2(4) by metis+
    have "\<exists>s'. Rebalance_loop (Some T) (rootp ?S) s1 = Some (rootp (bt_rotate ?S), s') \<and> moved s1 T q ?S (bt_rotate ?S) s'"
    proof (cases "size l > size r + 1")
      case c: True
      show ?thesis unfolding if_P [OF c]
        by (rule 2(1) [OF c a(1) [unfolded if_P [OF c]] a(2) [unfolded if_P [OF c]] a(3) [unfolded if_P [OF c]]]) simp
    next
      case c: False
      with True have o: "size r > size l + 1" by simp
      show ?thesis unfolding if_not_P [OF c]
        by (rule 2(2) [OF c o a(1) [unfolded if_not_P [OF c]] a(2) [unfolded if_not_P [OF c]] a(3) [unfolded if_not_P [OF c]]]) simp
    qed
    with s1 rot moved_trans [OF s1(2) _ 2(5) st] show ?thesis by auto
  next
    case False
    from 2 obtain nx where x: "nodes s x = Some nx" "left nx = rootp l" "right nx = rootp r"
      and l: "bt_at (nodes s) T (Some x) l" and r: "bt_at (nodes s) T (Some x) r" by auto
    have "bt_rotate (Node l x r) = Node l x r" using False by (subst bt_rotate.simps) simp
    with x Weight_at [OF l] Weight_at [OF r] False moved_refl [OF 2(3,5)] show ?thesis
      by (subst Rebalance_loop.simps) (auto simp: Let_def)
  qed
qed simp

section \<open>The recursion over the tree\<close>

lemma moved_children:
  assumes at: "bt_at (nodes s) T q (Node l x r)" and d: "distinct (inorder (Node l x r))" and lk: "linked s T q (Node l x r)"
    and ml: "moved s T (Some x) l l' s1" and mr: "moved s1 T (Some x) r r' s2"
    and stl: "set_tree l' \<subseteq> set_tree l" and str: "set_tree r' \<subseteq> set_tree r"
  shows "moved s T q (Node l x r) (Node l' x r') s2"
proof -
  from at obtain nx where x: "nodes s x = Some nx" "parent nx = q" "left nx = rootp l" "right nx = rootp r" "btree nx = Some T" by auto
  from d have dd: "x \<notin> set_tree l" "x \<notin> set_tree r" "set_tree l \<inter> set_tree r = {}" by auto
  have lr: "rootp l' = rootp r \<Longrightarrow> l' = Leaf \<and> r = Leaf"
    using dd stl rootp_in [of l'] rootp_in [of r] by (cases "rootp r") fastforce+
  have rl: "r = Leaf \<Longrightarrow> r' = Leaf" using str by simp
  have x2: "nodes s2 x = Some (nx\<lparr>left := rootp l', right := rootp r'\<rparr>)"
    using ml mr x lr rl by (cases nx) (auto simp: moved_def relink_def)
  have "bt_at (nodes s2) T (Some x) l'"
  proof (subst bt_at_cong)
    show "nodes s2 b = nodes s1 b" if "b \<in> set_tree l'" for b
      using that mr stl dd by (auto simp: moved_def)
  qed (use ml in \<open>simp add: moved_def\<close>)
  moreover have "bt_at (nodes s2) T (Some x) r'" using mr by (simp add: moved_def)
  ultimately have "bt_at (nodes s2) T q (Node l' x r')" using x2 x by simp
  moreover have fr: "nodes s2 b = nodes s b" if "b \<notin> set_tree (Node l x r)" for b
    using that ml mr by (auto simp: moved_def)
  moreover have "bt_data (nodes s2) = bt_data (nodes s)" using ml mr by (simp add: moved_def)
  moreover have tr: "trees s2 = trees s" using ml mr by (simp add: moved_def)
  moreover have "trees s = (trees s)(T := map_option (\<lambda>t. t\<lparr>root := Some x\<rparr>) (trees s T))" if "q = None"
    using that lk by (cases "trees s T") (auto simp: linked_def fun_upd_idem)
  moreover have "nodes s p = map_option (relink (Some x) (Some x)) (nodes s p)" if "q = Some p" for p
    using that lk by (auto simp: linked_def relink_def)
  moreover have "p \<notin> set_tree (Node l x r)" if "q = Some p" for p using that lk by (simp add: linked_def)
  ultimately show ?thesis
    unfolding moved_def by (simp split: option.split)
qed

lemma BalancedBTreeRebalance_moved:
  "bt_at (nodes s) T q S \<Longrightarrow> distinct (inorder S) \<Longrightarrow> linked s T q S \<Longrightarrow>
   \<exists>s'. BalancedBTreeRebalance (Some T) (rootp S) s = Some s' \<and> moved s T q S (bt_rebalance S) s'"
proof (induction S arbitrary: s q rule: bt_rebalance.induct)
  case (1 S)
  show ?case
  proof (cases "S = Leaf")
    case True
    then have "bt_rebalance S = Leaf" by (simp add: bt_rebalance.simps)
    with True moved_refl [OF 1(3,5)] show ?thesis by (subst BalancedBTreeRebalance.simps) auto
  next
    case False
    from Rebalance_loop_moved [OF 1(3-5) False] obtain s1 where
      s1: "Rebalance_loop (Some T) (rootp S) s = Some (rootp (bt_rotate S), s1)" "moved s T q S (bt_rotate S) s1" by blast
    have "bt_rotate S \<noteq> Leaf" using False size_bt_rotate [of S] by auto
    then obtain l x r where rot: "bt_rotate S = Node l x r" by (cases "bt_rotate S") auto
    have io: "inorder (Node l x r) = inorder S" using rot inorder_bt_rotate [of S] by simp
    with 1(4) have d: "distinct (inorder (Node l x r))" by simp
    have at1: "bt_at (nodes s1) T q (Node l x r)" using s1(2) rot moved_bt_at by metis
    have lk1: "linked s1 T q (Node l x r)" using moved_linked [OF s1(2) 1(5) set_bt_rotate] rot by metis
    from at1 obtain nx where x: "nodes s1 x = Some nx" "left nx = rootp l" "right nx = rootp r"
      and l: "bt_at (nodes s1) T (Some x) l" and r: "bt_at (nodes s1) T (Some x) r" by auto
    from d have dd: "x \<notin> set_tree l" "x \<notin> set_tree r" "set_tree l \<inter> set_tree r = {}"
      "distinct (inorder l)" "distinct (inorder r)" by auto
    have "linked s1 T (Some x) l" using lk1 x dd by (auto simp: linked_def)
    from 1(1) [OF rot l dd(4) this] obtain s2 where
      s2: "BalancedBTreeRebalance (Some T) (rootp l) s1 = Some s2" "moved s1 T (Some x) l (bt_rebalance l) s2" by blast
    have x2: "nodes s2 x = Some (nx\<lparr>left := rootp (bt_rebalance l)\<rparr>)" using s2(2) x by (auto simp: moved_def relink_def)
    have r2: "bt_at (nodes s2) T (Some x) r"
      using r s2(2) dd by (subst bt_at_cong [of r "nodes s2" "nodes s1"]) (auto simp: moved_def)
    have "\<forall>b \<in> set_tree r. rootp (bt_rebalance l) \<noteq> Some b" using dd rootp_in [of "bt_rebalance l"] by auto
    moreover have "trees s2 = trees s1" using s2(2) by (simp add: moved_def)
    ultimately have "linked s2 T (Some x) r" using lk1 x2 x dd by (auto simp: linked_def)
    from 1(2) [OF rot r2 dd(5) this] obtain s3 where
      s3: "BalancedBTreeRebalance (Some T) (rootp r) s2 = Some s3" "moved s2 T (Some x) r (bt_rebalance r) s3" by blast
    have reb: "bt_rebalance S = Node (bt_rebalance l) x (bt_rebalance r)"
      by (subst bt_rebalance.simps) (simp add: rot)
    have "BalancedBTreeRebalance (Some T) (rootp S) s = Some s3"
      using s1(1) rot x x2 s2(1) s3(1) False by (subst BalancedBTreeRebalance.simps) auto
    moreover have "moved s T q S (bt_rebalance S) s3"
      using moved_children [OF at1 d lk1 s2(2) s3(2)] moved_trans [OF s1(2) _ 1(5) set_bt_rotate] rot reb by simp
    ultimately show ?thesis by blast
  qed
qed

end
