(* ===== verification/BTreeRemove.thy ===== *)
theory BTreeRemove
  imports BTreeRebalance
begin

text \<open>
  Removal on pointers: \<open>BalancedBTreeReplace\<close> turns the subtree of the removed node
  into \<open>bt_join\<close> of its children, and clears the links of the removed node.
\<close>

section \<open>Detaching the replacement\<close>

text \<open>
  \<open>detached s T S a l m r s'\<close>: node \<open>m\<close> has the subtrees \<open>l\<close> and \<open>r\<close>; outside
  \<open>S\<close>, and at the removed node \<open>a\<close>, nothing has changed.
\<close>

definition detached :: "'a bt_store \<Rightarrow> addr \<Rightarrow> addr tree \<Rightarrow> addr \<Rightarrow> addr tree \<Rightarrow> addr \<Rightarrow> addr tree \<Rightarrow> 'a bt_store \<Rightarrow> bool" where
  "detached s T S a l m r s' \<longleftrightarrow>
     trees s' = trees s \<and> bt_data (nodes s') = bt_data (nodes s) \<and>
     (\<forall>b. b \<notin> set_tree S \<longrightarrow> nodes s' b = nodes s b) \<and> nodes s' a = nodes s a \<and>
     (\<exists>n. nodes s' m = Some n \<and> left n = rootp l \<and> right n = rootp r \<and> btree n = Some T) \<and>
     bt_at (nodes s') T (Some m) l \<and> bt_at (nodes s') T (Some m) r"

lemma Replace_detach_max:
  assumes at: "bt_at (nodes s) T q (Node l a r)" and dist: "distinct (inorder (Node l a r))" and lN: "l \<noteq> Leaf"
  shows "\<exists>s'. Replace_detach (Some a) (Some (max_of l)) s = Some s' \<and>
    detached s T (Node l a r) a (del_max l) (max_of l) r s'"
proof -
  let ?m = "max_of l"
  from at obtain na where a: "nodes s a = Some na" "parent na = q" "left na = rootp l" "right na = rootp r" "btree na = Some T"
    and l: "bt_at (nodes s) T (Some a) l" and r: "bt_at (nodes s) T (Some a) r" by auto
  from dist have d: "a \<notin> set_tree l" "a \<notin> set_tree r" "set_tree l \<inter> set_tree r = {}"
    "distinct (inorder l)" "distinct (inorder r)" by auto
  have ml: "?m \<in> set_tree l" using lN by (rule max_of_in)
  with d have ma: "?m \<noteq> a" "a \<noteq> ?m" "?m \<notin> set_tree r" by auto
  from max_node_at [OF l lN] obtain nm where nm: "nodes s ?m = Some nm" "right nm = None" "btree nm = Some T" by auto
  obtain L z R where l': "l = Node L z R" using lN by (cases l) auto
  have rr: "rootp r = Some y \<Longrightarrow> \<exists>ny. nodes s y = Some ny \<and> y \<notin> set_tree l \<and> y \<noteq> a" for y
    using bt_at_alloc [OF r, of y] d by (auto dest: rootp_in)
  have rm: "rootp r \<noteq> Some ?m" using ma(3) by (auto dest: rootp_in)
  show ?thesis
  proof (cases "R = Leaf")
    case True
    with l' have m: "?m = z" by simp
    with l l' True nm have pm: "parent nm = Some a" "left nm = rootp L" and L: "bt_at (nodes s) T (Some z) L" by auto
    have dL: "z \<notin> set_tree L" "a \<notin> set_tree L" "z \<noteq> a" "set_tree L \<inter> set_tree r = {}" using d l' by auto
    have "\<exists>s'. Replace_detach (Some a) (Some ?m) s = Some s' \<and> trees s' = trees s \<and>
        nodes s' ?m = Some (nm\<lparr>right := rootp r\<rparr>) \<and>
        (\<forall>b. b \<noteq> ?m \<longrightarrow> nodes s' b = (if rootp r = Some b then map_option (\<lambda>n. n\<lparr>parent := Some ?m\<rparr>) (nodes s b) else nodes s b))"
    proof (cases "rootp r")
      case None
      with a nm pm m ma l' show ?thesis
        by (simp add: Replace_detach_def wr_node_Some)
    next
      case (Some y)
      with rr obtain ny where "nodes s y = Some ny" "y \<noteq> z" "y \<noteq> a" using l' by fastforce
      with Some a nm pm m ma l' show ?thesis
        by (simp add: Replace_detach_def wr_node_Some)
    qed
    then obtain s' where s': "Replace_detach (Some a) (Some ?m) s = Some s'" "trees s' = trees s"
        "nodes s' ?m = Some (nm\<lparr>right := rootp r\<rparr>)"
      and rest: "\<And>b. b \<noteq> ?m \<Longrightarrow> nodes s' b = (if rootp r = Some b then map_option (\<lambda>n. n\<lparr>parent := Some ?m\<rparr>) (nodes s b) else nodes s b)"
      by blast
    have "bt_at (nodes s') T (Some ?m) r"
      using bt_at_reparent [OF r d(5), of "nodes s'" "Some ?m"] rest ma(3) by metis
    moreover have "bt_at (nodes s') T (Some z) L"
    proof (subst bt_at_cong [of L _ "nodes s"])
      fix b assume b: "b \<in> set_tree L"
      with dL have "b \<noteq> ?m" "rootp r \<noteq> Some b" using m by (auto dest: rootp_in)
      then show "nodes s' b = nodes s b" by (simp add: rest)
    qed (rule L)
    moreover have "bt_data (nodes s') b = bt_data (nodes s) b" for b
      using s'(3) rest [of b] nm(1) by (cases "b = ?m"; cases "nodes s b") (auto simp: bt_data_def)
    moreover have "nodes s' b = nodes s b" if "b \<notin> set_tree l" "b \<notin> set_tree r" for b
    proof -
      from that ml have "b \<noteq> ?m" "rootp r \<noteq> Some b" by (auto dest: rootp_in)
      then show ?thesis by (simp add: rest)
    qed
    ultimately show ?thesis
      using s' nm pm m True l' d by (auto simp: detached_def fun_eq_iff)
  next
    case False
    have mz: "?m \<in> set_tree R" using l' False by (simp add: max_of_in)
    with d l' have zm: "z \<noteq> ?m" "?m \<noteq> z" "rootp l \<noteq> Some ?m" and rl: "rootp l = Some z" by auto
    from unlink_max_at [OF l d(4) lN zm(3) nm(1)] obtain p np where
      p: "parent nm = Some p" "p \<in> set_tree (del_max l)" "nodes s p = Some np" "right np = Some ?m" "left np \<noteq> Some ?m"
      and c: "\<forall>c. left nm = Some c \<longrightarrow> c \<in> set_tree (del_max l) \<and> c \<noteq> p \<and> rootp l \<noteq> Some c"
      and un: "\<And>h2 q'. (\<forall>b \<in> set_tree (del_max l). h2 b = map_option (unlink_right p (left nm) (rootp l) q' b) (nodes s b)) \<Longrightarrow>
        bt_at h2 T q' (del_max l)" by auto
    have sd: "set_tree (del_max l) = set_tree l - {?m}" using lN d(4) by (rule set_del_max)
    have rd: "rootp (del_max l) = Some z" using l' False by simp
    have px: "p \<noteq> a" "a \<noteq> p" "p \<noteq> ?m" "?m \<noteq> p" "z \<noteq> a" "a \<noteq> z" using p sd d l' by auto
    from l l' obtain nz where nz: "nodes s z = Some nz" by auto
    have cc: "left nm = Some c \<Longrightarrow> \<exists>nc. nodes s c = Some nc \<and> c \<noteq> p \<and> c \<noteq> z \<and> c \<noteq> a \<and> c \<noteq> ?m \<and> rootp r \<noteq> Some c" for c
      using c sd d rl bt_at_alloc [OF l, of c] by (auto dest: rootp_in)
    have rp: "rootp r \<noteq> Some p" "rootp r \<noteq> Some z" using p(2) sd d l' by (auto dest!: rootp_in)
    have "\<exists>s'. Replace_detach (Some a) (Some ?m) s = Some s' \<and> trees s' = trees s \<and>
        nodes s' ?m = Some (nm\<lparr>right := rootp r, left := Some z\<rparr>) \<and>
        (\<forall>b. b \<noteq> ?m \<longrightarrow> nodes s' b =
          (if rootp r = Some b then map_option (\<lambda>n. n\<lparr>parent := Some ?m\<rparr>) (nodes s b)
           else map_option (unlink_right p (left nm) (Some z) (Some ?m) b) (nodes s b)))"
    proof (cases "left nm")
      case None
      show ?thesis
      proof (cases "rootp r")
        case None
        with a nm p px ma rl zm nz rp \<open>left nm = None\<close> show ?thesis
          by (cases "p = z"; simp add: Replace_detach_def wr_node_Some)
             (simp_all add: unlink_right_eval unlink_right_id)
      next
        case (Some y)
        with rr p(2) sd mz l' rp obtain ny where "nodes s y = Some ny" "y \<noteq> z" "y \<noteq> a" "y \<noteq> p" "y \<noteq> ?m" by fastforce
        with Some a nm p px ma rl zm nz rp \<open>left nm = None\<close> show ?thesis
          by (cases "p = z"; simp add: Replace_detach_def wr_node_Some)
             (simp_all add: unlink_right_eval unlink_right_id)
      qed
    next
      case (Some c)
      with cc obtain nc where nc: "nodes s c = Some nc" "c \<noteq> p" "c \<noteq> z" "c \<noteq> a" "c \<noteq> ?m" "rootp r \<noteq> Some c" by blast
      show ?thesis
      proof (cases "rootp r")
        case None
        with a nm p px ma rl zm nz rp Some nc show ?thesis
          by (cases "p = z"; simp add: Replace_detach_def wr_node_Some)
             (simp_all add: unlink_right_eval unlink_right_id)
      next
        case (Some y)
        with rr p(2) sd mz l' rp nc(6) obtain ny where "nodes s y = Some ny" "y \<noteq> z" "y \<noteq> a" "y \<noteq> p" "y \<noteq> ?m" "y \<noteq> c" by fastforce
        with Some a nm p px ma rl zm nz rp \<open>left nm = Some c\<close> nc show ?thesis
          by (cases "p = z"; simp add: Replace_detach_def wr_node_Some)
             (simp_all add: unlink_right_eval unlink_right_id)
      qed
    qed
    then obtain s' where s': "Replace_detach (Some a) (Some ?m) s = Some s'" "trees s' = trees s"
        "nodes s' ?m = Some (nm\<lparr>right := rootp r, left := Some z\<rparr>)"
      and rest: "\<And>b. b \<noteq> ?m \<Longrightarrow> nodes s' b =
          (if rootp r = Some b then map_option (\<lambda>n. n\<lparr>parent := Some ?m\<rparr>) (nodes s b)
           else map_option (unlink_right p (left nm) (Some z) (Some ?m) b) (nodes s b))" by blast
    have out: "nodes s' b = (if rootp r = Some b then map_option (\<lambda>n. n\<lparr>parent := Some ?m\<rparr>) (nodes s b) else nodes s b)"
      if "b \<notin> set_tree l" for b
    proof -
      have "z \<in> set_tree l" using l' by simp
      with that ml p(2) sd have "b \<noteq> ?m" "b \<noteq> p" "b \<noteq> z" by blast+
      moreover have "Some b \<noteq> left nm" using that c sd by (metis DiffD1)
      ultimately show ?thesis by (simp add: rest unlink_right_id)
    qed
    have "nodes s' b = map_option (unlink_right p (left nm) (rootp l) (Some ?m) b) (nodes s b)"
      if "b \<in> set_tree (del_max l)" for b
    proof -
      from that sd d have "b \<noteq> ?m" "rootp r \<noteq> Some b" by (auto dest: rootp_in)
      then show ?thesis by (simp add: rest rl)
    qed
    then have "bt_at (nodes s') T (Some ?m) (del_max l)" using un by blast
    moreover have "bt_at (nodes s') T (Some ?m) r"
      using bt_at_reparent [OF r d(5), of "nodes s'" "Some ?m"] out d(3) by (metis disjoint_iff)
    moreover have "bt_data (nodes s') b = bt_data (nodes s) b" for b
      using s'(3) rest [of b] nm(1) by (cases "b = ?m"; cases "nodes s b") (auto simp: bt_data_def)
    moreover have "nodes s' a = nodes s a" "\<And>b. b \<notin> set_tree (Node l a r) \<Longrightarrow> nodes s' b = nodes s b"
      using out d by (auto dest: rootp_in)
    ultimately show ?thesis
      using s' nm rd by (auto simp: detached_def fun_eq_iff)
  qed
qed

lemma Replace_detach_min:
  assumes at: "bt_at (nodes s) T q (Node r a l)" and dist: "distinct (inorder (Node r a l))" and lN: "l \<noteq> Leaf"
  shows "\<exists>s'. Replace_detach (Some a) (Some (min_of l)) s = Some s' \<and>
    detached s T (Node r a l) a r (min_of l) (del_min l) s'"
proof -
  let ?m = "min_of l"
  from at obtain na where a: "nodes s a = Some na" "parent na = q" "right na = rootp l" "left na = rootp r" "btree na = Some T"
    and l: "bt_at (nodes s) T (Some a) l" and r: "bt_at (nodes s) T (Some a) r" by auto
  from dist have d: "a \<notin> set_tree l" "a \<notin> set_tree r" "set_tree l \<inter> set_tree r = {}"
    "distinct (inorder l)" "distinct (inorder r)" by auto
  have ml: "?m \<in> set_tree l" using lN by (rule min_of_in)
  with d have ma: "?m \<noteq> a" "a \<noteq> ?m" "?m \<notin> set_tree r" by auto
  from min_node_at [OF l lN] obtain nm where nm: "nodes s ?m = Some nm" "left nm = None" "btree nm = Some T" by auto
  obtain L z R where l': "l = Node R z L" using lN by (cases l) auto
  have rr: "rootp r = Some y \<Longrightarrow> \<exists>ny. nodes s y = Some ny \<and> y \<notin> set_tree l \<and> y \<noteq> a" for y
    using bt_at_alloc [OF r, of y] d by (auto dest: rootp_in)
  have rm: "rootp r \<noteq> Some ?m" using ma(3) by (auto dest: rootp_in)
  show ?thesis
  proof (cases "R = Leaf")
    case True
    with l' have m: "?m = z" by simp
    with l l' True nm have pm: "parent nm = Some a" "right nm = rootp L" and L: "bt_at (nodes s) T (Some z) L" by auto
    have dL: "z \<notin> set_tree L" "a \<notin> set_tree L" "z \<noteq> a" "set_tree L \<inter> set_tree r = {}" using d l' by auto
    have "\<exists>s'. Replace_detach (Some a) (Some ?m) s = Some s' \<and> trees s' = trees s \<and>
        nodes s' ?m = Some (nm\<lparr>left := rootp r\<rparr>) \<and>
        (\<forall>b. b \<noteq> ?m \<longrightarrow> nodes s' b = (if rootp r = Some b then map_option (\<lambda>n. n\<lparr>parent := Some ?m\<rparr>) (nodes s b) else nodes s b))"
    proof (cases "rootp r")
      case None
      with a nm pm m ma l' show ?thesis
        by (simp add: Replace_detach_def wr_node_Some)
    next
      case (Some y)
      with rr obtain ny where "nodes s y = Some ny" "y \<noteq> z" "y \<noteq> a" using l' by fastforce
      with Some a nm pm m ma l' show ?thesis
        by (simp add: Replace_detach_def wr_node_Some)
    qed
    then obtain s' where s': "Replace_detach (Some a) (Some ?m) s = Some s'" "trees s' = trees s"
        "nodes s' ?m = Some (nm\<lparr>left := rootp r\<rparr>)"
      and rest: "\<And>b. b \<noteq> ?m \<Longrightarrow> nodes s' b = (if rootp r = Some b then map_option (\<lambda>n. n\<lparr>parent := Some ?m\<rparr>) (nodes s b) else nodes s b)"
      by blast
    have "bt_at (nodes s') T (Some ?m) r"
      using bt_at_reparent [OF r d(5), of "nodes s'" "Some ?m"] rest ma(3) by metis
    moreover have "bt_at (nodes s') T (Some z) L"
    proof (subst bt_at_cong [of L _ "nodes s"])
      fix b assume b: "b \<in> set_tree L"
      with dL have "b \<noteq> ?m" "rootp r \<noteq> Some b" using m by (auto dest: rootp_in)
      then show "nodes s' b = nodes s b" by (simp add: rest)
    qed (rule L)
    moreover have "bt_data (nodes s') b = bt_data (nodes s) b" for b
      using s'(3) rest [of b] nm(1) by (cases "b = ?m"; cases "nodes s b") (auto simp: bt_data_def)
    moreover have "nodes s' b = nodes s b" if "b \<notin> set_tree l" "b \<notin> set_tree r" for b
    proof -
      from that ml have "b \<noteq> ?m" "rootp r \<noteq> Some b" by (auto dest: rootp_in)
      then show ?thesis by (simp add: rest)
    qed
    ultimately show ?thesis
      using s' nm pm m True l' d by (auto simp: detached_def fun_eq_iff)
  next
    case False
    have mz: "?m \<in> set_tree R" using l' False by (simp add: min_of_in)
    with d l' have zm: "z \<noteq> ?m" "?m \<noteq> z" "rootp l \<noteq> Some ?m" and rl: "rootp l = Some z" by auto
    from unlink_min_at [OF l d(4) lN zm(3) nm(1)] obtain p np where
      p: "parent nm = Some p" "p \<in> set_tree (del_min l)" "nodes s p = Some np" "left np = Some ?m" "right np \<noteq> Some ?m"
      and c: "\<forall>c. right nm = Some c \<longrightarrow> c \<in> set_tree (del_min l) \<and> c \<noteq> p \<and> rootp l \<noteq> Some c"
      and un: "\<And>h2 q'. (\<forall>b \<in> set_tree (del_min l). h2 b = map_option (unlink_left p (right nm) (rootp l) q' b) (nodes s b)) \<Longrightarrow>
        bt_at h2 T q' (del_min l)" by auto
    have sd: "set_tree (del_min l) = set_tree l - {?m}" using lN d(4) by (rule set_del_min)
    have rd: "rootp (del_min l) = Some z" using l' False by simp
    have px: "p \<noteq> a" "a \<noteq> p" "p \<noteq> ?m" "?m \<noteq> p" "z \<noteq> a" "a \<noteq> z" using p sd d l' by auto
    from l l' obtain nz where nz: "nodes s z = Some nz" by auto
    have cc: "right nm = Some c \<Longrightarrow> \<exists>nc. nodes s c = Some nc \<and> c \<noteq> p \<and> c \<noteq> z \<and> c \<noteq> a \<and> c \<noteq> ?m \<and> rootp r \<noteq> Some c" for c
      using c sd d rl bt_at_alloc [OF l, of c] by (auto dest: rootp_in)
    have rp: "rootp r \<noteq> Some p" "rootp r \<noteq> Some z" using p(2) sd d l' by (auto dest!: rootp_in)
    have "\<exists>s'. Replace_detach (Some a) (Some ?m) s = Some s' \<and> trees s' = trees s \<and>
        nodes s' ?m = Some (nm\<lparr>left := rootp r, right := Some z\<rparr>) \<and>
        (\<forall>b. b \<noteq> ?m \<longrightarrow> nodes s' b =
          (if rootp r = Some b then map_option (\<lambda>n. n\<lparr>parent := Some ?m\<rparr>) (nodes s b)
           else map_option (unlink_left p (right nm) (Some z) (Some ?m) b) (nodes s b)))"
    proof (cases "right nm")
      case None
      show ?thesis
      proof (cases "rootp r")
        case None
        with a nm p px ma rl zm nz rp \<open>right nm = None\<close> show ?thesis
          by (cases "p = z"; simp add: Replace_detach_def wr_node_Some)
             (simp_all add: unlink_left_eval unlink_left_id)
      next
        case (Some y)
        with rr p(2) sd mz l' rp obtain ny where "nodes s y = Some ny" "y \<noteq> z" "y \<noteq> a" "y \<noteq> p" "y \<noteq> ?m" by fastforce
        with Some a nm p px ma rl zm nz rp \<open>right nm = None\<close> show ?thesis
          by (cases "p = z"; simp add: Replace_detach_def wr_node_Some)
             (simp_all add: unlink_left_eval unlink_left_id)
      qed
    next
      case (Some c)
      with cc obtain nc where nc: "nodes s c = Some nc" "c \<noteq> p" "c \<noteq> z" "c \<noteq> a" "c \<noteq> ?m" "rootp r \<noteq> Some c" by blast
      show ?thesis
      proof (cases "rootp r")
        case None
        with a nm p px ma rl zm nz rp Some nc show ?thesis
          by (cases "p = z"; simp add: Replace_detach_def wr_node_Some)
             (simp_all add: unlink_left_eval unlink_left_id)
      next
        case (Some y)
        with rr p(2) sd mz l' rp nc(6) obtain ny where "nodes s y = Some ny" "y \<noteq> z" "y \<noteq> a" "y \<noteq> p" "y \<noteq> ?m" "y \<noteq> c" by fastforce
        with Some a nm p px ma rl zm nz rp \<open>right nm = Some c\<close> nc show ?thesis
          by (cases "p = z"; simp add: Replace_detach_def wr_node_Some)
             (simp_all add: unlink_left_eval unlink_left_id)
      qed
    qed
    then obtain s' where s': "Replace_detach (Some a) (Some ?m) s = Some s'" "trees s' = trees s"
        "nodes s' ?m = Some (nm\<lparr>left := rootp r, right := Some z\<rparr>)"
      and rest: "\<And>b. b \<noteq> ?m \<Longrightarrow> nodes s' b =
          (if rootp r = Some b then map_option (\<lambda>n. n\<lparr>parent := Some ?m\<rparr>) (nodes s b)
           else map_option (unlink_left p (right nm) (Some z) (Some ?m) b) (nodes s b))" by blast
    have out: "nodes s' b = (if rootp r = Some b then map_option (\<lambda>n. n\<lparr>parent := Some ?m\<rparr>) (nodes s b) else nodes s b)"
      if "b \<notin> set_tree l" for b
    proof -
      have "z \<in> set_tree l" using l' by simp
      with that ml p(2) sd have "b \<noteq> ?m" "b \<noteq> p" "b \<noteq> z" by blast+
      moreover have "Some b \<noteq> right nm" using that c sd by (metis DiffD1)
      ultimately show ?thesis by (simp add: rest unlink_left_id)
    qed
    have "nodes s' b = map_option (unlink_left p (right nm) (rootp l) (Some ?m) b) (nodes s b)"
      if "b \<in> set_tree (del_min l)" for b
    proof -
      from that sd d have "b \<noteq> ?m" "rootp r \<noteq> Some b" by (auto dest: rootp_in)
      then show ?thesis by (simp add: rest rl)
    qed
    then have "bt_at (nodes s') T (Some ?m) (del_min l)" using un by blast
    moreover have "bt_at (nodes s') T (Some ?m) r"
      using bt_at_reparent [OF r d(5), of "nodes s'" "Some ?m"] out d(3) by (metis disjoint_iff)
    moreover have "bt_data (nodes s') b = bt_data (nodes s) b" for b
      using s'(3) rest [of b] nm(1) by (cases "b = ?m"; cases "nodes s b") (auto simp: bt_data_def)
    moreover have "nodes s' a = nodes s a" "\<And>b. b \<notin> set_tree (Node r a l) \<Longrightarrow> nodes s' b = nodes s b"
      using out d by (auto dest: rootp_in)
    ultimately show ?thesis
      using s' nm rd by (auto simp: detached_def fun_eq_iff)
  qed
qed

section \<open>Replacing a node\<close>

lemma bt_data_upd:
  "map_option (\<lambda>n. (item n, key n)) (h a) = Some (item x, key x) \<Longrightarrow> bt_data (h(a \<mapsto> x)) = bt_data h"
  by (auto simp: bt_data_def fun_eq_iff)

lemma bt_join_cases:
  obtains "l = Leaf" "r = Leaf" "bt_join l r = Leaf"
  | "size l > size r" "l \<noteq> Leaf" "bt_join l r = Node (del_max l) (max_of l) r"
  | "\<not> size l > size r" "r \<noteq> Leaf" "bt_join l r = Node l (min_of r) (del_min r)"
proof (cases "size l > size r")
  case True
  then have "l \<noteq> Leaf" by auto
  with True that show ?thesis by (simp add: bt_join_def)
next
  case False
  with that show ?thesis by (cases "r = Leaf") (auto simp: bt_join_def)
qed

lemma set_bt_join: "set_tree (bt_join l r) = set_tree l \<union> set_tree r"
  by (metis inorder_bt_join set_append set_inorder)

text \<open>The node that \<open>BalancedBTreeRemove\<close> passes to \<open>BalancedBTreeReplace\<close>.\<close>

lemma Remove_pick:
  assumes "bt_at (nodes s) T (Some a) l" "bt_at (nodes s) T (Some a) r"
  shows "(if int (size l) > int (size r) then BalancedBTreeFindGreatest s (rootp l)
          else BalancedBTreeFindLeast s (rootp r)) = Some (rootp (bt_join l r))"
  using FindLeast_at [OF assms(2)] FindGreatest_at [OF assms(1)] by (cases l r rule: bt_join_cases) auto

definition cleared :: "'a bt_store \<Rightarrow> addr \<Rightarrow> 'a bt_store \<Rightarrow> bool" where
  "cleared s a s' \<longleftrightarrow> nodes s' a = map_option (\<lambda>n. n\<lparr>left := None, right := None, parent := None\<rparr>) (nodes s a)"

lemma Replace_detached:
  assumes dt: "detached s T (Node l a r) a l' m r' s1" and rd: "Replace_detach (Some a) (Some m) s = Some s1"
    and at: "bt_at (nodes s) T q (Node l a r)" and lk: "linked s T q (Node l a r)"
    and st: "set_tree (Node l' m r') = set_tree l \<union> set_tree r" and dist: "distinct (inorder (Node l a r))"
    and d': "distinct (inorder (Node l' m r'))"
  shows "\<exists>s'. BalancedBTreeReplace (Some T) (Some a) (Some m) s = Some s' \<and>
    moved s T q (Node l a r) (Node l' m r') s' \<and> cleared s a s'"
proof -
  from at obtain na where a: "nodes s a = Some na" "parent na = q" by auto
  from dt obtain n1 where n1: "nodes s1 m = Some n1" "left n1 = rootp l'" "right n1 = rootp r'" "btree n1 = Some T"
    and l: "bt_at (nodes s1) T (Some m) l'" and r: "bt_at (nodes s1) T (Some m) r'"
    and tr: "trees s1 = trees s" and dat: "bt_data (nodes s1) = bt_data (nodes s)"
    and fr: "\<forall>b. b \<notin> set_tree (Node l a r) \<longrightarrow> nodes s1 b = nodes s b" and a1: "nodes s1 a = Some na"
    using a by (auto simp: detached_def)
  have am: "a \<notin> set_tree (Node l' m r')" using dist st by auto
  then have nam: "a \<noteq> m" "m \<noteq> a" "a \<notin> set_tree l'" "a \<notin> set_tree r'" by auto
  have m: "m \<in> set_tree (Node l a r)" "m \<notin> set_tree l'" "m \<notin> set_tree r'" using st d' by auto
  show ?thesis
  proof (cases q)
    case None
    from lk obtain t where "trees s T = Some t" by (auto simp: linked_def)
    with None a a1 n1 tr nam m l r dat fr rd show ?thesis
      by (auto simp: bt_data_upd BalancedBTreeReplace_def wr_node_Some wr_tree_Some moved_def cleared_def)
  next
    case (Some p)
    from lk Some obtain np where p: "p \<notin> set_tree (Node l a r)" "nodes s p = Some np" by (auto simp: linked_def)
    then have p1: "nodes s1 p = Some np" "p \<noteq> a" "p \<noteq> m" "p \<notin> set_tree l'" "p \<notin> set_tree r'"
      using fr m st by auto
    from p p1 Some a a1 n1 tr nam m l r dat fr rd show ?thesis
      by (auto simp: bt_data_upd BalancedBTreeReplace_def wr_node_Some moved_def cleared_def relink_def)
  qed
qed

lemma BalancedBTreeReplace_moved:
  assumes at: "bt_at (nodes s) T q (Node l a r)" and dist: "distinct (inorder (Node l a r))" and lk: "linked s T q (Node l a r)"
  shows "\<exists>s'. BalancedBTreeReplace (Some T) (Some a) (rootp (bt_join l r)) s = Some s' \<and>
    moved s T q (Node l a r) (bt_join l r) s' \<and> cleared s a s'"
proof (cases l r rule: bt_join_cases)
  case 1
  from at 1 obtain na where a: "nodes s a = Some na" "parent na = q" "btree na = Some T" by auto
  show ?thesis
  proof (cases q)
    case None
    from lk None obtain t where "trees s T = Some t" by (auto simp: linked_def)
    with 1 a None show ?thesis
      by (auto simp: BalancedBTreeReplace_def wr_node_Some wr_tree_Some moved_def cleared_def bt_data_def)
  next
    case (Some p)
    from lk Some 1 obtain np where "p \<noteq> a" "nodes s p = Some np" by (auto simp: linked_def)
    with 1 a Some show ?thesis
      by (auto simp: BalancedBTreeReplace_def wr_node_Some moved_def cleared_def relink_def bt_data_def)
  qed
next
  case 2
  then have st: "set_tree (Node (del_max l) (max_of l) r) = set_tree l \<union> set_tree r" by (metis set_bt_join)
  have "distinct (inorder (Node (del_max l) (max_of l) r))"
    using dist unfolding 2(3) [symmetric] by simp
  with Replace_detach_max [OF at dist 2(2)] Replace_detached [OF _ _ at lk st dist] 2 show ?thesis by auto
next
  case 3
  then have st: "set_tree (Node l (min_of r) (del_min r)) = set_tree l \<union> set_tree r" by (metis set_bt_join)
  have "distinct (inorder (Node l (min_of r) (del_min r)))"
    using dist unfolding 3(3) [symmetric] by simp
  with Replace_detach_min [OF at dist 3(2)] Replace_detached [OF _ _ at lk st dist] 3 show ?thesis by auto
qed

end
