(* ===== verification/BTreeCorrect.thy ===== *)
theory BTreeCorrect
  imports BTreeRemove
begin

text \<open>
  The public operations of \<open>balanced_btree.c\<close> on a whole tree: each ends without a
  fault, in a store whose tree is the one \<open>BTreeSpec\<close> gives; client pointers, keys,
  the mutex and everything outside the tree are as before.
\<close>

section \<open>From a subtree to the tree\<close>

lemma linked_root: "bt_rep s T kt t \<Longrightarrow> linked s T None t"
  by (auto simp: bt_rep_def linked_def)

lemma linked_left:
  "bt_at (nodes s) T q (Node l x r) \<Longrightarrow> distinct (inorder (Node l x r)) \<Longrightarrow> linked s T q (Node l x r) \<Longrightarrow> linked s T (Some x) l"
  by (auto simp: linked_def)

lemma linked_right:
  "bt_at (nodes s) T q (Node l x r) \<Longrightarrow> distinct (inorder (Node l x r)) \<Longrightarrow> linked s T q (Node l x r) \<Longrightarrow> linked s T (Some x) r"
  using rootp_in [of l] by (simp add: linked_def) (metis disjoint_iff)

lemma set_bt_remove: "distinct (inorder t) \<Longrightarrow> set_tree (bt_remove a t) = set_tree t - {a}"
  unfolding set_inorder [symmetric] by (auto simp: inorder_bt_remove)

lemma subtree_of:
  "bt_at (nodes s) T q t \<Longrightarrow> distinct (inorder t) \<Longrightarrow> linked s T q t \<Longrightarrow> a \<in> set_tree t \<Longrightarrow>
   \<exists>q' l r. bt_at (nodes s) T q' (Node l a r) \<and> distinct (inorder (Node l a r)) \<and> linked s T q' (Node l a r) \<and>
     set_tree (Node l a r) \<subseteq> set_tree t \<and>
     (\<forall>s'. moved s T q' (Node l a r) (bt_join l r) s' \<longrightarrow> moved s T q t (bt_remove a t) s')"
proof (induction t arbitrary: q)
  case (Node L y R)
  from Node.prems(1) have L: "bt_at (nodes s) T (Some y) L" and R: "bt_at (nodes s) T (Some y) R" by auto
  from Node.prems(2) have d: "distinct (inorder L)" "distinct (inorder R)" "y \<notin> set_tree L" "y \<notin> set_tree R"
    "set_tree L \<inter> set_tree R = {}" by auto
  note lk = linked_left [OF Node.prems(1-3)] linked_right [OF Node.prems(1-3)]
  consider "a = y" | "a \<noteq> y" "a \<in> set_tree L" | "a \<noteq> y" "a \<in> set_tree R" using Node.prems(4) by auto
  then show ?case
  proof cases
    case 1
    with Node.prems show ?thesis by (intro exI [of _ q] exI [of _ L] exI [of _ R]) simp
  next
    case 2
    with d have "a \<notin> set_tree R" by auto
    then have rm: "bt_remove a (Node L y R) = Node (bt_remove a L) y R" using 2 by (simp add: bt_remove_notin)
    from Node.IH(1) [OF L d(1) lk(1) 2(2)] obtain q' l r where
      sub: "bt_at (nodes s) T q' (Node l a r)" "distinct (inorder (Node l a r))" "linked s T q' (Node l a r)"
        "set_tree (Node l a r) \<subseteq> set_tree L"
      and mv: "\<And>s'. moved s T q' (Node l a r) (bt_join l r) s' \<Longrightarrow> moved s T (Some y) L (bt_remove a L) s'" by blast
    have "moved s T q (Node L y R) (Node (bt_remove a L) y R) s'"
      if "moved s T q' (Node l a r) (bt_join l r) s'" for s'
    proof -
      note m = mv [OF that]
      have R': "bt_at (nodes s') T (Some y) R"
        using R m d by (subst bt_at_cong [of R "nodes s'" "nodes s"]) (auto simp: moved_def)
      from Node.prems obtain ny where y: "nodes s y = Some ny" "left ny = rootp L" "right ny = rootp R" by auto
      have ys: "nodes s' y = Some (ny\<lparr>left := rootp (bt_remove a L)\<rparr>)" "trees s' = trees s"
        using m y by (auto simp: moved_def relink_def)
      have "\<forall>b \<in> set_tree R. rootp (bt_remove a L) \<noteq> Some b"
        using d set_bt_remove [OF d(1), of a] rootp_in [of "bt_remove a L"] by fastforce
      then have "linked s' T (Some y) R" using lk(2) ys y d by (auto simp: linked_def)
      from moved_children [OF Node.prems(1-3) m moved_refl [OF R' this]] set_bt_remove [OF d(1), of a]
      show ?thesis by auto
    qed
    with sub rm show ?thesis by (intro exI [of _ q'] exI [of _ l] exI [of _ r]) auto
  next
    case 3
    with d have "a \<notin> set_tree L" by auto
    then have rm: "bt_remove a (Node L y R) = Node L y (bt_remove a R)" using 3 by (simp add: bt_remove_notin)
    from Node.IH(2) [OF R d(2) lk(2) 3(2)] obtain q' l r where
      sub: "bt_at (nodes s) T q' (Node l a r)" "distinct (inorder (Node l a r))" "linked s T q' (Node l a r)"
        "set_tree (Node l a r) \<subseteq> set_tree R"
      and mv: "\<And>s'. moved s T q' (Node l a r) (bt_join l r) s' \<Longrightarrow> moved s T (Some y) R (bt_remove a R) s'" by blast
    have "moved s T q (Node L y R) (Node L y (bt_remove a R)) s'"
      if "moved s T q' (Node l a r) (bt_join l r) s'" for s'
      using moved_children [OF Node.prems(1-3) moved_refl [OF L lk(1)] mv [OF that]] set_bt_remove [OF d(2), of a] by auto
    with sub rm show ?thesis by (intro exI [of _ q'] exI [of _ l] exI [of _ r]) auto
  qed
qed simp

section \<open>Whole trees\<close>

text \<open>What an operation on tree \<open>T\<close> may change: the nodes of \<open>A\<close>, but not their data.\<close>

definition bt_frame :: "addr \<Rightarrow> addr set \<Rightarrow> 'a bt_store \<Rightarrow> 'a bt_store \<Rightarrow> bool" where
  "bt_frame T A s s' \<longleftrightarrow> bt_data (nodes s') = bt_data (nodes s) \<and> (\<forall>b. b \<notin> A \<longrightarrow> nodes s' b = nodes s b) \<and>
     (\<forall>T'. T' \<noteq> T \<longrightarrow> trees s' T' = trees s T')"

lemma bt_frame_refl [simp]: "bt_frame T A s s"
  by (simp add: bt_frame_def)

lemma bt_frame_trans: "bt_frame T A s s1 \<Longrightarrow> bt_frame T B s1 s2 \<Longrightarrow> A \<union> B \<subseteq> C \<Longrightarrow> bt_frame T C s s2"
  unfolding bt_frame_def by (metis UnI1 UnI2 subsetD)

lemma bt_repD:
  assumes "bt_rep s T kt t"
  shows "distinct (inorder t)" "bt_at (nodes s) T None t" "tree_obj s T kt" "\<forall>a \<in> set_tree t. key_typed kt (nodes s) a"
    "\<exists>o'. trees s T = Some o' \<and> root o' = rootp t"
  using assms by (auto simp: bt_rep_def)

lemma moved_rep:
  assumes rep: "bt_rep s T kt t" and m: "moved s T None t t' s'" and d: "distinct (inorder t')" and st: "set_tree t' \<subseteq> set_tree t"
  shows "bt_rep s' T kt t' \<and> bt_frame T (set_tree t) s s' \<and> bt_locked s' T = bt_locked s T"
proof -
  from m have dat: "bt_data (nodes s') = bt_data (nodes s)"
    and tr: "trees s' = (trees s)(T := map_option (\<lambda>t. t\<lparr>root := rootp t'\<rparr>) (trees s T))" by (simp_all add: moved_def)
  have "key_typed kt (nodes s') a" if "a \<in> set_tree t'" for a
    using that st bt_repD(4) [OF rep] key_typed_data [of "nodes s'" a "nodes s" kt] dat by auto
  with rep m d tr dat show ?thesis
    by (auto simp: bt_rep_def moved_def tree_obj_def bt_frame_def bt_locked_def)
qed

lemma Rebalance_rep:
  assumes "bt_rep s T kt t"
  shows "\<exists>s'. BalancedBTreeRebalance (Some T) (rootp t) s = Some s' \<and> bt_rep s' T kt (bt_rebalance t) \<and>
    bt_frame T (set_tree t) s s' \<and> bt_locked s' T = bt_locked s T"
  using BalancedBTreeRebalance_moved [OF bt_repD(2,1) [OF assms] linked_root [OF assms]]
    moved_rep [OF assms, of "bt_rebalance t"] bt_repD(1) [OF assms] by auto

definition reb :: "bool \<Rightarrow> 'a tree \<Rightarrow> 'a tree" where
  "reb rebalance t = (if rebalance then bt_rebalance t else t)"

lemma reb_simps [simp]: "set_tree (reb b t) = set_tree t" "inorder (reb b t) = inorder t" "size (reb b t) = size t"
  by (simp_all add: reb_def)

text \<open>The common end of adding and removing.\<close>

lemma maybe_Rebalance_rep:
  assumes "bt_rep s T kt t"
  shows "\<exists>s'. (do { t \<leftarrow> rd_tree s (Some T); if rebalance then BalancedBTreeRebalance (Some T) (root t) s else Some s }) = Some s' \<and>
    bt_rep s' T kt (reb rebalance t) \<and> bt_frame T (set_tree t) s s' \<and> bt_locked s' T = bt_locked s T"
  using Rebalance_rep [OF assms] bt_repD(5) [OF assms] assms by (auto simp: reb_def)

definition lock_free :: "Locked_t \<Rightarrow> 'a bt_store \<Rightarrow> addr \<Rightarrow> bool" where
  "lock_free locked s T \<longleftrightarrow> (locked = UNLOCKED \<longrightarrow> \<not> bt_locked s T)"

lemma lock_rep:
  assumes "bt_rep s T kt t" "lock_free locked s T"
  shows "\<exists>s'. (if locked = UNLOCKED then BalancedBTreeLock (Some T) s else Some s) = Some s' \<and>
    nodes s' = nodes s \<and> bt_rep s' T kt t \<and> bt_frame T {} s s' \<and> bt_locked s' T = (locked = UNLOCKED \<or> bt_locked s T)"
  using assms bt_repD(5) [OF assms(1)]
  by (cases locked) (auto simp: lock_free_def BalancedBTreeLock_def wr_tree_Some bt_locked_def bt_rep_def tree_obj_def bt_frame_def)

lemma unlock_rep:
  assumes "bt_rep s T kt t"
  shows "\<exists>s'. (if locked = UNLOCKED then BalancedBTreeUnlock (Some T) s else Some s) = Some s' \<and>
    nodes s' = nodes s \<and> bt_rep s' T kt t \<and> bt_frame T {} s s' \<and> bt_locked s' T = (locked = LOCKED \<and> bt_locked s T)"
  using assms bt_repD(5) [OF assms(1)]
  by (cases locked) (auto simp: BalancedBTreeUnlock_def wr_tree_Some bt_locked_def bt_rep_def tree_obj_def bt_frame_def)

section \<open>The operations\<close>

lemma distinct_insert:
  "distinct (inorder t) \<Longrightarrow> a \<notin> set_tree t \<Longrightarrow> distinct (inorder (bt_insert cmp kf a t))"
proof (induction t)
  case (Node l y r)
  then show ?case using set_bt_insert [of cmp kf a l] set_bt_insert [of cmp kf a r] by auto
qed simp

lemma BalancedBTreeFind_correct:
  assumes rep: "bt_rep s T kt t" and lf: "lock_free locked s T" and k: "key_of_type kt k"
  shows "BalancedBTreeFind (Some T) (Some k) locked s = Some (bt_find (type_cmp kt) (nkey (nodes s)) k t, s)"
proof -
  from bt_repD(5) [OF rep] obtain o' where o': "trees s T = Some o'" "root o' = rootp t" by blast
  have loop: "BalancedBTreeFind_loop s1 (Some T) (Some k) (rootp t) = Some (bt_find (type_cmp kt) (nkey (nodes s)) k t)"
    if "nodes s1 = nodes s" "bt_rep s1 T kt t" for s1
    using that(1) Find_loop_at [OF bt_repD(2,3) [OF that(2)] k] bt_repD(4) [OF that(2)] by simp
  show ?thesis
  proof (cases locked)
    case LOCKED
    with o' loop [OF refl rep] show ?thesis by (simp add: BalancedBTreeFind_def)
  next
    case UNLOCKED
    with lf o' have mu: "\<not> mutex o'" by (simp add: lock_free_def bt_locked_def)
    let ?s1 = "s\<lparr>trees := (trees s)(T \<mapsto> o'\<lparr>mutex := True\<rparr>)\<rparr>"
    have "bt_rep ?s1 T kt t" using rep o' by (auto simp: bt_rep_def tree_obj_def)
    with loop [of ?s1] have "BalancedBTreeFind_loop ?s1 (Some T) (Some k) (rootp t) = Some (bt_find (type_cmp kt) (nkey (nodes s)) k t)"
      by simp
    moreover have "s\<lparr>trees := (trees s)(T \<mapsto> o'\<lparr>mutex := False\<rparr>)\<rparr> = s"
      using o' mu by (cases s; cases o') (auto simp: fun_upd_idem)
    ultimately show ?thesis
      using UNLOCKED o' mu by (simp add: BalancedBTreeFind_def BalancedBTreeLock_def BalancedBTreeUnlock_def wr_tree_Some)
  qed
qed

definition add_shape :: "BalancedBTreeKeyType_t \<Rightarrow> 'a bt_store \<Rightarrow> bool \<Rightarrow> addr \<Rightarrow> addr tree \<Rightarrow> addr tree" where
  "add_shape kt s rebalance a t = reb rebalance (bt_insert (type_cmp kt) (nkey (nodes s)) a t)"

text \<open>Linking the node: the part of \<open>BalancedBTreeAdd\<close> between taking the lock and rebalancing.\<close>

definition Add_link :: "ptr \<Rightarrow> ptr \<Rightarrow> 'a bt_store \<Rightarrow> 'a bt_store option" where
  "Add_link bt it s = do {
     s \<leftarrow> wr_node it (\<lambda>n. n\<lparr>btree := bt, left := None, right := None\<rparr>) s;
     par \<leftarrow> BalancedBTreeFindParent s bt it;
     s \<leftarrow> wr_node it (\<lambda>n. n\<lparr>parent := par\<rparr>) s;
     if par = None then wr_tree bt (\<lambda>t. t\<lparr>root := it\<rparr>) s
     else do {
       n \<leftarrow> rd_node s it;
       p \<leftarrow> rd_node s par;
       res \<leftarrow> call_compare s bt (key n) (key p);
       if res > 0 then wr_node par (\<lambda>p. p\<lparr>right := it\<rparr>) s
       else if res < 0 then wr_node par (\<lambda>p. p\<lparr>left := it\<rparr>) s
       else do {
         t \<leftarrow> rd_tree s bt;
         case keyType t of
           BTREE_KEY_INT \<Rightarrow> wr_tree bt (\<lambda>t. t\<lparr>keyCompare := Some KeyCompareInt\<rparr>) s
         | BTREE_KEY_STRING \<Rightarrow> wr_tree bt (\<lambda>t. t\<lparr>keyCompare := Some KeyCompareString\<rparr>) s
         | BTREE_KEY_PTHREAD \<Rightarrow> Some s
       }
     }
   }"

lemma BalancedBTreeAdd_eq:
  "BalancedBTreeAdd (Some T) (Some a) locked rebalance s = do {
     s \<leftarrow> (if locked = UNLOCKED then BalancedBTreeLock (Some T) s else Some s);
     s \<leftarrow> Add_link (Some T) (Some a) s;
     s \<leftarrow> (do { t \<leftarrow> rd_tree s (Some T); if rebalance then BalancedBTreeRebalance (Some T) (root t) s else Some s });
     if locked = UNLOCKED then BalancedBTreeUnlock (Some T) s else Some s
   }"
  unfolding BalancedBTreeAdd_def Add_link_def by (simp add: Option.bind_assoc)

lemma Add_link_rep:
  assumes rep: "bt_rep s T kt t" and a: "a \<notin> set_tree t" "key_typed kt (nodes s) a"
  shows "\<exists>s'. Add_link (Some T) (Some a) s = Some s' \<and>
    bt_rep s' T kt (bt_insert (type_cmp kt) (nkey (nodes s)) a t) \<and>
    bt_frame T (insert a (set_tree t)) s s' \<and> bt_locked s' T = bt_locked s T"
proof -
  let ?kf = "nkey (nodes s)" and ?cmp = "type_cmp kt"
  from a(2) obtain na k where na: "nodes s a = Some na" "key na = Some k" "key_of_type kt k" by (auto simp: key_typed_def)
  then have ka: "?kf a = k" by (simp add: nkey_def)
  from bt_repD [OF rep] obtain o' where o': "trees s T = Some o'" "root o' = rootp t" "keyType o' = kt" "keyCompare o' = Some (keyCompare_of kt)"
    by (auto simp: tree_obj_def)
  let ?n1 = "na\<lparr>btree := Some T, left := None, right := None\<rparr>"
  let ?s1 = "s\<lparr>nodes := (nodes s)(a \<mapsto> ?n1)\<rparr>"
  have dat1: "bt_data (nodes ?s1) = bt_data (nodes s)" using na by (auto simp: bt_data_def fun_eq_iff)
  have at1: "bt_at (nodes ?s1) T None t" using a bt_repD(2) [OF rep] by simp
  have kt1: "\<forall>b \<in> set_tree t. key_typed kt (nodes ?s1) b"
    using bt_repD(4) [OF rep] key_typed_data [OF fun_cong [OF dat1], of kt] by simp
  have to1: "tree_obj ?s1 T kt" using o' by (simp add: tree_obj_def)
  have nk1: "nkey ((nodes s)(a \<mapsto> ?n1)) = ?kf" using nkey_data [OF dat1] by simp
  define ip where "ip = ins_parent ?cmp ?kf k t"
  have fp: "BalancedBTreeFindParent ?s1 (Some T) (Some a) = Some ip"
    using FindParent_loop_at [OF at1 to1 na(3) kt1, of None] o' na
    by (simp add: BalancedBTreeFindParent_def nk1 ip_def split: option.split)
  have ty: "key_typed kt h b" if "bt_data h = bt_data (nodes s)" "b = a \<or> b \<in> set_tree t" for h b
    using that a(2) bt_repD(4) [OF rep] key_typed_data [of h b "nodes s" kt] by auto
  show ?thesis
  proof (cases ip)
    case None
    with ip_def have t: "t = Leaf" by (metis ins_parent_None)
    with fp None na o' show ?thesis
      by (auto simp: Add_link_def wr_node_Some wr_tree_Some bt_rep_def tree_obj_def key_typed_def bt_frame_def bt_data_def bt_locked_def)
  next
    case (Some p)
    then have p: "p \<in> set_tree t" "p \<noteq> a" using ip_def a(1) by (auto dest: ins_parent_in)
    with bt_at_alloc [OF bt_repD(2) [OF rep]] obtain np where np: "nodes s p = Some np" by blast
    have "key_typed kt (nodes s) p" using bt_repD(4) [OF rep] p(1) by blast
    then obtain kp where kp: "key np = Some kp" "key_of_type kt kp" "?kf p = kp" using np by (auto simp: key_typed_def nkey_def)
    let ?res = "?cmp k kp"
    let ?n2 = "?n1\<lparr>parent := Some p\<rparr>"
    have res: "keyCompare_of kt (Some k) (Some kp) = Some ?res" using keyCompare_typed [OF na(3) kp(2)] .
    show ?thesis
    proof (cases "?res = 0")
      case True
      have ins: "bt_insert ?cmp ?kf a t = t"
        using bt_insert_dup [of ?cmp ?kf a t p] True ip_def Some ka kp(3) by simp
      have run: "Add_link (Some T) (Some a) s = Some (s\<lparr>nodes := (nodes s)(a \<mapsto> ?n2)\<rparr>)"
      proof -
        have "o'\<lparr>keyCompare := Some (keyCompare_of kt)\<rparr> = o'" using o' by (cases o') simp
        then have "(trees s)(T \<mapsto> o'\<lparr>keyCompare := Some (keyCompare_of kt)\<rparr>) = trees s" using o' by (simp add: fun_upd_idem)
        with fp Some na o' np p kp True res show ?thesis
          by (cases kt) (simp_all add: Add_link_def wr_node_Some wr_tree_Some call_compare_def)
      qed
      have "bt_data ((nodes s)(a \<mapsto> ?n2)) = bt_data (nodes s)" using na by (auto simp: bt_data_def fun_eq_iff)
      with run ins rep a ty show ?thesis
        by (auto simp: bt_rep_def tree_obj_def bt_frame_def bt_locked_def)
    next
      case False
      let ?h = "(nodes s)(a \<mapsto> ?n2, p \<mapsto> link_child (Some a) ?res np)"
      have run: "Add_link (Some T) (Some a) s = Some (s\<lparr>nodes := ?h\<rparr>)"
        using fp Some na o' np p kp False res
        by (simp add: Add_link_def wr_node_Some call_compare_def link_child_def)
      have dat: "bt_data ?h = bt_data (nodes s)"
        using na np p by (auto simp: bt_data_def fun_eq_iff link_child_def)
      have "bt_at ?h T None (bt_insert ?cmp ?kf a t)"
        by (rule bt_at_link [OF bt_repD(2,1) [OF rep] a(1), where p = p and na = ?n2])
           (use Some ip_def ka kp np p False a(1) in auto)
      moreover have "distinct (inorder (bt_insert ?cmp ?kf a t)) \<and> rootp (bt_insert ?cmp ?kf a t) = rootp t \<and>
          set_tree (bt_insert ?cmp ?kf a t) \<subseteq> insert a (set_tree t)"
        using rootp_insert [of t ?cmp ?kf a] p(1) set_bt_insert [of ?cmp ?kf a t] distinct_insert [OF bt_repD(1) [OF rep] a(1)]
        by (cases "t = Leaf") simp_all
      ultimately show ?thesis
        using run dat ty [OF dat] o' p by (auto simp: bt_rep_def tree_obj_def bt_frame_def bt_locked_def)
    qed
  qed
qed

lemma bt_frame_empty: "bt_frame T {} s s' \<Longrightarrow> nodes s' = nodes s"
  by (auto simp: bt_frame_def)

lemma BalancedBTreeAdd_correct:
  assumes rep: "bt_rep s T kt t" and lf: "lock_free locked s T" and a: "a \<notin> set_tree t" "key_typed kt (nodes s) a"
  shows "\<exists>s'. BalancedBTreeAdd (Some T) (Some a) locked rebalance s = Some s' \<and>
    bt_rep s' T kt (add_shape kt s rebalance a t) \<and> bt_frame T (insert a (set_tree t)) s s' \<and> bt_locked s' T = bt_locked s T"
proof -
  from lock_rep [OF rep lf] obtain s1 where s1:
    "(if locked = UNLOCKED then BalancedBTreeLock (Some T) s else Some s) = Some s1" "nodes s1 = nodes s"
    "bt_rep s1 T kt t" "bt_frame T {} s s1" "bt_locked s1 T = (locked = UNLOCKED \<or> bt_locked s T)" by blast
  from Add_link_rep [OF s1(3) a(1)] a(2) s1(2) obtain s2 where s2: "Add_link (Some T) (Some a) s1 = Some s2"
    "bt_rep s2 T kt (bt_insert (type_cmp kt) (nkey (nodes s)) a t)" "bt_frame T (insert a (set_tree t)) s1 s2"
    "bt_locked s2 T = bt_locked s1 T" by auto
  from maybe_Rebalance_rep [OF s2(2), of rebalance] obtain s3 where s3:
    "(do { t \<leftarrow> rd_tree s2 (Some T); if rebalance then BalancedBTreeRebalance (Some T) (root t) s2 else Some s2 }) = Some s3"
    "bt_rep s3 T kt (add_shape kt s rebalance a t)"
    "bt_frame T (set_tree (bt_insert (type_cmp kt) (nkey (nodes s)) a t)) s2 s3" "bt_locked s3 T = bt_locked s2 T"
    unfolding add_shape_def by blast
  from unlock_rep [OF s3(2), of locked] obtain s4 where s4:
    "(if locked = UNLOCKED then BalancedBTreeUnlock (Some T) s3 else Some s3) = Some s4"
    "bt_rep s4 T kt (add_shape kt s rebalance a t)" "bt_frame T {} s3 s4" "bt_locked s4 T = (locked = LOCKED \<and> bt_locked s3 T)" by blast
  have "BalancedBTreeAdd (Some T) (Some a) locked rebalance s = Some s4"
    unfolding BalancedBTreeAdd_eq s1(1) s2(1) Option.bind.bind_lunit s3(1) s4(1) ..
  moreover have "bt_frame T (insert a (set_tree t)) s s4"
    using bt_frame_trans [OF bt_frame_trans [OF bt_frame_trans [OF s1(4) s2(3) order_refl] s3(3) order_refl] s4(3)]
      set_bt_insert [of "type_cmp kt" "nkey (nodes s)" a t] by auto
  moreover have "bt_locked s4 T = bt_locked s T"
    using s4(4) s3(4) s2(4) s1(5) lf by (cases locked) (auto simp: lock_free_def)
  ultimately show ?thesis using s4(2) by blast
qed

section \<open>Removing\<close>

definition Remove_unlink :: "ptr \<Rightarrow> ptr \<Rightarrow> 'a bt_store \<Rightarrow> 'a bt_store option" where
  "Remove_unlink bt it s = do {
     n \<leftarrow> rd_node s it;
     wl \<leftarrow> BalancedBTreeWeight s (left n);
     wr \<leftarrow> BalancedBTreeWeight s (right n);
     rep \<leftarrow> (if wl > wr then BalancedBTreeFindGreatest s (left n) else BalancedBTreeFindLeast s (right n));
     s \<leftarrow> BalancedBTreeReplace bt it rep s;
     wr_node it (\<lambda>n. n\<lparr>btree := None\<rparr>) s
   }"

lemma BalancedBTreeRemove_eq:
  assumes "nodes s a = Some n" "btree n = Some T"
  shows "BalancedBTreeRemove (Some T) (Some a) locked rebalance s = do {
     s \<leftarrow> (if locked = UNLOCKED then BalancedBTreeLock (Some T) s else Some s);
     s \<leftarrow> Remove_unlink (Some T) (Some a) s;
     s \<leftarrow> (do { t \<leftarrow> rd_tree s (Some T); if rebalance then BalancedBTreeRebalance (Some T) (root t) s else Some s });
     if locked = UNLOCKED then BalancedBTreeUnlock (Some T) s else Some s
   }"
  using assms unfolding BalancedBTreeRemove_def Remove_unlink_def by (simp add: Option.bind_assoc)

definition unlinked_item :: "'a BalancedBTreeItem_t \<Rightarrow> 'a BalancedBTreeItem_t" where
  "unlinked_item n = n\<lparr>left := None, right := None, parent := None, btree := None\<rparr>"

lemma Remove_unlink_moved:
  assumes at: "bt_at (nodes s) T q t" and d: "distinct (inorder t)" and lk: "linked s T q t" and a: "a \<in> set_tree t"
  shows "\<exists>s'. Remove_unlink (Some T) (Some a) s = Some s' \<and> moved s T q t (bt_remove a t) s' \<and>
    nodes s' a = map_option unlinked_item (nodes s a)"
proof -
  from subtree_of [OF at d lk a] obtain q' l r where
    sub: "bt_at (nodes s) T q' (Node l a r)" "distinct (inorder (Node l a r))" "linked s T q' (Node l a r)"
      "set_tree (Node l a r) \<subseteq> set_tree t"
    and mv: "\<And>s'. moved s T q' (Node l a r) (bt_join l r) s' \<Longrightarrow> moved s T q t (bt_remove a t) s'" by blast
  from BalancedBTreeReplace_moved [OF sub(1-3)] obtain s1 where
    s1: "BalancedBTreeReplace (Some T) (Some a) (rootp (bt_join l r)) s = Some s1"
      "moved s T q' (Node l a r) (bt_join l r) s1" "cleared s a s1" by blast
  from sub(1) obtain n where n: "nodes s a = Some n" "left n = rootp l" "right n = rootp r"
    and l: "bt_at (nodes s) T (Some a) l" and r: "bt_at (nodes s) T (Some a) r" by auto
  have aj: "a \<notin> set_tree (bt_remove a t)" using set_bt_remove [OF d] by simp
  let ?n' = "n\<lparr>left := None, right := None, parent := None\<rparr>"
  have n1: "nodes s1 a = Some ?n'" using s1(3) n by (simp add: cleared_def)
  let ?s2 = "s1\<lparr>nodes := (nodes s1)(a \<mapsto> unlinked_item n)\<rparr>"
  have run: "Remove_unlink (Some T) (Some a) s = Some ?s2"
    using n Weight_at [OF l] Weight_at [OF r] Remove_pick [OF l r] s1(1) n1
    by (cases "size r < size l") (simp_all add: Remove_unlink_def wr_node_Some unlinked_item_def)
  have dd: "bt_data ((nodes s1)(a \<mapsto> unlinked_item n)) = bt_data (nodes s1)"
    using n1 by (intro bt_data_upd) (simp add: unlinked_item_def)
  from mv [OF s1(2)] have m: "moved s T q t (bt_remove a t) s1" .
  have "q \<noteq> Some a" using lk a by (auto simp: linked_def)
  with m a dd aj have "moved s T q t (bt_remove a t) ?s2"
    by (auto simp: moved_def split: option.splits)
  with run n show ?thesis by simp
qed

lemma BalancedBTreeRemove_correct:
  assumes rep: "bt_rep s T kt t" and lf: "lock_free locked s T" and a: "a \<in> set_tree t"
  shows "\<exists>s'. BalancedBTreeRemove (Some T) (Some a) locked rebalance s = Some s' \<and>
    bt_rep s' T kt (reb rebalance (bt_remove a t)) \<and> nodes s' a = map_option unlinked_item (nodes s a) \<and>
    bt_frame T (set_tree t) s s' \<and> bt_locked s' T = bt_locked s T"
proof -
  from bt_at_alloc [OF bt_repD(2) [OF rep] a] obtain n where n: "nodes s a = Some n" "btree n = Some T" by blast
  note d = bt_repD(1) [OF rep]
  have st: "set_tree (bt_remove a t) = set_tree t - {a}" "distinct (inorder (bt_remove a t))"
    using set_bt_remove [OF d] inorder_bt_remove [OF d] d by simp_all
  from lock_rep [OF rep lf] obtain s1 where s1:
    "(if locked = UNLOCKED then BalancedBTreeLock (Some T) s else Some s) = Some s1" "nodes s1 = nodes s"
    "bt_rep s1 T kt t" "bt_frame T {} s s1" "bt_locked s1 T = (locked = UNLOCKED \<or> bt_locked s T)" by blast
  from Remove_unlink_moved [OF bt_repD(2,1) [OF s1(3)] linked_root [OF s1(3)] a] obtain s2 where
    s2: "Remove_unlink (Some T) (Some a) s1 = Some s2" "moved s1 T None t (bt_remove a t) s2"
      "nodes s2 a = map_option unlinked_item (nodes s1 a)" by blast
  from moved_rep [OF s1(3) s2(2) st(2)] st(1) have
    r2: "bt_rep s2 T kt (bt_remove a t)" "bt_frame T (set_tree t) s1 s2" "bt_locked s2 T = bt_locked s1 T" by auto
  from maybe_Rebalance_rep [OF r2(1), of rebalance] obtain s3 where s3:
    "(do { t \<leftarrow> rd_tree s2 (Some T); if rebalance then BalancedBTreeRebalance (Some T) (root t) s2 else Some s2 }) = Some s3"
    "bt_rep s3 T kt (reb rebalance (bt_remove a t))"
    "bt_frame T (set_tree t - {a}) s2 s3" "bt_locked s3 T = bt_locked s2 T"
    unfolding st by blast
  from unlock_rep [OF s3(2), of locked] obtain s4 where s4:
    "(if locked = UNLOCKED then BalancedBTreeUnlock (Some T) s3 else Some s3) = Some s4" "nodes s4 = nodes s3"
    "bt_rep s4 T kt (reb rebalance (bt_remove a t))" "bt_frame T {} s3 s4" "bt_locked s4 T = (locked = LOCKED \<and> bt_locked s3 T)" by blast
  have "BalancedBTreeRemove (Some T) (Some a) locked rebalance s = Some s4"
    unfolding BalancedBTreeRemove_eq [OF n] s1(1) s2(1) Option.bind.bind_lunit s3(1) s4(1) ..
  moreover have "bt_frame T (set_tree t) s s4"
    using bt_frame_trans [OF bt_frame_trans [OF bt_frame_trans [OF s1(4) r2(2) order_refl] s3(3) order_refl] s4(4)] by auto
  moreover have "nodes s4 a = map_option unlinked_item (nodes s a)"
    using s4(2) s3(3) s2(3) s1(2) by (simp add: bt_frame_def)
  moreover have "bt_locked s4 T = bt_locked s T"
    using s4(5) s3(4) r2(3) s1(5) lf by (cases locked) (auto simp: lock_free_def)
  ultimately show ?thesis using s4(3) by blast
qed

lemma BalancedBTreeRemove_foreign:
  "nodes s a = Some n \<Longrightarrow> btree n \<noteq> Some T \<Longrightarrow> BalancedBTreeRemove (Some T) (Some a) locked rebalance s = Some s"
  by (simp add: BalancedBTreeRemove_def)

text \<open>With no item and a free mutex, removal does not return: the thread blocks on its own mutex.\<close>

lemma BalancedBTreeRemove_NULL_blocks:
  assumes rep: "bt_rep s T kt t"
  shows "BalancedBTreeRemove (Some T) None UNLOCKED rebalance s = None"
proof (cases "bt_locked s T")
  case True
  with bt_repD(5) [OF rep] show ?thesis
    by (auto simp: BalancedBTreeRemove_def BalancedBTreeLock_def bt_locked_def)
next
  case False
  then have "lock_free UNLOCKED s T" by (simp add: lock_free_def)
  from lock_rep [OF rep this] obtain s1 where s1: "BalancedBTreeLock (Some T) s = Some s1"
    "bt_rep s1 T kt t" "bt_locked s1 T" by auto
  from maybe_Rebalance_rep [OF s1(2), of rebalance] obtain s2 where s2:
    "(do { t \<leftarrow> rd_tree s1 (Some T); if rebalance then BalancedBTreeRebalance (Some T) (root t) s1 else Some s1 }) = Some s2"
    "bt_rep s2 T kt (reb rebalance t)" "bt_locked s2 T" using s1(3) by auto
  have blocked: "BalancedBTreeLock (Some T) s2 = None"
    using s2(3) bt_repD(5) [OF s2(2)] by (auto simp: BalancedBTreeLock_def bt_locked_def)
  have eq: "BalancedBTreeRemove (Some T) None UNLOCKED rebalance s = do {
      s \<leftarrow> BalancedBTreeLock (Some T) s;
      s \<leftarrow> (do { t \<leftarrow> rd_tree s (Some T); if rebalance then BalancedBTreeRebalance (Some T) (root t) s else Some s });
      BalancedBTreeLock (Some T) s
    }"
    unfolding BalancedBTreeRemove_def by (simp add: Option.bind_assoc)
  show ?thesis unfolding eq s1(1) Option.bind.bind_lunit s2(1) by (rule blocked)
qed

section \<open>Destroying\<close>

text \<open>All nodes of \<open>S\<close> are freed, the link to it is \<open>NULL\<close>, the rest is as before.\<close>

definition pruned :: "'a bt_store \<Rightarrow> addr \<Rightarrow> ptr \<Rightarrow> addr tree \<Rightarrow> 'a bt_store \<Rightarrow> bool" where
  "pruned s T q S s' \<longleftrightarrow>
     (\<forall>b \<in> set_tree S. nodes s' b = None) \<and>
     (\<forall>b. b \<notin> set_tree S \<longrightarrow> q \<noteq> Some b \<longrightarrow> nodes s' b = nodes s b) \<and>
     (case q of
        None \<Rightarrow> trees s' = (trees s)(T := map_option (\<lambda>t. t\<lparr>root := None\<rparr>) (trees s T))
      | Some p \<Rightarrow> trees s' = trees s \<and> nodes s' p = map_option (relink (rootp S) None) (nodes s p))"

lemma Prune_leaf:
  assumes at: "bt_at (nodes s) T q (Node Leaf x Leaf)" and lk: "linked s T q (Node Leaf x Leaf)"
  shows "\<exists>s'. (do { s \<leftarrow> BalancedBTreeRemove (Some T) (Some x) LOCKED False s; free_node (Some x) s }) = Some s' \<and>
    pruned s T q (Node Leaf x Leaf) s'"
proof -
  from at obtain n where n: "nodes s x = Some n" "btree n = Some T" by auto
  have d: "distinct (inorder (Node Leaf x Leaf))" by simp
  from Remove_unlink_moved [OF at d lk, of x] n obtain s1 where
    s1: "Remove_unlink (Some T) (Some x) s = Some s1" "moved s T q (Node Leaf x Leaf) Leaf s1" "nodes s1 x = Some (unlinked_item n)"
    by (auto simp: bt_join_def)
  have "trees s1 T \<noteq> None" using s1(2) lk by (cases q) (auto simp: moved_def linked_def)
  with s1(1) have run: "BalancedBTreeRemove (Some T) (Some x) LOCKED False s = Some s1"
    by (auto simp: BalancedBTreeRemove_eq [OF n])
  have "pruned s T q (Node Leaf x Leaf) (s1\<lparr>nodes := (nodes s1)(x := None)\<rparr>)"
    using s1(2) lk by (auto simp: pruned_def moved_def linked_def split: option.splits)
  with run s1(3) show ?thesis by (simp add: free_node_def)
qed

lemma maybe_Prune:
  assumes "S \<noteq> Leaf \<Longrightarrow> \<exists>s'. BalancedBTreePrune (rootp S) s = Some s' \<and> pruned s T (Some x) S s'"
    and "linked s T (Some x) S"
  shows "\<exists>s'. (if rootp S \<noteq> None then BalancedBTreePrune (rootp S) s else Some s) = Some s' \<and> pruned s T (Some x) S s'"
proof (cases "S = Leaf")
  case True
  with assms(2) obtain n where "nodes s x = Some n" "left n = None \<or> right n = None" by (auto simp: linked_def)
  then have "nodes s x = map_option (relink None None) (nodes s x)" by (cases n) (auto simp: relink_def)
  with True show ?thesis by (auto simp: pruned_def)
next
  case False
  with assms(1) show ?thesis by simp
qed

lemma BalancedBTreePrune_pruned:
  "bt_at (nodes s) T q S \<Longrightarrow> distinct (inorder S) \<Longrightarrow> linked s T q S \<Longrightarrow> S \<noteq> Leaf \<Longrightarrow>
   \<exists>s'. BalancedBTreePrune (rootp S) s = Some s' \<and> pruned s T q S s'"
proof (induction S arbitrary: s q)
  case (Node l x r)
  from Node.prems(1) obtain n where n: "nodes s x = Some n" "parent n = q" "left n = rootp l" "right n = rootp r" "btree n = Some T"
    and l: "bt_at (nodes s) T (Some x) l" and r: "bt_at (nodes s) T (Some x) r" by auto
  from Node.prems(2) have d: "x \<notin> set_tree l" "x \<notin> set_tree r" "set_tree l \<inter> set_tree r = {}"
    "distinct (inorder l)" "distinct (inorder r)" by auto
  note lk = linked_left [OF Node.prems(1-3)] linked_right [OF Node.prems(1-3)]
  from maybe_Prune [OF Node.IH(1) [OF l d(4) lk(1)] lk(1)] obtain s1 where
    s1: "(if rootp l \<noteq> None then BalancedBTreePrune (rootp l) s else Some s) = Some s1" "pruned s T (Some x) l s1" by blast
  from s1(2) n have x1: "nodes s1 x = Some (n\<lparr>left := None\<rparr>)" "trees s1 = trees s" by (auto simp: pruned_def relink_def)
  have r1: "bt_at (nodes s1) T (Some x) r"
    using r s1(2) d by (subst bt_at_cong [of r "nodes s1" "nodes s"]) (auto simp: pruned_def)
  have lk1: "linked s1 T (Some x) r" using lk(2) x1 n d by (auto simp: linked_def)
  from maybe_Prune [OF Node.IH(2) [OF r1 d(5) lk1] lk1] obtain s2 where
    s2: "(if rootp r \<noteq> None then BalancedBTreePrune (rootp r) s1 else Some s1) = Some s2" "pruned s1 T (Some x) r s2" by blast
  let ?n2 = "n\<lparr>left := None, right := None\<rparr>"
  have x2: "nodes s2 x = Some ?n2" "trees s2 = trees s"
    using s2(2) x1 n by (cases n; auto simp: pruned_def relink_def)+
  have out: "nodes s2 b = nodes s b" if "b \<notin> set_tree (Node l x r)" for b
    using that s1(2) s2(2) by (auto simp: pruned_def)
  have gone: "nodes s2 b = None" if "b \<in> set_tree l \<union> set_tree r" for b
    using that s1(2) s2(2) d by (auto simp: pruned_def)
  have at2: "bt_at (nodes s2) T q (Node Leaf x Leaf)" using x2 n by simp
  have lk2: "linked s2 T q (Node Leaf x Leaf)"
    using Node.prems(3) x2(2) out by (auto simp: linked_def split: option.splits)
  from Prune_leaf [OF at2 lk2] obtain s3 where
    s3: "(do { s \<leftarrow> BalancedBTreeRemove (Some T) (Some x) LOCKED False s2; free_node (Some x) s }) = Some s3"
      "pruned s2 T q (Node Leaf x Leaf) s3" by blast
  have "BalancedBTreePrune (rootp (Node l x r)) s = do {
      s \<leftarrow> (if rootp l \<noteq> None then BalancedBTreePrune (rootp l) s else Some s);
      n \<leftarrow> rd_node s (Some x);
      s \<leftarrow> (if right n \<noteq> None then BalancedBTreePrune (right n) s else Some s);
      n \<leftarrow> rd_node s (Some x);
      s \<leftarrow> BalancedBTreeRemove (btree n) (Some x) LOCKED False s;
      free_node (Some x) s
    }"
    using n by (subst BalancedBTreePrune.simps) (simp del: rootp_None)
  also have "\<dots> = do {
      s \<leftarrow> (if rootp r \<noteq> None then BalancedBTreePrune (rootp r) s1 else Some s1);
      n \<leftarrow> rd_node s (Some x);
      s \<leftarrow> BalancedBTreeRemove (btree n) (Some x) LOCKED False s;
      free_node (Some x) s
    }"
    unfolding s1(1) Option.bind.bind_lunit rd_node_Some x1(1) by (simp add: n(4) del: rootp_None)
  also have "\<dots> = Some s3"
    unfolding s2(1) Option.bind.bind_lunit rd_node_Some x2(1) using s3(1) by (simp add: n(5))
  finally have "BalancedBTreePrune (rootp (Node l x r)) s = Some s3" .
  moreover have "pruned s T q (Node l x r) s3"
  proof -
    have qb: "q \<noteq> Some b" if "b \<in> set_tree (Node l x r)" for b using that Node.prems(3) by (auto simp: linked_def)
    have "nodes s3 b = None" if b: "b \<in> set_tree (Node l x r)" for b
      using b s3(2) gone [of b] qb [OF b] d by (cases "b = x") (auto simp: pruned_def)
    moreover have "nodes s3 b = nodes s b" if "b \<notin> set_tree (Node l x r)" "q \<noteq> Some b" for b
      using that s3(2) out [of b] by (simp add: pruned_def)
    moreover have "nodes s2 p = nodes s p" if "q = Some p" for p
      using that out [of p] qb [of p] by blast
    ultimately show ?thesis using s3(2) x2(2) by (simp add: pruned_def split: option.splits)
  qed
  ultimately show ?case by blast
qed simp

lemma BalancedBTreeDestroy_correct:
  assumes rep: "bt_rep s T kt t"
  shows "\<exists>s'. BalancedBTreeDestroy (Some T) s = Some s' \<and> trees s' = (trees s)(T := None) \<and>
    (\<forall>b. nodes s' b = (if b \<in> set_tree t then None else nodes s b))"
proof (cases "t = Leaf")
  case True
  with bt_repD(5) [OF rep] show ?thesis
    by (auto simp: BalancedBTreeDestroy_def BalancedBTreePrune.simps [of None])
next
  case False
  from BalancedBTreePrune_pruned [OF bt_repD(2,1) [OF rep] linked_root [OF rep] False] obtain s1 where
    "BalancedBTreePrune (rootp t) s = Some s1" "pruned s T None t s1" by blast
  with bt_repD(5) [OF rep] show ?thesis
    by (auto simp: BalancedBTreeDestroy_def pruned_def)
qed

lemma BalancedBTreeCreate_correct:
  "BalancedBTreeCreate (Some T) kt s = (p, s') \<Longrightarrow> p = Some T \<and> bt_rep s' T kt Leaf \<and> \<not> bt_locked s' T \<and> nodes s' = nodes s"
  by (auto simp: BalancedBTreeCreate_def bt_rep_def tree_obj_def bt_locked_def)

end
