(* ===== verification/TreeStore.thy ===== *)
theory TreeStore
  imports BTreeCorrect
begin

text \<open>
  The contract of \<open>balanced_btree.c\<close> towards its clients, on the C level: a tree object
  in memory stores a set of items with different keys, searching is exact, adding and
  removing change the set, rebalancing makes the tree as flat as it can be.
\<close>

fun key_ok :: "BalancedBTreeKeyType_t \<Rightarrow> BTreeKey \<Rightarrow> bool" where
  "key_ok BTREE_KEY_INT k = small_int k"
| "key_ok BTREE_KEY_STRING k = is_string k"
| "key_ok BTREE_KEY_PTHREAD k = user_pthread k"

lemma type_btree: "BTreeSpec.btree (type_cmp kt) (key_ok kt)"
proof (cases kt)
  case BTREE_KEY_INT
  then have "key_ok kt = small_int" by auto
  with BTREE_KEY_INT show ?thesis by (simp add: int_tree.btree_axioms)
next
  case BTREE_KEY_STRING
  then have "key_ok kt = is_string" by auto
  with BTREE_KEY_STRING show ?thesis by (simp add: string_tree.btree_axioms)
next
  case BTREE_KEY_PTHREAD
  then have "key_ok kt = user_pthread" by auto
  with BTREE_KEY_PTHREAD show ?thesis by (simp add: pthread_tree.btree_axioms)
qed

lemma key_ok_type: "key_ok kt k \<Longrightarrow> key_of_type kt k"
  by (cases kt; cases k) auto

text \<open>Tree object \<open>T\<close> of store \<open>s\<close> holds the items \<open>A\<close>, in a tree of the given shape.\<close>

definition holds_in :: "'a bt_store \<Rightarrow> addr \<Rightarrow> BalancedBTreeKeyType_t \<Rightarrow> addr tree \<Rightarrow> addr set \<Rightarrow> bool" where
  "holds_in s T kt t A \<longleftrightarrow> bt_rep s T kt t \<and> bt_inv (type_cmp kt) (key_ok kt) (nkey (nodes s)) t \<and> A = set_tree t"

definition holds :: "'a bt_store \<Rightarrow> addr \<Rightarrow> BalancedBTreeKeyType_t \<Rightarrow> addr set \<Rightarrow> bool" where
  "holds s T kt A \<longleftrightarrow> (\<exists>t. holds_in s T kt t A)"

text \<open>As flat as a tree of its size can be.\<close>

definition flattest :: "addr tree \<Rightarrow> bool" where
  "flattest t \<longleftrightarrow> (\<forall>u :: addr tree. size u = size t \<longrightarrow> height t \<le> height u)"

definition balanced_in :: "'a bt_store \<Rightarrow> addr \<Rightarrow> BalancedBTreeKeyType_t \<Rightarrow> bool" where
  "balanced_in s T kt \<longleftrightarrow> (\<exists>t. bt_rep s T kt t \<and> flattest t)"

lemma wbalanced_height: "wbalanced t \<Longrightarrow> size1 t \<le> 2 ^ n \<Longrightarrow> height t \<le> n"
proof (induction t arbitrary: n)
  case (Node l x r)
  have "n \<noteq> 0" using Node.prems(2) size1_ge0 [of l] size1_ge0 [of r] by (cases n) auto
  then obtain m where n: "n = Suc m" by (cases n) auto
  have "size1 l \<le> 2 ^ m" "size1 r \<le> 2 ^ m" using Node.prems n by (auto simp: size1_size)
  with Node n show ?case by auto
qed simp

lemma rebalance_flattest: "flattest (bt_rebalance t)"
  unfolding flattest_def
proof (intro allI impI)
  fix u :: "addr tree" assume "size u = size (bt_rebalance t)"
  then have "size1 (bt_rebalance t) \<le> 2 ^ height u" using size1_height [of u] by (simp add: size1_size)
  then show "height (bt_rebalance t) \<le> height u" by (rule wbalanced_height [OF bt_rebalance_wbalanced])
qed

lemma bt_frame_nkey: "bt_frame T A s s' \<Longrightarrow> nkey (nodes s') = nkey (nodes s)"
  using nkey_data [of "nodes s'" "nodes s"] by (simp add: bt_frame_def)

lemma bt_frame_payload: "bt_frame T A s s' \<Longrightarrow> bt_data (nodes s') = bt_data (nodes s)"
  by (simp add: bt_frame_def)

lemma reb_inv [simp]: "bt_inv cmp ok kf (reb b t) = bt_inv cmp ok kf t"
  by (simp add: reb_def bt_inv_def)

lemma inv_depth:
  assumes "holds_in s T kt t A"
  shows "bt_rep s T kt t" "bt_inv (type_cmp kt) (key_ok kt) (nkey (nodes s)) t" "A = set_tree t"
  using assms by (auto simp: holds_in_def)

lemma find_holds_in:
  assumes h: "holds_in s T kt t A" and k: "key_ok kt k"
  shows "bt_find (type_cmp kt) (nkey (nodes s)) k t = Some a \<longleftrightarrow> a \<in> A \<and> type_cmp kt k (nkey (nodes s) a) = 0"
  using BTreeSpec.btree.inv_find [OF type_btree inv_depth(2) [OF h] k] inv_depth(3) [OF h] by simp

text \<open>Claim C1. Searching a well-formed tree object returns exactly the item of the tree whose key
  compares equal, or NULL when there is none, and leaves the store (with its lock) as it was.\<close>

theorem tree_find_exact:
  assumes "holds s T kt A" "lock_free locked s T" "key_ok kt k"
  shows "\<exists>r. BalancedBTreeFind (Some T) (Some k) locked s = Some (r, s) \<and>
    (\<forall>a. r = Some a \<longleftrightarrow> a \<in> A \<and> type_cmp kt k (nkey (nodes s) a) = 0)"
proof -
  from assms(1) obtain t where h: "holds_in s T kt t A" by (auto simp: holds_def)
  show ?thesis
    using BalancedBTreeFind_correct [OF inv_depth(1) [OF h] assms(2) key_ok_type [OF assms(3)]]
      find_holds_in [OF h assms(3)] by blast
qed

text \<open>Claim C2. Adding an item with a new key to a tree object stores it beside the others,
  changes no other node, keeps keys and payloads and the lock state, and with rebalancing
  leaves the tree as flat as any tree of its size.\<close>

theorem tree_add_stores:
  assumes "holds s T kt A" "lock_free locked s T"
    and "key_typed kt (nodes s) a" "key_ok kt (nkey (nodes s) a)"
    and "\<forall>b \<in> insert a A. type_cmp kt (nkey (nodes s) a) (nkey (nodes s) b) = 0 \<longrightarrow> b \<notin> A"
  shows "\<exists>s'. BalancedBTreeAdd (Some T) (Some a) locked rebalance s = Some s' \<and> holds s' T kt (insert a A) \<and>
    bt_data (nodes s') = bt_data (nodes s) \<and> (\<forall>b. b \<notin> insert a A \<longrightarrow> nodes s' b = nodes s b) \<and>
    bt_locked s' T = bt_locked s T \<and> (rebalance \<longrightarrow> balanced_in s' T kt)"
proof -
  from assms(1) obtain t where h: "holds_in s T kt t A" by (auto simp: holds_def)
  note i = inv_depth [OF h]
  let ?kf = "nkey (nodes s)"
  have refl: "type_cmp kt (?kf a) (?kf a) = 0"
    using key_order.cmp_refl [OF BTreeSpec.btree.axioms(1) [OF type_btree] assms(4)] .
  with assms(5) i(3) have a: "a \<notin> set_tree t" by auto
  have none: "bt_find (type_cmp kt) ?kf (?kf a) t = None"
    using find_holds_in [OF h assms(4)] assms(5) by (cases "bt_find (type_cmp kt) ?kf (?kf a) t") auto
  from BTreeSpec.btree.inv_insert [OF type_btree i(2) assms(4) none]
  have ins: "bt_inv (type_cmp kt) (key_ok kt) ?kf (bt_insert (type_cmp kt) ?kf a t)"
    "set_tree (bt_insert (type_cmp kt) ?kf a t) = insert a (set_tree t)" by auto
  from BalancedBTreeAdd_correct [OF i(1) assms(2) a assms(3), of rebalance] obtain s' where
    s': "BalancedBTreeAdd (Some T) (Some a) locked rebalance s = Some s'" "bt_rep s' T kt (add_shape kt s rebalance a t)"
      "bt_frame T (insert a (set_tree t)) s s'" "bt_locked s' T = bt_locked s T" by blast
  have "holds s' T kt (insert a A)"
    using s'(2) ins i(3) bt_frame_nkey [OF s'(3)] unfolding holds_def holds_in_def add_shape_def
    by (intro exI [of _ "reb rebalance (bt_insert (type_cmp kt) ?kf a t)"]) simp
  moreover have "rebalance \<longrightarrow> balanced_in s' T kt"
    using s'(2) rebalance_flattest unfolding balanced_in_def add_shape_def reb_def by auto
  ultimately show ?thesis using s' i(3) by (auto simp: bt_frame_def)
qed

text \<open>Claim C3. Removing an item of a tree object takes exactly this item out, clears its links,
  changes nothing outside the tree and with rebalancing leaves the tree as flat as any tree of
  its size.\<close>

theorem tree_remove_deletes:
  assumes "holds s T kt A" "lock_free locked s T" "a \<in> A"
  shows "\<exists>s'. BalancedBTreeRemove (Some T) (Some a) locked rebalance s = Some s' \<and> holds s' T kt (A - {a}) \<and>
    nodes s' a = map_option unlinked_item (nodes s a) \<and>
    bt_data (nodes s') = bt_data (nodes s) \<and> (\<forall>b. b \<notin> A \<longrightarrow> nodes s' b = nodes s b) \<and>
    bt_locked s' T = bt_locked s T \<and> (rebalance \<longrightarrow> balanced_in s' T kt)"
proof -
  from assms(1) obtain t where h: "holds_in s T kt t A" by (auto simp: holds_def)
  note i = inv_depth [OF h]
  from BalancedBTreeRemove_correct [OF i(1) assms(2), of a rebalance] assms(3) i(3) obtain s' where
    s': "BalancedBTreeRemove (Some T) (Some a) locked rebalance s = Some s'" "bt_rep s' T kt (reb rebalance (bt_remove a t))"
      "nodes s' a = map_option unlinked_item (nodes s a)" "bt_frame T (set_tree t) s s'" "bt_locked s' T = bt_locked s T" by blast
  from BTreeSpec.btree.inv_remove [OF type_btree i(2)] have
    "holds s' T kt (A - {a})"
    using s'(2) i(3) bt_frame_nkey [OF s'(4)] unfolding holds_def holds_in_def
    by (intro exI [of _ "reb rebalance (bt_remove a t)"]) simp
  moreover have "rebalance \<longrightarrow> balanced_in s' T kt"
    using s'(2) rebalance_flattest unfolding balanced_in_def reb_def by auto
  ultimately show ?thesis using s' i(3) by (auto simp: bt_frame_def)
qed

text \<open>Claim C4. Destroying a tree object frees every one of its nodes and the object itself
  exactly once and touches no other node.\<close>

theorem tree_destroy_frees:
  assumes "holds s T kt A"
  shows "\<exists>s'. BalancedBTreeDestroy (Some T) s = Some s' \<and> trees s' = (trees s)(T := None) \<and>
    (\<forall>b. nodes s' b = (if b \<in> A then None else nodes s b))"
  using BalancedBTreeDestroy_correct assms unfolding holds_def holds_in_def by blast

text \<open>Removing NULL from an unlocked tree blocks for ever (the tree mutex is locked a
  second time), whereas adding NULL only rebalances and releases the lock.\<close>

theorem tree_null_item:
  assumes "holds s T kt A" "\<not> bt_locked s T"
  shows "BalancedBTreeRemove (Some T) None UNLOCKED rebalance s = None \<and>
    (\<exists>s'. BalancedBTreeAdd (Some T) None UNLOCKED rebalance s = Some s' \<and> holds s' T kt A \<and> \<not> bt_locked s' T \<and>
      (rebalance \<longrightarrow> balanced_in s' T kt))"
proof -
  from assms(1) obtain t where h: "holds_in s T kt t A" by (auto simp: holds_def)
  note i = inv_depth [OF h]
  from lock_rep [OF i(1), of UNLOCKED] assms(2) obtain s1 where
    s1: "BalancedBTreeLock (Some T) s = Some s1" "nodes s1 = nodes s" "bt_rep s1 T kt t" "bt_locked s1 T"
    by (auto simp: lock_free_def)
  from maybe_Rebalance_rep [OF s1(3), of rebalance] s1(4) obtain s2 where
    s2: "(do { t \<leftarrow> rd_tree s1 (Some T); if rebalance then BalancedBTreeRebalance (Some T) (root t) s1 else Some s1 }) = Some s2"
      "bt_rep s2 T kt (reb rebalance t)" "bt_frame T (set_tree t) s1 s2" "bt_locked s2 T" by blast
  from unlock_rep [OF s2(2), of UNLOCKED] obtain s3 where
    s3: "BalancedBTreeUnlock (Some T) s2 = Some s3" "nodes s3 = nodes s2" "bt_rep s3 T kt (reb rebalance t)" "\<not> bt_locked s3 T"
    by auto
  have "BalancedBTreeLock (Some T) s2 = None"
    using s2(4) by (auto simp: BalancedBTreeLock_def bt_locked_def split: option.splits)
  with s1(1) s2(1) have "BalancedBTreeRemove (Some T) None UNLOCKED rebalance s = None"
    by (auto simp: BalancedBTreeRemove_def split: bind_splits)
  moreover have "BalancedBTreeAdd (Some T) None UNLOCKED rebalance s = Some s3"
    using s1(1) s2(1) s3(1) by (auto simp: BalancedBTreeAdd_def split: bind_splits)
  moreover have "holds s3 T kt A"
    using s3(2,3) i(2,3) bt_frame_nkey [OF s2(3)] s1(2) unfolding holds_def holds_in_def
    by (intro exI [of _ "reb rebalance t"]) simp
  moreover have "rebalance \<longrightarrow> balanced_in s3 T kt"
    using s3(3) rebalance_flattest unfolding balanced_in_def reb_def by auto
  ultimately show ?thesis using s3(4) by blast
qed

section \<open>A concrete tree\<close>

text \<open>Three items with the keys 10, 5 and 20 in the tree object 7, and an item with key 15 outside it.\<close>

definition example_item :: "ptr \<Rightarrow> ptr \<Rightarrow> ptr \<Rightarrow> 32 word \<Rightarrow> ptr \<Rightarrow> nat BalancedBTreeItem_t" where
  "example_item l r p k T = \<lparr>left = l, right = r, parent = p, item = 0, key = Some (KInt k), btree = T\<rparr>"

definition example_trees :: "nat bt_store" where
  "example_trees = \<lparr>
     nodes = [11 \<mapsto> example_item (Some 12) (Some 13) None 10 (Some 7), 12 \<mapsto> example_item None None (Some 11) 5 (Some 7),
       13 \<mapsto> example_item None None (Some 11) 20 (Some 7), 14 \<mapsto> example_item None None None 15 None],
     trees = [7 \<mapsto> \<lparr>keyType = BTREE_KEY_INT, keyCompare = Some KeyCompareInt, root = Some 11, mutex = False\<rparr>]\<rparr>"

lemma example_keys [simp]:
  "nkey (nodes example_trees) 11 = KInt 10" "nkey (nodes example_trees) 12 = KInt 5"
  "nkey (nodes example_trees) 13 = KInt 20" "nkey (nodes example_trees) 14 = KInt 15"
  by (simp_all add: nkey_def example_trees_def example_item_def)

lemma example_unlocked [simp]: "bt_locked example_trees 7 = False"
  by (simp add: bt_locked_def example_trees_def)

lemma example_holds: "holds example_trees 7 BTREE_KEY_INT {11, 12, 13}"
  unfolding holds_def
proof (rule exI)
  let ?t = "\<langle>\<langle>Leaf, 12, Leaf\<rangle>, 11, \<langle>Leaf, 13, Leaf\<rangle>\<rangle>"
  have "bt_rep example_trees 7 BTREE_KEY_INT ?t"
    by (simp add: bt_rep_def tree_obj_def key_typed_def example_trees_def example_item_def)
  moreover have "bt_inv (type_cmp BTREE_KEY_INT) (key_ok BTREE_KEY_INT) (nkey (nodes example_trees)) ?t"
    by (simp add: bt_inv_def bt_sorted_def bt_strict_def bt_keys_ok_def cmp_of_def)
  ultimately show "holds_in example_trees 7 BTREE_KEY_INT ?t {11, 12, 13}"
    by (auto simp: holds_in_def)
qed

lemma tree_find_exact_witness:
  "\<exists>r. BalancedBTreeFind (Some 7) (Some (KInt 20)) UNLOCKED example_trees = Some (r, example_trees) \<and>
    (\<forall>a. r = Some a \<longleftrightarrow> a \<in> {11, 12, 13} \<and> type_cmp BTREE_KEY_INT (KInt 20) (nkey (nodes example_trees) a) = 0)"
  by (rule tree_find_exact [OF example_holds]) (simp_all add: lock_free_def)

lemma tree_add_stores_witness:
  "\<exists>s'. BalancedBTreeAdd (Some 7) (Some 14) UNLOCKED True example_trees = Some s' \<and> holds s' 7 BTREE_KEY_INT (insert 14 {11, 12, 13}) \<and>
    bt_data (nodes s') = bt_data (nodes example_trees) \<and>
    (\<forall>b. b \<notin> insert 14 {11, 12, 13} \<longrightarrow> nodes s' b = nodes example_trees b) \<and>
    bt_locked s' 7 = bt_locked example_trees 7 \<and> (True \<longrightarrow> balanced_in s' 7 BTREE_KEY_INT)"
proof (rule tree_add_stores [OF example_holds])
  show "key_typed BTREE_KEY_INT (nodes example_trees) 14"
    by (simp add: key_typed_def example_trees_def example_item_def)
qed (simp_all add: lock_free_def cmp_of_def)

lemma tree_remove_deletes_witness:
  "\<exists>s'. BalancedBTreeRemove (Some 7) (Some 11) UNLOCKED False example_trees = Some s' \<and> holds s' 7 BTREE_KEY_INT ({11, 12, 13} - {11}) \<and>
    nodes s' 11 = map_option unlinked_item (nodes example_trees 11) \<and>
    bt_data (nodes s') = bt_data (nodes example_trees) \<and> (\<forall>b. b \<notin> {11, 12, 13} \<longrightarrow> nodes s' b = nodes example_trees b) \<and>
    bt_locked s' 7 = bt_locked example_trees 7 \<and> (False \<longrightarrow> balanced_in s' 7 BTREE_KEY_INT)"
  by (rule tree_remove_deletes [OF example_holds]) (simp_all add: lock_free_def)

lemma tree_destroy_frees_witness:
  "\<exists>s'. BalancedBTreeDestroy (Some 7) example_trees = Some s' \<and> trees s' = (trees example_trees)(7 := None) \<and>
    (\<forall>b. nodes s' b = (if b \<in> {11, 12, 13} then None else nodes example_trees b))"
  by (rule tree_destroy_frees [OF example_holds])

lemma tree_null_item_witness:
  "BalancedBTreeRemove (Some 7) None UNLOCKED True example_trees = None \<and>
    (\<exists>s'. BalancedBTreeAdd (Some 7) None UNLOCKED True example_trees = Some s' \<and> holds s' 7 BTREE_KEY_INT {11, 12, 13} \<and>
      \<not> bt_locked s' 7 \<and> (True \<longrightarrow> balanced_in s' 7 BTREE_KEY_INT))"
  by (rule tree_null_item [OF example_holds]) simp

end
