(* ===== verification/RingQueue.thy ===== *)
theory RingQueue
  imports Prelude "HOL-Library.Word"
begin

unbundle bit_operations_syntax

text \<open>
  \<open>bot/src/queue.c\<close>: a ring buffer with a mutex and two condition variables. Items
  are put at \<open>head\<close> and taken from \<open>tail\<close>; the size is a power of two and the
  indices are 32-bit words that are masked. A routine here is the critical section
  between taking and releasing the mutex; it also returns the condition variables it
  signals. Blocking is in the step relation \<open>qstep\<close>.
\<close>

section \<open>Data\<close>

record 'a QueueObject_t =
  numElements :: "32 word"
  numMask :: "32 word"
  qhead :: "32 word"
  qtail :: "32 word"
  itemTable :: "'a option list"
  qfull :: bool
  qempty :: bool

datatype QueueSignal = SIG_NOT_FULL | SIG_NOT_EMPTY

section \<open>Creation\<close>

text \<open>
  The loop that rounds the size up. \<open>1 << i\<close> is a signed 32-bit shift, then converted
  to 64 bits: at \<open>i = 31\<close> it is sign-extended.
\<close>

function QueueRound :: "nat \<Rightarrow> 32 word \<Rightarrow> nat" where
  "QueueRound i n =
     (if i < 32 \<and> (ucast n :: 64 word) > scast (push_bit i 1 :: 32 word) then QueueRound (i + 1) n else i)"
  by pat_completeness auto
termination by (relation "measure (\<lambda>(i, n). 32 - i)") auto

declare QueueRound.simps [simp del]

definition QueueSize :: "32 word \<Rightarrow> 32 word" where
  "QueueSize n = (let i = QueueRound 0 n in push_bit (if i = 32 then 31 else i) 1)"

definition QueueCreate :: "32 word \<Rightarrow> 'a QueueObject_t option" where
  "QueueCreate n =
     (if n = 0 then None
      else let sz = QueueSize n in
        Some \<lparr>numElements = sz, numMask = sz - 1, qhead = 0, qtail = 0,
          itemTable = replicate (unat sz) None, qfull = False, qempty = True\<rparr>)"

section \<open>Operations under the mutex\<close>

definition QueueConditionUpdate :: "'a QueueObject_t \<Rightarrow> 'a QueueObject_t \<times> QueueSignal list" where
  "QueueConditionUpdate q =
     (let oldFull = qfull q; oldEmpty = qempty q;
        q' = (if qhead q = qtail q then q\<lparr>qempty := True, qfull := False\<rparr>
              else if (qhead q + 1) AND numMask q = qtail q then q\<lparr>qempty := False, qfull := True\<rparr>
              else q\<lparr>qempty := False, qfull := False\<rparr>)
      in (q', (if oldFull \<noteq> qfull q' \<and> \<not> qfull q' then [SIG_NOT_FULL] else []) @
              (if oldEmpty \<noteq> qempty q' \<and> \<not> qempty q' then [SIG_NOT_EMPTY] else [])))"

text \<open>The part of \<open>QueueEnqueueItem\<close> after the wait for space.\<close>

definition Queue_put :: "'a \<Rightarrow> 'a QueueObject_t \<Rightarrow> 'a QueueObject_t \<times> QueueSignal list" where
  "Queue_put x q =
     QueueConditionUpdate (q\<lparr>itemTable := (itemTable q)[unat (qhead q) := Some x],
                            qhead := (qhead q + 1) AND numMask q\<rparr>)"

text \<open>The part of \<open>QueueDequeueItem\<close> after the wait for an item.\<close>

definition Queue_take :: "'a QueueObject_t \<Rightarrow> 'a option \<times> 'a QueueObject_t \<times> QueueSignal list" where
  "Queue_take q =
     (let item = itemTable q ! unat (qtail q);
        q' = q\<lparr>itemTable := (itemTable q)[unat (qtail q) := None], qtail := (qtail q + 1) AND numMask q\<rparr>
      in (item, QueueConditionUpdate q'))"

text \<open>A call that does not have to wait; \<open>None\<close> means that it blocks.\<close>

definition QueueEnqueueItem :: "'a option \<Rightarrow> 'a QueueObject_t option \<Rightarrow> (bool \<times> 'a QueueObject_t option \<times> QueueSignal list) option" where
  "QueueEnqueueItem it queue =
     (case (queue, it) of
        (Some q, Some x) \<Rightarrow>
          if qfull q then None else let (q', sg) = Queue_put x q in Some (True, Some q', sg)
      | _ \<Rightarrow> Some (False, queue, []))"

definition ETIMEDOUT :: int where "ETIMEDOUT = 110"
definition EINVAL :: int where "EINVAL = 22"

text \<open>
  The wait loop of \<open>QueueDequeueItem\<close>. Each element of \<open>waits\<close> is what one call of
  \<open>pthread_cond_wait\<close> or \<open>pthread_cond_timedwait\<close> brings: the queue when the
  mutex is held again, the status and \<open>GlobalAbort\<close>. \<open>Inl\<close>: the abort path;
  \<open>Inr\<close>: the queue and status with which the loop ends; \<open>None\<close>: still waiting.
\<close>

fun QueueDequeue_wait ::
    "bool \<Rightarrow> bool \<Rightarrow> int \<Rightarrow> 'a QueueObject_t \<Rightarrow> ('a QueueObject_t \<times> int \<times> bool) list \<Rightarrow>
     ('a QueueObject_t + 'a QueueObject_t \<times> int) option" where
  "QueueDequeue_wait timed exempt status q waits =
     (if qempty q \<and> (status \<noteq> ETIMEDOUT \<or> \<not> timed)
      then case waits of
          [] \<Rightarrow> None
        | (q', status', abort) # ws \<Rightarrow>
            if abort \<and> \<not> exempt then Some (Inl q') else QueueDequeue_wait timed exempt status' q' ws
      else Some (Inr (q, status)))"

definition QueueDequeueItem ::
    "int \<Rightarrow> bool \<Rightarrow> 'a QueueObject_t option \<Rightarrow> ('a QueueObject_t \<times> int \<times> bool) list \<Rightarrow>
     ('a option \<times> 'a QueueObject_t option \<times> QueueSignal list) option" where
  "QueueDequeueItem ms_timeout exempt queue waits =
     (case queue of
        None \<Rightarrow> Some (None, None, [])
      | Some q \<Rightarrow>
          let timed = (ms_timeout \<ge> 0) in
          case QueueDequeue_wait timed exempt 0 q waits of
            None \<Rightarrow> None
          | Some (Inl q') \<Rightarrow> Some (None, Some q', [])
          | Some (Inr (q', status)) \<Rightarrow>
              if timed \<and> status = ETIMEDOUT then Some (None, Some q', [])
              else let (x, q'', sg) = Queue_take q' in Some (x, Some q'', sg))"

text \<open>The absolute deadline, from \<open>gettimeofday\<close> (seconds, microseconds).\<close>

definition QueueDeadline :: "int \<times> int \<Rightarrow> int \<Rightarrow> int \<times> int" where
  "QueueDeadline tv ms_timeout =
     (fst tv + ms_timeout div 1000, snd tv * 1000 + (ms_timeout mod 1000) * 1000000)"

definition QueueClear :: "bool \<Rightarrow> 'a QueueObject_t \<Rightarrow> 'a QueueObject_t \<times> QueueSignal list" where
  "QueueClear freeItems q =
     QueueConditionUpdate ((if freeItems then q\<lparr>itemTable := map (\<lambda>_. None) (itemTable q)\<rparr> else q)
       \<lparr>qhead := 0, qtail := 0\<rparr>)"

definition QueueUsed :: "'a QueueObject_t option \<Rightarrow> 32 word" where
  "QueueUsed queue =
     (case queue of None \<Rightarrow> 0 | Some q \<Rightarrow> (qhead q + numElements q - qtail q) AND numMask q)"

text \<open>\<open>memmove\<close> of \<open>n\<close> table entries from \<open>src\<close> to \<open>dst\<close>.\<close>

definition memmove :: "nat \<Rightarrow> nat \<Rightarrow> nat \<Rightarrow> 'b list \<Rightarrow> 'b list" where
  "memmove dst src n xs = take dst xs @ take n (drop src xs) @ drop (dst + n) xs"

definition QueueRemoveItem :: "32 word \<Rightarrow> 'a QueueObject_t \<Rightarrow> 32 word \<times> 'a QueueObject_t \<times> QueueSignal list" where
  "QueueRemoveItem index q =
     (if index = qhead q then
        (index, QueueConditionUpdate (q\<lparr>itemTable := (itemTable q)[unat (qhead q) := None],
           qhead := (qhead q + 1) AND numMask q\<rparr>))
      else if index = qtail q then
        ((index - 1) AND numMask q, QueueConditionUpdate (q\<lparr>itemTable := (itemTable q)[unat (qtail q) := None],
           qtail := (qtail q - 1) AND numMask q\<rparr>))
      else
        let i = unat index; t = unat (qtail q); n = unat (numElements q); tab = itemTable q;
          tab = (if qtail q < index then
                   let tab = (if index \<noteq> numElements q - 1 then memmove i (i + 1) (n - i - 1) tab else tab);
                     tab = tab[n - 1 := tab ! 0]
                   in if qtail q \<noteq> 0 then memmove 0 1 t tab else tab
                 else memmove i (i + 1) (t - i) tab)
        in ((index - 1) AND numMask q, QueueConditionUpdate (q\<lparr>itemTable := tab[t := None],
              qtail := (qtail q - 1) AND numMask q\<rparr>)))"

text \<open>
  The list of all queues. \<open>QueueDestroy\<close> wakes everyone and takes the queue out of
  it; \<open>QueueKillAll\<close> broadcasts on every queue but the logging one.
\<close>

definition QueueRegister :: "addr \<Rightarrow> addr list \<Rightarrow> addr list" where
  "QueueRegister q QueueList = QueueList @ [q]"

definition QueueDestroy :: "addr \<Rightarrow> addr list \<Rightarrow> (addr \<times> QueueSignal) list \<times> addr list" where
  "QueueDestroy q QueueList = ([(q, SIG_NOT_FULL), (q, SIG_NOT_EMPTY)], filter (\<lambda>p. p \<noteq> q) QueueList)"

definition QueueKillAll :: "addr \<Rightarrow> addr list \<Rightarrow> (addr \<times> QueueSignal) list" where
  "QueueKillAll LoggingQ QueueList =
     concat (map (\<lambda>q. if q = LoggingQ then [] else [(q, SIG_NOT_EMPTY), (q, SIG_NOT_FULL)]) QueueList)"

section \<open>Contents\<close>

definition ring :: "nat \<Rightarrow> nat \<Rightarrow> nat \<Rightarrow> 'a option list \<Rightarrow> 'a list" where
  "ring n t u tab = map (\<lambda>i. the (tab ! ((t + i) mod n))) [0..<u]"

definition q_used :: "'a QueueObject_t \<Rightarrow> nat" where
  "q_used q = (unat (qhead q) + unat (numElements q) - unat (qtail q)) mod unat (numElements q)"

definition q_contents :: "'a QueueObject_t \<Rightarrow> 'a list" where
  "q_contents q = ring (unat (numElements q)) (unat (qtail q)) (q_used q) (itemTable q)"

text \<open>
  The invariant: a power-of-two size of at least two, indices in range, the flags
  agree with the indices, the occupied slots hold items and the others are \<open>NULL\<close>.
\<close>

definition q_core :: "'a QueueObject_t \<Rightarrow> bool" where
  "q_core q \<longleftrightarrow>
     (\<exists>k. 0 < k \<and> k < 32 \<and> numElements q = 2 ^ k) \<and> numMask q = numElements q - 1 \<and>
     qhead q < numElements q \<and> qtail q < numElements q \<and> length (itemTable q) = unat (numElements q) \<and>
     (\<forall>i < unat (numElements q). itemTable q ! ((unat (qtail q) + i) mod unat (numElements q)) \<noteq> None \<longleftrightarrow> i < q_used q)"

definition q_flags :: "'a QueueObject_t \<Rightarrow> bool" where
  "q_flags q \<longleftrightarrow> qempty q = (qhead q = qtail q) \<and> qfull q = ((qhead q + 1) AND numMask q = qtail q)"

definition q_inv :: "'a QueueObject_t \<Rightarrow> bool" where
  "q_inv q \<longleftrightarrow> q_core q \<and> q_flags q"

definition q_capacity :: "'a QueueObject_t \<Rightarrow> nat" where
  "q_capacity q = unat (numElements q) - 1"

section \<open>Arithmetic of the ring\<close>

lemma word_mod_pow:
  fixes w :: "32 word" assumes "k < 32" shows "unat (w AND (2 ^ k - 1)) = unat w mod 2 ^ k"
proof -
  have "w AND (2 ^ k - 1) = take_bit k w" by (simp add: take_bit_eq_mask mask_eq_exp_minus_1)
  moreover have "unat (take_bit k w) = unat w mod 2 ^ k"
    by (subst unsigned_take_bit_eq) (rule take_bit_eq_mod)
  ultimately show ?thesis by (simp only:)
qed

lemma unat_pow: "k < 32 \<Longrightarrow> unat ((2::32 word) ^ k) = 2 ^ k"
proof -
  assume k: "k < 32"
  then have "(2::nat) ^ k < 2 ^ 32" by (intro power_strict_increasing) auto
  moreover have "unat (push_bit k (1::32 word)) = take_bit 32 (push_bit k (unat (1::32 word)))"
    by (simp only: unsigned_push_bit_eq) simp
  ultimately show ?thesis using k by (simp add: push_bit_eq_mult take_bit_nat_eq_self)
qed

lemma ring_next:
  fixes h :: "32 word" assumes "k < 32" "h < 2 ^ k"
  shows "unat ((h + 1) AND (2 ^ k - 1)) = (unat h + 1) mod 2 ^ k"
proof -
  have "unat h < 2 ^ k" using assms by (simp add: word_less_nat_alt unat_pow)
  moreover have "(2::nat) ^ k \<le> 2 ^ 31" using assms by (intro power_increasing) auto
  ultimately have "unat h + 1 < 2 ^ 32" by simp
  then have "unat (h + 1) = unat h + 1" by (simp add: unat_word_ariths)
  then show ?thesis using assms by (simp add: word_mod_pow)
qed

lemma pow_div_cases: "0 < n \<Longrightarrow> h < n \<Longrightarrow> (h + 1) mod n = (if h + 1 = n then 0 else h + 1)" for h n :: nat
  by simp

lemma mod_sum_eq:
  fixes n t h :: nat assumes "t < n" "h < n"
  shows "(t + (h + n - t) mod n) mod n = h"
proof -
  have "(t + (h + n - t) mod n) mod n = (t + (h + n - t)) mod n" by presburger
  with assms show ?thesis by simp
qed

lemma used_cases: "t < n \<Longrightarrow> h < n \<Longrightarrow> (h + n - t) mod n = (if t \<le> h then h - t else h + n - t)" for n t h :: nat
  by (cases "t \<le> h") (simp_all add: mod_if)

lemma ring_pos_inj: "i < n \<Longrightarrow> j < n \<Longrightarrow> (t + i) mod n = (t + j) mod n \<Longrightarrow> i = j" for n t i j :: nat
proof (induction i j rule: linorder_wlog)
  case (le i j)
  then have "n dvd (t + j) - (t + i)" using mod_eq_dvd_iff_nat [of "t + i" "t + j" n] by simp
  with le show ?case by (auto dest: dvd_imp_le)
qed (simp add: eq_commute)

lemma length_ring [simp]: "length (ring n t u tab) = u"
  by (simp add: ring_def)

lemma ring_upd_other: "(\<And>i. i < u \<Longrightarrow> (t + i) mod n \<noteq> j) \<Longrightarrow> ring n t u (tab[j := x]) = ring n t u tab"
  unfolding ring_def by (intro map_cong refl) (metis atLeastLessThan_iff nth_list_update_neq set_upt)

lemma ring_Suc: "ring n t (Suc u) tab = ring n t u tab @ [the (tab ! ((t + u) mod n))]"
  by (simp add: ring_def)

lemma ring_step: "0 < u \<Longrightarrow> ring n t u tab = the (tab ! (t mod n)) # ring n ((t + 1) mod n) (u - 1) tab"
proof -
  assume "0 < u"
  then obtain v where u: "u = Suc v" by (cases u) auto
  have "(t + Suc i) mod n = ((t + 1) mod n + i) mod n" for i by (simp add: mod_simps)
  then show ?thesis by (simp add: u ring_def map_upt_Suc del: upt_Suc)
qed

lemma used_put:
  fixes n h t :: nat assumes "h < n" "t < n" "(h + 1) mod n \<noteq> t"
  shows "((h + 1) mod n + n - t) mod n = (h + n - t) mod n + 1" "(h + n - t) mod n + 1 < n"
proof -
  have h1: "(h + 1) mod n = (if h + 1 = n then 0 else h + 1)" using assms by (intro pow_div_cases) auto
  then have "(h + 1) mod n < n" using assms by auto
  note u = used_cases [OF assms(2) this] used_cases [OF assms(2,1)]
  show "((h + 1) mod n + n - t) mod n = (h + n - t) mod n + 1" "(h + n - t) mod n + 1 < n"
    unfolding u using assms h1 by (auto split: if_splits)
qed

lemma used_take:
  fixes n h t :: nat assumes "h < n" "t < n" "h \<noteq> t"
  shows "(h + n - (t + 1) mod n) mod n = (h + n - t) mod n - 1" "0 < (h + n - t) mod n"
proof -
  have t1: "(t + 1) mod n = (if t + 1 = n then 0 else t + 1)" using assms by (intro pow_div_cases) auto
  then have "(t + 1) mod n < n" using assms by auto
  note u = used_cases [OF this assms(1)] used_cases [OF assms(2,1)]
  show "(h + n - (t + 1) mod n) mod n = (h + n - t) mod n - 1" "0 < (h + n - t) mod n"
    unfolding u using assms t1 by (auto split: if_splits)
qed

section \<open>The operations keep the invariant\<close>

lemma q_coreD:
  assumes "q_core q"
  obtains n where "unat (numElements q) = n" "2 \<le> n" "unat (qhead q) < n" "unat (qtail q) < n" "length (itemTable q) = n"
    "unat ((qhead q + 1) AND numMask q) = (unat (qhead q) + 1) mod n"
    "unat ((qtail q + 1) AND numMask q) = (unat (qtail q) + 1) mod n"
    "q_used q = (unat (qhead q) + n - unat (qtail q)) mod n"
    "\<forall>i < n. itemTable q ! ((unat (qtail q) + i) mod n) \<noteq> None \<longleftrightarrow> i < q_used q"
proof -
  from assms obtain k where k: "0 < k" "k < 32" "numElements q = 2 ^ k" by (auto simp: q_core_def)
  then have n: "unat (numElements q) = 2 ^ k" by (simp add: unat_pow)
  have "(2::nat) ^ 1 \<le> 2 ^ k" using k by (intro power_increasing) auto
  with n that [of "2 ^ k"] assms k show thesis
    by (simp add: q_core_def ring_next q_used_def word_less_nat_alt)
qed

lemma q_core_lt: "unat w < unat (numElements q) \<longleftrightarrow> w < numElements q"
  by (simp add: word_less_nat_alt)

lemma unat_inj: "a = b \<longleftrightarrow> unat a = unat b" for a b :: "32 word"
  by (simp add: word_unat_eq_iff)

lemma QueueConditionUpdate_frame [simp]:
  "numElements (fst (QueueConditionUpdate q)) = numElements q" "numMask (fst (QueueConditionUpdate q)) = numMask q"
  "qhead (fst (QueueConditionUpdate q)) = qhead q" "qtail (fst (QueueConditionUpdate q)) = qtail q"
  "itemTable (fst (QueueConditionUpdate q)) = itemTable q"
  by (simp_all add: QueueConditionUpdate_def Let_def)

lemma QueueConditionUpdate_inv:
  assumes "q_core q"
  shows "q_inv (fst (QueueConditionUpdate q))" "q_contents (fst (QueueConditionUpdate q)) = q_contents q"
    "q_used (fst (QueueConditionUpdate q)) = q_used q"
proof -
  obtain n where n: "unat (numElements q) = n" "2 \<le> n" "unat (qhead q) < n" "unat (qtail q) < n"
    "unat ((qhead q + 1) AND numMask q) = (unat (qhead q) + 1) mod n" using q_coreD [OF assms] by metis
  then have "(qhead q + 1) AND numMask q \<noteq> qhead q"
    using pow_div_cases [of n "unat (qhead q)"] by (auto simp: unat_inj split: if_splits)
  then have "q_flags (fst (QueueConditionUpdate q))"
    by (auto simp: QueueConditionUpdate_def Let_def q_flags_def)
  with assms show "q_inv (fst (QueueConditionUpdate q))"
    by (simp add: q_inv_def q_core_def q_used_def)
qed (simp_all add: q_contents_def q_used_def)

lemma Queue_put_inv:
  assumes inv: "q_inv q" and nf: "\<not> qfull q"
  shows "q_inv (fst (Queue_put x q))" "q_contents (fst (Queue_put x q)) = q_contents q @ [x]"
    "numElements (fst (Queue_put x q)) = numElements q"
proof -
  from inv have core: "q_core q" and fl: "q_flags q" by (simp_all add: q_inv_def)
  let ?h = "unat (qhead q)" and ?t = "unat (qtail q)" and ?u = "q_used q"
  obtain n where n: "unat (numElements q) = n" "2 \<le> n" "?h < n" "?t < n" "length (itemTable q) = n"
    "unat ((qhead q + 1) AND numMask q) = (?h + 1) mod n" "?u = (?h + n - ?t) mod n"
    and slots: "\<forall>i < n. itemTable q ! ((?t + i) mod n) \<noteq> None \<longleftrightarrow> i < ?u" using q_coreD [OF core] by metis
  let ?q = "q\<lparr>itemTable := (itemTable q)[?h := Some x], qhead := (qhead q + 1) AND numMask q\<rparr>"
  have "(?h + 1) mod n \<noteq> ?t" using nf fl n by (simp add: q_flags_def unat_inj)
  note up = used_put [OF n(3,4) this]
  have u': "q_used ?q = ?u + 1" using up n by (simp add: q_used_def)
  have pos: "(?t + ?u) mod n = ?h" using mod_sum_eq [OF n(4,3)] n by simp
  then have ne: "i < n \<Longrightarrow> i \<noteq> ?u \<Longrightarrow> (?t + i) mod n \<noteq> ?h" for i
    using ring_pos_inj [of i n ?u ?t] up n by auto
  have "(itemTable ?q) ! ((?t + i) mod n) \<noteq> None \<longleftrightarrow> i < ?u + 1" if "i < n" for i
    using that ne [of i] slots pos n by (cases "i = ?u") (auto simp: less_Suc_eq)
  moreover have "(qhead q + 1) AND numMask q < numElements q"
    using n by (simp add: word_less_nat_alt)
  ultimately have c: "q_core ?q" using core n u' by (simp add: q_core_def)
  from QueueConditionUpdate_inv [OF c] show "q_inv (fst (Queue_put x q))" by (simp add: Queue_put_def)
  have "ring n ?t ?u ((itemTable q)[?h := Some x]) = ring n ?t ?u (itemTable q)"
    using ne up n by (intro ring_upd_other) auto
  with pos n u' have "q_contents ?q = q_contents q @ [x]" by (simp add: q_contents_def ring_Suc)
  with QueueConditionUpdate_inv(2) [OF c] show "q_contents (fst (Queue_put x q)) = q_contents q @ [x]"
    by (simp add: Queue_put_def)
qed (simp add: Queue_put_def)

lemma Queue_take_inv:
  assumes inv: "q_inv q" and ne: "\<not> qempty q"
  shows "q_inv (fst (snd (Queue_take q)))"
    "\<exists>x. fst (Queue_take q) = Some x \<and> q_contents q = x # q_contents (fst (snd (Queue_take q)))"
    "numElements (fst (snd (Queue_take q))) = numElements q"
proof -
  from inv have core: "q_core q" and fl: "q_flags q" by (simp_all add: q_inv_def)
  let ?h = "unat (qhead q)" and ?t = "unat (qtail q)" and ?u = "q_used q"
  obtain n where n: "unat (numElements q) = n" "2 \<le> n" "?h < n" "?t < n" "length (itemTable q) = n"
    "unat ((qtail q + 1) AND numMask q) = (?t + 1) mod n" "?u = (?h + n - ?t) mod n"
    and slots: "\<forall>i < n. itemTable q ! ((?t + i) mod n) \<noteq> None \<longleftrightarrow> i < ?u" using q_coreD [OF core] by metis
  let ?q = "q\<lparr>itemTable := (itemTable q)[?t := None], qtail := (qtail q + 1) AND numMask q\<rparr>"
  have "?h \<noteq> ?t" using ne fl by (simp add: q_flags_def unat_inj)
  note ut = used_take [OF n(3,4) this]
  have u': "q_used ?q = ?u - 1" and u0: "0 < ?u" using ut n by (simp_all add: q_used_def)
  have sh: "((?t + 1) mod n + i) mod n = (?t + (i + 1)) mod n" for i by (simp add: mod_simps)
  have nt: "(?t + i) mod n \<noteq> ?t" if "0 < i" "i < n" for i
    using ring_pos_inj [of i n 0 ?t] that n by auto
  have tail: "(itemTable ?q) ! (((?t + 1) mod n + i) mod n) \<noteq> None \<longleftrightarrow> i < ?u - 1" if "i < n" for i
  proof (cases "i + 1 = n")
    case True
    then have "(?t + (i + 1)) mod n = ?t" using n by simp
    moreover have "?u < n" using n by simp
    with True have "\<not> i < ?u - 1" by simp
    ultimately show ?thesis using n unfolding sh by simp
  next
    case False
    with that have "i + 1 < n" by simp
    with nt [of "i + 1"] slots show ?thesis unfolding sh by auto
  qed
  have "(qtail q + 1) AND numMask q < numElements q" using n by (simp add: word_less_nat_alt)
  with tail core n u' have c: "q_core ?q" by (simp add: q_core_def)
  from QueueConditionUpdate_inv [OF c] show "q_inv (fst (snd (Queue_take q)))" by (simp add: Queue_take_def Let_def)
  have "itemTable q ! ?t \<noteq> None" using slots u0 n by (auto dest: spec [of _ 0])
  then obtain x where x: "itemTable q ! ?t = Some x" by auto
  have "ring n ((?t + 1) mod n) (?u - 1) ((itemTable q)[?t := None]) = ring n ((?t + 1) mod n) (?u - 1) (itemTable q)"
  proof (rule ring_upd_other)
    fix i assume "i < ?u - 1"
    moreover have "?u < n" using n by simp
    ultimately have "i + 1 < n" by simp
    with nt [of "i + 1"] show "((?t + 1) mod n + i) mod n \<noteq> ?t" unfolding sh by simp
  qed
  with n x u0 u' have "q_contents q = x # q_contents ?q"
    by (simp add: q_contents_def ring_step)
  with QueueConditionUpdate_inv(2) [OF c] x
  show "\<exists>x. fst (Queue_take q) = Some x \<and> q_contents q = x # q_contents (fst (snd (Queue_take q)))"
    by (simp add: Queue_take_def Let_def)
qed (simp add: Queue_take_def Let_def)

lemma q_used_contents: "length (q_contents q) = q_used q"
  by (simp add: q_contents_def)

lemma q_flags_contents:
  assumes "q_inv q"
  shows "qempty q \<longleftrightarrow> q_contents q = []" "qfull q \<longleftrightarrow> length (q_contents q) = q_capacity q"
    "length (q_contents q) \<le> q_capacity q"
proof -
  from assms have core: "q_core q" and fl: "q_flags q" by (simp_all add: q_inv_def)
  let ?h = "unat (qhead q)" and ?t = "unat (qtail q)" and ?u = "q_used q"
  obtain n where n: "unat (numElements q) = n" "2 \<le> n" "?h < n" "?t < n"
    "unat ((qhead q + 1) AND numMask q) = (?h + 1) mod n" "?u = (?h + n - ?t) mod n" using q_coreD [OF core] by metis
  have h1: "(?h + 1) mod n = (if ?h + 1 = n then 0 else ?h + 1)" using n by (intro pow_div_cases) auto
  have uc: "?u = (if ?t \<le> ?h then ?h - ?t else ?h + n - ?t)" using used_cases [OF n(4,3)] n by simp
  then have "?u = 0 \<longleftrightarrow> ?h = ?t" using n by auto
  with fl show "qempty q \<longleftrightarrow> q_contents q = []"
    by (simp add: q_flags_def unat_inj flip: length_0_conv q_used_contents)
  have "(?h + 1) mod n = ?t \<longleftrightarrow> ?u = n - 1" using n(2-4) h1 uc by (auto split: if_splits)
  with fl n show "qfull q \<longleftrightarrow> length (q_contents q) = q_capacity q"
    by (simp add: q_flags_def unat_inj q_used_contents q_capacity_def)
  have "?u \<le> n - 1" using n(2-4) uc by (auto split: if_splits)
  then show "length (q_contents q) \<le> q_capacity q"
    using n(1) by (simp add: q_used_contents q_capacity_def)
qed

section \<open>Creation, clearing, use count\<close>

definition shift64 :: "nat \<Rightarrow> 64 word" where
  "shift64 i = scast (push_bit i 1 :: 32 word)"

lemma sint_shift: "i < 31 \<Longrightarrow> sint (push_bit i 1 :: 32 word) = 2 ^ i"
proof -
  assume i: "i < 31"
  then have p: "(2::int) ^ i < 2 ^ 31" by (intro power_strict_increasing) auto
  have "uint (push_bit i 1 :: 32 word) = take_bit 32 (push_bit i 1)" by (simp only: unsigned_push_bit_eq) simp
  also have "\<dots> = 2 ^ i" using p i by (simp add: push_bit_eq_mult take_bit_int_eq_self)
  finally have u: "uint (push_bit i 1 :: 32 word) = 2 ^ i" .
  have "signed_take_bit 31 ((2::int) ^ i) = 2 ^ i" using p order_trans [of "- (2 ^ 31)" 0 "(2::int) ^ i"]
    by (intro signed_take_bit_int_eq_self) simp_all
  then show ?thesis unfolding sint_uint u by simp
qed

lemma shift64_small: "i < 31 \<Longrightarrow> unat (shift64 i) = 2 ^ i"
proof -
  assume i: "i < 31"
  then have p: "(2::int) ^ i < 2 ^ 64" by (intro power_strict_increasing) auto
  have "uint (word_of_int (2 ^ i) :: 64 word) = 2 ^ i"
    using p i by (subst uint_word_of_int_eq) (simp add: take_bit_int_eq_self)
  then show ?thesis unfolding shift64_def scast_eq sint_shift [OF i] unat_eq_nat_uint by (simp only: nat_power_eq) simp
qed

lemma shift64_31: "unat (shift64 31) \<ge> 2 ^ 32"
  by (simp add: shift64_def)

lemma unat_ucast64: "unat (ucast (n :: 32 word) :: 64 word) = unat n"
  using unsigned_less [of n, where ?'a = nat] by (simp add: unsigned_ucast_eq take_bit_nat_eq_self_iff)

lemma QueueRound_step:
  "QueueRound i n = (if i < 31 \<and> unat n > 2 ^ i then QueueRound (i + 1) n else i)" if "i \<le> 31"
proof (cases "i = 31")
  case True
  have "unat n < 2 ^ 32" using unsigned_less [of n, where ?'a = nat] by simp
  then have "\<not> (ucast n :: 64 word) > shift64 31"
    using shift64_31 by (simp add: word_less_nat_alt unat_ucast64)
  with True show ?thesis by (subst QueueRound.simps) (simp add: shift64_def)
next
  case False
  with that shift64_small [of i] show ?thesis
    by (subst QueueRound.simps) (simp add: shift64_def word_less_nat_alt unat_ucast64)
qed

lemma QueueRound_spec:
  "i \<le> 31 \<Longrightarrow> \<forall>j < i. 2 ^ j < unat n \<Longrightarrow>
   QueueRound i n \<le> 31 \<and> (\<forall>j < QueueRound i n. 2 ^ j < unat n) \<and> (QueueRound i n < 31 \<longrightarrow> unat n \<le> 2 ^ QueueRound i n)"
proof (induction "31 - i" arbitrary: i)
  case 0
  then show ?case using QueueRound_step [of i n] by auto
next
  case (Suc d)
  show ?case
  proof (cases "unat n > 2 ^ i")
    case True
    moreover have "i < 31" using Suc.hyps(2) by simp
    ultimately have "QueueRound i n = QueueRound (i + 1) n" using QueueRound_step [of i n] by simp
    moreover have "\<forall>j < i + 1. 2 ^ j < unat n" using Suc.prems True by (auto simp: less_Suc_eq)
    ultimately show ?thesis using Suc(1) [of "i + 1"] Suc(2) by simp
  next
    case False
    then have "QueueRound i n = i" using QueueRound_step [OF Suc.prems(1)] by simp
    with False Suc.prems show ?thesis by auto
  qed
qed

definition queue_order :: "32 word \<Rightarrow> nat" where
  "queue_order n = QueueRound 0 n"

lemma queue_order_spec:
  "queue_order n \<le> 31" "QueueSize n = 2 ^ queue_order n"
  "unat n \<le> 2 ^ 31 \<Longrightarrow> unat n \<le> 2 ^ queue_order n"
  "j < queue_order n \<Longrightarrow> 2 ^ j < unat n" "queue_order n < 31 \<Longrightarrow> unat n \<le> 2 ^ queue_order n"
proof -
  have s: "queue_order n \<le> 31 \<and> (\<forall>j < queue_order n. 2 ^ j < unat n) \<and> (queue_order n < 31 \<longrightarrow> unat n \<le> 2 ^ queue_order n)"
    unfolding queue_order_def by (rule QueueRound_spec) auto
  then show "queue_order n \<le> 31" "j < queue_order n \<Longrightarrow> 2 ^ j < unat n"
    "queue_order n < 31 \<Longrightarrow> unat n \<le> 2 ^ queue_order n" by blast+
  then have "queue_order n \<noteq> 32" by simp
  then show "QueueSize n = 2 ^ queue_order n"
    by (simp add: QueueSize_def Let_def push_bit_eq_mult flip: queue_order_def)
  show "unat n \<le> 2 ^ 31 \<Longrightarrow> unat n \<le> 2 ^ queue_order n"
  proof (cases "queue_order n < 31")
    case True
    with s show ?thesis by blast
  next
    case False
    with s have "queue_order n = 31" by linarith
    then show "unat n \<le> 2 ^ 31 \<Longrightarrow> ?thesis" by simp
  qed
qed

lemma QueueCreate_inv:
  assumes "1 < n" "QueueCreate n = Some q"
  shows "q_inv q \<and> q_contents q = [] \<and> q_capacity q = 2 ^ queue_order n - 1"
proof -
  let ?k = "queue_order n"
  have k: "?k < 32" using queue_order_spec(1) [of n] by simp
  have n1: "1 < unat n" using assms(1) by (simp add: word_less_nat_alt)
  have k0: "0 < ?k" using n1 queue_order_spec(5) [of n] by (cases "?k = 0") auto
  have q: "q = \<lparr>numElements = 2 ^ ?k, numMask = 2 ^ ?k - 1, qhead = 0, qtail = 0,
      itemTable = replicate (2 ^ ?k) None, qfull = False, qempty = True\<rparr>"
    using assms k by (auto simp: QueueCreate_def Let_def queue_order_spec(2) unat_pow split: if_splits)
  have p: "(0::32 word) < 2 ^ ?k" using k by (simp add: word_less_nat_alt unat_pow)
  have "q_core q"
    using k k0 p by (auto simp: q q_core_def q_used_def unat_pow)
  moreover have "(0 + 1) AND (2 ^ ?k - 1 :: 32 word) \<noteq> 0"
  proof -
    have "(2::nat) ^ 1 \<le> 2 ^ ?k" using k0 by (intro power_increasing) auto
    then have "unat ((0 + 1) AND (2 ^ ?k - 1 :: 32 word)) = 1"
      unfolding ring_next [OF k p] using k0 by simp
    then show ?thesis by (metis unsigned_0 zero_neq_one)
  qed
  ultimately show ?thesis
    using k by (simp add: q q_inv_def q_flags_def q_contents_def q_used_def q_capacity_def unat_pow ring_def)
qed

lemma QueueUsed_contents:
  assumes "q_inv q" shows "unat (QueueUsed (Some q)) = length (q_contents q)"
proof -
  from assms have core: "q_core q" by (simp add: q_inv_def)
  then obtain k where k: "0 < k" "k < 32" "numElements q = 2 ^ k" "numMask q = 2 ^ k - 1"
    "qhead q < 2 ^ k" "qtail q < 2 ^ k" by (auto simp: q_core_def)
  have p: "(2::nat) ^ k \<le> 2 ^ 31" using k by (intro power_increasing) auto
  have h: "unat (qhead q) < 2 ^ k" and t: "unat (qtail q) < 2 ^ k"
    using k by (simp_all add: word_less_nat_alt unat_pow)
  have s: "unat (qhead q + 2 ^ k) = unat (qhead q) + 2 ^ k"
    using h p k by (simp add: unat_word_ariths unat_pow)
  have "qtail q \<le> qhead q + 2 ^ k" using s t by (simp add: word_le_nat_alt)
  then have "unat (qhead q + 2 ^ k - qtail q) = unat (qhead q) + 2 ^ k - unat (qtail q)"
    using s by (simp add: unat_sub)
  then show ?thesis
    using k by (simp add: QueueUsed_def word_mod_pow q_used_contents q_used_def unat_pow)
qed

lemma QueueClear_inv:
  assumes "q_inv q" shows "q_inv (fst (QueueClear True q)) \<and> q_contents (fst (QueueClear True q)) = [] \<and>
    q_capacity (fst (QueueClear True q)) = q_capacity q"
proof -
  from assms have core: "q_core q" by (simp add: q_inv_def)
  let ?q = "q\<lparr>itemTable := map (\<lambda>_. None) (itemTable q), qhead := 0, qtail := 0\<rparr>"
  have "unat (qhead q) < unat (numElements q)" using core by (simp add: q_core_def word_less_nat_alt)
  then have "0 < numElements q" by (simp add: word_less_nat_alt)
  with core have "q_core ?q" by (auto simp: q_core_def q_used_def)
  then have "q_inv (fst (QueueClear True q))" using QueueConditionUpdate_inv(1) by (simp add: QueueClear_def)
  moreover have "q_used ?q = 0" by (simp add: q_used_def)
  ultimately show ?thesis
    by (simp add: QueueClear_def q_contents_def q_used_def ring_def q_capacity_def)
qed

section \<open>The queue interface\<close>

locale fifo =
  fixes enq :: "'a \<Rightarrow> 'q \<Rightarrow> 'q option"
    and deq :: "'q \<Rightarrow> ('a \<times> 'q) option"
    and contents :: "'q \<Rightarrow> 'a list"
    and capacity :: "'q \<Rightarrow> nat"
    and good :: "'q \<Rightarrow> bool"
  assumes enq: "good q \<Longrightarrow> length (contents q) < capacity q \<Longrightarrow>
      \<exists>q'. enq x q = Some q' \<and> good q' \<and> contents q' = contents q @ [x] \<and> capacity q' = capacity q"
    and enq_full: "good q \<Longrightarrow> \<not> length (contents q) < capacity q \<Longrightarrow> enq x q = None"
    and deq: "good q \<Longrightarrow> contents q = x # xs \<Longrightarrow>
      \<exists>q'. deq q = Some (x, q') \<and> good q' \<and> contents q' = xs \<and> capacity q' = capacity q"
    and deq_empty: "good q \<Longrightarrow> contents q = [] \<Longrightarrow> deq q = None"
begin

lemma enq_all:
  "good q \<Longrightarrow> length (contents q) + length xs \<le> capacity q \<Longrightarrow>
   \<exists>q'. foldM enq xs q = Some q' \<and> good q' \<and> contents q' = contents q @ xs \<and> capacity q' = capacity q"
proof (induction xs arbitrary: q)
  case (Cons x xs)
  then obtain q1 where q1: "enq x q = Some q1" "good q1" "contents q1 = contents q @ [x]" "capacity q1 = capacity q"
    using enq [of q x] by auto
  with Cons.IH [of q1] Cons.prems show ?case by auto
qed simp

fun deq_all :: "nat \<Rightarrow> 'q \<Rightarrow> ('a list \<times> 'q) option" where
  "deq_all 0 q = Some ([], q)"
| "deq_all (Suc n) q = do { (x, q) \<leftarrow> deq q; (xs, q) \<leftarrow> deq_all n q; Some (x # xs, q) }"

lemma deq_all:
  "good q \<Longrightarrow> n \<le> length (contents q) \<Longrightarrow>
   \<exists>q'. deq_all n q = Some (take n (contents q), q') \<and> good q' \<and> contents q' = drop n (contents q) \<and> capacity q' = capacity q"
proof (induction n arbitrary: q)
  case (Suc n)
  then obtain x xs where c: "contents q = x # xs" by (cases "contents q") auto
  with Suc.prems deq [of q x xs] obtain q1 where "deq q = Some (x, q1)" "good q1" "contents q1 = xs" "capacity q1 = capacity q"
    by auto
  with Suc.IH [of q1] Suc.prems c show ?case by auto
qed simp

lemma fifo_order:
  assumes "good q" "contents q = []" "length xs \<le> capacity q"
  shows "\<exists>q1 q2. foldM enq xs q = Some q1 \<and> deq_all (length xs) q1 = Some (xs, q2) \<and> contents q2 = []"
proof -
  obtain q1 where q1: "foldM enq xs q = Some q1" "good q1" "contents q1 = xs"
    using enq_all [OF assms(1), of xs] assms by auto
  with deq_all [of q1 "length xs"] show ?thesis by auto
qed

end

definition try_enqueue :: "'a \<Rightarrow> 'a QueueObject_t \<Rightarrow> 'a QueueObject_t option" where
  "try_enqueue x q = do { (_, q', _) \<leftarrow> QueueEnqueueItem (Some x) (Some q); q' }"

definition try_dequeue :: "'a QueueObject_t \<Rightarrow> ('a \<times> 'a QueueObject_t) option" where
  "try_dequeue q = do { (x, q', _) \<leftarrow> QueueDequeueItem (-1) False (Some q) []; x \<leftarrow> x; q' \<leftarrow> q'; Some (x, q') }"

interpretation ring_fifo: fifo try_enqueue try_dequeue q_contents q_capacity q_inv
proof
  fix q :: "'a QueueObject_t" and x :: 'a and xs
  assume inv: "q_inv q"
  note fl = q_flags_contents [OF inv]
  show "\<exists>q'. try_enqueue x q = Some q' \<and> q_inv q' \<and> q_contents q' = q_contents q @ [x] \<and> q_capacity q' = q_capacity q"
    if "length (q_contents q) < q_capacity q"
  proof -
    have "\<not> qfull q" using that fl by simp
    with Queue_put_inv [OF inv this, of x] show ?thesis
      by (auto simp: try_enqueue_def QueueEnqueueItem_def q_capacity_def case_prod_unfold Let_def)
  qed
  show "try_enqueue x q = None" if "\<not> length (q_contents q) < q_capacity q"
    using that fl by (simp add: try_enqueue_def QueueEnqueueItem_def)
  show "try_dequeue q = None" if "q_contents q = []"
    using that fl by (simp add: try_dequeue_def QueueDequeueItem_def)
  show "\<exists>q'. try_dequeue q = Some (x, q') \<and> q_inv q' \<and> q_contents q' = xs \<and> q_capacity q' = q_capacity q"
    if "q_contents q = x # xs"
  proof -
    have "\<not> qempty q" using that fl by simp
    with Queue_take_inv [OF inv this] that show ?thesis
      by (auto simp: try_dequeue_def QueueDequeueItem_def q_capacity_def case_prod_unfold Let_def)
  qed
qed

section \<open>Threads\<close>

text \<open>
  What the threads that share a queue do, one critical section at a time. A thread in
  \<open>PutReady\<close> or \<open>GetReady\<close> is about to test the loop condition with the mutex
  held; in \<open>PutWait\<close>, \<open>GetWait\<close> it is inside \<open>pthread_cond_wait\<close>. A signal
  moves one waiting thread, any of them, and is lost when there is none. \<open>puts\<close> and
  \<open>gets\<close> record the items in the order they went in and came out. \<open>P\<close> and
  \<open>C\<close> are the threads that put and that get.
\<close>

datatype 'a tstate = Idle | PutReady 'a | PutWait 'a | GetReady | GetWait

record 'a qsys =
  que :: "'a QueueObject_t"
  thr :: "nat \<Rightarrow> 'a tstate"
  puts :: "'a list"
  gets :: "'a list"

inductive wake :: "QueueSignal list \<Rightarrow> (nat \<Rightarrow> 'a tstate) \<Rightarrow> (nat \<Rightarrow> 'a tstate) \<Rightarrow> bool" where
  wake_none: "wake [] ts ts"
| wake_put: "ts t = PutWait x \<Longrightarrow> wake sg (ts(t := PutReady x)) ts' \<Longrightarrow> wake (SIG_NOT_FULL # sg) ts ts'"
| wake_get: "ts t = GetWait \<Longrightarrow> wake sg (ts(t := GetReady)) ts' \<Longrightarrow> wake (SIG_NOT_EMPTY # sg) ts ts'"
| lost_put: "\<forall>t x. ts t \<noteq> PutWait x \<Longrightarrow> wake sg ts ts' \<Longrightarrow> wake (SIG_NOT_FULL # sg) ts ts'"
| lost_get: "\<forall>t. ts t \<noteq> GetWait \<Longrightarrow> wake sg ts ts' \<Longrightarrow> wake (SIG_NOT_EMPTY # sg) ts ts'"

inductive qstep :: "nat set \<Rightarrow> nat set \<Rightarrow> 'a qsys \<Rightarrow> 'a qsys \<Rightarrow> bool" for P C where
  call_put: "t \<in> P \<Longrightarrow> thr s t = Idle \<Longrightarrow> qstep P C s (s\<lparr>thr := (thr s)(t := PutReady x)\<rparr>)"
| call_get: "t \<in> C \<Longrightarrow> thr s t = Idle \<Longrightarrow> qstep P C s (s\<lparr>thr := (thr s)(t := GetReady)\<rparr>)"
| block_put: "thr s t = PutReady x \<Longrightarrow> qfull (que s) \<Longrightarrow> qstep P C s (s\<lparr>thr := (thr s)(t := PutWait x)\<rparr>)"
| block_get: "thr s t = GetReady \<Longrightarrow> qempty (que s) \<Longrightarrow> qstep P C s (s\<lparr>thr := (thr s)(t := GetWait)\<rparr>)"
| do_put: "thr s t = PutReady x \<Longrightarrow> \<not> qfull (que s) \<Longrightarrow> Queue_put x (que s) = (q', sg) \<Longrightarrow>
    wake sg ((thr s)(t := Idle)) ts' \<Longrightarrow> qstep P C s (s\<lparr>que := q', thr := ts', puts := puts s @ [x]\<rparr>)"
| do_get: "thr s t = GetReady \<Longrightarrow> \<not> qempty (que s) \<Longrightarrow> Queue_take (que s) = (Some x, q', sg) \<Longrightarrow>
    wake sg ((thr s)(t := Idle)) ts' \<Longrightarrow> qstep P C s (s\<lparr>que := q', thr := ts', gets := gets s @ [x]\<rparr>)"

definition qsys_start :: "'a QueueObject_t \<Rightarrow> 'a qsys" where
  "qsys_start q = \<lparr>que = q, thr = (\<lambda>_. Idle), puts = [], gets = []\<rparr>"

inductive_cases wake_NilE [elim!]: "wake [] ts ts'"
inductive_cases wake_fullE: "wake (SIG_NOT_FULL # sg) ts ts'"
inductive_cases wake_emptyE: "wake (SIG_NOT_EMPTY # sg) ts ts'"

text \<open>Nothing is lost, duplicated or reordered, under any interleaving of any threads.\<close>

definition qsys_inv :: "'a qsys \<Rightarrow> bool" where
  "qsys_inv s \<longleftrightarrow> q_inv (que s) \<and> puts s = gets s @ q_contents (que s)"

lemma qstep_inv: "qstep P C s s' \<Longrightarrow> qsys_inv s \<Longrightarrow> qsys_inv s'"
proof (induction rule: qstep.induct)
  case (do_put s t x q' sg ts')
  then show ?case using Queue_put_inv [of "que s" x] by (auto simp: qsys_inv_def)
next
  case (do_get s t x q' sg ts')
  then show ?case using Queue_take_inv [of "que s"] by (auto simp: qsys_inv_def)
qed (auto simp: qsys_inv_def)

lemma qsys_reachable_inv:
  assumes "(qstep P C)\<^sup>*\<^sup>* (qsys_start q) s" "q_inv q" "q_contents q = []"
  shows "qsys_inv s"
  using assms(1)
proof (induction rule: rtranclp_induct)
  case base
  with assms show ?case by (simp add: qsys_inv_def qsys_start_def)
qed (rule qstep_inv)

text \<open>
  With one putting and one getting thread no wake-up is lost: a thread waits only while
  the condition it waits for is false.
\<close>

definition waits_justified :: "'a qsys \<Rightarrow> bool" where
  "waits_justified s \<longleftrightarrow>
     (\<forall>t x. thr s t = PutWait x \<longrightarrow> qfull (que s)) \<and> (\<forall>t. thr s t = GetWait \<longrightarrow> qempty (que s))"

definition roles :: "nat \<Rightarrow> nat \<Rightarrow> (nat \<Rightarrow> 'a tstate) \<Rightarrow> bool" where
  "roles p c ts \<longleftrightarrow> (\<forall>t. (\<forall>x. ts t = PutWait x \<or> ts t = PutReady x \<longrightarrow> t = p) \<and> (ts t = GetWait \<or> ts t = GetReady \<longrightarrow> t = c))"

lemma wake_full_one:
  "wake [SIG_NOT_FULL] ts ts' \<Longrightarrow> roles p c ts \<Longrightarrow>
   roles p c ts' \<and> (\<forall>t x. ts' t \<noteq> PutWait x) \<and> (\<forall>t. ts' t = GetWait \<longrightarrow> ts t = GetWait)"
  by (erule wake_fullE; auto simp: roles_def split: if_splits; metis)

lemma wake_empty_one:
  "wake [SIG_NOT_EMPTY] ts ts' \<Longrightarrow> roles p c ts \<Longrightarrow>
   roles p c ts' \<and> (\<forall>t. ts' t \<noteq> GetWait) \<and> (\<forall>t x. ts' t = PutWait x \<longrightarrow> ts t = PutWait x)"
  by (erule wake_emptyE; auto simp: roles_def split: if_splits; metis)

lemma put_signals:
  assumes "q_inv q" "\<not> qfull q" "Queue_put x q = (q', sg)"
  shows "\<not> qempty q' \<and> sg = (if qempty q then [SIG_NOT_EMPTY] else [])"
proof -
  have "q_contents q' \<noteq> []" using Queue_put_inv [OF assms(1,2), of x] assms(3) by simp
  moreover have "q_inv q'" using Queue_put_inv [OF assms(1,2), of x] assms(3) by simp
  ultimately have "\<not> qempty q'" using q_flags_contents by blast
  with assms(2,3) show ?thesis
    by (auto simp: Queue_put_def QueueConditionUpdate_def Let_def split: if_splits)
qed

lemma take_signals:
  assumes "q_inv q" "\<not> qempty q" "Queue_take q = (x, q', sg)"
  shows "\<not> qfull q' \<and> sg = (if qfull q then [SIG_NOT_FULL] else [])"
proof -
  note T = Queue_take_inv [OF assms(1,2)]
  from T assms(3) have inv: "q_inv q'" and "length (q_contents q) = length (q_contents q') + 1"
    and "q_capacity q' = q_capacity q" by (auto simp: q_capacity_def)
  with q_flags_contents [OF assms(1)] q_flags_contents [OF inv] have "\<not> qfull q'" by simp
  with assms(2,3) show ?thesis
    by (auto simp: Queue_take_def QueueConditionUpdate_def Let_def split: if_splits)
qed

lemma qstep_justified:
  assumes "qstep {p} {c} s s'" "qsys_inv s" "roles p c (thr s)" "p \<noteq> c" "waits_justified s"
  shows "roles p c (thr s') \<and> waits_justified s'"
  using assms
proof (cases rule: qstep.cases)
  case (do_put t x q' sg ts')
  with assms have inv: "q_inv (que s)" and ro: "roles p c ((thr s)(t := Idle))"
    by (auto simp: qsys_inv_def roles_def)
  note sg = put_signals [OF inv do_put(3,4)]
  show ?thesis
  proof (cases "qempty (que s)")
    case True
    with do_put sg have w: "wake [SIG_NOT_EMPTY] ((thr s)(t := Idle)) ts'" by simp
    from wake_empty_one [OF w ro] do_put assms(5) show ?thesis
      by (auto simp: waits_justified_def split: if_splits)
  next
    case False
    with do_put sg have "ts' = (thr s)(t := Idle)" by auto
    with do_put ro assms(5) False show ?thesis by (auto simp: waits_justified_def)
  qed
next
  case (do_get t x q' sg ts')
  with assms have inv: "q_inv (que s)" and ro: "roles p c ((thr s)(t := Idle))"
    by (auto simp: qsys_inv_def roles_def)
  note sg = take_signals [OF inv do_get(3,4)]
  show ?thesis
  proof (cases "qfull (que s)")
    case True
    with do_get sg have w: "wake [SIG_NOT_FULL] ((thr s)(t := Idle)) ts'" by simp
    from wake_full_one [OF w ro] do_get assms(5) show ?thesis
      by (auto simp: waits_justified_def split: if_splits)
  next
    case False
    with do_get sg have "ts' = (thr s)(t := Idle)" by auto
    with do_get ro assms(5) False show ?thesis by (auto simp: waits_justified_def)
  qed
qed (auto simp: roles_def waits_justified_def; metis)+

lemma spsc_reachable:
  assumes "(qstep {p} {c})\<^sup>*\<^sup>* (qsys_start q) s" "q_inv q" "q_contents q = []" "p \<noteq> c"
  shows "qsys_inv s \<and> roles p c (thr s) \<and> waits_justified s"
  using assms(1)
proof (induction rule: rtranclp_induct)
  case base
  with assms show ?case by (simp add: qsys_inv_def qsys_start_def roles_def waits_justified_def)
next
  case (step s s')
  with qstep_inv [OF step(2)] qstep_justified [OF step(2)] assms(4) show ?case by blast
qed

section \<open>Running a schedule\<close>

text \<open>
  A schedule of a finite set of threads, executed: a signal wakes the first waiting
  thread of \<open>ids\<close>. \<open>Call_put t x\<close> and \<open>Call_get t\<close> enter a routine,
  \<open>Run t\<close> lets the thread test its condition and go on or wait.
\<close>

datatype 'a qact = Call_put nat 'a | Call_get nat | Run nat

fun wake_first :: "nat list \<Rightarrow> QueueSignal list \<Rightarrow> (nat \<Rightarrow> 'a tstate) \<Rightarrow> nat \<Rightarrow> 'a tstate" where
  "wake_first ids [] ts = ts"
| "wake_first ids (SIG_NOT_FULL # sg) ts =
     (case find (\<lambda>t. case ts t of PutWait x \<Rightarrow> True | _ \<Rightarrow> False) ids of
        None \<Rightarrow> wake_first ids sg ts
      | Some t \<Rightarrow> wake_first ids sg (ts(t := (case ts t of PutWait x \<Rightarrow> PutReady x | st \<Rightarrow> st))))"
| "wake_first ids (SIG_NOT_EMPTY # sg) ts =
     (case find (\<lambda>t. case ts t of GetWait \<Rightarrow> True | _ \<Rightarrow> False) ids of
        None \<Rightarrow> wake_first ids sg ts
      | Some t \<Rightarrow> wake_first ids sg (ts(t := GetReady)))"

definition others_idle :: "nat list \<Rightarrow> (nat \<Rightarrow> 'a tstate) \<Rightarrow> bool" where
  "others_idle ids ts \<longleftrightarrow> (\<forall>t. t \<notin> set ids \<longrightarrow> ts t = Idle)"

lemma find_SomeD: "find P xs = Some x \<Longrightarrow> x \<in> set xs \<and> P x"
  by (induction xs) (auto split: if_splits)

lemma find_NoneD: "find P xs = None \<Longrightarrow> x \<in> set xs \<Longrightarrow> \<not> P x"
  by (induction xs) (auto split: if_splits)

lemma wake_first_wake:
  "others_idle ids ts \<Longrightarrow> wake sg ts (wake_first ids sg ts) \<and> others_idle ids (wake_first ids sg ts)"
proof (induction ids sg ts rule: wake_first.induct)
  case (2 ids sg ts)
  let ?P = "\<lambda>t. case ts t of PutWait x \<Rightarrow> True | _ \<Rightarrow> False"
  show ?case
  proof (cases "find ?P ids")
    case None
    have "\<forall>t x. ts t \<noteq> PutWait x"
    proof (intro allI notI)
      fix t x assume w: "ts t = PutWait x"
      then have "t \<in> set ids" using 2(3) by (auto simp: others_idle_def)
      from find_NoneD [OF None this] w show False by simp
    qed
    with None 2(1,3) show ?thesis by (auto intro: wake.intros)
  next
    case (Some t)
    then obtain x where x: "t \<in> set ids" "ts t = PutWait x" using find_SomeD [OF Some] by (auto split: tstate.splits)
    then have "others_idle ids (ts(t := PutReady x))" using 2(3) by (auto simp: others_idle_def)
    moreover have upd: "ts(t := (case ts t of PutWait x \<Rightarrow> PutReady x | st \<Rightarrow> st)) = ts(t := PutReady x)" using x by simp
    ultimately have "wake sg (ts(t := PutReady x)) (wake_first ids sg (ts(t := PutReady x))) \<and>
        others_idle ids (wake_first ids sg (ts(t := PutReady x)))" using 2(2) [OF Some] by (simp only:)
    with wake_put [of ts t x sg, OF x(2)] show ?thesis by (simp only: wake_first.simps Some option.case upd)
  qed
next
  case (3 ids sg ts)
  let ?P = "\<lambda>t. case ts t of GetWait \<Rightarrow> True | _ \<Rightarrow> False"
  show ?case
  proof (cases "find ?P ids")
    case None
    have "\<forall>t. ts t \<noteq> GetWait"
    proof (intro allI notI)
      fix t assume w: "ts t = GetWait"
      then have "t \<in> set ids" using 3(3) by (auto simp: others_idle_def)
      from find_NoneD [OF None this] w show False by simp
    qed
    with None 3(1,3) show ?thesis by (auto intro: wake.intros)
  next
    case (Some t)
    then have x: "t \<in> set ids" "ts t = GetWait" using find_SomeD [OF Some] by (auto split: tstate.splits)
    then have "others_idle ids (ts(t := GetReady))" using 3(3) by (auto simp: others_idle_def)
    with 3(2) [OF Some] have "wake sg (ts(t := GetReady)) (wake_first ids sg (ts(t := GetReady))) \<and>
        others_idle ids (wake_first ids sg (ts(t := GetReady)))" by blast
    with wake_get [of ts t sg, OF x(2)] show ?thesis by (simp only: wake_first.simps Some option.case)
  qed
qed (auto intro: wake.intros)

fun qexec :: "nat list \<Rightarrow> nat list \<Rightarrow> 'a qact \<Rightarrow> 'a qsys \<Rightarrow> 'a qsys option" where
  "qexec ps cs (Call_put t x) s =
     (if t \<in> set ps \<and> (case thr s t of Idle \<Rightarrow> True | _ \<Rightarrow> False) then Some (s\<lparr>thr := (thr s)(t := PutReady x)\<rparr>) else None)"
| "qexec ps cs (Call_get t) s =
     (if t \<in> set cs \<and> (case thr s t of Idle \<Rightarrow> True | _ \<Rightarrow> False) then Some (s\<lparr>thr := (thr s)(t := GetReady)\<rparr>) else None)"
| "qexec ps cs (Run t) s =
     (case thr s t of
        PutReady x \<Rightarrow>
          if qfull (que s) then Some (s\<lparr>thr := (thr s)(t := PutWait x)\<rparr>)
          else let (q', sg) = Queue_put x (que s) in
            Some (s\<lparr>que := q', thr := wake_first (ps @ cs) sg ((thr s)(t := Idle)), puts := puts s @ [x]\<rparr>)
      | GetReady \<Rightarrow>
          if qempty (que s) then Some (s\<lparr>thr := (thr s)(t := GetWait)\<rparr>)
          else (case Queue_take (que s) of
              (Some x, q', sg) \<Rightarrow>
                Some (s\<lparr>que := q', thr := wake_first (ps @ cs) sg ((thr s)(t := Idle)), gets := gets s @ [x]\<rparr>)
            | _ \<Rightarrow> None)
      | _ \<Rightarrow> None)"

lemma qexec_qstep:
  assumes "qexec ps cs a s = Some s'" "others_idle (ps @ cs) (thr s)"
  shows "qstep (set ps) (set cs) s s' \<and> others_idle (ps @ cs) (thr s')"
proof (cases a)
  case (Call_put t x)
  with assms show ?thesis by (auto simp: others_idle_def split: if_splits tstate.splits intro: qstep.intros)
next
  case (Call_get t)
  with assms show ?thesis by (auto simp: others_idle_def split: if_splits tstate.splits intro: qstep.intros)
next
  case (Run t)
  have oi: "others_idle (ps @ cs) ((thr s)(t := Idle))" using assms(2) by (auto simp: others_idle_def)
  from Run assms consider x where "thr s t = PutReady x" | "thr s t = GetReady"
    by (cases "thr s t") auto
  then show ?thesis
  proof cases
    case 1
    then have "t \<in> set (ps @ cs)" using assms(2) by (auto simp: others_idle_def)
    with 1 Run assms wake_first_wake [OF oi] show ?thesis
      by (auto simp: others_idle_def split: if_splits prod.splits intro: qstep.intros)
  next
    case 2
    then have "t \<in> set (ps @ cs)" using assms(2) by (auto simp: others_idle_def)
    with 2 Run assms wake_first_wake [OF oi] show ?thesis
      by (auto simp: others_idle_def split: if_splits prod.splits option.splits intro: qstep.intros)
  qed
qed

lemma qexec_reachable:
  "foldM (qexec ps cs) as s = Some s' \<Longrightarrow> others_idle (ps @ cs) (thr s) \<Longrightarrow> (qstep (set ps) (set cs))\<^sup>*\<^sup>* s s'"
proof (induction as arbitrary: s)
  case (Cons a as)
  then obtain s1 where s1: "qexec ps cs a s = Some s1" "foldM (qexec ps cs) as s1 = Some s'"
    by (auto simp: Option.bind_eq_Some_conv)
  with qexec_qstep [OF s1(1) Cons.prems(2)] Cons.IH show ?case
    by (meson converse_rtranclp_into_rtranclp)
qed simp

definition lost_wakeup_schedule :: "nat qact list" where
  "lost_wakeup_schedule =
     [Call_put 1 10, Run 1, Call_put 1 11, Run 1, Call_put 1 12, Run 1,
      Call_put 1 13, Run 1, Call_put 2 14, Run 2,
      Call_get 3, Run 3, Call_get 3, Run 3, Run 1,
      Call_get 3, Run 3, Call_get 3, Run 3, Call_get 3, Run 3]"

definition four_slots :: "'a QueueObject_t" where
  "four_slots = \<lparr>numElements = 4, numMask = 3, qhead = 0, qtail = 0,
     itemTable = [None, None, None, None], qfull = False, qempty = True\<rparr>"

lemma QueueCreate_four: "QueueCreate 4 = Some four_slots"
proof -
  have "QueueRound 0 (4 :: 32 word) = 2"
    by (simp add: QueueRound_step)
  moreover have "replicate 4 (None :: 'a option) = [None, None, None, None]" by (simp add: eval_nat_numeral)
  ultimately show ?thesis by (simp add: QueueCreate_def QueueSize_def Let_def four_slots_def)
qed

lemma lost_wakeup_run:
  "foldM (qexec [1, 2] [3]) lost_wakeup_schedule (qsys_start four_slots) = Some s \<Longrightarrow>
   qempty (que s) \<and> thr s 1 = Idle \<and> thr s 2 = PutWait 14 \<and> thr s 3 = GetWait \<and> puts s = [10, 11, 12, 13]"
  unfolding lost_wakeup_schedule_def
  by (auto simp: qsys_start_def four_slots_def Queue_put_def Queue_take_def QueueConditionUpdate_def Let_def)

section \<open>Properties\<close>

text \<open>Calls of the routines, and what a bounded first-in first-out list answers; \<open>None\<close> where the caller has to wait.\<close>

datatype 'a qop = OpPut 'a | OpGet

fun fifo_run :: "nat \<Rightarrow> 'a qop list \<Rightarrow> 'a list \<Rightarrow> 'a option list" where
  "fifo_run cap [] xs = []"
| "fifo_run cap (OpPut x # ops) xs =
     (if length xs < cap then Some x # fifo_run cap ops (xs @ [x]) else None # fifo_run cap ops xs)"
| "fifo_run cap (OpGet # ops) [] = None # fifo_run cap ops []"
| "fifo_run cap (OpGet # ops) (x # xs) = Some x # fifo_run cap ops xs"

fun ring_run :: "'a qop list \<Rightarrow> 'a QueueObject_t \<Rightarrow> 'a option list" where
  "ring_run [] q = []"
| "ring_run (OpPut x # ops) q =
     (case try_enqueue x q of None \<Rightarrow> None # ring_run ops q | Some q' \<Rightarrow> Some x # ring_run ops q')"
| "ring_run (OpGet # ops) q =
     (case try_dequeue q of None \<Rightarrow> None # ring_run ops q | Some (x, q') \<Rightarrow> Some x # ring_run ops q')"

lemma ring_run_fifo: "q_inv q \<Longrightarrow> ring_run ops q = fifo_run (q_capacity q) ops (q_contents q)"
proof (induction ops arbitrary: q)
  case (Cons oper ops)
  show ?case
  proof (cases oper)
    case (OpPut x)
    show ?thesis
    proof (cases "length (q_contents q) < q_capacity q")
      case True
      from ring_fifo.enq [OF Cons.prems True, of x] OpPut True Cons.IH show ?thesis by auto
    next
      case False
      with ring_fifo.enq_full [OF Cons.prems False, of x] OpPut Cons show ?thesis by simp
    qed
  next
    case OpGet
    show ?thesis
    proof (cases "q_contents q")
      case Nil
      with ring_fifo.deq_empty [OF Cons.prems Nil] OpGet Cons show ?thesis by simp
    next
      case (Cons x xs)
      from ring_fifo.deq [OF Cons.prems Cons] OpGet Cons Cons.IH show ?thesis by auto
    qed
  qed
qed simp

text \<open>Claim C5. From any well-formed queue, every sequence of enqueue and dequeue calls that need
  not wait returns what a bounded FIFO list of the queue capacity returns; a queue created
  with a size above one is well formed and empty, and holds one item less than its ring has
  slots.\<close>

theorem queue_refines_fifo:
  "(q_inv q \<longrightarrow> ring_run ops q = fifo_run (q_capacity q) ops (q_contents q)) \<and>
   (1 < n \<longrightarrow> QueueCreate n = Some r \<longrightarrow> q_inv r \<and> q_contents r = [] \<and> q_capacity r = 2 ^ queue_order n - 1)"
  using ring_run_fifo [of q ops] QueueCreate_inv [of n r] by blast

lemma queue_refines_fifo_witness:
  "ring_run [OpPut (1::nat), OpGet, OpGet] four_slots = fifo_run (2 ^ queue_order 4 - 1) [OpPut 1, OpGet, OpGet] []"
proof -
  have "(1 :: 32 word) < 4" by simp
  with queue_refines_fifo [of four_slots "[OpPut (1::nat), OpGet, OpGet]" 4 four_slots] QueueCreate_four show ?thesis by metis
qed

text \<open>The requested size of a queue is rounded up to the next power of two up to 2^31,
  and down to 2^31 beyond.\<close>

theorem queue_size_rounds_up:
  "\<exists>k \<le> 31. QueueSize n = 2 ^ k \<and> (\<forall>j < k. 2 ^ j < unat n) \<and> (unat n \<le> 2 ^ 31 \<longrightarrow> unat n \<le> unat (QueueSize n))"
proof -
  have "unat (QueueSize n) = 2 ^ queue_order n" using queue_order_spec(1,2) [of n] by (simp add: unat_pow)
  then show ?thesis using queue_order_spec(1-3) [of n] queue_order_spec(4) [of _ n] by (intro exI [of _ "queue_order n"]) simp
qed

lemma queue_size_rounds_up_witness:
  "\<exists>k \<le> 31. QueueSize 1000 = 2 ^ k \<and> (\<forall>j < k. 2 ^ j < unat (1000 :: 32 word)) \<and>
     (unat (1000 :: 32 word) \<le> 2 ^ 31 \<longrightarrow> unat (1000 :: 32 word) \<le> unat (QueueSize 1000))"
  by (rule queue_size_rounds_up)

text \<open>Claim C6. In every interleaving of any number of producers and consumers, the items taken so
  far followed by those still in the queue are the items put, in order, and the ring invariant
  holds.\<close>

theorem queue_interleaving_fifo:
  assumes "(qstep P C)\<^sup>*\<^sup>* (qsys_start q) s" "1 < n" "QueueCreate n = Some q"
  shows "q_inv (que s) \<and> puts s = gets s @ q_contents (que s) \<and>
    unat (QueueUsed (Some (que s))) = length (puts s) - length (gets s)"
  using qsys_reachable_inv [OF assms(1)] QueueCreate_inv [OF assms(2,3)] QueueUsed_contents [of "que s"]
  by (simp add: qsys_inv_def)

lemma queue_interleaving_fifo_witness:
  "q_inv (que (qsys_start (four_slots :: nat QueueObject_t))) \<and>
   puts (qsys_start (four_slots :: nat QueueObject_t)) = gets (qsys_start four_slots) @ q_contents (que (qsys_start four_slots)) \<and>
   unat (QueueUsed (Some (que (qsys_start (four_slots :: nat QueueObject_t))))) =
     length (puts (qsys_start (four_slots :: nat QueueObject_t))) - length (gets (qsys_start (four_slots :: nat QueueObject_t)))"
  by (rule queue_interleaving_fifo [OF rtranclp.rtrancl_refl [of "qstep {1} {2}"] _ QueueCreate_four]) simp

text \<open>Claim C7. With one producer and one consumer, whoever waits has a reason to: in every
  reachable state a waiting consumer sees an empty queue and a waiting producer a full one.\<close>

theorem queue_waits_justified:
  assumes "(qstep {p} {c})\<^sup>*\<^sup>* (qsys_start q) s" "1 < n" "QueueCreate n = Some q" "p \<noteq> c"
  shows "(\<forall>t x. thr s t = PutWait x \<longrightarrow> length (q_contents (que s)) = q_capacity (que s)) \<and>
    (\<forall>t. thr s t = GetWait \<longrightarrow> q_contents (que s) = [])"
  using spsc_reachable [OF assms(1) _ _ assms(4)] QueueCreate_inv [OF assms(2,3)] q_flags_contents [of "que s"]
  by (auto simp: waits_justified_def qsys_inv_def)

lemma waiting_run:
  "foldM (qexec [1] [2]) [Call_get 2, Run 2] (qsys_start four_slots) =
     Some ((qsys_start four_slots)\<lparr>thr := (\<lambda>_. Idle)(2 := GetWait)\<rparr>)"
  by (simp add: qsys_start_def four_slots_def)

lemma queue_waits_justified_witness:
  "thr ((qsys_start (four_slots :: nat QueueObject_t))\<lparr>thr := (\<lambda>_. Idle)(2 := GetWait)\<rparr>) 2 = GetWait \<and>
   q_contents (que ((qsys_start (four_slots :: nat QueueObject_t))\<lparr>thr := (\<lambda>_. Idle)(2 := GetWait)\<rparr>)) = []"
proof -
  let ?s = "(qsys_start (four_slots :: nat QueueObject_t))\<lparr>thr := (\<lambda>_. Idle)(2 := GetWait)\<rparr>"
  have "(qstep {1} {2})\<^sup>*\<^sup>* (qsys_start four_slots) ?s"
    using qexec_reachable [OF waiting_run] by (simp add: others_idle_def qsys_start_def)
  from queue_waits_justified [OF this _ QueueCreate_four] show ?thesis by simp
qed

text \<open>Claim C8. With two producers and one consumer a state is reachable in which the queue is
  empty and the first producer is idle, yet the second producer still waits for room and the
  consumer for an item, with no signal left to wake either: a signal is raised only when a
  flag changes.\<close>

theorem queue_lost_wakeup:
  "\<exists>s. (qstep {1, 2} {3})\<^sup>*\<^sup>* (qsys_start (four_slots :: nat QueueObject_t)) s \<and>
     q_contents (que s) = [] \<and> thr s 1 = Idle \<and> thr s 2 = PutWait 14 \<and> thr s 3 = GetWait"
proof -
  have "foldM (qexec [1, 2] [3]) lost_wakeup_schedule (qsys_start (four_slots :: nat QueueObject_t)) \<noteq> None"
    unfolding lost_wakeup_schedule_def
    by (simp add: qsys_start_def four_slots_def Queue_put_def Queue_take_def QueueConditionUpdate_def Let_def)
  then obtain s where s: "foldM (qexec [1, 2] [3]) lost_wakeup_schedule (qsys_start (four_slots :: nat QueueObject_t)) = Some s"
    by blast
  have r: "(qstep (set [1, 2]) (set [3]))\<^sup>*\<^sup>* (qsys_start four_slots) s"
    by (rule qexec_reachable [OF s]) (simp add: others_idle_def qsys_start_def)
  have "q_inv (four_slots :: nat QueueObject_t)" "q_contents (four_slots :: nat QueueObject_t) = []"
    using QueueCreate_inv [OF _ QueueCreate_four] by auto
  from qsys_reachable_inv [OF r this] have "q_inv (que s)" by (simp add: qsys_inv_def)
  with r lost_wakeup_run [OF s] q_flags_contents(1) [of "que s"] show ?thesis by auto
qed

end
