(* ===== verification/LinkedList.thy ===== *)
theory LinkedList
  imports Prelude
begin

text \<open>
  \<open>bot/src/linked_list.c\<close> and \<open>bot/include/linked_list.h\<close>: the intrusive
  doubly linked list. A \<open>LinkedListItem_t\<close> is embedded at the start of every
  client structure; \<open>payload\<close> stands for the rest of that structure. List
  objects and items live in two maps of the store. The representation predicate
  \<open>ll_rep\<close> relates a list object to the sequence of its items; every operation is
  proved against it.
\<close>

section \<open>Data\<close>

record 'a LinkedListItem_t =
  prev :: ptr
  "next" :: ptr
  list :: ptr
  payload :: 'a

record LinkedList_t =
  head :: ptr
  tail :: ptr
  mutex :: bool   \<comment> \<open>held or not\<close>

record 'a ll_store =
  items :: "addr \<rightharpoonup> 'a LinkedListItem_t"
  lists :: "addr \<rightharpoonup> LinkedList_t"

datatype LinkedListLoc_t = AT_HEAD | AT_TAIL

section \<open>Memory access\<close>

text \<open>
  \<open>rd_item s p\<close> and \<open>rd_list s p\<close> read through a pointer, \<open>wr_item\<close> and
  \<open>wr_list\<close> update the object it points to; all fail on \<open>NULL\<close> and on memory
  that is not allocated.
\<close>

definition rd_item :: "'a ll_store \<Rightarrow> ptr \<Rightarrow> 'a LinkedListItem_t option" where
  "rd_item s p = Option.bind p (items s)"

definition rd_list :: "'a ll_store \<Rightarrow> ptr \<Rightarrow> LinkedList_t option" where
  "rd_list s p = Option.bind p (lists s)"

definition wr_item :: "ptr \<Rightarrow> ('a LinkedListItem_t \<Rightarrow> 'a LinkedListItem_t) \<Rightarrow> 'a ll_store \<Rightarrow> 'a ll_store option" where
  "wr_item p f s = do { a \<leftarrow> p; n \<leftarrow> items s a; Some (s\<lparr>items := (items s)(a \<mapsto> f n)\<rparr>) }"

definition wr_list :: "ptr \<Rightarrow> (LinkedList_t \<Rightarrow> LinkedList_t) \<Rightarrow> 'a ll_store \<Rightarrow> 'a ll_store option" where
  "wr_list p f s = do { a \<leftarrow> p; l \<leftarrow> lists s a; Some (s\<lparr>lists := (lists s)(a \<mapsto> f l)\<rparr>) }"

section \<open>Operations\<close>

text \<open>
  The mutex is an ordinary one: locking it while it is held never returns for the
  thread that holds it, so \<open>LinkedListLock\<close> on a held mutex is \<open>None\<close> for the
  single thread modelled here.
\<close>

definition LinkedListLock :: "ptr \<Rightarrow> 'a ll_store \<Rightarrow> 'a ll_store option" where
  "LinkedListLock lst s =
     (if lst = None then Some s
      else do {
        l \<leftarrow> rd_list s lst;
        if mutex l then None else wr_list lst (\<lambda>l. l\<lparr>mutex := True\<rparr>) s
      })"

definition LinkedListUnlock :: "ptr \<Rightarrow> 'a ll_store \<Rightarrow> 'a ll_store option" where
  "LinkedListUnlock lst s =
     (if lst = None then Some s else wr_list lst (\<lambda>l. l\<lparr>mutex := False\<rparr>) s)"

text \<open>\<open>mem\<close> is the result of \<open>malloc\<close>: \<open>None\<close>, or an address that is not allocated.\<close>

definition LinkedListCreate :: "ptr \<Rightarrow> 'a ll_store \<Rightarrow> ptr \<times> 'a ll_store" where
  "LinkedListCreate mem s =
     (case mem of
        None \<Rightarrow> (None, s)
      | Some a \<Rightarrow> (Some a, s\<lparr>lists := (lists s)(a \<mapsto> \<lparr>head = None, tail = None, mutex = False\<rparr>)\<rparr>))"

definition LinkedListDestroy :: "ptr \<Rightarrow> 'a ll_store \<Rightarrow> 'a ll_store option" where
  "LinkedListDestroy lst s = do {
     a \<leftarrow> lst;
     _ \<leftarrow> lists s a;
     Some (s\<lparr>lists := (lists s)(a := None)\<rparr>)
   }"

definition LinkedListAdd ::
    "ptr \<Rightarrow> ptr \<Rightarrow> Locked_t \<Rightarrow> LinkedListLoc_t \<Rightarrow> 'a ll_store \<Rightarrow> 'a ll_store option" where
  "LinkedListAdd lst item locked location s =
     (if item = None \<or> lst = None then Some s
      else do {
        s \<leftarrow> (if locked = UNLOCKED then LinkedListLock lst s else Some s);
        s \<leftarrow> wr_item item (\<lambda>i. i\<lparr>list := lst\<rparr>) s;
        l \<leftarrow> rd_list s lst;
        s \<leftarrow> (if location = AT_HEAD
              then do {
                s \<leftarrow> wr_item item (\<lambda>i. i\<lparr>prev := None\<rparr>) s;
                s \<leftarrow> wr_item item (\<lambda>i. i\<lparr>next := head l\<rparr>) s;
                wr_list lst (\<lambda>l. l\<lparr>head := item\<rparr>) s
              }
              else do {
                s \<leftarrow> wr_item item (\<lambda>i. i\<lparr>prev := tail l\<rparr>) s;
                s \<leftarrow> wr_item item (\<lambda>i. i\<lparr>next := None\<rparr>) s;
                wr_list lst (\<lambda>l. l\<lparr>tail := item\<rparr>) s
              });
        i \<leftarrow> rd_item s item;
        s \<leftarrow> (if next i \<noteq> None then wr_item (next i) (\<lambda>j. j\<lparr>prev := item\<rparr>) s else Some s);
        i \<leftarrow> rd_item s item;
        s \<leftarrow> (if prev i \<noteq> None then wr_item (prev i) (\<lambda>j. j\<lparr>next := item\<rparr>) s else Some s);
        l \<leftarrow> rd_list s lst;
        s \<leftarrow> (if head l = None then wr_list lst (\<lambda>l. l\<lparr>head := item\<rparr>) s else Some s);
        l \<leftarrow> rd_list s lst;
        s \<leftarrow> (if tail l = None then wr_list lst (\<lambda>l. l\<lparr>tail := item\<rparr>) s else Some s);
        if locked = UNLOCKED then LinkedListUnlock lst s else Some s
      })"

definition LinkedListRemove :: "ptr \<Rightarrow> ptr \<Rightarrow> Locked_t \<Rightarrow> 'a ll_store \<Rightarrow> 'a ll_store option" where
  "LinkedListRemove lst item locked s =
     (if item = None \<or> lst = None then Some s
      else do {
        i \<leftarrow> rd_item s item;
        if list i \<noteq> lst then Some s
        else do {
          s \<leftarrow> (if locked = UNLOCKED then LinkedListLock lst s else Some s);
          i \<leftarrow> rd_item s item;
          s \<leftarrow> (if prev i \<noteq> None then wr_item (prev i) (\<lambda>j. j\<lparr>next := next i\<rparr>) s else Some s);
          i \<leftarrow> rd_item s item;
          s \<leftarrow> (if next i \<noteq> None then wr_item (next i) (\<lambda>j. j\<lparr>prev := prev i\<rparr>) s else Some s);
          l \<leftarrow> rd_list s lst;
          i \<leftarrow> rd_item s item;
          s \<leftarrow> (if head l = item then wr_list lst (\<lambda>l. l\<lparr>head := next i\<rparr>) s else Some s);
          l \<leftarrow> rd_list s lst;
          i \<leftarrow> rd_item s item;
          s \<leftarrow> (if tail l = item then wr_list lst (\<lambda>l. l\<lparr>tail := prev i\<rparr>) s else Some s);
          s \<leftarrow> wr_item item (\<lambda>i. i\<lparr>list := None\<rparr>) s;
          if locked = UNLOCKED then LinkedListUnlock lst s else Some s
        }
      })"

lemmas ll_mem = rd_item_def rd_list_def wr_item_def wr_list_def
  LinkedListLock_def LinkedListUnlock_def

section \<open>Representation\<close>

text \<open>
  \<open>dseg h L p xs q\<close>: the items \<open>xs\<close> form a doubly linked segment of list \<open>L\<close>
  whose first item points back to \<open>p\<close> and whose last item points forward to
  \<open>q\<close>.
\<close>

fun dseg :: "(addr \<rightharpoonup> 'a LinkedListItem_t) \<Rightarrow> addr \<Rightarrow> ptr \<Rightarrow> addr list \<Rightarrow> ptr \<Rightarrow> bool" where
  "dseg h L p [] q \<longleftrightarrow> True"
| "dseg h L p (x # xs) q \<longleftrightarrow>
     (\<exists>n. h x = Some n \<and> prev n = p \<and> next n = (if xs = [] then q else hd_opt xs) \<and> list n = Some L) \<and>
     dseg h L (Some x) xs q"

definition ll_rep :: "'a ll_store \<Rightarrow> addr \<Rightarrow> addr list \<Rightarrow> bool" where
  "ll_rep s L xs \<longleftrightarrow> distinct xs \<and> dseg (items s) L None xs None \<and>
     (\<exists>l. lists s L = Some l \<and> head l = hd_opt xs \<and> tail l = last_opt xs)"

definition ll_locked :: "'a ll_store \<Rightarrow> addr \<Rightarrow> bool" where
  "ll_locked s L = (case lists s L of None \<Rightarrow> False | Some l \<Rightarrow> mutex l)"

text \<open>Client data of an item; the list operations never change it.\<close>

definition ll_data :: "'a ll_store \<Rightarrow> addr \<Rightarrow> 'a option" where
  "ll_data s a = map_option payload (items s a)"

lemma dseg_frame:
  "set xs \<inter> A = {} \<Longrightarrow> (\<And>a. a \<notin> A \<Longrightarrow> h' a = h a) \<Longrightarrow> dseg h' L p xs q = dseg h L p xs q"
  by (induction xs arbitrary: p) auto

lemma dseg_upd [simp]: "x \<notin> set xs \<Longrightarrow> dseg (h(x \<mapsto> n)) L p xs q = dseg h L p xs q"
  by (rule dseg_frame [where A = "{x}"]) auto

lemma dseg_append:
  "dseg h L p (xs @ ys) q \<longleftrightarrow>
   dseg h L p xs (if ys = [] then q else hd_opt ys) \<and>
   dseg h L (if xs = [] then p else last_opt xs) ys q"
  by (induction xs arbitrary: p) (auto simp: hd_opt_append last_opt_Cons)

lemma dseg_in:
  "dseg h L p xs q \<Longrightarrow> x \<in> set xs \<Longrightarrow> \<exists>n. h x = Some n \<and> list n = Some L"
  by (induction xs arbitrary: p) auto

text \<open>Redirecting the link of the last item, and of the first one.\<close>

lemma dseg_set_last:
  "dseg h L p (xs @ [x]) q \<Longrightarrow> distinct (xs @ [x]) \<Longrightarrow> h x = Some n \<Longrightarrow>
   dseg (h(x \<mapsto> n\<lparr>next := q'\<rparr>)) L p (xs @ [x]) q'"
  by (auto simp: dseg_append)

lemma dseg_set_first:
  "dseg h L p (x # xs) q \<Longrightarrow> distinct (x # xs) \<Longrightarrow> h x = Some n \<Longrightarrow>
   dseg (h(x \<mapsto> n\<lparr>prev := p'\<rparr>)) L p' (x # xs) q"
  by auto


lemma wr_item_Some:
  "items s a = Some n \<Longrightarrow> wr_item (Some a) f s = Some (s\<lparr>items := (items s)(a \<mapsto> f n)\<rparr>)"
  by (simp add: wr_item_def)

lemma wr_list_Some:
  "lists s a = Some l \<Longrightarrow> wr_list (Some a) f s = Some (s\<lparr>lists := (lists s)(a \<mapsto> f l)\<rparr>)"
  by (simp add: wr_list_def)

section \<open>Adding\<close>

lemma LinkedListAdd_head:
  assumes rep: "ll_rep s L xs" and it: "items s a = Some n" and fresh: "a \<notin> set xs"
    and lk: "locked = LOCKED \<or> \<not> ll_locked s L"
  shows "\<exists>s'. LinkedListAdd (Some L) (Some a) locked AT_HEAD s = Some s' \<and> ll_rep s' L (a # xs)
    \<and> ll_data s' = ll_data s \<and> (\<forall>b. b \<notin> set (a # xs) \<longrightarrow> items s' b = items s b)
    \<and> (\<forall>L'. L' \<noteq> L \<longrightarrow> lists s' L' = lists s L') \<and> ll_locked s' L = ll_locked s L"
proof (cases xs)
  case Nil
  with assms show ?thesis
    by (cases locked)
       (auto simp: ll_rep_def LinkedListAdd_def ll_mem ll_locked_def ll_data_def fun_eq_iff last_opt_def)
next
  case (Cons y ys)
  from rep Cons obtain k l where y: "items s y = Some k" "prev k = None" "next k = hd_opt ys" "list k = Some L"
    and ys: "dseg (items s) L (Some y) ys None"
    and l: "lists s L = Some l" "head l = Some y" "tail l = last_opt (y # ys)"
    and dist: "distinct (y # ys)"
    by (auto simp: ll_rep_def split: if_splits)
  from fresh Cons have ay: "a \<noteq> y" "y \<noteq> a" "a \<notin> set ys" by auto
  from dist have yn: "y \<notin> set ys" by simp
  show ?thesis using lk y ys l ay it yn dist Cons
    by (cases locked)
       (auto simp: ll_rep_def LinkedListAdd_def ll_mem ll_locked_def ll_data_def fun_eq_iff last_opt_def)
qed

lemma LinkedListAdd_tail:
  assumes rep: "ll_rep s L xs" and it: "items s a = Some n" and fresh: "a \<notin> set xs"
    and lk: "locked = LOCKED \<or> \<not> ll_locked s L"
  shows "\<exists>s'. LinkedListAdd (Some L) (Some a) locked AT_TAIL s = Some s' \<and> ll_rep s' L (xs @ [a])
    \<and> ll_data s' = ll_data s \<and> (\<forall>b. b \<notin> set (a # xs) \<longrightarrow> items s' b = items s b)
    \<and> (\<forall>L'. L' \<noteq> L \<longrightarrow> lists s' L' = lists s L') \<and> ll_locked s' L = ll_locked s L"
proof (cases xs rule: rev_cases)
  case Nil
  with assms show ?thesis
    by (auto simp: ll_rep_def LinkedListAdd_def ll_mem ll_locked_def ll_data_def fun_eq_iff last_opt_def)
next
  case (snoc ys y)
  from rep snoc obtain k l where y: "items s y = Some k" "prev k = last_opt ys" "next k = None" "list k = Some L"
    and ys: "dseg (items s) L None ys (Some y)"
    and l: "lists s L = Some l" "head l = hd_opt (ys @ [y])" "tail l = Some y"
    and dist: "distinct (ys @ [y])"
    by (auto simp: ll_rep_def dseg_append split: if_splits)
  from fresh snoc have ay: "a \<noteq> y" "y \<noteq> a" "a \<notin> set ys" by auto
  from dist have yn: "y \<notin> set ys" by simp
  show ?thesis using lk y ys l ay it yn dist snoc
    by (cases locked)
       (auto simp: ll_rep_def LinkedListAdd_def ll_mem ll_locked_def ll_data_def fun_eq_iff
        dseg_append hd_opt_append last_opt_append last_opt_Cons)
qed

section \<open>Removing\<close>

lemma LinkedListRemove_mid:
  assumes rep: "ll_rep s L (ys @ a # zs)" and lk: "locked = LOCKED \<or> \<not> ll_locked s L"
  shows "\<exists>s'. LinkedListRemove (Some L) (Some a) locked s = Some s' \<and> ll_rep s' L (ys @ zs)
    \<and> ll_data s' = ll_data s \<and> (\<exists>n. items s' a = Some n \<and> list n = None)
    \<and> (\<forall>b. b \<notin> set (ys @ a # zs) \<longrightarrow> items s' b = items s b)
    \<and> (\<forall>L'. L' \<noteq> L \<longrightarrow> lists s' L' = lists s L') \<and> ll_locked s' L = ll_locked s L"
proof -
  from rep obtain n l where a: "items s a = Some n" "prev n = last_opt ys" "next n = hd_opt zs" "list n = Some L"
    and ys: "dseg (items s) L None ys (Some a)" and zs: "dseg (items s) L (Some a) zs None"
    and l: "lists s L = Some l" "head l = hd_opt (ys @ [a])" "tail l = last_opt (a # zs)"
    and dist: "distinct (ys @ a # zs)"
    by (auto simp: ll_rep_def dseg_append hd_opt_append last_opt_append split: if_splits)
  show ?thesis
  proof (cases ys rule: rev_cases)
    case Nil
    with lk a ys zs l dist show ?thesis
      by (cases zs; cases locked)
         (auto simp: ll_rep_def LinkedListRemove_def ll_mem ll_locked_def ll_data_def fun_eq_iff
           last_opt_Cons dest: last_opt_SomeD split: if_splits)
  next
    case (snoc us u)
    with lk a ys zs l dist show ?thesis
      by (cases zs; cases locked)
         (auto simp: ll_rep_def LinkedListRemove_def ll_mem ll_locked_def ll_data_def fun_eq_iff
           dseg_append hd_opt_append last_opt_append last_opt_Cons dest: hd_opt_SomeD last_opt_SomeD split: if_splits)
  qed
qed

text \<open>An item that is on no list, or on another one, is left alone.\<close>

lemma LinkedListRemove_foreign:
  "items s a = Some n \<Longrightarrow> list n \<noteq> Some L \<Longrightarrow> LinkedListRemove (Some L) (Some a) locked s = Some s"
  by (simp add: LinkedListRemove_def ll_mem)

lemma ll_rep_distinct: "ll_rep s L xs \<Longrightarrow> distinct xs"
  by (simp add: ll_rep_def)

lemma ll_rep_owner: "ll_rep s L xs \<Longrightarrow> a \<in> set xs \<Longrightarrow> \<exists>n. items s a = Some n \<and> list n = Some L"
  by (auto simp: ll_rep_def dest: dseg_in)

lemma ll_rep_item_iff: "ll_rep s L xs \<Longrightarrow> items s a = Some n \<Longrightarrow> a \<in> set xs \<Longrightarrow> list n = Some L"
  by (auto dest: ll_rep_owner)

lemma LinkedListRemove_rep:
  assumes rep: "ll_rep s L xs" and a: "a \<in> set xs" and lk: "locked = LOCKED \<or> \<not> ll_locked s L"
  shows "\<exists>s'. LinkedListRemove (Some L) (Some a) locked s = Some s' \<and> ll_rep s' L (filter (\<lambda>b. b \<noteq> a) xs)
    \<and> ll_data s' = ll_data s \<and> ll_locked s' L = ll_locked s L"
proof -
  from a obtain ys zs where xs: "xs = ys @ a # zs" by (auto dest: split_list)
  with rep have "a \<notin> set ys" "a \<notin> set zs" by (auto dest: ll_rep_distinct)
  then have "filter (\<lambda>b. b \<noteq> a) xs = ys @ zs" by (simp add: xs filter_neq_id)
  with LinkedListRemove_mid [OF rep [unfolded xs] lk] show ?thesis by auto
qed

section \<open>The list interface\<close>

text \<open>
  What the rest of the program relies on: \<open>rep s L xs\<close> (list object \<open>L\<close> holds the
  items \<open>xs\<close> in order), items can be put at either end and taken out anywhere, and
  client data is not touched. \<open>ready\<close> is the condition on the mutex.
\<close>

locale linked_list =
  fixes rep :: "'s \<Rightarrow> addr \<Rightarrow> addr list \<Rightarrow> bool"
    and data :: "'s \<Rightarrow> addr \<Rightarrow> 'a option"
    and ready :: "'s \<Rightarrow> addr \<Rightarrow> bool"
    and add :: "LinkedListLoc_t \<Rightarrow> addr \<Rightarrow> addr \<Rightarrow> 's \<Rightarrow> 's option"
    and remove :: "addr \<Rightarrow> addr \<Rightarrow> 's \<Rightarrow> 's option"
  assumes add_head: "rep s L xs \<Longrightarrow> ready s L \<Longrightarrow> data s a \<noteq> None \<Longrightarrow> a \<notin> set xs \<Longrightarrow>
      \<exists>s'. add AT_HEAD L a s = Some s' \<and> rep s' L (a # xs) \<and> data s' = data s \<and> ready s' L"
    and add_tail: "rep s L xs \<Longrightarrow> ready s L \<Longrightarrow> data s a \<noteq> None \<Longrightarrow> a \<notin> set xs \<Longrightarrow>
      \<exists>s'. add AT_TAIL L a s = Some s' \<and> rep s' L (xs @ [a]) \<and> data s' = data s \<and> ready s' L"
    and remove: "rep s L xs \<Longrightarrow> ready s L \<Longrightarrow> a \<in> set xs \<Longrightarrow>
      \<exists>s'. remove L a s = Some s' \<and> rep s' L (filter (\<lambda>b. b \<noteq> a) xs) \<and> data s' = data s \<and> ready s' L"
begin

lemma add_all_tail:
  "rep s L xs \<Longrightarrow> ready s L \<Longrightarrow> \<forall>a \<in> set as. data s a \<noteq> None \<Longrightarrow> distinct (xs @ as) \<Longrightarrow>
   \<exists>s'. foldM (add AT_TAIL L) as s = Some s' \<and> rep s' L (xs @ as) \<and> data s' = data s \<and> ready s' L"
proof (induction as arbitrary: s xs)
  case Nil
  then show ?case by simp
next
  case (Cons a as)
  from Cons.prems obtain s' where s': "add AT_TAIL L a s = Some s'" "rep s' L (xs @ [a])" "data s' = data s" "ready s' L"
    using add_tail [of s L xs a] by auto
  with Cons.prems Cons.IH [of s' "xs @ [a]"] show ?case by auto
qed

lemma remove_all:
  "rep s L (as @ xs) \<Longrightarrow> ready s L \<Longrightarrow> distinct (as @ xs) \<Longrightarrow>
   \<exists>s'. foldM (remove L) as s = Some s' \<and> rep s' L xs \<and> data s' = data s \<and> ready s' L"
proof (induction as arbitrary: s)
  case Nil
  then show ?case by simp
next
  case (Cons a as)
  from Cons.prems have "filter (\<lambda>b. b \<noteq> a) ((a # as) @ xs) = as @ xs"
    by (auto simp: filter_neq_id)
  with Cons.prems remove [of s L "(a # as) @ xs" a] obtain s' where
    "remove L a s = Some s'" "rep s' L (as @ xs)" "data s' = data s" "ready s' L" by auto
  with Cons.prems Cons.IH [of s'] show ?case by auto
qed

lemma remove_some:
  "rep s L xs \<Longrightarrow> ready s L \<Longrightarrow> set bs \<subseteq> set xs \<Longrightarrow> distinct bs \<Longrightarrow>
   \<exists>s'. foldM (remove L) bs s = Some s' \<and> rep s' L (filter (\<lambda>a. a \<notin> set bs) xs) \<and> data s' = data s \<and> ready s' L"
proof (induction bs arbitrary: s xs)
  case (Cons b bs)
  then obtain s1 where s1: "remove L b s = Some s1" "rep s1 L (filter (\<lambda>a. a \<noteq> b) xs)" "data s1 = data s" "ready s1 L"
    using remove [of s L xs b] by auto
  with Cons.prems have "set bs \<subseteq> set (filter (\<lambda>a. a \<noteq> b) xs)" by auto
  with Cons.IH [OF s1(2,4)] Cons.prems s1 show ?case by (auto simp: conj_commute)
qed simp

lemma add_remove:
  assumes "rep s L xs" "ready s L" "data s a \<noteq> None" "a \<notin> set xs"
  shows "\<exists>s1 s2. add loc L a s = Some s1 \<and> remove L a s1 = Some s2 \<and> rep s2 L xs \<and> data s2 = data s"
proof -
  obtain s1 ys where s1: "add loc L a s = Some s1" "rep s1 L ys" "data s1 = data s" "ready s1 L"
    and ys: "a \<in> set ys" "filter (\<lambda>b. b \<noteq> a) ys = xs"
    using assms add_head [of s L xs a] add_tail [of s L xs a]
    by (cases loc) (auto simp: filter_neq_id)
  from remove [OF s1(2,4) ys(1)] s1 ys show ?thesis by auto
qed

end

interpretation ll: linked_list ll_rep ll_data "\<lambda>s L. \<not> ll_locked s L"
  "\<lambda>loc L a. LinkedListAdd (Some L) (Some a) UNLOCKED loc" "\<lambda>L a. LinkedListRemove (Some L) (Some a) UNLOCKED"
proof
  fix s :: "'a ll_store" and L xs a
  assume "ll_rep s L xs" "\<not> ll_locked s L" "ll_data s a \<noteq> None" "a \<notin> set xs"
  then show "\<exists>s'. LinkedListAdd (Some L) (Some a) UNLOCKED AT_HEAD s = Some s' \<and> ll_rep s' L (a # xs) \<and>
      ll_data s' = ll_data s \<and> \<not> ll_locked s' L"
    and "\<exists>s'. LinkedListAdd (Some L) (Some a) UNLOCKED AT_TAIL s = Some s' \<and> ll_rep s' L (xs @ [a]) \<and>
      ll_data s' = ll_data s \<and> \<not> ll_locked s' L"
    using LinkedListAdd_head [of s L xs a _ UNLOCKED] LinkedListAdd_tail [of s L xs a _ UNLOCKED]
    by (fastforce simp: ll_data_def)+
next
  fix s :: "'a ll_store" and L xs a
  assume "ll_rep s L xs" "\<not> ll_locked s L" "a \<in> set xs"
  then show "\<exists>s'. LinkedListRemove (Some L) (Some a) UNLOCKED s = Some s' \<and> ll_rep s' L (filter (\<lambda>b. b \<noteq> a) xs) \<and>
      ll_data s' = ll_data s \<and> \<not> ll_locked s' L"
    using LinkedListRemove_rep [of s L xs a UNLOCKED] by auto
qed

interpretation ll_held: linked_list ll_rep ll_data "\<lambda>s L. True"
  "\<lambda>loc L a. LinkedListAdd (Some L) (Some a) LOCKED loc" "\<lambda>L a. LinkedListRemove (Some L) (Some a) LOCKED"
proof
  fix s :: "'a ll_store" and L xs a
  assume "ll_rep s L xs" "ll_data s a \<noteq> None" "a \<notin> set xs"
  then show "\<exists>s'. LinkedListAdd (Some L) (Some a) LOCKED AT_HEAD s = Some s' \<and> ll_rep s' L (a # xs) \<and>
      ll_data s' = ll_data s \<and> True"
    and "\<exists>s'. LinkedListAdd (Some L) (Some a) LOCKED AT_TAIL s = Some s' \<and> ll_rep s' L (xs @ [a]) \<and>
      ll_data s' = ll_data s \<and> True"
    using LinkedListAdd_head [of s L xs a _ LOCKED] LinkedListAdd_tail [of s L xs a _ LOCKED]
    by (fastforce simp: ll_data_def)+
next
  fix s :: "'a ll_store" and L xs a
  assume "ll_rep s L xs" "a \<in> set xs"
  then show "\<exists>s'. LinkedListRemove (Some L) (Some a) LOCKED s = Some s' \<and> ll_rep s' L (filter (\<lambda>b. b \<noteq> a) xs) \<and>
      ll_data s' = ll_data s \<and> True"
    using LinkedListRemove_rep [of s L xs a LOCKED] by auto
qed

section \<open>Properties\<close>

text \<open>Adding an item to a linked list at either end and removing it again gives back the
  old list with the item detached.\<close>

theorem list_add_remove:
  assumes "ll_rep s L xs" "\<not> ll_locked s L" "\<forall>a \<in> set as. ll_data s a \<noteq> None" "distinct (xs @ as)" "set bs = set as" "distinct bs"
  shows "\<exists>s1 s2. foldM (\<lambda>a. LinkedListAdd (Some L) (Some a) UNLOCKED AT_TAIL) as s = Some s1 \<and> ll_rep s1 L (xs @ as) \<and>
    foldM (\<lambda>a. LinkedListRemove (Some L) (Some a) UNLOCKED) bs s1 = Some s2 \<and> ll_rep s2 L xs \<and>
    ll_data s2 = ll_data s \<and> \<not> ll_locked s2 L"
proof -
  from ll.add_all_tail [OF assms(1-4)] obtain s1 where s1: "foldM (\<lambda>a. LinkedListAdd (Some L) (Some a) UNLOCKED AT_TAIL) as s = Some s1"
    "ll_rep s1 L (xs @ as)" "ll_data s1 = ll_data s" "\<not> ll_locked s1 L" by blast
  have "filter (\<lambda>a. a \<notin> set bs) (xs @ as) = xs"
    using assms(4,5) by (auto simp: filter_id_conv filter_empty_conv)
  with ll.remove_some [OF s1(2,4), of bs] assms(5,6) s1 show ?thesis by auto
qed

text \<open>A list object with no items, and two items in memory.\<close>

definition example_store :: "nat ll_store" where
  "example_store = \<lparr>items = [1 \<mapsto> \<lparr>prev = None, next = None, list = None, payload = 10\<rparr>,
       2 \<mapsto> \<lparr>prev = None, next = None, list = None, payload = 20\<rparr>],
     lists = [7 \<mapsto> \<lparr>head = None, tail = None, mutex = False\<rparr>]\<rparr>"

lemma list_add_remove_witness:
  "\<exists>s1 s2. foldM (\<lambda>a. LinkedListAdd (Some 7) (Some a) UNLOCKED AT_TAIL) [1, 2] example_store = Some s1 \<and> ll_rep s1 7 ([] @ [1, 2]) \<and>
    foldM (\<lambda>a. LinkedListRemove (Some 7) (Some a) UNLOCKED) [2, 1] s1 = Some s2 \<and> ll_rep s2 7 [] \<and>
    ll_data s2 = ll_data example_store \<and> \<not> ll_locked s2 7"
  by (rule list_add_remove) (auto simp: example_store_def ll_rep_def ll_locked_def ll_data_def)

end
