(* ===== verification/CString.thy ===== *)
theory CString
  imports Prelude
begin

text \<open>
  The C strings the program handles, as lists of characters without a NUL. Buffers have
  a size; what does not fit is cut, as the standard library does. Also the string
  routines of \<open>botnet-1.6.4/makelib/utils.c\<close> that the bot relies on.
\<close>

definition MAX_STRING_LENGTH :: nat where
  "MAX_STRING_LENGTH = 1024"

text \<open>\<open>snprintf(buf, n, ...)\<close>: at most \<open>n - 1\<close> characters.\<close>

definition snprintf :: "nat \<Rightarrow> string \<Rightarrow> string" where
  "snprintf n s = take (n - 1) s"

text \<open>\<open>%s\<close> of a \<open>NULL\<close> pointer, as glibc prints it.\<close>

definition fmt_s :: "string option \<Rightarrow> string" where
  "fmt_s s = (case s of None \<Rightarrow> ''(null)'' | Some s \<Rightarrow> s)"

text \<open>\<open>strncpy(dst, src, n - 1); dst[n - 1] = 0\<close>.\<close>

definition strncpy0 :: "nat \<Rightarrow> string \<Rightarrow> string" where
  "strncpy0 n s = take (n - 1) s"

fun strchr :: "char \<Rightarrow> string \<Rightarrow> nat option" where
  "strchr c [] = None"
| "strchr c (x # xs) = (if x = c then Some 0 else map_option Suc (strchr c xs))"

lemma strchr_Some: "strchr c s = Some n \<Longrightarrow> n < length s \<and> s ! n = c \<and> c \<notin> set (take n s)"
  by (induction s arbitrary: n) (auto split: if_splits)

lemma strchr_None: "strchr c s = None \<longleftrightarrow> c \<notin> set s"
  by (induction s) auto

lemma strchr_append: "c \<notin> set xs \<Longrightarrow> strchr c (xs @ c # ys) = Some (length xs)"
  by (induction xs) auto

fun is_prefix :: "string \<Rightarrow> string \<Rightarrow> bool" where
  "is_prefix [] ys = True"
| "is_prefix (x # xs) [] = False"
| "is_prefix (x # xs) (y # ys) = (x = y \<and> is_prefix xs ys)"

text \<open>\<open>strstr(hay, needle)\<close> as the rest of \<open>hay\<close> from the first match.\<close>

fun strstr :: "string \<Rightarrow> string \<Rightarrow> string option" where
  "strstr [] needle = (if needle = [] then Some [] else None)"
| "strstr (x # xs) needle = (if is_prefix needle (x # xs) then Some (x # xs) else strstr xs needle)"

lemma is_prefix_iff: "is_prefix xs ys \<longleftrightarrow> (\<exists>zs. ys = xs @ zs)"
  by (induction xs ys rule: is_prefix.induct) auto

lemma strstr_Some: "strstr s n = Some r \<Longrightarrow> \<exists>pre post. s = pre @ r \<and> r = n @ post"
proof (induction s n rule: strstr.induct)
  case (2 x xs needle)
  then show ?case
  proof (cases "is_prefix needle (x # xs)")
    case True
    with 2 show ?thesis by (auto simp: is_prefix_iff)
  next
    case False
    with 2 obtain pre post where "xs = pre @ r" "r = needle @ post" by auto
    then have "x # xs = (x # pre) @ r" by simp
    with \<open>r = needle @ post\<close> show ?thesis by blast
  qed
qed (auto split: if_splits)

text \<open>\<open>BN_MakeMessage\<close>; \<open>None\<close> when a \<open>NULL\<close> is passed to \<open>strlen\<close>.\<close>

definition CRLF :: string where "CRLF = [CHR 0x0D, CHR 0x0A]"

definition BN_MakeMessage :: "string option \<Rightarrow> string \<Rightarrow> string option \<Rightarrow> string option" where
  "BN_MakeMessage prefix cmd params =
     (case params of
        None \<Rightarrow> None
      | Some ps \<Rightarrow> Some ((case prefix of None \<Rightarrow> [] | Some p \<Rightarrow> '':'' @ p @ '' '') @ cmd @ '' '' @ ps @ CRLF))"

text \<open>
  \<open>BN_ExtractNick(prefix, nick, len)\<close>: the part before the first \<open>!\<close>, at most
  \<open>len - 1\<close> characters. With \<open>len = 0\<close> the cut is at \<open>-1\<close>, a write before the
  buffer: \<open>None\<close>.
\<close>

definition BN_ExtractNick :: "string option \<Rightarrow> nat \<Rightarrow> string option" where
  "BN_ExtractNick prefix len =
     (case prefix of
        None \<Rightarrow> (if len = 0 then None else Some [])
      | Some s \<Rightarrow>
          let p = (case strchr (CHR ''!'') s of None \<Rightarrow> length s | Some n \<Rightarrow> n) in
          if p \<ge> len then (if len = 0 then None else Some (take (len - 1) s)) else Some (take p s))"

lemma BN_ExtractNick_mask:
  "CHR ''!'' \<notin> set nick \<Longrightarrow> length nick < len \<Longrightarrow> BN_ExtractNick (Some (nick @ ''!'' @ rest)) len = Some nick"
  by (simp add: BN_ExtractNick_def Let_def strchr_append)

lemma BN_ExtractNick_plain:
  "CHR ''!'' \<notin> set nick \<Longrightarrow> length nick < len \<Longrightarrow> BN_ExtractNick (Some nick) len = Some nick"
  using strchr_None [of "CHR ''!''" nick] by (simp add: BN_ExtractNick_def)

text \<open>\<open>toupper\<close> in the C locale; decimal output of \<open>%d\<close>.\<close>

definition toupper :: "char \<Rightarrow> char" where
  "toupper c = (if 97 \<le> (of_char c :: nat) \<and> (of_char c :: nat) \<le> 122 then char_of ((of_char c :: nat) - 32) else c)"

fun nat_digits :: "nat \<Rightarrow> string" where
  "nat_digits n = (if n < 10 then [char_of (48 + n)] else nat_digits (n div 10) @ [char_of (48 + n mod 10)])"

declare nat_digits.simps [simp del]

definition fmt_d :: "int \<Rightarrow> string" where
  "fmt_d i = (if i < 0 then ''-'' @ nat_digits (nat (- i)) else nat_digits (nat i))"

definition isdigit :: "char \<Rightarrow> bool" where
  "isdigit c \<longleftrightarrow> 48 \<le> (of_char c :: nat) \<and> (of_char c :: nat) \<le> 57"

fun dec_value :: "nat \<Rightarrow> string \<Rightarrow> nat" where
  "dec_value acc [] = acc"
| "dec_value acc (c # cs) = (if isdigit c then dec_value (acc * 10 + (of_char c - 48)) cs else acc)"

definition isspace :: "char \<Rightarrow> bool" where
  "isspace c \<longleftrightarrow> of_char c = (32::nat) \<or> (9 \<le> (of_char c :: nat) \<and> (of_char c :: nat) \<le> 13)"

text \<open>\<open>atoi\<close>: blanks, a sign, digits; anything else ends the number.\<close>

definition atoi :: "string \<Rightarrow> int" where
  "atoi s =
     (case dropWhile isspace s of
        [] \<Rightarrow> 0
      | c # cs \<Rightarrow>
          if c = CHR ''-'' then - int (dec_value 0 cs)
          else if c = CHR ''+'' then int (dec_value 0 cs)
          else int (dec_value 0 (c # cs)))"

lemma of_char_digit: "n < 10 \<Longrightarrow> of_char (char_of (48 + n) :: char) = 48 + (n :: nat)"
  by simp

lemma dec_value_digits:
  "dec_value acc (nat_digits n @ cs) = dec_value (acc * 10 ^ length (nat_digits n) + n) cs"
proof (induction n arbitrary: acc cs rule: nat_digits.induct)
  case (1 n)
  show ?case
  proof (cases "n < 10")
    case True
    then show ?thesis by (simp add: nat_digits.simps [of n] isdigit_def)
  next
    case False
    then have d: "n mod 10 < 10" by simp
    then have d9: "n mod 10 \<le> 9" by linarith
    have "dec_value acc (nat_digits n @ cs) =
        dec_value (acc * 10 ^ length (nat_digits (n div 10)) + n div 10) (char_of (48 + n mod 10) # cs)"
      using False 1 [of acc "char_of (48 + n mod 10) # cs"] by (subst nat_digits.simps) simp
    also have "\<dots> = dec_value ((acc * 10 ^ length (nat_digits (n div 10)) + n div 10) * 10 + n mod 10) cs"
      using of_char_digit [OF d] d9 by (simp add: isdigit_def)
    also have "(acc * 10 ^ length (nat_digits (n div 10)) + n div 10) * 10 + n mod 10 = acc * 10 ^ length (nat_digits n) + n"
      using False by (subst (2) nat_digits.simps) (simp add: algebra_simps)
    finally show ?thesis .
  qed
qed

lemma nat_digits_nonempty: "nat_digits n \<noteq> []"
  by (subst nat_digits.simps) simp

lemma nat_digits_isdigit: "c \<in> set (nat_digits n) \<Longrightarrow> isdigit c"
proof (induction n rule: nat_digits.induct)
  case (1 n)
  then show ?case
    by (subst (asm) (2) nat_digits.simps) (auto simp: isdigit_def split: if_splits)
qed

text \<open>Printing an integer and reading it back.\<close>

lemma atoi_fmt_d: "atoi (fmt_d i) = i"
proof -
  have nd: "atoi (nat_digits n) = int n" for n
  proof -
    obtain c cs where c: "nat_digits n = c # cs" using nat_digits_nonempty by (cases "nat_digits n") auto
    then have d: "isdigit c" using nat_digits_isdigit [of c n] by simp
    then have "\<not> isspace c" "c \<noteq> CHR ''-''" "c \<noteq> CHR ''+''" by (auto simp: isdigit_def isspace_def)
    moreover have "dec_value 0 (nat_digits n) = n" using dec_value_digits [of 0 n "[]"] by simp
    ultimately show ?thesis using c by (simp add: atoi_def)
  qed
  show ?thesis
  proof (cases "i < 0")
    case True
    have "dec_value 0 (nat_digits (nat (- i))) = nat (- i)" using dec_value_digits [of 0 "nat (- i)" "[]"] by simp
    with True show ?thesis by (simp add: fmt_d_def atoi_def isspace_def)
  next
    case False
    with nd [of "nat i"] show ?thesis by (simp add: fmt_d_def)
  qed
qed

text \<open>\<open>%06d\<close> of a number that is not negative.\<close>

definition fmt_06 :: "int \<Rightarrow> string" where
  "fmt_06 i = replicate (6 - length (fmt_d i)) (CHR ''0'') @ fmt_d i"

end
