(* ===== verification/Transmit.thy ===== *)
theory Transmit
  imports LinkedList RingQueue CString
begin

text \<open>
  \<open>bot/src/transmit.c\<close>: the thread that sends what the bot says. Each server has a
  queue of messages and a flood list, the sizes and expiry times of what was sent
  lately; before sending, the thread waits until the new message fits into the server's
  flood buffer.
\<close>

section \<open>Data\<close>

datatype TxType_t = TX_NOTICE | TX_MESSAGE | TX_ACTION | TX_PRIVMSG | TX_JOIN | TX_PASSWORD
  | TX_NICK | TX_REGISTER | TX_WHO | TX_QUIT | TX_PART

record TransmitItem_t =
  tx_type :: TxType_t
  tx_channel :: "string option"
  tx_message :: "string option"

text \<open>The client part of \<open>FloodListItem_t\<close>; the linkage is the list item around it.\<close>

record FloodListItem_t =
  timeWake :: int
  bytes :: int

text \<open>The fields of \<open>IRCServer_t\<close> that the thread uses.\<close>

record TxServer =
  floodMaxTime :: int
  floodInterval :: int
  floodBuffer :: int
  floodList :: addr
  ircNick :: string

section \<open>The flood list\<close>

type_synonym flood_store = "FloodListItem_t ll_store"

definition free_item :: "ptr \<Rightarrow> 'a ll_store \<Rightarrow> 'a ll_store option" where
  "free_item p s = do { a \<leftarrow> p; _ \<leftarrow> items s a; Some (s\<lparr>items := (items s)(a := None)\<rparr>) }"

partial_function (option) floodSize_loop :: "ptr \<Rightarrow> int \<Rightarrow> flood_store \<Rightarrow> int option" where
  "floodSize_loop it tot s =
     (if it = None then Some tot
      else do { i \<leftarrow> rd_item s it; floodSize_loop (next i) (tot + bytes (payload i)) s })"

definition floodSize :: "addr \<Rightarrow> flood_store \<Rightarrow> (int \<times> flood_store) option" where
  "floodSize L s = do {
     s \<leftarrow> LinkedListLock (Some L) s;
     l \<leftarrow> rd_list s (Some L);
     tot \<leftarrow> floodSize_loop (head l) 0 s;
     s \<leftarrow> LinkedListUnlock (Some L) s;
     Some (tot, s)
   }"

partial_function (option) floodReady_loop :: "ptr \<Rightarrow> bool \<Rightarrow> int \<Rightarrow> int \<Rightarrow> flood_store \<Rightarrow> int option" where
  "floodReady_loop it found tm need s =
     (if it = None \<or> found then Some tm
      else do {
        i \<leftarrow> rd_item s it;
        floodReady_loop (next i) (bytes (payload i) \<ge> need) (timeWake (payload i)) (need - bytes (payload i)) s
      })"

definition floodReady :: "addr \<Rightarrow> int \<Rightarrow> int \<Rightarrow> flood_store \<Rightarrow> (int \<times> flood_store) option" where
  "floodReady L now need s = do {
     s \<leftarrow> LinkedListLock (Some L) s;
     l \<leftarrow> rd_list s (Some L);
     tm \<leftarrow> floodReady_loop (head l) False now need s;
     s \<leftarrow> LinkedListUnlock (Some L) s;
     Some (tm, s)
   }"

partial_function (option) floodCleanup_loop :: "addr \<Rightarrow> int \<Rightarrow> ptr \<Rightarrow> ptr \<Rightarrow> flood_store \<Rightarrow> flood_store option" where
  "floodCleanup_loop L now prv it s =
     (if it = None then Some s
      else do {
        i \<leftarrow> rd_item s it;
        (it, s) \<leftarrow>
          (if timeWake (payload i) \<le> now then do {
             s \<leftarrow> LinkedListRemove (Some L) it LOCKED s;
             s \<leftarrow> free_item it s;
             Some (prv, s)
           } else Some (it, s));
        nxt \<leftarrow> (if it \<noteq> None then do { j \<leftarrow> rd_item s it; Some (next j) }
               else do { l \<leftarrow> rd_list s (Some L); Some (head l) });
        floodCleanup_loop L now it nxt s
      })"

definition floodCleanup :: "addr \<Rightarrow> int \<Rightarrow> flood_store \<Rightarrow> flood_store option" where
  "floodCleanup L now s = do {
     s \<leftarrow> LinkedListLock (Some L) s;
     l \<leftarrow> rd_list s (Some L);
     s \<leftarrow> floodCleanup_loop L now None (head l) s;
     LinkedListUnlock (Some L) s
   }"

declare floodSize_loop.simps [code] floodReady_loop.simps [code] floodCleanup_loop.simps [code]

section \<open>The flood list as a sequence\<close>

definition flood_of :: "flood_store \<Rightarrow> addr list \<Rightarrow> FloodListItem_t list" where
  "flood_of s xs = map (\<lambda>a. the (ll_data s a)) xs"

definition flood_rep :: "flood_store \<Rightarrow> addr \<Rightarrow> FloodListItem_t list \<Rightarrow> bool" where
  "flood_rep s L fs \<longleftrightarrow> (\<exists>xs. ll_rep s L xs \<and> fs = flood_of s xs)"

definition flood_bytes :: "FloodListItem_t list \<Rightarrow> int" where
  "flood_bytes fs = sum_list (map bytes fs)"

fun flood_ready :: "int \<Rightarrow> int \<Rightarrow> FloodListItem_t list \<Rightarrow> int" where
  "flood_ready tm need [] = tm"
| "flood_ready tm need (f # fs) =
     (if bytes f \<ge> need then timeWake f else flood_ready (timeWake f) (need - bytes f) fs)"

definition flood_active :: "int \<Rightarrow> FloodListItem_t list \<Rightarrow> FloodListItem_t list" where
  "flood_active now fs = filter (\<lambda>f. timeWake f > now) fs"

lemma ll_next:
  "dseg (items s) L p (a # xs) None \<Longrightarrow> \<exists>n. items s a = Some n \<and> next n = hd_opt xs \<and> ll_data s a = Some (payload n)"
  by (auto simp: ll_data_def)

lemma floodSize_loop_rep:
  "dseg (items s) L p xs None \<Longrightarrow> floodSize_loop (hd_opt xs) t s = Some (t + flood_bytes (flood_of s xs))"
proof (induction xs arbitrary: p t)
  case Nil
  show ?case by (subst floodSize_loop.simps) (simp add: flood_bytes_def flood_of_def)
next
  case (Cons a xs)
  from ll_next [OF Cons.prems] obtain n where "items s a = Some n" "next n = hd_opt xs" "ll_data s a = Some (payload n)" by blast
  with Cons.IH [of "Some a"] Cons.prems show ?case
    by (subst floodSize_loop.simps) (simp add: flood_bytes_def flood_of_def rd_item_def)
qed

lemma floodReady_loop_found: "floodReady_loop it True tm need s = Some tm"
  by (subst floodReady_loop.simps) simp

lemma floodReady_loop_rep:
  "dseg (items s) L p xs None \<Longrightarrow> floodReady_loop (hd_opt xs) False tm need s = Some (flood_ready tm need (flood_of s xs))"
proof (induction xs arbitrary: p tm need)
  case Nil
  show ?case by (subst floodReady_loop.simps) (simp add: flood_of_def)
next
  case (Cons a xs)
  from ll_next [OF Cons.prems] obtain n where n: "items s a = Some n" "next n = hd_opt xs" "ll_data s a = Some (payload n)" by blast
  show ?case
  proof (cases "bytes (payload n) \<ge> need")
    case True
    with n show ?thesis by (subst floodReady_loop.simps) (simp add: flood_of_def rd_item_def floodReady_loop_found)
  next
    case False
    with n Cons.IH [of "Some a"] Cons.prems show ?thesis
      by (subst floodReady_loop.simps) (simp add: flood_of_def rd_item_def)
  qed
qed

lemma free_item_rep:
  assumes "ll_rep s L xs" "items s a = Some n" "a \<notin> set xs"
  shows "\<exists>s'. free_item (Some a) s = Some s' \<and> ll_rep s' L xs \<and> ll_locked s' L = ll_locked s L \<and>
    (\<forall>b. b \<noteq> a \<longrightarrow> ll_data s' b = ll_data s b)"
proof -
  have "dseg ((items s)(a := None)) L None xs None"
    using assms by (subst dseg_frame [of xs "{a}" _ "items s"]) (auto simp: ll_rep_def)
  with assms show ?thesis
    by (auto simp: free_item_def ll_rep_def ll_locked_def ll_data_def)
qed

lemma ll_rep_head: "ll_rep s L xs \<Longrightarrow> \<exists>l. rd_list s (Some L) = Some l \<and> head l = hd_opt xs"
  by (auto simp: ll_rep_def rd_list_def)

lemma ll_rep_next: "ll_rep s L (ys @ a # zs) \<Longrightarrow> \<exists>n. items s a = Some n \<and> next n = hd_opt zs \<and> ll_data s a = Some (payload n)"
  unfolding ll_rep_def dseg_append using ll_next [of s L _ a zs] by auto

definition keep :: "flood_store \<Rightarrow> int \<Rightarrow> addr list \<Rightarrow> addr list" where
  "keep s now xs = filter (\<lambda>a. timeWake (the (ll_data s a)) > now) xs"

lemma keep_cong: "(\<And>b. b \<in> set xs \<Longrightarrow> ll_data s' b = ll_data s b) \<Longrightarrow> keep s' now xs = keep s now xs"
  by (auto simp: keep_def intro: filter_cong)

lemma floodCleanup_loop_rep:
  "ll_rep s L (ds0 @ rest) \<Longrightarrow>
   \<exists>s'. floodCleanup_loop L now (last_opt ds0) (hd_opt rest) s = Some s' \<and> ll_rep s' L (ds0 @ keep s now rest) \<and>
     ll_locked s' L = ll_locked s L \<and> (\<forall>b \<in> set (ds0 @ keep s now rest). ll_data s' b = ll_data s b) \<and>
     (\<forall>b. ll_data s b = None \<longrightarrow> ll_data s' b = None)"
proof (induction rest arbitrary: ds0 s)
  case Nil
  then show ?case by (subst floodCleanup_loop.simps) (simp add: keep_def)
next
  case (Cons a rest)
  from ll_rep_next [OF Cons.prems] obtain n where n: "items s a = Some n" "next n = hd_opt rest" "ll_data s a = Some (payload n)" by blast
  have da: "a \<notin> set (ds0 @ rest)" "distinct (ds0 @ a # rest)" using ll_rep_distinct [OF Cons.prems] by auto
  show ?case
  proof (cases "timeWake (payload n) \<le> now")
    case True
    from LinkedListRemove_mid [OF Cons.prems, of LOCKED] obtain s1 n1 where
      s1: "LinkedListRemove (Some L) (Some a) LOCKED s = Some s1" "ll_rep s1 L (ds0 @ rest)" "ll_data s1 = ll_data s"
        "items s1 a = Some n1" "ll_locked s1 L = ll_locked s L" by auto
    from free_item_rep [OF s1(2,4) da(1)] obtain s2 where
      s2: "free_item (Some a) s1 = Some s2" "ll_rep s2 L (ds0 @ rest)" "ll_locked s2 L = ll_locked s1 L"
        "\<forall>b. b \<noteq> a \<longrightarrow> ll_data s2 b = ll_data s1 b" by blast
    have nx: "(if last_opt ds0 \<noteq> None then do { j \<leftarrow> rd_item s2 (last_opt ds0); Some (next j) }
               else do { l \<leftarrow> rd_list s2 (Some L); Some (head l) }) = Some (hd_opt rest)"
    proof (cases ds0 rule: rev_cases)
      case Nil
      with ll_rep_head [OF s2(2)] show ?thesis by auto
    next
      case (snoc ds d)
      with s2(2) have "ll_rep s2 L (ds @ d # rest)" by simp
      from ll_rep_next [OF this] snoc show ?thesis by (auto simp: rd_item_def)
    qed
    have kp: "keep s2 now rest = keep s now rest" using s2(4) s1(3) da by (intro keep_cong) auto
    have kc: "keep s now (a # rest) = keep s now rest" using True n by (simp add: keep_def)
    from Cons.IH [OF s2(2)] obtain s' where
      s': "floodCleanup_loop L now (last_opt ds0) (hd_opt rest) s2 = Some s'" "ll_rep s' L (ds0 @ keep s now rest)"
        "ll_locked s' L = ll_locked s2 L" "\<forall>b \<in> set (ds0 @ keep s now rest). ll_data s' b = ll_data s2 b"
        "\<forall>b. ll_data s2 b = None \<longrightarrow> ll_data s' b = None"
      unfolding kp by blast
    have "floodCleanup_loop L now (last_opt ds0) (hd_opt (a # rest)) s = Some s'"
      using True n s1(1) s2(1) nx s'(1)
      by (subst floodCleanup_loop.simps) (simp add: rd_item_def del: last_opt_None)
    moreover have "ll_data s' b = ll_data s b" if "b \<in> set (ds0 @ keep s now rest)" for b
    proof -
      have "b \<noteq> a" using that da(1) by (auto simp: keep_def)
      with that s'(4) s2(4) s1(3) show ?thesis by simp
    qed
    moreover have "ll_data s2 b = None" if "ll_data s b = None" for b
      using that s2(4) s1(3) n(3) by (cases "b = a") auto
    ultimately show ?thesis using s' s2(3) s1(5) kc by auto
  next
    case False
    have "ll_rep s L ((ds0 @ [a]) @ rest)" using Cons.prems by simp
    from Cons.IH [OF this] obtain s' where
      s': "floodCleanup_loop L now (Some a) (hd_opt rest) s = Some s'" "ll_rep s' L (ds0 @ a # keep s now rest)"
        "ll_locked s' L = ll_locked s L" "\<forall>b \<in> set (ds0 @ a # keep s now rest). ll_data s' b = ll_data s b"
        "\<forall>b. ll_data s b = None \<longrightarrow> ll_data s' b = None" by auto
    have kc: "keep s now (a # rest) = a # keep s now rest" using False n by (simp add: keep_def)
    have "floodCleanup_loop L now (last_opt ds0) (hd_opt (a # rest)) s = Some s'"
      using False n s'(1) by (subst floodCleanup_loop.simps) (simp add: rd_item_def)
    with s' kc show ?thesis by auto
  qed
qed

lemma lock_ll:
  assumes "ll_rep s L xs" "\<not> ll_locked s L"
  shows "\<exists>s'. LinkedListLock (Some L) s = Some s' \<and> ll_rep s' L xs \<and> ll_locked s' L \<and> ll_data s' = ll_data s"
  using assms by (auto simp: LinkedListLock_def ll_rep_def ll_locked_def rd_list_def wr_list_def ll_data_def fun_eq_iff)

lemma unlock_ll:
  assumes "ll_rep s L xs"
  shows "\<exists>s'. LinkedListUnlock (Some L) s = Some s' \<and> ll_rep s' L xs \<and> \<not> ll_locked s' L \<and> ll_data s' = ll_data s"
  using assms by (auto simp: LinkedListUnlock_def ll_rep_def ll_locked_def wr_list_def ll_data_def fun_eq_iff)

lemma flood_of_data: "ll_data s' = ll_data s \<Longrightarrow> flood_of s' xs = flood_of s xs"
  by (simp add: flood_of_def)

lemma floodSize_correct:
  assumes "flood_rep s L fs" "\<not> ll_locked s L"
  shows "\<exists>s'. floodSize L s = Some (flood_bytes fs, s') \<and> flood_rep s' L fs \<and> \<not> ll_locked s' L \<and> ll_data s' = ll_data s"
proof -
  from assms obtain xs where xs: "ll_rep s L xs" "fs = flood_of s xs" by (auto simp: flood_rep_def)
  from lock_ll [OF xs(1) assms(2)] obtain s1 where s1: "LinkedListLock (Some L) s = Some s1" "ll_rep s1 L xs" "ll_data s1 = ll_data s" by blast
  from unlock_ll [OF s1(2)] obtain s2 where s2: "LinkedListUnlock (Some L) s1 = Some s2" "ll_rep s2 L xs" "\<not> ll_locked s2 L" "ll_data s2 = ll_data s1" by blast
  from ll_rep_head [OF s1(2)] obtain l where l: "rd_list s1 (Some L) = Some l" "head l = hd_opt xs" by blast
  have "floodSize_loop (hd_opt xs) 0 s1 = Some (flood_bytes fs)"
    using floodSize_loop_rep [of s1 L None xs 0] s1 xs(2) flood_of_data [OF s1(3)] by (auto simp: ll_rep_def)
  with l s1 s2 xs show ?thesis
    by (auto simp: floodSize_def flood_rep_def flood_of_def intro!: exI [of _ xs])
qed

lemma floodReady_correct:
  assumes "flood_rep s L fs" "\<not> ll_locked s L"
  shows "\<exists>s'. floodReady L now need s = Some (flood_ready now need fs, s') \<and> flood_rep s' L fs \<and> \<not> ll_locked s' L \<and> ll_data s' = ll_data s"
proof -
  from assms obtain xs where xs: "ll_rep s L xs" "fs = flood_of s xs" by (auto simp: flood_rep_def)
  from lock_ll [OF xs(1) assms(2)] obtain s1 where s1: "LinkedListLock (Some L) s = Some s1" "ll_rep s1 L xs" "ll_data s1 = ll_data s" by blast
  from unlock_ll [OF s1(2)] obtain s2 where s2: "LinkedListUnlock (Some L) s1 = Some s2" "ll_rep s2 L xs" "\<not> ll_locked s2 L" "ll_data s2 = ll_data s1" by blast
  from ll_rep_head [OF s1(2)] obtain l where l: "rd_list s1 (Some L) = Some l" "head l = hd_opt xs" by blast
  have "floodReady_loop (hd_opt xs) False now need s1 = Some (flood_ready now need fs)"
    using floodReady_loop_rep [of s1 L None xs now need] s1 xs(2) flood_of_data [OF s1(3)] by (auto simp: ll_rep_def)
  with l s1 s2 xs show ?thesis
    by (auto simp: floodReady_def flood_rep_def flood_of_def intro!: exI [of _ xs])
qed

lemma flood_of_keep: "flood_of s (keep s now xs) = flood_active now (flood_of s xs)"
  by (induction xs) (auto simp: flood_of_def keep_def flood_active_def)

lemma floodCleanup_correct:
  assumes "flood_rep s L fs" "\<not> ll_locked s L"
  shows "\<exists>s'. floodCleanup L now s = Some s' \<and> flood_rep s' L (flood_active now fs) \<and> \<not> ll_locked s' L \<and>
    (\<forall>b. ll_data s b = None \<longrightarrow> ll_data s' b = None)"
proof -
  from assms obtain xs where xs: "ll_rep s L xs" "fs = flood_of s xs" by (auto simp: flood_rep_def)
  from lock_ll [OF xs(1) assms(2)] obtain s1 where s1: "LinkedListLock (Some L) s = Some s1" "ll_rep s1 L xs" "ll_data s1 = ll_data s"
    "ll_data s1 = ll_data s" by blast
  from ll_rep_head [OF s1(2)] obtain l where l: "rd_list s1 (Some L) = Some l" "head l = hd_opt xs" by blast
  from floodCleanup_loop_rep [of s1 L "[]" xs now] s1(2) obtain s2 where
    s2: "floodCleanup_loop L now None (hd_opt xs) s1 = Some s2" "ll_rep s2 L (keep s1 now xs)"
      "\<forall>b \<in> set (keep s1 now xs). ll_data s2 b = ll_data s1 b" "\<forall>b. ll_data s1 b = None \<longrightarrow> ll_data s2 b = None" by auto
  from unlock_ll [OF s2(2)] obtain s3 where s3: "LinkedListUnlock (Some L) s2 = Some s3" "ll_rep s3 L (keep s1 now xs)"
    "\<not> ll_locked s3 L" "ll_data s3 = ll_data s2" by blast
  have "flood_of s3 (keep s1 now xs) = flood_of s1 (keep s1 now xs)"
    using s2(3) s3(4) by (simp add: flood_of_def)
  also have "\<dots> = flood_active now fs" using xs(2) flood_of_data [OF s1(3)] by (simp add: flood_of_keep)
  finally have "flood_rep s3 L (flood_active now fs)" using s3(2) by (metis flood_rep_def)
  with l s1(1,4) s2(1,4) s3(1,3,4) show ?thesis by (simp add: floodCleanup_def)
qed

section \<open>One message\<close>

definition ctl_a :: string where "ctl_a = [CHR 0x01]"

text \<open>The line for an item and the server's own nick after it; \<open>None\<close>: a fault.\<close>

definition build_message :: "TransmitItem_t \<Rightarrow> string option" where
  "build_message it =
     (let ch = fmt_s (tx_channel it); ms = fmt_s (tx_message it); cut = snprintf MAX_STRING_LENGTH in
      case tx_type it of
        TX_NOTICE \<Rightarrow> BN_MakeMessage None ''NOTICE'' (tx_message it)
      | TX_MESSAGE \<Rightarrow> BN_MakeMessage None ''PRIVMSG'' (Some (cut (ch @ '' :'' @ ms)))
      | TX_PRIVMSG \<Rightarrow> BN_MakeMessage None ''PRIVMSG'' (Some (cut (ch @ '' :'' @ ms)))
      | TX_ACTION \<Rightarrow> BN_MakeMessage None ''PRIVMSG'' (Some (cut (ch @ '' :'' @ ctl_a @ ''ACTION '' @ ms @ ctl_a)))
      | TX_JOIN \<Rightarrow> BN_MakeMessage None ''JOIN''
          (Some (cut (ch @ (case tx_message it of None \<Rightarrow> [] | Some m \<Rightarrow> '' '' @ m))))
      | TX_PASSWORD \<Rightarrow> BN_MakeMessage None ''PASS'' (tx_message it)
      | TX_NICK \<Rightarrow> BN_MakeMessage None ''NICK'' (tx_message it)
      | TX_REGISTER \<Rightarrow> BN_MakeMessage None ''USER'' (Some (cut (ch @ '' 0 0 :'' @ ms)))
      | TX_WHO \<Rightarrow> BN_MakeMessage None ''WHO'' (tx_channel it)
      | TX_QUIT \<Rightarrow> BN_MakeMessage None ''QUIT'' (Some (cut ('':'' @ ms)))
      | TX_PART \<Rightarrow> BN_MakeMessage None ''PART'' (Some (cut (ch @ '' :'' @ ms))))"

text \<open>\<open>sizeof(server->ircInfo.Nick)\<close>.\<close>

definition NICK_SIZE :: nat where "NICK_SIZE = 33"

definition tx_nick :: "TransmitItem_t \<Rightarrow> TxServer \<Rightarrow> TxServer" where
  "tx_nick it srv =
     (case (tx_type it, tx_message it) of
        (TX_NICK, Some m) \<Rightarrow> srv\<lparr>ircNick := strncpy0 NICK_SIZE m\<rparr>
      | _ \<Rightarrow> srv)"

datatype tx_event = TxSleep int | TxSend string

text \<open>The clock readings of one turn of the loop, in the order they are taken.\<close>

record TxClock =
  c_start :: int
  c_clean :: int
  c_ready :: int
  c_wait :: int
  c_clean2 :: int
  c_sent :: int

record TxState =
  sendTime :: int
  srv :: TxServer
  store :: flood_store

text \<open>The wait for room in the flood buffer.\<close>

definition flood_wait :: "TxClock \<Rightarrow> int \<Rightarrow> TxServer \<Rightarrow> flood_store \<Rightarrow> (tx_event list \<times> flood_store) option" where
  "flood_wait clk len sv s = do {
     s \<leftarrow> floodCleanup (floodList sv) (c_clean clk) s;
     (sz, s) \<leftarrow> floodSize (floodList sv) s;
     if sz + len \<ge> floodBuffer sv then do {
       (tm, s) \<leftarrow> floodReady (floodList sv) (c_ready clk) (sz + len + 1 - floodBuffer sv) s;
       if c_wait clk < tm then do {
         s \<leftarrow> floodCleanup (floodList sv) (c_clean2 clk) s;
         Some ([TxSleep (tm - c_wait clk)], s)
       } else Some ([], s)
     } else Some ([], s)
   }"

text \<open>
  One turn of \<open>transmit_thread\<close> for a dequeued item. \<open>mem\<close>: the address \<open>malloc\<close>
  gives for the new flood item, \<open>None\<close> when there is no memory (the code does not
  test for that). \<open>abort\<close>: \<open>GlobalAbort\<close> or \<open>threadAbort\<close> before the send.
\<close>

definition transmit_item :: "TxClock \<Rightarrow> ptr \<Rightarrow> bool \<Rightarrow> TransmitItem_t \<Rightarrow> TxState \<Rightarrow> (tx_event list \<times> TxState) option" where
  "transmit_item clk mem abort it st = do {
     let sendT = max (sendTime st) (c_start clk);
         ev1 = (if sendT - c_start clk > floodMaxTime (srv st) then [TxSleep (sendT - c_start clk - floodMaxTime (srv st))] else []) in do {
     msg \<leftarrow> build_message it;
     let sv = tx_nick it (srv st); len = int (length msg) in do {
     (ev2, s) \<leftarrow> flood_wait clk len sv (store st);
     if abort then Some (ev1 @ ev2, st\<lparr>sendTime := sendT, srv := sv, store := s\<rparr>)
     else do {
       a \<leftarrow> mem;
       let f = \<lparr>timeWake = c_sent clk + floodInterval sv + len div 120, bytes = len\<rparr>;
           s = s\<lparr>items := (items s)(a \<mapsto> \<lparr>prev = None, next = None, list = None, payload = f\<rparr>)\<rparr> in do {
       s \<leftarrow> LinkedListAdd (Some (floodList sv)) (Some a) UNLOCKED AT_TAIL s;
       Some (ev1 @ ev2 @ [TxSend msg],
             st\<lparr>sendTime := sendT + floodInterval sv + len div 120, srv := sv, store := s\<rparr>) }
     } } } }"

text \<open>\<open>transmitMsg\<close>: copy the strings into an item and queue it; \<open>None\<close> while the queue is full.\<close>

definition transmitMsg :: "bool \<Rightarrow> TxType_t \<Rightarrow> string option \<Rightarrow> string option \<Rightarrow>
    TransmitItem_t QueueObject_t option \<Rightarrow> TransmitItem_t QueueObject_t option option" where
  "transmitMsg memory type channel message server =
     (case server of
        None \<Rightarrow> Some None
      | Some q \<Rightarrow>
          if \<not> memory then Some (Some q)
          else do {
            (_, q', _) \<leftarrow> QueueEnqueueItem (Some \<lparr>tx_type = type, tx_channel = channel, tx_message = message\<rparr>) (Some q);
            Some q'
          })"

text \<open>After the loop: a last message, and the socket is closed (set to \<open>0\<close>).\<close>

definition transmit_end :: "int \<Rightarrow> tx_event list \<times> int option \<times> int" where
  "transmit_end sock =
     ([TxSend (the (BN_MakeMessage None ''QUIT'' (Some (snprintf MAX_STRING_LENGTH '':Received SIGINT, shutting down'')))), TxSleep 1],
      (if sock \<noteq> 0 then Some sock else None), 0)"

text \<open>The loop over the dequeued items, each with its clock, memory and abort flag.\<close>

fun transmit_loop :: "(TxClock \<times> ptr \<times> bool \<times> TransmitItem_t) list \<Rightarrow> TxState \<Rightarrow> (tx_event list \<times> TxState) option" where
  "transmit_loop [] st = Some ([], st)"
| "transmit_loop ((clk, mem, abort, it) # rest) st = do {
     (ev, st) \<leftarrow> transmit_item clk mem abort it st;
     if abort then Some (ev, st)
     else do { (ev', st) \<leftarrow> transmit_loop rest st; Some (ev @ ev', st) }
   }"

section \<open>The flood limit\<close>

definition flood_sorted :: "FloodListItem_t list \<Rightarrow> bool" where
  "flood_sorted fs \<longleftrightarrow> sorted_wrt (\<lambda>f g. timeWake f \<le> timeWake g) fs \<and> (\<forall>f \<in> set fs. 0 \<le> bytes f)"

lemma flood_bytes_simps [simp]: "flood_bytes [] = 0" "flood_bytes (f # fs) = bytes f + flood_bytes fs"
  by (simp_all add: flood_bytes_def)

lemma flood_active_simps [simp]:
  "flood_active t [] = []"
  "flood_active t (f # fs) = (if timeWake f > t then f # flood_active t fs else flood_active t fs)"
  by (simp_all add: flood_active_def)

lemma flood_active_le: "\<forall>f \<in> set fs. 0 \<le> bytes f \<Longrightarrow> flood_bytes (flood_active t fs) \<le> flood_bytes fs"
  by (induction fs) auto

lemma flood_active_mono:
  "\<forall>f \<in> set fs. 0 \<le> bytes f \<Longrightarrow> t \<le> t' \<Longrightarrow> flood_bytes (flood_active t' fs) \<le> flood_bytes (flood_active t fs)"
  by (induction fs) auto

lemma flood_active_twice: "flood_active t (flood_active t' fs) = flood_active (max t t') fs"
  by (induction fs) auto

lemma flood_sorted_active: "flood_sorted fs \<Longrightarrow> flood_sorted (flood_active t fs)"
  by (auto simp: flood_sorted_def flood_active_def intro: sorted_wrt_filter)

lemma flood_ready_in: "fs \<noteq> [] \<Longrightarrow> \<exists>f \<in> set fs. flood_ready tm need fs = timeWake f"
proof (induction fs arbitrary: tm need)
  case (Cons f fs)
  then show ?case by (cases "fs = []") auto
qed simp

lemma flood_ready_frees:
  "flood_sorted fs \<Longrightarrow> 0 < need \<Longrightarrow> need \<le> flood_bytes fs \<Longrightarrow> flood_ready tm need fs \<le> t \<Longrightarrow>
   flood_bytes (flood_active t fs) \<le> flood_bytes fs - need"
proof (induction fs arbitrary: tm need)
  case (Cons f fs)
  have fs: "flood_sorted fs" "\<forall>g \<in> set fs. timeWake f \<le> timeWake g" "0 \<le> bytes f" "\<forall>g \<in> set fs. 0 \<le> bytes g"
    using Cons.prems(1) by (auto simp: flood_sorted_def)
  show ?case
  proof (cases "bytes f \<ge> need")
    case True
    with Cons.prems flood_active_le [OF fs(4), of t] show ?thesis by simp
  next
    case False
    with Cons.prems have n: "0 < need - bytes f" "need - bytes f \<le> flood_bytes fs" "flood_ready (timeWake f) (need - bytes f) fs \<le> t"
      by simp_all
    then have "fs \<noteq> []" by auto
    with flood_ready_in [of fs "timeWake f" "need - bytes f"] fs(2) n(3) have "timeWake f \<le> t" by auto
    with Cons.IH [OF fs(1) n] show ?thesis by simp
  qed
qed simp

text \<open>What \<open>flood_wait\<close> does, on the sequence of sent items.\<close>

definition flood_due :: "TxClock \<Rightarrow> int \<Rightarrow> TxServer \<Rightarrow> FloodListItem_t list \<Rightarrow> int" where
  "flood_due clk len sv fs =
     (let fs = flood_active (c_clean clk) fs in
      if flood_bytes fs + len \<ge> floodBuffer sv
      then flood_ready (c_ready clk) (flood_bytes fs + len + 1 - floodBuffer sv) fs else c_wait clk)"

definition flood_sleep :: "TxClock \<Rightarrow> int \<Rightarrow> TxServer \<Rightarrow> FloodListItem_t list \<Rightarrow> int" where
  "flood_sleep clk len sv fs = max 0 (flood_due clk len sv fs - c_wait clk)"

definition flood_after :: "TxClock \<Rightarrow> int \<Rightarrow> TxServer \<Rightarrow> FloodListItem_t list \<Rightarrow> FloodListItem_t list" where
  "flood_after clk len sv fs =
     (let fs' = flood_active (c_clean clk) fs in
      if flood_sleep clk len sv fs > 0 then flood_active (c_clean2 clk) fs' else fs')"

lemma flood_wait_correct:
  assumes "flood_rep s (floodList sv) fs" "\<not> ll_locked s (floodList sv)"
  shows "\<exists>s'. flood_wait clk len sv s =
      Some (if flood_sleep clk len sv fs > 0 then [TxSleep (flood_sleep clk len sv fs)] else [], s') \<and>
    flood_rep s' (floodList sv) (flood_after clk len sv fs) \<and> \<not> ll_locked s' (floodList sv) \<and>
    (\<forall>b. ll_data s b = None \<longrightarrow> ll_data s' b = None)"
proof -
  let ?L = "floodList sv" and ?fs = "flood_active (c_clean clk) fs"
  from floodCleanup_correct [OF assms, of "c_clean clk"] obtain s1 where
    s1: "floodCleanup ?L (c_clean clk) s = Some s1" "flood_rep s1 ?L ?fs" "\<not> ll_locked s1 ?L"
      "\<forall>b. ll_data s b = None \<longrightarrow> ll_data s1 b = None" by blast
  from floodSize_correct [OF s1(2,3)] obtain s2 where
    s2: "floodSize ?L s1 = Some (flood_bytes ?fs, s2)" "flood_rep s2 ?L ?fs" "\<not> ll_locked s2 ?L" "ll_data s2 = ll_data s1" by blast
  show ?thesis
  proof (cases "flood_bytes ?fs + len \<ge> floodBuffer sv")
    case False
    with s1 s2 show ?thesis
      by (simp add: flood_wait_def flood_sleep_def flood_due_def flood_after_def Let_def)
  next
    case True
    let ?n = "flood_bytes ?fs + len + 1 - floodBuffer sv"
    from floodReady_correct [OF s2(2,3), of "c_ready clk" ?n] obtain s3 where
      s3: "floodReady ?L (c_ready clk) ?n s2 = Some (flood_ready (c_ready clk) ?n ?fs, s3)" "flood_rep s3 ?L ?fs"
        "\<not> ll_locked s3 ?L" "ll_data s3 = ll_data s2" by blast
    have due: "flood_due clk len sv fs = flood_ready (c_ready clk) ?n ?fs" using True by (simp add: flood_due_def Let_def)
    show ?thesis
    proof (cases "c_wait clk < flood_ready (c_ready clk) ?n ?fs")
      case False
      with True s1 s2 s3 due show ?thesis
        by (simp add: flood_wait_def flood_sleep_def flood_after_def Let_def)
    next
      case c: True
      from floodCleanup_correct [OF s3(2,3), of "c_clean2 clk"] obtain s4 where
        "floodCleanup ?L (c_clean2 clk) s3 = Some s4" "flood_rep s4 ?L (flood_active (c_clean2 clk) ?fs)" "\<not> ll_locked s4 ?L"
        "\<forall>b. ll_data s3 b = None \<longrightarrow> ll_data s4 b = None" by blast
      with c True s1 s2 s3 due show ?thesis
        by (simp add: flood_wait_def flood_sleep_def flood_after_def Let_def)
    qed
  qed
qed

lemma flood_after_below:
  assumes "flood_sorted fs" "0 \<le> len" "len < floodBuffer sv" "c_clean clk \<le> c_wait clk"
    and "c_wait clk + flood_sleep clk len sv fs \<le> t"
  shows "flood_bytes (flood_active t (flood_after clk len sv fs)) + len < floodBuffer sv"
proof -
  let ?fs = "flood_active (c_clean clk) fs"
  have st: "flood_sorted ?fs" using assms(1) by (rule flood_sorted_active)
  then have nn: "\<forall>f \<in> set ?fs. 0 \<le> bytes f" by (simp add: flood_sorted_def)
  have due: "flood_due clk len sv fs \<le> t" "c_wait clk \<le> t"
    using assms(5) by (simp_all add: flood_sleep_def)
  have "flood_bytes (flood_active t ?fs) + len < floodBuffer sv"
  proof (cases "flood_bytes ?fs + len \<ge> floodBuffer sv")
    case False
    with flood_active_le [OF nn, of t] show ?thesis by simp
  next
    case True
    then have "flood_ready (c_ready clk) (flood_bytes ?fs + len + 1 - floodBuffer sv) ?fs \<le> t"
      using due(1) by (simp add: flood_due_def Let_def)
    from flood_ready_frees [OF st _ _ this] True assms(3) show ?thesis by simp
  qed
  moreover have "flood_bytes (flood_active t (flood_active (c_clean2 clk) ?fs)) \<le> flood_bytes (flood_active t ?fs)"
    unfolding flood_active_twice [of t "c_clean2 clk"] by (rule flood_active_mono [OF nn]) simp
  ultimately show ?thesis by (simp add: flood_after_def Let_def split: if_splits)
qed

section \<open>The loop\<close>

fun sent :: "tx_event list \<Rightarrow> string list" where
  "sent [] = []"
| "sent (TxSend m # es) = m # sent es"
| "sent (TxSleep t # es) = sent es"

lemma sent_append [simp]: "sent (xs @ ys) = sent xs @ sent ys"
  by (induction xs rule: sent.induct) auto

definition tx_ready :: "TxState \<Rightarrow> FloodListItem_t list \<Rightarrow> bool" where
  "tx_ready st fs \<longleftrightarrow> flood_rep (store st) (floodList (srv st)) fs \<and> \<not> ll_locked (store st) (floodList (srv st))"

definition fresh_in :: "flood_store \<Rightarrow> addr \<Rightarrow> bool" where
  "fresh_in s a \<longleftrightarrow> ll_data s a = None"

lemma tx_nick_frame [simp]:
  "floodList (tx_nick it sv) = floodList sv" "floodMaxTime (tx_nick it sv) = floodMaxTime sv"
  "floodInterval (tx_nick it sv) = floodInterval sv" "floodBuffer (tx_nick it sv) = floodBuffer sv"
  by (auto simp: tx_nick_def split: TxType_t.splits option.splits)

lemma flood_add:
  assumes rep: "flood_rep s L fs" "\<not> ll_locked s L" and a: "fresh_in s a"
  shows "\<exists>s'. LinkedListAdd (Some L) (Some a) UNLOCKED AT_TAIL
      (s\<lparr>items := (items s)(a \<mapsto> \<lparr>prev = None, next = None, list = None, payload = f\<rparr>)\<rparr>) = Some s' \<and>
    flood_rep s' L (fs @ [f]) \<and> \<not> ll_locked s' L \<and> (\<forall>b. b \<noteq> a \<longrightarrow> ll_data s b = None \<longrightarrow> ll_data s' b = None)"
proof -
  from rep obtain xs where xs: "ll_rep s L xs" "fs = flood_of s xs" by (auto simp: flood_rep_def)
  have ax: "a \<notin> set xs" using a ll_rep_owner [OF xs(1), of a] by (auto simp: fresh_in_def ll_data_def)
  let ?s = "s\<lparr>items := (items s)(a \<mapsto> \<lparr>prev = None, next = None, list = None, payload = f\<rparr>)\<rparr>"
  have "ll_rep ?s L xs" "\<not> ll_locked ?s L" using xs(1) ax rep(2) by (auto simp: ll_rep_def ll_locked_def)
  moreover have "ll_data ?s a \<noteq> None" by (simp add: ll_data_def)
  ultimately obtain s' where s': "LinkedListAdd (Some L) (Some a) UNLOCKED AT_TAIL ?s = Some s'"
    "ll_rep s' L (xs @ [a])" "ll_data s' = ll_data ?s" "\<not> ll_locked s' L"
    using ll.add_tail [of ?s L xs a] ax by blast
  have d: "ll_data ?s = (ll_data s)(a \<mapsto> f)" by (auto simp: ll_data_def fun_eq_iff)
  have "flood_of s' (xs @ [a]) = fs @ [f]" using s'(3) d xs(2) ax by (auto simp: flood_of_def)
  with s' d show ?thesis by (metis flood_rep_def fun_upd_apply)
qed

lemma transmit_item_sends:
  assumes rd: "tx_ready st fs" and a: "fresh_in (store st) a" and msg: "build_message it = Some m"
  shows "\<exists>ev st' fs'. transmit_item clk (Some a) False it st = Some (ev, st') \<and> sent ev = [m] \<and> tx_ready st' fs' \<and>
    (\<forall>b. b \<noteq> a \<longrightarrow> fresh_in (store st) b \<longrightarrow> fresh_in (store st') b)"
proof -
  let ?sv = "tx_nick it (srv st)" and ?len = "int (length m)"
  have r: "flood_rep (store st) (floodList ?sv) fs" "\<not> ll_locked (store st) (floodList ?sv)"
    using rd by (simp_all add: tx_ready_def)
  from flood_wait_correct [OF r, of clk ?len] obtain s1 where
    s1: "flood_wait clk ?len ?sv (store st) =
        Some (if flood_sleep clk ?len ?sv fs > 0 then [TxSleep (flood_sleep clk ?len ?sv fs)] else [], s1)"
      "flood_rep s1 (floodList ?sv) (flood_after clk ?len ?sv fs)" "\<not> ll_locked s1 (floodList ?sv)"
      "\<forall>b. ll_data (store st) b = None \<longrightarrow> ll_data s1 b = None" by blast
  have "fresh_in s1 a" using a s1(4) by (simp add: fresh_in_def)
  from flood_add [OF s1(2,3) this, of "\<lparr>timeWake = c_sent clk + floodInterval ?sv + ?len div 120, bytes = ?len\<rparr>"]
  obtain s2 where "LinkedListAdd (Some (floodList ?sv)) (Some a) UNLOCKED AT_TAIL
      (s1\<lparr>items := (items s1)(a \<mapsto> \<lparr>prev = None, next = None, list = None,
        payload = \<lparr>timeWake = c_sent clk + floodInterval ?sv + ?len div 120, bytes = ?len\<rparr>\<rparr>)\<rparr>) = Some s2"
    "flood_rep s2 (floodList ?sv) (flood_after clk ?len ?sv fs @
       [\<lparr>timeWake = c_sent clk + floodInterval ?sv + ?len div 120, bytes = ?len\<rparr>])" "\<not> ll_locked s2 (floodList ?sv)"
    "\<forall>b. b \<noteq> a \<longrightarrow> ll_data s1 b = None \<longrightarrow> ll_data s2 b = None" by blast
  with msg s1(1,4) show ?thesis
    by (auto simp: transmit_item_def Let_def tx_ready_def fresh_in_def)
qed

definition tx_all_ok :: "TxState \<Rightarrow> (TxClock \<times> ptr \<times> bool \<times> TransmitItem_t) list \<Rightarrow> bool" where
  "tx_all_ok st js \<longleftrightarrow> distinct (map (\<lambda>(_, p, _, _). p) js) \<and>
     (\<forall>(clk, p, ab, it) \<in> set js. (\<exists>a. p = Some a \<and> fresh_in (store st) a) \<and> \<not> ab \<and> build_message it \<noteq> None)"

lemma transmit_loop_sends:
  "tx_ready st fs \<Longrightarrow> tx_all_ok st js \<Longrightarrow>
   \<exists>ev st' fs'. transmit_loop js st = Some (ev, st') \<and> sent ev = map (\<lambda>(_, _, _, it). the (build_message it)) js \<and> tx_ready st' fs'"
proof (induction js arbitrary: st fs)
  case Nil
  then show ?case by auto
next
  case (Cons j js)
  obtain clk p ab it where j: "j = (clk, p, ab, it)" by (cases j)
  with Cons.prems obtain a m where a: "p = Some a" "fresh_in (store st) a" "\<not> ab" "build_message it = Some m"
    by (auto simp: tx_all_ok_def)
  from transmit_item_sends [OF Cons.prems(1) a(2,4), of clk] obtain ev st1 fs1 where
    s1: "transmit_item clk (Some a) False it st = Some (ev, st1)" "sent ev = [m]" "tx_ready st1 fs1"
      "\<forall>b. b \<noteq> a \<longrightarrow> fresh_in (store st) b \<longrightarrow> fresh_in (store st1) b" by blast
  have "tx_all_ok st1 js"
    unfolding tx_all_ok_def
  proof (intro conjI ballI)
    show "distinct (map (\<lambda>(_, p, _, _). p) js)" using Cons.prems(2) by (simp add: tx_all_ok_def)
    fix x assume x: "x \<in> set js"
    obtain clk' p' ab' it' where xe: "x = (clk', p', ab', it')" by (cases x)
    from x Cons.prems(2) xe obtain a' where a': "p' = Some a'" "fresh_in (store st) a'" "\<not> ab'" "build_message it' \<noteq> None"
      by (fastforce simp: tx_all_ok_def)
    have "(\<lambda>(_, p, _, _). p) x \<in> (\<lambda>(_, p, _, _). p) ` set js" using x by (rule imageI)
    then have "Some a' \<in> (\<lambda>(_, p, _, _). p) ` set js" by (simp only: xe prod.case a'(1))
    moreover have "Some a \<notin> (\<lambda>(_, p, _, _). p) ` set js" using Cons.prems(2) j a(1) by (simp add: tx_all_ok_def)
    ultimately have "a' \<noteq> a" by blast
    with s1(4) a' xe show "case x of (clk, p, ab, it) \<Rightarrow> (\<exists>a. p = Some a \<and> fresh_in (store st1) a) \<and> \<not> ab \<and> build_message it \<noteq> None"
      by simp
  qed
  from Cons.IH [OF s1(3) this] obtain ev' st' fs' where
    "transmit_loop js st1 = Some (ev', st')" "sent ev' = map (\<lambda>(_, _, _, it). the (build_message it)) js" "tx_ready st' fs'" by blast
  with j a s1(1,2) show ?case by (simp, blast)
qed

text \<open>What is queued comes out in the same order.\<close>

lemma transmitMsg_queues:
  assumes "q_inv q" "length (q_contents q) < q_capacity q"
  shows "\<exists>q'. transmitMsg True ty ch ms (Some q) = Some (Some q') \<and> q_inv q' \<and>
    q_contents q' = q_contents q @ [\<lparr>tx_type = ty, tx_channel = ch, tx_message = ms\<rparr>] \<and> q_capacity q' = q_capacity q"
  using ring_fifo.enq [OF assms, of "\<lparr>tx_type = ty, tx_channel = ch, tx_message = ms\<rparr>"]
  by (auto simp: transmitMsg_def try_enqueue_def Option.bind_eq_Some_conv)

section \<open>Properties\<close>

fun slept :: "tx_event list \<Rightarrow> int" where
  "slept [] = 0"
| "slept (TxSleep t # es) = t + slept es"
| "slept (TxSend m # es) = slept es"

text \<open>Claim C9. With a flood list sorted by wake-up time, after the wait that the transmit thread
  makes the bytes still counted plus the new message are below the flood buffer, whenever the
  message alone fits.\<close>

theorem flood_limit_kept:
  assumes "flood_rep s (floodList sv) fs" "\<not> ll_locked s (floodList sv)" "flood_sorted fs"
    and "0 \<le> len" "len < floodBuffer sv" "c_clean clk \<le> c_wait clk"
  shows "\<exists>ev s' fs'. flood_wait clk len sv s = Some (ev, s') \<and> flood_rep s' (floodList sv) fs' \<and>
    (\<forall>t. c_wait clk + slept ev \<le> t \<longrightarrow> flood_bytes (flood_active t fs') + len < floodBuffer sv)"
proof -
  from flood_wait_correct [OF assms(1,2), of clk len] obtain s' where
    s': "flood_wait clk len sv s = Some (if flood_sleep clk len sv fs > 0 then [TxSleep (flood_sleep clk len sv fs)] else [], s')"
      "flood_rep s' (floodList sv) (flood_after clk len sv fs)" by blast
  have "slept (if flood_sleep clk len sv fs > 0 then [TxSleep (flood_sleep clk len sv fs)] else []) = flood_sleep clk len sv fs"
    by (simp add: flood_sleep_def)
  with s' flood_after_below [OF assms(3-6)] show ?thesis by metis
qed

definition example_server :: TxServer where
  "example_server = \<lparr>floodMaxTime = 4, floodInterval = 2, floodBuffer = 1000, floodList = 7, ircNick = []\<rparr>"

definition clock_at :: "int \<Rightarrow> TxClock" where
  "clock_at t = \<lparr>c_start = t, c_clean = t, c_ready = t, c_wait = t, c_clean2 = t, c_sent = t\<rparr>"

definition empty_flood :: flood_store where
  "empty_flood = \<lparr>items = (\<lambda>_. None), lists = [7 \<mapsto> \<lparr>head = None, tail = None, mutex = False\<rparr>]\<rparr>"

lemma empty_flood_rep: "flood_rep empty_flood 7 [] \<and> \<not> ll_locked empty_flood 7"
  by (auto simp: flood_rep_def empty_flood_def ll_rep_def ll_locked_def flood_of_def intro!: exI [of _ "[]"])

lemma flood_limit_kept_witness:
  "\<exists>ev s' fs'. flood_wait (clock_at 0) 100 example_server empty_flood = Some (ev, s') \<and> flood_rep s' (floodList example_server) fs' \<and>
    (\<forall>t. c_wait (clock_at 0) + slept ev \<le> t \<longrightarrow> flood_bytes (flood_active t fs') + 100 < floodBuffer example_server)"
  using empty_flood_rep
  by (intro flood_limit_kept [where fs = "[]"]) (auto simp: example_server_def clock_at_def flood_sorted_def)

text \<open>With a flood list that is not sorted by wake-up time, as after a message of 900
  and one of 60 bytes, the transmit thread waits too short a time and sends although the flood
  buffer is exceeded.\<close>

theorem flood_limit_unsorted:
  assumes "flood_rep s 7 [\<lparr>timeWake = 0 + 2 + 900 div 120, bytes = 900\<rparr>, \<lparr>timeWake = 1 + 2 + 60 div 120, bytes = 60\<rparr>]"
    and "\<not> ll_locked s 7"
  shows "\<exists>s' fs'. flood_wait (clock_at 1) 940 example_server s = Some ([TxSleep 2], s') \<and> flood_rep s' 7 fs' \<and>
    flood_bytes (flood_active 3 fs') + 940 > floodBuffer example_server"
proof -
  let ?fs = "[\<lparr>timeWake = 0 + 2 + 900 div 120, bytes = 900\<rparr>, \<lparr>timeWake = 1 + 2 + 60 div 120, bytes = 60\<rparr>]"
  have "flood_sleep (clock_at 1) 940 example_server ?fs = 2"
    by (simp add: flood_sleep_def flood_due_def clock_at_def example_server_def flood_active_def flood_bytes_def Let_def)
  moreover have "flood_bytes (flood_active 3 (flood_after (clock_at 1) 940 example_server ?fs)) + 940 > floodBuffer example_server"
    by (simp add: flood_sleep_def flood_due_def flood_after_def clock_at_def example_server_def flood_active_def flood_bytes_def Let_def)
  moreover have "floodList example_server = 7" by (simp add: example_server_def)
  ultimately show ?thesis using flood_wait_correct [of s example_server ?fs "clock_at 1" 940] assms by auto
qed

definition two_sent :: flood_store where
  "two_sent = \<lparr>
     items = [11 \<mapsto> \<lparr>prev = None, next = Some 12, list = Some 7, payload = \<lparr>timeWake = 9, bytes = 900\<rparr>\<rparr>,
       12 \<mapsto> \<lparr>prev = Some 11, next = None, list = Some 7, payload = \<lparr>timeWake = 3, bytes = 60\<rparr>\<rparr>],
     lists = [7 \<mapsto> \<lparr>head = Some 11, tail = Some 12, mutex = False\<rparr>]\<rparr>"

lemma two_sent_rep:
  "flood_rep two_sent 7 [\<lparr>timeWake = 0 + 2 + 900 div 120, bytes = 900\<rparr>, \<lparr>timeWake = 1 + 2 + 60 div 120, bytes = 60\<rparr>]"
  unfolding flood_rep_def by (rule exI [of _ "[11, 12]"]) (simp add: two_sent_def ll_rep_def flood_of_def ll_data_def last_opt_def)

lemma flood_limit_unsorted_witness:
  "\<exists>s' fs'. flood_wait (clock_at 1) 940 example_server two_sent = Some ([TxSleep 2], s') \<and> flood_rep s' 7 fs' \<and>
    flood_bytes (flood_active 3 fs') + 940 > floodBuffer example_server"
  by (rule flood_limit_unsorted [OF two_sent_rep]) (simp add: two_sent_def ll_locked_def)

text \<open>Claim C10. The transmit thread sends the lines of the queued items in order, one for each,
  and leaves the flood list well formed and unlocked. This is for items from which a line can
  be built without a fault, with fresh memory for the flood item of each, while the thread is
  not told to stop.\<close>

theorem transmit_in_order:
  assumes "tx_ready st fs" "tx_all_ok st js"
  shows "\<exists>ev st' fs'. transmit_loop js st = Some (ev, st') \<and> sent ev = map (\<lambda>(_, _, _, it). the (build_message it)) js \<and>
    flood_rep (store st') (floodList (srv st')) fs' \<and> \<not> ll_locked (store st') (floodList (srv st'))"
  using transmit_loop_sends [OF assms] unfolding tx_ready_def by blast

lemma transmit_in_order_witness:
  "\<exists>ev st' fs'. transmit_loop [(clock_at 0, Some 1, False, \<lparr>tx_type = TX_JOIN, tx_channel = Some ''#c'', tx_message = None\<rparr>)]
      \<lparr>sendTime = 0, srv = example_server, store = empty_flood\<rparr> = Some (ev, st') \<and>
    sent ev = map (\<lambda>(_, _, _, it). the (build_message it))
      [(clock_at 0, Some (1 :: addr), False, \<lparr>tx_type = TX_JOIN, tx_channel = Some ''#c'', tx_message = None\<rparr>)] \<and>
    flood_rep (store st') (floodList (srv st')) fs' \<and> \<not> ll_locked (store st') (floodList (srv st'))"
proof (rule transmit_in_order)
  show "tx_ready \<lparr>sendTime = 0, srv = example_server, store = empty_flood\<rparr> []"
    using empty_flood_rep by (simp add: tx_ready_def example_server_def)
qed (simp add: tx_all_ok_def fresh_in_def ll_data_def empty_flood_def build_message_def BN_MakeMessage_def)

end
