(* ===== verification/Regexp.thy ===== *)
theory Regexp
  imports CString
begin

text \<open>
  \<open>bot/src/regexp.c\<close>: callbacks attached to a pair of patterns, one for the channel
  and one for the text. The pattern library (PCRE) is not part of the repository:
  \<open>compile\<close> and \<open>exec\<close> are parameters. \<open>exec r s start\<close> is the return code and
  the offset vector of \<open>pcre_exec\<close>. A callback is a value \<open>'f\<close>; the calls that
  \<open>regexp_parse\<close> makes are its result.
\<close>

section \<open>Data\<close>

record ('r, 'f) Regexp_t =
  channelRegexp :: string
  contentRegexp :: string
  reChannel :: 'r
  reContent :: 'r
  func :: 'f

definition channelsAll :: string where
  "channelsAll = ''^.*$''"

section \<open>Registration\<close>

text \<open>
  \<open>None\<close> from \<open>compile\<close> or \<open>study\<close> stands for a non-\<open>NULL\<close> error; every
  failure leaves the list as it was.
\<close>

definition regexp_add ::
    "(string \<Rightarrow> 'r option) \<Rightarrow> ('r \<Rightarrow> 'r option) \<Rightarrow> string option \<Rightarrow> string \<Rightarrow> 'f option \<Rightarrow>
     ('r, 'f) Regexp_t list \<Rightarrow> ('r, 'f) Regexp_t list" where
  "regexp_add compile study chanRe contRe fn regexpList =
     (case fn of
        None \<Rightarrow> regexpList
      | Some f \<Rightarrow>
          let chanRe = (case chanRe of None \<Rightarrow> channelsAll | Some c \<Rightarrow> c) in
          case Option.bind (compile chanRe) study of
            None \<Rightarrow> regexpList
          | Some rc \<Rightarrow>
              (case Option.bind (compile contRe) study of
                 None \<Rightarrow> regexpList
               | Some rt \<Rightarrow> regexpList @ [\<lparr>channelRegexp = chanRe, contentRegexp = contRe,
                   reChannel = rc, reContent = rt, func = f\<rparr>]))"

fun regexp_remove_first :: "string \<Rightarrow> string \<Rightarrow> ('r, 'f) Regexp_t list \<Rightarrow> ('r, 'f) Regexp_t list" where
  "regexp_remove_first chanRe contRe [] = []"
| "regexp_remove_first chanRe contRe (r # rs) =
     (if channelRegexp r = chanRe \<and> contentRegexp r = contRe then rs else r # regexp_remove_first chanRe contRe rs)"

definition regexp_remove :: "string option \<Rightarrow> string \<Rightarrow> ('r, 'f) Regexp_t list \<Rightarrow> ('r, 'f) Regexp_t list" where
  "regexp_remove chanRe contRe regexpList =
     regexp_remove_first (case chanRe of None \<Rightarrow> channelsAll | Some c \<Rightarrow> c) contRe regexpList"

section \<open>Matching\<close>

type_synonym 'r execT = "'r \<Rightarrow> string \<Rightarrow> int \<Rightarrow> int \<times> int list"

text \<open>
  The inner loop: match after match, each from the end of the one before. Not returning
  is \<open>None\<close>.
\<close>

partial_function (option) regexp_matches :: "'r execT \<Rightarrow> 'r \<Rightarrow> string \<Rightarrow> int \<Rightarrow> (int \<times> int list) list option" where
  "regexp_matches exec r msg start =
     (let (rc, ov) = exec r msg start in
      if rc > 0 then do { ms \<leftarrow> regexp_matches exec r msg (ov ! 1); Some ((rc, ov) # ms) }
      else if rc = 0 then Some [(rc, ov)]
      else Some [])"

fun regexp_parse_list ::
    "'r execT \<Rightarrow> string \<Rightarrow> string \<Rightarrow> ('r, 'f) Regexp_t list \<Rightarrow> ('f \<times> int \<times> int list) list option" where
  "regexp_parse_list exec fullspec msg [] = Some []"
| "regexp_parse_list exec fullspec msg (r # rs) =
     (if fst (exec (reChannel r) fullspec 0) < 0 then regexp_parse_list exec fullspec msg rs
      else do {
        ms \<leftarrow> regexp_matches exec (reContent r) msg 0;
        rest \<leftarrow> regexp_parse_list exec fullspec msg rs;
        Some (map (\<lambda>m. (func r, m)) ms @ rest)
      })"

definition regexp_parse ::
    "'r execT \<Rightarrow> string option \<Rightarrow> string \<Rightarrow> ('r, 'f) Regexp_t list \<Rightarrow> ('f \<times> int \<times> int list) list option" where
  "regexp_parse exec channel msg regexpList =
     (case channel of None \<Rightarrow> Some [] | Some fullspec \<Rightarrow> regexp_parse_list exec fullspec msg regexpList)"

text \<open>\<open>pcre_get_substring\<close>: part \<open>n\<close> of the match, if the vector has it.\<close>

definition regexp_substring :: "string \<Rightarrow> int list \<Rightarrow> int \<Rightarrow> int \<Rightarrow> string option" where
  "regexp_substring msg ov stringcount n =
     (if n < 0 \<or> n \<ge> stringcount then None
      else let a = ov ! nat (2 * n); b = ov ! nat (2 * n + 1) in
        Some (take (nat (b - a)) (drop (nat a) msg)))"

declare regexp_matches.simps [code]

section \<open>Properties\<close>

text \<open>
  A pattern that matches at least one character each time: the match ends after
  the start of the search, within the text.
\<close>

definition progress_on :: "'r execT \<Rightarrow> 'r \<Rightarrow> string \<Rightarrow> bool" where
  "progress_on exec r msg \<longleftrightarrow>
     (\<forall>start rc ov. exec r msg start = (rc, ov) \<longrightarrow> rc > 0 \<longrightarrow>
        start \<le> ov ! 0 \<and> start < ov ! 1 \<and> ov ! 1 \<le> int (length msg))"

definition consecutive :: "(int \<times> int list) list \<Rightarrow> bool" where
  "consecutive ms \<longleftrightarrow> sorted_wrt (\<lambda>m m'. snd m ! 1 \<le> snd m' ! 0) (filter (\<lambda>m. fst m > 0) ms)"

lemma regexp_matches_end:
  assumes "progress_on exec r msg"
  shows "\<exists>ms. regexp_matches exec r msg start = Some ms \<and> consecutive ms \<and>
    (\<forall>m \<in> set ms. fst m > 0 \<longrightarrow> start \<le> snd m ! 0) \<and> length ms \<le> nat (int (length msg) - start) + 1"
proof (induction "nat (int (length msg) - start)" arbitrary: start rule: less_induct)
  case less
  obtain rc ov where e: "exec r msg start = (rc, ov)" by (cases "exec r msg start")
  show ?case
  proof (cases "rc > 0")
    case True
    with assms e have p: "start \<le> ov ! 0" "start < ov ! 1" "ov ! 1 \<le> int (length msg)"
      by (auto simp: progress_on_def)
    then have "nat (int (length msg) - ov ! 1) < nat (int (length msg) - start)" by simp
    from less [OF this] obtain ms where
      ms: "regexp_matches exec r msg (ov ! 1) = Some ms" "consecutive ms" "\<forall>m \<in> set ms. fst m > 0 \<longrightarrow> ov ! 1 \<le> snd m ! 0"
        "length ms \<le> nat (int (length msg) - ov ! 1) + 1" by blast
    have "regexp_matches exec r msg start = Some ((rc, ov) # ms)"
      using e True ms(1) by (subst regexp_matches.simps) simp
    moreover have "consecutive ((rc, ov) # ms)" using ms(2,3) True by (auto simp: consecutive_def)
    moreover have "\<forall>m \<in> set ((rc, ov) # ms). fst m > 0 \<longrightarrow> start \<le> snd m ! 0" using ms(3) p by fastforce
    moreover have "length ((rc, ov) # ms) \<le> nat (int (length msg) - start) + 1" using ms(4) p by simp
    ultimately show ?thesis by blast
  next
    case False
    with e show ?thesis by (subst regexp_matches.simps) (auto simp: consecutive_def)
  qed
qed

text \<open>The matches that a search from \<open>start\<close> has to find: each is the answer of the library from the end of the one before.\<close>

fun match_chain :: "'r execT \<Rightarrow> 'r \<Rightarrow> string \<Rightarrow> int \<Rightarrow> (int \<times> int list) list \<Rightarrow> bool" where
  "match_chain exec r msg start [] \<longleftrightarrow> fst (exec r msg start) < 0"
| "match_chain exec r msg start (m # ms) \<longleftrightarrow>
     m = exec r msg start \<and> 0 \<le> fst m \<and> (if fst m > 0 then match_chain exec r msg (snd m ! 1) ms else ms = [])"

lemma regexp_matches_chain: "regexp_matches exec r msg start = Some ms \<Longrightarrow> match_chain exec r msg start ms"
proof (induction ms arbitrary: start)
  case Nil
  then show ?case
    by (cases "exec r msg start", subst (asm) regexp_matches.simps) (auto simp: bind_eq_Some_conv split: if_splits)
next
  case (Cons m ms)
  obtain rc ov where e: "exec r msg start = (rc, ov)" by (cases "exec r msg start")
  have "m = (rc, ov) \<and> (if rc > 0 then regexp_matches exec r msg (ov ! 1) = Some ms else rc = 0 \<and> ms = [])"
    using Cons.prems by (subst (asm) regexp_matches.simps) (auto simp: e bind_eq_Some_conv split: if_splits)
  then show ?case by (auto simp: e split: if_splits intro: Cons.IH)
qed

definition called :: "'r execT \<Rightarrow> string \<Rightarrow> string \<Rightarrow> ('r, 'f) Regexp_t \<Rightarrow> (int \<times> int list) list \<Rightarrow> bool" where
  "called exec fullspec msg r ms \<longleftrightarrow>
     (if fst (exec (reChannel r) fullspec 0) < 0 then ms = []
      else match_chain exec (reContent r) msg 0 ms \<and> consecutive ms \<and> length ms \<le> length msg + 1)"

lemma regexp_parse_list_ends:
  "\<forall>r \<in> set rs. progress_on exec (reContent r) msg \<Longrightarrow>
   \<exists>mss. regexp_parse_list exec fullspec msg rs = Some (concat (map2 (\<lambda>r. map (Pair (func r))) rs mss)) \<and>
     list_all2 (called exec fullspec msg) rs mss"
proof (induction rs)
  case (Cons r rs)
  then obtain mss where mss: "regexp_parse_list exec fullspec msg rs = Some (concat (map2 (\<lambda>r. map (Pair (func r))) rs mss))"
    "list_all2 (called exec fullspec msg) rs mss" by auto
  obtain ms where ms: "regexp_matches exec (reContent r) msg 0 = Some ms" "consecutive ms" "length ms \<le> length msg + 1"
    using regexp_matches_end [of exec "reContent r" msg 0] Cons.prems by auto
  show ?case
  proof (cases "fst (exec (reChannel r) fullspec 0) < 0")
    case True
    with mss show ?thesis by (intro exI [of _ "[] # mss"]) (simp add: called_def [of _ _ _ r])
  next
    case False
    with mss ms regexp_matches_chain [OF ms(1)] show ?thesis by (intro exI [of _ "ms # mss"]) (simp add: called_def [of _ _ _ r])
  qed
qed simp

text \<open>An empty match is found again and again: the routine does not return.\<close>

lemma regexp_matches_empty_loops:
  assumes "exec r msg p = (rc, ov)" "0 < rc" "ov ! 1 = p"
  shows "regexp_matches exec r msg p = None"
proof (rule ccontr)
  have step: "regexp_matches exec r msg p = do { ms \<leftarrow> regexp_matches exec r msg p; Some ((rc, ov) # ms) }"
    using assms by (subst regexp_matches.simps) simp
  assume "regexp_matches exec r msg p \<noteq> None"
  then obtain ms where "regexp_matches exec r msg p = Some ms" by auto
  with step have "ms = (rc, ov) # ms" by simp
  then show False by (metis list.size(4) n_not_Suc_n add.right_neutral add_Suc_right)
qed

lemma regexp_add_remove:
  assumes "compile chan' = Some rc0" "study rc0 = Some rc" "compile cont = Some rt0" "study rt0 = Some rt"
    and "chan' = (case chan of None \<Rightarrow> channelsAll | Some c \<Rightarrow> c)"
    and "\<forall>r \<in> set rs. channelRegexp r \<noteq> chan' \<or> contentRegexp r \<noteq> cont"
  shows "regexp_remove chan cont (regexp_add compile study chan cont (Some f) rs) = rs"
proof -
  have "regexp_remove_first chan' cont (rs @ [x]) = rs"
    if "channelRegexp x = chan'" "contentRegexp x = cont" "\<forall>r \<in> set rs. channelRegexp r \<noteq> chan' \<or> contentRegexp r \<noteq> cont"
    for x and rs :: "('a, 'b) Regexp_t list"
    using that by (induction rs) auto
  with assms show ?thesis by (simp add: regexp_remove_def regexp_add_def Let_def)
qed

section \<open>Claims\<close>

text \<open>Claim C14. When every match of a registered expression moves forward, parsing a message
  ends. Without a channel nothing is called; for a channel the calls are, in the order of the
  registrations whose channel expression matches, the handler of the registration once for
  each of its matches, in order: the answers of the library, each asked for from the end of
  the one before, until there is none.\<close>

theorem regexp_parse_ends:
  assumes "\<forall>r \<in> set rs. progress_on exec (reContent r) msg"
  shows "regexp_parse exec None msg rs = Some [] \<and>
    (\<exists>mss. regexp_parse exec (Some fullspec) msg rs = Some (concat (map2 (\<lambda>r. map (Pair (func r))) rs mss)) \<and>
       list_all2 (\<lambda>r ms. if fst (exec (reChannel r) fullspec 0) < 0 then ms = []
         else match_chain exec (reContent r) msg 0 ms \<and> consecutive ms \<and> length ms \<le> length msg + 1) rs mss)"
  using regexp_parse_list_ends [OF assms, of fullspec] unfolding called_def by (simp add: regexp_parse_def)

text \<open>A matcher that finds every single character.\<close>

definition any_char :: "nat execT" where
  "any_char r s start = (if start < int (length s) then (1, [start, start + 1]) else (-1, []))"

lemma regexp_parse_ends_witness:
  "\<exists>mss. regexp_parse any_char (Some ''x'') ''ab''
      [\<lparr>channelRegexp = [], contentRegexp = [], reChannel = (0 :: nat), reContent = 1, func = (5 :: nat)\<rparr>] =
        Some (concat (map2 (\<lambda>r. map (Pair (func r)))
          [\<lparr>channelRegexp = [], contentRegexp = [], reChannel = (0 :: nat), reContent = 1, func = (5 :: nat)\<rparr>] mss)) \<and>
    mss = [[(1, [0, 1]), (1, [1, 2])]]"
proof -
  let ?r = "\<lparr>channelRegexp = [], contentRegexp = [], reChannel = (0 :: nat), reContent = 1, func = (5 :: nat)\<rparr>"
  have "\<forall>r \<in> set [?r]. progress_on any_char (reContent r) ''ab''"
    by (auto simp: progress_on_def any_char_def split: if_splits)
  from conjunct2 [OF regexp_parse_ends [OF this, of "''x''"]] obtain mss where
    mss: "regexp_parse any_char (Some ''x'') ''ab'' [?r] = Some (concat (map2 (\<lambda>r. map (Pair (func r))) [?r] mss))"
      "list_all2 (\<lambda>r ms. if fst (any_char (reChannel r) ''x'' 0) < 0 then ms = []
         else match_chain any_char (reContent r) ''ab'' 0 ms \<and> consecutive ms \<and> length ms \<le> length ''ab'' + 1) [?r] mss" by (rule exE) (erule conjE, rule that)
  from mss(2) obtain ms where ms: "mss = [ms]" "match_chain any_char 1 ''ab'' 0 ms"
    by (auto simp: list_all2_Cons1 any_char_def)
  from ms(2) obtain m n rest where r: "ms = m # n # rest"
    by (cases ms; cases "tl ms") (auto simp: any_char_def)
  with ms(2) have "m = (1, [0, 1])" "n = (1, [1, 2])" "rest = []"
    by (cases rest; simp add: any_char_def)+
  with mss(1) ms(1) r show ?thesis by blast
qed

text \<open>An expression that matches the empty string at the start of a message makes
  parsing this message run for ever.\<close>

theorem regexp_empty_match_hangs:
  assumes "fst (exec (reChannel r) fullspec 0) \<ge> 0" "exec (reContent r) msg 0 = (rc, ov)" "0 < rc" "ov ! 1 = 0"
  shows "regexp_parse exec (Some fullspec) msg (r # rs) = None"
  using assms(1) regexp_matches_empty_loops [of exec "reContent r" msg 0, OF assms(2-4)] by (simp add: regexp_parse_def)

lemma regexp_empty_match_hangs_witness:
  "regexp_parse (\<lambda>(r :: nat) s start. (1, [start, start])) (Some ''x'') ''ab''
     [\<lparr>channelRegexp = [], contentRegexp = ''a*?'', reChannel = 0, reContent = 1, func = (5 :: nat)\<rparr>] = None"
  by (rule regexp_empty_match_hangs [where rc = 1 and ov = "[0, 0]"]) simp_all

end
