(* ===== verification/Database.thy ===== *)
theory Database
  imports CString RingQueue
begin

text \<open>
  \<open>bot/src/mysql.c\<close>: how values are bound to a query, how the SQL text is built, and
  the queries the rest of the program queues. The MySQL server is not part of the model:
  a query is a number of \<open>QueryTable\<close> with its bound values.
\<close>

section \<open>Bound values\<close>

datatype enum_field_types = MYSQL_TYPE_TINY | MYSQL_TYPE_SHORT | MYSQL_TYPE_LONG | MYSQL_TYPE_LONGLONG
  | MYSQL_TYPE_STRING | MYSQL_TYPE_VAR_STRING | MYSQL_TYPE_TINY_BLOB | MYSQL_TYPE_BLOB | MYSQL_TYPE_OTHER

text \<open>What \<open>buffer\<close> points to: a number, a string, or an object of the program.\<close>

datatype bind_value = BInt int | BStr string | BObj addr

record MYSQL_BIND =
  buffer_type :: enum_field_types
  buffer :: "bind_value option"
  is_null :: bool

definition bind_empty :: MYSQL_BIND where
  "bind_empty = \<lparr>buffer_type = MYSQL_TYPE_OTHER, buffer = None, is_null = False\<rparr>"

text \<open>The casts to \<open>char\<close>, \<open>short\<close>, \<open>int\<close> and \<open>long long\<close>.\<close>

definition bind_numeric :: "int \<Rightarrow> enum_field_types \<Rightarrow> MYSQL_BIND" where
  "bind_numeric v ty =
     (case ty of
        MYSQL_TYPE_TINY \<Rightarrow> \<lparr>buffer_type = ty, buffer = Some (BInt (signed_take_bit 7 v)), is_null = False\<rparr>
      | MYSQL_TYPE_SHORT \<Rightarrow> \<lparr>buffer_type = ty, buffer = Some (BInt (signed_take_bit 15 v)), is_null = False\<rparr>
      | MYSQL_TYPE_LONG \<Rightarrow> \<lparr>buffer_type = ty, buffer = Some (BInt (signed_take_bit 31 v)), is_null = False\<rparr>
      | MYSQL_TYPE_LONGLONG \<Rightarrow> \<lparr>buffer_type = ty, buffer = Some (BInt (signed_take_bit 63 v)), is_null = False\<rparr>
      | _ \<Rightarrow> \<lparr>buffer_type = ty, buffer = None, is_null = True\<rparr>)"

definition bind_string :: "string option \<Rightarrow> enum_field_types \<Rightarrow> MYSQL_BIND" where
  "bind_string v ty =
     (case (ty, v) of
        (MYSQL_TYPE_VAR_STRING, Some s) \<Rightarrow> \<lparr>buffer_type = ty, buffer = Some (BStr s), is_null = False\<rparr>
      | (MYSQL_TYPE_BLOB, Some s) \<Rightarrow> \<lparr>buffer_type = ty, buffer = Some (BStr s), is_null = False\<rparr>
      | _ \<Rightarrow> \<lparr>buffer_type = ty, buffer = None, is_null = True\<rparr>)"

abbreviation bind_long :: "int \<Rightarrow> MYSQL_BIND" where
  "bind_long i \<equiv> bind_numeric i MYSQL_TYPE_LONG"

abbreviation bind_text :: "string \<Rightarrow> MYSQL_BIND" where
  "bind_text s \<equiv> bind_string (Some s) MYSQL_TYPE_VAR_STRING"

definition bind_null_blob :: "bind_value option \<Rightarrow> MYSQL_BIND" where
  "bind_null_blob v = \<lparr>buffer_type = MYSQL_TYPE_BLOB, buffer = v, is_null = True\<rparr>"

section \<open>Quoting\<close>

definition quoted_char :: "char \<Rightarrow> bool" where
  "quoted_char c \<longleftrightarrow> c = CHR 0x27 \<or> c = CHR 0x22 \<or> c = CHR 0x5C"

fun db_quote :: "string \<Rightarrow> string" where
  "db_quote [] = []"
| "db_quote (c # cs) = (if quoted_char c then CHR 0x5C # c # db_quote cs else c # db_quote cs)"

text \<open>
  How the server reads a string literal after its opening quote: a backslash takes the
  next character, a doubled quote is a quote, a single one ends the literal.
\<close>

fun sql_literal :: "string \<Rightarrow> (string \<times> string) option" where
  "sql_literal [] = None"
| "sql_literal (c # cs) =
     (if c = CHR 0x5C then
        (case cs of [] \<Rightarrow> None | d # ds \<Rightarrow> map_option (\<lambda>(s, r). (d # s, r)) (sql_literal ds))
      else if c = CHR 0x27 then
        (case cs of
           [] \<Rightarrow> Some ([], [])
         | d # ds \<Rightarrow> if d = CHR 0x27 then map_option (\<lambda>(s, r). (d # s, r)) (sql_literal ds) else Some ([], cs))
      else map_option (\<lambda>(s, r). (c # s, r)) (sql_literal cs))"

definition sql_quote :: "string \<Rightarrow> string" where
  "sql_quote s = CHR 0x27 # s @ [CHR 0x27]"

section \<open>The SQL text\<close>

text \<open>
  The text for a value that is not null and the length the code tests against the room in
  the buffer; \<open>None\<close> for a type it does not know (then the value is not used up) and for
  a buffer that does not hold a value of its type. \<open>%c\<close> of \<open>0\<close> is an empty string.
\<close>

definition db_render :: "MYSQL_BIND \<Rightarrow> (nat \<times> string) option" where
  "db_render a =
     (case (buffer_type a, buffer a) of
        (MYSQL_TYPE_TINY, Some (BInt v)) \<Rightarrow>
          let s = db_quote (if v mod 256 = 0 then [] else [char_of (nat (v mod 256))]) in Some (length s + 2, sql_quote s)
      | (MYSQL_TYPE_SHORT, Some (BInt v)) \<Rightarrow> Some (length (fmt_d v), fmt_d v)
      | (MYSQL_TYPE_LONG, Some (BInt v)) \<Rightarrow> Some (length (fmt_d v), fmt_d v)
      | (MYSQL_TYPE_LONGLONG, Some (BInt v)) \<Rightarrow> Some (length (fmt_d v), fmt_d v)
      | (MYSQL_TYPE_STRING, Some (BStr s)) \<Rightarrow> Some (length (db_quote s) + 2, sql_quote (db_quote s))
      | (MYSQL_TYPE_VAR_STRING, Some (BStr s)) \<Rightarrow> Some (length (db_quote s) + 2, sql_quote (db_quote s))
      | (MYSQL_TYPE_TINY_BLOB, Some (BStr s)) \<Rightarrow> Some (length (db_quote s) + 2, sql_quote (db_quote s))
      | (MYSQL_TYPE_BLOB, Some (BStr s)) \<Rightarrow> Some (length (db_quote s) + 2, sql_quote (db_quote s))
      | (MYSQL_TYPE_STRING, None) \<Rightarrow> Some (2, sql_quote [])
      | (MYSQL_TYPE_VAR_STRING, None) \<Rightarrow> Some (2, sql_quote [])
      | (MYSQL_TYPE_TINY_BLOB, None) \<Rightarrow> Some (2, sql_quote [])
      | (MYSQL_TYPE_BLOB, None) \<Rightarrow> Some (2, sql_quote [])
      | _ \<Rightarrow> None)"

text \<open>
  What becomes of a query: the text that is sent, the check of the room that gives up, with the text so
  far, or a text that overran the buffer on the way.
\<close>

datatype sql_result = SqlOverflow string | SqlText string | SqlOverrun

text \<open>
  The loop of \<open>db_query\<close> over the query. \<open>args = None\<close> is a \<open>NULL\<close> array;
  \<open>buflen\<close> is the room the code believes is left. \<open>None\<close>: the loop does not end,
  reads past the array, or follows a pointer that is not a value of its type.
\<close>

partial_function (option) db_query_loop ::
    "string \<Rightarrow> MYSQL_BIND list option \<Rightarrow> nat \<Rightarrow> nat \<Rightarrow> nat \<Rightarrow> string \<Rightarrow> sql_result option" where
  "db_query_loop query args arg_count count buflen sqlbuf =
     (case strchr (CHR ''?'') query of
        None \<Rightarrow> Some (SqlText (sqlbuf @ take buflen query))
      | Some len \<Rightarrow>
          (case args of
             None \<Rightarrow> db_query_loop query None arg_count count buflen (sqlbuf @ take buflen query)
           | Some as \<Rightarrow>
               if buflen < len then Some (SqlOverflow sqlbuf)
               else
                 let sqlbuf = sqlbuf @ take len query; query = drop (len + 1) query; count = count + 1 in
                 if count > arg_count then Some (SqlText sqlbuf)
                 else
                   (case as of
                      [] \<Rightarrow> None
                    | a # rest \<Rightarrow>
                        if is_null a then
                          if buflen < 4 then Some (SqlOverflow sqlbuf)
                          else db_query_loop query (Some rest) arg_count count (buflen - 4) (sqlbuf @ ''NULL'')
                        else
                          (case db_render a of
                             None \<Rightarrow>
                               if buffer_type a = MYSQL_TYPE_OTHER then db_query_loop query (Some as) arg_count count buflen sqlbuf
                               else None
                           | Some (n, text) \<Rightarrow>
                               if buflen < n then Some (SqlOverflow sqlbuf)
                               else db_query_loop query (Some rest) arg_count count buflen (sqlbuf @ text)))))"

declare db_query_loop.simps [code]

text \<open>
  \<open>db_setup\<close> gives the buffer \<open>MAX_STRING_LENGTH\<close> bytes. Text is only ever appended, so the buffer was
  overrun if what is there at the end, with its zero byte, is longer.
\<close>

definition sql_in_buffer :: "sql_result \<Rightarrow> sql_result" where
  "sql_in_buffer r =
     (case r of
        SqlText t \<Rightarrow> if length t < MAX_STRING_LENGTH then r else SqlOverrun
      | SqlOverflow t \<Rightarrow> if length t < MAX_STRING_LENGTH then r else SqlOverrun
      | SqlOverrun \<Rightarrow> r)"

definition db_query_text :: "string \<Rightarrow> MYSQL_BIND list option \<Rightarrow> sql_result option" where
  "db_query_text query args =
     map_option sql_in_buffer
       (db_query_loop query args (case args of None \<Rightarrow> 0 | Some as \<Rightarrow> length as) 0 (MAX_STRING_LENGTH - 1) [])"

section \<open>The query table\<close>

datatype QueryChain = CHAIN_UPDATE_NICK | CHAIN_FLUSH_NICK | CHAIN_SET_SETTING | CHAIN_SET_AUTH

definition QueryTable :: "(string \<times> QueryChain option) list" where
  "QueryTable = [
    (''SELECT `serverid`, `server`, `port`, `password`, `nick`, `username`, `realname`, `nickserv'' @
       ''`, `nickservmsg`, `floodInterval`, `floodMaxTime`, `floodBuffer`, `floodMaxLine`, `enabled'' @
       ''` FROM `servers` ORDER BY `serverid`'', None),
    (''SELECT `chanid`, `channel`, `url`, `notifywindow`, `cmdChar`, `enabled` FROM `channels` WH'' @
       ''ERE `serverid` = ? ORDER BY `chanid`'', None),
    (''INSERT INTO `irclog` (`chanid`, `timestamp`, `nick`, `msgtype`, `message`) VALUES ( ?, ?, '' @
       ''?, ?, ? )'', None),
    (''SELECT * FROM `nicks` WHERE `chanid` = ? AND `nick` = ?'', Some CHAIN_UPDATE_NICK),
    (''UPDATE `nicks` SET `lastseen` = ?, `present` = ? WHERE `chanid` = ? AND `nick` = ?'', None),
    (''INSERT INTO `nicks` (`lastseen`, `present`, `chanid`, `nick`, `lastnotice`) VALUES ( ?, ?,'' @
       '' ?, ?, 0 )'', None),
    (''UPDATE `nicks` SET `present` = 0 WHERE `chanid` = ?'', None),
    (''SELECT DISTINCT `nicks`.`chanid` FROM `nicks`, `channels` WHERE `nicks`.`chanid` = `channe'' @
       ''ls`.`chanid` AND `channels`.`serverid` = ? AND `nicks`.`nick` = ? AND `nicks`.`present` = '' @
       ''1'', Some CHAIN_FLUSH_NICK),
    (''SELECT `lastnotice` FROM `nicks` WHERE `chanid` = ? AND `nick` = ? AND `lastnotice` <= ? A'' @
       ''ND `present` = 1'', None),
    (''INSERT INTO `nickhistory` ( `chanid`, `nick`, `histType`, `timestamp` ) VALUES ( ?, ?, ?, '' @
       ''? )'', None),
    (''UPDATE `nicks` SET `lastnotice` = ? WHERE `chanid` = ? AND `nick` = ?'', None),
    (''SELECT `pluginName`, `libName`, `preload`, `arguments` FROM `plugins`'', None),
    (''SELECT UNIX_TIMESTAMP(NOW()) - `lastseen`, `present` FROM `nicks` WHERE `chanid` = ? AND `'' @
       ''nick` = ?'', None),
    (''SELECT `value` FROM `settings` WHERE `name` = ? LIMIT 1'', None),
    (''SELECT `value` FROM `settings` WHERE `name` = ? LIMIT 1'', Some CHAIN_SET_SETTING),
    (''UPDATE `settings` SET `value` = ? WHERE `name` = ?'', None),
    (''INSERT INTO `settings` (`name`, `value`) VALUES ( ?, ? )'', None),
    (''SELECT `username`, `digest`, `seed`, `key`, `keyIndex` FROM `userauth` WHERE `username` = '' @
       ''? LIMIT 1'', None),
    (''SELECT * FROM `userauth` WHERE `username` = ? LIMIT 1'', Some CHAIN_SET_AUTH),
    (''UPDATE `userauth` SET `digest` = ?, `seed` = ?, `key` = ?, `keyIndex` = ? WHERE `username`'' @
       '' = ?'', None),
    (''INSERT INTO `userauth` (`username`, `digest`, `seed`, `key`, `keyIndex`) VALUES ( ?, ?, ?,'' @
       '' ?, ? )'', None),
    (''SELECT `pluginName` FROM `plugins` WHERE `pluginName` = ?'', None),
    (''INSERT INTO `plugins` ( `pluginName`, `libName`, `preload`, `arguments`) VALUES ( ?, ?, ?,'' @
       '' ? )'', None),
    (''SELECT `name`, `value` FROM `settings` ORDER BY `name` ASC'', None),
    (''UPDATE `channels` SET `serverid` = ?, `channel` = ?, `url` = ?, `notifywindow` = ?, `cmdCh'' @
       ''ar` = ?, `enabled` = ? WHERE `chanid` = ?'', None),
    (''UPDATE `servers` SET `server` = ?, `port` = ?, `password` = ?, `nick` = ?, `username` = ?,'' @
       '' `realname` = ?, `nickserv` = ?, `nickservmsg` = ?, `floodInterval` = ?, `floodMaxTime` = '' @
       ''?, `floodBuffer` = ?, `floodMaxLine` = ?, `enabled` = ? WHERE `serverid` = ? '', None),
    (''INSERT INTO `channels` ( `serverid`, `channel`, `url`, `notifywindow`, `cmdChar`, `enabled'' @
       ''`) VALUES ( ?, ?, ?, ?, ?, ? )'', None),
    (''INSERT INTO `servers` ( `server`, `port`, `password`, `nick`, `username`, `realname`, `nic'' @
       ''kserv`, `nickservmsg`, `floodInterval`, `floodMaxTime`, `floodBuffer`, `floodMaxLine`, `en'' @
       ''abled` ) VALUES ( ?, ?, ?, ?, ?, ?, ?, ?, ?, ?, ?, ?, ? )'', None),
    (''SELECT COUNT(msgid) FROM `irclog` WHERE `msgType` = 0 OR `msgType` = 1 '', None),
    (''SELECT `chanid`, `nick`, `message`, `timestamp` FROM `irclog` WHERE `msgType` = 0 OR `msgT'' @
       ''ype` = 1 LIMIT ?, 1000000'', None)]"

section \<open>Queries\<close>

record QueryItem_t =
  queryId :: nat
  queryData :: "MYSQL_BIND list option"
  querySequence :: "32 word"

text \<open>
  \<open>db_queue_query\<close>: the sequence number is counted up, the item is queued; with a mutex
  the caller waits until the MySQL thread has run it (\<open>sync\<close>).
\<close>

record QueryState =
  sequence :: "32 word"
  queued :: "(QueryItem_t \<times> bool) list"

definition db_queue_query :: "nat \<Rightarrow> MYSQL_BIND list option \<Rightarrow> bool \<Rightarrow> QueryState \<Rightarrow> QueryState" where
  "db_queue_query qid qdata sync st =
     (let n = sequence st + 1 in
      st\<lparr>sequence := n, queued := queued st @ [(\<lparr>queryId = qid, queryData = qdata, querySequence = n\<rparr>, sync)]\<rparr>)"

text \<open>A query to be queued: its number, its values, and whether the caller waits.\<close>

type_synonym query = "nat \<times> MYSQL_BIND list option \<times> bool"

datatype IRCMsgType_t = TYPE_MESSAGE | TYPE_ACTION | TYPE_TOPIC | TYPE_KICK | TYPE_MODE
  | TYPE_NICK | TYPE_JOIN | TYPE_PART | TYPE_QUIT

fun msgtype_num :: "IRCMsgType_t \<Rightarrow> int" where
  "msgtype_num TYPE_MESSAGE = 0" | "msgtype_num TYPE_ACTION = 1" | "msgtype_num TYPE_TOPIC = 2"
| "msgtype_num TYPE_KICK = 3" | "msgtype_num TYPE_MODE = 4" | "msgtype_num TYPE_NICK = 5"
| "msgtype_num TYPE_JOIN = 6" | "msgtype_num TYPE_PART = 7" | "msgtype_num TYPE_QUIT = 8"

datatype NickHistory_t = HIST_END | HIST_START | HIST_INITIAL | HIST_JOIN | HIST_LEAVE

fun hist_num :: "NickHistory_t \<Rightarrow> int" where
  "hist_num HIST_END = -2" | "hist_num HIST_START = -1" | "hist_num HIST_INITIAL = 0"
| "hist_num HIST_JOIN = 1" | "hist_num HIST_LEAVE = 2"

text \<open>
  A channel is given by its id (\<open>None\<close>: \<open>NULL\<close>). The buffer for the nick has
  \<open>strlen(nick)\<close> bytes. A result of \<open>None\<close> is a fault.
\<close>

definition nick_only :: "bool \<Rightarrow> string \<Rightarrow> string option" where
  "nick_only extract nick = (if extract then BN_ExtractNick (Some nick) (length nick) else Some nick)"

definition of_bool_int :: "bool \<Rightarrow> int" where
  "of_bool_int b = (if b then 1 else 0)"

datatype db_action = Queue query | ClucenAdd int string string int

definition db_add_logentry ::
    "int \<Rightarrow> int option \<Rightarrow> string option \<Rightarrow> IRCMsgType_t \<Rightarrow> string option \<Rightarrow> bool \<Rightarrow> db_action list option" where
  "db_add_logentry now channel nick msgType text extract =
     (case (channel, nick, text) of
        (Some chan, Some nk, Some tx) \<Rightarrow>
          do {
            n \<leftarrow> nick_only extract nk;
            Some (Queue (2, Some [bind_numeric chan MYSQL_TYPE_LONG, bind_numeric now MYSQL_TYPE_LONGLONG,
                      bind_string (Some n) MYSQL_TYPE_VAR_STRING, bind_numeric (msgtype_num msgType) MYSQL_TYPE_LONG,
                      bind_string (Some tx) MYSQL_TYPE_BLOB], False) #
                  (if msgType = TYPE_MESSAGE \<or> msgType = TYPE_ACTION then [ClucenAdd chan n tx now] else []))
          }
      | _ \<Rightarrow> Some [])"

definition db_update_nick :: "int \<Rightarrow> int option \<Rightarrow> string option \<Rightarrow> bool \<Rightarrow> bool \<Rightarrow> db_action list option" where
  "db_update_nick now channel nick present extract =
     (case (channel, nick) of
        (Some chan, Some nk) \<Rightarrow>
          do {
            n \<leftarrow> nick_only extract nk;
            Some [Queue (3, Some [bind_numeric chan MYSQL_TYPE_LONG, bind_string (Some n) MYSQL_TYPE_VAR_STRING,
              bind_numeric now MYSQL_TYPE_LONGLONG, bind_numeric (of_bool_int present) MYSQL_TYPE_LONG], False)]
          }
      | _ \<Rightarrow> Some [])"

definition db_flush_nicks :: "int \<Rightarrow> db_action list" where
  "db_flush_nicks chan = [Queue (6, Some [bind_numeric chan MYSQL_TYPE_LONG], False)]"

definition db_flush_nick :: "int \<times> addr \<Rightarrow> string \<Rightarrow> IRCMsgType_t \<Rightarrow> string \<Rightarrow> string option \<Rightarrow> db_action list option" where
  "db_flush_nick server nick type text newNick =
     do {
       n \<leftarrow> nick_only True nick;
       Some [Queue (7, Some [bind_numeric (fst server) MYSQL_TYPE_LONG, bind_string (Some n) MYSQL_TYPE_VAR_STRING,
         bind_string (Some text) MYSQL_TYPE_BLOB, bind_string newNick MYSQL_TYPE_VAR_STRING,
         bind_numeric (msgtype_num type) MYSQL_TYPE_LONG, bind_null_blob (Some (BObj (snd server)))], False)]
     }"

definition db_check_nick_notify :: "int \<Rightarrow> int option \<Rightarrow> string option \<Rightarrow> int \<Rightarrow> db_action list" where
  "db_check_nick_notify now channel nick hours =
     (case (channel, nick) of
        (Some chan, Some nk) \<Rightarrow>
          if hours < 0 then []
          else [Queue (8, Some [bind_numeric chan MYSQL_TYPE_LONG, bind_string (Some nk) MYSQL_TYPE_VAR_STRING,
            bind_numeric (now - signed_take_bit 31 (3600 * hours)) MYSQL_TYPE_LONGLONG], True)]
      | _ \<Rightarrow> [])"

definition db_nick_history :: "int \<Rightarrow> int option \<Rightarrow> string \<Rightarrow> NickHistory_t \<Rightarrow> db_action list" where
  "db_nick_history now channel nick type =
     (case channel of
        None \<Rightarrow> []
      | Some chan \<Rightarrow> [Queue (9, Some [bind_numeric chan MYSQL_TYPE_LONG, bind_string (Some nick) MYSQL_TYPE_VAR_STRING,
          bind_numeric (hist_num type) MYSQL_TYPE_LONG, bind_numeric now MYSQL_TYPE_LONGLONG], False)])"

definition db_notify_nick :: "int \<Rightarrow> int option \<Rightarrow> string option \<Rightarrow> db_action list" where
  "db_notify_nick now channel nick =
     (case (channel, nick) of
        (Some chan, Some nk) \<Rightarrow> [Queue (10, Some [bind_numeric now MYSQL_TYPE_LONGLONG,
          bind_numeric chan MYSQL_TYPE_LONG, bind_string (Some nk) MYSQL_TYPE_VAR_STRING], False)]
      | _ \<Rightarrow> [])"

definition db_get_setting :: "string option \<Rightarrow> db_action list" where
  "db_get_setting name =
     (case name of None \<Rightarrow> [] | Some n \<Rightarrow> [Queue (13, Some [bind_string (Some n) MYSQL_TYPE_VAR_STRING], True)])"

definition db_set_setting :: "string option \<Rightarrow> string option \<Rightarrow> db_action list" where
  "db_set_setting name formatted =
     (case (name, formatted) of
        (Some n, Some v) \<Rightarrow> [Queue (14, Some [bind_string (Some n) MYSQL_TYPE_VAR_STRING,
          bind_string (Some (snprintf 256 v)) MYSQL_TYPE_VAR_STRING], False)]
      | _ \<Rightarrow> [])"

definition db_get_auth :: "string option \<Rightarrow> db_action list" where
  "db_get_auth nick =
     (case nick of None \<Rightarrow> [] | Some n \<Rightarrow> [Queue (17, Some [bind_string (Some n) MYSQL_TYPE_VAR_STRING], True)])"

definition db_set_auth :: "string option \<Rightarrow> addr option \<Rightarrow> db_action list" where
  "db_set_auth nick auth =
     (case (nick, auth) of
        (Some n, Some a) \<Rightarrow> [Queue (18, Some [bind_string (Some n) MYSQL_TYPE_VAR_STRING, bind_null_blob (Some (BObj a))], False)]
      | _ \<Rightarrow> [])"

section \<open>Chained queries\<close>

text \<open>
  What the MySQL thread queues when a query has returned \<open>rows\<close> rows. The values of a
  chained query are the same array, reordered.
\<close>

definition chain_update_nick :: "nat \<Rightarrow> MYSQL_BIND list \<Rightarrow> query option" where
  "chain_update_nick rows qdata =
     (case qdata of
        [a, b, c, d] \<Rightarrow> Some (if rows > 0 then 4 else 5, Some [c, d, a, b], False)
      | _ \<Rightarrow> None)"

definition chain_set_setting :: "nat \<Rightarrow> MYSQL_BIND list \<Rightarrow> query option" where
  "chain_set_setting rows qdata =
     (case qdata of
        [a, b] \<Rightarrow> Some (if rows > 0 then (15, Some [b, a], False) else (16, Some [a, b], False))
      | _ \<Rightarrow> None)"

text \<open>The parts of \<open>AuthData_t\<close> that are stored.\<close>

record AuthRow =
  ar_digest :: string
  ar_seed :: string
  ar_hash :: string
  ar_count :: int

definition chain_set_auth :: "nat \<Rightarrow> string \<Rightarrow> AuthRow \<Rightarrow> query" where
  "chain_set_auth rows nick auth =
     (let vs = (\<lambda>s. bind_string (Some s) MYSQL_TYPE_VAR_STRING); vc = bind_numeric (ar_count auth) MYSQL_TYPE_LONG in
      if rows > 0 then (19, Some [vs (ar_digest auth), vs (ar_seed auth), vs (ar_hash auth), vc, vs nick], False)
      else (20, Some [vs nick, vs (ar_digest auth), vs (ar_seed auth), vs (ar_hash auth), vc], False))"

text \<open>
  \<open>chain_flush_nick\<close>: the nick left (or changed its name) in every channel of the
  result; \<open>known\<close> is \<open>FindChannelNum\<close>.
\<close>

definition chain_flush_one :: "int \<Rightarrow> int option \<Rightarrow> string \<Rightarrow> IRCMsgType_t \<Rightarrow> string \<Rightarrow> string option \<Rightarrow> db_action list option" where
  "chain_flush_one now channel nick type text newNick = do {
     a \<leftarrow> db_update_nick now channel (Some nick) False False;
     let b = db_nick_history now channel nick HIST_LEAVE in do {
     c \<leftarrow> (case newNick of
             None \<Rightarrow> Some []
           | Some n \<Rightarrow> do { u \<leftarrow> db_update_nick now channel (Some n) True False; Some (u @ db_nick_history now channel n HIST_JOIN) });
     d \<leftarrow> db_add_logentry now channel (Some nick) type (Some text) False;
     Some (a @ b @ c @ d) }
   }"

fun chain_flush_nick :: "int \<Rightarrow> (int \<Rightarrow> int option) \<Rightarrow> int list \<Rightarrow> string \<Rightarrow> IRCMsgType_t \<Rightarrow> string \<Rightarrow> string option \<Rightarrow> db_action list option" where
  "chain_flush_nick now known [] nick type text newNick = Some []"
| "chain_flush_nick now known (r # rows) nick type text newNick = do {
     a \<leftarrow> chain_flush_one now (known r) nick type text newNick;
     b \<leftarrow> chain_flush_nick now known rows nick type text newNick;
     Some (a @ b)
   }"

text \<open>Saving a channel or a server that was edited; a new one (\<open>-1\<close>) is inserted and waits for its id.\<close>

record ChannelRow =
  cr_server :: int
  cr_channel :: string
  cr_url :: string
  cr_notifywindow :: int
  cr_cmdChar :: char
  cr_enabled :: bool
  cr_id :: int

definition db_update_channel :: "bool \<Rightarrow> ChannelRow \<Rightarrow> query" where
  "db_update_channel isNew c =
     (let vs = (\<lambda>s. bind_string (Some s) MYSQL_TYPE_VAR_STRING);
          qs = [bind_numeric (cr_server c) MYSQL_TYPE_LONG, vs (cr_channel c), vs (cr_url c),
             bind_numeric (cr_notifywindow c) MYSQL_TYPE_LONG, bind_numeric (of_char (cr_cmdChar c)) MYSQL_TYPE_TINY,
             bind_numeric (of_bool_int (cr_enabled c)) MYSQL_TYPE_LONG, bind_numeric (cr_id c) MYSQL_TYPE_LONG] in
      if isNew then (26, Some (take 6 qs), True) else (24, Some qs, False))"

record ServerRow =
  sr_server :: string
  sr_port :: int
  sr_strings :: "string list"
  sr_flood :: "int list"
  sr_enabled :: bool
  sr_id :: int

text \<open>\<open>sr_strings\<close>: password, nick, username, realname, nickserv, nickservmsg; \<open>sr_flood\<close>: interval, time, buffer, line.\<close>

definition db_update_server :: "ServerRow \<Rightarrow> query" where
  "db_update_server s =
     (let vs = (\<lambda>s. bind_string (Some s) MYSQL_TYPE_VAR_STRING); vn = (\<lambda>n. bind_numeric n MYSQL_TYPE_LONG);
          qs = [vs (sr_server s), vn (sr_port s)] @ map vs (sr_strings s) @ map vn (sr_flood s) @
             [vn (of_bool_int (sr_enabled s)), vn (sr_id s)] in
      if sr_id s = -1 then (27, Some (take 13 qs), True) else (25, Some qs, False))"

text \<open>The queries for the servers, for the channels of a server, for the plugins, and for the page with the tables of the database.\<close>

definition load_servers_query :: query where
  "load_servers_query = (0, None, True)"

definition load_channels_query :: "int \<Rightarrow> query" where
  "load_channels_query serverId = (1, Some [bind_numeric serverId MYSQL_TYPE_LONG], True)"

definition get_plugins_query :: query where
  "get_plugins_query = (11, None, True)"

definition cursesMySQLSchema :: query where
  "cursesMySQLSchema = (23, None, False)"

section \<open>Quoting is safe\<close>

lemma db_quote_literal:
  "(case rest of [] \<Rightarrow> True | c # _ \<Rightarrow> c \<noteq> CHR 0x27) \<Longrightarrow> sql_literal (db_quote s @ CHR 0x27 # rest) = Some (s, rest)"
proof (induction s)
  case Nil
  then show ?case by (cases rest) auto
next
  case (Cons c s)
  then show ?case by (auto simp: quoted_char_def)
qed

lemma length_db_quote: "length (db_quote s) = length s + length (filter quoted_char s)"
  by (induction s) auto

section \<open>What \<open>db_query\<close> builds\<close>

definition placeholders :: "string \<Rightarrow> nat" where
  "placeholders q = length (filter (\<lambda>c. c = CHR ''?'') q)"

fun fill :: "string \<Rightarrow> string list \<Rightarrow> string" where
  "fill [] ts = []"
| "fill (c # cs) ts =
     (if c = CHR ''?'' then (case ts of [] \<Rightarrow> [] | t # ts \<Rightarrow> t @ fill cs ts) else c # fill cs ts)"

lemma strchr_split:
  "strchr c s = Some n \<Longrightarrow> s = take n s @ c # drop (n + 1) s \<and> c \<notin> set (take n s)"
  using strchr_Some [of c s n] by (auto simp: id_take_nth_drop)

lemma placeholders_append [simp]: "placeholders (xs @ ys) = placeholders xs + placeholders ys"
  by (simp add: placeholders_def)

lemma placeholders_none: "CHR ''?'' \<notin> set xs \<Longrightarrow> placeholders xs = 0"
  by (induction xs) (auto simp: placeholders_def)

lemma placeholders_step:
  "strchr (CHR ''?'') q = Some n \<Longrightarrow> placeholders q = Suc (placeholders (drop (n + 1) q))"
proof -
  assume a: "strchr (CHR ''?'') q = Some n"
  note s = strchr_split [OF a]
  have "placeholders q = placeholders (take n q @ CHR ''?'' # drop (n + 1) q)" using s by metis
  then show ?thesis using s placeholders_none [of "take n q"] by (simp add: placeholders_def)
qed

lemma fill_prefix: "CHR ''?'' \<notin> set xs \<Longrightarrow> fill (xs @ ys) ts = xs @ fill ys ts"
  by (induction xs) auto

lemma fill_none: "CHR ''?'' \<notin> set q \<Longrightarrow> fill q ts = q"
  by (induction q) auto

definition db_text :: "MYSQL_BIND \<Rightarrow> string" where
  "db_text a = (case db_render a of Some (n, t) \<Rightarrow> t | None \<Rightarrow> [])"

definition fits :: "nat \<Rightarrow> MYSQL_BIND \<Rightarrow> bool" where
  "fits buflen a \<longleftrightarrow> \<not> is_null a \<and> (case db_render a of Some (n, t) \<Rightarrow> n \<le> buflen | None \<Rightarrow> False)"

text \<open>
  The text is the query with its values in place. The room \<open>buflen\<close> is compared with
  each piece alone and does not shrink: the sum is not bounded by it.
\<close>

lemma db_query_loop_fill:
  "\<forall>a \<in> set as. fits buflen a \<Longrightarrow> placeholders q \<le> length as \<Longrightarrow> count + placeholders q \<le> arg_count \<Longrightarrow> length q \<le> buflen \<Longrightarrow>
   db_query_loop q (Some as) arg_count count buflen sqlbuf = Some (SqlText (sqlbuf @ fill q (map db_text as)))"
proof (induction "length q" arbitrary: q as count sqlbuf rule: less_induct)
  case less
  show ?case
  proof (cases "strchr (CHR ''?'') q")
    case None
    then have "CHR ''?'' \<notin> set q" by (simp only: strchr_None not_False_eq_True)
    with None less.prems show ?thesis
      by (subst db_query_loop.simps) (simp add: fill_none)
  next
    case (Some n)
    note sp = strchr_split [OF Some] and pl = placeholders_step [OF Some]
    from pl less.prems obtain a rest where as: "as = a # rest" by (cases as) auto
    with less.prems obtain m t where r: "db_render a = Some (m, t)" "m \<le> buflen" "\<not> is_null a"
      by (auto simp: fits_def split: option.splits)
    have n: "n \<le> buflen" "n < length q" using less.prems strchr_Some [OF Some] by auto
    have "fill q (map db_text as) = take n q @ t @ fill (drop (n + 1) q) (map db_text rest)"
    proof -
      have "fill q (map db_text as) = fill (take n q @ CHR ''?'' # drop (n + 1) q) (map db_text as)" using sp by metis
      then show ?thesis using sp as r by (simp add: fill_prefix db_text_def)
    qed
    moreover have "db_query_loop (drop (n + 1) q) (Some rest) arg_count (count + 1) buflen (sqlbuf @ take n q @ t) =
        Some (SqlText ((sqlbuf @ take n q @ t) @ fill (drop (n + 1) q) (map db_text rest)))"
      using less.prems as pl n by (intro less.hyps) auto
    ultimately show ?thesis
      using Some as r n less.prems pl by (subst db_query_loop.simps) (simp add: Let_def)
  qed
qed

definition well_bound :: "MYSQL_BIND \<Rightarrow> bool" where
  "well_bound a \<longleftrightarrow> is_null a \<or> buffer_type a = MYSQL_TYPE_OTHER \<or> db_render a \<noteq> None"

lemma db_query_loop_returns:
  "placeholders q \<le> length as \<Longrightarrow> \<forall>a \<in> set as. well_bound a \<Longrightarrow> \<exists>r. db_query_loop q (Some as) arg_count count buflen sqlbuf = Some r"
proof (induction "length q" arbitrary: q as count buflen sqlbuf rule: less_induct)
  case less
  show ?case
  proof (cases "strchr (CHR ''?'') q")
    case None
    then show ?thesis by (subst db_query_loop.simps) simp
  next
    case (Some n)
    note pl = placeholders_step [OF Some]
    from pl less.prems obtain a rest where as: "as = a # rest" by (cases as) auto
    have n: "length (drop (n + 1) q) < length q" using strchr_Some [OF Some] by auto
    have 1: "\<exists>r. db_query_loop (drop (n + 1) q) (Some rest) arg_count (count + 1) b s = Some r" for b s
      using less.hyps [OF n, of rest] less.prems pl as by simp
    have 2: "\<exists>r. db_query_loop (drop (n + 1) q) (Some as) arg_count (count + 1) b s = Some r" for b s
      using less.hyps [OF n, of as] less.prems pl by simp
    from Some as 1 2 show ?thesis
      using less.prems by (subst db_query_loop.simps) (auto simp: Let_def well_bound_def split: option.split)
  qed
qed

text \<open>A pattern with a placeholder and no values never returns.\<close>

lemma db_query_no_values_loops:
  assumes "placeholders q > 0"
  shows "db_query_loop q None arg_count count buflen sqlbuf = None"
proof (rule ccontr)
  assume "db_query_loop q None arg_count count buflen sqlbuf \<noteq> None"
  then obtain r where r: "db_query_loop q None arg_count count buflen sqlbuf = Some r" by auto
  have "(None :: MYSQL_BIND list option) = None \<longrightarrow> placeholders q = 0"
  proof (rule db_query_loop.raw_induct [where P = "\<lambda>x y ac c b s r. y = None \<longrightarrow> placeholders x = 0", OF _ r])
    fix f x y ac c b s r
    assume IH: "\<And>x y ac c b s r. f x y ac c b s = Some r \<Longrightarrow> y = None \<longrightarrow> placeholders x = 0"
      and h: "(case strchr (CHR ''?'') x of None \<Rightarrow> Some (SqlText (s @ take b x))
      | Some len \<Rightarrow>
          (case y of
             None \<Rightarrow> f x None ac c b (s @ take b x)
           | Some as \<Rightarrow>
               if b < len then Some (SqlOverflow s)
               else
                 let sqlbuf = s @ take len x; query = drop (len + 1) x; count = c + 1 in
                 if count > ac then Some (SqlText sqlbuf)
                 else
                   (case as of
                      [] \<Rightarrow> None
                    | a # rest \<Rightarrow>
                        if is_null a then
                          if b < 4 then Some (SqlOverflow sqlbuf)
                          else f query (Some rest) ac count (b - 4) (sqlbuf @ ''NULL'')
                        else
                          (case db_render a of
                             None \<Rightarrow> if buffer_type a = MYSQL_TYPE_OTHER then f query (Some as) ac count b sqlbuf else None
                           | Some (n, text) \<Rightarrow>
                               if b < n then Some (SqlOverflow sqlbuf)
                               else f query (Some rest) ac count b (sqlbuf @ text))))) = Some r"
    show "y = None \<longrightarrow> placeholders x = 0"
    proof
      assume y: "y = None"
      show "placeholders x = 0"
      proof (cases "strchr (CHR ''?'') x")
        case None
        then show ?thesis using placeholders_none strchr_None by blast
      next
        case (Some n)
        with h y have "f x None ac c b (s @ take b x) = Some r" by simp
        from IH [OF this] show ?thesis by simp
      qed
    qed
  qed
  with assms show False by simp
qed


section \<open>The queries fit their patterns\<close>

definition query_ok :: "query \<Rightarrow> bool" where
  "query_ok q \<longleftrightarrow> fst q < length QueryTable \<and>
     (case fst (snd q) of
        None \<Rightarrow> placeholders (fst (QueryTable ! fst q)) = 0
      | Some as \<Rightarrow> placeholders (fst (QueryTable ! fst q)) \<le> length as \<and> (\<forall>a \<in> set as. well_bound a))"

text \<open>The same for the query table of a plugin.\<close>

definition fits_table :: "string list \<Rightarrow> query \<Rightarrow> bool" where
  "fits_table T q \<longleftrightarrow> fst q < length T \<and>
     (case fst (snd q) of
        None \<Rightarrow> placeholders (T ! fst q) = 0
      | Some as \<Rightarrow> placeholders (T ! fst q) = length as \<and> (\<forall>a \<in> set as. well_bound a))"

lemma fits_table_nth:
  "map placeholders T = ps \<Longrightarrow> fits_table T (n, a, sync) \<longleftrightarrow> n < length ps \<and>
     (case a of None \<Rightarrow> ps ! n = 0 | Some as \<Rightarrow> ps ! n = length as \<and> (\<forall>a \<in> set as. well_bound a))"
  by (auto simp: fits_table_def split: option.splits)

fun action_ok :: "db_action \<Rightarrow> bool" where
  "action_ok (Queue q) = query_ok q"
| "action_ok (ClucenAdd c n t w) = True"

lemma QueryTable_placeholders:
  "map (\<lambda>q. placeholders (fst q)) QueryTable =
     [0, 1, 5, 2, 4, 4, 1, 2, 3, 4, 3, 0, 2, 1, 1, 2, 2, 1, 1, 5, 5, 1, 4, 0, 7, 14, 6, 13, 0, 1]"
  by code_simp

lemma length_QueryTable [simp]: "length QueryTable = 30"
  by (simp add: QueryTable_def)

lemma placeholders_nth [simp]:
  "i < 30 \<Longrightarrow> placeholders (fst (QueryTable ! i)) =
     [0, 1, 5, 2, 4, 4, 1, 2, 3, 4, 3, 0, 2, 1, 1, 2, 2, 1, 1, 5, 5, 1, 4, 0, 7, 14, 6, 13, 0, 1] ! i"
  using QueryTable_placeholders nth_map [of i QueryTable "\<lambda>q. placeholders (fst q)"] by simp

lemma well_bound_numeric [simp]: "well_bound (bind_numeric v ty)"
  by (cases ty) (simp_all add: bind_numeric_def well_bound_def db_render_def Let_def)

lemma well_bound_string [simp]: "well_bound (bind_string v ty)"
  by (cases ty; cases v) (simp_all add: bind_string_def well_bound_def db_render_def)

lemma well_bound_blob [simp]: "well_bound (bind_null_blob v)"
  by (simp add: bind_null_blob_def well_bound_def)

lemma query_ok_returns:
  assumes "query_ok q"
  shows "\<exists>r. db_query_text (fst (QueryTable ! fst q)) (fst (snd q)) = Some r"
proof (cases "fst (snd q)")
  case None
  with assms have "placeholders (fst (QueryTable ! fst q)) = 0" by (simp only: query_ok_def option.case)
  then have "strchr (CHR ''?'') (fst (QueryTable ! fst q)) = None"
    using placeholders_step [of "fst (QueryTable ! fst q)"] by (cases "strchr (CHR ''?'') (fst (QueryTable ! fst q))") auto
  with None show ?thesis by (simp add: db_query_text_def db_query_loop.simps [of "fst (QueryTable ! fst q)"])
next
  case (Some as)
  with assms have "placeholders (fst (QueryTable ! fst q)) \<le> length as" "\<forall>a \<in> set as. well_bound a"
    by (auto simp only: query_ok_def option.case)
  from db_query_loop_returns [OF this, of "length as" 0 "MAX_STRING_LENGTH - 1" "[]"] Some show ?thesis
    by (auto simp: db_query_text_def)
qed

lemma db_add_logentry_ok: "db_add_logentry now c n ty t e = Some acts \<Longrightarrow> list_all action_ok acts"
  by (auto simp: db_add_logentry_def query_ok_def nick_only_def bind_eq_Some_conv split: option.splits if_splits)

lemma db_update_nick_ok: "db_update_nick now c n p e = Some acts \<Longrightarrow> list_all action_ok acts"
  by (auto simp: db_update_nick_def query_ok_def nick_only_def bind_eq_Some_conv split: option.splits if_splits)

lemma db_flush_nick_ok: "db_flush_nick s n ty t nn = Some acts \<Longrightarrow> list_all action_ok acts"
  by (auto simp: db_flush_nick_def query_ok_def nick_only_def bind_eq_Some_conv split: option.splits if_splits)

lemma db_single_ok [simp]:
  "list_all action_ok (db_flush_nicks chan)" "list_all action_ok (db_check_nick_notify now c n h)"
  "list_all action_ok (db_nick_history now c nk hty)" "list_all action_ok (db_notify_nick now c n)"
  "list_all action_ok (db_get_setting n)" "list_all action_ok (db_set_setting n n')"
  "list_all action_ok (db_get_auth n)" "list_all action_ok (db_set_auth n au)"
  by (auto simp: db_flush_nicks_def db_check_nick_notify_def db_nick_history_def db_notify_nick_def
    db_get_setting_def db_set_setting_def db_get_auth_def db_set_auth_def query_ok_def split: option.splits)

lemma chain_ok:
  "chain_update_nick rows qd = Some q \<Longrightarrow> \<forall>a \<in> set qd. well_bound a \<Longrightarrow> query_ok q"
  "chain_set_setting rows qd = Some q \<Longrightarrow> \<forall>a \<in> set qd. well_bound a \<Longrightarrow> query_ok q"
  "query_ok (chain_set_auth rows nick auth)"
  "query_ok (db_update_channel isNew c)"
  "length (sr_strings sv) = 6 \<Longrightarrow> length (sr_flood sv) = 4 \<Longrightarrow> query_ok (db_update_server sv)"
  by (auto simp: chain_update_nick_def chain_set_setting_def chain_set_auth_def db_update_channel_def
    db_update_server_def query_ok_def Let_def split: list.splits dest: in_set_takeD)

lemma list_all_bind:
  "(a \<bind> (\<lambda>x. b x)) = Some r \<Longrightarrow> (\<And>x. a = Some x \<Longrightarrow> b x = Some r \<Longrightarrow> P) \<Longrightarrow> P"
  by (cases a) auto

lemma chain_flush_one_ok: "chain_flush_one now c n ty t nn = Some acts \<Longrightarrow> list_all action_ok acts"
  unfolding chain_flush_one_def Let_def
  by (elim list_all_bind)
    (auto simp: bind_eq_Some_conv dest!: db_update_nick_ok db_add_logentry_ok split: option.splits)

lemma chain_flush_nick_ok: "chain_flush_nick now known rows n ty t nn = Some acts \<Longrightarrow> list_all action_ok acts"
  by (induction rows arbitrary: acts)
    (auto simp: bind_eq_Some_conv dest!: chain_flush_one_ok)

section \<open>The buffer can overflow\<close>

lemma length_fill:
  "placeholders q \<le> length ts \<Longrightarrow>
     length (fill q ts) + placeholders q = length q + sum_list (map length (take (placeholders q) ts))"
proof (induction q arbitrary: ts)
  case (Cons c q)
  then show ?case
    by (cases ts) (auto simp: placeholders_def Suc_le_eq)
qed (simp add: placeholders_def)

lemma db_quote_replicate: "db_quote (replicate n (CHR 0x27)) = concat (replicate n [CHR 0x5C, CHR 0x27])"
  by (induction n) (auto simp: quoted_char_def)

text \<open>A message of 480 apostrophes, which fits an IRC line, is logged.\<close>

definition long_message :: string where
  "long_message = replicate 480 (CHR 0x27)"

definition irclog_values :: "string \<Rightarrow> MYSQL_BIND list" where
  "irclog_values tx = [bind_numeric 1 MYSQL_TYPE_LONG, bind_numeric 1 MYSQL_TYPE_LONGLONG,
     bind_string (Some ''nick'') MYSQL_TYPE_VAR_STRING, bind_numeric 0 MYSQL_TYPE_LONG,
     bind_string (Some tx) MYSQL_TYPE_BLOB]"

lemma sqlbuf_overflow:
  "db_query_text (fst (QueryTable ! 2)) (Some (irclog_values long_message)) = Some SqlOverrun"
proof -
  let ?q = "fst (QueryTable ! 2)"
  have len: "length (db_quote long_message) = 960"
    unfolding long_message_def db_quote_replicate by (simp add: length_concat sum_list_replicate)
  have q: "length ?q = 99" by (simp add: QueryTable_def)
  have f: "\<forall>a \<in> set (irclog_values long_message). fits (MAX_STRING_LENGTH - 1) a"
    using len by (simp add: irclog_values_def fits_def bind_numeric_def bind_string_def db_render_def
      MAX_STRING_LENGTH_def fmt_d_def
      nat_digits.simps [of 0] nat_digits.simps [of "Suc 0"])
  have "length (fill ?q (map db_text (irclog_values long_message))) > MAX_STRING_LENGTH"
    using length_fill [of ?q "map db_text (irclog_values long_message)"] len q
    by (simp add: irclog_values_def db_text_def bind_string_def db_render_def sql_quote_def MAX_STRING_LENGTH_def)
  then show ?thesis
    using db_query_loop_fill [OF f, of ?q 0 "length (irclog_values long_message)" "[]"] q
    by (simp add: db_query_text_def sql_in_buffer_def MAX_STRING_LENGTH_def irclog_values_def)
qed

section \<open>The truncated nick\<close>

lemma nick_only_mask:
  "CHR ''!'' \<notin> set n \<Longrightarrow> nick_only True (n @ CHR ''!'' # host) = Some n"
  using BN_ExtractNick_mask [of n "length (n @ CHR ''!'' # host)" host] by (simp add: nick_only_def)

section \<open>Claims\<close>



text \<open>Claim C12. A string value bound into a query is a quoted SQL literal that reads back as
  exactly this string, whatever quotes and backslashes it holds, and ends where the literal
  ends.\<close>

theorem quoted_value_reads_back:
  assumes "rest = [] \<or> hd rest \<noteq> CHR 0x27" "ty = MYSQL_TYPE_VAR_STRING \<or> ty = MYSQL_TYPE_BLOB"
  shows "\<exists>body. db_text (bind_string (Some s) ty) = CHR 0x27 # body \<and> sql_literal (body @ rest) = Some (s, rest)"
proof -
  have "(case rest of [] \<Rightarrow> True | c # cs \<Rightarrow> c \<noteq> CHR 0x27)"
    using assms(1) by (cases rest) simp_all
  from db_quote_literal [OF this, of s] show ?thesis
    using assms(2) by (auto simp: db_text_def bind_string_def db_render_def sql_quote_def)
qed

lemma quoted_value_reads_back_witness:
  "\<exists>body. db_text (bind_string (Some [CHR 0x27, CHR 0x5C]) MYSQL_TYPE_BLOB) = CHR 0x27 # body \<and>
     sql_literal (body @ '', 1)'') = Some ([CHR 0x27, CHR 0x5C], '', 1)'')"
  by (rule quoted_value_reads_back) simp_all

text \<open>A channel message of 480 apostrophes gives a query text longer than the statement
  buffer: the length check never counts what was appended before.\<close>

theorem log_query_overflows:
  "\<exists>tx acts q. length tx = 480 \<and> db_add_logentry 1 (Some 1) (Some ''nick'') TYPE_MESSAGE (Some tx) False = Some acts \<and>
     Queue q \<in> set acts \<and> db_query_text (fst (QueryTable ! fst q)) (fst (snd q)) = Some SqlOverrun"
proof -
  have "db_add_logentry 1 (Some 1) (Some ''nick'') TYPE_MESSAGE (Some long_message) False =
      Some [Queue (2, Some (irclog_values long_message), False), ClucenAdd 1 ''nick'' long_message 1]"
    by (simp add: db_add_logentry_def nick_only_def irclog_values_def)
  moreover have "length long_message = 480" by (simp add: long_message_def)
  ultimately show ?thesis
    using sqlbuf_overflow
    by (intro exI [of _ long_message] exI [of _ "[Queue (2, Some (irclog_values long_message), False), ClucenAdd 1 ''nick'' long_message 1]"]
      exI [of _ "(2, Some (irclog_values long_message), False)"]) simp
qed

end
