(* ===== verification/Structs.thy ===== *)
theory Structs
  imports Transmit Database BTreeSpec
begin

text \<open>
  The data the components share: \<open>IRCServer_t\<close> and \<open>IRCChannel_t\<close> of
  \<open>bot/include/structs.h\<close>, the tree of servers, and the calls that leave the modelled
  component. Servers and channels live in memory (maps from addresses); lists and trees
  hold addresses. The tree items are part of the channels, so a channel's address also
  stands for its items in \<open>channelName\<close> and \<open>channelNum\<close>. Client strings are values:
  their allocation is not modelled. Locks of lists and trees are the subject of
  \<open>LinkedList\<close> and \<open>BTreeHeap\<close>.
\<close>

section \<open>Servers and channels\<close>

record IRCChannel_t =
  ch_channelId :: int
  ch_server :: ptr
  ch_oldServer :: ptr
  ch_channel :: string
  ch_fullspec :: string
  ch_url :: string
  ch_notifywindow :: int
  ch_cmdChar :: char
  ch_joined :: bool
  ch_enabled :: bool
  ch_oldEnabled :: bool
  ch_visited :: bool
  ch_modified :: bool
  ch_enabledChanged :: bool
  ch_newChannel :: bool
  ch_justAdded :: bool
  ch_menuText :: "string option"

text \<open>\<open>sv_txQueue\<close>, \<open>sv_floodList\<close>: whether the pointer is set.\<close>

record IRCServer_t =
  sv_channels :: "addr list option"
  sv_channelName :: "addr tree option"
  sv_channelNum :: "addr tree option"
  sv_serverId :: int
  sv_server :: string
  sv_port :: int
  sv_password :: string
  sv_nick :: string
  sv_username :: string
  sv_realname :: string
  sv_nickserv :: string
  sv_nickservmsg :: string
  sv_floodInterval :: int
  sv_floodMaxTime :: int
  sv_floodBuffer :: int
  sv_floodMaxLine :: int
  sv_floodList :: bool
  sv_threadName :: "string option"
  sv_txThreadName :: "string option"
  sv_txQueue :: bool
  sv_threadAbort :: bool
  sv_enabled :: bool
  sv_oldEnabled :: bool
  sv_enabledChanged :: bool
  sv_visited :: bool
  sv_modified :: bool
  sv_newServer :: bool
  sv_justAdded :: bool
  sv_menuText :: "string option"

definition new_channel :: IRCChannel_t where
  "new_channel = \<lparr>ch_channelId = 0, ch_server = None, ch_oldServer = None, ch_channel = [], ch_fullspec = [],
     ch_url = [], ch_notifywindow = 0, ch_cmdChar = CHR 0x00, ch_joined = False, ch_enabled = False,
     ch_oldEnabled = False, ch_visited = False, ch_modified = False, ch_enabledChanged = False,
     ch_newChannel = False, ch_justAdded = False, ch_menuText = None\<rparr>"

definition new_server :: IRCServer_t where
  "new_server = \<lparr>sv_channels = None, sv_channelName = None, sv_channelNum = None, sv_serverId = 0,
     sv_server = [], sv_port = 0, sv_password = [], sv_nick = [], sv_username = [], sv_realname = [],
     sv_nickserv = [], sv_nickservmsg = [], sv_floodInterval = 0, sv_floodMaxTime = 0, sv_floodBuffer = 0,
     sv_floodMaxLine = 0, sv_floodList = False, sv_threadName = None, sv_txThreadName = None,
     sv_txQueue = False, sv_threadAbort = False, sv_enabled = False, sv_oldEnabled = False,
     sv_enabledChanged = False, sv_visited = False, sv_modified = False, sv_newServer = False,
     sv_justAdded = False, sv_menuText = None\<rparr>"

section \<open>Calls to other components\<close>

datatype Menu = MENU_SERVERS | MENU_CHANNELS | MENU_PLUGINS

datatype svthread = TxThread | BotThread

datatype effect =
    TxMsg addr TxType_t "string option" "string option"
  | DbAct db_action
  | SendNotice addr string
  | RegexpAdd string string
  | RegexpRemove string string
  | RegexpParse addr ptr string string IRCMsgType_t
  | CmdCall nat addr ptr string "string option" nat
  | LogDebug string "string option"
  | NotifyChannel addr
  | NotifyServer addr
  | ThreadStart svthread addr
  | ThreadStop svthread addr
  | MenuAdd Menu string addr
  | MenuRemove Menu "string option"
  | MenuSelect Menu string
  | PluginsSighup
  | FormClose
  | Slept int
  | ThreadExit

record world =
  wServers :: "addr \<rightharpoonup> IRCServer_t"
  wChans :: "addr \<rightharpoonup> IRCChannel_t"
  wTree :: "addr tree option"
  wLoaded :: bool
  wAbort :: bool
  wOut :: "effect list"

definition no_world :: world where
  "no_world = \<lparr>wServers = (\<lambda>_. None), wChans = (\<lambda>_. None), wTree = None, wLoaded = False, wAbort = False, wOut = []\<rparr>"

definition emit :: "effect \<Rightarrow> world \<Rightarrow> world" where
  "emit e w = w\<lparr>wOut := wOut w @ [e]\<rparr>"

definition emit_db :: "db_action list \<Rightarrow> world \<Rightarrow> world" where
  "emit_db as w = w\<lparr>wOut := wOut w @ map DbAct as\<rparr>"

definition upd_sv :: "addr \<Rightarrow> (IRCServer_t \<Rightarrow> IRCServer_t) \<Rightarrow> world \<Rightarrow> world option" where
  "upd_sv a f w = do { s \<leftarrow> wServers w a; Some (w\<lparr>wServers := (wServers w)(a \<mapsto> f s)\<rparr>) }"

definition upd_ch :: "addr \<Rightarrow> (IRCChannel_t \<Rightarrow> IRCChannel_t) \<Rightarrow> world \<Rightarrow> world option" where
  "upd_ch a f w = do { c \<leftarrow> wChans w a; Some (w\<lparr>wChans := (wChans w)(a \<mapsto> f c)\<rparr>) }"

lemma emit_simps [simp]:
  "wServers (emit e w) = wServers w" "wChans (emit e w) = wChans w" "wTree (emit e w) = wTree w"
  "wLoaded (emit e w) = wLoaded w" "wAbort (emit e w) = wAbort w" "wOut (emit e w) = wOut w @ [e]"
  by (simp_all add: emit_def)

lemma emit_db_simps [simp]:
  "wServers (emit_db e w) = wServers w" "wChans (emit_db e w) = wChans w" "wTree (emit_db e w) = wTree w"
  "wLoaded (emit_db e w) = wLoaded w" "wAbort (emit_db e w) = wAbort w" "wOut (emit_db e w) = wOut w @ map DbAct e"
  by (simp_all add: emit_db_def)

lemma emit_db_append [simp]: "emit_db bs (emit_db as w) = emit_db (as @ bs) w"
  by (simp add: emit_db_def)

lemma emit_db_Nil [simp]: "emit_db [] w = w"
  by (simp add: emit_db_def)

lemma upd_sv_Some: "wServers w a = Some s \<Longrightarrow> upd_sv a f w = Some (w\<lparr>wServers := (wServers w)(a \<mapsto> f s)\<rparr>)"
  by (simp add: upd_sv_def)

lemma upd_ch_Some: "wChans w a = Some c \<Longrightarrow> upd_ch a f w = Some (w\<lparr>wChans := (wChans w)(a \<mapsto> f c)\<rparr>)"
  by (simp add: upd_ch_def)

text \<open>\<open>transmitMsg\<close> does nothing for a server without a queue.\<close>

definition tx_msg :: "addr \<Rightarrow> TxType_t \<Rightarrow> string option \<Rightarrow> string option \<Rightarrow> world \<Rightarrow> world option" where
  "tx_msg a ty ch ms w = do { s \<leftarrow> wServers w a; Some (if sv_txQueue s then emit (TxMsg a ty ch ms) w else w) }"

lemma tx_msg_Some: "wServers w a = Some s \<Longrightarrow> sv_txQueue s \<Longrightarrow> tx_msg a ty ch ms w = Some (emit (TxMsg a ty ch ms) w)"
  by (simp add: tx_msg_def)

lemma tx_msg_frame:
  "tx_msg a ty ch ms w = Some w' \<Longrightarrow> wServers w' = wServers w \<and> wChans w' = wChans w \<and> wTree w' = wTree w \<and> wLoaded w' = wLoaded w"
  by (auto simp: tx_msg_def bind_eq_Some_conv split: if_splits)

section \<open>Looking up\<close>

definition id_key :: "int \<Rightarrow> BTreeKey" where
  "id_key i = KInt (word_of_int i)"

definition server_key :: "world \<Rightarrow> addr \<Rightarrow> BTreeKey" where
  "server_key w a = id_key (case wServers w a of Some s \<Rightarrow> sv_serverId s | None \<Rightarrow> 0)"

definition name_key :: "world \<Rightarrow> addr \<Rightarrow> BTreeKey" where
  "name_key w a = KString (case wChans w a of Some c \<Rightarrow> ch_channel c | None \<Rightarrow> [])"

definition num_key :: "world \<Rightarrow> addr \<Rightarrow> BTreeKey" where
  "num_key w a = id_key (case wChans w a of Some c \<Rightarrow> ch_channelId c | None \<Rightarrow> 0)"

text \<open>A tree whose items are allocated; searching any other reads freed memory.\<close>

definition alive :: "(addr \<rightharpoonup> 'x) \<Rightarrow> addr tree \<Rightarrow> bool" where
  "alive h t \<longleftrightarrow> (\<forall>a \<in> set (inorder t). h a \<noteq> None)"

definition find_name :: "world \<Rightarrow> string \<Rightarrow> addr tree option \<Rightarrow> addr option option" where
  "find_name w s T =
     (case T of
        None \<Rightarrow> Some None
      | Some t \<Rightarrow> if alive (wChans w) t then Some (bt_find (cmp_of KeyCompareString) (name_key w) (KString s) t) else None)"

definition find_num :: "world \<Rightarrow> int \<Rightarrow> addr tree option \<Rightarrow> addr option option" where
  "find_num w i T =
     (case T of
        None \<Rightarrow> Some None
      | Some t \<Rightarrow> if alive (wChans w) t then Some (bt_find (cmp_of KeyCompareInt) (num_key w) (id_key i) t) else None)"

definition find_server :: "world \<Rightarrow> int \<Rightarrow> addr option option" where
  "find_server w i =
     (case wTree w of
        None \<Rightarrow> Some None
      | Some t \<Rightarrow> if alive (wServers w) t then Some (bt_find (cmp_of KeyCompareInt) (server_key w) (id_key i) t) else None)"

definition FindChannel :: "ptr \<Rightarrow> string \<Rightarrow> world \<Rightarrow> ptr option" where
  "FindChannel server channame w =
     (case server of
        None \<Rightarrow> Some None
      | Some sv \<Rightarrow> if \<not> wLoaded w then Some None else do { s \<leftarrow> wServers w sv; find_name w channame (sv_channelName s) })"

definition FindChannelNum :: "ptr \<Rightarrow> int \<Rightarrow> world \<Rightarrow> ptr option" where
  "FindChannelNum server channum w =
     (case server of
        None \<Rightarrow> Some None
      | Some sv \<Rightarrow> if \<not> wLoaded w then Some None else do { s \<leftarrow> wServers w sv; find_num w channum (sv_channelNum s) })"

definition FindServerNum :: "int \<Rightarrow> world \<Rightarrow> ptr option" where
  "FindServerNum serverId w = (if \<not> wLoaded w then Some None else find_server w serverId)"

fun RecurseFindServerWithChannel :: "addr tree \<Rightarrow> int \<Rightarrow> world \<Rightarrow> ptr option" where
  "RecurseFindServerWithChannel Leaf channelId w = Some None"
| "RecurseFindServerWithChannel (Node l a r) channelId w = do {
     sv \<leftarrow> RecurseFindServerWithChannel l channelId w;
     case sv of
       Some s \<Rightarrow> Some (Some s)
     | None \<Rightarrow> do {
         c \<leftarrow> FindChannelNum (Some a) channelId w;
         case c of
           Some _ \<Rightarrow> Some (Some a)
         | None \<Rightarrow> RecurseFindServerWithChannel r channelId w
       }
   }"

definition FindServerWithChannel :: "int \<Rightarrow> world \<Rightarrow> int option" where
  "FindServerWithChannel channelId w =
     (if \<not> wLoaded w then Some (-1)
      else do {
        t \<leftarrow> wTree w;
        sv \<leftarrow> RecurseFindServerWithChannel t channelId w;
        case sv of None \<Rightarrow> Some (-1) | Some a \<Rightarrow> do { s \<leftarrow> wServers w a; Some (sv_serverId s) }
      })"

section \<open>What a lookup finds\<close>

text \<open>The two trees of a server index exactly the channels of its list, by different names and numbers.\<close>

definition small_id :: "int \<Rightarrow> bool" where
  "small_id i \<longleftrightarrow> - (2 ^ 30) \<le> i \<and> i < 2 ^ 30"

lemma small_id_key [simp]: "small_id i \<Longrightarrow> small_int (id_key i)"
  by (simp add: small_id_def id_key_def sint_sbintrunc' signed_take_bit_int_eq_self)

lemma id_key_cmp:
  "small_id i \<Longrightarrow> small_id j \<Longrightarrow> cmp_of KeyCompareInt (id_key i) (id_key j) = 0 \<longleftrightarrow> i = j"
  using sint_diff_small [of "word_of_int i" "word_of_int j"]
  by (simp add: cmp_of_def id_key_def small_id_def sint_sbintrunc' signed_take_bit_int_eq_self)

definition same_name :: "string \<Rightarrow> string \<Rightarrow> bool" where
  "same_name a b \<longleftrightarrow> map tolower a = map tolower b"

lemma name_cmp:
  "nul_free a \<Longrightarrow> nul_free b \<Longrightarrow> cmp_of KeyCompareString (KString a) (KString b) = 0 \<longleftrightarrow> same_name a b"
  by (simp add: strcasecmp_0_length same_name_def)

lemma is_string_KString [simp]: "is_string (KString s) = nul_free s"
  by (auto simp: nul_free_def)

declare is_string.simps(1) [simp del]

definition indexed :: "world \<Rightarrow> IRCServer_t \<Rightarrow> bool" where
  "indexed w s \<longleftrightarrow>
     (case sv_channels s of
        None \<Rightarrow> sv_channelName s = None \<and> sv_channelNum s = None
      | Some cs \<Rightarrow> distinct cs \<and> (\<forall>c \<in> set cs. \<exists>rc. wChans w c = Some rc \<and> small_id (ch_channelId rc)) \<and>
          (\<exists>tn ti. sv_channelName s = Some tn \<and> sv_channelNum s = Some ti \<and>
             set_tree tn = set cs \<and> bt_inv (cmp_of KeyCompareString) is_string (name_key w) tn \<and>
             set_tree ti = set cs \<and> bt_inv (cmp_of KeyCompareInt) small_int (num_key w) ti))"

lemma indexed_name:
  assumes "indexed w s" "nul_free n"
  shows "find_name w n (sv_channelName s) = Some r \<Longrightarrow>
    r = Some c \<longleftrightarrow> (\<exists>cs rc. sv_channels s = Some cs \<and> c \<in> set cs \<and> wChans w c = Some rc \<and> same_name n (ch_channel rc))"
proof -
  assume f: "find_name w n (sv_channelName s) = Some r"
  show ?thesis
  proof (cases "sv_channels s")
    case None
    with assms f show ?thesis by (auto simp: indexed_def find_name_def)
  next
    case (Some cs)
    with assms obtain tn where tn: "sv_channelName s = Some tn" "set_tree tn = set cs"
      "bt_inv (cmp_of KeyCompareString) is_string (name_key w) tn" "\<forall>c \<in> set cs. \<exists>rc. wChans w c = Some rc \<and> small_id (ch_channelId rc)"
      by (auto simp: indexed_def)
    from tn f have r: "r = bt_find (cmp_of KeyCompareString) (name_key w) (KString n) tn"
      by (simp add: find_name_def split: if_splits)
    have ok: "is_string (name_key w c)" if "c \<in> set cs" for c using that tn by (auto simp: bt_inv_def bt_keys_ok_def)
    have "r = Some c \<longleftrightarrow> c \<in> set cs \<and> cmp_of KeyCompareString (KString n) (name_key w c) = 0"
      using string_tree.inv_find [OF tn(3), of "KString n" c] assms(2) tn(2) r by simp
    also have "\<dots> \<longleftrightarrow> (\<exists>rc. c \<in> set cs \<and> wChans w c = Some rc \<and> same_name n (ch_channel rc))"
      using tn(4) ok [of c] assms(2) by (auto simp: name_key_def name_cmp strcasecmp_0_length same_name_def)
    finally show ?thesis using Some by auto
  qed
qed

lemma indexed_alive:
  assumes "indexed w s" shows "find_name w n (sv_channelName s) \<noteq> None" "find_num w i (sv_channelNum s) \<noteq> None"
  using assms by (fastforce simp: indexed_def find_name_def find_num_def alive_def split: option.splits)+

lemma indexed_num:
  assumes "indexed w s" "small_id i"
  shows "find_num w i (sv_channelNum s) = Some r \<Longrightarrow>
    r = Some c \<longleftrightarrow> (\<exists>cs rc. sv_channels s = Some cs \<and> c \<in> set cs \<and> wChans w c = Some rc \<and> ch_channelId rc = i)"
proof -
  assume f: "find_num w i (sv_channelNum s) = Some r"
  show ?thesis
  proof (cases "sv_channels s")
    case None
    with assms f show ?thesis by (auto simp: indexed_def find_num_def)
  next
    case (Some cs)
    with assms obtain ti where ti: "sv_channelNum s = Some ti" "set_tree ti = set cs"
      "bt_inv (cmp_of KeyCompareInt) small_int (num_key w) ti" "\<forall>c \<in> set cs. \<exists>rc. wChans w c = Some rc \<and> small_id (ch_channelId rc)"
      by (auto simp: indexed_def)
    from ti f have r: "r = bt_find (cmp_of KeyCompareInt) (num_key w) (id_key i) ti"
      by (simp add: find_num_def split: if_splits)
    have "r = Some c \<longleftrightarrow> c \<in> set cs \<and> cmp_of KeyCompareInt (id_key i) (num_key w c) = 0"
      using int_tree.inv_find [OF ti(3), of "id_key i" c] assms(2) ti(2) r by simp
    also have "\<dots> \<longleftrightarrow> (\<exists>rc. c \<in> set cs \<and> wChans w c = Some rc \<and> ch_channelId rc = i)"
      using ti(4) assms(2) by (auto simp: num_key_def id_key_cmp)
    finally show ?thesis using Some by auto
  qed
qed

end
