(* ===== verification/BotCmds.thy ===== *)
theory BotCmds
  imports Structs
begin

text \<open>
  \<open>bot/src/bot_cmds.c\<close>: the tree of bot commands, the parsing of a command line, the
  dispatch to the command's function, the built-in \<open>help\<close> and \<open>list\<close>. The functions
  of plugins are numbers, their help texts the parameter \<open>helps\<close>.
\<close>

section \<open>Data\<close>

datatype BotCmdFunc = FnHelp | FnList | FnPlugin nat
datatype BotCmdHelpFunc = HelpHelp | HelpList | HelpPlugin nat

text \<open>A command with the tree item that holds it (\<open>bc_node\<close>: the item's address).\<close>

record BotCmd_t =
  bc_node :: addr
  bc_command :: string
  bc_func :: BotCmdFunc
  bc_helpFunc :: "BotCmdHelpFunc option"
  bc_tag :: nat

type_synonym cmd_tree = "BotCmd_t tree"

definition cmd_key :: "BotCmd_t \<Rightarrow> BTreeKey" where
  "cmd_key c = KString (bc_command c)"

abbreviation str_cmp :: "BTreeKey \<Rightarrow> BTreeKey \<Rightarrow> int" where
  "str_cmp \<equiv> cmp_of KeyCompareString"

section \<open>The command line\<close>

text \<open>
  \<open>CommandLineParse\<close>: the word before the first space, and what follows without blanks
  at its ends (\<open>NULL\<close> when nothing is left).
\<close>

definition strip_spaces :: "string \<Rightarrow> string" where
  "strip_spaces s = dropWhile (\<lambda>c. c = CHR '' '') s"

definition strip_trailing :: "string \<Rightarrow> string" where
  "strip_trailing s = rev (strip_spaces (rev s))"

definition CommandLineParse :: "string option \<Rightarrow> string option \<times> string option" where
  "CommandLineParse msg =
     (case msg of
        None \<Rightarrow> (None, None)
      | Some m \<Rightarrow>
          let (cmd, line) = (case strchr (CHR '' '') m of
                               Some len \<Rightarrow> (take len m, Some (drop (len + 1) m))
                             | None \<Rightarrow> (m, None));
              line = map_option (strip_trailing \<circ> strip_spaces) line
          in (Some cmd, if line = Some [] then None else line))"

section \<open>The tree of commands\<close>

definition botCmd_add :: "(addr \<times> addr) option \<Rightarrow> string \<Rightarrow> BotCmdFunc option \<Rightarrow> BotCmdHelpFunc option \<Rightarrow> nat \<Rightarrow> cmd_tree \<Rightarrow> cmd_tree" where
  "botCmd_add mem command func helpFunc tag botCmdTree =
     (case (func, mem) of
        (Some f, Some (item, cmd)) \<Rightarrow>
          bt_rebalance (bt_insert str_cmp cmd_key
            \<lparr>bc_node = item, bc_command = command, bc_func = f, bc_helpFunc = helpFunc, bc_tag = tag\<rparr> botCmdTree)
      | _ \<Rightarrow> botCmdTree)"

text \<open>Searching with a \<open>NULL\<close> string faults unless the tree is empty.\<close>

definition botCmd_find :: "string option \<Rightarrow> cmd_tree \<Rightarrow> BotCmd_t option option" where
  "botCmd_find command t =
     (case command of
        None \<Rightarrow> if t = Leaf then Some None else None
      | Some c \<Rightarrow> Some (bt_find str_cmp cmd_key (KString c) t))"

definition botCmd_remove :: "string \<Rightarrow> cmd_tree \<Rightarrow> cmd_tree" where
  "botCmd_remove command botCmdTree =
     (case bt_find str_cmp cmd_key (KString command) botCmdTree of
        None \<Rightarrow> botCmdTree
      | Some x \<Rightarrow> bt_rebalance (bt_remove x botCmdTree))"

definition botCmd_table :: "(string \<times> BotCmdFunc \<times> BotCmdHelpFunc) list" where
  "botCmd_table = [(''help'', FnHelp, HelpHelp), (''list'', FnList, HelpList)]"

text \<open>\<open>items\<close>: what \<open>malloc\<close> returns for each entry of the table.\<close>

definition botCmd_initialize :: "ptr list \<Rightarrow> cmd_tree" where
  "botCmd_initialize mem =
     bt_rebalance (fold (\<lambda>((c, f, h), m) t.
         case m of
           None \<Rightarrow> t
         | Some a \<Rightarrow> bt_insert str_cmp cmd_key
             \<lparr>bc_node = a, bc_command = c, bc_func = f, bc_helpFunc = Some h, bc_tag = 0\<rparr> t)
       (zip botCmd_table mem) Leaf)"

section \<open>The built-in commands\<close>

definition botHelpHelp :: string where
  "botHelpHelp = ''Use '' @ [CHR 0x22] @ ''help'' @ [CHR 0x22] @ '' followed by a bot command.  For a list '' @
     ''of bot commands, use '' @ [CHR 0x22] @ ''list'' @ [CHR 0x22]"

definition botHelpList :: string where
  "botHelpList = ''Shows a list of supported bot commands.''"

definition helpNotFound :: string where
  "helpNotFound = ''Currently no help on this subject''"

fun call_help :: "(nat \<Rightarrow> nat \<Rightarrow> string) \<Rightarrow> nat \<Rightarrow> BotCmdHelpFunc \<Rightarrow> string" where
  "call_help helps tag HelpHelp = botHelpHelp"
| "call_help helps tag HelpList = botHelpList"
| "call_help helps tag (HelpPlugin n) = helps n tag"

text \<open>The reply of \<open>help\<close> and \<open>list\<close>: to the nick, to the channel, or to the log.\<close>

definition bot_reply :: "ptr \<Rightarrow> ptr \<Rightarrow> string \<Rightarrow> string \<Rightarrow> string option \<Rightarrow> world \<Rightarrow> world option" where
  "bot_reply server channel who what message w =
     (case server of
        None \<Rightarrow> Some (emit (LogDebug what message) w)
      | Some sv \<Rightarrow>
          (case channel of
             None \<Rightarrow> tx_msg sv TX_PRIVMSG (Some who) message w
           | Some c \<Rightarrow> do { ch \<leftarrow> wChans w c; tx_msg sv TX_MESSAGE (Some (ch_channel ch)) message w }))"

definition botCmdHelp ::
    "(nat \<Rightarrow> nat \<Rightarrow> string) \<Rightarrow> cmd_tree \<Rightarrow> ptr \<Rightarrow> ptr \<Rightarrow> string \<Rightarrow> string option \<Rightarrow> world \<Rightarrow> world option" where
  "botCmdHelp helps botCmdTree server channel who msg w =
     (let msg = (case msg of None \<Rightarrow> ''help'' | Some m \<Rightarrow> m); (cmd, line) = CommandLineParse (Some msg) in do {
       item \<leftarrow> botCmd_find cmd botCmdTree;
       let helpMsg = (case item of
           None \<Rightarrow> helpNotFound
         | Some c \<Rightarrow> (case bc_helpFunc c of None \<Rightarrow> helpNotFound | Some h \<Rightarrow> call_help helps (bc_tag c) h))
       in bot_reply server channel who ''help'' (Some helpMsg) w
     })"

text \<open>
  \<open>botCmdDepthFirst\<close>. It serves both trees that it is called on: commands (no filter)
  and plugins (only the loaded ones). A result of \<open>None\<close> is \<open>strlen(NULL)\<close>.
\<close>

fun botCmdDepthFirst :: "('a \<Rightarrow> string) \<Rightarrow> ('a \<Rightarrow> bool) \<Rightarrow> bool \<Rightarrow> 'a tree \<Rightarrow> string option option" where
  "botCmdDepthFirst name loaded filterPlugins Leaf = Some None"
| "botCmdDepthFirst name loaded filterPlugins (Node l x r) = do {
     message \<leftarrow> botCmdDepthFirst name loaded filterPlugins l;
     let message = (if \<not> filterPlugins \<or> loaded x
                    then Some (case message of None \<Rightarrow> name x | Some m \<Rightarrow> m @ '', '' @ name x)
                    else message) in do {
     submsg \<leftarrow> botCmdDepthFirst name loaded filterPlugins r;
     case submsg of
       None \<Rightarrow> Some message
     | Some s \<Rightarrow> do { m \<leftarrow> message; Some (Some (m @ '', '' @ s)) } }
   }"

definition botCmdList :: "cmd_tree \<Rightarrow> ptr \<Rightarrow> ptr \<Rightarrow> string \<Rightarrow> string option \<Rightarrow> world \<Rightarrow> world option" where
  "botCmdList botCmdTree server channel who msg w = do {
     message \<leftarrow> botCmdDepthFirst bc_command (\<lambda>_. True) False botCmdTree;
     bot_reply server channel who ''command list'' message w
   }"

section \<open>Dispatch\<close>

definition botCmd_parse ::
    "(nat \<Rightarrow> nat \<Rightarrow> string) \<Rightarrow> cmd_tree \<Rightarrow> addr \<Rightarrow> ptr \<Rightarrow> string \<Rightarrow> string option \<Rightarrow> world \<Rightarrow> (bool \<times> world) option" where
  "botCmd_parse helps botCmdTree server channel who msg w =
     (let (cmd, line) = CommandLineParse msg in do {
       item \<leftarrow> botCmd_find cmd botCmdTree;
       case item of
         None \<Rightarrow> Some (False, w)
       | Some c \<Rightarrow> do {
           w \<leftarrow> (case bc_func c of
                   FnHelp \<Rightarrow> botCmdHelp helps botCmdTree (Some server) channel who line w
                 | FnList \<Rightarrow> botCmdList botCmdTree (Some server) channel who line w
                 | FnPlugin n \<Rightarrow> Some (emit (CmdCall n server channel who line (bc_tag c)) w));
           Some (True, w)
         }
     })"

section \<open>Commands addressed to the bot by nick\<close>

text \<open>The two patterns; \<open>snprintf\<close> cuts them at 255 characters. \<open>NULL\<close> from \<open>malloc\<close>: nothing happens.\<close>

definition chan_pattern :: "string \<Rightarrow> string" where
  "chan_pattern fullspec = snprintf 256 (''(?i)^'' @ fullspec @ ''$'')"

definition nick_pattern :: "string \<Rightarrow> string" where
  "nick_pattern nick = snprintf 256 (''(?i)^'' @ [CHR 0x5C] @ ''s*'' @ nick @ ''[:,]?'' @ [CHR 0x5C] @ ''s+(.*)$'')"

definition regexpBotCmdAdd :: "bool \<Rightarrow> addr \<Rightarrow> addr \<Rightarrow> world \<Rightarrow> world option" where
  "regexpBotCmdAdd memory server channel w = do {
     s \<leftarrow> wServers w server;
     c \<leftarrow> wChans w channel;
     Some (if memory then emit (RegexpAdd (chan_pattern (ch_fullspec c)) (nick_pattern (sv_nick s))) w else w)
   }"

definition regexpBotCmdRemove :: "bool \<Rightarrow> addr \<Rightarrow> addr \<Rightarrow> world \<Rightarrow> world option" where
  "regexpBotCmdRemove memory server channel w = do {
     s \<leftarrow> wServers w server;
     c \<leftarrow> wChans w channel;
     Some (if memory then emit (RegexpRemove (chan_pattern (ch_fullspec c)) (nick_pattern (sv_nick s))) w else w)
   }"

text \<open>\<open>message\<close>: the first group of the match.\<close>

definition regexpBotCmdParse ::
    "(nat \<Rightarrow> nat \<Rightarrow> string) \<Rightarrow> cmd_tree \<Rightarrow> addr \<Rightarrow> ptr \<Rightarrow> string \<Rightarrow> string option \<Rightarrow> world \<Rightarrow> world option" where
  "regexpBotCmdParse helps botCmdTree server channel who message w = do {
     (_, w) \<leftarrow> botCmd_parse helps botCmdTree server channel who message w;
     Some w
   }"

section \<open>The command line, taken apart\<close>

lemma strip_spaces_simps [simp]:
  "strip_spaces [] = []" "strip_spaces (c # s) = (if c = CHR '' '' then strip_spaces s else c # s)"
  by (simp_all add: strip_spaces_def)

lemma strip_spaces_id: "s = [] \<or> hd s \<noteq> CHR '' '' \<Longrightarrow> strip_spaces s = s"
  by (cases s) auto

lemma strip_trailing_id: "s = [] \<or> last s \<noteq> CHR '' '' \<Longrightarrow> strip_trailing s = s"
  by (cases s rule: rev_cases) (simp_all add: strip_trailing_def)

lemma strip_spaces_hd: "strip_spaces s \<noteq> [] \<Longrightarrow> hd (strip_spaces s) \<noteq> CHR '' ''"
  by (induction s) auto

lemma strip_trailing_last: "strip_trailing s \<noteq> [] \<Longrightarrow> last (strip_trailing s) \<noteq> CHR '' ''"
  using strip_spaces_hd [of "rev s"] by (simp add: strip_trailing_def last_rev)

lemma strip_spaces_suffix: "\<exists>n. s = replicate n (CHR '' '') @ strip_spaces s"
proof (induction s)
  case (Cons c s)
  then obtain n where "s = replicate n (CHR '' '') @ strip_spaces s" by blast
  then show ?case
    by (cases "c = CHR '' ''") (auto intro: exI [of _ "Suc n"] exI [of _ 0])
qed simp

lemma strip_trailing_prefix: "\<exists>n. s = strip_trailing s @ replicate n (CHR '' '')"
proof -
  obtain n where n: "rev s = replicate n (CHR '' '') @ strip_spaces (rev s)" using strip_spaces_suffix by blast
  then have "s = rev (strip_spaces (rev s)) @ rev (replicate n (CHR '' ''))" by (metis rev_append rev_rev_ident)
  then show ?thesis unfolding strip_trailing_def by auto
qed

lemma strip_trailing_hd: "s \<noteq> [] \<Longrightarrow> hd s \<noteq> CHR '' '' \<Longrightarrow> strip_trailing s \<noteq> [] \<and> hd (strip_trailing s) = hd s"
proof -
  assume s: "s \<noteq> []" "hd s \<noteq> CHR '' ''"
  obtain n where n: "s = strip_trailing s @ replicate n (CHR '' '')" using strip_trailing_prefix by blast
  show ?thesis
  proof (cases "strip_trailing s")
    case Nil
    with n s have "hd s = CHR '' ''" by (cases n) (metis append_Nil replicate_0, metis append_Nil list.sel(1) replicate_Suc)
    with s show ?thesis by simp
  next
    case (Cons x xs)
    with n show ?thesis by (metis hd_append2 list.discI)
  qed
qed

lemma CommandLineParse_word: "CHR '' '' \<notin> set m \<Longrightarrow> CommandLineParse (Some m) = (Some m, None)"
  by (simp add: CommandLineParse_def strchr_None [symmetric])

lemma CommandLineParse_line:
  assumes "CHR '' '' \<notin> set cmd"
  shows "CommandLineParse (Some (cmd @ CHR '' '' # rest)) =
    (Some cmd, if strip_spaces rest = [] then None else Some (strip_trailing (strip_spaces rest)))"
proof -
  have "strip_trailing (strip_spaces rest) = [] \<longleftrightarrow> strip_spaces rest = []"
    using strip_trailing_hd [of "strip_spaces rest"] strip_spaces_hd [of rest] by (auto simp: strip_trailing_def)
  with assms show ?thesis by (simp add: CommandLineParse_def strchr_append)
qed

section \<open>The list of names\<close>

fun commas :: "string list \<Rightarrow> string" where
  "commas [] = []"
| "commas [s] = s"
| "commas (s # t # ss) = s @ '', '' @ commas (t # ss)"

lemma commas_append: "xs \<noteq> [] \<Longrightarrow> ys \<noteq> [] \<Longrightarrow> commas (xs @ ys) = commas xs @ '', '' @ commas ys"
proof (induction xs rule: commas.induct)
  case (2 s)
  then show ?case by (cases ys) auto
qed auto

definition comma_opt :: "string list \<Rightarrow> string option" where
  "comma_opt ns = (if ns = [] then None else Some (commas ns))"

text \<open>No fault when every node is loaded, or when nothing follows an unloaded first node.\<close>

lemma depth_first_all:
  "\<not> filterPlugins \<or> (\<forall>x \<in> set_tree t. loaded x) \<Longrightarrow>
   botCmdDepthFirst name loaded filterPlugins t = Some (comma_opt (map name (inorder t)))"
proof (induction t)
  case (Node l x r)
  then show ?case
    using commas_append [of "map name (inorder l) @ [name x]" "map name (inorder r)"]
      commas_append [of "map name (inorder l)" "[name x]"]
      commas_append [of "[name x]" "map name (inorder r)"]
    by (auto simp: comma_opt_def)
qed (simp add: comma_opt_def)

lemma depth_first_shape:
  "botCmdDepthFirst name loaded True t = Some m \<Longrightarrow> m = comma_opt (map name (filter loaded (inorder t)))"
proof (induction t arbitrary: m)
  case (Node l x r)
  from Node.prems obtain ml mr where ml: "botCmdDepthFirst name loaded True l = Some ml"
    and mr: "botCmdDepthFirst name loaded True r = Some mr" by (auto simp: bind_eq_Some_conv Let_def)
  note ih = Node.IH(1) [OF ml] Node.IH(2) [OF mr]
  show ?case
    using Node.prems ml mr ih
      commas_append [of "map name (filter loaded (inorder l)) @ [name x]" "map name (filter loaded (inorder r))"]
      commas_append [of "map name (filter loaded (inorder l))" "[name x]"]
      commas_append [of "[name x]" "map name (filter loaded (inorder r))"]
      commas_append [of "map name (filter loaded (inorder l))" "map name (filter loaded (inorder r))"]
    by (auto simp: comma_opt_def Let_def bind_eq_Some_conv split: if_splits)
qed (simp add: comma_opt_def)

lemma depth_first_faults:
  "\<not> loaded x \<Longrightarrow> loaded y \<Longrightarrow> botCmdDepthFirst name loaded True (Node Leaf x (Node Leaf y Leaf)) = None"
  by simp

section \<open>Lookup in the tree of commands\<close>

definition cmds_ok :: "cmd_tree \<Rightarrow> bool" where
  "cmds_ok t \<longleftrightarrow> bt_inv str_cmp is_string cmd_key t"

lemma cmds_find:
  assumes "cmds_ok t" "nul_free c"
  shows "bt_find str_cmp cmd_key (KString c) t = Some x \<longleftrightarrow> x \<in> set_tree t \<and> same_name c (bc_command x)"
proof -
  have "x \<in> set_tree t \<Longrightarrow> nul_free (bc_command x)"
    using assms by (auto simp: cmds_ok_def bt_inv_def bt_keys_ok_def cmd_key_def)
  then show ?thesis
    using string_tree.inv_find [of cmd_key t "KString c" x] assms
    by (auto simp: cmds_ok_def cmd_key_def name_cmp strcasecmp_0_length same_name_def)
qed

lemma cmds_add:
  assumes "cmds_ok t" "nul_free c" "\<forall>x \<in> set_tree t. \<not> same_name c (bc_command x)"
  shows "cmds_ok (botCmd_add (Some (a, b)) c (Some f) h tag t) \<and>
    set_tree (botCmd_add (Some (a, b)) c (Some f) h tag t) =
      insert \<lparr>bc_node = a, bc_command = c, bc_func = f, bc_helpFunc = h, bc_tag = tag\<rparr> (set_tree t)"
proof -
  let ?x = "\<lparr>bc_node = a, bc_command = c, bc_func = f, bc_helpFunc = h, bc_tag = tag\<rparr>"
  have "bt_find str_cmp cmd_key (cmd_key ?x) t = None"
    using cmds_find [OF assms(1,2)] assms(3) by (cases "bt_find str_cmp cmd_key (KString c) t") (auto simp: cmd_key_def)
  with string_tree.balanced.add [of cmd_key t ?x] assms show ?thesis
    by (simp add: botCmd_add_def cmds_ok_def cmd_key_def)
qed

lemma cmds_remove:
  assumes "cmds_ok t" "nul_free c"
  shows "cmds_ok (botCmd_remove c t) \<and>
    set_tree (botCmd_remove c t) = {x \<in> set_tree t. \<not> same_name c (bc_command x)}"
proof (cases "bt_find str_cmp cmd_key (KString c) t")
  case None
  with cmds_find [OF assms] have "\<forall>x \<in> set_tree t. \<not> same_name c (bc_command x)" by auto
  with None assms show ?thesis by (auto simp: botCmd_remove_def)
next
  case (Some x)
  then have x: "x \<in> set_tree t" "same_name c (bc_command x)" using cmds_find [OF assms] by auto
  have uniq: "y = x" if "y \<in> set_tree t" "same_name c (bc_command y)" for y
    using that cmds_find [OF assms, of y] Some by auto
  have "set_tree t - {x} = {x \<in> set_tree t. \<not> same_name c (bc_command x)}"
    using x uniq by blast
  moreover have "bt_inv str_cmp is_string cmd_key t" using assms(1) by (simp only: cmds_ok_def)
  note string_tree.balanced.remove [OF this x(1)]
  moreover have "botCmd_remove c t = bt_rebalance (bt_remove x t)" using Some by (simp only: botCmd_remove_def option.case)
  ultimately show ?thesis by (simp only: cmds_ok_def) 
qed

lemma cmds_initialize:
  "cmds_ok (botCmd_initialize [Some a, Some b]) \<and>
   set_tree (botCmd_initialize [Some a, Some b]) =
     {\<lparr>bc_node = a, bc_command = ''help'', bc_func = FnHelp, bc_helpFunc = Some HelpHelp, bc_tag = 0\<rparr>,
      \<lparr>bc_node = b, bc_command = ''list'', bc_func = FnList, bc_helpFunc = Some HelpList, bc_tag = 0\<rparr>}"
  by (simp add: botCmd_initialize_def botCmd_table_def cmds_ok_def bt_inv_def cmd_key_def tolower_def char_code_def nul_free_def
    insert_commute)


lemma botCmd_parse_plugin:
  assumes "cmds_ok t" "nul_free cmd" "CommandLineParse msg = (Some cmd, line)"
    and "x \<in> set_tree t" "same_name cmd (bc_command x)" "bc_func x = FnPlugin n"
  shows "botCmd_parse helps t server channel who msg w =
    Some (True, emit (CmdCall n server channel who line (bc_tag x)) w)"
proof -
  have "bt_find str_cmp cmd_key (KString cmd) t = Some x" using cmds_find [OF assms(1,2)] assms(4,5) by blast
  with assms(3,6) show ?thesis by (simp add: botCmd_parse_def botCmd_find_def)
qed

lemma botCmd_parse_unknown:
  assumes "cmds_ok t" "nul_free cmd" "CommandLineParse msg = (Some cmd, line)"
    and "\<forall>x \<in> set_tree t. \<not> same_name cmd (bc_command x)"
  shows "botCmd_parse helps t server channel who msg w = Some (False, w)"
proof -
  have "bt_find str_cmp cmd_key (KString cmd) t = None"
    using cmds_find [OF assms(1,2)] assms(4) by (cases "bt_find str_cmp cmd_key (KString cmd) t") auto
  with assms(3) show ?thesis by (simp add: botCmd_parse_def botCmd_find_def)
qed

section \<open>Properties\<close>

text \<open>A command line of a command, blanks, an argument without outer blanks and
  trailing blanks is split into the command and the argument.\<close>

theorem command_line_split:
  assumes "CHR '' '' \<notin> set cmd" "args \<noteq> []" "hd args \<noteq> CHR '' ''" "last args \<noteq> CHR '' ''"
  shows "CommandLineParse (Some (cmd @ CHR '' '' # replicate m (CHR '' '') @ args @ replicate n (CHR '' ''))) =
    (Some cmd, Some args)"
proof -
  have a: "strip_spaces (replicate m (CHR '' '') @ args @ replicate n (CHR '' '')) = args @ replicate n (CHR '' '')"
    using assms(2,3) by (induction m) (auto simp: strip_spaces_id)
  have b: "strip_trailing (args @ replicate n (CHR '' '')) = args"
  proof -
    have "strip_spaces (replicate n (CHR '' '') @ rev args) = rev args"
      using assms(2,4) by (induction n) (auto simp: strip_spaces_id hd_rev)
    then show ?thesis by (simp add: strip_trailing_def)
  qed
  show ?thesis using CommandLineParse_line [OF assms(1)] a b assms(2) by simp
qed

lemma command_line_split_witness:
  "CommandLineParse (Some (''seen'' @ CHR '' '' # replicate 2 (CHR '' '') @ ''bob'' @ replicate 1 (CHR '' ''))) =
     (Some ''seen'', Some ''bob'')"
  by (rule command_line_split) simp_all

text \<open>After a command is registered, parsing a line that starts with it calls its
  function with the rest of the line; after removing it the line is ignored.\<close>

theorem command_registered:
  assumes "cmds_ok t" "nul_free c" "\<forall>x \<in> set_tree t. \<not> same_name c (bc_command x)"
    and "CommandLineParse msg = (Some cmd, line)" "nul_free cmd" "same_name cmd c"
  shows "let t' = botCmd_add (Some (a, b)) c (Some (FnPlugin n)) h tag t in
    botCmd_parse helps t' server channel who msg w = Some (True, emit (CmdCall n server channel who line tag) w) \<and>
    botCmd_parse helps (botCmd_remove c t') server channel who msg w = Some (False, w) \<and>
    set_tree (botCmd_remove c t') = set_tree t"
proof -
  let ?x = "\<lparr>bc_node = a, bc_command = c, bc_func = FnPlugin n, bc_helpFunc = h, bc_tag = tag\<rparr>"
  define t' where "t' = botCmd_add (Some (a, b)) c (Some (FnPlugin n)) h tag t"
  from cmds_add [OF assms(1-3)] have t': "cmds_ok t'" "set_tree t' = insert ?x (set_tree t)" unfolding t'_def by blast+
  have call: "botCmd_parse helps t' server channel who msg w = Some (True, emit (CmdCall n server channel who line tag) w)"
    using botCmd_parse_plugin [OF t'(1) assms(5,4), of ?x n] t'(2) assms(6) by simp
  from cmds_remove [OF t'(1) assms(2)] t'(2) assms(3)
  have r: "cmds_ok (botCmd_remove c t')" "set_tree (botCmd_remove c t') = set_tree t" by (auto simp: same_name_def)
  have "\<forall>x \<in> set_tree (botCmd_remove c t'). \<not> same_name cmd (bc_command x)"
    using r(2) assms(3,6) by (auto simp: same_name_def)
  from botCmd_parse_unknown [OF r(1) assms(5,4) this] call r(2) show ?thesis unfolding t'_def by (simp add: Let_def)
qed

lemma command_registered_witness:
  "let t' = botCmd_add (Some (1, 2)) ''seen'' (Some (FnPlugin 7)) None 3 Leaf in
    botCmd_parse (\<lambda>_ _. []) t' 5 None ''who'' (Some ''SEEN bob'') no_world =
      Some (True, emit (CmdCall 7 5 None ''who'' (Some ''bob'') 3) no_world) \<and>
    botCmd_parse (\<lambda>_ _. []) (botCmd_remove ''seen'' t') 5 None ''who'' (Some ''SEEN bob'') no_world = Some (False, no_world) \<and>
    set_tree (botCmd_remove ''seen'' t') = set_tree Leaf"
proof (rule command_registered)
  show "same_name ''SEEN'' ''seen''" by code_simp
  show "CommandLineParse (Some ''SEEN bob'') = (Some ''SEEN'', Some ''bob'')" by code_simp
qed (simp_all add: cmds_ok_def bt_inv_def nul_free_def)

text \<open>The reply of the list command names every command exactly once, in order,
  separated by commas; the same routine on the plugin tree either names the loaded plugins so
  or takes the length of a NULL string.\<close>

theorem command_list:
  "botCmdList t None channel who msg w = Some (emit (LogDebug ''command list'' (comma_opt (map bc_command (inorder t)))) w) \<and>
   botCmdDepthFirst name loaded True u \<in> {None, Some (comma_opt (map name (filter loaded (inorder u))))}"
  using depth_first_shape [of name loaded u]
  by (cases "botCmdDepthFirst name loaded True u") (auto simp: botCmdList_def depth_first_all bot_reply_def)

end
