(* ===== verification/Bot.thy ===== *)
theory Bot
  imports BotCmds
begin

text \<open>
  \<open>bot/src/bot.c\<close>: the handlers that the IRC library calls for a server, the start and
  the end of servers, and what a thread does on \<open>SIGHUP\<close>. Also the parts of
  \<open>bot/src/main.c\<close> that walk the tree of servers.

  A handler is a function on the world; \<open>None\<close> is a fault. \<open>now\<close> is the time,
  \<open>answer\<close> what the database says to \<open>db_check_nick_notify\<close>, \<open>cmds\<close> the tree of bot
  commands. Log output and the arguments used only for it are left out.
\<close>

section \<open>Calls of the database with a channel pointer\<close>

definition chan_id :: "world \<Rightarrow> ptr \<Rightarrow> int option option" where
  "chan_id w channel =
     (case channel of None \<Rightarrow> Some None | Some c \<Rightarrow> map_option (\<lambda>ch. Some (ch_channelId ch)) (wChans w c))"

definition log_entry :: "int \<Rightarrow> ptr \<Rightarrow> string \<Rightarrow> IRCMsgType_t \<Rightarrow> string \<Rightarrow> bool \<Rightarrow> world \<Rightarrow> world option" where
  "log_entry now channel nick type text extract w = do {
     i \<leftarrow> chan_id w channel;
     as \<leftarrow> db_add_logentry now i (Some nick) type (Some text) extract;
     Some (emit_db as w)
   }"

definition update_nick :: "int \<Rightarrow> ptr \<Rightarrow> string \<Rightarrow> bool \<Rightarrow> bool \<Rightarrow> world \<Rightarrow> world option" where
  "update_nick now channel nick present extract w = do {
     i \<leftarrow> chan_id w channel;
     as \<leftarrow> db_update_nick now i (Some nick) present extract;
     Some (emit_db as w)
   }"

definition nick_history :: "int \<Rightarrow> ptr \<Rightarrow> string \<Rightarrow> NickHistory_t \<Rightarrow> world \<Rightarrow> world option" where
  "nick_history now channel nick type w = do {
     i \<leftarrow> chan_id w channel;
     Some (emit_db (db_nick_history now i nick type) w)
   }"

definition flush_nick :: "addr \<Rightarrow> string \<Rightarrow> IRCMsgType_t \<Rightarrow> string \<Rightarrow> string option \<Rightarrow> world \<Rightarrow> world option" where
  "flush_nick server nick type text newNick w = do {
     s \<leftarrow> wServers w server;
     as \<leftarrow> db_flush_nick (sv_serverId s, server) nick type text newNick;
     Some (emit_db as w)
   }"

text \<open>The notice about logging, when the channel has a URL and the nick was not told lately. \<open>NULL\<close> faults.\<close>

definition notify_nick :: "int \<Rightarrow> (addr \<Rightarrow> string \<Rightarrow> bool) \<Rightarrow> ptr \<Rightarrow> string \<Rightarrow> world \<Rightarrow> world option" where
  "notify_nick now answer channel nick w = do {
     c \<leftarrow> channel;
     ch \<leftarrow> wChans w c;
     if ch_url ch = [] then Some w
     else
       let as = db_check_nick_notify now (Some (ch_channelId ch)) (Some nick) (ch_notifywindow ch); w = emit_db as w in
       Some (if as \<noteq> [] \<and> answer c nick then emit (SendNotice c nick) w else w)
   }"

text \<open>\<open>sprintf\<close> into a buffer of \<open>MAX_STRING_LENGTH\<close> bytes; longer text overwrites the heap.\<close>

definition sprintf_buf :: "string \<Rightarrow> string option" where
  "sprintf_buf s = (if length s < MAX_STRING_LENGTH then Some s else None)"

definition nick_of :: "string \<Rightarrow> string option" where
  "nick_of who = BN_ExtractNick (Some who) 256"

section \<open>Connecting and joining\<close>

definition ProcOnConnected :: "addr \<Rightarrow> world \<Rightarrow> world option" where
  "ProcOnConnected server w = do {
     s \<leftarrow> wServers w server;
     w \<leftarrow> (if sv_password s \<noteq> [] then tx_msg server TX_PASSWORD None (Some (sv_password s)) w else Some w);
     w \<leftarrow> tx_msg server TX_NICK None (Some (sv_nick s)) w;
     tx_msg server TX_REGISTER (Some (sv_username s)) (Some (sv_realname s)) w
   }"

text \<open>The loop over \<open>server->channels\<close>: the first enabled channel not joined yet.\<close>

fun join_first :: "addr \<Rightarrow> addr list \<Rightarrow> world \<Rightarrow> world option" where
  "join_first server [] w = Some w"
| "join_first server (c # cs) w = do {
     ch \<leftarrow> wChans w c;
     if ch_joined ch \<or> \<not> ch_enabled ch then join_first server cs w
     else tx_msg server TX_JOIN (Some (ch_channel ch)) None w
   }"

definition ProcOnRegistered :: "addr \<Rightarrow> world \<Rightarrow> world option" where
  "ProcOnRegistered server w = do {
     s \<leftarrow> wServers w server;
     w \<leftarrow> (if sv_nickserv s \<noteq> [] then tx_msg server TX_PRIVMSG (Some (sv_nickserv s)) (Some (sv_nickservmsg s)) w else Some w);
     case sv_channels s of None \<Rightarrow> Some w | Some cs \<Rightarrow> join_first server cs w
   }"

fun joined_channel :: "string \<Rightarrow> addr \<Rightarrow> addr list \<Rightarrow> world \<Rightarrow> world option" where
  "joined_channel chan server [] w = Some w"
| "joined_channel chan server (c # cs) w = do {
     ch \<leftarrow> wChans w c;
     if ch_joined ch \<or> \<not> ch_enabled ch then joined_channel chan server cs w
     else if strcasecmp chan (ch_channel ch) = 0 then do {
       w \<leftarrow> upd_ch c (\<lambda>ch. ch\<lparr>ch_joined := True, ch_newChannel := False\<rparr>) w;
       joined_channel chan server cs (emit_db (db_flush_nicks (ch_channelId ch)) w)
     }
     else tx_msg server TX_JOIN (Some (ch_channel ch)) None w
   }"

definition ProcOnJoinChannel :: "addr \<Rightarrow> string \<Rightarrow> world \<Rightarrow> world option" where
  "ProcOnJoinChannel server chan w = do {
     s \<leftarrow> wServers w server;
     case sv_channels s of None \<Rightarrow> Some w | Some cs \<Rightarrow> joined_channel chan server cs w
   }"

definition ProcOnInvite :: "addr \<Rightarrow> string \<Rightarrow> world \<Rightarrow> world option" where
  "ProcOnInvite server chan w = do {
     channel \<leftarrow> FindChannel (Some server) chan w;
     case channel of
       None \<Rightarrow> Some w
     | Some c \<Rightarrow> do {
         ch \<leftarrow> wChans w c;
         if \<not> ch_enabled ch then Some w
         else do {
           w \<leftarrow> upd_ch c (\<lambda>ch. ch\<lparr>ch_joined := False\<rparr>) w;
           tx_msg server TX_JOIN (Some (ch_channel ch)) None w
         } }
   }"

section \<open>Channel events\<close>

definition ProcOnMode :: "int \<Rightarrow> addr \<Rightarrow> string \<Rightarrow> string \<Rightarrow> string \<Rightarrow> world \<Rightarrow> world option" where
  "ProcOnMode now server chan who msg w = do {
     text \<leftarrow> sprintf_buf (''Mode for '' @ chan @ '' by '' @ who @ '' : '' @ msg @ [CHR 0x0A]);
     channel \<leftarrow> FindChannel (Some server) chan w;
     w \<leftarrow> log_entry now channel who TYPE_MODE text True w;
     update_nick now channel who True True w
   }"

definition ProcOnNames :: "addr \<Rightarrow> string \<Rightarrow> world \<Rightarrow> world option" where
  "ProcOnNames server chan w = tx_msg server TX_WHO (Some chan) None w"

definition WHO_INFO_COUNT :: nat where "WHO_INFO_COUNT = 6"

text \<open>\<open>Info\<close> holds \<open>WHO_INFO_COUNT\<close> strings for each of the \<open>Count\<close> nicks, the nick first.\<close>

fun who_loop :: "int \<Rightarrow> (addr \<Rightarrow> string \<Rightarrow> bool) \<Rightarrow> addr \<Rightarrow> nat \<Rightarrow> string list \<Rightarrow> world \<Rightarrow> world option" where
  "who_loop now answer c 0 info w = Some w"
| "who_loop now answer c (Suc n) info w =
     (case info of
        [] \<Rightarrow> None
      | nick # _ \<Rightarrow> do {
          w \<leftarrow> update_nick now (Some c) nick True False w;
          w \<leftarrow> nick_history now (Some c) nick HIST_INITIAL w;
          w \<leftarrow> notify_nick now answer (Some c) nick w;
          who_loop now answer c n (drop WHO_INFO_COUNT info) w
        })"

definition ProcOnWho :: "int \<Rightarrow> (addr \<Rightarrow> string \<Rightarrow> bool) \<Rightarrow> addr \<Rightarrow> string \<Rightarrow> string list \<Rightarrow> nat \<Rightarrow> world \<Rightarrow> world option" where
  "ProcOnWho now answer server chan info count w = do {
     channel \<leftarrow> FindChannel (Some server) chan w;
     case channel of
       None \<Rightarrow> Some w
     | Some c \<Rightarrow> do {
         w \<leftarrow> nick_history now (Some c) [] HIST_START w;
         who_loop now answer c count info w
       }
   }"

definition ProcOnTopic :: "int \<Rightarrow> addr \<Rightarrow> string \<Rightarrow> string \<Rightarrow> string \<Rightarrow> world \<Rightarrow> world option" where
  "ProcOnTopic now server chan who msg w = do {
     text \<leftarrow> sprintf_buf (who @ '' changes topic to '' @ msg @ [CHR 0x0A]);
     channel \<leftarrow> FindChannel (Some server) chan w;
     w \<leftarrow> log_entry now channel who TYPE_TOPIC text True w;
     update_nick now channel who True True w
   }"

text \<open>The log line for a kick of the bot itself reads the channel. \<open>REJOIN_ON_KICK\<close> is not defined.\<close>

definition ProcOnKick :: "int \<Rightarrow> addr \<Rightarrow> string \<Rightarrow> string \<Rightarrow> string \<Rightarrow> string \<Rightarrow> world \<Rightarrow> world option" where
  "ProcOnKick now server chan who whom msg w = do {
     nick \<leftarrow> nick_of whom;
     text \<leftarrow> sprintf_buf (whom @ '' has been kicked from '' @ chan @ '' by '' @ who @ '' ('' @ msg @ '')'' @ [CHR 0x0A]);
     channel \<leftarrow> FindChannel (Some server) chan w;
     w \<leftarrow> log_entry now channel who TYPE_KICK text True w;
     w \<leftarrow> update_nick now channel nick False False w;
     w \<leftarrow> nick_history now channel nick HIST_LEAVE w;
     s \<leftarrow> wServers w server;
     if strcasecmp whom (sv_nick s) = 0 then do { c \<leftarrow> channel; _ \<leftarrow> wChans w c; Some w } else Some w
   }"

definition ProcOnPrivateTalk ::
    "(nat \<Rightarrow> nat \<Rightarrow> string) \<Rightarrow> cmd_tree \<Rightarrow> addr \<Rightarrow> string \<Rightarrow> string \<Rightarrow> world \<Rightarrow> world option" where
  "ProcOnPrivateTalk helps cmds server who msg w = do {
     nick \<leftarrow> nick_of who;
     (_, w) \<leftarrow> botCmd_parse helps cmds server None nick (Some msg) w;
     Some w
   }"

definition ProcOnAction :: "int \<Rightarrow> addr \<Rightarrow> string \<Rightarrow> string \<Rightarrow> string \<Rightarrow> world \<Rightarrow> world option" where
  "ProcOnAction now server chan who msg w = do {
     channel \<leftarrow> FindChannel (Some server) chan w;
     w \<leftarrow> log_entry now channel who TYPE_ACTION msg True w;
     w \<leftarrow> update_nick now channel who True True w;
     nick \<leftarrow> nick_of who;
     Some (emit (RegexpParse server channel nick msg TYPE_ACTION) w)
   }"

text \<open>The channel pointer is used without a test.\<close>

definition ProcOnChannelTalk ::
    "(nat \<Rightarrow> nat \<Rightarrow> string) \<Rightarrow> cmd_tree \<Rightarrow> int \<Rightarrow> addr \<Rightarrow> string \<Rightarrow> string \<Rightarrow> string \<Rightarrow> world \<Rightarrow> world option" where
  "ProcOnChannelTalk helps cmds now server chan who msg w = do {
     channel \<leftarrow> FindChannel (Some server) chan w;
     w \<leftarrow> log_entry now channel who TYPE_MESSAGE msg True w;
     w \<leftarrow> update_nick now channel who True True w;
     nick \<leftarrow> nick_of who;
     c \<leftarrow> channel;
     ch \<leftarrow> wChans w c;
     (ret, w) \<leftarrow> (if ch_cmdChar ch \<noteq> CHR 0x00 \<and> msg \<noteq> [] \<and> hd msg = ch_cmdChar ch
                  then botCmd_parse helps cmds server channel nick (Some (tl msg)) w
                  else Some (False, w));
     Some (if ret then w else emit (RegexpParse server channel nick msg TYPE_MESSAGE) w)
   }"

definition ProcOnNick :: "addr \<Rightarrow> string \<Rightarrow> string \<Rightarrow> world \<Rightarrow> world option" where
  "ProcOnNick server who msg w = flush_nick server who TYPE_NICK msg (Some msg) w"

definition ProcOnJoin :: "int \<Rightarrow> (addr \<Rightarrow> string \<Rightarrow> bool) \<Rightarrow> addr \<Rightarrow> string \<Rightarrow> string \<Rightarrow> world \<Rightarrow> world option" where
  "ProcOnJoin now answer server chan who w = do {
     nick \<leftarrow> nick_of who;
     text \<leftarrow> sprintf_buf (nick @ '' ('' @ who @ '') has joined '' @ chan @ [CHR 0x0A]);
     channel \<leftarrow> FindChannel (Some server) chan w;
     w \<leftarrow> log_entry now channel nick TYPE_JOIN text False w;
     w \<leftarrow> update_nick now channel nick True False w;
     w \<leftarrow> nick_history now channel nick HIST_JOIN w;
     notify_nick now answer channel nick w
   }"

definition ProcOnPart :: "int \<Rightarrow> addr \<Rightarrow> string \<Rightarrow> string \<Rightarrow> string \<Rightarrow> world \<Rightarrow> world option" where
  "ProcOnPart now server chan who msg w = do {
     nick \<leftarrow> nick_of who;
     text \<leftarrow> sprintf_buf (nick @ '' ('' @ who @ '') has left '' @ chan @ '' ('' @ msg @ '')'' @ [CHR 0x0A]);
     channel \<leftarrow> FindChannel (Some server) chan w;
     w \<leftarrow> log_entry now channel nick TYPE_PART text False w;
     w \<leftarrow> update_nick now channel nick False False w;
     nick_history now channel nick HIST_LEAVE w
   }"

definition ProcOnQuit :: "addr \<Rightarrow> string \<Rightarrow> string \<Rightarrow> world \<Rightarrow> world option" where
  "ProcOnQuit server who msg w = do {
     nick \<leftarrow> nick_of who;
     text \<leftarrow> sprintf_buf (nick @ '' ('' @ who @ '') has quit ('' @ msg @ '')'' @ [CHR 0x0A]);
     flush_nick server who TYPE_QUIT text None w
   }"

definition ProcOnCTCP :: "string \<Rightarrow> string \<Rightarrow> string option option" where
  "ProcOnCTCP git_version type =
     (if strcasecmp type ''version'' = 0 then map_option Some (sprintf_buf (''beirdobot -- '' @ git_version)) else Some None)"

fun history_all :: "int \<Rightarrow> (IRCChannel_t \<Rightarrow> bool) \<Rightarrow> NickHistory_t \<Rightarrow> addr list \<Rightarrow> world \<Rightarrow> world option" where
  "history_all now P type [] w = Some w"
| "history_all now P type (c # cs) w = do {
     ch \<leftarrow> wChans w c;
     w \<leftarrow> (if P ch then nick_history now (Some c) [] type w else Some w);
     history_all now P type cs w
   }"

definition ProcOnDisconnected :: "int \<Rightarrow> addr \<Rightarrow> world \<Rightarrow> world option" where
  "ProcOnDisconnected now server w = do {
     s \<leftarrow> wServers w server;
     if wAbort w then do {
       w \<leftarrow> (case sv_channels s of None \<Rightarrow> Some w | Some cs \<Rightarrow> history_all now ch_enabled HIST_END cs w);
       Some (emit ThreadExit w)
     } else Some w
   }"

section \<open>Messages of the bot\<close>

definition LoggedChannelMessage :: "int \<Rightarrow> addr \<Rightarrow> addr \<Rightarrow> string \<Rightarrow> world \<Rightarrow> world option" where
  "LoggedChannelMessage now server channel message w = do {
     ch \<leftarrow> wChans w channel;
     w \<leftarrow> tx_msg server TX_MESSAGE (Some (ch_channel ch)) (Some message) w;
     s \<leftarrow> wServers w server;
     w \<leftarrow> log_entry now (Some channel) (sv_nick s) TYPE_MESSAGE message False w;
     update_nick now (Some channel) (sv_nick s) True False w
   }"

definition LoggedActionMessage :: "int \<Rightarrow> addr \<Rightarrow> addr \<Rightarrow> string \<Rightarrow> world \<Rightarrow> world option" where
  "LoggedActionMessage now server channel message w = do {
     ch \<leftarrow> wChans w channel;
     w \<leftarrow> tx_msg server TX_ACTION (Some (ch_channel ch)) (Some message) w;
     s \<leftarrow> wServers w server;
     w \<leftarrow> log_entry now (Some channel) (sv_nick s) TYPE_ACTION message False w;
     update_nick now (Some channel) (sv_nick s) True False w
   }"

definition channelLeave :: "int \<Rightarrow> addr \<Rightarrow> addr \<Rightarrow> string \<Rightarrow> world \<Rightarrow> world option" where
  "channelLeave now server channel oldChannel w = do {
     w \<leftarrow> tx_msg server TX_PART (Some oldChannel) (Some ''Leaving due to reconfiguration'') w;
     w \<leftarrow> nick_history now (Some channel) [] HIST_END w;
     upd_ch channel (\<lambda>ch. ch\<lparr>ch_joined := False\<rparr>) w
   }"

end
