(* ===== verification/ServerLife.thy ===== *)
theory ServerLife
  imports Bot
begin

text \<open>
  \<open>bot/src/bot.c\<close> and \<open>bot/src/main.c\<close>: starting a server, killing it, shutting the
  whole tree down, the connection thread, and the two halves of a reload (what is not in
  the database any more goes, in \<open>botSighup\<close> for channels and in
  \<open>serverFlushUnvisited\<close> for servers).
\<close>

section \<open>Starting\<close>

definition serverStart :: "addr \<Rightarrow> world \<Rightarrow> world option" where
  "serverStart server w = do {
     w \<leftarrow> upd_sv server (\<lambda>s. s\<lparr>sv_newServer := False, sv_txQueue := True\<rparr>) w;
     Some (emit (ThreadStart BotThread server) (emit (ThreadStart TxThread server) w))
   }"

fun serverStartTree :: "addr tree \<Rightarrow> world \<Rightarrow> world option" where
  "serverStartTree Leaf w = Some w"
| "serverStartTree (Node l a r) w = do {
     w \<leftarrow> serverStartTree l w;
     s \<leftarrow> wServers w a;
     w \<leftarrow> (if sv_enabled s then serverStart a w else Some w);
     serverStartTree r w
   }"

section \<open>Killing\<close>

text \<open>
  The end of a channel, the same in \<open>serverKill\<close> and \<open>botSighup\<close>: it leaves the list
  and both trees, every thread is told, its menu entry goes, it is freed.
\<close>

definition drop_channel :: "addr \<Rightarrow> addr \<Rightarrow> world \<Rightarrow> world option" where
  "drop_channel server c w = do {
     ch \<leftarrow> wChans w c;
     w \<leftarrow> upd_sv server (\<lambda>s. s\<lparr>sv_channels := map_option (filter (\<lambda>x. x \<noteq> c)) (sv_channels s)\<rparr>) w;
     s \<leftarrow> wServers w server;
     i \<leftarrow> find_name w (ch_channel ch) (sv_channelName s);
     w \<leftarrow> (case i of
             None \<Rightarrow> Some w
           | Some x \<Rightarrow> upd_sv server (\<lambda>s. s\<lparr>sv_channelName := map_option (bt_remove x) (sv_channelName s)\<rparr>) w);
     i \<leftarrow> find_num w (ch_channelId ch) (sv_channelNum s);
     w \<leftarrow> (case i of
             None \<Rightarrow> Some w
           | Some x \<Rightarrow> upd_sv server (\<lambda>s. s\<lparr>sv_channelNum := map_option (bt_remove x) (sv_channelNum s)\<rparr>) w);
     let w = emit (MenuRemove MENU_CHANNELS (ch_menuText ch)) (emit (NotifyChannel c) w) in
     Some (w\<lparr>wChans := (wChans w)(c := None)\<rparr>)
   }"

fun kill_channels :: "addr \<Rightarrow> addr list \<Rightarrow> world \<Rightarrow> world option" where
  "kill_channels server [] w = Some w"
| "kill_channels server (c # cs) w = do {
     w \<leftarrow> regexpBotCmdRemove True server c w;
     w \<leftarrow> drop_channel server c w;
     kill_channels server cs w
   }"

text \<open>The parts of \<open>serverKill\<close>: both threads of an enabled server are stopped.\<close>

definition stop_threads :: "addr \<Rightarrow> world \<Rightarrow> world option" where
  "stop_threads server w = do {
     s \<leftarrow> wServers w server;
     if sv_enabled s \<or> sv_enabledChanged s
     then do {
       w \<leftarrow> upd_sv server (\<lambda>s. s\<lparr>sv_threadAbort := True\<rparr>) w;
       upd_sv server (\<lambda>s. s\<lparr>sv_threadAbort := False\<rparr>)
         (emit (ThreadStop BotThread server) (emit (ThreadStop TxThread server) w))
     } else Some w
   }"

text \<open>
  All channels go, then the list and both trees. Destroying a tree that is not empty
  would free the items inside the freed channels.
\<close>

definition kill_lists :: "addr \<Rightarrow> world \<Rightarrow> world option" where
  "kill_lists server w = do {
     s \<leftarrow> wServers w server;
     case sv_channels s of
       None \<Rightarrow> Some w
     | Some cs \<Rightarrow> do {
         w \<leftarrow> kill_channels server cs w;
         s \<leftarrow> wServers w server;
         if sv_channelName s = Some Leaf \<and> sv_channelNum s = Some Leaf
         then upd_sv server (\<lambda>s. s\<lparr>sv_channels := None, sv_channelName := None, sv_channelNum := None\<rparr>) w
         else None
       }
   }"

definition serverKill :: "addr \<Rightarrow> bool \<Rightarrow> world \<Rightarrow> world option" where
  "serverKill server unalloc w = do {
     w \<leftarrow> stop_threads server w;
     w \<leftarrow> (if unalloc then Some (w\<lparr>wTree := map_option (bt_remove server) (wTree w)\<rparr>)
          else upd_sv server (\<lambda>s. s\<lparr>sv_enabled := False\<rparr>) w);
     w \<leftarrow> upd_sv server (\<lambda>s. s\<lparr>sv_txQueue := False\<rparr>) w;
     w \<leftarrow> kill_lists server w;
     s \<leftarrow> wServers w server;
     if \<not> sv_floodList s then None
     else do {
       w \<leftarrow> upd_sv server (\<lambda>s. s\<lparr>sv_floodList := False\<rparr>) w;
       let w = emit (NotifyServer server) w in
       if unalloc
       then let w = emit (MenuRemove MENU_SERVERS (sv_menuText s)) w in Some (w\<lparr>wServers := (wServers w)(server := None)\<rparr>)
       else Some w
     }
   }"

fun serverKillTree :: "addr tree \<Rightarrow> bool \<Rightarrow> world \<Rightarrow> (bool \<times> world) option" where
  "serverKillTree Leaf ifVisited w = Some (False, w)"
| "serverKillTree (Node l a r) ifVisited w = do {
     (b, w) \<leftarrow> serverKillTree l ifVisited w;
     if b then Some (True, w)
     else do {
       s \<leftarrow> wServers w a;
       if \<not> ifVisited \<or> sv_visited s then do { w \<leftarrow> serverKill a True w; Some (True, w) }
       else do {
         (b, w) \<leftarrow> serverKillTree r ifVisited w;
         Some (b, w)
       }
     }
   }"

text \<open>The loop of \<open>bot_shutdown\<close>; \<open>None\<close> also if it never ends.\<close>

partial_function (option) shutdown_loop :: "world \<Rightarrow> world option" where
  "shutdown_loop w = do {
     t \<leftarrow> wTree w;
     (b, w) \<leftarrow> serverKillTree t False w;
     if b then shutdown_loop w else Some w
   }"

declare shutdown_loop.simps [code]

definition bot_shutdown :: "world \<Rightarrow> world option" where
  "bot_shutdown w =
     (case wTree w of
        None \<Rightarrow> Some w
      | Some _ \<Rightarrow> do { w \<leftarrow> shutdown_loop w; Some (w\<lparr>wTree := None\<rparr>) })"

section \<open>The connection thread\<close>

fun clear_joined :: "addr list \<Rightarrow> world \<Rightarrow> world option" where
  "clear_joined [] w = Some w"
| "clear_joined (c # cs) w = do { w \<leftarrow> upd_ch c (\<lambda>ch. ch\<lparr>ch_joined := False\<rparr>) w; clear_joined cs w }"

text \<open>
  \<open>attempts\<close>: for each call of \<open>BN_Connect\<close> whether it returned \<open>true\<close>, and whether an
  abort was requested after it. The flag of the result: the loop has ended.
\<close>

fun connect_loop :: "addr \<Rightarrow> (bool \<times> bool) list \<Rightarrow> world \<Rightarrow> (bool \<times> world) option" where
  "connect_loop server [] w = Some (False, w)"
| "connect_loop server ((ok, abort) # as) w =
     (if ok \<or> abort then Some (True, w)
      else do {
        s \<leftarrow> wServers w server;
        w \<leftarrow> (case sv_channels s of None \<Rightarrow> Some (emit (Slept 10) w) | Some cs \<Rightarrow> clear_joined cs (emit (Slept 10) w));
        connect_loop server as w
      })"

definition bot_server_thread :: "int \<Rightarrow> ptr \<Rightarrow> (bool \<times> bool) list \<Rightarrow> world \<Rightarrow> world option" where
  "bot_server_thread now arg attempts w =
     (case arg of
        None \<Rightarrow> Some w
      | Some server \<Rightarrow> do {
          (ended, w) \<leftarrow> connect_loop server attempts w;
          s \<leftarrow> wServers w server;
          if \<not> ended then Some w
          else (case sv_channels s of None \<Rightarrow> Some w | Some cs \<Rightarrow> history_all now (\<lambda>_. True) HIST_END cs w)
        })"

section \<open>Reload\<close>

fun sighup_loop :: "int \<Rightarrow> addr \<Rightarrow> addr list \<Rightarrow> bool \<Rightarrow> world \<Rightarrow> world option" where
  "sighup_loop now server [] newChannel w = Some w"
| "sighup_loop now server (c # cs) newChannel w = do {
     ch \<leftarrow> wChans w c;
     if \<not> ch_visited ch then do {
       w \<leftarrow> channelLeave now server c (ch_channel ch) w;
       w \<leftarrow> regexpBotCmdRemove True server c w;
       w \<leftarrow> drop_channel server c w;
       sighup_loop now server cs newChannel w
     }
     else if ch_newChannel ch \<and> ch_enabled ch \<and> \<not> ch_joined ch \<and> \<not> newChannel then do {
       w \<leftarrow> tx_msg server TX_JOIN (Some (ch_channel ch)) None w;
       sighup_loop now server cs True w
     }
     else if ch_newChannel ch \<and> \<not> ch_enabled ch then do {
       w \<leftarrow> upd_ch c (\<lambda>ch. ch\<lparr>ch_newChannel := False\<rparr>) w;
       sighup_loop now server cs newChannel w
     }
     else sighup_loop now server cs newChannel w
   }"

definition botSighup :: "int \<Rightarrow> ptr \<Rightarrow> world \<Rightarrow> world option" where
  "botSighup now arg w =
     (case arg of
        None \<Rightarrow> Some w
      | Some server \<Rightarrow> do {
          s \<leftarrow> wServers w server;
          case sv_channels s of None \<Rightarrow> Some w | Some cs \<Rightarrow> sighup_loop now server cs False w
        })"

fun unvisit_channels :: "addr list \<Rightarrow> world \<Rightarrow> world option" where
  "unvisit_channels [] w = Some w"
| "unvisit_channels (c # cs) w = do { w \<leftarrow> upd_ch c (\<lambda>ch. ch\<lparr>ch_visited := False\<rparr>) w; unvisit_channels cs w }"

fun serverUnvisit :: "addr tree \<Rightarrow> world \<Rightarrow> world option" where
  "serverUnvisit Leaf w = Some w"
| "serverUnvisit (Node l a r) w = do {
     w \<leftarrow> serverUnvisit l w;
     w \<leftarrow> upd_sv a (\<lambda>s. s\<lparr>sv_visited := False\<rparr>) w;
     s \<leftarrow> wServers w a;
     w \<leftarrow> (case sv_channels s of None \<Rightarrow> Some w | Some cs \<Rightarrow> unvisit_channels cs w);
     serverUnvisit r w
   }"

fun serverFlushUnvisited :: "addr tree \<Rightarrow> world \<Rightarrow> (bool \<times> world) option" where
  "serverFlushUnvisited Leaf w = Some (False, w)"
| "serverFlushUnvisited (Node l a r) w = do {
     (b, w) \<leftarrow> serverFlushUnvisited l w;
     if b then Some (True, w)
     else do {
       s \<leftarrow> wServers w a;
       if \<not> sv_visited s then do { w \<leftarrow> serverKill a True w; Some (True, w) }
       else do {
         w \<leftarrow> (if sv_newServer s \<and> sv_enabled s then serverStart a w else Some w);
         (b, w) \<leftarrow> serverFlushUnvisited r w;
         Some (b, w)
       }
     }
   }"

text \<open>The loop of \<open>mainSighup\<close> over \<open>serverFlushUnvisited\<close>.\<close>

partial_function (option) flush_loop :: "world \<Rightarrow> world option" where
  "flush_loop w = do {
     t \<leftarrow> wTree w;
     (b, w) \<leftarrow> serverFlushUnvisited t w;
     if b then flush_loop w else Some w
   }"

declare flush_loop.simps [code]

section \<open>A channel is dropped\<close>

lemma inorder_cong_keys:
  "(\<And>a. a \<in> set_tree t \<Longrightarrow> k a = k' a) \<Longrightarrow> bt_inv cmp ok k t = bt_inv cmp ok k' t"
  by (induction t) (auto simp: bt_inv_def)

definition chans_of :: "world \<Rightarrow> addr \<Rightarrow> addr set" where
  "chans_of w a = (case wServers w a of None \<Rightarrow> {} | Some s \<Rightarrow> (case sv_channels s of None \<Rightarrow> {} | Some cs \<Rightarrow> set cs))"

text \<open>\<open>indexed\<close> depends on the names and numbers of the server's own channels only.\<close>

lemma indexed_cong:
  assumes "\<And>c cs. sv_channels s = Some cs \<Longrightarrow> c \<in> set cs \<Longrightarrow>
      (wChans w' c \<noteq> None \<longleftrightarrow> wChans w c \<noteq> None) \<and>
      map_option (\<lambda>ch. (ch_channel ch, ch_channelId ch)) (wChans w' c) = map_option (\<lambda>ch. (ch_channel ch, ch_channelId ch)) (wChans w c)"
    and "sv_channels s' = sv_channels s" "sv_channelName s' = sv_channelName s" "sv_channelNum s' = sv_channelNum s"
  shows "indexed w' s' = indexed w s"
proof (cases "sv_channels s")
  case None
  with assms show ?thesis by (simp add: indexed_def)
next
  case (Some cs)
  have k: "name_key w' c = name_key w c" "num_key w' c = num_key w c"
    "(\<exists>rc. wChans w' c = Some rc \<and> small_id (ch_channelId rc)) \<longleftrightarrow> (\<exists>rc. wChans w c = Some rc \<and> small_id (ch_channelId rc))"
    if "c \<in> set cs" for c
    using assms(1) [OF Some that]
    by (auto simp: name_key_def num_key_def split: option.splits)
  have b: "(\<forall>c \<in> set cs. \<exists>rc. wChans w' c = Some rc \<and> small_id (ch_channelId rc)) \<longleftrightarrow>
      (\<forall>c \<in> set cs. \<exists>rc. wChans w c = Some rc \<and> small_id (ch_channelId rc))"
    by (rule ball_cong [OF refl k(3)])
  have t: "set_tree t = set cs \<Longrightarrow> bt_inv cmp ok (name_key w') t = bt_inv cmp ok (name_key w) t"
    "set_tree t = set cs \<Longrightarrow> bt_inv cmp ok (num_key w') t = bt_inv cmp ok (num_key w) t" for t cmp ok
    using inorder_cong_keys [of t "name_key w'" "name_key w"] inorder_cong_keys [of t "num_key w'" "num_key w"] k by auto
  show ?thesis
    unfolding indexed_def assms(2-4) Some option.case b
    by (simp add: t cong: conj_cong)
qed

lemma drop_channel_correct:
  assumes s: "wServers w server = Some s" "indexed w s" "sv_channels s = Some cs" and c: "c \<in> set cs"
    and names: "\<forall>c \<in> set cs. \<exists>ch. wChans w c = Some ch"
  shows "\<exists>ch tn ti s'. wChans w c = Some ch \<and>
    s' = s\<lparr>sv_channels := Some (filter (\<lambda>x. x \<noteq> c) cs), sv_channelName := Some tn, sv_channelNum := Some ti\<rparr> \<and>
    drop_channel server c w = Some (w\<lparr>wServers := (wServers w)(server \<mapsto> s'), wChans := (wChans w)(c := None),
      wOut := wOut w @ [NotifyChannel c, MenuRemove MENU_CHANNELS (ch_menuText ch)]\<rparr>) \<and>
    (\<forall>w'. wChans w' = (wChans w)(c := None) \<longrightarrow> indexed w' s')"
proof -
  from names c obtain ch where ch: "wChans w c = Some ch" by blast
  from s(2,3) obtain tn ti where
    d: "distinct cs" and sm: "\<forall>c \<in> set cs. \<exists>rc. wChans w c = Some rc \<and> small_id (ch_channelId rc)"
    and tn: "sv_channelName s = Some tn" "set_tree tn = set cs" "bt_inv (cmp_of KeyCompareString) is_string (name_key w) tn"
    and ti: "sv_channelNum s = Some ti" "set_tree ti = set cs" "bt_inv (cmp_of KeyCompareInt) small_int (num_key w) ti"
    by (auto simp: indexed_def)
  let ?s1 = "s\<lparr>sv_channels := Some (filter (\<lambda>x. x \<noteq> c) cs)\<rparr>"
  let ?s2 = "?s1\<lparr>sv_channelName := Some (bt_remove c tn)\<rparr>"
  let ?s3 = "?s2\<lparr>sv_channelNum := Some (bt_remove c ti)\<rparr>"
  have alive: "alive (wChans w) tn" "alive (wChans w) ti" using names tn(2) ti(2) by (auto simp: alive_def)
  have nk: "name_key w c = KString (ch_channel ch)" "num_key w c = id_key (ch_channelId ch)"
    using ch by (simp_all add: name_key_def num_key_def)
  have f: "bt_find (cmp_of KeyCompareString) (name_key w) (KString (ch_channel ch)) tn = Some c"
    using string_tree.plain.find_elem [OF tn(3), of c] c tn(2) nk by simp
  have g: "bt_find (cmp_of KeyCompareInt) (num_key w) (id_key (ch_channelId ch)) ti = Some c"
    using int_tree.plain.find_elem [OF ti(3), of c] c ti(2) nk by simp
  have nk': "name_key (w\<lparr>wServers := h\<rparr>) = name_key w" "num_key (w\<lparr>wServers := h\<rparr>) = num_key w" for h
    by (simp_all add: name_key_def num_key_def fun_eq_iff)
  have run: "drop_channel server c w = Some (w\<lparr>wServers := (wServers w)(server \<mapsto> ?s3), wChans := (wChans w)(c := None),
      wOut := wOut w @ [NotifyChannel c, MenuRemove MENU_CHANNELS (ch_menuText ch)]\<rparr>)"
    using ch s(1,3) tn(1) ti(1) alive f g
    by (simp add: drop_channel_def upd_sv_def find_name_def find_num_def nk' emit_def)
  have "indexed w' ?s3" if w': "wChans w' = (wChans w)(c := None)" for w'
  proof -
    have keys: "name_key w' a = name_key w a" "num_key w' a = num_key w a" if "a \<noteq> c" for a
      using that w' by (simp_all add: name_key_def num_key_def)
    have rn: "set_tree (bt_remove c tn) = set cs - {c}" "bt_inv (cmp_of KeyCompareString) is_string (name_key w) (bt_remove c tn)"
      using string_tree.inv_remove [OF tn(3), of c] tn(2) by auto
    have ri: "set_tree (bt_remove c ti) = set cs - {c}" "bt_inv (cmp_of KeyCompareInt) small_int (num_key w) (bt_remove c ti)"
      using int_tree.inv_remove [OF ti(3), of c] ti(2) by auto
    have "bt_inv (cmp_of KeyCompareString) is_string (name_key w') (bt_remove c tn)"
      using rn inorder_cong_keys [of "bt_remove c tn" "name_key w'" "name_key w"] keys(1) by auto
    moreover have "bt_inv (cmp_of KeyCompareInt) small_int (num_key w') (bt_remove c ti)"
      using ri inorder_cong_keys [of "bt_remove c ti" "num_key w'" "num_key w"] keys(2) by auto
    ultimately show ?thesis using d sm w' rn(1) ri(1) by (auto simp: indexed_def)
  qed
  with run ch show ?thesis by (intro exI [of _ ch] exI [of _ "bt_remove c tn"] exI [of _ "bt_remove c ti"] exI [of _ ?s3]) simp
qed


section \<open>A server is killed\<close>

text \<open>The world after an operation on one server: the rest as before, \<open>es\<close> was called.\<close>

definition only_server :: "addr \<Rightarrow> IRCServer_t option \<Rightarrow> addr set \<Rightarrow> effect list \<Rightarrow> world \<Rightarrow> world \<Rightarrow> bool" where
  "only_server a so C es w w' \<longleftrightarrow> wServers w' = (wServers w)(a := so) \<and>
     wChans w' = (\<lambda>c. if c \<in> C then None else wChans w c) \<and>
     wLoaded w' = wLoaded w \<and> wAbort w' = wAbort w \<and> wOut w' = wOut w @ es"

definition told :: "effect list \<Rightarrow> addr list \<Rightarrow> bool" where
  "told es cs \<longleftrightarrow> (\<forall>c. NotifyChannel c \<in> set es \<longleftrightarrow> c \<in> set cs) \<and> (\<forall>k a. ThreadStart k a \<notin> set es)"

lemma regexpBotCmdRemove_run:
  "wServers w a = Some s \<Longrightarrow> wChans w c = Some ch \<Longrightarrow> \<exists>x y. regexpBotCmdRemove True a c w = Some (emit (RegexpRemove x y) w)"
  by (simp add: regexpBotCmdRemove_def) blast

lemma indexed_emit [simp]: "indexed (emit e w) s = indexed w s"
  by (rule indexed_cong) simp_all

lemma kill_channels_correct:
  "wServers w a = Some s \<Longrightarrow> indexed w s \<Longrightarrow> sv_channels s = Some cs \<Longrightarrow>
   \<exists>w' es. kill_channels a cs w = Some w' \<and>
     only_server a (Some (s\<lparr>sv_channels := Some [], sv_channelName := Some Leaf, sv_channelNum := Some Leaf\<rparr>)) (set cs) es w w' \<and>
     wTree w' = wTree w \<and> told es cs"
proof (induction cs arbitrary: w s)
  case Nil
  from Nil.prems(2,3) have "sv_channelName s = Some Leaf" "sv_channelNum s = Some Leaf" by (auto simp: indexed_def)
  with Nil have "s\<lparr>sv_channels := Some [], sv_channelName := Some Leaf, sv_channelNum := Some Leaf\<rparr> = s" by (cases s) simp
  with Nil show ?case by (intro exI [of _ w] exI [of _ "[]"]) (simp add: only_server_def told_def fun_upd_idem)
next
  case (Cons c cs)
  from Cons.prems(2,3) have d: "c \<notin> set cs" "distinct cs" and al: "\<forall>x \<in> set (c # cs). \<exists>ch. wChans w x = Some ch"
    by (auto simp: indexed_def)
  then obtain ch where ch: "wChans w c = Some ch" by auto
  from regexpBotCmdRemove_run [OF Cons.prems(1) ch] obtain x y where
    r: "regexpBotCmdRemove True a c w = Some (emit (RegexpRemove x y) w)" by blast
  let ?we = "emit (RegexpRemove x y) w"
  have pre: "wServers ?we a = Some s" "indexed ?we s" "c \<in> set (c # cs)" "\<forall>x \<in> set (c # cs). \<exists>ch. wChans ?we x = Some ch"
    using Cons.prems al by simp_all
  from drop_channel_correct [OF pre(1,2) Cons.prems(3) pre(3,4)] obtain ch' tn ti s' where ch': "wChans ?we c = Some ch'"
    and s': "s' = s\<lparr>sv_channels := Some (filter (\<lambda>z. z \<noteq> c) (c # cs)), sv_channelName := Some tn, sv_channelNum := Some ti\<rparr>"
    and run': "drop_channel a c ?we = Some (?we\<lparr>wServers := (wServers ?we)(a \<mapsto> s'), wChans := (wChans ?we)(c := None),
      wOut := wOut ?we @ [NotifyChannel c, MenuRemove MENU_CHANNELS (ch_menuText ch')]\<rparr>)"
    and ix': "\<forall>w'. wChans w' = (wChans ?we)(c := None) \<longrightarrow> indexed w' s'" by blast
  let ?w1 = "w\<lparr>wServers := (wServers w)(a \<mapsto> s'), wChans := (wChans w)(c := None),
      wOut := wOut w @ [RegexpRemove x y, NotifyChannel c, MenuRemove MENU_CHANNELS (ch_menuText ch)]\<rparr>"
  have run: "drop_channel a c ?we = Some ?w1" using run' ch ch' by (simp add: emit_def)
  have ix: "indexed w' s'" if "wChans w' = (wChans w)(c := None)" for w' using that ix' by simp
  have "filter (\<lambda>z. z \<noteq> c) cs = cs" using d by (simp add: filter_neq_id)
  with s' have cs': "sv_channels s' = Some cs" by simp
  from Cons.IH [of ?w1 s'] ix [of ?w1] cs' obtain w' es where
    w': "kill_channels a cs ?w1 = Some w'"
      "only_server a (Some (s'\<lparr>sv_channels := Some [], sv_channelName := Some Leaf, sv_channelNum := Some Leaf\<rparr>)) (set cs) es ?w1 w'"
      "wTree w' = wTree w" "told es cs" by auto
  have "only_server a (Some (s\<lparr>sv_channels := Some [], sv_channelName := Some Leaf, sv_channelNum := Some Leaf\<rparr>)) (set (c # cs))
      ([RegexpRemove x y, NotifyChannel c, MenuRemove MENU_CHANNELS (ch_menuText ch)] @ es) w w'"
    using w'(2) s' by (auto simp: only_server_def fun_eq_iff)
  moreover have "told ([RegexpRemove x y, NotifyChannel c, MenuRemove MENU_CHANNELS (ch_menuText ch)] @ es) (c # cs)"
    using w'(4) by (auto simp: told_def)
  moreover have "kill_channels a (c # cs) w = Some w'" using r run w'(1) by simp
  ultimately show ?case using w'(3) by blast
qed

text \<open>What is left of a server that is killed but kept.\<close>

definition disabled :: "IRCServer_t \<Rightarrow> IRCServer_t" where
  "disabled s = s\<lparr>sv_threadAbort := (if sv_enabled s \<or> sv_enabledChanged s then False else sv_threadAbort s),
     sv_enabled := False, sv_txQueue := False, sv_channels := None, sv_channelName := None, sv_channelNum := None,
     sv_floodList := False\<rparr>"

lemma stop_threads_run:
  assumes "wServers w a = Some s"
  shows "\<exists>w' es. stop_threads a w = Some w' \<and>
     only_server a (Some (s\<lparr>sv_threadAbort := (if sv_enabled s \<or> sv_enabledChanged s then False else sv_threadAbort s)\<rparr>)) {} es w w' \<and>
     wTree w' = wTree w \<and> told es []"
  using assms
  by (auto simp: stop_threads_def upd_sv_def only_server_def emit_def told_def fun_eq_iff fun_upd_idem)

lemma only_server_trans:
  "only_server a x C es w w1 \<Longrightarrow> only_server a y D fs w1 w2 \<Longrightarrow> only_server a y (C \<union> D) (es @ fs) w w2"
  by (auto simp: only_server_def fun_eq_iff)

lemma upd_sv_only:
  "wServers w a = Some s \<Longrightarrow> \<exists>w'. upd_sv a f w = Some w' \<and> only_server a (Some (f s)) {} [] w w' \<and> wTree w' = wTree w"
  by (simp add: upd_sv_def only_server_def)

lemma only_server_at: "only_server a x C es w w' \<Longrightarrow> wServers w' a = x"
  by (simp add: only_server_def)

lemma only_server_indexed:
  assumes "only_server a (Some s') {} es w w'" "indexed w s"
    "sv_channels s' = sv_channels s" "sv_channelName s' = sv_channelName s" "sv_channelNum s' = sv_channelNum s"
  shows "indexed w' s'"
proof -
  have "wChans w' = wChans w" using assms(1) by (simp add: only_server_def)
  then have "indexed w' s' = indexed w s" by (intro indexed_cong) (simp_all add: assms)
  with assms(2) show ?thesis by simp
qed

lemma told_append: "told es cs \<Longrightarrow> told fs ds \<Longrightarrow> told (es @ fs) (cs @ ds)"
  by (auto simp: told_def)

lemma told_simps [simp]: "told [] []" "told (NotifyServer a # es) cs = told es cs" "told (MenuRemove m t # es) cs = told es cs"
  by (auto simp: told_def)

definition chan_list :: "IRCServer_t \<Rightarrow> addr list" where
  "chan_list s = (case sv_channels s of None \<Rightarrow> [] | Some cs \<Rightarrow> cs)"

lemma kill_lists_run:
  assumes "wServers w a = Some s" "indexed w s"
  shows "\<exists>w' es. kill_lists a w = Some w' \<and>
     only_server a (Some (s\<lparr>sv_channels := None, sv_channelName := None, sv_channelNum := None\<rparr>)) (set (chan_list s)) es w w' \<and>
     wTree w' = wTree w \<and> told es (chan_list s)"
proof (cases "sv_channels s")
  case None
  with assms(2) have "s\<lparr>sv_channels := None, sv_channelName := None, sv_channelNum := None\<rparr> = s"
    by (cases s) (auto simp: indexed_def)
  with None assms(1) show ?thesis
    by (intro exI [of _ w] exI [of _ "[]"]) (simp add: kill_lists_def only_server_def chan_list_def fun_upd_idem)
next
  case (Some cs)
  from kill_channels_correct [OF assms Some] obtain w1 es where k: "kill_channels a cs w = Some w1"
    "only_server a (Some (s\<lparr>sv_channels := Some [], sv_channelName := Some Leaf, sv_channelNum := Some Leaf\<rparr>)) (set cs) es w w1"
    "wTree w1 = wTree w" "told es cs" by blast
  from upd_sv_only [OF only_server_at [OF k(2)], of "\<lambda>s. s\<lparr>sv_channels := None, sv_channelName := None, sv_channelNum := None\<rparr>"]
  obtain w2 where w2: "upd_sv a (\<lambda>s. s\<lparr>sv_channels := None, sv_channelName := None, sv_channelNum := None\<rparr>) w1 = Some w2"
    "only_server a (Some (s\<lparr>sv_channels := None, sv_channelName := None, sv_channelNum := None\<rparr>)) {} [] w1 w2" "wTree w2 = wTree w1" by auto
  from only_server_trans [OF k(2) w2(2)] k w2 Some assms(1) only_server_at [OF k(2)] show ?thesis
    by (intro exI [of _ w2] exI [of _ es]) (simp add: kill_lists_def chan_list_def)
qed

lemma serverKill_correct:
  assumes s: "wServers w a = Some s" "indexed w s" "sv_floodList s"
  shows "\<exists>w' es. serverKill a unalloc w = Some w' \<and>
    only_server a (if unalloc then None else Some (disabled s)) (set (chan_list s)) es w w' \<and>
    wTree w' = (if unalloc then map_option (bt_remove a) (wTree w) else wTree w) \<and>
    told es (chan_list s) \<and> NotifyServer a \<in> set es"
proof -
  define s1 where "s1 = s\<lparr>sv_threadAbort := (if sv_enabled s \<or> sv_enabledChanged s then False else sv_threadAbort s)\<rparr>"
  define s2 where "s2 = (if unalloc then s1 else s1\<lparr>sv_enabled := False\<rparr>)"
  define s3 where "s3 = s2\<lparr>sv_txQueue := False\<rparr>"
  define s4 where "s4 = s3\<lparr>sv_channels := None, sv_channelName := None, sv_channelNum := None\<rparr>"
  define T where "T = (if unalloc then map_option (bt_remove a) (wTree w) else wTree w)"
  from stop_threads_run [OF s(1)] obtain w1 es1 where w1: "stop_threads a w = Some w1"
    "only_server a (Some s1) {} es1 w w1" "wTree w1 = wTree w" "told es1 []" unfolding s1_def by blast
  have "\<exists>w2. (if unalloc then Some (w1\<lparr>wTree := map_option (bt_remove a) (wTree w1)\<rparr>)
      else upd_sv a (\<lambda>s. s\<lparr>sv_enabled := False\<rparr>) w1) = Some w2 \<and> only_server a (Some s2) {} [] w1 w2 \<and> wTree w2 = T"
    using only_server_at [OF w1(2)] w1(3) by (cases unalloc) (simp_all add: upd_sv_def only_server_def fun_upd_idem s2_def T_def)
  then obtain w2 where w2: "(if unalloc then Some (w1\<lparr>wTree := map_option (bt_remove a) (wTree w1)\<rparr>)
      else upd_sv a (\<lambda>s. s\<lparr>sv_enabled := False\<rparr>) w1) = Some w2" "only_server a (Some s2) {} [] w1 w2" "wTree w2 = T" by metis
  from upd_sv_only [OF only_server_at [OF w2(2)], of "\<lambda>s. s\<lparr>sv_txQueue := False\<rparr>"] obtain w3 where
    w3: "upd_sv a (\<lambda>s. s\<lparr>sv_txQueue := False\<rparr>) w2 = Some w3" "only_server a (Some s3) {} [] w2 w3" "wTree w3 = T"
    using w2(3) unfolding s3_def by metis
  note o3 = only_server_trans [OF only_server_trans [OF w1(2) w2(2)] w3(2)]
  have f: "sv_channels s3 = sv_channels s" "sv_channelName s3 = sv_channelName s" "sv_channelNum s3 = sv_channelNum s"
    "sv_floodList s4 = sv_floodList s" "sv_menuText s4 = sv_menuText s" "chan_list s3 = chan_list s"
    by (simp_all add: s4_def s3_def s2_def s1_def chan_list_def)
  have "only_server a (Some s3) {} (es1 @ [] @ []) w w3" using o3 by simp
  from only_server_indexed [OF this s(2) f(1-3)] have ix3: "indexed w3 s3" .
  from kill_lists_run [OF only_server_at [OF w3(2)] ix3] f(6) w3(3) obtain w4 es4 where
    w4: "kill_lists a w3 = Some w4" "only_server a (Some s4) (set (chan_list s)) es4 w3 w4" "wTree w4 = T" "told es4 (chan_list s)"
    unfolding s4_def by auto
  from upd_sv_only [OF only_server_at [OF w4(2)], of "\<lambda>s. s\<lparr>sv_floodList := False\<rparr>"] obtain w5 where
    w5: "upd_sv a (\<lambda>s. s\<lparr>sv_floodList := False\<rparr>) w4 = Some w5" "only_server a (Some (s4\<lparr>sv_floodList := False\<rparr>)) {} [] w4 w5"
      "wTree w5 = T" using w4(3) by metis
  note o5 = only_server_trans [OF only_server_trans [OF o3 w4(2)] w5(2)]
  have dis: "s4\<lparr>sv_floodList := False\<rparr> = disabled s" if "\<not> unalloc"
    using that by (simp add: disabled_def s4_def s3_def s2_def s1_def)
  let ?es = "NotifyServer a # (if unalloc then [MenuRemove MENU_SERVERS (sv_menuText s)] else [])"
  have "\<exists>w6. serverKill a unalloc w = Some w6 \<and> only_server a (if unalloc then None else Some (disabled s)) {} ?es w5 w6 \<and> wTree w6 = T"
    unfolding serverKill_def w1(1) Option.bind.bind_lunit w2(1) w3(1) w4(1) only_server_at [OF w4(2)]
    using f(4,5) s(3) w5(1,3) only_server_at [OF w5(2)] dis
    by (cases unalloc) (simp_all add: Let_def only_server_def emit_def fun_upd_idem)
  then obtain w6 where w6: "serverKill a unalloc w = Some w6"
    "only_server a (if unalloc then None else Some (disabled s)) {} ?es w5 w6" "wTree w6 = T" by blast
  note o6 = only_server_trans [OF o5 w6(2)]
  have "told (((((es1 @ []) @ []) @ es4) @ []) @ ?es) (chan_list s)"
    using told_append [OF w1(4) told_append [OF w4(4), of ?es "[]"]] by simp
  with w6 o6 show ?thesis unfolding T_def by (intro exI [of _ w6] exI [of _ "((((es1 @ []) @ []) @ es4) @ []) @ ?es"]) simp
qed


section \<open>Shutting down\<close>

text \<open>
  The tree of servers in order: every server is allocated, has its flood list and indexed
  channels, and no channel belongs to two servers.
\<close>

definition forest_at :: "world \<Rightarrow> addr tree \<Rightarrow> bool" where
  "forest_at w t \<longleftrightarrow> wTree w = Some t \<and> distinct (inorder t) \<and>
     (\<forall>a \<in> set_tree t. \<exists>s. wServers w a = Some s \<and> indexed w s \<and> sv_floodList s) \<and>
     (\<forall>a \<in> set_tree t. \<forall>b \<in> set_tree t. a \<noteq> b \<longrightarrow> chans_of w a \<inter> chans_of w b = {})"

lemma set_remove: "distinct (inorder t) \<Longrightarrow> set_tree (bt_remove a t) = set_tree t - {a}"
  unfolding set_inorder [symmetric] by (auto simp: inorder_bt_remove)

lemma chans_of_list: "wServers w a = Some s \<Longrightarrow> chans_of w a = set (chan_list s)"
  by (auto simp: chans_of_def chan_list_def split: option.splits)

lemma indexed_other:
  assumes "indexed w s" "\<And>c. c \<in> set (chan_list s) \<Longrightarrow> wChans w' c = wChans w c"
  shows "indexed w' s"
proof -
  have "indexed w' s = indexed w s" using assms(2) by (intro indexed_cong) (simp_all add: chan_list_def)
  with assms(1) show ?thesis by simp
qed

lemma forest_kill:
  assumes f: "forest_at w t" and a: "a \<in> set_tree t"
  shows "\<exists>w' es. serverKill a True w = Some w' \<and> forest_at w' (bt_remove a t) \<and>
    wServers w' = (wServers w)(a := None) \<and> wChans w' = (\<lambda>c. if c \<in> chans_of w a then None else wChans w c) \<and>
    wOut w' = wOut w @ es \<and> NotifyServer a \<in> set es \<and> (\<forall>c. NotifyChannel c \<in> set es \<longleftrightarrow> c \<in> chans_of w a) \<and>
    (\<forall>k b. ThreadStart k b \<notin> set es)"
proof -
  from f a obtain s where s: "wServers w a = Some s" "indexed w s" "sv_floodList s" by (auto simp: forest_at_def)
  from serverKill_correct [OF this, of True] obtain w' es where
    k: "serverKill a True w = Some w'" "only_server a None (set (chan_list s)) es w w'"
      "wTree w' = map_option (bt_remove a) (wTree w)" "told es (chan_list s)" "NotifyServer a \<in> set es" by auto
  note ca = chans_of_list [OF s(1)]
  have sv: "wServers w' = (wServers w)(a := None)" and ch: "wChans w' = (\<lambda>c. if c \<in> chans_of w a then None else wChans w c)"
    using k(2) ca by (simp_all add: only_server_def)
  have co: "chans_of w' b = chans_of w b" if "b \<noteq> a" for b using that sv by (simp add: chans_of_def)
  have d: "distinct (inorder t)" using f by (simp add: forest_at_def)
  have "\<exists>s. wServers w' b = Some s \<and> indexed w' s \<and> sv_floodList s" if "b \<in> set_tree t - {a}" for b
  proof -
    from that f obtain sb where sb: "wServers w b = Some sb" "indexed w sb" "sv_floodList sb" by (auto simp: forest_at_def)
    have "chans_of w a \<inter> chans_of w b = {}" using that a f by (auto simp: forest_at_def)
    then have "wChans w' c = wChans w c" if "c \<in> set (chan_list sb)" for c
      using that ch chans_of_list [OF sb(1)] by auto
    with indexed_other [OF sb(2)] sb sv that show ?thesis by auto
  qed
  then have "forest_at w' (bt_remove a t)"
    using f k(3) d co by (auto simp: forest_at_def set_remove inorder_bt_remove)
  with k sv ch ca show ?thesis by (auto simp: only_server_def told_def)
qed

lemma serverKillTree_min:
  "t \<noteq> Leaf \<Longrightarrow> wServers w (min_of t) \<noteq> None \<Longrightarrow>
   serverKillTree t False w = do { w \<leftarrow> serverKill (min_of t) True w; Some (True, w) }"
proof (induction t)
  case (Node l a r)
  show ?case
  proof (cases "l = Leaf")
    case True
    with Node.prems show ?thesis by (auto simp: bind_eq_Some_conv)
  next
    case False
    with Node show ?thesis by (cases "serverKill (min_of l) True w") simp_all
  qed
qed simp

lemma size_remove:
  assumes "distinct (inorder t)" "a \<in> set_tree t" shows "size (bt_remove a t) = size t - 1"
  using distinct_card [of "inorder t"] distinct_card [of "inorder (bt_remove a t)"] assms
  by (simp add: set_remove)
     (metis assms(1) card_Diff_singleton distinct_filter inorder_bt_remove set_inorder length_inorder set_remove finite_set)

lemma shutdown_loop_forest:
  "forest_at w t \<Longrightarrow> \<exists>w' es. shutdown_loop w = Some w' \<and> forest_at w' Leaf \<and>
     wServers w' = (\<lambda>a. if a \<in> set_tree t then None else wServers w a) \<and>
     wChans w' = (\<lambda>c. if c \<in> (\<Union>a \<in> set_tree t. chans_of w a) then None else wChans w c) \<and>
     wOut w' = wOut w @ es \<and> (\<forall>a \<in> set_tree t. NotifyServer a \<in> set es) \<and>
     (\<forall>a \<in> set_tree t. \<forall>c \<in> chans_of w a. NotifyChannel c \<in> set es)"
proof (induction "size t" arbitrary: t w)
  case 0
  then have t: "t = Leaf" by simp
  with 0 have "shutdown_loop w = Some w" by (subst shutdown_loop.simps) (simp add: forest_at_def)
  with 0 t show ?case by (intro exI [of _ w] exI [of _ "[]"]) simp
next
  case (Suc n)
  let ?a = "min_of t"
  from Suc.hyps(2) have nl: "t \<noteq> Leaf" by auto
  then have a: "?a \<in> set_tree t" by (rule min_of_in)
  from forest_kill [OF Suc.prems a] obtain w1 es where
    k: "serverKill ?a True w = Some w1" "forest_at w1 (bt_remove ?a t)" "wServers w1 = (wServers w)(?a := None)"
      "wChans w1 = (\<lambda>c. if c \<in> chans_of w ?a then None else wChans w c)" "wOut w1 = wOut w @ es"
      "NotifyServer ?a \<in> set es" "\<forall>c. NotifyChannel c \<in> set es \<longleftrightarrow> c \<in> chans_of w ?a" by blast
  have d: "distinct (inorder t)" using Suc.prems by (simp add: forest_at_def)
  have sz: "size (bt_remove ?a t) = n"
    using size_remove [OF d a] Suc.hyps(2) by simp
  from Suc.hyps(1) [OF sz [symmetric] k(2)] obtain w2 es2 where
    l: "shutdown_loop w1 = Some w2" "forest_at w2 Leaf"
      "wServers w2 = (\<lambda>a. if a \<in> set_tree (bt_remove ?a t) then None else wServers w1 a)"
      "wChans w2 = (\<lambda>c. if c \<in> (\<Union>a \<in> set_tree (bt_remove ?a t). chans_of w1 a) then None else wChans w1 c)"
      "wOut w2 = wOut w1 @ es2" "\<forall>a \<in> set_tree (bt_remove ?a t). NotifyServer a \<in> set es2"
      "\<forall>a \<in> set_tree (bt_remove ?a t). \<forall>c \<in> chans_of w1 a. NotifyChannel c \<in> set es2" by blast
  have co: "chans_of w1 b = chans_of w b" if "b \<noteq> ?a" for b using that k(3) by (simp add: chans_of_def)
  have st: "set_tree (bt_remove ?a t) = set_tree t - {?a}" by (rule set_remove [OF d])
  have "wServers w ?a \<noteq> None" "wTree w = Some t" using Suc.prems a by (auto simp: forest_at_def)
  then have "shutdown_loop w = Some w2"
    using serverKillTree_min [OF nl] k(1) l(1) by (subst shutdown_loop.simps) simp
  moreover have "wServers w2 = (\<lambda>b. if b \<in> set_tree t then None else wServers w b)"
    using l(3) k(3) st a by (auto simp: fun_eq_iff)
  moreover have "wChans w2 = (\<lambda>c. if c \<in> (\<Union>a \<in> set_tree t. chans_of w a) then None else wChans w c)"
    using l(4) k(4) st a co by (auto simp: fun_eq_iff)
  ultimately show ?case using l k st co
    by (intro exI [of _ w2] exI [of _ "es @ es2"]) (auto simp: st)
qed


section \<open>Properties\<close>

text \<open>Claim C15. Shutting the bot down from a well-formed tree of servers, in which every server
  has its flood list, ends: every server is killed and freed with its channels, the threads of
  each are told, and the tree is gone. A server made in the user interface has no flood list
  until the database is read again; killing such a server faults (bot.c:789).\<close>

theorem shutdown_frees_everything:
  assumes "forest_at w t"
  shows "\<exists>w' es. bot_shutdown w = Some w' \<and> wTree w' = None \<and>
    (\<forall>a \<in> set_tree t. wServers w' a = None \<and> NotifyServer a \<in> set es \<and>
      (\<forall>c \<in> chans_of w a. wChans w' c = None \<and> NotifyChannel c \<in> set es)) \<and>
    (\<forall>a. a \<notin> set_tree t \<longrightarrow> wServers w' a = wServers w a) \<and> wOut w' = wOut w @ es"
proof -
  from shutdown_loop_forest [OF assms] obtain w1 es where w1: "shutdown_loop w = Some w1" "forest_at w1 Leaf"
    "wServers w1 = (\<lambda>a. if a \<in> set_tree t then None else wServers w a)"
    "wChans w1 = (\<lambda>c. if c \<in> (\<Union>a \<in> set_tree t. chans_of w a) then None else wChans w c)"
    "wOut w1 = wOut w @ es" "\<forall>a \<in> set_tree t. NotifyServer a \<in> set es"
    "\<forall>a \<in> set_tree t. \<forall>c \<in> chans_of w a. NotifyChannel c \<in> set es" by blast
  have "bot_shutdown w = Some (w1\<lparr>wTree := None\<rparr>)" using w1(1) assms by (simp add: bot_shutdown_def forest_at_def)
  with w1 show ?thesis by (intro exI [of _ "w1\<lparr>wTree := None\<rparr>"] exI [of _ es]) auto
qed

text \<open>A world with one server and one channel.\<close>

definition example_world :: world where
  "example_world = no_world\<lparr>
     wServers := [1 \<mapsto> new_server\<lparr>sv_channels := Some [2], sv_channelName := Some (Node Leaf 2 Leaf),
       sv_channelNum := Some (Node Leaf 2 Leaf), sv_serverId := 1, sv_server := ''irc'', sv_nick := ''bot'',
       sv_floodList := True, sv_txQueue := True, sv_enabled := True\<rparr>],
     wChans := [2 \<mapsto> new_channel\<lparr>ch_channelId := 5, ch_server := Some 1, ch_channel := ''#c'',
       ch_cmdChar := CHR ''!'', ch_enabled := True\<rparr>],
     wTree := Some (Node Leaf 1 Leaf), wLoaded := True\<rparr>"

lemma example_indexed: "\<exists>s. wServers example_world 1 = Some s \<and> indexed example_world s \<and> sv_floodList s"
  by (simp add: example_world_def indexed_def new_server_def bt_inv_def name_key_def num_key_def new_channel_def
      no_world_def small_id_def nul_free_def small_id_key)

lemma example_forest: "forest_at example_world (Node Leaf 1 Leaf)"
  using example_indexed by (auto simp: forest_at_def) (simp_all add: example_world_def)

lemma shutdown_frees_everything_witness:
  "\<exists>w' es. bot_shutdown example_world = Some w' \<and> wTree w' = None \<and>
    (\<forall>a \<in> set_tree (Node Leaf 1 Leaf). wServers w' a = None \<and> NotifyServer a \<in> set es \<and>
      (\<forall>c \<in> chans_of example_world a. wChans w' c = None \<and> NotifyChannel c \<in> set es)) \<and>
    (\<forall>a. a \<notin> set_tree (Node Leaf 1 Leaf) \<longrightarrow> wServers w' a = wServers example_world a) \<and> wOut w' = wOut example_world @ es"
  by (rule shutdown_frees_everything [OF example_forest])

text \<open>Killing a server that was created in the user interface (without a flood list) is
  a NULL dereference.\<close>

theorem kill_without_flood_list:
  "serverKill 1 True (no_world\<lparr>wServers := [1 \<mapsto> new_server\<lparr>sv_serverId := -1\<rparr>], wTree := Some (Node Leaf 1 Leaf)\<rparr>) = None"
  by (simp add: serverKill_def stop_threads_def kill_lists_def upd_sv_def new_server_def no_world_def bt_join_def)

end
