(* ===== verification/Reload.thy ===== *)
theory Reload
  imports ServerLife
begin

text \<open>
  What a reload leaves: the tree of servers after the loop of \<open>mainSighup\<close> over
  \<open>serverFlushUnvisited\<close>, and the channels of a server after \<open>botSighup\<close>.
\<close>

section \<open>Walking the tree is walking the list of servers in order\<close>

fun flush_list :: "addr list \<Rightarrow> world \<Rightarrow> (bool \<times> world) option" where
  "flush_list [] w = Some (False, w)"
| "flush_list (a # as) w = do {
     s \<leftarrow> wServers w a;
     if \<not> sv_visited s then do { w \<leftarrow> serverKill a True w; Some (True, w) }
     else do {
       w \<leftarrow> (if sv_newServer s \<and> sv_enabled s then serverStart a w else Some w);
       flush_list as w
     }
   }"

lemma flush_list_append:
  "flush_list (as @ bs) w = do { (b, w) \<leftarrow> flush_list as w; if b then Some (True, w) else flush_list bs w }"
proof (induction as arbitrary: w)
  case (Cons a as)
  show ?case
  proof (cases "wServers w a")
    case (Some s)
    show ?thesis
    proof (cases "sv_visited s")
      case True
      with Some Cons.IH show ?thesis
        by (cases "if sv_newServer s \<and> sv_enabled s then serverStart a w else Some w") simp_all
    next
      case False
      with Some show ?thesis by (cases "serverKill a True w") simp_all
    qed
  qed simp
qed simp

lemma serverFlushUnvisited_list: "serverFlushUnvisited t w = flush_list (inorder t) w"
proof (induction t arbitrary: w)
  case (Node l a r)
  have id: "(do { (b, w) \<leftarrow> m; Some (b, w) }) = m" for m :: "(bool \<times> world) option" by (cases m) auto
  show ?case by (simp add: flush_list_append Node id cong: if_cong)
qed simp

text \<open>What the reload makes of a server that stays.\<close>

definition started :: "IRCServer_t \<Rightarrow> IRCServer_t" where
  "started s = (if sv_newServer s \<and> sv_enabled s then s\<lparr>sv_newServer := False, sv_txQueue := True\<rparr> else s)"

lemma started_fields [simp]:
  "sv_channels (started s) = sv_channels s" "sv_channelName (started s) = sv_channelName s"
  "sv_channelNum (started s) = sv_channelNum s" "sv_floodList (started s) = sv_floodList s"
  "sv_visited (started s) = sv_visited s" "started (started s) = started s" "chan_list (started s) = chan_list s"
  "sv_serverId (started s) = sv_serverId s"
  by (simp_all add: started_def chan_list_def)

text \<open>The threads that are started, for the servers of a list; those among some effects.\<close>

definition starts :: "world \<Rightarrow> addr list \<Rightarrow> effect list" where
  "starts w as = concat (map (\<lambda>a. case wServers w a of
     None \<Rightarrow> [] | Some s \<Rightarrow> if sv_newServer s \<and> sv_enabled s then [ThreadStart TxThread a, ThreadStart BotThread a] else []) as)"

fun is_start :: "effect \<Rightarrow> bool" where
  "is_start (ThreadStart k a) = True"
| "is_start _ = False"

lemma starts_append [simp]: "starts w (as @ bs) = starts w as @ starts w bs"
  by (simp add: starts_def)

lemma starts_cong: "(\<And>a. a \<in> set as \<Longrightarrow> wServers w' a = wServers w a) \<Longrightarrow> starts w' as = starts w as"
  unfolding starts_def by (intro arg_cong [where f = concat] map_cong refl) simp

lemma starts_started: "(\<And>a. a \<in> set as \<Longrightarrow> wServers w' a = map_option started (wServers w a)) \<Longrightarrow> starts w' as = []"
  by (auto simp: starts_def started_def split: option.splits if_splits)

lemma starts_are_starts: "filter is_start (starts w as) = starts w as"
  by (induction as) (auto simp: starts_def split: option.splits)

definition start_servers :: "addr set \<Rightarrow> world \<Rightarrow> world \<Rightarrow> bool" where
  "start_servers A w w' \<longleftrightarrow> wServers w' = (\<lambda>a. if a \<in> A then map_option started (wServers w a) else wServers w a) \<and>
     wChans w' = wChans w \<and> wTree w' = wTree w \<and> wLoaded w' = wLoaded w \<and> wAbort w' = wAbort w"

lemma maybe_start:
  assumes "wServers w a = Some s"
  shows "\<exists>w'. (if sv_newServer s \<and> sv_enabled s then serverStart a w else Some w) = Some w' \<and> start_servers {a} w w' \<and>
    wOut w' = wOut w @ starts w [a]"
proof (cases "sv_newServer s \<and> sv_enabled s")
  case True
  with assms show ?thesis by (simp add: serverStart_def upd_sv_def start_servers_def started_def fun_eq_iff starts_def)
next
  case False
  with assms have "wServers w = (\<lambda>b. if b \<in> {a} then map_option started (wServers w b) else wServers w b)"
    by (intro ext) (auto simp: started_def)
  then have "start_servers {a} w w" unfolding start_servers_def by simp
  moreover have "starts w [a] = []" using False assms by (simp add: starts_def)
  ultimately show ?thesis using False by (intro exI [of _ w]) (simp only: if_False simp_thms append_Nil2)
qed

lemma start_servers_trans: "start_servers A w w1 \<Longrightarrow> start_servers B w1 w2 \<Longrightarrow> start_servers (A \<union> B) w w2"
  by (auto simp: start_servers_def fun_eq_iff option.map_comp comp_def intro!: option.map_cong)

lemma flush_list_run:
  "\<forall>a \<in> set as. wServers w a \<noteq> None \<Longrightarrow> distinct as \<Longrightarrow>
   (\<exists>w'. flush_list as w = Some (False, w') \<and> start_servers (set as) w w' \<and> wOut w' = wOut w @ starts w as \<and>
      (\<forall>a \<in> set as. sv_visited (the (wServers w a)))) \<or>
   (\<exists>pre a post w1. as = pre @ a # post \<and> start_servers (set pre) w w1 \<and> wOut w1 = wOut w @ starts w pre \<and>
      (\<forall>b \<in> set pre. sv_visited (the (wServers w b))) \<and> \<not> sv_visited (the (wServers w a)) \<and>
      flush_list as w = do { w \<leftarrow> serverKill a True w1; Some (True, w) })"
proof (induction as arbitrary: w)
  case Nil
  then show ?case by (simp add: start_servers_def starts_def)
next
  case (Cons a as)
  then obtain s where s: "wServers w a = Some s" by auto
  show ?case
  proof (cases "sv_visited s")
    case False
    with s show ?thesis
      by (intro disjI2 exI [of _ "[]"] exI [of _ a] exI [of _ as] exI [of _ w]) (simp add: start_servers_def starts_def)
  next
    case True
    from maybe_start [OF s] obtain w1 where
      w1: "(if sv_newServer s \<and> sv_enabled s then serverStart a w else Some w) = Some w1" "start_servers {a} w w1" "wOut w1 = wOut w @ starts w [a]" by blast
    have one: "starts w (a # bs) = starts w [a] @ starts w bs" for bs by (simp add: starts_def)
    have same: "wServers w1 b = wServers w b" if "b \<noteq> a" for b using w1(2) that by (simp add: start_servers_def)
    have run: "flush_list (a # as) w = flush_list as w1" using s True w1(1) by simp
    have vis: "sv_visited (the (wServers w1 b)) = sv_visited (the (wServers w b))" if "b \<in> set as" for b
      using that Cons.prems(2) same [of b] by (cases "b = a") auto
    have "wServers w1 b \<noteq> None" if "b \<in> set as" for b
      using that Cons.prems same [of b] by (cases "b = a") auto
    then have "\<forall>b \<in> set as. wServers w1 b \<noteq> None" by blast
    with Cons.IH [of w1] Cons.prems(2) consider
      (go) w' where "flush_list as w1 = Some (False, w')" "start_servers (set as) w1 w'" "\<forall>b \<in> set as. sv_visited (the (wServers w1 b))"
        "wOut w' = wOut w1 @ starts w1 as"
    | (kill) pre b post w2 where "as = pre @ b # post" "start_servers (set pre) w1 w2" "\<not> sv_visited (the (wServers w1 b))"
        "flush_list as w1 = do { w \<leftarrow> serverKill b True w2; Some (True, w) }" "wOut w2 = wOut w1 @ starts w1 pre"
        "\<forall>b \<in> set pre. sv_visited (the (wServers w1 b))" by auto
    then show ?thesis
    proof cases
      case go
      have "starts w1 as = starts w as" by (rule starts_cong) (metis same Cons.prems(2) distinct.simps(2))
      with go(4) w1(3) one [of as] have "wOut w' = wOut w @ starts w (a # as)" by simp
      with start_servers_trans [OF w1(2) go(2)] go(1,3) run s True vis show ?thesis
        by (intro disjI1 exI [of _ w']) simp
    next
      case kill
      have "b \<noteq> a" using kill(1) Cons.prems(2) by auto
      moreover have "a \<notin> set pre" using kill(1) Cons.prems(2) by auto
      then have "starts w1 pre = starts w pre" by (intro starts_cong) (metis same)
      then have "wOut w2 = wOut w @ starts w (a # pre)" using kill(5) w1(3) one [of pre] by simp
      moreover have "\<forall>c \<in> set (a # pre). sv_visited (the (wServers w c))" using kill(1,6) vis s True by auto
      ultimately show ?thesis using start_servers_trans [OF w1(2) kill(2)] kill(1,3,4) run same
        by (intro disjI2 exI [of _ "a # pre"] exI [of _ b] exI [of _ post] exI [of _ w2]) auto
    qed
  qed
qed

lemma forest_started:
  assumes "start_servers A w w'" "forest_at w t" shows "forest_at w' t"
proof -
  have ch: "wChans w' = wChans w" using assms(1) by (simp add: start_servers_def)
  have co: "chans_of w' a = chans_of w a" for a
    using assms(1) by (auto simp: start_servers_def chans_of_def split: option.splits)
  have "\<exists>s. wServers w' a = Some s \<and> indexed w' s \<and> sv_floodList s" if a: "a \<in> set_tree t" for a
  proof -
    from a assms(2) obtain s where s: "wServers w a = Some s" "indexed w s" "sv_floodList s" by (auto simp: forest_at_def)
    let ?s = "if a \<in> A then started s else s"
    have "indexed w' ?s = indexed w s" using ch by (intro indexed_cong) simp_all
    with s assms(1) show ?thesis by (intro exI [of _ ?s]) (simp add: start_servers_def)
  qed
  with assms co show ?thesis by (simp add: forest_at_def start_servers_def)
qed

text \<open>The servers that were visited stay, in their order, and run; the others are gone with their channels.\<close>

definition flushed :: "addr tree \<Rightarrow> world \<Rightarrow> world \<Rightarrow> bool" where
  "flushed t w w' \<longleftrightarrow>
     wServers w' = (\<lambda>a. if a \<in> set_tree t
        then (case wServers w a of None \<Rightarrow> None | Some s \<Rightarrow> if sv_visited s then Some (started s) else None)
        else wServers w a) \<and>
     wChans w' = (\<lambda>c. if \<exists>a \<in> set_tree t. \<not> sv_visited (the (wServers w a)) \<and> c \<in> chans_of w a then None else wChans w c)"

lemma flush_loop_forest:
  "forest_at w t \<Longrightarrow> \<exists>w' t'. flush_loop w = Some w' \<and> forest_at w' t' \<and>
     inorder t' = filter (\<lambda>a. sv_visited (the (wServers w a))) (inorder t) \<and> flushed t w w' \<and>
     (\<exists>es. wOut w' = wOut w @ es \<and> filter is_start es = starts w (inorder t'))"
proof (induction "size t" arbitrary: t w rule: less_induct)
  case less
  have d: "distinct (inorder t)" and wt: "wTree w = Some t" and al: "\<forall>a \<in> set (inorder t). wServers w a \<noteq> None"
    using less.prems by (auto simp: forest_at_def)
  note go = flush_list_run [OF al d]
  show ?case
  proof (cases "\<forall>a \<in> set_tree t. sv_visited (the (wServers w a))")
    case True
    have "a \<in> set_tree t" if "inorder t = pre @ a # post" for pre a post using that set_inorder [of t] by auto
    with go True obtain w' where w': "flush_list (inorder t) w = Some (False, w')" "start_servers (set_tree t) w w'"
        "wOut w' = wOut w @ starts w (inorder t)"
      unfolding set_inorder by blast
    have "flush_loop w = Some w'"
      using wt w'(1) by (subst flush_loop.simps) (simp add: serverFlushUnvisited_list)
    moreover have "flushed t w w'"
      using w'(2) True al unfolding flushed_def start_servers_def by (auto simp: fun_eq_iff split: option.splits)
    moreover have "filter (\<lambda>a. sv_visited (the (wServers w a))) (inorder t) = inorder t" using True by simp
    ultimately show ?thesis using forest_started [OF w'(2) less.prems] w'(3) starts_are_starts [of w "inorder t"]
      by (intro exI [of _ w'] exI [of _ t]) auto
  next
    case False
    with go obtain pre a post w1 where k: "inorder t = pre @ a # post" "start_servers (set pre) w w1"
      "\<not> sv_visited (the (wServers w a))" "flush_list (inorder t) w = do { w \<leftarrow> serverKill a True w1; Some (True, w) }"
      "wOut w1 = wOut w @ starts w pre" "\<forall>b \<in> set pre. sv_visited (the (wServers w b))" by auto
    have a: "a \<in> set_tree t" "a \<notin> set pre" using k(1) d set_inorder [of t] by auto
    from forest_kill [OF forest_started [OF k(2) less.prems] a(1)] obtain w2 es where
      w2: "serverKill a True w1 = Some w2" "forest_at w2 (bt_remove a t)" "wServers w2 = (wServers w1)(a := None)"
        "wChans w2 = (\<lambda>c. if c \<in> chans_of w1 a then None else wChans w1 c)" "wOut w2 = wOut w1 @ es"
        "\<forall>k b. ThreadStart k b \<notin> set es" by blast
    have sz: "size (bt_remove a t) < size t" using size_remove [OF d a(1)] a(1) by (cases t) auto
    from less.hyps [OF sz w2(2)] obtain w' t' where
      l: "flush_loop w2 = Some w'" "forest_at w' t'"
        "inorder t' = filter (\<lambda>b. sv_visited (the (wServers w2 b))) (inorder (bt_remove a t))" "flushed (bt_remove a t) w2 w'"
        "\<exists>es. wOut w' = wOut w2 @ es \<and> filter is_start es = starts w2 (inorder t')" by blast
    have run: "flush_loop w = Some w'"
      using wt k(4) w2(1) l(1) by (subst flush_loop.simps) (simp add: serverFlushUnvisited_list)
    have v: "sv_visited (the (wServers w2 b)) = sv_visited (the (wServers w b))" "chans_of w2 b = chans_of w b"
      "wServers w2 b = (if b \<in> set pre then map_option started (wServers w b) else wServers w b)"
      if "b \<in> set_tree t" "b \<noteq> a" for b
      using that k(2) w2(3) al by (auto simp: start_servers_def chans_of_def split: option.splits)
    have out: "wServers w2 b = wServers w b" if "b \<notin> set_tree t" for b
      using that k(1,2) w2(3) a(1) set_inorder [of t] by (auto simp: start_servers_def)
    have st: "set_tree (bt_remove a t) = set_tree t - {a}" by (rule set_remove [OF d])
    have "inorder t' = filter (\<lambda>b. sv_visited (the (wServers w b))) (inorder t)"
      unfolding l(3) inorder_bt_remove [OF d] filter_filter
    proof (rule filter_cong [OF refl])
      fix b assume "b \<in> set (inorder t)"
      then show "(b \<noteq> a \<and> sv_visited (the (wServers w2 b))) = sv_visited (the (wServers w b))"
        using v(1) [of b] k(3) by (cases "b = a") simp_all
    qed
    moreover have "flushed t w w'"
    proof -
      have ca: "chans_of w1 a = chans_of w a" "wChans w1 = wChans w" using k(2) a(2) by (simp_all add: start_servers_def chans_of_def)
      have "wServers w' b = (if b \<in> set_tree t
          then (case wServers w b of None \<Rightarrow> None | Some s \<Rightarrow> if sv_visited s then Some (started s) else None)
          else wServers w b)" for b
        using l(4) st v [of b] out [of b] w2(3) k(3) a(1)
        by (cases "b = a"; cases "b \<in> set_tree t"; cases "wServers w b") (auto simp: flushed_def)
      moreover have "wChans w' c = (if \<exists>a \<in> set_tree t. \<not> sv_visited (the (wServers w a)) \<and> c \<in> chans_of w a then None else wChans w c)" for c
        using l(4) st v w2(4) ca k(3) a(1) by (auto simp: flushed_def)
      ultimately show ?thesis by (simp add: flushed_def fun_eq_iff)
    qed
    moreover have "\<exists>es. wOut w' = wOut w @ es \<and> filter is_start es = starts w (inorder t')"
    proof -
      from l(5) obtain es2 where es2: "wOut w' = wOut w2 @ es2" "filter is_start es2 = starts w2 (inorder t')" by blast
      have none: "filter is_start es = []"
        using w2(6) by (auto simp: filter_empty_conv elim!: is_start.elims)
      define post' where "post' = filter (\<lambda>b. sv_visited (the (wServers w b))) post"
      have t': "inorder t' = pre @ post'"
        using calculation k(1,3,6) by (simp add: post'_def)
      have ne: "b \<noteq> a" "b \<in> set_tree t" "b \<notin> set pre" if "b \<in> set post'" for b
        using that k(1) d set_inorder [of t] by (auto simp: post'_def)
      have "starts w2 pre = []"
      proof (rule starts_started)
        fix b assume b: "b \<in> set pre"
        then have "b \<in> set_tree t" "b \<noteq> a" using k(1) d set_inorder [of t] by auto
        with v(3) [of b] b show "wServers w2 b = map_option started (wServers w b)" by simp
      qed
      moreover have "starts w2 post' = starts w post'"
        by (rule starts_cong) (use v(3) ne in auto)
      ultimately have "filter is_start (starts w pre @ es @ es2) = starts w (inorder t')"
        using es2(2) none by (simp add: t' starts_are_starts)
      moreover have "wOut w' = wOut w @ (starts w pre @ es @ es2)" using es2(1) w2(5) k(5) by simp
      ultimately show ?thesis by blast
    qed
    ultimately show ?thesis using run l(2) by blast
  qed
qed


section \<open>Channels after a reload\<close>

definition settled :: "IRCChannel_t \<Rightarrow> IRCChannel_t" where
  "settled ch = (if ch_newChannel ch \<and> \<not> ch_enabled ch then ch\<lparr>ch_newChannel := False\<rparr> else ch)"

definition kept :: "IRCServer_t \<Rightarrow> IRCServer_t \<Rightarrow> bool" where
  "kept s s' \<longleftrightarrow> s' = s\<lparr>sv_channels := sv_channels s', sv_channelName := sv_channelName s', sv_channelNum := sv_channelNum s'\<rparr>"

text \<open>Everything else in the world is as before.\<close>

definition same_rest :: "world \<Rightarrow> world \<Rightarrow> bool" where
  "same_rest w w' \<longleftrightarrow> wTree w' = wTree w \<and> wLoaded w' = wLoaded w \<and> wAbort w' = wAbort w"

text \<open>The channels that are left: the lines that part them, and those among some effects.\<close>

fun is_part :: "effect \<Rightarrow> bool" where
  "is_part (TxMsg a TX_PART c m) = True"
| "is_part _ = False"

definition part_line :: "addr \<Rightarrow> IRCServer_t \<Rightarrow> world \<Rightarrow> addr \<Rightarrow> effect list" where
  "part_line a s w c =
     (if sv_txQueue s
      then [TxMsg a TX_PART (Some (ch_channel (the (wChans w c)))) (Some ''Leaving due to reconfiguration'')] else [])"

lemma channelLeave_run:
  assumes "wServers w a = Some s" "wChans w c = Some ch"
  shows "\<exists>w' es. channelLeave now a c old w = Some w' \<and> wServers w' = wServers w \<and>
    wChans w' = (wChans w)(c \<mapsto> ch\<lparr>ch_joined := False\<rparr>) \<and> same_rest w w' \<and> wOut w' = wOut w @ es \<and>
    (\<forall>x. NotifyChannel x \<notin> set es) \<and>
    filter is_part es = (if sv_txQueue s then [TxMsg a TX_PART (Some old) (Some ''Leaving due to reconfiguration'')] else [])"
  using assms
  by (auto simp: channelLeave_def tx_msg_def nick_history_def chan_id_def upd_ch_def same_rest_def)

lemma leave_channel_run:
  assumes s: "wServers w a = Some s" "indexed w s" "sv_channels s = Some cs" and c: "c \<in> set cs" "wChans w c = Some ch"
  shows "\<exists>w' s' es. (do {
       w \<leftarrow> channelLeave now a c (ch_channel ch) w;
       w \<leftarrow> regexpBotCmdRemove True a c w;
       drop_channel a c w
     }) = Some w' \<and> wServers w' = (wServers w)(a \<mapsto> s') \<and> sv_channels s' = Some (filter (\<lambda>x. x \<noteq> c) cs) \<and> kept s s' \<and>
     indexed w' s' \<and> wChans w' = (wChans w)(c := None) \<and> same_rest w w' \<and> wOut w' = wOut w @ es \<and>
     (\<forall>x. NotifyChannel x \<in> set es \<longleftrightarrow> x = c) \<and> filter is_part es = part_line a s w c"
proof -
  from channelLeave_run [OF s(1) c(2)] obtain w1 es1 where w1: "channelLeave now a c (ch_channel ch) w = Some w1"
    "wServers w1 = wServers w" "wChans w1 = (wChans w)(c \<mapsto> ch\<lparr>ch_joined := False\<rparr>)" "same_rest w w1" "wOut w1 = wOut w @ es1"
    "\<forall>x. NotifyChannel x \<notin> set es1" "filter is_part es1 = part_line a s w c" unfolding part_line_def c(2) option.sel by blast
  from w1 s(1) have "wServers w1 a = Some s" "wChans w1 c = Some (ch\<lparr>ch_joined := False\<rparr>)" by simp_all
  from regexpBotCmdRemove_run [OF this] obtain x y where r: "regexpBotCmdRemove True a c w1 = Some (emit (RegexpRemove x y) w1)" by blast
  let ?w2 = "emit (RegexpRemove x y) w1"
  have "indexed ?w2 s = indexed w s" using w1(3) c by (intro indexed_cong) auto
  moreover have "\<forall>c \<in> set cs. \<exists>ch. wChans ?w2 c = Some ch" using s(2,3) w1(3) by (auto simp: indexed_def)
  ultimately obtain ch' tn ti s' where d: "wChans ?w2 c = Some ch'"
    "s' = s\<lparr>sv_channels := Some (filter (\<lambda>x. x \<noteq> c) cs), sv_channelName := Some tn, sv_channelNum := Some ti\<rparr>"
    "drop_channel a c ?w2 = Some (?w2\<lparr>wServers := (wServers ?w2)(a \<mapsto> s'), wChans := (wChans ?w2)(c := None),
      wOut := wOut ?w2 @ [NotifyChannel c, MenuRemove MENU_CHANNELS (ch_menuText ch')]\<rparr>)"
    "\<forall>w'. wChans w' = (wChans ?w2)(c := None) \<longrightarrow> indexed w' s'"
    using drop_channel_correct [of ?w2 a s cs c] s w1(2) c(1) by auto
  let ?w3 = "?w2\<lparr>wServers := (wServers ?w2)(a \<mapsto> s'), wChans := (wChans ?w2)(c := None),
      wOut := wOut ?w2 @ [NotifyChannel c, MenuRemove MENU_CHANNELS (ch_menuText ch')]\<rparr>"
  have "indexed ?w3 s'" using d(4) by simp
  moreover have "wChans ?w3 = (wChans w)(c := None)" "wServers ?w3 = (wServers w)(a \<mapsto> s')" using w1(2,3) by simp_all
  moreover have "kept s s'" "sv_channels s' = Some (filter (\<lambda>x. x \<noteq> c) cs)" using d(2) by (simp_all add: kept_def)
  moreover have "same_rest w ?w3" using w1(4) by (simp add: same_rest_def)
  moreover have "wOut ?w3 = wOut w @ (es1 @ [RegexpRemove x y, NotifyChannel c, MenuRemove MENU_CHANNELS (ch_menuText ch')])"
    "\<forall>z. NotifyChannel z \<in> set (es1 @ [RegexpRemove x y, NotifyChannel c, MenuRemove MENU_CHANNELS (ch_menuText ch')]) \<longleftrightarrow> z = c"
    "filter is_part (es1 @ [RegexpRemove x y, NotifyChannel c, MenuRemove MENU_CHANNELS (ch_menuText ch')]) = part_line a s w c"
    using w1(5-7) by auto
  moreover have "(do {
       w \<leftarrow> channelLeave now a c (ch_channel ch) w;
       w \<leftarrow> regexpBotCmdRemove True a c w;
       drop_channel a c w
     }) = Some ?w3" unfolding w1(1) Option.bind.bind_lunit r d(3) ..
  ultimately show ?thesis by blast
qed

lemma kept_trans: "kept s s1 \<Longrightarrow> kept s1 s2 \<Longrightarrow> kept s s2"
  by (cases s; cases s1; cases s2) (simp add: kept_def)

text \<open>The state of the loop: \<open>ds\<close> is what it has kept, \<open>cs\<close> is still to be done.\<close>

definition sighup_post :: "addr \<Rightarrow> IRCServer_t \<Rightarrow> addr list \<Rightarrow> addr list \<Rightarrow> world \<Rightarrow> world \<Rightarrow> bool" where
  "sighup_post a s ds cs w w' \<longleftrightarrow> (\<exists>s' es. wServers w' = (wServers w)(a \<mapsto> s') \<and>
     sv_channels s' = Some (ds @ filter (\<lambda>c. ch_visited (the (wChans w c))) cs) \<and> kept s s' \<and> indexed w' s' \<and>
     wChans w' = (\<lambda>c. if c \<in> set cs then (case wChans w c of None \<Rightarrow> None | Some ch \<Rightarrow> if ch_visited ch then Some (settled ch) else None)
       else wChans w c) \<and>
     same_rest w w' \<and> wOut w' = wOut w @ es \<and> (\<forall>c. NotifyChannel c \<in> set es \<longleftrightarrow> c \<in> set cs \<and> \<not> ch_visited (the (wChans w c))) \<and>
     filter is_part es = concat (map (part_line a s w) (filter (\<lambda>c. \<not> ch_visited (the (wChans w c))) cs)))"

lemma part_line_cong: "wChans w' c = wChans w c \<Longrightarrow> sv_txQueue s' = sv_txQueue s \<Longrightarrow> part_line a s' w' c = part_line a s w c"
  by (simp add: part_line_def)

lemma parts_cong:
  assumes "\<And>c. c \<in> set cs \<Longrightarrow> wChans w' c = wChans w c" "sv_txQueue s' = sv_txQueue s"
  shows "concat (map (part_line a s' w') (filter (\<lambda>c. \<not> ch_visited (the (wChans w' c))) cs)) =
    concat (map (part_line a s w) (filter (\<lambda>c. \<not> ch_visited (the (wChans w c))) cs))"
proof -
  have "filter (\<lambda>c. \<not> ch_visited (the (wChans w' c))) cs = filter (\<lambda>c. \<not> ch_visited (the (wChans w c))) cs"
    using assms(1) by (intro filter_cong) auto
  then show ?thesis
    using assms by (intro arg_cong [where f = concat] map_cong part_line_cong) auto
qed

lemma kept_txQueue: "kept s s' \<Longrightarrow> sv_txQueue s' = sv_txQueue s"
  by (cases s; cases s') (simp add: kept_def)

lemma sighup_post_drop:
  assumes d: "distinct (c # cs)" "c \<notin> set ds" and ch: "wChans w c = Some ch" "\<not> ch_visited ch"
    and w1: "wServers w1 = (wServers w)(a \<mapsto> s1)" "kept s s1" "wChans w1 = (wChans w)(c := None)" "same_rest w w1"
      "wOut w1 = wOut w @ es1" "\<forall>x. NotifyChannel x \<in> set es1 \<longleftrightarrow> x = c" "filter is_part es1 = part_line a s w c"
    and p: "sighup_post a s1 ds cs w1 w'"
  shows "sighup_post a s ds (c # cs) w w'"
proof -
  from p obtain s' es where q: "wServers w' = (wServers w1)(a \<mapsto> s')"
    "sv_channels s' = Some (ds @ filter (\<lambda>c. ch_visited (the (wChans w1 c))) cs)" "kept s1 s'" "indexed w' s'"
    "wChans w' = (\<lambda>c. if c \<in> set cs then (case wChans w1 c of None \<Rightarrow> None | Some ch \<Rightarrow> if ch_visited ch then Some (settled ch) else None)
       else wChans w1 c)"
    "same_rest w1 w'" "wOut w' = wOut w1 @ es" "\<forall>c. NotifyChannel c \<in> set es \<longleftrightarrow> c \<in> set cs \<and> \<not> ch_visited (the (wChans w1 c))"
    "filter is_part es = concat (map (part_line a s1 w1) (filter (\<lambda>c. \<not> ch_visited (the (wChans w1 c))) cs))"
    unfolding sighup_post_def by blast
  have same: "wChans w1 x = wChans w x" if "x \<in> set cs" for x using that d w1(3) by auto
  have parts: "filter is_part (es1 @ es) = concat (map (part_line a s w) (filter (\<lambda>c. \<not> ch_visited (the (wChans w c))) (c # cs)))"
    using q(9) w1(7) ch parts_cong [OF same kept_txQueue [OF w1(2)], of cs a] by simp
  have "filter (\<lambda>c. ch_visited (the (wChans w1 c))) cs = filter (\<lambda>c. ch_visited (the (wChans w c))) (c # cs)"
    using same ch by (auto intro: filter_cong)
  moreover have "wChans w' = (\<lambda>x. if x \<in> set (c # cs) then (case wChans w x of None \<Rightarrow> None | Some ch \<Rightarrow> if ch_visited ch then Some (settled ch) else None)
       else wChans w x)"
    using q(5) w1(3) ch d by (auto simp: fun_eq_iff)
  moreover have "NotifyChannel x \<in> set (es1 @ es) \<longleftrightarrow> x \<in> set (c # cs) \<and> \<not> ch_visited (the (wChans w x))" for x
    using q(8) w1(6) same [of x] ch by auto
  moreover have "same_rest w w'" using w1(4) q(6) by (simp add: same_rest_def)
  ultimately show ?thesis
    unfolding sighup_post_def using q(1-4,7) w1(1,5) kept_trans [OF w1(2) q(3)] parts
    by (intro exI [of _ s'] exI [of _ "es1 @ es"]) simp
qed

lemma sighup_post_keep:
  assumes d: "distinct (c # cs)" and ch: "wChans w c = Some ch" "ch_visited ch"
    and w1: "wServers w1 = wServers w" "wChans w1 = (wChans w)(c \<mapsto> settled ch)" "same_rest w w1"
      "wOut w1 = wOut w @ es1" "\<forall>x. NotifyChannel x \<notin> set es1" "filter is_part es1 = []"
    and p: "sighup_post a s (ds @ [c]) cs w1 w'"
  shows "sighup_post a s ds (c # cs) w w'"
proof -
  from p obtain s' es where q: "wServers w' = (wServers w1)(a \<mapsto> s')"
    "sv_channels s' = Some ((ds @ [c]) @ filter (\<lambda>c. ch_visited (the (wChans w1 c))) cs)" "kept s s'" "indexed w' s'"
    "wChans w' = (\<lambda>c. if c \<in> set cs then (case wChans w1 c of None \<Rightarrow> None | Some ch \<Rightarrow> if ch_visited ch then Some (settled ch) else None)
       else wChans w1 c)"
    "same_rest w1 w'" "wOut w' = wOut w1 @ es" "\<forall>c. NotifyChannel c \<in> set es \<longleftrightarrow> c \<in> set cs \<and> \<not> ch_visited (the (wChans w1 c))"
    "filter is_part es = concat (map (part_line a s w1) (filter (\<lambda>c. \<not> ch_visited (the (wChans w1 c))) cs))"
    unfolding sighup_post_def by blast
  have same: "wChans w1 x = wChans w x" if "x \<in> set cs" for x using that d w1(2) by auto
  have parts: "filter is_part (es1 @ es) = concat (map (part_line a s w) (filter (\<lambda>c. \<not> ch_visited (the (wChans w c))) (c # cs)))"
    using q(9) w1(6) ch parts_cong [OF same refl, of cs a s] by simp
  have "filter (\<lambda>c. ch_visited (the (wChans w1 c))) cs = filter (\<lambda>c. ch_visited (the (wChans w c))) cs"
    using same by (auto intro: filter_cong)
  moreover have "wChans w' = (\<lambda>x. if x \<in> set (c # cs) then (case wChans w x of None \<Rightarrow> None | Some ch \<Rightarrow> if ch_visited ch then Some (settled ch) else None)
       else wChans w x)"
    using q(5) w1(2) ch d by (auto simp: fun_eq_iff)
  moreover have "NotifyChannel x \<in> set (es1 @ es) \<longleftrightarrow> x \<in> set (c # cs) \<and> \<not> ch_visited (the (wChans w x))" for x
    using q(8) w1(5) same [of x] ch by auto
  moreover have "same_rest w w'" using w1(3) q(6) by (simp add: same_rest_def)
  ultimately show ?thesis
    unfolding sighup_post_def using q(1-4,7) w1(1,4) ch parts
    by (intro exI [of _ s'] exI [of _ "es1 @ es"]) simp
qed

lemma settled_fields [simp]:
  "ch_channel (settled ch) = ch_channel ch" "ch_channelId (settled ch) = ch_channelId ch"
  by (simp_all add: settled_def)

lemma sighup_loop_run:
  "wServers w a = Some s \<Longrightarrow> indexed w s \<Longrightarrow> sv_channels s = Some (ds @ cs) \<Longrightarrow>
   \<exists>w'. sighup_loop now a cs nc w = Some w' \<and> sighup_post a s ds cs w w'"
proof (induction cs arbitrary: ds s w nc)
  case Nil
  then show ?case by (simp add: sighup_post_def kept_def same_rest_def fun_upd_idem) (intro exI [of _ s], simp add: fun_upd_idem)
next
  case (Cons c cs)
  from Cons.prems(2,3) have d: "distinct (c # cs)" "c \<notin> set ds" by (auto simp: indexed_def)
  from Cons.prems(2,3) obtain ch where ch: "wChans w c = Some ch" by (auto simp: indexed_def)
  show ?case
  proof (cases "ch_visited ch")
    case False
    from leave_channel_run [OF Cons.prems(1-3) _ ch, of now] obtain w1 s1 es1 where
      l: "(do {
         w \<leftarrow> channelLeave now a c (ch_channel ch) w;
         w \<leftarrow> regexpBotCmdRemove True a c w;
         drop_channel a c w
       }) = Some w1"
      and w1: "wServers w1 = (wServers w)(a \<mapsto> s1)" "sv_channels s1 = Some (filter (\<lambda>x. x \<noteq> c) (ds @ c # cs))" "kept s s1"
        "indexed w1 s1" "wChans w1 = (wChans w)(c := None)" "same_rest w w1" "wOut w1 = wOut w @ es1"
        "\<forall>x. NotifyChannel x \<in> set es1 \<longleftrightarrow> x = c" "filter is_part es1 = part_line a s w c" by auto
    have "sv_channels s1 = Some (ds @ cs)" using w1(2) d by (simp add: filter_neq_id)
    from Cons.IH [OF _ w1(4) this, of nc] w1(1) obtain w' where
      w': "sighup_loop now a cs nc w1 = Some w'" "sighup_post a s1 ds cs w1 w'" by auto
    have "sighup_loop now a (c # cs) nc w = do {
        w \<leftarrow> (do {
         w \<leftarrow> channelLeave now a c (ch_channel ch) w;
         w \<leftarrow> regexpBotCmdRemove True a c w;
         drop_channel a c w
       });
        sighup_loop now a cs nc w }" using ch False by (simp add: Option.bind_assoc)
    then have "sighup_loop now a (c # cs) nc w = Some w'" unfolding l using w'(1) by simp
    with sighup_post_drop [OF d ch False w1(1,3,5-9) w'(2)] show ?thesis by blast
  next
    case True
    have "\<exists>w1 nc' es1. sighup_loop now a (c # cs) nc w = sighup_loop now a cs nc' w1 \<and> wServers w1 = wServers w \<and>
        wChans w1 = (wChans w)(c \<mapsto> settled ch) \<and> same_rest w w1 \<and> wOut w1 = wOut w @ es1 \<and> (\<forall>x. NotifyChannel x \<notin> set es1) \<and> filter is_part es1 = []"
    proof -
      consider "ch_newChannel ch \<and> ch_enabled ch \<and> \<not> ch_joined ch \<and> \<not> nc"
        | "\<not> (ch_newChannel ch \<and> ch_enabled ch \<and> \<not> ch_joined ch \<and> \<not> nc)" "ch_newChannel ch \<and> \<not> ch_enabled ch"
        | "\<not> (ch_newChannel ch \<and> ch_enabled ch \<and> \<not> ch_joined ch \<and> \<not> nc)" "\<not> (ch_newChannel ch \<and> \<not> ch_enabled ch)" by blast
      then show ?thesis
      proof cases
        case 1
        let ?w1 = "if sv_txQueue s then emit (TxMsg a TX_JOIN (Some (ch_channel ch)) None) w else w"
        from 1 ch True Cons.prems(1) show ?thesis
          by (intro exI [of _ ?w1] exI [of _ True] exI [of _ "if sv_txQueue s then [TxMsg a TX_JOIN (Some (ch_channel ch)) None] else []"])
            (simp add: tx_msg_def settled_def same_rest_def fun_upd_idem)
      next
        case 2
        with ch True show ?thesis
          by (intro exI [of _ "w\<lparr>wChans := (wChans w)(c \<mapsto> ch\<lparr>ch_newChannel := False\<rparr>)\<rparr>"] exI [of _ nc] exI [of _ "[]"])
            (simp add: upd_ch_def settled_def same_rest_def)
      next
        case 3
        with ch True have "settled ch = ch" "sighup_loop now a (c # cs) nc w = sighup_loop now a cs nc w"
          by (auto simp: settled_def)
        with ch show ?thesis
          by (intro exI [of _ w] exI [of _ nc] exI [of _ "[]"]) (simp add: same_rest_def fun_upd_idem)
      qed
    qed
    then obtain w1 nc' es1 where w1: "sighup_loop now a (c # cs) nc w = sighup_loop now a cs nc' w1" "wServers w1 = wServers w"
      "wChans w1 = (wChans w)(c \<mapsto> settled ch)" "same_rest w w1" "wOut w1 = wOut w @ es1" "\<forall>x. NotifyChannel x \<notin> set es1"
      "filter is_part es1 = []" by blast
    have "indexed w1 s = indexed w s" using w1(3) ch by (intro indexed_cong) auto
    with Cons.prems w1(2) obtain w' where "sighup_loop now a cs nc' w1 = Some w'" "sighup_post a s (ds @ [c]) cs w1 w'"
      using Cons.IH [of w1 s "ds @ [c]" nc'] by auto
    with sighup_post_keep [OF d(1) ch True w1(2-7)] w1(1) show ?thesis by auto
  qed
qed


lemma forest_same_server:
  assumes f: "forest_at w t" and a: "a \<in> set_tree t" "wServers w a = Some s"
    and w': "wServers w' = (wServers w)(a \<mapsto> s')" "indexed w' s'" "sv_floodList s' = sv_floodList s"
      "set (chan_list s') \<subseteq> set (chan_list s)" "\<And>c. c \<notin> chans_of w a \<Longrightarrow> wChans w' c = wChans w c" "wTree w' = wTree w"
  shows "forest_at w' t"
proof -
  have ca1: "chans_of w' a \<subseteq> chans_of w a" using w'(1,4) a(2) by (simp add: chans_of_list)
  have ca2: "chans_of w' b = chans_of w b" if "b \<noteq> a" for b using w'(1) that by (simp add: chans_of_def)
  have "\<exists>s. wServers w' b = Some s \<and> indexed w' s \<and> sv_floodList s" if b: "b \<in> set_tree t" for b
  proof (cases "b = a")
    case True
    with f a w' show ?thesis by (auto simp: forest_at_def)
  next
    case False
    from b f obtain sb where sb: "wServers w b = Some sb" "indexed w sb" "sv_floodList sb" by (auto simp: forest_at_def)
    have "chans_of w a \<inter> chans_of w b = {}" using f a b False by (auto simp: forest_at_def)
    then have "wChans w' c = wChans w c" if "c \<in> set (chan_list sb)" for c
      using that w'(5) [of c] chans_of_list [OF sb(1)] by auto
    with indexed_other [OF sb(2)] sb w'(1) False show ?thesis by auto
  qed
  moreover have "chans_of w' b \<inter> chans_of w' d = {}" if "b \<in> set_tree t" "d \<in> set_tree t" "b \<noteq> d" for b d
  proof -
    have "chans_of w b \<inter> chans_of w d = {}" using f that by (auto simp: forest_at_def)
    then show ?thesis using that ca1 ca2 [of b] ca2 [of d] by (cases "b = a"; cases "d = a") auto
  qed
  ultimately show ?thesis using f w'(6) by (simp add: forest_at_def)
qed

section \<open>Properties\<close>

text \<open>Claim C16. The flush that ends a reload, from a well-formed tree in which every server has
  its flood list, ends and leaves exactly the servers that are marked as visited, in order and
  well formed, frees the others with their channels, and starts the transmit and bot threads
  of exactly the new enabled servers that are left, once each and in order. The marks are
  given; the rows that set them are read before.\<close>

theorem reload_keeps_visited:
  assumes "forest_at w t"
  shows "\<exists>w' t' es. flush_loop w = Some w' \<and> forest_at w' t' \<and>
     inorder t' = filter (\<lambda>a. sv_visited (the (wServers w a))) (inorder t) \<and>
     (\<forall>a \<in> set_tree t. wServers w' a = (case wServers w a of None \<Rightarrow> None | Some s \<Rightarrow> if sv_visited s then Some (started s) else None)) \<and>
     (\<forall>a \<in> set_tree t. \<not> sv_visited (the (wServers w a)) \<longrightarrow> (\<forall>c \<in> chans_of w a. wChans w' c = None)) \<and>
     wOut w' = wOut w @ es \<and> filter is_start es = starts w (inorder t')"
  using flush_loop_forest [OF assms] unfolding flushed_def by fastforce

lemma reload_keeps_visited_witness:
  "\<exists>w' t' es. flush_loop example_world = Some w' \<and> forest_at w' t' \<and>
     inorder t' = filter (\<lambda>a. sv_visited (the (wServers example_world a))) (inorder (Node Leaf 1 Leaf)) \<and>
     (\<forall>a \<in> set_tree (Node Leaf 1 Leaf). wServers w' a = (case wServers example_world a of None \<Rightarrow> None
        | Some s \<Rightarrow> if sv_visited s then Some (started s) else None)) \<and>
     (\<forall>a \<in> set_tree (Node Leaf 1 Leaf). \<not> sv_visited (the (wServers example_world a)) \<longrightarrow>
        (\<forall>c \<in> chans_of example_world a. wChans w' c = None)) \<and>
     wOut w' = wOut example_world @ es \<and> filter is_start es = starts example_world (inorder t')"
  by (rule reload_keeps_visited [OF example_forest])

text \<open>Claim C17. The SIGHUP handler of a server that has its list of channels, in a well-formed
  tree of servers, keeps exactly the channels marked as visited, in order, with the indexes by
  name and number in step, frees the others and tells their threads, and queues a PART line,
  in order, for each of the channels that go, if the server has a transmit queue.\<close>

theorem sighup_keeps_visited_channels:
  assumes "forest_at w t" "a \<in> set_tree t" "wServers w a = Some s" "sv_channels s = Some cs"
  shows "\<exists>w' s' es. botSighup now (Some a) w = Some w' \<and> forest_at w' t \<and> wServers w' = (wServers w)(a \<mapsto> s') \<and>
    sv_channels s' = Some (filter (\<lambda>c. ch_visited (the (wChans w c))) cs) \<and> wOut w' = wOut w @ es \<and>
    (\<forall>c. NotifyChannel c \<in> set es \<longleftrightarrow> c \<in> set cs \<and> wChans w' c = None) \<and>
    filter is_part es = concat (map (part_line a s w) (filter (\<lambda>c. \<not> ch_visited (the (wChans w c))) cs)) \<and>
    (\<forall>c \<in> set cs. wChans w' c = None \<longleftrightarrow> \<not> ch_visited (the (wChans w c)))"
proof -
  from assms obtain ix: "indexed w s" by (auto simp: forest_at_def)
  from sighup_loop_run [OF assms(3) ix, of "[]" cs now False] assms(4) obtain w' where
    w': "sighup_loop now a cs False w = Some w'" "sighup_post a s [] cs w w'" by auto
  then obtain s' es where p: "wServers w' = (wServers w)(a \<mapsto> s')"
    "sv_channels s' = Some (filter (\<lambda>c. ch_visited (the (wChans w c))) cs)" "kept s s'" "indexed w' s'"
    "wChans w' = (\<lambda>c. if c \<in> set cs then (case wChans w c of None \<Rightarrow> None | Some ch \<Rightarrow> if ch_visited ch then Some (settled ch) else None)
       else wChans w c)" "same_rest w w'" "wOut w' = wOut w @ es"
    "\<forall>c. NotifyChannel c \<in> set es \<longleftrightarrow> c \<in> set cs \<and> \<not> ch_visited (the (wChans w c))"
    "filter is_part es = concat (map (part_line a s w) (filter (\<lambda>c. \<not> ch_visited (the (wChans w c))) cs))"
    unfolding sighup_post_def by auto
  have al: "\<forall>c \<in> set cs. \<exists>ch. wChans w c = Some ch" using ix assms(4) by (auto simp: indexed_def)
  have gone: "wChans w' c = None \<longleftrightarrow> \<not> ch_visited (the (wChans w c))" if "c \<in> set cs" for c
    using that al p(5) by auto
  have "sv_floodList s' = sv_floodList s" using p(3) unfolding kept_def by (metis IRCServer_t.select_convs(17) IRCServer_t.update_convs(1-3) IRCServer_t.surjective)
  then have "forest_at w' t"
    using p assms(4) chans_of_list [OF assms(3)]
    by (intro forest_same_server [OF assms(1-3) p(1,4)]) (auto simp: chan_list_def same_rest_def)
  moreover have "botSighup now (Some a) w = Some w'" using assms(3,4) w'(1) by (simp add: botSighup_def)
  ultimately show ?thesis using p gone by blast
qed

lemma sighup_keeps_visited_channels_witness:
  "\<exists>w' s' es. botSighup 0 (Some 1) example_world = Some w' \<and> forest_at w' (Node Leaf 1 Leaf) \<and>
    wServers w' = (wServers example_world)(1 \<mapsto> s') \<and>
    sv_channels s' = Some (filter (\<lambda>c. ch_visited (the (wChans example_world c))) [2]) \<and> wOut w' = wOut example_world @ es \<and>
    (\<forall>c. NotifyChannel c \<in> set es \<longleftrightarrow> c \<in> set [2] \<and> wChans w' c = None) \<and>
    filter is_part es = concat (map (part_line 1 (the (wServers example_world 1)) example_world)
      (filter (\<lambda>c. \<not> ch_visited (the (wChans example_world c))) [2])) \<and>
    (\<forall>c \<in> set [2]. wChans w' c = None \<longleftrightarrow> \<not> ch_visited (the (wChans example_world c)))"
  by (rule sighup_keeps_visited_channels [OF example_forest, where s = "the (wServers example_world 1)"])
    (simp_all add: example_world_def new_server_def)

end
