(* ===== verification/DbLoad.thy ===== *)
theory DbLoad
  imports Reload "HOL-Library.Signed_Division"
begin

text \<open>
  The result functions of \<open>bot/src/mysql.c\<close> that build the servers and the channels from
  the rows of the database, and \<open>mainSighup\<close> of \<open>main.c\<close>, which composes them with the
  flush of what is gone.

  A row is a list of columns; \<open>None\<close> is an SQL \<open>NULL\<close>, on which \<open>atoi\<close> and
  \<open>strdup\<close> fault. \<open>mem\<close> gives for each row what \<open>malloc\<close> returns for the new
  object (\<open>None\<close>: no memory, the row is skipped); strings and lists are allocated without fail.
\<close>

type_synonym db_row = "string option list"

definition col :: "db_row \<Rightarrow> nat \<Rightarrow> string option" where
  "col row i = (if i < length row then row ! i else None)"

definition col_int :: "db_row \<Rightarrow> nat \<Rightarrow> int option" where
  "col_int row i = map_option atoi (col row i)"

text \<open>
  \<open>(int)(log((double)count)/log(10.0) + 0.99999)\<close> for \<open>0 < count < 2\<^sup>31\<close>: it is more than
  \<open>k\<close> when \<open>count \<ge> 10\<^sup>k * 10\<^bsup>0.00001\<^esup>\<close>, and \<open>10\<^bsup>0.00001\<^esup> = 1.000023026116\<close>.
\<close>

definition menu_digits :: "nat \<Rightarrow> nat" where
  "menu_digits count = length (filter (\<lambda>k. 10 ^ k * 1000023026116 \<le> count * 10 ^ 12) [0..<10])"

text \<open>\<open>%*d\<close>.\<close>

definition fmt_wd :: "nat \<Rightarrow> int \<Rightarrow> string" where
  "fmt_wd width i = replicate (width - length (fmt_d i)) (CHR '' '') @ fmt_d i"

section \<open>Servers\<close>

text \<open>The columns of a server row, with the lower bounds of the flood settings.\<close>

definition server_settings :: "bool \<Rightarrow> db_row \<Rightarrow> IRCServer_t \<Rightarrow> IRCServer_t option" where
  "server_settings found row s = do {
     i \<leftarrow> col_int row 0;
     server \<leftarrow> col row 1;
     port \<leftarrow> col_int row 2;
     password \<leftarrow> col row 3;
     nick \<leftarrow> col row 4;
     username \<leftarrow> col row 5;
     realname \<leftarrow> col row 6;
     nickserv \<leftarrow> col row 7;
     nickservmsg \<leftarrow> col row 8;
     interval \<leftarrow> col_int row 9;
     maxTime \<leftarrow> col_int row 10;
     buf \<leftarrow> col_int row 11;
     maxLine \<leftarrow> col_int row 12;
     enabled \<leftarrow> col_int row 13;
     Some (s\<lparr>sv_serverId := i, sv_server := server, sv_port := port mod 65536, sv_password := password,
       sv_nick := nick, sv_username := username, sv_realname := realname, sv_nickserv := nickserv,
       sv_nickservmsg := nickservmsg, sv_floodInterval := (if interval \<le> 0 then 1 else interval),
       sv_floodMaxTime := (if maxTime < 4 then 4 else maxTime), sv_floodBuffer := buf, sv_floodMaxLine := maxLine,
       sv_enabled := (enabled \<noteq> 0), sv_visited := True,
       sv_newServer := (\<not> found \<or> sv_enabledChanged s \<and> enabled \<noteq> 0)\<rparr>)
   }"

definition server_label :: "IRCServer_t \<Rightarrow> string" where
  "server_label s = sv_nick s @ ''@'' @ sv_server s @ '':'' @ fmt_d (sv_port s)"

text \<open>The names of the two threads; a changed one means that the server was renamed.\<close>

definition server_names :: "bool \<Rightarrow> IRCServer_t \<Rightarrow> IRCServer_t \<times> bool" where
  "server_names found s =
     (let name = ''thread_'' @ server_label s;
        (s, killServer) =
          (if found \<and> sv_threadName s \<noteq> None
           then if sv_threadName s \<noteq> Some name then (s\<lparr>sv_threadName := Some name, sv_newServer := True\<rparr>, True) else (s, False)
           else (s\<lparr>sv_threadName := Some name\<rparr>, False));
        txName = ''tx_thread_'' @ server_label s
      in
        if found \<and> sv_txThreadName s \<noteq> None
        then if sv_txThreadName s \<noteq> Some txName then (s\<lparr>sv_txThreadName := Some txName, sv_newServer := True\<rparr>, True)
          else (s, killServer)
        else (s\<lparr>sv_txThreadName := Some txName\<rparr>, killServer))"

text \<open>The menu text is written into \<open>strlen(server) + strlen(nick) + 18\<close> bytes; \<open>None\<close>: it does not fit.\<close>

definition server_menu_text :: "nat \<Rightarrow> IRCServer_t \<Rightarrow> string option" where
  "server_menu_text digits s =
     (let m = fmt_wd digits (sv_serverId s) @ '' - '' @ server_label s in
      if length m < length (sv_server s) + length (sv_nick s) + 18 then Some m else None)"

definition server_menu :: "nat \<Rightarrow> bool \<Rightarrow> addr \<Rightarrow> world \<Rightarrow> world option" where
  "server_menu digits found a w = do {
     s \<leftarrow> wServers w a;
     m \<leftarrow> server_menu_text digits s;
     w \<leftarrow> (case (found, sv_menuText s) of
             (True, Some old) \<Rightarrow>
               if m \<noteq> old then upd_sv a (\<lambda>s. s\<lparr>sv_menuText := Some m\<rparr>)
                 (emit (MenuAdd MENU_SERVERS m a) (emit (MenuRemove MENU_SERVERS (Some old)) w))
               else Some w
           | _ \<Rightarrow> upd_sv a (\<lambda>s. s\<lparr>sv_menuText := Some m\<rparr>) (emit (MenuAdd MENU_SERVERS m a) w));
     if sv_justAdded s then upd_sv a (\<lambda>s. s\<lparr>sv_justAdded := False\<rparr>) (emit (MenuSelect MENU_SERVERS m) w) else Some w
   }"

text \<open>
  A server that was disabled is killed but kept; one that was renamed is killed and
  freed, and the rest of the routine works on freed memory.
\<close>

definition server_tail :: "bool \<Rightarrow> bool \<Rightarrow> bool \<Rightarrow> addr \<Rightarrow> world \<Rightarrow> world option" where
  "server_tail found oldEnabled killServer a w = do {
     s \<leftarrow> wServers w a;
     w \<leftarrow> (if (found \<and> (oldEnabled \<or> sv_enabledChanged s) \<and> \<not> sv_enabled s) \<or> killServer
          then serverKill a killServer w else Some w);
     w \<leftarrow> upd_sv a (\<lambda>s. s\<lparr>sv_floodList := True, sv_oldEnabled := sv_enabled s, sv_enabledChanged := False,
            sv_modified := False\<rparr>) w;
     Some (if found then w
           else w\<lparr>wTree := map_option (bt_insert (cmp_of KeyCompareInt) (server_key w) a) (wTree w)\<rparr>)
   }"

definition load_server :: "nat \<Rightarrow> bool \<Rightarrow> bool \<Rightarrow> addr \<Rightarrow> db_row \<Rightarrow> world \<Rightarrow> world option" where
  "load_server digits found oldEnabled a row w = do {
     s \<leftarrow> wServers w a;
     s \<leftarrow> server_settings found row s;
     let (s, killServer) = server_names found s in do {
     w \<leftarrow> upd_sv a (\<lambda>_. s) w;
     w \<leftarrow> server_menu digits found a w;
     server_tail found oldEnabled killServer a w }
   }"

definition load_server_row :: "nat \<Rightarrow> ptr \<Rightarrow> db_row \<Rightarrow> world \<Rightarrow> world option" where
  "load_server_row digits mem row w = do {
     i \<leftarrow> col_int row 0;
     it \<leftarrow> find_server w i;
     case it of
       Some a \<Rightarrow> do { s \<leftarrow> wServers w a; load_server digits True (sv_enabled s) a row w }
     | None \<Rightarrow>
         (case mem of
            None \<Rightarrow> Some w
          | Some a \<Rightarrow> load_server digits False False a row (w\<lparr>wServers := (wServers w)(a \<mapsto> new_server)\<rparr>))
   }"

definition result_load_servers :: "(ptr \<times> db_row) list \<Rightarrow> world \<Rightarrow> world option" where
  "result_load_servers rows w =
     (if rows = [] then Some w
      else do {
        w \<leftarrow> foldM (\<lambda>(mem, row). load_server_row (menu_digits (length rows)) mem row) rows w;
        Some (w\<lparr>wTree := map_option bt_rebalance (wTree w)\<rparr>)
      })"

section \<open>Channels\<close>

fun find_channel_id :: "int \<Rightarrow> addr list \<Rightarrow> world \<Rightarrow> ptr option" where
  "find_channel_id i [] w = Some None"
| "find_channel_id i (c # cs) w = do { ch \<leftarrow> wChans w c; if ch_channelId ch = i then Some (Some c) else find_channel_id i cs w }"

definition channel_settings :: "addr \<Rightarrow> bool \<Rightarrow> db_row \<Rightarrow> IRCChannel_t \<Rightarrow> IRCChannel_t option" where
  "channel_settings server found row ch = do {
     i \<leftarrow> col_int row 0;
     channel \<leftarrow> col row 1;
     url \<leftarrow> col row 2;
     window \<leftarrow> col_int row 3;
     cmd \<leftarrow> col row 4;
     enabled \<leftarrow> col_int row 5;
     Some (ch\<lparr>ch_channelId := i, ch_channel := channel, ch_url := url, ch_notifywindow := window,
       ch_cmdChar := (case cmd of [] \<Rightarrow> CHR 0x00 | c # _ \<Rightarrow> c), ch_enabled := (enabled \<noteq> 0), ch_server := Some server,
       ch_joined := (found \<and> ch_joined ch), ch_visited := True,
       ch_newChannel := (\<not> found \<or> (\<not> ch_enabled ch \<or> ch_enabledChanged ch) \<and> enabled \<noteq> 0), ch_modified := False\<rparr>)
   }"

definition channel_spec :: "IRCServer_t \<Rightarrow> IRCChannel_t \<Rightarrow> string" where
  "channel_spec s ch = server_label s @ ''/'' @ ch_channel ch"

text \<open>A channel that was renamed or disabled is left, and joined again later.\<close>

definition channel_moved :: "int \<Rightarrow> addr \<Rightarrow> addr \<Rightarrow> bool \<Rightarrow> string \<Rightarrow> bool \<Rightarrow> world \<Rightarrow> world option" where
  "channel_moved now server c found oldChannel oldEnabled w = do {
     s \<leftarrow> wServers w server;
     ch \<leftarrow> wChans w c;
     let spec = channel_spec s ch in
     if found then
       if spec \<noteq> ch_fullspec ch \<or> (oldEnabled \<or> ch_enabledChanged ch) \<and> \<not> ch_enabled ch then do {
         w \<leftarrow> upd_ch c (\<lambda>ch. ch\<lparr>ch_fullspec := spec\<rparr>) w;
         w \<leftarrow> channelLeave now server c oldChannel w;
         w \<leftarrow> upd_ch c (\<lambda>ch. ch\<lparr>ch_newChannel := True\<rparr>) w;
         if ch_enabled ch then regexpBotCmdAdd True server c w else Some w
       } else Some w
     else upd_ch c (\<lambda>ch. ch\<lparr>ch_fullspec := spec\<rparr>) w
   }"

definition channel_menu :: "nat \<Rightarrow> bool \<Rightarrow> addr \<Rightarrow> addr \<Rightarrow> world \<Rightarrow> world option" where
  "channel_menu digits found server c w = do {
     s \<leftarrow> wServers w server;
     ch \<leftarrow> wChans w c;
     let m = fmt_wd digits (ch_channelId ch) @ '' - ('' @ fmt_d (sv_serverId s) @ '') '' @ ch_channel ch in do {
     w \<leftarrow> (case (found, ch_menuText ch) of
             (True, Some old) \<Rightarrow>
               if m \<noteq> old then upd_ch c (\<lambda>ch. ch\<lparr>ch_menuText := Some m\<rparr>)
                 (emit (MenuAdd MENU_CHANNELS m c) (emit (MenuRemove MENU_CHANNELS (Some old)) w))
               else Some w
           | _ \<Rightarrow> upd_ch c (\<lambda>ch. ch\<lparr>ch_menuText := Some m\<rparr>) (emit (MenuAdd MENU_CHANNELS m c) w));
     Some (if ch_justAdded ch then emit (MenuSelect MENU_CHANNELS m) w else w) }
   }"

text \<open>Taking an entry out of a tree it is not on only logs.\<close>

definition unindex :: "addr \<Rightarrow> addr tree \<Rightarrow> addr tree" where
  "unindex c t = (if c \<in> set_tree t then bt_remove c t else t)"

definition channel_index :: "bool \<Rightarrow> string \<Rightarrow> addr \<Rightarrow> addr \<Rightarrow> world \<Rightarrow> world option" where
  "channel_index found oldChannel server c w = do {
     ch \<leftarrow> wChans w c;
     let addName = bt_insert (cmp_of KeyCompareString) (name_key w) c; addNum = bt_insert (cmp_of KeyCompareInt) (num_key w) c in do {
     w \<leftarrow> (if found \<and> oldChannel \<noteq> ch_channel ch \<and> \<not> ch_justAdded ch
          then upd_sv server (\<lambda>s. s\<lparr>sv_channelName := map_option (addName \<circ> unindex c) (sv_channelName s)\<rparr>) w
          else Some w);
     w \<leftarrow> upd_ch c (\<lambda>ch. ch\<lparr>ch_enabledChanged := False, ch_oldServer := ch_server ch, ch_oldEnabled := ch_enabled ch\<rparr>) w;
     w \<leftarrow> (if \<not> found \<or> ch_justAdded ch then do {
            w \<leftarrow> upd_sv server (\<lambda>s. s\<lparr>sv_channelName := map_option addName (sv_channelName s),
                   sv_channelNum := map_option addNum (sv_channelNum s),
                   sv_channels := (if ch_justAdded ch then sv_channels s else map_option (\<lambda>cs. cs @ [c]) (sv_channels s))\<rparr>) w;
            s \<leftarrow> wServers w server;
            if sv_enabled s then regexpBotCmdAdd True server c w else Some w
          } else Some w);
     upd_ch c (\<lambda>ch. ch\<lparr>ch_justAdded := False\<rparr>) w }
   }"

definition load_channel :: "int \<Rightarrow> nat \<Rightarrow> addr \<Rightarrow> bool \<Rightarrow> addr \<Rightarrow> db_row \<Rightarrow> world \<Rightarrow> world option" where
  "load_channel now digits server found c row w = do {
     old \<leftarrow> wChans w c;
     ch \<leftarrow> channel_settings server found row old;
     w \<leftarrow> upd_ch c (\<lambda>_. ch) w;
     w \<leftarrow> channel_moved now server c found (ch_channel old) (found \<and> ch_enabled old) w;
     w \<leftarrow> channel_menu digits found server c w;
     channel_index found (ch_channel old) server c w
   }"

definition load_channel_row :: "int \<Rightarrow> nat \<Rightarrow> addr \<Rightarrow> ptr \<Rightarrow> db_row \<Rightarrow> world \<Rightarrow> world option" where
  "load_channel_row now digits server mem row w = do {
     s \<leftarrow> wServers w server;
     i \<leftarrow> col_int row 0;
     cs \<leftarrow> sv_channels s;
     it \<leftarrow> find_channel_id i cs w;
     case it of
       Some c \<Rightarrow> load_channel now digits server True c row w
     | None \<Rightarrow>
         (case mem of
            None \<Rightarrow> Some w
          | Some c \<Rightarrow> load_channel now digits server False c row (w\<lparr>wChans := (wChans w)(c \<mapsto> new_channel)\<rparr>))
   }"

definition result_load_channels :: "int \<Rightarrow> addr \<Rightarrow> (ptr \<times> db_row) list \<Rightarrow> world \<Rightarrow> world option" where
  "result_load_channels now server rows w =
     (if rows = [] then Some w
      else do {
        w \<leftarrow> upd_sv server (\<lambda>s. if sv_channels s = None
                then s\<lparr>sv_channels := Some [], sv_channelName := Some Leaf, sv_channelNum := Some Leaf\<rparr> else s) w;
        w \<leftarrow> foldM (\<lambda>(mem, row). load_channel_row now (menu_digits (length rows)) server mem row) rows w;
        upd_sv server (\<lambda>s. s\<lparr>sv_channelName := map_option bt_rebalance (sv_channelName s),
          sv_channelNum := map_option bt_rebalance (sv_channelNum s)\<rparr>) w
      })"

section \<open>Loading all, and SIGHUP\<close>

definition db_load_servers :: "(ptr \<times> db_row) list \<Rightarrow> world \<Rightarrow> world option" where
  "db_load_servers rows w = result_load_servers rows (emit_db [Queue load_servers_query] w)"

text \<open>\<open>rows\<close>: what the database has for a server id.\<close>

fun serverTreeLoadChannels :: "int \<Rightarrow> (int \<Rightarrow> (ptr \<times> db_row) list) \<Rightarrow> addr tree \<Rightarrow> world \<Rightarrow> world option" where
  "serverTreeLoadChannels now rows Leaf w = Some w"
| "serverTreeLoadChannels now rows (Node l a r) w = do {
     w \<leftarrow> serverTreeLoadChannels now rows l w;
     s \<leftarrow> wServers w a;
     w \<leftarrow> result_load_channels now a (rows (sv_serverId s))
       (emit_db [Queue (load_channels_query (sv_serverId s))] w);
     serverTreeLoadChannels now rows r w
   }"

definition db_load_channels :: "int \<Rightarrow> (int \<Rightarrow> (ptr \<times> db_row) list) \<Rightarrow> world \<Rightarrow> world option" where
  "db_load_channels now rows w = do { t \<leftarrow> wTree w; serverTreeLoadChannels now rows t w }"

text \<open>The reload holds the lock of the server tree from \<open>serverUnvisit\<close> to the end.\<close>

definition mainSighup :: "int \<Rightarrow> (ptr \<times> db_row) list \<Rightarrow> (int \<Rightarrow> (ptr \<times> db_row) list) \<Rightarrow> world \<Rightarrow> world option" where
  "mainSighup now servers channels w = do {
     let w = emit PluginsSighup w in do {
     t \<leftarrow> wTree w;
     w \<leftarrow> serverUnvisit t w;
     w \<leftarrow> db_load_servers servers w;
     w \<leftarrow> db_load_channels now channels w;
     w \<leftarrow> flush_loop w;
     Some (w\<lparr>wTree := map_option bt_rebalance (wTree w)\<rparr>) }
   }"

definition bot_start :: "int \<Rightarrow> (ptr \<times> db_row) list \<Rightarrow> (int \<Rightarrow> (ptr \<times> db_row) list) \<Rightarrow> world \<Rightarrow> world option" where
  "bot_start now servers channels w = do {
     w \<leftarrow> db_load_servers servers (w\<lparr>wTree := Some Leaf\<rparr>);
     w \<leftarrow> db_load_channels now channels w;
     let w = w\<lparr>wLoaded := True\<rparr> in do {
     t \<leftarrow> wTree w;
     serverStartTree t w }
   }"

section \<open>New servers and channels from the user interface\<close>

definition result_insert_channel :: "addr \<Rightarrow> int \<Rightarrow> world \<Rightarrow> world option" where
  "result_insert_channel c insertid w =
     upd_ch c (\<lambda>ch. if ch_channelId ch = -1 then ch\<lparr>ch_channelId := signed_take_bit 31 insertid\<rparr> else ch) w"

text \<open>The server with the id \<open>-1\<close> is found by its id, taken out, renumbered and put back.\<close>

definition result_insert_server :: "addr \<Rightarrow> int \<Rightarrow> world \<Rightarrow> world option" where
  "result_insert_server a insertid w = do {
     s \<leftarrow> wServers w a;
     if sv_serverId s = -1 then do {
       it \<leftarrow> find_server w (sv_serverId s);
       case it of
         None \<Rightarrow> Some w
       | Some x \<Rightarrow> do {
           let w = w\<lparr>wTree := map_option (bt_remove x) (wTree w)\<rparr> in do {
           w \<leftarrow> upd_sv a (\<lambda>s. s\<lparr>sv_serverId := signed_take_bit 31 insertid, sv_justAdded := True\<rparr>) w;
           Some (w\<lparr>wTree := map_option (\<lambda>t. bt_rebalance (bt_insert (cmp_of KeyCompareInt) (server_key w) x t)) (wTree w)\<rparr>) }
         }
     } else Some w
   }"

definition cursesServerNew :: "addr \<Rightarrow> world \<Rightarrow> world option" where
  "cursesServerNew a w = do {
     let w = w\<lparr>wServers := (wServers w)(a \<mapsto> new_server\<lparr>sv_serverId := -1\<rparr>)\<rparr>;
       w = w\<lparr>wTree := map_option (\<lambda>t. bt_rebalance (bt_insert (cmp_of KeyCompareInt) (server_key w) a t)) (wTree w)\<rparr> in
     upd_sv a (\<lambda>s. s\<lparr>sv_oldEnabled := sv_enabled s\<rparr>) w
   }"

definition cursesServerCleanup :: "world \<Rightarrow> world option" where
  "cursesServerCleanup w = do {
     it \<leftarrow> find_server w (-1);
     case it of
       None \<Rightarrow> Some w
     | Some a \<Rightarrow> do {
         _ \<leftarrow> wServers w a;
         Some (w\<lparr>wTree := map_option (\<lambda>t. bt_rebalance (bt_remove a t)) (wTree w), wServers := (wServers w)(a := None)\<rparr>)
       }
   }"

section \<open>Saving an edited server or channel\<close>

definition server_row :: "IRCServer_t \<Rightarrow> ServerRow" where
  "server_row s = \<lparr>sr_server = sv_server s, sr_port = sv_port s,
     sr_strings = [sv_password s, sv_nick s, sv_username s, sv_realname s, sv_nickserv s, sv_nickservmsg s],
     sr_flood = [sv_floodInterval s, sv_floodMaxTime s, sv_floodBuffer s, sv_floodMaxLine s],
     sr_enabled = sv_enabled s, sr_id = sv_serverId s\<rparr>"

definition channel_row :: "int \<Rightarrow> IRCChannel_t \<Rightarrow> ChannelRow" where
  "channel_row serverId ch = \<lparr>cr_server = serverId, cr_channel = ch_channel ch, cr_url = ch_url ch,
     cr_notifywindow = ch_notifywindow ch, cr_cmdChar = ch_cmdChar ch, cr_enabled = ch_enabled ch, cr_id = ch_channelId ch\<rparr>"

text \<open>\<open>insertid\<close>: the id that the database gives a new row.\<close>

definition db_save_server :: "int \<Rightarrow> addr \<Rightarrow> world \<Rightarrow> world option" where
  "db_save_server insertid a w = do {
     s \<leftarrow> wServers w a;
     let w = emit_db [Queue (db_update_server (server_row s))] w in
     if sv_serverId s = -1 then do { w \<leftarrow> result_insert_server a insertid w; Some (emit FormClose w) }
     else Some w
   }"

definition db_save_channel :: "bool \<Rightarrow> int \<Rightarrow> addr \<Rightarrow> world \<Rightarrow> world option" where
  "db_save_channel isNew insertid c w = do {
     ch \<leftarrow> wChans w c;
     i \<leftarrow> (case ch_server ch of None \<Rightarrow> Some 0 | Some a \<Rightarrow> map_option sv_serverId (wServers w a));
     let w = emit_db [Queue (db_update_channel isNew (channel_row i ch))] w in
     if isNew then do {
       w \<leftarrow> result_insert_channel c insertid w;
       w \<leftarrow> (case ch_server ch of
               None \<Rightarrow> Some w
             | Some a \<Rightarrow> do {
                 w \<leftarrow> upd_sv a (\<lambda>s. s\<lparr>sv_channels := map_option (\<lambda>cs. cs @ [c]) (sv_channels s)\<rparr>) w;
                 upd_ch c (\<lambda>ch. ch\<lparr>ch_justAdded := True\<rparr>) w
               });
       Some (emit FormClose w)
     } else Some w
   }"

text \<open>The save buttons (\<open>index == -1\<close>): the row is written, then everything is reloaded.\<close>

definition serverSaveFunc ::
    "int \<Rightarrow> (ptr \<times> db_row) list \<Rightarrow> (int \<Rightarrow> (ptr \<times> db_row) list) \<Rightarrow> int \<Rightarrow> addr \<Rightarrow> world \<Rightarrow> world option" where
  "serverSaveFunc now servers channels insertid a w = do {
     w \<leftarrow> upd_sv a (\<lambda>s. if sv_enabled s \<noteq> sv_oldEnabled s then s\<lparr>sv_enabledChanged := True\<rparr> else s) w;
     w \<leftarrow> db_save_server insertid a w;
     w \<leftarrow> mainSighup now servers channels w;
     botSighup now (Some a) w
   }"

definition channelSaveFunc ::
    "int \<Rightarrow> (ptr \<times> db_row) list \<Rightarrow> (int \<Rightarrow> (ptr \<times> db_row) list) \<Rightarrow> bool \<Rightarrow> int \<Rightarrow> addr \<Rightarrow> world \<Rightarrow> world option" where
  "channelSaveFunc now servers channels isNew insertid c w = do {
     w \<leftarrow> upd_ch c (\<lambda>ch. if ch_enabled ch \<noteq> ch_oldEnabled ch then ch\<lparr>ch_enabledChanged := True\<rparr> else ch) w;
     w \<leftarrow> db_save_channel isNew insertid c w;
     w \<leftarrow> mainSighup now servers channels w;
     ch \<leftarrow> wChans w c;
     w \<leftarrow> (if ch_server ch \<noteq> ch_oldServer ch then do {
             w \<leftarrow> botSighup now (ch_oldServer ch) w;
             Some (emit FormClose w)
           } else Some w);
     ch \<leftarrow> wChans w c;
     botSighup now (ch_server ch) w
   }"

section \<open>A server that is renamed, a server that is disabled\<close>

lemma serverKill_unalloc_frees: "serverKill a True w = Some w' \<Longrightarrow> wServers w' a = None"
  by (auto simp: serverKill_def Let_def bind_eq_Some_conv split: if_splits)

lemma server_tail_renamed: "server_tail found oldEnabled True a w = None"
proof (cases "serverKill a True w")
  case (Some w')
  from serverKill_unalloc_frees [OF this] Some show ?thesis by (cases "wServers w a") (simp_all add: server_tail_def upd_sv_def)
qed (cases "wServers w a"; simp add: server_tail_def)

lemma server_names_renamed:
  assumes "sv_threadName s = Some old" "old \<noteq> ''thread_'' @ server_label s"
  shows "snd (server_names True s)"
  using assms by (auto simp: server_names_def Let_def split: prod.splits)

text \<open>Loading a row that changes the name, nick or port of a known server works on
  freed memory: the server is killed and freed, and the routine goes on writing to it.\<close>

theorem renamed_server_faults:
  assumes "wServers w a = Some s" "server_settings True row s = Some s'"
    and "sv_threadName s = Some old" "old \<noteq> ''thread_'' @ server_label s'"
  shows "load_server digits True oldEnabled a row w = None"
proof -
  have "sv_threadName s' = sv_threadName s"
    using assms(2) by (auto simp: server_settings_def bind_eq_Some_conv)
  with assms(3,4) have "snd (server_names True s')" by (intro server_names_renamed) simp_all
  then obtain s2 where s2: "server_names True s' = (s2, True)" by (metis prod.collapse)
  let ?w = "w\<lparr>wServers := (wServers w)(a \<mapsto> s2)\<rparr>"
  show ?thesis
    using assms(1,2) s2 by (cases "server_menu digits True a ?w") (simp_all add: load_server_def upd_sv_def server_tail_renamed)
qed

definition example_row :: "string \<Rightarrow> string \<Rightarrow> db_row" where
  "example_row server enabled =
     [Some ''1'', Some server, Some ''6667'', Some [], Some ''bot'', Some ''u'', Some ''r'', Some [], Some [],
      Some ''1'', Some ''4'', Some ''1000'', Some ''400'', Some enabled]"

lemma example_atoi [simp]:
  "atoi ''1'' = 1" "atoi ''0'' = 0" "atoi ''4'' = 4" "atoi ''400'' = 400" "atoi ''1000'' = 1000" "atoi ''6667'' = 6667"
  by code_simp+

lemma renamed_server_faults_witness:
  "load_server 1 True True 1 (example_row ''new'' ''1'')
     (no_world\<lparr>wServers := [1 \<mapsto> new_server\<lparr>sv_threadName := Some ''thread_bot@irc:6667''\<rparr>]\<rparr>) = None"
proof (rule renamed_server_faults)
  show "server_settings True (example_row ''new'' ''1'') (new_server\<lparr>sv_threadName := Some ''thread_bot@irc:6667''\<rparr>) =
    Some (the (server_settings True (example_row ''new'' ''1'') (new_server\<lparr>sv_threadName := Some ''thread_bot@irc:6667''\<rparr>)))"
    by (simp add: server_settings_def example_row_def col_def col_int_def)
  show "''thread_bot@irc:6667'' \<noteq> ''thread_'' @ server_label
    (the (server_settings True (example_row ''new'' ''1'') (new_server\<lparr>sv_threadName := Some ''thread_bot@irc:6667''\<rparr>)))"
    by (simp add: server_settings_def example_row_def col_def col_int_def server_label_def)
qed simp_all

lemma example_digits: "fmt_d 6667 = ''6667''" "fmt_d 1 = ''1''"
  by (simp_all add: fmt_d_def nat_digits.simps) (code_simp)+

text \<open>A running server whose row says it is disabled loses its queue while its two
  threads are not told to stop: the enabled flag is already cleared when the server is killed.\<close>

theorem disabled_in_database:
  "\<exists>w'. load_server_row 1 None (example_row ''irc'' ''0'')
      (no_world\<lparr>wServers := [1 \<mapsto> new_server\<lparr>sv_serverId := 1, sv_enabled := True, sv_txQueue := True, sv_floodList := True,
         sv_threadName := Some ''thread_bot@irc:6667'', sv_txThreadName := Some ''tx_thread_bot@irc:6667'',
         sv_menuText := Some ''1 - bot@irc:6667''\<rparr>], wTree := Some (Node Leaf 1 Leaf)\<rparr>) = Some w' \<and>
    map_option sv_txQueue (wServers w' 1) = Some False \<and> wOut w' = [NotifyServer 1]"
  by (simp add: load_server_row_def load_server_def server_settings_def example_row_def col_def col_int_def server_names_def
    server_label_def example_digits server_menu_def server_menu_text_def fmt_wd_def server_tail_def serverKill_def
    stop_threads_def kill_lists_def upd_sv_def new_server_def no_world_def find_server_def alive_def server_key_def Let_def
    emit_def cmp_of_def id_key_def)

end
