(* ===== verification/DbThread.thy ===== *)
theory DbThread
  imports DbLoad
begin

text \<open>
  \<open>bot/src/mysql.c\<close>: one query in the MySQL thread (pinging, reconnecting, running,
  handing the result on), and the result functions that answer a caller: \<open>seen\<close>,
  settings, authentication data, plugin names, and the rebuild of the search index.
\<close>

section \<open>Running a query\<close>

definition CR_SERVER_GONE_ERROR :: int where "CR_SERVER_GONE_ERROR = 2006"
definition CR_SERVER_LOST :: int where "CR_SERVER_LOST = 2013"
definition MYSQL_PING_THRESHOLD :: int where "MYSQL_PING_THRESHOLD = 60 * 60"

text \<open>
  What the server answers: an error number, or a result set (\<open>None\<close> for a statement
  without one) and the last insert id.
\<close>

datatype db_answer = DbError int | DbAnswer "db_row list option" int

text \<open>
  \<open>db_query\<close>: result, connection flag and insert id, which an error leaves as it was. A
  text that overran its buffer has overwritten the heap: \<open>None\<close>.
\<close>

definition db_query :: "string \<Rightarrow> MYSQL_BIND list option \<Rightarrow> db_answer \<Rightarrow> int \<Rightarrow> (db_row list option \<times> bool \<times> int) option" where
  "db_query query args answer insertid = do {
     r \<leftarrow> db_query_text query args;
     case r of
       SqlOverrun \<Rightarrow> None
     | SqlOverflow _ \<Rightarrow> Some (None, True, insertid)
     | SqlText t \<Rightarrow>
         (case answer of
             DbError e \<Rightarrow> Some (None, \<not> (e = CR_SERVER_GONE_ERROR \<or> e = CR_SERVER_LOST), insertid)
           | DbAnswer rows i \<Rightarrow> Some (rows, True, i))
   }"

record MySQLState =
  lastAccess :: int
  insertId :: int

text \<open>
  One turn of the inner loop: the time, the outcomes of pinging or reconnecting as long
  as it is tried, and what the server answers to the query.
\<close>

record DbAttempt =
  at_now :: int
  at_pings :: "bool list"
  at_answer :: db_answer

text \<open>Waiting for the connection: \<open>None\<close> when the program ended first; the seconds slept otherwise.\<close>

fun mysql_reconnect :: "bool list \<Rightarrow> int option" where
  "mysql_reconnect [] = None"
| "mysql_reconnect (ok # ps) = (if ok then Some 0 else map_option (\<lambda>s. 60 + s) (mysql_reconnect ps))"

datatype db_outcome = Stopped | Answered "db_row list option" int

fun mysql_attempts ::
    "string \<Rightarrow> MYSQL_BIND list option \<Rightarrow> bool \<Rightarrow> DbAttempt list \<Rightarrow> MySQLState \<Rightarrow> (db_outcome \<times> MySQLState) option" where
  "mysql_attempts query args connected [] st = Some (Stopped, st)"
| "mysql_attempts query args connected (a # as) st =
     (let timeout = at_now a - lastAccess st;
        st = st\<lparr>lastAccess := at_now a\<rparr>;
        connected = (connected \<and> timeout < MYSQL_PING_THRESHOLD)
      in
        if \<not> connected \<and> mysql_reconnect (at_pings a) = None then Some (Stopped, st)
        else do {
          (res, connected, i) \<leftarrow> db_query query args (at_answer a) (insertId st);
          let st = st\<lparr>insertId := i\<rparr> in
          if connected then Some (Answered res i, st) else mysql_attempts query args connected as st
        })"

text \<open>
  Who gets the answer: the callback, else the chain function of the query, and only when
  there is a result set or an insert id. The waiting caller is released in any case.
\<close>

datatype db_delivery = ToCallback "db_row list option" int | ToChain QueryChain "db_row list option" | ToNobody

definition db_deliver :: "bool \<Rightarrow> QueryChain option \<Rightarrow> db_row list option \<Rightarrow> int \<Rightarrow> db_delivery" where
  "db_deliver callback chain res insertid =
     (if res \<noteq> None \<or> insertid \<noteq> 0
      then if callback then ToCallback res insertid
        else (case chain of Some c \<Rightarrow> ToChain c res | None \<Rightarrow> ToNobody)
      else ToNobody)"

definition mysql_item ::
    "bool \<Rightarrow> QueryItem_t \<Rightarrow> DbAttempt list \<Rightarrow> MySQLState \<Rightarrow> (db_delivery option \<times> MySQLState) option" where
  "mysql_item callback item attempts st =
     (if queryId item < length QueryTable then do {
        let (pattern, chain) = QueryTable ! queryId item in do {
        (out, st) \<leftarrow> mysql_attempts pattern (queryData item) True attempts st;
        case out of
          Stopped \<Rightarrow> Some (None, st)
        | Answered res i \<Rightarrow> Some (Some (db_deliver callback chain res i), st) }
      } else None)"

section \<open>Simple results\<close>

text \<open>A result of no rows counts as none.\<close>

definition rows_of :: "db_row list option \<Rightarrow> db_row list" where
  "rows_of res = (case res of None \<Rightarrow> [] | Some rows \<Rightarrow> rows)"

definition result_check_nick_notify :: "db_row list option \<Rightarrow> bool" where
  "result_check_nick_notify res = (rows_of res \<noteq> [])"

definition result_check_plugins :: "db_row list option \<Rightarrow> bool" where
  "result_check_plugins res = (rows_of res \<noteq> [])"

definition result_get_setting :: "db_row list option \<Rightarrow> string option option" where
  "result_get_setting res = (case rows_of res of [] \<Rightarrow> Some None | row # _ \<Rightarrow> map_option Some (col row 0))"

text \<open>The stored authentication of a nick: name and \<open>AuthRow\<close>. \<open>mem\<close>: whether \<open>malloc\<close> succeeds.\<close>

definition result_get_auth :: "bool \<Rightarrow> db_row list option \<Rightarrow> (string \<times> AuthRow) option option" where
  "result_get_auth mem res =
     (case rows_of res of
        [] \<Rightarrow> Some None
      | row # _ \<Rightarrow>
          if \<not> mem then Some None
          else do {
            nick \<leftarrow> col row 0;
            digest \<leftarrow> col row 1;
            seed \<leftarrow> col row 2;
            hash \<leftarrow> col row 3;
            count \<leftarrow> col_int row 4;
            Some (Some (nick, \<lparr>ar_digest = digest, ar_seed = seed, ar_hash = hash, ar_count = count\<rparr>))
          })"

section \<open>When a nick was last seen\<close>

definition db_get_seen :: "(int \<times> addr) option \<Rightarrow> string option \<Rightarrow> db_action list" where
  "db_get_seen channel nick =
     (case (channel, nick) of
        (Some (i, c), Some n) \<Rightarrow> [Queue (12, Some [bind_numeric i MYSQL_TYPE_LONG, bind_string (Some n) MYSQL_TYPE_VAR_STRING,
          bind_null_blob (Some (BObj c)), bind_null_blob (Some (BInt 0))], True)]
      | _ \<Rightarrow> [])"

text \<open>Seconds, minutes, hours and days, with the division of C.\<close>

definition idle_parts :: "int \<Rightarrow> int \<times> int \<times> int \<times> int" where
  "idle_parts timeout =
     (let sec = timeout smod 60; timeout = timeout sdiv 60;
        min = timeout smod 60; timeout = timeout sdiv 60;
        hour = timeout smod 24; timeout = timeout sdiv 24
      in (timeout, hour, min, sec))"

definition idle_unit :: "int \<Rightarrow> string \<Rightarrow> string" where
  "idle_unit n name = (if n = 0 then [] else '' '' @ fmt_d n @ '' '' @ name @ (if n = 1 then [] else ''s''))"

definition idle_text :: "int \<Rightarrow> string" where
  "idle_text timeout =
     (let (day, hour, min, sec) = idle_parts timeout;
        idle = idle_unit day ''day'' @ idle_unit hour ''hour'' @ idle_unit min ''minute'' @ idle_unit sec ''second''
      in if idle = [] then '' 0 seconds'' else idle)"

text \<open>The last row counts. \<open>channel\<close> is the name of the channel.\<close>

definition seen_row :: "db_row list \<Rightarrow> (int \<times> int) option" where
  "seen_row rows = foldM (\<lambda>row _. do { t \<leftarrow> col_int row 0; p \<leftarrow> col_int row 1; Some (t, p) }) rows (0, 0)"

definition result_get_seen :: "string \<Rightarrow> string \<Rightarrow> bool \<Rightarrow> db_row list option \<Rightarrow> string option" where
  "result_get_seen nick channel privmsg res =
     (case rows_of res of
        [] \<Rightarrow> Some (nick @ (if privmsg then '' has not been seen in '' @ channel else '' has not been seen here''))
      | rows \<Rightarrow> do {
          (timeout, present) \<leftarrow> seen_row rows;
          let idle = idle_text timeout in
          Some (if present \<noteq> 0
            then nick @ (if privmsg then '' is in '' @ channel @ '' and has been idle for'' @ idle
              else '' is here and has been idle for'' @ idle)
            else nick @ (if privmsg then '' was last seen in '' @ channel @ idle @ '' ago''
              else '' was last seen'' @ idle @ '' ago''))
        })"

section \<open>New plugins\<close>

text \<open>\<open>known\<close>: what the database answers. An unknown plugin is added, disabled.\<close>

fun db_check_plugins :: "(string \<Rightarrow> bool) \<Rightarrow> (string \<times> string) list \<Rightarrow> db_action list" where
  "db_check_plugins known [] = []"
| "db_check_plugins known ((plugin, script) # ps) =
     Queue (21, Some [bind_string (Some plugin) MYSQL_TYPE_VAR_STRING], True) #
     (if known plugin then []
      else [Queue (22, Some [bind_string (Some plugin) MYSQL_TYPE_VAR_STRING, bind_string (Some script) MYSQL_TYPE_VAR_STRING,
        bind_numeric 0 MYSQL_TYPE_LONG, bind_string (Some []) MYSQL_TYPE_VAR_STRING], True)]) @
     db_check_plugins known ps"

section \<open>The search index\<close>

definition result_rebuild_clucene :: "db_row list option \<Rightarrow> int option" where
  "result_rebuild_clucene res = (case rows_of res of [] \<Rightarrow> Some 0 | row # _ \<Rightarrow> col_int row 0)"

text \<open>\<open>i % span\<close> with a span of \<open>0\<close> is a division by zero.\<close>

definition rebuild_span :: "nat \<Rightarrow> nat" where
  "rebuild_span count = (if count \<ge> 4000 then 1000 else count div 4)"

fun rebuild_rows :: "nat \<Rightarrow> nat \<Rightarrow> db_row list \<Rightarrow> db_action list option" where
  "rebuild_rows span i [] = Some []"
| "rebuild_rows span i (row # rows) =
     (if span = 0 then None
      else do {
        chan \<leftarrow> col_int row 0;
        nick \<leftarrow> col row 1;
        text \<leftarrow> col row 2;
        time \<leftarrow> col_int row 3;
        rest \<leftarrow> rebuild_rows span (i + 1) rows;
        Some (ClucenAdd chan nick text time # rest)
      })"

definition result_rebuild_clucene2 :: "db_row list option \<Rightarrow> db_action list option" where
  "result_rebuild_clucene2 res =
     (case rows_of res of [] \<Rightarrow> Some [] | rows \<Rightarrow> rebuild_rows (rebuild_span (length rows)) 0 rows)"

text \<open>The batches: \<open>i\<close> is an \<open>int\<close>, and its overflow is undefined.\<close>

function rebuild_batches :: "int \<Rightarrow> int \<Rightarrow> int list option" where
  "rebuild_batches i reccount =
     (if i < reccount
      then if i + 1000000 \<ge> 2 ^ 31 then None else map_option (Cons i) (rebuild_batches (i + 1000000) reccount)
      else Some [])"
  by pat_completeness auto
termination by (relation "measure (\<lambda>(i, n). nat (n - i))") auto

declare rebuild_batches.simps [simp del]

definition db_rebuild_clucene :: "int \<Rightarrow> db_action list option" where
  "db_rebuild_clucene reccount = do {
     is \<leftarrow> rebuild_batches 0 reccount;
     Some (Queue (28, None, True) # map (\<lambda>i. Queue (29, Some [bind_numeric i MYSQL_TYPE_LONG], True)) is)
   }"

section \<open>Old client libraries\<close>

text \<open>
  \<open>mysql_get_server_version\<close> for libraries that lack it: the three numbers of the version
  string. Without two dots it follows a \<open>NULL\<close> pointer.
\<close>

definition mysql_get_server_version :: "string \<Rightarrow> int option" where
  "mysql_get_server_version info = do {
     i \<leftarrow> strchr (CHR ''.'') info;
     let rest = drop (i + 1) info in do {
     j \<leftarrow> strchr (CHR ''.'') rest;
     let last = drop (j + 1) rest; last = (case strchr (CHR ''-'') last of None \<Rightarrow> last | Some k \<Rightarrow> take k last) in
     Some (atoi (take i info) * 10000 + atoi (take j rest) * 100 + atoi last) }
   }"

section \<open>Properties\<close>

lemma db_query_answered:
  assumes "db_query_text q args = Some (SqlText t)" "length t < MAX_STRING_LENGTH"
  shows "db_query q args (DbAnswer rows i) n = Some (rows, True, i)"
    "e = CR_SERVER_GONE_ERROR \<or> e = CR_SERVER_LOST \<Longrightarrow> db_query q args (DbError e) n = Some (None, False, n)"
    "e \<noteq> CR_SERVER_GONE_ERROR \<Longrightarrow> e \<noteq> CR_SERVER_LOST \<Longrightarrow> db_query q args (DbError e) n = Some (None, True, n)"
  using assms by (auto simp: db_query_def)

definition connection_lost :: "DbAttempt \<Rightarrow> bool" where
  "connection_lost a \<longleftrightarrow> at_answer a = DbError CR_SERVER_GONE_ERROR \<or> at_answer a = DbError CR_SERVER_LOST"

lemma mysql_attempts_retry:
  assumes t: "db_query_text q args = Some (SqlText t)" "length t < MAX_STRING_LENGTH"
    and good: "at_answer good = DbAnswer rows i" "mysql_reconnect (at_pings good) \<noteq> None"
  shows "\<forall>a \<in> set fails. connection_lost a \<and> mysql_reconnect (at_pings a) \<noteq> None \<Longrightarrow>
    mysql_attempts q args c (fails @ good # rest) st = Some (Answered rows i, \<lparr>lastAccess = at_now good, insertId = i\<rparr>)"
proof (induction fails arbitrary: c st)
  case Nil
  with good db_query_answered(1) [OF t] show ?case by (cases st) (auto simp: Let_def)
next
  case (Cons a fails)
  then have a: "connection_lost a" "mysql_reconnect (at_pings a) \<noteq> None" by auto
  then have "db_query q args (at_answer a) n = Some (None, False, n)" for n
    using db_query_answered(2) [OF t] by (auto simp: connection_lost_def)
  with a(2) Cons show ?case by (simp add: Let_def)
qed

text \<open>Claim C18. When the connection is lost during a query any number of times and each time
  comes back, the MySQL thread runs the query again and hands out the answer of the attempt
  that succeeded.\<close>

theorem query_survives_reconnects:
  assumes "db_query_text q args = Some (SqlText t)" "length t < MAX_STRING_LENGTH"
    and "at_answer good = DbAnswer rows i" "mysql_reconnect (at_pings good) \<noteq> None"
    and "\<forall>a \<in> set fails. connection_lost a \<and> mysql_reconnect (at_pings a) \<noteq> None"
  shows "mysql_attempts q args connected (fails @ good # rest) st =
    Some (Answered rows i, \<lparr>lastAccess = at_now good, insertId = i\<rparr>)"
  using assms by (rule mysql_attempts_retry)

lemma query_survives_reconnects_witness:
  "mysql_attempts ''SELECT 1'' None True
     ([\<lparr>at_now = 10, at_pings = [True], at_answer = DbError 2006\<rparr>,
       \<lparr>at_now = 12, at_pings = [False, True], at_answer = DbError 2013\<rparr>] @
      \<lparr>at_now = 80, at_pings = [True], at_answer = DbAnswer (Some [[Some ''1'']]) 0\<rparr> # []) \<lparr>lastAccess = 0, insertId = 3\<rparr> =
    Some (Answered (Some [[Some ''1'']]) 0,
      \<lparr>lastAccess = at_now \<lparr>at_now = 80, at_pings = [True], at_answer = DbAnswer (Some [[Some ''1'']]) 0\<rparr>, insertId = 0\<rparr>)"
  by (rule query_survives_reconnects [where t = "''SELECT 1''"])
    (auto simp: db_query_text_def sql_in_buffer_def db_query_loop.simps MAX_STRING_LENGTH_def connection_lost_def
      CR_SERVER_GONE_ERROR_def CR_SERVER_LOST_def)

text \<open>When a statement fails although the connection holds, its callback is called all
  the same, with the insert id that an earlier statement left.\<close>

theorem stale_insert_id:
  assumes "queryId item < length QueryTable" "db_query_text (fst (QueryTable ! queryId item)) (queryData item) = Some (SqlText t)"
    and "length t < MAX_STRING_LENGTH" "at_now a - lastAccess st < MYSQL_PING_THRESHOLD"
    and "at_answer a = DbError e" "e \<noteq> CR_SERVER_GONE_ERROR" "e \<noteq> CR_SERVER_LOST" "insertId st \<noteq> 0"
  shows "\<exists>st'. mysql_item True item [a] st = Some (Some (ToCallback None (insertId st)), st')"
  using assms db_query_answered(3) [OF assms(2,3,6,7)]
  by (cases "QueryTable ! queryId item") (simp add: mysql_item_def Let_def db_deliver_def)

lemma stale_insert_id_witness:
  "\<exists>st'. mysql_item True \<lparr>queryId = 11, queryData = None, querySequence = 1\<rparr>
      [\<lparr>at_now = 5, at_pings = [], at_answer = DbError 1146\<rparr>] \<lparr>lastAccess = 0, insertId = 7\<rparr> =
    Some (Some (ToCallback None (insertId \<lparr>lastAccess = 0, insertId = 7\<rparr>)), st')"
proof (rule stale_insert_id [where e = 1146])
  let ?q = "fst (QueryTable ! 11)"
  have "strchr (CHR ''?'') ?q = None" by (simp add: QueryTable_def strchr_None)
  moreover have l: "length ?q = 69" by (simp add: QueryTable_def)
  ultimately show "db_query_text (fst (QueryTable ! queryId \<lparr>queryId = 11, queryData = None, querySequence = 1\<rparr>))
      (queryData \<lparr>queryId = 11, queryData = None, querySequence = 1\<rparr>) = Some (SqlText ?q)"
    by (simp add: db_query_text_def sql_in_buffer_def db_query_loop.simps [of ?q] MAX_STRING_LENGTH_def)
  from l show "length ?q < MAX_STRING_LENGTH" by (simp add: MAX_STRING_LENGTH_def)
qed (simp_all add: QueryTable_def MYSQL_PING_THRESHOLD_def CR_SERVER_GONE_ERROR_def CR_SERVER_LOST_def)

lemma idle_parts_pos:
  assumes "0 \<le> t"
  shows "idle_parts t = (t div 60 div 60 div 24, t div 60 div 60 mod 24, t div 60 mod 60, t mod 60)"
proof -
  have m: "x smod k = x mod k \<and> x sdiv k = x div k" if "0 \<le> x" "0 < k" for x k :: int
    using that by (simp add: signed_modulo_int_def signed_divide_int_def sgn_if)
  have "0 \<le> t div 60" "0 \<le> t div 60 div 60" using assms by (simp_all add: pos_imp_zdiv_nonneg_iff)
  with assms show ?thesis by (simp add: idle_parts_def Let_def m)
qed

lemma length_nat_digits: "n < 10 ^ k \<Longrightarrow> 0 < k \<Longrightarrow> length (nat_digits n) \<le> k"
proof (induction k arbitrary: n)
  case (Suc k)
  show ?case
  proof (cases "n < 10")
    case True
    then show ?thesis by (subst nat_digits.simps) simp
  next
    case False
    then have "k \<noteq> 0" using Suc.prems by (cases k) auto
    moreover have "n div 10 < 10 ^ k" using Suc.prems by (simp add: less_mult_imp_div_less mult.commute)
    ultimately have "length (nat_digits (n div 10)) \<le> k" using Suc.IH by simp
    with False show ?thesis by (subst nat_digits.simps) simp
  qed
qed simp

lemma length_idle_unit:
  "0 \<le> n \<Longrightarrow> n < 2 ^ 31 \<Longrightarrow> length (idle_unit n name) \<le> 13 + length name"
  using length_nat_digits [of "nat n" 10] by (auto simp: idle_unit_def fmt_d_def nat_less_iff)

text \<open>The days, hours, minutes and seconds of the seen command add up to the idle time,
  each within its range, and the text fits its buffer of 256 bytes.\<close>

theorem seen_time_adds_up:
  assumes "0 \<le> t" "t < 2 ^ 31" "idle_parts t = (d, h, m, s)"
  shows "t = s + 60 * (m + 60 * (h + 24 * d)) \<and> s \<in> {0..<60} \<and> m \<in> {0..<60} \<and> h \<in> {0..<24} \<and> 0 \<le> d \<and>
    length (idle_text t) < 256"
proof -
  from assms(3) idle_parts_pos [OF assms(1)]
  have eq: "d = t div 60 div 60 div 24" "h = t div 60 div 60 mod 24" "m = t div 60 mod 60" "s = t mod 60" by auto
  have "t = s + 60 * (m + 60 * (h + 24 * d))"
    unfolding eq by (simp only: add.commute [of _ "_ * _"] mult_div_mod_eq)
  moreover have r: "0 \<le> s" "s < 60" "0 \<le> m" "m < 60" "0 \<le> h" "h < 24"
    unfolding eq by (rule pos_mod_sign pos_mod_bound, simp)+
  moreover have d: "0 \<le> d" "d \<le> t"
  proof -
    have q: "0 \<le> x div k \<and> x div k \<le> x" if "0 \<le> x" "0 < k" for x k :: int
      using that zdiv_mono2 [of x 1 k] by (simp add: pos_imp_zdiv_nonneg_iff)
    from q [OF assms(1), of 60] q [of "t div 60" 60] q [of "t div 60 div 60" 24]
    show "0 \<le> d" "d \<le> t" unfolding eq by auto
  qed
  moreover have "length (idle_text t) < 256"
    using length_idle_unit [of d "''day''"] length_idle_unit [of h "''hour''"] length_idle_unit [of m "''minute''"]
      length_idle_unit [of s "''second''"] r d assms(2,3) by (simp add: idle_text_def Let_def)
  ultimately show ?thesis by simp
qed

lemma seen_time_adds_up_witness:
  "(93784 :: int) = 4 + 60 * (3 + 60 * (2 + 24 * 1)) \<and> (4 :: int) \<in> {0..<60} \<and> (3 :: int) \<in> {0..<60} \<and> (2 :: int) \<in> {0..<24} \<and>
   0 \<le> (1 :: int) \<and> length (idle_text 93784) < 256"
  by (rule seen_time_adds_up) (simp_all add: idle_parts_pos)

definition full_row :: "db_row \<Rightarrow> bool" where
  "full_row row \<longleftrightarrow> col_int row 0 \<noteq> None \<and> col row 1 \<noteq> None \<and> col row 2 \<noteq> None \<and> col_int row 3 \<noteq> None"

lemma rebuild_rows_full:
  "\<forall>row \<in> set rows. full_row row \<Longrightarrow> 0 < span \<Longrightarrow>
   \<exists>acts. rebuild_rows span i rows = Some acts \<and> length acts = length rows"
proof (induction rows arbitrary: i)
  case (Cons row rows)
  then obtain acts where "rebuild_rows span (i + 1) rows = Some acts" "length acts = length rows" by fastforce
  moreover have "full_row row" using Cons.prems by simp
  ultimately show ?case using Cons.prems by (auto simp: full_row_def)
qed simp

text \<open>Importing a batch of complete rows into the search index divides by zero exactly
  when it has one to three rows.\<close>

theorem rebuild_small_batch_faults:
  assumes "rows \<noteq> []" "\<forall>row \<in> set rows. full_row row"
  shows "result_rebuild_clucene2 (Some rows) = None \<longleftrightarrow> length rows < 4"
proof (cases "length rows < 4")
  case True
  with assms show ?thesis by (cases rows) (simp_all add: result_rebuild_clucene2_def rows_of_def rebuild_span_def)
next
  case False
  then have "0 < rebuild_span (length rows)" by (simp add: rebuild_span_def div_greater_zero_iff)
  from rebuild_rows_full [OF assms(2) this, of 0] obtain acts where
    "rebuild_rows (rebuild_span (length rows)) 0 rows = Some acts" by blast
  then have "result_rebuild_clucene2 (Some rows) \<noteq> None"
    using assms(1) by (cases rows) (simp_all add: result_rebuild_clucene2_def rows_of_def del: rebuild_rows.simps)
  with False show ?thesis by simp
qed

lemma rebuild_small_batch_faults_witness:
  "(result_rebuild_clucene2 (Some [[Some ''5'', Some ''bob'', Some ''hi'', Some ''1000'']]) = None) =
   (length [[Some ''5'', Some ''bob'', Some ''hi'', Some ''1000'']] < 4)"
  by (rule rebuild_small_batch_faults) (simp_all add: full_row_def col_def col_int_def)

lemma rebuild_batches_from:
  "1000000 dvd i \<Longrightarrow> reccount \<le> 2147000000 \<Longrightarrow>
   rebuild_batches i reccount = Some (map (\<lambda>k. i + 1000000 * int k) [0..<nat ((reccount - i + 999999) div 1000000)])"
proof (induction i reccount rule: rebuild_batches.induct)
  case (1 i r)
  show ?case
  proof (cases "i < r")
    case True
    from "1.prems"(1) obtain k where k: "i = 1000000 * k" by blast
    then have "k < 2147" using True "1.prems"(2) by linarith
    then have "i \<le> 2146000000" using k by linarith
    then have i: "\<not> i + 1000000 \<ge> 2 ^ 31" by simp
    have "nat ((r - i + 999999) div 1000000) = Suc (nat ((r - (i + 1000000) + 999999) div 1000000))"
      using True by linarith
    then have "map (\<lambda>k. i + 1000000 * int k) [0..<nat ((r - i + 999999) div 1000000)] =
        i # map (\<lambda>k. i + 1000000 + 1000000 * int k) [0..<nat ((r - (i + 1000000) + 999999) div 1000000)]"
      by (simp only: map_upt_Suc) (simp add: distrib_left)
    moreover have "1000000 dvd i + 1000000" using "1.prems"(1) by simp
    with 1 True i have "rebuild_batches (i + 1000000) r =
        Some (map (\<lambda>k. i + 1000000 + 1000000 * int k) [0..<nat ((r - (i + 1000000) + 999999) div 1000000)])"
      by blast
    ultimately show ?thesis using True i by (subst rebuild_batches.simps) (simp only: if_True if_False option.map refl)
  next
    case False
    then have "(r - i + 999999) div 1000000 \<le> 0" by linarith
    with False show ?thesis by (subst rebuild_batches.simps) simp
  qed
qed

text \<open>For up to 2147000000 entries the rebuild of the search index asks for the batches
  0, 1000000, 2000000 and so on up to the last that has entries.\<close>

theorem rebuild_batches_cover:
  assumes "reccount \<le> 2147000000"
  shows "db_rebuild_clucene reccount = Some (Queue (28, None, True) #
    map (\<lambda>k. Queue (29, Some [bind_numeric (1000000 * int k) MYSQL_TYPE_LONG], True)) [0..<nat ((reccount + 999999) div 1000000)])"
  using rebuild_batches_from [OF _ assms, of 0] by (simp add: db_rebuild_clucene_def comp_def)

lemma rebuild_batches_cover_witness:
  "db_rebuild_clucene 1500000 = Some (Queue (28, None, True) #
    map (\<lambda>k. Queue (29, Some [bind_numeric (1000000 * int k) MYSQL_TYPE_LONG], True)) [0..<nat ((1500000 + 999999) div 1000000)])"
  by (rule rebuild_batches_cover) simp

section \<open>Every query fits its pattern\<close>

text \<open>The queries on the table of \<open>mysql.c\<close>: those that the program queues, and those that follow them. The plugins have tables of their own.\<close>

inductive program_query :: "query \<Rightarrow> bool" where
  logentry: "db_add_logentry now c n ty t e = Some acts \<Longrightarrow> Queue q \<in> set acts \<Longrightarrow> program_query q"
| update_nick: "db_update_nick now c n p e = Some acts \<Longrightarrow> Queue q \<in> set acts \<Longrightarrow> program_query q"
| flush_nicks: "Queue q \<in> set (db_flush_nicks chan) \<Longrightarrow> program_query q"
| flush_nick: "db_flush_nick s n ty t nn = Some acts \<Longrightarrow> Queue q \<in> set acts \<Longrightarrow> program_query q"
| check_nick: "Queue q \<in> set (db_check_nick_notify now c n h) \<Longrightarrow> program_query q"
| history: "Queue q \<in> set (db_nick_history now c nk hty) \<Longrightarrow> program_query q"
| notify: "Queue q \<in> set (db_notify_nick now c n) \<Longrightarrow> program_query q"
| get_setting: "Queue q \<in> set (db_get_setting n) \<Longrightarrow> program_query q"
| set_setting: "Queue q \<in> set (db_set_setting n n') \<Longrightarrow> program_query q"
| get_auth: "Queue q \<in> set (db_get_auth n) \<Longrightarrow> program_query q"
| set_auth: "Queue q \<in> set (db_set_auth n au) \<Longrightarrow> program_query q"
| update_channel: "program_query (db_update_channel isNew c)"
| update_server: "length (sr_strings sv) = 6 \<Longrightarrow> length (sr_flood sv) = 4 \<Longrightarrow> program_query (db_update_server sv)"
| load_servers: "program_query load_servers_query"
| load_channels: "program_query (load_channels_query i)"
| get_plugins: "program_query get_plugins_query"
| schema_page: "program_query cursesMySQLSchema"
| seen: "Queue q \<in> set (db_get_seen c n) \<Longrightarrow> program_query q"
| check_plugins: "Queue q \<in> set (db_check_plugins known ps) \<Longrightarrow> program_query q"
| rebuild: "db_rebuild_clucene n = Some acts \<Longrightarrow> Queue q \<in> set acts \<Longrightarrow> program_query q"
| chain_nick: "program_query (3, Some qd, sy) \<Longrightarrow> chain_update_nick rows qd = Some q \<Longrightarrow> program_query q"
| chain_setting: "program_query (14, Some qd, sy) \<Longrightarrow> chain_set_setting rows qd = Some q \<Longrightarrow> program_query q"
| chain_auth: "program_query (chain_set_auth rows nick auth)"
| chain_flush: "chain_flush_nick now known rs n ty t nn = Some acts \<Longrightarrow> Queue q \<in> set acts \<Longrightarrow> program_query q"

lemma action_in: "list_all action_ok acts \<Longrightarrow> Queue q \<in> set acts \<Longrightarrow> query_ok q"
  by (auto simp: list_all_iff dest: bspec)

lemma late_queries_ok:
  "query_ok load_servers_query" "query_ok (load_channels_query i)" "query_ok get_plugins_query" "query_ok cursesMySQLSchema"
  "list_all action_ok (db_get_seen c n)" "list_all action_ok (db_check_plugins known ps)"
  "db_rebuild_clucene k = Some acts \<Longrightarrow> list_all action_ok acts"
proof -
  show "list_all action_ok (db_check_plugins known ps)"
    by (induction known ps rule: db_check_plugins.induct) (auto simp: query_ok_def)
qed (auto simp: load_servers_query_def load_channels_query_def get_plugins_query_def cursesMySQLSchema_def
    db_get_seen_def db_rebuild_clucene_def query_ok_def bind_eq_Some_conv list_all_iff split: option.splits)

lemma program_query_ok: "program_query q \<Longrightarrow> query_ok q"
proof (induction rule: program_query.induct)
  case (chain_nick qd sy rows q)
  then show ?case using chain_ok(1) [of rows qd q] by (simp add: query_ok_def)
next
  case (chain_setting qd sy rows q)
  then show ?case using chain_ok(2) [of rows qd q] by (simp add: query_ok_def)
qed (auto intro: chain_ok action_in [OF db_add_logentry_ok] action_in [OF db_update_nick_ok] action_in [OF db_flush_nick_ok]
  action_in [OF chain_flush_nick_ok] action_in [OF db_single_ok(1)] action_in [OF db_single_ok(2)] action_in [OF db_single_ok(3)]
  action_in [OF db_single_ok(4)] action_in [OF db_single_ok(5)] action_in [OF db_single_ok(6)] action_in [OF db_single_ok(7)]
  action_in [OF db_single_ok(8)] late_queries_ok action_in [OF late_queries_ok(5)] action_in [OF late_queries_ok(6)]
  action_in [OF late_queries_ok(7)])

text \<open>Claim C13. Every query on the main query table of mysql.c that the program queues (all
  thirty entries; plugins have tables of their own), or derives from an answer in a chain
  function, names an entry of the table, and building its text comes to an end: a text, the
  report that a value is too long, or an overrun of the buffer.\<close>

theorem every_query_built:
  assumes "program_query q"
  shows "fst q < length QueryTable \<and> (\<exists>r. db_query_text (fst (QueryTable ! fst q)) (fst (snd q)) = Some r)"
  using query_ok_returns [OF program_query_ok [OF assms]] program_query_ok [OF assms] by (simp add: query_ok_def)

lemma every_query_built_witness:
  "fst (6 :: nat, Some [bind_numeric 1 MYSQL_TYPE_LONG], False) < length QueryTable \<and>
   (\<exists>r. db_query_text (fst (QueryTable ! fst (6 :: nat, Some [bind_numeric 1 MYSQL_TYPE_LONG], False)))
     (fst (snd (6 :: nat, Some [bind_numeric 1 MYSQL_TYPE_LONG], False))) = Some r)"
  by (rule every_query_built [OF program_query.flush_nicks [of _ 1]]) (simp add: db_flush_nicks_def)

end
