(* ===== verification/SchemaUpgrade.thy ===== *)
theory SchemaUpgrade
  imports Database
begin

text \<open>
  \<open>bot/src/mysql_upgrade.c\<close> and \<open>bot/include/db_schema.h\<close>: the tables of a new
  database, the steps from one schema version to the next, and the loop that reads the
  stored version and upgrades until the program's version is reached.

  The queries go through the queue to the MySQL thread, which works while the loop goes
  on; reading a setting waits for its answer. Writing a setting is two queries: the first
  looks whether it exists, and only its chain function queues the second.
\<close>

section \<open>The tables\<close>

text \<open>A newline and an apostrophe.\<close>

definition nl :: string where "nl = [CHR 0x0A]"
definition qt :: string where "qt = [CHR 0x27]"

definition defCoreSchema :: "string list" where
  "defCoreSchema = [
     ''CREATE TABLE `channels` ('' @ nl @ ''  `chanid` int(11) NOT NULL auto_increment,'' @ nl @
       ''  `serverid` int(11) NOT NULL default '' @ qt @ ''0'' @ qt @ '','' @ nl @
       ''  `enabled` int(11) NOT NULL default '' @ qt @ ''1'' @ qt @ '','' @ nl @
       ''  `channel` varchar(64) NOT NULL default '' @ [CHR 0x27, CHR 0x27] @ '','' @ nl @
       ''  `notify` int(11) NOT NULL default '' @ qt @ ''0'' @ qt @ '','' @ nl @ ''  `url` text NOT NULL,'' @ nl @
       ''  `notifywindow` int(11) NOT NULL default '' @ qt @ ''24'' @ qt @ '','' @ nl @
       ''  `cmdChar` char(1) NOT NULL default '' @ [CHR 0x27, CHR 0x27] @ '','' @ nl @
       ''  PRIMARY KEY  (`chanid`),'' @ nl @ ''  KEY `serverChan` (`serverid`,`channel`)'' @ nl @
       '') TYPE=MyISAM PACK_KEYS=1'' @ nl,
     ''CREATE TABLE `irclog` ('' @ nl @ ''  `msgid` int(11) NOT NULL auto_increment,'' @ nl @
       ''  `chanid` int(11) NOT NULL default '' @ qt @ ''0'' @ qt @ '','' @ nl @
       ''  `timestamp` int(14) NOT NULL default '' @ qt @ ''0'' @ qt @ '','' @ nl @
       ''  `nick` varchar(64) NOT NULL default '' @ [CHR 0x27, CHR 0x27] @ '','' @ nl @
       ''  `msgtype` int(11) NOT NULL default '' @ qt @ ''0'' @ qt @ '','' @ nl @ ''  `message` text NOT NULL,'' @
       nl @ ''  PRIMARY KEY  (`msgid`),'' @ nl @ ''  KEY `timeChan` (`chanid`,`timestamp`),'' @ nl @
       ''  KEY `messageType` (`msgtype`,`chanid`,`timestamp`)'' @ nl @ '') TYPE=MyISAM'' @ nl,
     ''CREATE TABLE `nicks` ('' @ nl @ ''  `chanid` int(11) NOT NULL default '' @ qt @ ''0'' @ qt @ '','' @ nl @
       ''  `nick` varchar(64) NOT NULL default '' @ [CHR 0x27, CHR 0x27] @ '','' @ nl @
       ''  `lastseen` int(11) NOT NULL default '' @ qt @ ''0'' @ qt @ '','' @ nl @
       ''  `lastnotice` int(11) NOT NULL default '' @ qt @ ''0'' @ qt @ '','' @ nl @
       ''  `present` int(11) NOT NULL default '' @ qt @ ''0'' @ qt @ '','' @ nl @
       ''  PRIMARY KEY  (`chanid`,`nick`)'' @ nl @ '') TYPE=MyISAM'' @ nl,
     ''CREATE TABLE `plugins` ('' @ nl @ ''  `pluginName` varchar(64) NOT NULL default '' @ [CHR 0x27, CHR 0x27] @
       '','' @ nl @ ''  `libName` varchar(64) NOT NULL default '' @ [CHR 0x27, CHR 0x27] @ '','' @ nl @
       ''  `preload` int(11) NOT NULL default '' @ qt @ ''0'' @ qt @ '','' @ nl @
       ''  `arguments` varchar(255) NOT NULL default '' @ [CHR 0x27, CHR 0x27] @ '','' @ nl @
       ''  PRIMARY KEY  (`pluginName`)'' @ nl @ '') TYPE=MyISAM'' @ nl,
     ''CREATE TABLE `servers` ('' @ nl @ ''  `serverid` int(11) NOT NULL auto_increment,'' @ nl @
       ''  `enabled` int(11) NOT NULL default '' @ qt @ ''1'' @ qt @ '','' @ nl @
       ''  `server` varchar(255) NOT NULL default '' @ [CHR 0x27, CHR 0x27] @ '','' @ nl @
       ''  `port` int(11) NOT NULL default '' @ qt @ ''0'' @ qt @ '','' @ nl @
       ''  `password` varchar(255) NOT NULL default '' @ [CHR 0x27, CHR 0x27] @ '','' @ nl @
       ''  `nick` varchar(64) NOT NULL default '' @ [CHR 0x27, CHR 0x27] @ '','' @ nl @
       ''  `username` varchar(16) NOT NULL default '' @ [CHR 0x27, CHR 0x27] @ '','' @ nl @
       ''  `realname` varchar(255) NOT NULL default '' @ [CHR 0x27, CHR 0x27] @ '','' @ nl @
       ''  `nickserv` varchar(64) NOT NULL default '' @ [CHR 0x27, CHR 0x27] @ '','' @ nl @
       ''  `nickservmsg` varchar(255) NOT NULL default '' @ [CHR 0x27, CHR 0x27] @ '','' @ nl @
       ''  `floodInterval` int(11) NOT NULL default '' @ qt @ ''2'' @ qt @ '','' @ nl @
       ''  `floodMaxTime` int(11) NOT NULL default '' @ qt @ ''8'' @ qt @ '','' @ nl @
       ''  `floodBuffer` int(11) NOT NULL default '' @ qt @ ''2000'' @ qt @ '','' @ nl @
       ''  `floodMaxLine` int(11) NOT NULL default '' @ qt @ ''256'' @ qt @ '','' @ nl @
       ''  PRIMARY KEY  (`serverid`),'' @ nl @ ''  KEY `serverNick` (`server`,`port`,`nick`)'' @ nl @
       '') TYPE=MyISAM PACK_KEYS=0'' @ nl,
     ''CREATE TABLE `settings` ('' @ nl @ ''  `name` varchar(80) NOT NULL default '' @ [CHR 0x27, CHR 0x27] @ '','' @
       nl @ ''  `value` varchar(255) NOT NULL default '' @ [CHR 0x27, CHR 0x27] @ '','' @ nl @
       ''  PRIMARY KEY  (`name`)'' @ nl @ '') TYPE=MyISAM'' @ nl,
     ''CREATE TABLE `nickhistory` ('' @ nl @ ''  `chanid` int(11) NOT NULL default '' @ qt @ ''0'' @ qt @ '','' @
       nl @ ''  `nick` varchar(64) NOT NULL default '' @ [CHR 0x27, CHR 0x27] @ '','' @ nl @
       ''  `histType` int(11) NOT NULL default '' @ qt @ ''0'' @ qt @ '','' @ nl @
       ''  `timestamp` int(11) NOT NULL default '' @ qt @ ''0'' @ qt @ '','' @ nl @
       ''  PRIMARY KEY  (`chanid`,`histType`,`timestamp`,`nick`)'' @ nl @ '') TYPE=MyISAM'' @ nl,
     ''CREATE TABLE `userauth` ('' @ nl @ '' `username` VARCHAR( 64 ) NOT NULL ,'' @ nl @ '' `digest` ENUM( '' @ qt @
       ''md4'' @ qt @ '', '' @ qt @ ''md5'' @ qt @ '', '' @ qt @ ''sha1'' @ qt @ '' ) NOT NULL ,'' @ nl @
       '' `seed` VARCHAR( 20 ) NOT NULL ,'' @ nl @ '' `key` VARCHAR( 16 ) NOT NULL ,'' @ nl @
       '' `keyIndex` INT NOT NULL ,'' @ nl @ '' PRIMARY KEY ( `username` )'' @ nl @ '') TYPE = MYISAM'' @ nl]"

definition coreSchemaUpgrade :: "string list list" where
  "coreSchemaUpgrade = [
    [],
    [''CREATE TABLE `nickhistory` ('' @ nl @ ''  `chanid` int(11) NOT NULL default '' @ qt @ ''0'' @ qt @ '','' @
       nl @ ''  `nick` varchar(64) NOT NULL default '' @ [CHR 0x27, CHR 0x27] @ '','' @ nl @
       ''  `histType` int(11) NOT NULL default '' @ qt @ ''0'' @ qt @ '','' @ nl @
       ''  `timestamp` int(11) NOT NULL default '' @ qt @ ''0'' @ qt @ '','' @ nl @
       ''  PRIMARY KEY  (`chanid`,`nick`,`histType`,`timestamp`)'' @ nl @ '') TYPE=MyISAM'' @ nl],
    [''ALTER TABLE `nickhistory` DROP PRIMARY KEY ,'' @ nl @
       ''ADD PRIMARY KEY ( `chanid` , `histType` , `timestamp` , `nick` )'' @ nl],
    [''ALTER TABLE `channels` ADD `notify` INT DEFAULT '' @ qt @ ''0'' @ qt @ '' NOT NULL AFTER `channel`'' @ nl,
     ''UPDATE `channels` SET `notify` = '' @ qt @ ''1'' @ qt @ '' WHERE `url` != '' @ [CHR 0x27, CHR 0x27] @ nl],
    [''ALTER TABLE `irclog` DROP INDEX `timeChan` ,'' @ nl @ ''ADD INDEX `timeChan` ( `chanid` , `timestamp` )'' @ nl,
     ''ALTER TABLE `irclog` DROP INDEX `messageType` ,'' @ nl @
       ''ADD INDEX `messageType` ( `msgtype` , `chanid` , `timestamp` )'' @ nl],
    [''CREATE TABLE `userauth` ('' @ nl @ '' `username` VARCHAR( 64 ) NOT NULL ,'' @ nl @ '' `digest` ENUM( '' @ qt @
       ''md4'' @ qt @ '', '' @ qt @ ''md5'' @ qt @ '', '' @ qt @ ''sha1'' @ qt @ '' ) NOT NULL ,'' @ nl @
       '' `seed` VARCHAR( 20 ) NOT NULL ,'' @ nl @ '' `key` VARCHAR( 16 ) NOT NULL ,'' @ nl @
       '' `keyIndex` INT NOT NULL ,'' @ nl @ '' PRIMARY KEY ( `username` )'' @ nl @ '') TYPE = MYISAM'' @ nl],
    [],
    [''ALTER TABLE `servers` ADD `password` VARCHAR( 255 ) NOT NULL AFTER `port`'' @ nl],
    [''ALTER TABLE `servers` ADD `floodInterval` INT DEFAULT '' @ qt @ ''2'' @ qt @ '' NOT NULL ,'' @ nl @
       ''ADD `floodMaxTime` INT DEFAULT '' @ qt @ ''8'' @ qt @ '' NOT NULL ,'' @ nl @
       ''ADD `floodBuffer` INT DEFAULT '' @ qt @ ''2000'' @ qt @ '' NOT NULL ,'' @ nl @
       ''ADD `floodMaxLine` INT DEFAULT '' @ qt @ ''256'' @ qt @ '' NOT NULL'' @ nl],
    [''ALTER TABLE `channels` ADD `enabled` INT DEFAULT '' @ qt @ ''1'' @ qt @ '' NOT NULL AFTER `serverid`'',
     ''ALTER TABLE `servers` ADD `enabled` INT DEFAULT '' @ qt @ ''1'' @ qt @ '' NOT NULL AFTER `serverid`''],
    [''ALTER TABLE `irclog` DROP INDEX `searchtext`'']]"

definition CURRENT_SCHEMA :: nat where
  "CURRENT_SCHEMA = 11"

section \<open>The queue and the MySQL thread\<close>

text \<open>
  The queries on the queue: a statement, the look at the setting before it is written
  (\<open>chain_set_setting\<close> then queues the write), and the write.
\<close>

datatype schema_item = Pattern string | CheckSetting string | StoreSetting string

record SchemaDB =
  sd_value :: "string option"
  sd_log :: "string list"

fun run_item :: "schema_item \<Rightarrow> SchemaDB \<Rightarrow> SchemaDB \<times> schema_item list" where
  "run_item (Pattern p) db = (db\<lparr>sd_log := sd_log db @ [p]\<rparr>, [])"
| "run_item (CheckSetting v) db = (db, [StoreSetting v])"
| "run_item (StoreSetting v) db = (db\<lparr>sd_value := Some v\<rparr>, [])"

text \<open>Some turns of the thread: what a query chains goes to the end of the queue.\<close>

fun mysql_turns :: "nat \<Rightarrow> schema_item list \<Rightarrow> SchemaDB \<Rightarrow> schema_item list \<times> SchemaDB" where
  "mysql_turns 0 q db = (q, db)"
| "mysql_turns (Suc n) [] db = ([], db)"
| "mysql_turns (Suc n) (it # q) db = (let (db, new) = run_item it db in mysql_turns n (q @ new) db)"

text \<open>
  \<open>db_get_setting\<close>: the query goes behind what is queued, so all of that runs first, but
  what it chains comes after.
\<close>

fun run_items :: "schema_item list \<Rightarrow> SchemaDB \<Rightarrow> SchemaDB \<times> schema_item list" where
  "run_items [] db = (db, [])"
| "run_items (it # q) db = (let (db, new) = run_item it db; (db, new') = run_items q db in (db, new @ new'))"

text \<open>\<open>n\<close>: how far the thread gets before the query is queued.\<close>

definition read_setting :: "nat \<Rightarrow> schema_item list \<Rightarrow> SchemaDB \<Rightarrow> string option \<times> schema_item list \<times> SchemaDB" where
  "read_setting n q db = (let (q, db) = mysql_turns n q db; (db, q) = run_items q db in (sd_value db, q, db))"

section \<open>Upgrading\<close>

text \<open>The new version and what is queued; \<open>None\<close>: reading outside the table of steps.\<close>

definition db_upgrade_schema :: "string list \<Rightarrow> string list list \<Rightarrow> int \<Rightarrow> int \<Rightarrow> (int \<times> schema_item list) option" where
  "db_upgrade_schema defSchema steps current codeSupports =
     (if current \<ge> codeSupports then Some (current, [])
      else if current = 0 then Some (codeSupports, map Pattern defSchema @ [CheckSetting (fmt_d codeSupports)])
      else if current < 0 \<or> nat current \<ge> length steps then None
      else Some (current + 1, map Pattern (steps ! nat current) @ [CheckSetting (fmt_d (current + 1))]))"

definition schema_version :: "string option \<Rightarrow> int" where
  "schema_version v = (case v of None \<Rightarrow> 0 | Some s \<Rightarrow> atoi s)"

text \<open>The loop; \<open>sched\<close> gives the turns of the thread before each read of the setting.\<close>

partial_function (option) db_check_loop ::
    "string list \<Rightarrow> string list list \<Rightarrow> int \<Rightarrow> (nat \<Rightarrow> nat) \<Rightarrow> nat \<Rightarrow> schema_item list \<Rightarrow> SchemaDB \<Rightarrow>
     (int \<times> schema_item list \<times> SchemaDB) option" where
  "db_check_loop defSchema steps codeSupports sched k q db =
     (let (v, q, db) = read_setting (sched k) q db; ver = schema_version v in
      if ver < codeSupports then do {
        (ver, new) \<leftarrow> db_upgrade_schema defSchema steps ver codeSupports;
        if ver < codeSupports then db_check_loop defSchema steps codeSupports sched (k + 1) (q @ new) db
        else Some (ver, q @ new, db)
      } else Some (ver, q, db))"

declare db_check_loop.simps [code]

definition db_check_schema ::
    "int \<Rightarrow> string list \<Rightarrow> string list list \<Rightarrow> (nat \<Rightarrow> nat) \<Rightarrow> SchemaDB \<Rightarrow> (int \<times> schema_item list \<times> SchemaDB) option" where
  "db_check_schema codeSupports defSchema steps sched db = db_check_loop defSchema steps codeSupports sched 0 [] db"

definition db_check_schema_main :: "(nat \<Rightarrow> nat) \<Rightarrow> SchemaDB \<Rightarrow> (int \<times> schema_item list \<times> SchemaDB) option" where
  "db_check_schema_main sched db = db_check_schema (int CURRENT_SCHEMA) defCoreSchema coreSchemaUpgrade sched db"

section \<open>Every statement fits its buffer\<close>

lemma schema_fits:
  "list_all (\<lambda>q. length q < MAX_STRING_LENGTH \<and> CHR ''?'' \<notin> set q) (defCoreSchema @ concat coreSchemaUpgrade)"
  unfolding defCoreSchema_def coreSchemaUpgrade_def
  by (simp add: nl_def qt_def MAX_STRING_LENGTH_def)

lemma db_query_plain:
  assumes "length q < MAX_STRING_LENGTH" "CHR ''?'' \<notin> set q"
  shows "db_query_text q None = Some (SqlText q)"
  using assms strchr_None [of "CHR ''?''" q] by (simp add: db_query_text_def sql_in_buffer_def db_query_loop.simps [of q])

text \<open>The statements of the schema have no placeholders and fit.\<close>

lemma schema_statements_whole:
  "list_all (\<lambda>q. db_query_text q None = Some (SqlText q)) (defCoreSchema @ concat coreSchemaUpgrade)"
  using schema_fits by (rule list.pred_mono_strong) (simp add: db_query_plain)

section \<open>Upgrading ends\<close>

fun plain :: "schema_item \<Rightarrow> bool" where
  "plain (CheckSetting v) = False"
| "plain it = True"

lemma run_item_plain: "plain it \<Longrightarrow> snd (run_item it db) = []"
  by (cases it) simp_all

lemma run_items_plain: "list_all plain q \<Longrightarrow> snd (run_items q db) = []"
proof (induction q arbitrary: db)
  case (Cons it q)
  with run_item_plain [of it db] show ?case by (auto simp: Let_def split: prod.splits) (metis snd_conv)
qed simp

lemma run_items_append:
  "run_items (q @ r) db = (let (db, a) = run_items q db; (db, b) = run_items r db in (db, a @ b))"
  by (induction q arbitrary: db) (auto simp: Let_def split: prod.splits)

lemma run_items_patterns: "run_items (map Pattern ps) db = (db\<lparr>sd_log := sd_log db @ ps\<rparr>, [])"
  by (induction ps arbitrary: db) simp_all

lemma read_plain: "list_all plain q \<Longrightarrow> read_setting n q db = (sd_value (fst (run_items q db)), [], fst (run_items q db))"
proof (induction n arbitrary: q db)
  case 0
  then show ?case using run_items_plain [of q db] by (cases "run_items q db") (simp add: read_setting_def)
next
  case (Suc n)
  show ?case
  proof (cases q)
    case Nil
    then show ?thesis by (simp add: read_setting_def)
  next
    case (Cons it q')
    with Suc.prems run_item_plain [of it db] obtain db1 where db1: "run_item it db = (db1, [])" by (cases "run_item it db") auto
    have "read_setting (Suc n) q db = read_setting n q' db1" using Cons db1 by (simp add: read_setting_def)
    with Suc.IH [of q' db1] Suc.prems Cons db1 show ?thesis by (simp add: Let_def split: prod.split)
  qed
qed

text \<open>The thread may or may not have come as far as the write when the setting is read.\<close>

lemma read_check:
  "list_all plain q \<Longrightarrow> read_setting n (q @ [CheckSetting d]) db \<in>
    {(sd_value (fst (run_items q db)), [StoreSetting d], fst (run_items q db)),
     (Some d, [], (fst (run_items q db))\<lparr>sd_value := Some d\<rparr>)}"
proof (induction n arbitrary: q db)
  case 0
  then show ?case using run_items_plain [of q db]
    by (cases "run_items q db") (simp add: read_setting_def run_items_append Let_def)
next
  case (Suc n)
  show ?case
  proof (cases q)
    case Nil
    have "read_setting (Suc n) [CheckSetting d] db = read_setting n [StoreSetting d] db" by (simp add: read_setting_def)
    with Nil read_plain [of "[StoreSetting d]" n db] show ?thesis by simp
  next
    case (Cons it q')
    with Suc.prems run_item_plain [of it db] obtain db1 where db1: "run_item it db = (db1, [])" by (cases "run_item it db") auto
    have "read_setting (Suc n) (q @ [CheckSetting d]) db = read_setting n (q' @ [CheckSetting d]) db1"
      using Cons db1 by (simp add: read_setting_def)
    with Suc.IH [of q' db1] Suc.prems Cons db1 show ?thesis by (simp add: Let_def split: prod.split)
  qed
qed

lemma turns_check:
  "list_all plain q \<Longrightarrow> mysql_turns (length q + 2) (q @ [CheckSetting d]) db = ([], (fst (run_items q db))\<lparr>sd_value := Some d\<rparr>)"
proof (induction q arbitrary: db)
  case (Cons it q)
  with run_item_plain [of it db] obtain db1 where db1: "run_item it db = (db1, [])" by (cases "run_item it db") auto
  with Cons show ?case by (simp add: Let_def split: prod.split)
qed (simp add: numeral_2_eq_2)

text \<open>
  What is left to do when the stored version will read \<open>x\<close> or, once the pending write is
  through, \<open>d\<close>: the steps \<open>rs\<close>.
\<close>

definition steps_left :: "nat \<Rightarrow> nat \<Rightarrow> nat \<Rightarrow> nat list \<Rightarrow> bool" where
  "steps_left N x d rs \<longleftrightarrow> sorted rs \<and> {d..<N} \<subseteq> set rs \<and> set rs \<subseteq> {x..<N} \<and> (\<forall>r. count_list rs r \<le> 2) \<and>
     (x < d \<longrightarrow> count_list rs x \<le> 1)"

lemma steps_left_Cons:
  assumes "steps_left N x' (r + 1) rs" "x \<le> d" "d \<le> x + 1" "d < N" "r = d \<and> x' = d \<or> r = x \<and> x' = d"
  shows "steps_left N x d (r # rs)"
proof -
  have cnt: "count_list rs r \<le> 1"
  proof (cases "x' < r + 1")
    case True
    with assms(2,3,5) have "x' = r" by auto
    with assms(1) show ?thesis by (simp add: steps_left_def)
  next
    case False
    with assms(1) have "r \<notin> set rs" by (auto simp: steps_left_def)
    then have "count_list rs r = 0" by simp
    then show ?thesis by simp
  qed
  have low: "\<forall>y \<in> set rs. r \<le> y" using assms by (auto simp: steps_left_def)
  have cover: "{d..<N} \<subseteq> set (r # rs)"
  proof
    fix t assume t: "t \<in> {d..<N}"
    have "{r + 1..<N} \<subseteq> set rs" using assms(1) by (simp add: steps_left_def)
    with t assms(2,5) show "t \<in> set (r # rs)" by (cases "t = r") auto
  qed
  have "count_list (r # rs) x \<le> 1" if "x < d"
  proof (cases "r = x")
    case True
    with that assms have "x \<notin> set rs" by (auto simp: steps_left_def)
    with True show ?thesis by simp
  next
    case False
    with that assms have "x \<notin> set rs" by (auto simp: steps_left_def)
    with False show ?thesis by simp
  qed
  moreover have "set rs \<subseteq> {x..<N}" "r \<in> {x..<N}" "sorted rs" "\<forall>t. count_list rs t \<le> 2"
    using assms by (auto simp: steps_left_def)
  ultimately show ?thesis using cnt low cover unfolding steps_left_def by auto
qed

definition upgraded :: "nat \<Rightarrow> string list list \<Rightarrow> string list \<Rightarrow> nat list \<Rightarrow> (int \<times> schema_item list \<times> SchemaDB) option \<Rightarrow> bool" where
  "upgraded N steps log rs res \<longleftrightarrow>
     (\<exists>q db n db'. res = Some (int N, q, db) \<and> mysql_turns n q db = ([], db') \<and> sd_value db' = Some (fmt_d (int N)) \<and>
        sd_log db' = log @ concat (map (\<lambda>r. steps ! r) rs))"

lemma upgrade_step:
  assumes "0 < r" "r < N" "N \<le> length steps"
  shows "db_upgrade_schema defSchema steps (int r) (int N) =
    Some (int r + 1, map Pattern (steps ! r) @ [CheckSetting (fmt_d (int r + 1))])"
  using assms by (simp add: db_upgrade_schema_def)

lemma version_fmt: "schema_version (Some (fmt_d i)) = i"
  by (simp add: schema_version_def atoi_fmt_d)

lemma list_all_patterns: "list_all plain (map Pattern ps)"
  by (induction ps) simp_all

lemma loop_upgrades:
  assumes "N \<le> length steps"
  shows "list_all plain q \<Longrightarrow> schema_version (sd_value (fst (run_items q db))) = int x \<Longrightarrow>
    0 < x \<Longrightarrow> x \<le> d \<Longrightarrow> d \<le> x + 1 \<Longrightarrow> d < N \<Longrightarrow>
    \<exists>rs. steps_left N x d rs \<and> upgraded N steps (sd_log (fst (run_items q db))) rs
      (db_check_loop defSchema steps (int N) sched k (q @ [CheckSetting (fmt_d (int d))]) db)"
proof (induction "2 * N - (x + d)" arbitrary: x d q db k rule: less_induct)
  case less
  let ?db = "fst (run_items q db)"
  let ?d = "fmt_d (int d)"
  from read_check [OF less.prems(1), of "sched k" ?d db] obtain r x' S db1 where
    rd: "read_setting (sched k) (q @ [CheckSetting ?d]) db = (sd_value db1, S, db1)" "schema_version (sd_value db1) = int r"
      "r = d \<and> x' = d \<and> S = [] \<or> r = x \<and> x' = d \<and> S = [StoreSetting ?d]"
      "list_all plain S" "schema_version (sd_value (fst (run_items S db1))) = int x'" "sd_log db1 = sd_log ?db"
      "sd_log (fst (run_items S db1)) = sd_log db1"
    using less.prems(2) version_fmt [of "int d"]
    by (elim insertE) (fastforce simp del: fmt_d_def)+
  have r: "0 < r" "r < N" using rd(3) less.prems by auto
  let ?new = "map Pattern (steps ! r)"
  have run: "fst (run_items (S @ ?new) db1) = (fst (run_items S db1))\<lparr>sd_log := sd_log ?db @ steps ! r\<rparr>"
    using rd(6,7) run_items_plain [OF rd(4), of db1] by (cases "run_items S db1") (simp add: run_items_append run_items_patterns)
  have pl: "list_all plain (S @ ?new)" using rd(4) list_all_patterns by simp
  show ?case
  proof (cases "r + 1 < N")
    case True
    have "\<exists>rs. steps_left N x' (r + 1) rs \<and> upgraded N steps (sd_log (fst (run_items (S @ ?new) db1))) rs
        (db_check_loop defSchema steps (int N) sched (k + 1) ((S @ ?new) @ [CheckSetting (fmt_d (int (r + 1)))]) db1)"
      using rd(3,5) run less.prems True by (intro less.hyps pl) auto
    then obtain rs where rs: "steps_left N x' (r + 1) rs" "upgraded N steps (sd_log ?db @ steps ! r) rs
        (db_check_loop defSchema steps (int N) sched (k + 1) ((S @ ?new) @ [CheckSetting (fmt_d (int (r + 1)))]) db1)"
      using run by auto
    have "db_check_loop defSchema steps (int N) sched k (q @ [CheckSetting ?d]) db =
        db_check_loop defSchema steps (int N) sched (k + 1) ((S @ ?new) @ [CheckSetting (fmt_d (int (r + 1)))]) db1"
      using rd(1,2) upgrade_step [OF r assms] r(2) True
      by (subst db_check_loop.simps) (simp add: Let_def add.commute)
    with rs steps_left_Cons [OF rs(1) less.prems(4-6)] rd(3) show ?thesis
      by (intro exI [of _ "r # rs"]) (auto simp: upgraded_def)
  next
    case False
    then have N: "N = r + 1" using r by simp
    have "db_check_loop defSchema steps (int N) sched k (q @ [CheckSetting ?d]) db =
        Some (int N, (S @ ?new) @ [CheckSetting (fmt_d (int N))], db1)"
      using rd(1,2) upgrade_step [OF r assms] r(2) N
      by (subst db_check_loop.simps) (simp add: Let_def add.commute)
    moreover have "steps_left N x d [r]" using N rd(3) less.prems by (auto simp: steps_left_def)
    moreover have "upgraded N steps (sd_log ?db) [r] (Some (int N, (S @ ?new) @ [CheckSetting (fmt_d (int N))], db1))"
      unfolding upgraded_def using turns_check [OF pl, of "fmt_d (int N)" db1] run
      by (intro exI conjI) (rule refl, assumption, simp_all)
    ultimately show ?thesis by (intro exI [of _ "[r]"]) simp
  qed
qed

lemma first_step:
  assumes "schema_version (sd_value db) = int c" "0 < c" "c < N" "N \<le> length steps"
  shows "\<exists>rs. steps_left N c c rs \<and> upgraded N steps (sd_log db) rs (db_check_schema (int N) defSchema steps sched db)"
proof (cases "c + 1 < N")
  case True
  let ?q = "map Pattern (steps ! c)"
  have "read_setting n [] db = (sd_value db, [], db)" for n by (cases n) (simp_all add: read_setting_def)
  then have "db_check_schema (int N) defSchema steps sched db =
      db_check_loop defSchema steps (int N) sched 1 (?q @ [CheckSetting (fmt_d (int (c + 1)))]) db"
    using assms upgrade_step [OF assms(2,3,4)] True unfolding db_check_schema_def
    by (subst db_check_loop.simps) (simp add: add.commute)
  moreover obtain rs where "steps_left N c (c + 1) rs" "upgraded N steps (sd_log (fst (run_items ?q db))) rs
      (db_check_loop defSchema steps (int N) sched 1 (?q @ [CheckSetting (fmt_d (int (c + 1)))]) db)"
    using loop_upgrades [OF assms(4) list_all_patterns, of "steps ! c" db c "c + 1" defSchema sched 1] assms True
    by (auto simp: run_items_patterns)
  ultimately show ?thesis using steps_left_Cons [of N c c rs c] assms
    by (intro exI [of _ "c # rs"]) (auto simp: upgraded_def run_items_patterns)
next
  case False
  then have N: "N = c + 1" using assms by simp
  have up: "db_upgrade_schema defSchema steps (int c) (int N) = Some (int N, map Pattern (steps ! c) @ [CheckSetting (fmt_d (int N))])"
    unfolding upgrade_step [OF assms(2-4)] by (simp add: N add.commute)
  have "read_setting n [] db = (sd_value db, [], db)" for n by (cases n) (simp_all add: read_setting_def)
  then have "db_check_schema (int N) defSchema steps sched db =
      Some (int N, map Pattern (steps ! c) @ [CheckSetting (fmt_d (int N))], db)"
    using assms(1,3) up unfolding db_check_schema_def by (subst db_check_loop.simps) simp
  moreover have "steps_left N c c [c]" using N by (auto simp: steps_left_def)
  moreover have "upgraded N steps (sd_log db) [c] (Some (int N, map Pattern (steps ! c) @ [CheckSetting (fmt_d (int N))], db))"
    unfolding upgraded_def using turns_check [OF list_all_patterns, of "steps ! c" "fmt_d (int N)" db]
    by (intro exI conjI) (rule refl, assumption, simp_all add: run_items_patterns)
  ultimately show ?thesis by (intro exI [of _ "[c]"]) simp
qed

text \<open>Claim C19. From every known schema version, whatever the MySQL thread has done by the time
  the version is read, the upgrade loop ends, has run every step that was missing in order,
  each once or twice, and leaves the current version to be stored.\<close>

theorem schema_upgrade_ends:
  assumes "schema_version (sd_value db) = int c" "0 < c" "c < N" "N \<le> length steps"
  shows "\<exists>q db' n db'' rs. db_check_schema (int N) defSchema steps sched db = Some (int N, q, db') \<and>
    mysql_turns n q db' = ([], db'') \<and> sd_value db'' = Some (fmt_d (int N)) \<and>
    sd_log db'' = sd_log db @ concat (map (\<lambda>r. steps ! r) rs) \<and> sorted rs \<and> set rs = {c..<N} \<and> (\<forall>r. count_list rs r \<le> 2)"
proof -
  from first_step [OF assms, of defSchema sched] obtain rs where
    rs: "steps_left N c c rs" "upgraded N steps (sd_log db) rs (db_check_schema (int N) defSchema steps sched db)" by blast
  from rs(1) have "sorted rs" "set rs = {c..<N}" "\<forall>r. count_list rs r \<le> 2" by (auto simp: steps_left_def)
  with rs(2) show ?thesis unfolding upgraded_def by blast
qed

lemma schema_upgrade_ends_witness:
  "\<exists>q db' n db'' rs. db_check_schema (int 11) defCoreSchema coreSchemaUpgrade (\<lambda>k. k) \<lparr>sd_value = Some ''8'', sd_log = []\<rparr> =
      Some (int 11, q, db') \<and>
    mysql_turns n q db' = ([], db'') \<and> sd_value db'' = Some (fmt_d (int 11)) \<and>
    sd_log db'' = sd_log \<lparr>sd_value = Some ''8'', sd_log = []\<rparr> @ concat (map (\<lambda>r. coreSchemaUpgrade ! r) rs) \<and>
    sorted rs \<and> set rs = {8..<11} \<and> (\<forall>r. count_list rs r \<le> 2)"
proof (rule schema_upgrade_ends)
  have "atoi ''8'' = 8" by code_simp
  then show "schema_version (sd_value \<lparr>sd_value = Some ''8'', sd_log = []\<rparr>) = int 8" by (simp add: schema_version_def)
  show "11 \<le> length coreSchemaUpgrade" by (simp add: coreSchemaUpgrade_def)
qed simp_all

text \<open>An upgrade step can be run twice: the new version is written behind the read that
  the loop makes next, so the loop may see the old version again.\<close>

theorem schema_step_repeated:
  "\<exists>q db db'. db_check_schema 3 [] [[], [''A''], [''B'']] (\<lambda>_. 0) \<lparr>sd_value = Some (fmt_d 1), sd_log = []\<rparr> = Some (3, q, db) \<and>
     mysql_turns 4 q db = ([], db') \<and> sd_value db' = Some (fmt_d 3) \<and> sd_log db' = [''A'', ''A'', ''B'']"
proof -
  let ?steps = "[[], [''A''], [''B'']]"
  have loop: "db_check_loop [] ?steps 3 (\<lambda>_. 0) k q db =
    (let (db, q) = run_items q db; ver = schema_version (sd_value db) in
      if ver < 3 then do {
        (ver, new) \<leftarrow> db_upgrade_schema [] ?steps ver 3;
        if ver < 3 then db_check_loop [] ?steps 3 (\<lambda>_. 0) (k + 1) (q @ new) db else Some (ver, q @ new, db)
      } else Some (ver, q, db))" for k q db
    by (subst db_check_loop.simps) (cases "run_items q db"; simp only: read_setting_def mysql_turns.simps Let_def prod.case)
  have "db_check_schema 3 [] ?steps (\<lambda>_. 0) \<lparr>sd_value = Some (fmt_d 1), sd_log = []\<rparr> =
    Some (3, [StoreSetting (fmt_d 2), Pattern ''B'', CheckSetting (fmt_d 3)], \<lparr>sd_value = Some (fmt_d 2), sd_log = [''A'', ''A'']\<rparr>)"
    unfolding db_check_schema_def
    apply (subst loop, simp add: version_fmt db_upgrade_schema_def)
    apply (subst loop, simp add: version_fmt db_upgrade_schema_def)
    apply (subst loop, simp add: version_fmt db_upgrade_schema_def)
    done
  then show ?thesis by (simp add: numeral_eq_Suc)
qed

end
