(* ===== verification/NamedTrees.thy ===== *)
theory NamedTrees
  imports Structs
begin

text \<open>
  Trees keyed by a name (\<open>BTREE_KEY_STRING\<close>), as the program uses them for commands,
  versions, plugins and menu entries: the key of an element is a string in the element,
  compared without regard to case.
\<close>

abbreviation by_name :: "('a \<Rightarrow> string) \<Rightarrow> 'a \<Rightarrow> BTreeKey" where
  "by_name f \<equiv> \<lambda>x. KString (f x)"

definition name_find :: "('a \<Rightarrow> string) \<Rightarrow> string \<Rightarrow> 'a tree \<Rightarrow> 'a option" where
  "name_find f s t = bt_find (cmp_of KeyCompareString) (by_name f) (KString s) t"

definition name_add :: "('a \<Rightarrow> string) \<Rightarrow> 'a \<Rightarrow> 'a tree \<Rightarrow> 'a tree" where
  "name_add f x t = bt_insert (cmp_of KeyCompareString) (by_name f) x t"

text \<open>Well-formed: ordered by name, with different names.\<close>

definition named :: "('a \<Rightarrow> string) \<Rightarrow> 'a tree \<Rightarrow> bool" where
  "named f t \<longleftrightarrow> bt_inv (cmp_of KeyCompareString) is_string (by_name f) t"

lemma same_name_refl [simp]: "same_name a a"
  by (simp add: same_name_def)

lemma same_name_sym: "same_name a b \<Longrightarrow> same_name b a"
  by (simp add: same_name_def)

lemma same_name_trans: "same_name a b \<Longrightarrow> same_name b c \<Longrightarrow> same_name a c"
  by (simp add: same_name_def)

lemma named_Leaf [simp]: "named f Leaf"
  by (simp add: named_def bt_inv_def)

lemma named_nul_free: "named f t \<Longrightarrow> x \<in> set_tree t \<Longrightarrow> nul_free (f x)"
  by (auto simp: named_def bt_inv_def bt_keys_ok_def)

lemma named_find:
  assumes "named f t" "nul_free s"
  shows "name_find f s t = Some x \<longleftrightarrow> x \<in> set_tree t \<and> same_name s (f x)"
  using string_tree.inv_find [of "by_name f" t "KString s" x] assms named_nul_free [OF assms(1)]
  by (auto simp: named_def name_find_def name_cmp strcasecmp_0_length same_name_def)

lemma named_find_None:
  assumes "named f t" "nul_free s"
  shows "name_find f s t = None \<longleftrightarrow> (\<forall>x \<in> set_tree t. \<not> same_name s (f x))"
  using named_find [OF assms] by (cases "name_find f s t") auto

lemma named_unique:
  "named f t \<Longrightarrow> x \<in> set_tree t \<Longrightarrow> y \<in> set_tree t \<Longrightarrow> same_name (f x) (f y) \<Longrightarrow> x = y"
  using named_find [of f t "f x"] named_nul_free by (metis option.inject same_name_refl)

lemma named_add:
  assumes "named f t" "nul_free (f x)" "\<forall>y \<in> set_tree t. \<not> same_name (f x) (f y)"
  shows "named f (name_add f x t) \<and> set_tree (name_add f x t) = insert x (set_tree t)"
proof -
  have "name_find f (f x) t = None" using named_find_None [OF assms(1,2)] assms(3) by simp
  with string_tree.inv_insert [of "by_name f" t x] assms show ?thesis
    by (simp add: named_def name_add_def name_find_def)
qed

lemma named_remove:
  assumes "named f t" shows "named f (bt_remove x t) \<and> set_tree (bt_remove x t) = set_tree t - {x}"
  using string_tree.inv_remove [of "by_name f" t x] assms by (simp add: named_def)

lemma named_rebalance [simp]: "named f (bt_rebalance t) = named f t"
  by (simp add: named_def bt_inv_def)

lemma named_distinct: "named f t \<Longrightarrow> distinct (inorder t)"
  using string_tree.bt_strict_distinct [of "by_name f" t] by (simp add: named_def bt_inv_def)

text \<open>Only the names count, and those only up to case.\<close>

lemma strcasecmp_cong: "same_name a a' \<Longrightarrow> same_name b b' \<Longrightarrow> strcasecmp a b = strcasecmp a' b'"
proof (induction a b arbitrary: a' b' rule: strcasecmp.induct)
  case (2 d ds)
  then show ?case by (cases a'; cases b') (auto simp: same_name_def)
next
  case (3 c cs)
  then show ?case by (cases a'; cases b') (auto simp: same_name_def)
next
  case (4 c cs d ds)
  then show ?case by (cases a'; cases b') (auto simp: same_name_def)
qed (simp add: same_name_def)

lemma same_name_nul_free: "same_name a b \<Longrightarrow> nul_free a \<Longrightarrow> nul_free b"
proof -
  have z: "tolower c = CHR 0x00 \<longleftrightarrow> c = CHR 0x00" for c
    using tolower_nonzero [of c] by (cases "c = CHR 0x00") (simp_all add: tolower_def)
  have "CHR 0x00 \<in> set s \<longleftrightarrow> CHR 0x00 \<in> set (map tolower s)" for s
    using z by (induction s) (auto simp: eq_commute)
  then show "same_name a b \<Longrightarrow> nul_free a \<Longrightarrow> nul_free b"
    unfolding same_name_def nul_free_def by metis
qed

lemma named_cong:
  assumes "\<And>x. x \<in> set_tree t \<Longrightarrow> same_name (f x) (g x)" "named f t" shows "named g t"
proof -
  have k: "\<forall>x \<in> set_tree t. is_string (KString (g x))"
    using assms named_nul_free [OF assms(2)] same_name_nul_free by (auto simp: nul_free_def)
  have "\<forall>x \<in> set_tree t. \<forall>y \<in> set_tree t. strcasecmp (g x) (g y) = strcasecmp (f x) (f y)"
    using strcasecmp_cong assms(1) same_name_sym by metis
  then have "bt_strict (cmp_of KeyCompareString) (by_name g) t \<longleftrightarrow> bt_strict (cmp_of KeyCompareString) (by_name f) t"
    by (induction t) auto
  with k assms(2) show ?thesis by (simp add: named_def bt_inv_def bt_keys_ok_def)
qed

end
