(* ===== verification/Versions.thy ===== *)
theory Versions
  imports NamedTrees
begin

text \<open>
  The register of library versions in \<open>bot/src/main.c\<close>: what was added how often, and the
  page that shows it. An entry is a value here; \<open>vItem->count++\<close> replaces the entry in
  its place of the tree.
\<close>

record Version_t =
  vr_what :: string
  vr_version :: string
  vr_count :: int

type_synonym version_tree = "Version_t tree"

definition in_place :: "'a \<Rightarrow> ('a \<Rightarrow> 'a) \<Rightarrow> 'a tree \<Rightarrow> 'a tree" where
  "in_place x f t = map_tree (\<lambda>y. if y = x then f y else y) t"

definition versionAdd :: "string \<Rightarrow> string \<Rightarrow> version_tree \<Rightarrow> version_tree" where
  "versionAdd what version t =
     (case name_find vr_what what t of
        Some v \<Rightarrow> in_place v (\<lambda>v. v\<lparr>vr_count := vr_count v + 1\<rparr>) t
      | None \<Rightarrow> bt_rebalance (name_add vr_what \<lparr>vr_what = what, vr_version = version, vr_count = 1\<rparr> t))"

definition versionRemove :: "string \<Rightarrow> version_tree \<Rightarrow> version_tree" where
  "versionRemove what t =
     (case name_find vr_what what t of
        None \<Rightarrow> t
      | Some v \<Rightarrow>
          let t = in_place v (\<lambda>v. v\<lparr>vr_count := vr_count v - 1\<rparr>) t; v = v\<lparr>vr_count := vr_count v - 1\<rparr> in
          if vr_count v = 0 then bt_rebalance (bt_remove v t) else t)"

text \<open>\<open>%-15s %s\<close> into a buffer of 256 bytes, one line for each entry.\<close>

definition version_line :: "Version_t \<Rightarrow> string" where
  "version_line v = snprintf 256 (vr_what v @ replicate (15 - length (vr_what v)) (CHR '' '') @ '' '' @ vr_version v)"

fun versionShowRecurse :: "version_tree \<Rightarrow> nat \<Rightarrow> (nat \<times> string) list \<times> nat" where
  "versionShowRecurse Leaf line = ([], line)"
| "versionShowRecurse (Node l v r) line =
     (let (before, line) = versionShowRecurse l line; (behind, line') = versionShowRecurse r (line + 1)
      in (before @ (line, version_line v) # behind, line'))"

definition mainVersions :: "version_tree \<Rightarrow> (nat \<times> string) list" where
  "mainVersions t = fst (versionShowRecurse t 0)"

section \<open>What the register holds\<close>

text \<open>How often something is registered; an entry is there only as long as it counts.\<close>

definition versions_ok :: "version_tree \<Rightarrow> bool" where
  "versions_ok t \<longleftrightarrow> named vr_what t \<and> (\<forall>v \<in> set_tree t. 0 < vr_count v)"

definition times :: "string \<Rightarrow> version_tree \<Rightarrow> int" where
  "times what t = (case name_find vr_what what t of None \<Rightarrow> 0 | Some v \<Rightarrow> vr_count v)"

lemma named_in_place:
  assumes "named n t" "n (f x) = n x"
  shows "named n (in_place x f t)" "set_tree (in_place x f t) = (\<lambda>y. if y = x then f y else y) ` set_tree t"
proof -
  have m: "named n (map_tree h t) = named (n \<circ> h) t" for h
    by (simp add: named_def bt_inv_def bt_keys_ok_def bt_strict_def inorder_map tree.set_map sorted_wrt_map)
  have "named (n \<circ> (\<lambda>y. if y = x then f y else y)) t"
    by (rule named_cong [OF _ assms(1)]) (simp add: assms(2))
  then show "named n (in_place x f t)" by (simp add: in_place_def m)
  show "set_tree (in_place x f t) = (\<lambda>y. if y = x then f y else y) ` set_tree t"
    by (simp add: in_place_def tree.set_map)
qed

lemma times_in:
  assumes "named vr_what t" "nul_free what" "v \<in> set_tree t" "same_name what (vr_what v)"
  shows "times what t = vr_count v"
  using named_find [OF assms(1,2), of v] assms(3,4) by (simp add: times_def)

lemma times_out:
  assumes "named vr_what t" "nul_free what" "\<forall>v \<in> set_tree t. \<not> same_name what (vr_what v)"
  shows "times what t = 0"
  using named_find_None [OF assms(1,2)] assms(3) by (simp add: times_def)

text \<open>Two registers that agree on the entries called \<open>what\<close> agree on their number.\<close>

lemma times_same:
  assumes "named vr_what t" "named vr_what u" "nul_free what"
    and "\<And>v. same_name what (vr_what v) \<Longrightarrow> v \<in> set_tree t \<longleftrightarrow> v \<in> set_tree u"
  shows "times what t = times what u"
proof (cases "\<exists>v \<in> set_tree t. same_name what (vr_what v)")
  case True
  then obtain v where v: "v \<in> set_tree t" "same_name what (vr_what v)" by blast
  with assms(4) have "v \<in> set_tree u" by blast
  with times_in [OF assms(1,3) v] times_in [OF assms(2,3) _ v(2)] show ?thesis by simp
next
  case False
  with times_out [OF assms(1,3)] times_out [OF assms(2,3)] assms(4) show ?thesis by auto
qed

lemma versions_ok_add:
  assumes "versions_ok t" "nul_free what"
  shows "versions_ok (versionAdd what version t) \<and>
    (\<forall>w. nul_free w \<longrightarrow> times w (versionAdd what version t) = times w t + (if same_name w what then 1 else 0))"
proof (cases "name_find vr_what what t")
  case None
  let ?v = "\<lparr>vr_what = what, vr_version = version, vr_count = 1\<rparr>"
  have n: "named vr_what t" "\<forall>v \<in> set_tree t. \<not> same_name what (vr_what v)"
    using assms None named_find_None [of vr_what t what] by (auto simp: versions_ok_def)
  from named_add [of vr_what t ?v] n assms(2)
  have a: "named vr_what (versionAdd what version t)" "set_tree (versionAdd what version t) = insert ?v (set_tree t)"
    by (simp_all add: versionAdd_def None)
  have "times w (versionAdd what version t) = times w t + (if same_name w what then 1 else 0)" if w: "nul_free w" for w
  proof (cases "same_name w what")
    case True
    then have "\<forall>v \<in> set_tree t. \<not> same_name w (vr_what v)" using n(2) same_name_sym same_name_trans by blast
    with times_out [OF n(1) w] times_in [OF a(1) w, of ?v] a(2) True show ?thesis by simp
  next
    case False
    then have "\<not> same_name w (vr_what ?v)" by simp
    then have "times w (versionAdd what version t) = times w t"
      by (intro times_same [OF a(1) n(1) w]) (use a(2) in auto)
    with False show ?thesis by simp
  qed
  with a assms(1) show ?thesis by (simp add: versions_ok_def)
next
  case (Some v)
  let ?f = "\<lambda>v. v\<lparr>vr_count := vr_count v + 1\<rparr>"
  have v: "named vr_what t" "v \<in> set_tree t" "same_name what (vr_what v)"
    using assms Some named_find [of vr_what t what v] by (auto simp: versions_ok_def)
  have a: "named vr_what (versionAdd what version t)"
    "set_tree (versionAdd what version t) = (\<lambda>y. if y = v then ?f y else y) ` set_tree t"
    using named_in_place [OF v(1), of ?f v] by (simp_all add: versionAdd_def Some)
  have "times w (versionAdd what version t) = times w t + (if same_name w what then 1 else 0)" if w: "nul_free w" for w
  proof (cases "same_name w what")
    case True
    then have "same_name w (vr_what v)" using v(3) same_name_trans by blast
    with times_in [OF v(1) w v(2)] times_in [OF a(1) w, of "?f v"] a(2) v(2) True show ?thesis by auto
  next
    case False
    then have "\<not> same_name w (vr_what v)" using v(3) same_name_sym same_name_trans by blast
    then have "times w (versionAdd what version t) = times w t"
      by (intro times_same [OF a(1) v(1) w]) (use a(2) v(2) in \<open>auto simp: image_iff\<close>)
    with False show ?thesis by simp
  qed
  with a assms(1) v(2) show ?thesis by (auto simp: versions_ok_def)
qed

lemma versions_ok_remove:
  assumes "versions_ok t" "nul_free what"
  shows "versions_ok (versionRemove what t) \<and>
    (\<forall>w. nul_free w \<longrightarrow> times w (versionRemove what t) = (if same_name w what then max 0 (times w t - 1) else times w t))"
proof (cases "name_find vr_what what t")
  case None
  have n: "named vr_what t" "\<forall>v \<in> set_tree t. \<not> same_name what (vr_what v)"
    using assms None named_find_None [of vr_what t what] by (auto simp: versions_ok_def)
  have "times w t = 0" if "nul_free w" "same_name w what" for w
    using times_out [OF n(1) that(1)] n(2) that(2) same_name_sym same_name_trans by blast
  with None assms(1) show ?thesis by (simp add: versionRemove_def)
next
  case (Some v)
  define dec :: "Version_t \<Rightarrow> Version_t" where "dec = (\<lambda>v. v\<lparr>vr_count := vr_count v - 1\<rparr>)"
  define u where "u = in_place v dec t"
  have v: "named vr_what t" "v \<in> set_tree t" "same_name what (vr_what v)" "0 < vr_count v"
    using assms Some named_find [of vr_what t what v] by (auto simp: versions_ok_def)
  have dv: "vr_what (dec v) = vr_what v" "vr_count (dec v) = vr_count v - 1" by (simp_all add: dec_def)
  have u: "named vr_what u" "set_tree u = (\<lambda>y. if y = v then dec y else y) ` set_tree t"
    unfolding u_def using named_in_place [OF v(1), of dec v] dv by simp_all
  have "versionRemove what t = (if vr_count (dec v) = 0 then bt_rebalance (bt_remove (dec v) u) else u)"
    unfolding versionRemove_def Some Let_def option.case dec_def u_def ..
  then have r: "named vr_what (versionRemove what t)"
    "set_tree (versionRemove what t) = (if vr_count v = 1 then set_tree u - {dec v} else set_tree u)"
    using u(1) named_remove [OF u(1), of "dec v"] dv(2) by simp_all
  have uniq: "y = v" if "y \<in> set_tree t" "same_name (vr_what y) (vr_what v)" for y
    using named_unique [OF v(1) that(1) v(2) that(2)] .
  have "times w (versionRemove what t) = (if same_name w what then max 0 (times w t - 1) else times w t)" if w: "nul_free w" for w
  proof (cases "same_name w what")
    case True
    then have sv: "same_name w (vr_what v)" using v(3) same_name_trans by blast
    have t: "times w t = vr_count v" using times_in [OF v(1) w v(2) sv] .
    show ?thesis
    proof (cases "vr_count v = 1")
      case one: True
      have "\<not> same_name w (vr_what y)" if "y \<in> set_tree (versionRemove what t)" for y
      proof
        assume "same_name w (vr_what y)"
        then have "same_name (vr_what y) (vr_what v)" using sv same_name_sym same_name_trans by blast
        moreover have "y \<in> set_tree t \<and> y \<noteq> v" using that one by (auto simp: r(2) u(2) split: if_splits)
        ultimately show False using uniq by blast
      qed
      with times_out [OF r(1) w] t one True show ?thesis by simp
    next
      case False
      then have "dec v \<in> set_tree (versionRemove what t)" using r(2) u(2) v(2) by auto
      with times_in [OF r(1) w, of "dec v"] sv t True v(4) dv show ?thesis by simp
    qed
  next
    case False
    then have n: "\<not> same_name w (vr_what v)" using v(3) same_name_sym same_name_trans by blast
    then have "times w (versionRemove what t) = times w t"
      by (intro times_same [OF r(1) v(1) w]) (use r(2) u(2) v(2) dv(1) in \<open>auto simp: image_iff\<close>)
    with False show ?thesis by simp
  qed
  moreover have "0 < vr_count y" if "y \<in> set_tree (versionRemove what t)" for y
    using that r(2) u(2) assms(1) v(4) dv(2) by (auto simp: versions_ok_def split: if_splits)
  ultimately show ?thesis using r(1) by (simp add: versions_ok_def)
qed

text \<open>The register of library versions counts how often each name, whatever its case,
  was added and not removed.\<close>

theorem versions_counted:
  assumes "versions_ok t" "nul_free what" "nul_free w"
  shows "times w (versionAdd what version t) = times w t + (if same_name w what then 1 else 0) \<and>
    times w (versionRemove what t) = (if same_name w what then max 0 (times w t - 1) else times w t) \<and>
    versions_ok (versionAdd what version t) \<and> versions_ok (versionRemove what t)"
  using versions_ok_add [OF assms(1,2), of version] versions_ok_remove [OF assms(1,2)] assms(3) by blast

lemma versions_counted_witness:
  "times ''PCRE'' (versionAdd ''pcre'' ''8.0'' Leaf) = times ''PCRE'' Leaf + (if same_name ''PCRE'' ''pcre'' then 1 else 0) \<and>
    times ''PCRE'' (versionRemove ''pcre'' Leaf) = (if same_name ''PCRE'' ''pcre'' then max 0 (times ''PCRE'' Leaf - 1) else times ''PCRE'' Leaf) \<and>
    versions_ok (versionAdd ''pcre'' ''8.0'' Leaf) \<and> versions_ok (versionRemove ''pcre'' Leaf)"
  by (rule versions_counted) (simp_all add: versions_ok_def nul_free_def)

end
