(* ===== verification/Threads.thy ===== *)
theory Threads
  imports NamedTrees
begin

text \<open>
  \<open>bot/src/thread_api.c\<close>: the register of running threads. An entry points to the
  \<open>pthread_t\<close> variable of its owner, which is also its key, so the key of an entry changes
  when the owner starts another thread through the same variable. \<open>thMem\<close> holds these
  variables. Functions are numbers.
\<close>

record ThreadCallback_t =
  sighupFunc :: "nat option"
  sighupArg :: ptr
  serverDisable :: "nat option"
  channelDisable :: "nat option"

record Thread_t =
  threadId :: addr
  thName :: string
  callbacks :: "ThreadCallback_t option"

datatype signal = SIGHUP | SIGUSR2 | SIGWINCH | SIGOTHER

datatype th_effect =
    Created "64 word" nat ptr
  | Joined "64 word"
  | Killed "64 word" signal
  | CallDisable nat addr

record threads =
  thMem :: "addr \<rightharpoonup> 64 word"
  thTree :: "Thread_t tree option"
  thOut :: "th_effect list"

definition thread_key :: "(addr \<rightharpoonup> 64 word) \<Rightarrow> Thread_t \<Rightarrow> BTreeKey" where
  "thread_key m th = KPthread (case m (threadId th) of Some i \<Rightarrow> i | None \<Rightarrow> 0)"

abbreviation pthread_cmp :: "BTreeKey \<Rightarrow> BTreeKey \<Rightarrow> int" where
  "pthread_cmp \<equiv> cmp_of KeyComparePthread"

definition say :: "th_effect list \<Rightarrow> threads \<Rightarrow> threads" where
  "say es s = s\<lparr>thOut := thOut s @ es\<rparr>"

text \<open>Searching and ordering read the variable of every entry.\<close>

definition readable :: "threads \<Rightarrow> Thread_t tree \<Rightarrow> bool" where
  "readable s t \<longleftrightarrow> (\<forall>th \<in> set_tree t. thMem s (threadId th) \<noteq> None)"

definition find_thread :: "64 word \<Rightarrow> threads \<Rightarrow> Thread_t option option" where
  "find_thread i s =
     (case thTree s of
        None \<Rightarrow> Some None
      | Some t \<Rightarrow> if readable s t then Some (bt_find pthread_cmp (thread_key (thMem s)) (KPthread i) t) else None)"

definition thread_register :: "addr \<Rightarrow> string \<Rightarrow> ThreadCallback_t option \<Rightarrow> threads \<Rightarrow> threads option" where
  "thread_register p nam cbs s =
     (let t = (case thTree s of None \<Rightarrow> Leaf | Some t \<Rightarrow> t); th = \<lparr>threadId = p, thName = nam, callbacks = cbs\<rparr> in
      if readable s t \<and> thMem s p \<noteq> None
      then Some (s\<lparr>thTree := Some (bt_rebalance (bt_insert pthread_cmp (thread_key (thMem s)) th t))\<rparr>)
      else None)"

text \<open>\<open>i\<close>: the id that \<open>pthread_create\<close> stores.\<close>

definition thread_create ::
    "64 word \<Rightarrow> addr \<Rightarrow> nat \<Rightarrow> ptr \<Rightarrow> string \<Rightarrow> ThreadCallback_t option \<Rightarrow> threads \<Rightarrow> threads option" where
  "thread_create i p routine arg nam cbs s =
     thread_register p nam cbs (say [Created i routine arg] (s\<lparr>thMem := (thMem s)(p \<mapsto> i)\<rparr>))"

definition thread_name :: "64 word \<Rightarrow> threads \<Rightarrow> string option option" where
  "thread_name i s = do { it \<leftarrow> find_thread i s; Some (map_option thName it) }"

definition thread_deregister :: "64 word \<Rightarrow> 64 word \<Rightarrow> threads \<Rightarrow> threads option" where
  "thread_deregister self i s = do {
     it \<leftarrow> find_thread i s;
     case it of
       None \<Rightarrow> Some s
     | Some th \<Rightarrow>
         let s = s\<lparr>thTree := map_option (\<lambda>t. bt_rebalance (bt_remove th t)) (thTree s)\<rparr> in
         Some (if self \<noteq> i then say [Joined i] s else s)
   }"

fun ThreadRecurseKill :: "64 word \<Rightarrow> Thread_t tree \<Rightarrow> signal \<Rightarrow> threads \<Rightarrow> threads option" where
  "ThreadRecurseKill main Leaf signum s = Some s"
| "ThreadRecurseKill main (Node l th r) signum s = do {
     s \<leftarrow> ThreadRecurseKill main l signum s;
     i \<leftarrow> thMem s (threadId th);
     let s = (if i \<noteq> main
              then (case signum of SIGUSR2 \<Rightarrow> say [Killed i signum] s | SIGHUP \<Rightarrow> say [Killed i signum] s
                    | SIGWINCH \<Rightarrow> say [Killed i signum] s | SIGOTHER \<Rightarrow> s)
              else s) in
     ThreadRecurseKill main r signum s
   }"

definition ThreadAllKill :: "64 word \<Rightarrow> signal \<Rightarrow> threads \<Rightarrow> threads option" where
  "ThreadAllKill main signum s = do { t \<leftarrow> thTree s; ThreadRecurseKill main t signum s }"

datatype th_handler = do_backtrace | cursesSigwinch | SigFunc nat

text \<open>
  The handler and what is stored through \<open>parg\<close>: \<open>None\<close> when nothing is stored, for an
  unknown thread or without \<open>parg\<close>.
\<close>

definition ThreadGetHandler ::
    "bool \<Rightarrow> 64 word \<Rightarrow> 64 word \<Rightarrow> signal \<Rightarrow> bool \<Rightarrow> threads \<Rightarrow> (th_handler option \<times> ptr option) option" where
  "ThreadGetHandler daemon cursesOut i signum parg s = do {
     it \<leftarrow> find_thread i s;
     case it of
       None \<Rightarrow> Some (None, None)
     | Some th \<Rightarrow>
         let none = (if parg then Some None else None) in
         Some (case signum of
           SIGUSR2 \<Rightarrow> (Some do_backtrace, none)
         | SIGHUP \<Rightarrow>
             (case callbacks th of
                None \<Rightarrow> (None, none)
              | Some cb \<Rightarrow> (map_option SigFunc (sighupFunc cb), if parg then Some (sighupArg cb) else None))
         | SIGWINCH \<Rightarrow> (if \<not> daemon \<and> i = cursesOut then Some cursesSigwinch else None, none)
         | SIGOTHER \<Rightarrow> (None, none))
   }"

fun ThreadRecurseNotifyServer :: "Thread_t tree \<Rightarrow> addr \<Rightarrow> threads \<Rightarrow> threads" where
  "ThreadRecurseNotifyServer Leaf server s = s"
| "ThreadRecurseNotifyServer (Node l th r) server s =
     (let s = ThreadRecurseNotifyServer l server s;
        s = (case callbacks th of
               None \<Rightarrow> s
             | Some cb \<Rightarrow> (case serverDisable cb of None \<Rightarrow> s | Some f \<Rightarrow> say [CallDisable f server] s))
      in ThreadRecurseNotifyServer r server s)"

definition ThreadAllNotifyServer :: "addr \<Rightarrow> threads \<Rightarrow> threads option" where
  "ThreadAllNotifyServer server s = do { t \<leftarrow> thTree s; Some (ThreadRecurseNotifyServer t server s) }"

fun ThreadRecurseNotifyChannel :: "Thread_t tree \<Rightarrow> addr \<Rightarrow> threads \<Rightarrow> threads" where
  "ThreadRecurseNotifyChannel Leaf channel s = s"
| "ThreadRecurseNotifyChannel (Node l th r) channel s =
     (let s = ThreadRecurseNotifyChannel l channel s;
        s = (case callbacks th of
               None \<Rightarrow> s
             | Some cb \<Rightarrow> (case channelDisable cb of None \<Rightarrow> s | Some f \<Rightarrow> say [CallDisable f channel] s))
      in ThreadRecurseNotifyChannel r channel s)"

definition ThreadAllNotifyChannel :: "addr \<Rightarrow> threads \<Rightarrow> threads option" where
  "ThreadAllNotifyChannel channel s = do { t \<leftarrow> thTree s; Some (ThreadRecurseNotifyChannel t channel s) }"

section \<open>What the register knows\<close>

definition threads_ok :: "threads \<Rightarrow> bool" where
  "threads_ok s \<longleftrightarrow> (case thTree s of None \<Rightarrow> True
     | Some t \<Rightarrow> readable s t \<and> bt_inv pthread_cmp user_pthread (thread_key (thMem s)) t)"

definition registered :: "threads \<Rightarrow> Thread_t set" where
  "registered s = (case thTree s of None \<Rightarrow> {} | Some t \<Rightarrow> set_tree t)"

lemma pthread_cmp_eq: "user_pthread (KPthread i) \<Longrightarrow> user_pthread (KPthread j) \<Longrightarrow> pthread_cmp (KPthread i) (KPthread j) = 0 \<longleftrightarrow> i = j"
  by (auto simp: cmp_of_def clamp1_def sint_diff_pthread word_uint_eq_iff split: if_splits)

lemma threads_find:
  assumes "threads_ok s" "user_pthread (KPthread i)"
  shows "\<exists>r. find_thread i s = Some r \<and> (\<forall>th. r = Some th \<longleftrightarrow> th \<in> registered s \<and> thMem s (threadId th) = Some i)"
proof (cases "thTree s")
  case None
  then show ?thesis by (simp add: find_thread_def registered_def)
next
  case (Some t)
  with assms(1) have t: "readable s t" "bt_inv pthread_cmp user_pthread (thread_key (thMem s)) t" by (auto simp: threads_ok_def)
  let ?r = "bt_find pthread_cmp (thread_key (thMem s)) (KPthread i) t"
  have "?r = Some th \<longleftrightarrow> th \<in> set_tree t \<and> thMem s (threadId th) = Some i" for th
  proof -
    have "th \<in> set_tree t \<Longrightarrow> pthread_cmp (KPthread i) (thread_key (thMem s) th) = 0 \<longleftrightarrow> thMem s (threadId th) = Some i"
      using t assms(2) pthread_cmp_eq [OF assms(2)]
      by (auto simp: readable_def thread_key_def bt_inv_def bt_keys_ok_def split: option.splits)
    then show ?thesis using pthread_tree.inv_find [OF t(2) assms(2), of th] by blast
  qed
  with Some t(1) show ?thesis by (simp add: find_thread_def registered_def)
qed

lemma threads_register:
  assumes "threads_ok s" "thMem s p = Some i" "user_pthread (KPthread i)"
    and "\<forall>th \<in> registered s. thMem s (threadId th) \<noteq> Some i"
  shows "\<exists>s'. thread_register p nam cbs s = Some s' \<and> threads_ok s' \<and> thMem s' = thMem s \<and> thOut s' = thOut s \<and>
    registered s' = insert \<lparr>threadId = p, thName = nam, callbacks = cbs\<rparr> (registered s)"
proof -
  let ?th = "\<lparr>threadId = p, thName = nam, callbacks = cbs\<rparr>"
  let ?t = "case thTree s of None \<Rightarrow> Leaf | Some t \<Rightarrow> t"
  let ?k = "thread_key (thMem s)"
  have t: "readable s ?t" "bt_inv pthread_cmp user_pthread ?k ?t" "registered s = set_tree ?t"
    using assms(1) by (auto simp: threads_ok_def registered_def readable_def bt_inv_def split: option.splits)
  have k: "?k ?th = KPthread i" by (simp add: thread_key_def assms(2))
  from threads_find [OF assms(1,3)] assms(4) have "find_thread i s = Some None" by (metis option.exhaust)
  then have none: "bt_find pthread_cmp ?k (?k ?th) ?t = None"
    by (cases "thTree s") (auto simp: find_thread_def k split: if_splits)
  from pthread_tree.inv_insert [OF t(2) _ none] assms(3)
  have "bt_inv pthread_cmp user_pthread ?k (bt_insert pthread_cmp ?k ?th ?t)"
    "set_tree (bt_insert pthread_cmp ?k ?th ?t) = insert ?th (set_tree ?t)" by (simp_all add: k)
  with t assms(2) show ?thesis
    by (simp add: thread_register_def threads_ok_def registered_def readable_def bt_inv_def Let_def)
qed

lemma threads_remove:
  assumes "threads_ok s" "user_pthread (KPthread i)" "th \<in> registered s" "thMem s (threadId th) = Some i"
  shows "\<exists>s'. thread_deregister self i s = Some s' \<and> threads_ok s' \<and> registered s' = registered s - {th} \<and>
    thMem s' = thMem s \<and> thOut s' = thOut s @ (if self \<noteq> i then [Joined i] else [])"
proof -
  from threads_find [OF assms(1,2)] obtain r where r: "find_thread i s = Some r"
    "\<forall>th. r = Some th \<longleftrightarrow> th \<in> registered s \<and> thMem s (threadId th) = Some i" by blast
  from r(2) assms(3,4) have "r = Some th" by blast
  with r(1) have f: "find_thread i s = Some (Some th)" by simp
  from assms(3) obtain t where t: "thTree s = Some t" by (cases "thTree s") (auto simp: registered_def)
  with assms(1) have "bt_inv pthread_cmp user_pthread (thread_key (thMem s)) t" "readable s t" by (auto simp: threads_ok_def)
  with pthread_tree.inv_remove [OF this(1), of th] f t show ?thesis
    by (auto simp: thread_deregister_def threads_ok_def registered_def readable_def bt_inv_def say_def)
qed

lemma pthread_create_ok:
  assumes "threads_ok s" "\<forall>th \<in> registered s. threadId th \<noteq> p"
  shows "threads_ok (s\<lparr>thMem := (thMem s)(p \<mapsto> i)\<rparr>)"
proof (cases "thTree s")
  case None
  then show ?thesis by (simp add: threads_ok_def)
next
  case (Some t)
  with assms(2) have n: "th \<in> set_tree t \<Longrightarrow> threadId th \<noteq> p" for th by (auto simp: registered_def)
  then have "th \<in> set_tree t \<Longrightarrow> thread_key ((thMem s)(p \<mapsto> i)) th = thread_key (thMem s) th" for th
    by (auto simp: thread_key_def)
  then have "bt_inv pthread_cmp user_pthread (thread_key ((thMem s)(p \<mapsto> i))) t = bt_inv pthread_cmp user_pthread (thread_key (thMem s)) t"
    by (induction t) (auto simp: bt_inv_def)
  with assms(1) Some n show ?thesis by (auto simp: threads_ok_def readable_def)
qed

text \<open>The calls of \<open>ThreadRecurseKill\<close>, in the order of the tree.\<close>

definition running_ids :: "threads \<Rightarrow> Thread_t tree \<Rightarrow> 64 word list" where
  "running_ids s t = map (\<lambda>th. the (thMem s (threadId th))) (inorder t)"

lemma ThreadRecurseKill_run:
  "readable s t \<Longrightarrow> ThreadRecurseKill main t signum s =
    Some (say (if signum = SIGOTHER then [] else map (\<lambda>i. Killed i signum) (filter (\<lambda>i. i \<noteq> main) (running_ids s t))) s)"
proof (induction t arbitrary: s)
  case Leaf
  then show ?case by (simp add: running_ids_def say_def)
next
  case (Node l th r)
  from Node.prems obtain i where i: "thMem s (threadId th) = Some i" by (auto simp: readable_def)
  have "readable (say es s) u = readable s u" "running_ids (say es s) u = running_ids s u" for es u
    by (simp_all add: readable_def running_ids_def say_def)
  moreover from Node.prems have "readable s l" "readable s r" by (simp_all add: readable_def)
  moreover have "thMem (say es s) = thMem s" "say fs (say es s) = say (es @ fs) s" for es fs by (simp_all add: say_def)
  ultimately show ?case using Node.IH i
    by (cases signum) (auto simp: running_ids_def)
qed

lemma running_ids_distinct:
  assumes "readable s t" "bt_inv pthread_cmp user_pthread (thread_key (thMem s)) t"
  shows "distinct (running_ids s t)"
proof -
  have d: "distinct (inorder t)" using assms(2) pthread_tree.bt_strict_distinct by (auto simp: bt_inv_def)
  have "inj_on (\<lambda>th. the (thMem s (threadId th))) (set_tree t)"
  proof (rule inj_onI)
    fix x y assume xy: "x \<in> set_tree t" "y \<in> set_tree t" "the (thMem s (threadId x)) = the (thMem s (threadId y))"
    then obtain i j where "thMem s (threadId x) = Some i" "thMem s (threadId y) = Some j"
      using assms(1) unfolding readable_def by blast
    with xy(3) have "thMem s (threadId x) = thMem s (threadId y)" by simp
    then have "thread_key (thMem s) x = thread_key (thMem s) y" by (simp add: thread_key_def)
    moreover have "user_pthread (thread_key (thMem s) x)" using assms(2) xy by (auto simp: bt_inv_def bt_keys_ok_def)
    ultimately have "pthread_cmp (thread_key (thMem s) x) (thread_key (thMem s) y) = 0" by (simp add: pthread_key.cmp_refl)
    then show "x = y" using pthread_tree.inv_unique [OF assms(2) xy(1,2)] by simp
  qed
  with d show ?thesis by (simp add: running_ids_def distinct_map)
qed

section \<open>Properties\<close>

text \<open>A created thread is found under its name, and after it is deregistered the
  register is as before: the thread was joined unless it deregisters itself.\<close>

theorem thread_lifecycle:
  assumes "threads_ok s" "user_pthread (KPthread i)" "\<forall>th \<in> registered s. threadId th \<noteq> p \<and> thMem s (threadId th) \<noteq> Some i"
  shows "\<exists>s1 s2. thread_create i p routine arg nam cbs s = Some s1 \<and> threads_ok s1 \<and> thread_name i s1 = Some (Some nam) \<and>
    thread_deregister self i s1 = Some s2 \<and> threads_ok s2 \<and> registered s2 = registered s \<and> thread_name i s2 = Some None \<and>
    thOut s2 = thOut s @ [Created i routine arg] @ (if self \<noteq> i then [Joined i] else [])"
proof -
  let ?s = "say [Created i routine arg] (s\<lparr>thMem := (thMem s)(p \<mapsto> i)\<rparr>)"
  let ?th = "\<lparr>threadId = p, thName = nam, callbacks = cbs\<rparr>"
  have same: "registered ?s = registered s" "thMem ?s = (thMem s)(p \<mapsto> i)" "thOut ?s = thOut s @ [Created i routine arg]"
    by (simp_all add: registered_def say_def)
  have ok: "threads_ok ?s"
    using pthread_create_ok [OF assms(1), of p i] assms(3) by (cases "thTree s") (simp_all add: threads_ok_def say_def readable_def)
  have new: "\<forall>th \<in> registered ?s. thMem ?s (threadId th) \<noteq> Some i" using assms(3) same by auto
  from threads_register [OF ok _ assms(2) new, of p nam cbs] same obtain s1 where
    s1: "thread_create i p routine arg nam cbs s = Some s1" "threads_ok s1" "thMem s1 = thMem ?s"
      "thOut s1 = thOut ?s" "registered s1 = insert ?th (registered s)"
    by (auto simp: thread_create_def)
  have th: "?th \<in> registered s1" "thMem s1 (threadId ?th) = Some i" using s1 same by auto
  from threads_find [OF s1(2) assms(2)] obtain r where r: "find_thread i s1 = Some r"
    "\<forall>th. r = Some th \<longleftrightarrow> th \<in> registered s1 \<and> thMem s1 (threadId th) = Some i" by blast
  from r(2) th have "r = Some ?th" by blast
  with r(1) have "thread_name i s1 = Some (Some nam)" by (simp add: thread_name_def)
  moreover from threads_remove [OF s1(2) assms(2) th, of self] obtain s2 where
    s2: "thread_deregister self i s1 = Some s2" "threads_ok s2" "registered s2 = registered s1 - {?th}"
      "thMem s2 = thMem s1" "thOut s2 = thOut s1 @ (if self \<noteq> i then [Joined i] else [])" by blast
  moreover have reg: "registered s2 = registered s" using s2(3) s1(5) assms(3) by auto
  moreover have "thread_name i s2 = Some None"
  proof -
    from threads_find [OF s2(2) assms(2)] obtain r where
      r: "find_thread i s2 = Some r" "\<forall>th. r = Some th \<longleftrightarrow> th \<in> registered s2 \<and> thMem s2 (threadId th) = Some i" by blast
    have "\<forall>th \<in> registered s2. thMem s2 (threadId th) \<noteq> Some i"
      using reg s2(4) s1(3) same assms(3) by simp
    with r(2) have "r = None" by (cases r) blast+
    with r(1) show ?thesis by (simp add: thread_name_def)
  qed
  ultimately show ?thesis using s1 same by auto
qed

definition no_threads :: threads where
  "no_threads = \<lparr>thMem = (\<lambda>_. None), thTree = None, thOut = []\<rparr>"

lemma thread_lifecycle_witness:
  "\<exists>s1 s2. thread_create 77 5 3 None ''thread_x'' None no_threads = Some s1 \<and> threads_ok s1 \<and> thread_name 77 s1 = Some (Some ''thread_x'') \<and>
    thread_deregister 78 77 s1 = Some s2 \<and> threads_ok s2 \<and> registered s2 = registered no_threads \<and> thread_name 77 s2 = Some None \<and>
    thOut s2 = thOut no_threads @ [Created 77 3 None] @ (if (78 :: 64 word) \<noteq> 77 then [Joined 77] else [])"
  by (rule thread_lifecycle) (simp_all add: no_threads_def threads_ok_def registered_def)

text \<open>A signal sent to all threads is sent to every registered thread but the main one
  exactly once; an unknown signal to none.\<close>

theorem signal_reaches_threads:
  assumes "threads_ok s" "thTree s \<noteq> None"
  shows "\<exists>is. ThreadAllKill main signum s = Some (say (if signum = SIGOTHER then [] else map (\<lambda>i. Killed i signum) is) s) \<and>
    distinct is \<and> set is = {i. i \<noteq> main \<and> (\<exists>th \<in> registered s. thMem s (threadId th) = Some i)}"
proof -
  from assms obtain t where t: "thTree s = Some t" "readable s t"
    "bt_inv pthread_cmp user_pthread (thread_key (thMem s)) t" by (auto simp: threads_ok_def)
  let ?is = "filter (\<lambda>i. i \<noteq> main) (running_ids s t)"
  have "set ?is = {i. i \<noteq> main \<and> (\<exists>th \<in> registered s. thMem s (threadId th) = Some i)}"
  proof -
    have "i \<in> set (running_ids s t) \<longleftrightarrow> (\<exists>th \<in> set_tree t. thMem s (threadId th) = Some i)" for i
    proof -
      have "th \<in> set_tree t \<Longrightarrow> i = the (thMem s (threadId th)) \<longleftrightarrow> thMem s (threadId th) = Some i" for th
        using t(2) by (cases "thMem s (threadId th)") (auto simp: readable_def)
      then show ?thesis by (auto simp: running_ids_def image_iff)
    qed
    then show ?thesis using t(1) by (auto simp: registered_def)
  qed
  moreover have "distinct ?is" using running_ids_distinct [OF t(2,3)] by simp
  ultimately show ?thesis using ThreadRecurseKill_run [OF t(2), of main signum] t(1)
    by (intro exI [of _ ?is]) (simp add: ThreadAllKill_def)
qed

lemma signal_reaches_threads_witness:
  "\<exists>is. ThreadAllKill 5 SIGHUP (no_threads\<lparr>thTree := Some Leaf\<rparr>) =
      Some (say (if SIGHUP = SIGOTHER then [] else map (\<lambda>i. Killed i SIGHUP) is) (no_threads\<lparr>thTree := Some Leaf\<rparr>)) \<and>
    distinct is \<and> set is = {i. i \<noteq> 5 \<and> (\<exists>th \<in> registered (no_threads\<lparr>thTree := Some Leaf\<rparr>).
      thMem (no_threads\<lparr>thTree := Some Leaf\<rparr>) (threadId th) = Some i)}"
  by (rule signal_reaches_threads) (simp_all add: no_threads_def threads_ok_def readable_def bt_inv_def)

end
