(* ===== verification/Plugins.thy ===== *)
theory Plugins
  imports NamedTrees BotCmds DbThread
begin

text \<open>
  \<open>bot/src/plugin_api.c\<close>: the register of plugins, keyed by name, with loading and
  unloading through the dynamic linker, and the \<open>plugin\<close> command. The linker is a
  parameter; what a plugin does when it is initialised or shut down is an effect.
\<close>

record Plugin_t =
  pl_name :: string
  pl_libName :: string
  pl_preload :: int
  pl_loaded :: bool
  pl_newPlugin :: bool
  pl_visited :: bool
  pl_args :: string
  pl_handle :: ptr
  pl_init :: ptr
  pl_shutdown :: ptr

text \<open>
  \<open>dlopen\<close> of a path; \<open>dlsym\<close> of a name, \<open>None\<close> when \<open>dlerror\<close> reports an error;
  whether \<open>dlclose\<close> succeeds. A successful \<open>dlsym\<close> may still give \<open>NULL\<close>.
\<close>

record linker =
  dlopen :: "string \<Rightarrow> ptr"
  dlsym :: "addr \<Rightarrow> string \<Rightarrow> ptr option"
  dlclose :: "addr \<Rightarrow> bool"

datatype pg_effect =
    PgInit addr string
  | PgShutdown addr
  | PgClosed addr
  | PgMenuAdd string addr
  | PgMenuRemove string
  | PgDb db_action
  | PgTx TxType_t string "string option"

record plugins =
  pgHeap :: "addr \<rightharpoonup> Plugin_t"
  pgTree :: "addr tree option"
  pgOut :: "pg_effect list"

definition pg_emit :: "pg_effect list \<Rightarrow> plugins \<Rightarrow> plugins" where
  "pg_emit es s = s\<lparr>pgOut := pgOut s @ es\<rparr>"

definition upd_pl :: "addr \<Rightarrow> (Plugin_t \<Rightarrow> Plugin_t) \<Rightarrow> plugins \<Rightarrow> plugins option" where
  "upd_pl a f s = do { p \<leftarrow> pgHeap s a; Some (s\<lparr>pgHeap := (pgHeap s)(a \<mapsto> f p)\<rparr>) }"

definition plname :: "plugins \<Rightarrow> addr \<Rightarrow> string" where
  "plname s a = (case pgHeap s a of Some p \<Rightarrow> pl_name p | None \<Rightarrow> [])"

definition find_plugin :: "string \<Rightarrow> plugins \<Rightarrow> ptr option" where
  "find_plugin nam s =
     (case pgTree s of
        None \<Rightarrow> Some None
      | Some t \<Rightarrow> if alive (pgHeap s) t then Some (name_find (plname s) nam t) else None)"

section \<open>Loading and unloading\<close>

text \<open>\<open>path\<close>: the build's \<open>PLUGIN_PATH\<close>. Calling a \<open>NULL\<close> function faults.\<close>

definition pluginLoadItem :: "string \<Rightarrow> linker \<Rightarrow> addr \<Rightarrow> plugins \<Rightarrow> plugins option" where
  "pluginLoadItem path dl a s = do {
     p \<leftarrow> pgHeap s a;
     let h = dlopen dl (path @ ''/'' @ pl_libName p) in do {
     s \<leftarrow> upd_pl a (\<lambda>p. p\<lparr>pl_handle := h\<rparr>) s;
     case h of
       None \<Rightarrow> Some s
     | Some h \<Rightarrow>
         (case dlsym dl h ''plugin_initialize'' of
            None \<Rightarrow> upd_pl a (\<lambda>p. p\<lparr>pl_init := None\<rparr>) s
          | Some i \<Rightarrow> do {
              s \<leftarrow> upd_pl a (\<lambda>p. p\<lparr>pl_init := i\<rparr>) s;
              case dlsym dl h ''plugin_shutdown'' of
                None \<Rightarrow> upd_pl a (\<lambda>p. p\<lparr>pl_shutdown := None\<rparr>) s
              | Some d \<Rightarrow> do {
                  s \<leftarrow> upd_pl a (\<lambda>p. p\<lparr>pl_shutdown := d\<rparr>) s;
                  f \<leftarrow> i;
                  upd_pl a (\<lambda>p. p\<lparr>pl_loaded := True\<rparr>) (pg_emit [PgInit f (pl_args p)] s)
                }
            })
     }
   }"

definition pluginUnloadItem :: "linker \<Rightarrow> ptr \<Rightarrow> plugins \<Rightarrow> plugins option" where
  "pluginUnloadItem dl plugin s =
     (case plugin of
        None \<Rightarrow> Some s
      | Some a \<Rightarrow> do {
          p \<leftarrow> pgHeap s a;
          f \<leftarrow> pl_shutdown p;
          h \<leftarrow> pl_handle p;
          upd_pl a (\<lambda>p. p\<lparr>pl_handle := None, pl_loaded := (if dlclose dl h then False else pl_loaded p)\<rparr>)
            (pg_emit [PgShutdown f, PgClosed h] s)
        })"

definition pluginLoad :: "string \<Rightarrow> linker \<Rightarrow> string option \<Rightarrow> plugins \<Rightarrow> (bool \<times> plugins) option" where
  "pluginLoad path dl nam s =
     (case nam of
        None \<Rightarrow> Some (False, s)
      | Some n \<Rightarrow> do {
          it \<leftarrow> find_plugin n s;
          case it of
            None \<Rightarrow> Some (False, s)
          | Some a \<Rightarrow> do {
              p \<leftarrow> pgHeap s a;
              if pl_loaded p then Some (False, s)
              else do { s \<leftarrow> pluginLoadItem path dl a s; Some (True, s) }
            }
        })"

definition pluginUnload :: "linker \<Rightarrow> string option \<Rightarrow> plugins \<Rightarrow> (bool \<times> plugins) option" where
  "pluginUnload dl nam s =
     (case nam of
        None \<Rightarrow> Some (False, s)
      | Some n \<Rightarrow> do {
          it \<leftarrow> find_plugin n s;
          case it of
            None \<Rightarrow> Some (False, s)
          | Some a \<Rightarrow> do {
              p \<leftarrow> pgHeap s a;
              if \<not> pl_loaded p then Some (False, s)
              else do { s \<leftarrow> pluginUnloadItem dl (Some a) s; Some (True, s) }
            }
        })"

section \<open>The whole tree\<close>

fun pluginInitializeTree :: "string \<Rightarrow> linker \<Rightarrow> addr tree \<Rightarrow> plugins \<Rightarrow> plugins option" where
  "pluginInitializeTree path dl Leaf s = Some s"
| "pluginInitializeTree path dl (Node l a r) s = do {
     s \<leftarrow> pluginInitializeTree path dl l s;
     p \<leftarrow> pgHeap s a;
     s \<leftarrow> (if pl_newPlugin p then do {
             s \<leftarrow> (if pl_preload p \<noteq> 0 then pluginLoadItem path dl a s else Some s);
             upd_pl a (\<lambda>p. p\<lparr>pl_newPlugin := False\<rparr>) s
           } else Some s);
     pluginInitializeTree path dl r s
   }"

fun pluginUnvisitTree :: "addr tree \<Rightarrow> plugins \<Rightarrow> plugins option" where
  "pluginUnvisitTree Leaf s = Some s"
| "pluginUnvisitTree (Node l a r) s = do {
     s \<leftarrow> pluginUnvisitTree l s;
     s \<leftarrow> upd_pl a (\<lambda>p. p\<lparr>pl_visited := False\<rparr>) s;
     pluginUnvisitTree r s
   }"

text \<open>The walk stops at the first plugin that is gone, as the tree has changed then.\<close>

fun pluginFlushUnvisited :: "linker \<Rightarrow> addr tree \<Rightarrow> plugins \<Rightarrow> (bool \<times> plugins) option" where
  "pluginFlushUnvisited dl Leaf s = Some (False, s)"
| "pluginFlushUnvisited dl (Node l a r) s = do {
     (b, s) \<leftarrow> pluginFlushUnvisited dl l s;
     if b then Some (True, s)
     else do {
       p \<leftarrow> pgHeap s a;
       if \<not> pl_visited p then do {
         let s = s\<lparr>pgTree := map_option (bt_remove a) (pgTree s)\<rparr> in do {
         s \<leftarrow> (if pl_loaded p then pluginUnloadItem dl (Some a) s else Some s);
         let s = pg_emit [PgMenuRemove (pl_name p)] s in
         Some (True, s\<lparr>pgHeap := (pgHeap s)(a := None)\<rparr>) }
       } else pluginFlushUnvisited dl r s
     }
   }"

partial_function (option) plugin_flush_loop :: "linker \<Rightarrow> plugins \<Rightarrow> plugins option" where
  "plugin_flush_loop dl s = do {
     t \<leftarrow> pgTree s;
     (b, s) \<leftarrow> pluginFlushUnvisited dl t s;
     if b then plugin_flush_loop dl s else Some s
   }"

declare plugin_flush_loop.simps [code]

fun pluginUnloadTree :: "linker \<Rightarrow> addr tree \<Rightarrow> plugins \<Rightarrow> plugins option" where
  "pluginUnloadTree dl Leaf s = Some s"
| "pluginUnloadTree dl (Node l a r) s = do {
     s \<leftarrow> pluginUnloadTree dl l s;
     p \<leftarrow> pgHeap s a;
     s \<leftarrow> (if pl_loaded p then pluginUnloadItem dl (Some a) s else Some s);
     pluginUnloadTree dl r s
   }"

definition pluginUnloadAll :: "linker \<Rightarrow> plugins \<Rightarrow> plugins option" where
  "pluginUnloadAll dl s = (case pgTree s of None \<Rightarrow> Some s | Some t \<Rightarrow> pluginUnloadTree dl t s)"

section \<open>What the database knows\<close>

text \<open>\<open>result_get_plugins\<close>; \<open>mem\<close>: what \<open>malloc\<close> gives for a new plugin.\<close>

definition load_plugin_row :: "ptr \<Rightarrow> db_row \<Rightarrow> plugins \<Rightarrow> plugins option" where
  "load_plugin_row mem row s = do {
     nam \<leftarrow> col row 0;
     it \<leftarrow> find_plugin nam s;
     let fill = (\<lambda>a s. do {
       lib \<leftarrow> col row 1;
       pre \<leftarrow> col_int row 2;
       args \<leftarrow> col row 3;
       upd_pl a (\<lambda>p. p\<lparr>pl_name := nam, pl_libName := lib, pl_preload := pre, pl_args := args, pl_visited := True\<rparr>)
         (pg_emit [PgMenuAdd nam a] s) }) in
     case it of
       Some a \<Rightarrow> do { p \<leftarrow> pgHeap s a; fill a (pg_emit [PgMenuRemove (pl_name p)] s) }
     | None \<Rightarrow>
         (case mem of
            None \<Rightarrow> Some s
          | Some a \<Rightarrow> do {
              s \<leftarrow> fill a (s\<lparr>pgHeap := (pgHeap s)(a \<mapsto> \<lparr>pl_name = [], pl_libName = [], pl_preload = 0, pl_loaded = False,
                pl_newPlugin = True, pl_visited = False, pl_args = [], pl_handle = None, pl_init = None, pl_shutdown = None\<rparr>)\<rparr>);
              Some (s\<lparr>pgTree := map_option (name_add (plname s) a) (pgTree s)\<rparr>)
            })
   }"

definition result_get_plugins :: "(ptr \<times> db_row) list \<Rightarrow> plugins \<Rightarrow> plugins option" where
  "result_get_plugins rows s =
     (if rows = [] then Some s
      else do {
        s \<leftarrow> foldM (\<lambda>(mem, row). load_plugin_row mem row) rows s;
        Some (s\<lparr>pgTree := map_option bt_rebalance (pgTree s)\<rparr>)
      })"

definition db_get_plugins :: "(ptr \<times> db_row) list \<Rightarrow> plugins \<Rightarrow> plugins option" where
  "db_get_plugins rows s =
     (if pgTree s = None then Some s else result_get_plugins rows (pg_emit [PgDb (Queue get_plugins_query)] s))"

definition plugins_sighup :: "string \<Rightarrow> linker \<Rightarrow> (ptr \<times> db_row) list \<Rightarrow> plugins \<Rightarrow> plugins option" where
  "plugins_sighup path dl rows s = do {
     t \<leftarrow> pgTree s;
     s \<leftarrow> pluginUnvisitTree t s;
     s \<leftarrow> db_get_plugins rows s;
     t \<leftarrow> pgTree s;
     s \<leftarrow> pluginInitializeTree path dl t s;
     s \<leftarrow> plugin_flush_loop dl s;
     Some (s\<lparr>pgTree := map_option bt_rebalance (pgTree s)\<rparr>)
   }"

section \<open>Looking for plugin files\<close>

record PluginSpec_t =
  spec_prefix :: "string option"
  spec_extension :: string

definition same_start :: "string \<Rightarrow> string \<Rightarrow> bool" where
  "same_start a b \<longleftrightarrow> (\<forall>i < length b. tolower (a ! i) = tolower (b ! i))"

definition filterFile :: "PluginSpec_t option \<Rightarrow> string \<Rightarrow> bool" where
  "filterFile spec nam =
     (case spec of
        None \<Rightarrow> False
      | Some sp \<Rightarrow>
          (case spec_prefix sp of None \<Rightarrow> True | Some p \<Rightarrow> length nam > length p \<and> same_start nam p) \<and>
          length nam > length (spec_extension sp) \<and>
          same_start (drop (length nam - length (spec_extension sp)) nam) (spec_extension sp))"

text \<open>\<open>strndup(s, n)\<close> with \<open>n\<close> converted to \<open>size_t\<close>: a negative one takes all.\<close>

definition strndup :: "string \<Rightarrow> int \<Rightarrow> string" where
  "strndup s n = (if n < 0 then s else take (nat n) s)"

text \<open>
  The plugin and file name of each match. \<open>files\<close>: the names in the plugin directory, in
  the order of \<open>alphasort\<close>; \<open>None\<close> when it cannot be read.
\<close>

definition pluginFindPlugins :: "string option \<Rightarrow> string \<Rightarrow> string list option \<Rightarrow> (string \<times> string) list" where
  "pluginFindPlugins pre ext files =
     (let p = (case pre of None \<Rightarrow> 0 | Some p \<Rightarrow> length p) in
      case files of
        None \<Rightarrow> []
      | Some fs \<Rightarrow> map (\<lambda>n. (strndup (drop p n) (int (length n) - int p - int (length ext)), n))
          (filter (filterFile (Some \<lparr>spec_prefix = pre, spec_extension = ext\<rparr>)) fs))"

text \<open>\<open>known\<close>: which plugins the database has; \<open>mem\<close> is as for the rows.\<close>

definition plugins_initialize ::
    "string \<Rightarrow> linker \<Rightarrow> (string \<Rightarrow> bool) \<Rightarrow> string list option \<Rightarrow> (ptr \<times> db_row) list \<Rightarrow> plugins \<Rightarrow> plugins option" where
  "plugins_initialize path dl known files rows s = do {
     let s = s\<lparr>pgTree := Some Leaf\<rparr>;
         s = pg_emit (map PgDb (db_check_plugins known (pluginFindPlugins (Some ''plugin_'') ''.so'' files))) s in do {
     s \<leftarrow> db_get_plugins rows s;
     t \<leftarrow> pgTree s;
     pluginInitializeTree path dl t s }
   }"

section \<open>The plugin command\<close>

text \<open>Command and argument; \<open>strstr\<close> of a missing message faults.\<close>

definition plugin_words :: "string \<Rightarrow> string \<times> string option" where
  "plugin_words msg =
     (case strchr (CHR '' '') msg of
        None \<Rightarrow> (msg, None)
      | Some n \<Rightarrow>
          let line = strip_trailing (drop (n + 1) msg) in (take n msg, if line = [] then None else Some line))"

definition botCmdPlugin ::
    "string \<Rightarrow> linker \<Rightarrow> bool \<Rightarrow> ptr \<Rightarrow> ptr \<Rightarrow> string \<Rightarrow> string option \<Rightarrow> plugins \<Rightarrow> plugins option" where
  "botCmdPlugin path dl auth server channel who msg s =
     (if server = None \<or> channel \<noteq> None then Some s
      else if \<not> auth then Some (pg_emit [PgTx TX_PRIVMSG who (Some ''You are not authorized, you can't do that!'')] s)
      else do {
        msg \<leftarrow> msg;
        let (command, line) = plugin_words msg in
        if command = ''list'' then do {
          t \<leftarrow> pgTree s;
          if alive (pgHeap s) t then do {
            m \<leftarrow> botCmdDepthFirst (plname s) (\<lambda>a. case pgHeap s a of Some p \<Rightarrow> pl_loaded p | None \<Rightarrow> False) (line \<noteq> Some ''all'') t;
            Some (pg_emit [PgTx TX_MESSAGE who m] s)
          } else None
        } else if command = ''load'' \<and> line \<noteq> None then do {
          (ret, s) \<leftarrow> pluginLoad path dl line s;
          Some (pg_emit [PgTx TX_MESSAGE who (Some (if ret then ''Loaded module '' @ the line
            else ''Module '' @ the line @ '' already loaded''))] s)
        } else if command = ''unload'' \<and> line \<noteq> None then do {
          (ret, s) \<leftarrow> pluginUnload dl line s;
          Some (pg_emit [PgTx TX_MESSAGE who (Some (if ret then ''Unloaded module '' @ the line
            else ''Module '' @ the line @ '' already unloaded''))] s)
        } else Some s
      })"

text \<open>The save button (\<open>index == -1\<close>) of the plugin's form.\<close>

definition pluginSaveFunc :: "string \<Rightarrow> linker \<Rightarrow> addr \<Rightarrow> plugins \<Rightarrow> plugins option" where
  "pluginSaveFunc path dl a s = do {
     p \<leftarrow> pgHeap s a;
     if pl_preload p \<noteq> 0 \<and> \<not> pl_loaded p then pluginLoadItem path dl a s
     else if pl_preload p = 0 \<and> pl_loaded p then pluginUnloadItem dl (Some a) s
     else Some s
   }"

section \<open>What the operations do to a well-formed register\<close>

text \<open>A symbol that the linker finds is a function, not \<open>NULL\<close>.\<close>

definition sane :: "linker \<Rightarrow> bool" where
  "sane dl \<longleftrightarrow> (\<forall>h nam. dlsym dl h nam \<noteq> Some None)"

definition pl_ok :: "Plugin_t \<Rightarrow> bool" where
  "pl_ok p \<longleftrightarrow> (pl_loaded p \<longrightarrow> pl_handle p \<noteq> None \<and> pl_shutdown p \<noteq> None \<and> \<not> pl_newPlugin p)"

definition plugins_ok :: "plugins \<Rightarrow> bool" where
  "plugins_ok s \<longleftrightarrow> (\<exists>t. pgTree s = Some t \<and> named (plname s) t \<and> (\<forall>a \<in> set_tree t. \<exists>p. pgHeap s a = Some p \<and> pl_ok p))"

definition load_result :: "string \<Rightarrow> linker \<Rightarrow> Plugin_t \<Rightarrow> Plugin_t" where
  "load_result path dl p =
     (let h = dlopen dl (path @ ''/'' @ pl_libName p); p = p\<lparr>pl_handle := h\<rparr> in
      case h of
        None \<Rightarrow> p
      | Some h \<Rightarrow>
          (case dlsym dl h ''plugin_initialize'' of
             None \<Rightarrow> p\<lparr>pl_init := None\<rparr>
           | Some i \<Rightarrow>
               (case dlsym dl h ''plugin_shutdown'' of
                  None \<Rightarrow> p\<lparr>pl_init := i, pl_shutdown := None\<rparr>
                | Some d \<Rightarrow> p\<lparr>pl_init := i, pl_shutdown := d, pl_loaded := True\<rparr>)))"

lemma load_result_fields [simp]:
  "pl_name (load_result path dl p) = pl_name p" "pl_libName (load_result path dl p) = pl_libName p"
  "pl_preload (load_result path dl p) = pl_preload p" "pl_args (load_result path dl p) = pl_args p"
  "pl_visited (load_result path dl p) = pl_visited p" "pl_newPlugin (load_result path dl p) = pl_newPlugin p"
  by (simp_all add: load_result_def Let_def split: option.splits)

lemma load_result_ok: "sane dl \<Longrightarrow> \<not> pl_loaded p \<Longrightarrow> pl_ok ((load_result path dl p)\<lparr>pl_newPlugin := False\<rparr>)"
  by (auto simp: load_result_def pl_ok_def sane_def Let_def split: option.splits) (metis option.exhaust)+

definition load_effects :: "string \<Rightarrow> linker \<Rightarrow> Plugin_t \<Rightarrow> pg_effect list" where
  "load_effects path dl p =
     (case dlopen dl (path @ ''/'' @ pl_libName p) of
        None \<Rightarrow> []
      | Some h \<Rightarrow>
          (case (dlsym dl h ''plugin_initialize'', dlsym dl h ''plugin_shutdown'') of
             (Some (Some f), Some d) \<Rightarrow> [PgInit f (pl_args p)]
           | _ \<Rightarrow> []))"

lemma pluginLoadItem_run:
  assumes "sane dl" "pgHeap s a = Some p"
  shows "pluginLoadItem path dl a s =
    Some (pg_emit (load_effects path dl p) (s\<lparr>pgHeap := (pgHeap s)(a \<mapsto> load_result path dl p)\<rparr>))"
proof (cases "dlopen dl (path @ ''/'' @ pl_libName p)")
  case None
  then show ?thesis using assms(2) by (simp add: pluginLoadItem_def load_result_def load_effects_def upd_pl_def pg_emit_def)
next
  case (Some h)
  show ?thesis
  proof (cases "dlsym dl h ''plugin_initialize''")
    case None
    with Some show ?thesis
      using assms(2) by (simp add: pluginLoadItem_def load_result_def load_effects_def upd_pl_def pg_emit_def)
  next
    case i: (Some i)
    with assms(1) obtain f where "i = Some f" by (cases i) (auto simp: sane_def)
    with Some i show ?thesis
      using assms(2) by (cases "dlsym dl h ''plugin_shutdown''")
        (simp_all add: pluginLoadItem_def load_result_def load_effects_def upd_pl_def pg_emit_def)
  qed
qed

lemma pluginUnloadItem_run:
  assumes "pgHeap s a = Some p" "pl_ok p" "pl_loaded p"
  shows "\<exists>f h. pl_shutdown p = Some f \<and> pl_handle p = Some h \<and> pluginUnloadItem dl (Some a) s =
    Some (pg_emit [PgShutdown f, PgClosed h] (s\<lparr>pgHeap := (pgHeap s)(a \<mapsto> p\<lparr>pl_handle := None, pl_loaded := \<not> dlclose dl h\<rparr>)\<rparr>))"
  using assms by (auto simp: pluginUnloadItem_def pl_ok_def upd_pl_def pg_emit_def)

subsection \<open>Initialising\<close>

definition init_plugin :: "string \<Rightarrow> linker \<Rightarrow> Plugin_t \<Rightarrow> Plugin_t" where
  "init_plugin path dl p =
     (if pl_newPlugin p then (if pl_preload p \<noteq> 0 then load_result path dl p else p)\<lparr>pl_newPlugin := False\<rparr> else p)"

lemma init_plugin_fields [simp]:
  "pl_name (init_plugin path dl p) = pl_name p" "pl_libName (init_plugin path dl p) = pl_libName p"
  "pl_preload (init_plugin path dl p) = pl_preload p" "pl_args (init_plugin path dl p) = pl_args p"
  "pl_visited (init_plugin path dl p) = pl_visited p" "\<not> pl_newPlugin (init_plugin path dl p)"
  by (simp_all add: init_plugin_def)

lemma init_plugin_ok: "sane dl \<Longrightarrow> pl_ok p \<Longrightarrow> pl_ok (init_plugin path dl p)"
  using load_result_ok [of dl p path] by (auto simp: init_plugin_def) (auto simp: pl_ok_def)

lemma init_plugin_loaded: "pl_ok p \<Longrightarrow> pl_loaded p \<Longrightarrow> pl_loaded (init_plugin path dl p)"
  by (auto simp: init_plugin_def pl_ok_def)

lemma init_plugin_twice [simp]: "init_plugin path dl (init_plugin path dl p) = init_plugin path dl p"
  by (simp add: init_plugin_def)

lemma pg_emit_simps [simp]:
  "pgHeap (pg_emit es s) = pgHeap s" "pgTree (pg_emit es s) = pgTree s" "pgOut (pg_emit es s) = pgOut s @ es"
  "pg_emit fs (pg_emit es s) = pg_emit (es @ fs) s"
  by (simp_all add: pg_emit_def)

lemma pluginInitializeTree_run:
  assumes "sane dl"
  shows "\<forall>a \<in> set_tree t. pgHeap s a \<noteq> None \<Longrightarrow> \<exists>es. pluginInitializeTree path dl t s =
    Some (pg_emit es (s\<lparr>pgHeap := (\<lambda>a. if a \<in> set_tree t then map_option (init_plugin path dl) (pgHeap s a) else pgHeap s a)\<rparr>))"
proof (induction t arbitrary: s)
  case Leaf
  then show ?case by (intro exI [of _ "[]"]) (simp add: pg_emit_def)
next
  case (Node l a r)
  let ?h = "\<lambda>t h. \<lambda>a. if a \<in> set_tree t then map_option (init_plugin path dl) (h a) else h a"
  from Node.prems have "\<forall>a \<in> set_tree l. pgHeap s a \<noteq> None" by simp
  from Node.IH(1) [OF this] obtain es1 where
    l: "pluginInitializeTree path dl l s = Some (pg_emit es1 (s\<lparr>pgHeap := ?h l (pgHeap s)\<rparr>))" by blast
  define s1 where "s1 = pg_emit es1 (s\<lparr>pgHeap := ?h l (pgHeap s)\<rparr>)"
  from Node.prems have "pgHeap s1 a \<noteq> None" by (auto simp: s1_def)
  then obtain p where p: "pgHeap s1 a = Some p" by blast
  define es2 where "es2 = (if pl_newPlugin p \<and> pl_preload p \<noteq> 0 then load_effects path dl p else [])"
  have mid: "(if pl_newPlugin p
      then do { s \<leftarrow> (if pl_preload p \<noteq> 0 then pluginLoadItem path dl a s1 else Some s1); upd_pl a (\<lambda>p. p\<lparr>pl_newPlugin := False\<rparr>) s }
      else Some s1) = Some (pg_emit es2 (s1\<lparr>pgHeap := (pgHeap s1)(a \<mapsto> init_plugin path dl p)\<rparr>))"
  proof (cases "pl_newPlugin p")
    case True
    with pluginLoadItem_run [OF assms p, of path] p show ?thesis
      by (cases "pl_preload p = 0") (simp_all add: init_plugin_def upd_pl_def pg_emit_def es2_def)
  next
    case False
    with p show ?thesis by (simp add: init_plugin_def es2_def pg_emit_def fun_upd_idem)
  qed
  define s2 where "s2 = pg_emit es2 (s1\<lparr>pgHeap := (pgHeap s1)(a \<mapsto> init_plugin path dl p)\<rparr>)"
  have "\<forall>a \<in> set_tree r. pgHeap s2 a \<noteq> None" using Node.prems by (simp add: s2_def s1_def)
  from Node.IH(2) [OF this] obtain es3 where
    r: "pluginInitializeTree path dl r s2 = Some (pg_emit es3 (s2\<lparr>pgHeap := ?h r (pgHeap s2)\<rparr>))" by blast
  have heap: "?h r (pgHeap s2) = ?h (Node l a r) (pgHeap s)"
    using p by (fastforce simp: s2_def s1_def map_option_case split: option.splits if_splits)
  have "pluginInitializeTree path dl (Node l a r) s = Some (pg_emit es3 (s2\<lparr>pgHeap := ?h (Node l a r) (pgHeap s)\<rparr>))"
    using l mid r p by (simp add: s1_def [symmetric] s2_def [symmetric] heap del: if_split)
  moreover have "pg_emit es3 (s2\<lparr>pgHeap := H\<rparr>) = pg_emit (es1 @ es2 @ es3) (s\<lparr>pgHeap := H\<rparr>)" for H
    by (simp add: s2_def s1_def pg_emit_def)
  ultimately show ?case by auto
qed

subsection \<open>Flushing\<close>

definition on_tree :: "plugins \<Rightarrow> addr set" where
  "on_tree s = (case pgTree s of None \<Rightarrow> {} | Some t \<Rightarrow> set_tree t)"

definition unvisited :: "plugins \<Rightarrow> addr \<Rightarrow> bool" where
  "unvisited s a \<longleftrightarrow> (case pgHeap s a of None \<Rightarrow> False | Some p \<Rightarrow> \<not> pl_visited p)"

definition gone_effects :: "Plugin_t \<Rightarrow> pg_effect list" where
  "gone_effects p = (if pl_loaded p then [PgShutdown (the (pl_shutdown p)), PgClosed (the (pl_handle p))] else []) @
     [PgMenuRemove (pl_name p)]"

definition drop_plugin :: "addr \<Rightarrow> plugins \<Rightarrow> plugins" where
  "drop_plugin a s = pg_emit (gone_effects (the (pgHeap s a)))
     (s\<lparr>pgTree := map_option (bt_remove a) (pgTree s), pgHeap := (pgHeap s)(a := None)\<rparr>)"

lemma find_holds: "find P xs = Some x \<Longrightarrow> x \<in> set xs \<and> P x"
  by (induction xs) (auto split: if_splits)

lemma pluginFlushUnvisited_find:
  "\<forall>a \<in> set_tree t. \<exists>p. pgHeap s a = Some p \<and> pl_ok p \<Longrightarrow>
    pluginFlushUnvisited dl t s = Some (case find (unvisited s) (inorder t) of None \<Rightarrow> (False, s) | Some a \<Rightarrow> (True, drop_plugin a s))"
proof (induction t)
  case (Node l a r)
  then obtain p where p: "pgHeap s a = Some p" "pl_ok p" by auto
  then have u: "unvisited s a \<longleftrightarrow> \<not> pl_visited p" by (simp add: unvisited_def)
  have l: "pluginFlushUnvisited dl l s = Some (case find (unvisited s) (inorder l) of None \<Rightarrow> (False, s) | Some a \<Rightarrow> (True, drop_plugin a s))"
    and r: "pluginFlushUnvisited dl r s = Some (case find (unvisited s) (inorder r) of None \<Rightarrow> (False, s) | Some a \<Rightarrow> (True, drop_plugin a s))"
    using Node by simp_all
  show ?case
  proof (cases "find (unvisited s) (inorder l)")
    case (Some x)
    with l show ?thesis by (simp add: find_app)
  next
    case None
    show ?thesis
    proof (cases "pl_visited p")
      case True
      with None l r p u show ?thesis by (simp add: find_app)
    next
      case False
      let ?s = "s\<lparr>pgTree := map_option (bt_remove a) (pgTree s)\<rparr>"
      have "\<exists>s'. (if pl_loaded p then pluginUnloadItem dl (Some a) ?s else Some ?s) = Some s' \<and>
          (pg_emit [PgMenuRemove (pl_name p)] s')\<lparr>pgHeap := (pgHeap (pg_emit [PgMenuRemove (pl_name p)] s'))(a := None)\<rparr> = drop_plugin a s"
      proof (cases "pl_loaded p")
        case True
        with pluginUnloadItem_run [of ?s a p dl] p show ?thesis
          by (auto simp: drop_plugin_def gone_effects_def pg_emit_def)
      qed (simp add: drop_plugin_def gone_effects_def pg_emit_def p)
      with False None l p u show ?thesis by (auto simp: find_app)
    qed
  qed
qed simp

lemma plugins_okD:
  assumes "plugins_ok s"
  obtains t where "pgTree s = Some t" "named (plname s) t" "on_tree s = set_tree t"
    "\<And>a. a \<in> set_tree t \<Longrightarrow> \<exists>p. pgHeap s a = Some p \<and> pl_ok p"
  using assms by (auto simp: plugins_ok_def on_tree_def)

lemma drop_plugin_ok:
  assumes "plugins_ok s" "a \<in> on_tree s"
  shows "plugins_ok (drop_plugin a s)" "on_tree (drop_plugin a s) = on_tree s - {a}"
proof -
  from assms obtain t where t: "pgTree s = Some t" "named (plname s) t" "on_tree s = set_tree t"
    "\<And>a. a \<in> set_tree t \<Longrightarrow> \<exists>p. pgHeap s a = Some p \<and> pl_ok p" by (auto elim: plugins_okD)
  note r = named_remove [OF t(2), of a]
  have "named (plname (drop_plugin a s)) (bt_remove a t)"
    by (rule named_cong [of _ "plname s"]) (use r in \<open>auto simp: plname_def drop_plugin_def\<close>)
  with r t show "plugins_ok (drop_plugin a s)" "on_tree (drop_plugin a s) = on_tree s - {a}"
    by (auto simp: plugins_ok_def on_tree_def drop_plugin_def)
qed

definition flushed :: "plugins \<Rightarrow> plugins \<Rightarrow> bool" where
  "flushed s s' \<longleftrightarrow> plugins_ok s' \<and> on_tree s' = {a \<in> on_tree s. \<not> unvisited s a} \<and>
     (\<forall>a. a \<in> on_tree s' \<or> a \<notin> on_tree s \<longrightarrow> pgHeap s' a = pgHeap s a) \<and>
     (\<exists>es. pgOut s' = pgOut s @ es \<and> (\<forall>a p. a \<in> on_tree s \<and> pgHeap s a = Some p \<and> \<not> pl_visited p \<longrightarrow> set (gone_effects p) \<subseteq> set es))"

lemma plugin_flush_loop_run:
  "plugins_ok s \<Longrightarrow> card {a \<in> on_tree s. unvisited s a} = n \<Longrightarrow> \<exists>s'. plugin_flush_loop dl s = Some s' \<and> flushed s s'"
proof (induction n arbitrary: s)
  case 0
  from 0(1) obtain t where t: "pgTree s = Some t" "on_tree s = set_tree t"
    "\<And>a. a \<in> set_tree t \<Longrightarrow> \<exists>p. pgHeap s a = Some p \<and> pl_ok p" by (auto elim: plugins_okD)
  with 0 have none: "\<forall>a \<in> set_tree t. \<not> unvisited s a" by simp
  then have "find (unvisited s) (inorder t) = None" by (simp add: find_None_iff)
  with pluginFlushUnvisited_find [of t s dl] t have "plugin_flush_loop dl s = Some s"
    by (subst plugin_flush_loop.simps) simp
  moreover have "flushed s s" using 0(1) none t(2) by (auto simp: flushed_def unvisited_def)
  ultimately show ?case by blast
next
  case (Suc n)
  from Suc.prems(1) obtain t where t: "pgTree s = Some t" "on_tree s = set_tree t"
    "\<And>a. a \<in> set_tree t \<Longrightarrow> \<exists>p. pgHeap s a = Some p \<and> pl_ok p" by (auto elim: plugins_okD)
  have "find (unvisited s) (inorder t) \<noteq> None"
  proof
    assume "find (unvisited s) (inorder t) = None"
    then have "{a \<in> on_tree s. unvisited s a} = {}" using t(2) by (simp add: find_None_iff)
    with Suc.prems(2) show False by simp
  qed
  then obtain a where f: "find (unvisited s) (inorder t) = Some a" by blast
  then have a: "a \<in> on_tree s" "unvisited s a" using find_holds [OF f] t(2) by simp_all
  then obtain p where p: "pgHeap s a = Some p" "\<not> pl_visited p" by (auto simp: unvisited_def split: option.splits)
  let ?s = "drop_plugin a s"
  note d = drop_plugin_ok [OF Suc.prems(1) a(1)]
  have h: "pgHeap ?s = (pgHeap s)(a := None)" by (simp add: drop_plugin_def)
  have u: "{b \<in> on_tree ?s. unvisited ?s b} = {b \<in> on_tree s. unvisited s b} - {a}"
    using d(2) by (auto simp: unvisited_def h)
  have "card {b \<in> on_tree ?s. unvisited ?s b} = n" using Suc.prems(2) a u by (simp add: card_Diff_singleton)
  from Suc.IH [OF d(1) this] obtain s' where s': "plugin_flush_loop dl ?s = Some s'" "flushed ?s s'" by blast
  have "plugin_flush_loop dl s = Some s'"
    using pluginFlushUnvisited_find [of t s dl] t f s'(1) by (subst plugin_flush_loop.simps) simp
  moreover have "flushed s s'"
  proof -
    from s'(2) obtain es where es: "pgOut s' = pgOut ?s @ es"
      "\<forall>b q. b \<in> on_tree ?s \<and> pgHeap ?s b = Some q \<and> \<not> pl_visited q \<longrightarrow> set (gone_effects q) \<subseteq> set es"
      by (auto simp: flushed_def)
    have o: "pgOut ?s = pgOut s @ gone_effects p" by (simp add: drop_plugin_def p(1))
    have "set (gone_effects q) \<subseteq> set (gone_effects p @ es)"
      if "b \<in> on_tree s" "pgHeap s b = Some q" "\<not> pl_visited q" for b q
    proof (cases "b = a")
      case True
      with that p show ?thesis by simp
    next
      case False
      with that d(2) h have "b \<in> on_tree ?s \<and> pgHeap ?s b = Some q \<and> \<not> pl_visited q" by simp
      with es(2) have "set (gone_effects q) \<subseteq> set es" by blast
      then show ?thesis by auto
    qed
    moreover have "on_tree s' = {a \<in> on_tree s. \<not> unvisited s a}" using s'(2) u d(2) a by (auto simp: flushed_def)
    moreover have "\<forall>b. b \<in> on_tree s' \<or> b \<notin> on_tree s \<longrightarrow> pgHeap s' b = pgHeap s b"
      using s'(2) d(2) h a by (auto simp: flushed_def)
    ultimately show ?thesis using s'(2) es(1) o unfolding flushed_def
      by (intro conjI exI [of _ "gone_effects p @ es"]) auto
  qed
  ultimately show ?case by blast
qed

lemma pluginUnvisitTree_run:
  "\<forall>a \<in> set_tree t. pgHeap s a \<noteq> None \<Longrightarrow> pluginUnvisitTree t s =
    Some (s\<lparr>pgHeap := (\<lambda>a. if a \<in> set_tree t then map_option (\<lambda>p. p\<lparr>pl_visited := False\<rparr>) (pgHeap s a) else pgHeap s a)\<rparr>)"
proof (induction t arbitrary: s)
  case (Node l a r)
  let ?f = "map_option (\<lambda>p. p\<lparr>pl_visited := False\<rparr>)"
  let ?s1 = "s\<lparr>pgHeap := (\<lambda>x. if x \<in> set_tree l then ?f (pgHeap s x) else pgHeap s x)\<rparr>"
  have l: "pluginUnvisitTree l s = Some ?s1" using Node by simp
  have "pgHeap ?s1 a \<noteq> None" using Node.prems by simp
  then obtain p where p: "pgHeap ?s1 a = Some p" by blast
  let ?s2 = "?s1\<lparr>pgHeap := (pgHeap ?s1)(a \<mapsto> p\<lparr>pl_visited := False\<rparr>)\<rparr>"
  have m: "upd_pl a (\<lambda>p. p\<lparr>pl_visited := False\<rparr>) ?s1 = Some ?s2" unfolding upd_pl_def p by simp
  have "\<forall>x \<in> set_tree r. pgHeap ?s2 x \<noteq> None" using Node.prems by auto
  note r = Node.IH(2) [OF this]
  have "(\<lambda>x. if x \<in> set_tree r then ?f (pgHeap ?s2 x) else pgHeap ?s2 x) =
      (\<lambda>x. if x \<in> set_tree (Node l a r) then ?f (pgHeap s x) else pgHeap s x)"
  proof
    fix x show "(if x \<in> set_tree r then ?f (pgHeap ?s2 x) else pgHeap ?s2 x) =
        (if x \<in> set_tree (Node l a r) then ?f (pgHeap s x) else pgHeap s x)"
      using p by (cases "pgHeap s x") (auto split: if_splits)
  qed
  with r show ?case by (simp add: l m)
qed simp

subsection \<open>Taking over the rows\<close>

type_synonym plugin_entry = "string \<times> string \<times> int \<times> string"

definition entry :: "Plugin_t \<Rightarrow> plugin_entry" where
  "entry p = (pl_name p, pl_libName p, pl_preload p, pl_args p)"

definition row_entry :: "db_row \<Rightarrow> plugin_entry" where
  "row_entry row = (the (col row 0), the (col row 1), the (col_int row 2), the (col row 3))"

definition row_complete :: "db_row \<Rightarrow> bool" where
  "row_complete row \<longleftrightarrow> (\<exists>n. col row 0 = Some n \<and> nul_free n) \<and> col row 1 \<noteq> None \<and> col_int row 2 \<noteq> None \<and> col row 3 \<noteq> None"

definition visited_entries :: "plugins \<Rightarrow> plugin_entry set" where
  "visited_entries s = {entry p |a p. a \<in> on_tree s \<and> pgHeap s a = Some p \<and> pl_visited p}"

text \<open>The same plugin, perhaps with other settings and visited.\<close>

definition same_plugin :: "Plugin_t \<Rightarrow> Plugin_t \<Rightarrow> bool" where
  "same_plugin p p' \<longleftrightarrow> same_name (pl_name p) (pl_name p') \<and> pl_loaded p' = pl_loaded p \<and> pl_shutdown p' = pl_shutdown p \<and>
     pl_handle p' = pl_handle p"

definition grown :: "plugins \<Rightarrow> plugins \<Rightarrow> bool" where
  "grown s s' \<longleftrightarrow> plugins_ok s' \<and> on_tree s \<subseteq> on_tree s' \<and>
     (\<forall>a \<in> on_tree s. \<forall>p. pgHeap s a = Some p \<longrightarrow> (\<exists>p'. pgHeap s' a = Some p' \<and> same_plugin p p')) \<and>
     (\<exists>es. pgOut s' = pgOut s @ es)"

lemma same_plugin_trans: "same_plugin p q \<Longrightarrow> same_plugin q r \<Longrightarrow> same_plugin p r"
  using same_name_trans by (auto simp: same_plugin_def)

lemma grown_trans: "grown s s' \<Longrightarrow> grown s' s'' \<Longrightarrow> grown s s''"
  unfolding grown_def using same_plugin_trans by (metis (no_types, lifting) append.assoc subsetD subset_trans)

lemma grownD:
  "grown s s' \<Longrightarrow> a \<in> on_tree s \<Longrightarrow> pgHeap s a = Some p \<Longrightarrow> \<exists>p'. a \<in> on_tree s' \<and> pgHeap s' a = Some p' \<and> same_plugin p p'"
  unfolding grown_def by blast

lemma grown_refl: "plugins_ok s \<Longrightarrow> grown s s"
  by (auto simp: grown_def same_plugin_def)

lemma visited_entries_upd:
  assumes "on_tree s' = insert a (on_tree s)" "pgHeap s' = (pgHeap s)(a \<mapsto> q)" "pl_visited q"
    and "\<And>p. a \<in> on_tree s \<Longrightarrow> pgHeap s a = Some p \<Longrightarrow> \<not> pl_visited p"
  shows "visited_entries s' = insert (entry q) (visited_entries s)"
proof (rule set_eqI)
  fix e
  have "e \<in> visited_entries s' \<longleftrightarrow> e = entry q \<or> (\<exists>x p. x \<noteq> a \<and> x \<in> on_tree s \<and> pgHeap s x = Some p \<and> pl_visited p \<and> e = entry p)"
    using assms(3) unfolding visited_entries_def assms(1,2) by (auto split: if_splits)
  also have "\<dots> \<longleftrightarrow> e = entry q \<or> (\<exists>x p. x \<in> on_tree s \<and> pgHeap s x = Some p \<and> pl_visited p \<and> e = entry p)"
    using assms(4) by metis
  finally show "e \<in> visited_entries s' \<longleftrightarrow> e \<in> insert (entry q) (visited_entries s)" by (auto simp: visited_entries_def)
qed

lemma load_plugin_row_known:
  assumes "plugins_ok s" "row_complete row" "a \<in> on_tree s" "pgHeap s a = Some p" "same_name (the (col row 0)) (pl_name p)"
    and "\<not> pl_visited p"
  shows "\<exists>s'. load_plugin_row mem row s = Some s' \<and> grown s s' \<and> visited_entries s' = insert (row_entry row) (visited_entries s) \<and>
    on_tree s' = on_tree s \<and> (\<forall>x. x \<noteq> a \<longrightarrow> pgHeap s' x = pgHeap s x)"
proof -
  from assms(2) obtain nam lib pre args where c: "col row 0 = Some nam" "nul_free nam" "col row 1 = Some lib"
    "col_int row 2 = Some pre" "col row 3 = Some args" by (auto simp: row_complete_def)
  from assms(1) obtain t where t: "pgTree s = Some t" "named (plname s) t" "on_tree s = set_tree t"
    "\<And>a. a \<in> set_tree t \<Longrightarrow> \<exists>p. pgHeap s a = Some p \<and> pl_ok p" by (auto elim: plugins_okD)
  then have al: "alive (pgHeap s) t" by (auto simp: alive_def)
  have f: "name_find (plname s) nam t = Some a"
    using named_find [OF t(2) c(2), of a] assms(3-5) t(3) c(1) by (simp add: plname_def)
  let ?p = "p\<lparr>pl_name := nam, pl_libName := lib, pl_preload := pre, pl_args := args, pl_visited := True\<rparr>"
  let ?s = "pg_emit [PgMenuRemove (pl_name p), PgMenuAdd nam a] (s\<lparr>pgHeap := (pgHeap s)(a \<mapsto> ?p)\<rparr>)"
  have run: "load_plugin_row mem row s = Some ?s"
    using c f t(1) al assms(4) by (simp add: load_plugin_row_def find_plugin_def upd_pl_def pg_emit_def Let_def)
  have sn: "same_name (plname s x) (plname ?s x)" for x
    using assms(4,5) c(1) same_name_sym by (auto simp: plname_def)
  have tr: "pgTree ?s = Some t" "on_tree ?s = on_tree s" using t(1) by (simp_all add: on_tree_def)
  have ok: "plugins_ok ?s"
    unfolding plugins_ok_def
  proof (intro exI [of _ t] conjI ballI)
    show "named (plname ?s) t" by (rule named_cong [OF sn t(2)])
    fix x assume "x \<in> set_tree t"
    then obtain q where "pgHeap s x = Some q" "pl_ok q" using t(4) by blast
    then show "\<exists>p. pgHeap ?s x = Some p \<and> pl_ok p" using assms(4) by (auto simp: pl_ok_def)
  qed (rule tr)
  have "visited_entries ?s = insert (row_entry row) (visited_entries s)"
    using visited_entries_upd [of ?s a s ?p] assms(3,4,6) c tr(2)
    by (simp add: row_entry_def entry_def insert_absorb)
  moreover have "grown s ?s"
    using ok tr(2) assms(4,5) c(1) same_name_sym by (auto simp: grown_def same_plugin_def)
  ultimately show ?thesis using run tr(2) by auto
qed

lemma load_plugin_row_new:
  assumes "plugins_ok s" "row_complete row" "pgHeap s m = None"
    and "\<And>a p. a \<in> on_tree s \<Longrightarrow> pgHeap s a = Some p \<Longrightarrow> \<not> same_name (the (col row 0)) (pl_name p)"
  shows "\<exists>s'. load_plugin_row (Some m) row s = Some s' \<and> grown s s' \<and> visited_entries s' = insert (row_entry row) (visited_entries s) \<and>
    on_tree s' = insert m (on_tree s) \<and> (\<forall>x. x \<noteq> m \<longrightarrow> pgHeap s' x = pgHeap s x)"
proof -
  from assms(2) obtain nam lib pre args where c: "col row 0 = Some nam" "nul_free nam" "col row 1 = Some lib"
    "col_int row 2 = Some pre" "col row 3 = Some args" by (auto simp: row_complete_def)
  from assms(1) obtain t where t: "pgTree s = Some t" "named (plname s) t" "on_tree s = set_tree t"
    "\<And>a. a \<in> set_tree t \<Longrightarrow> \<exists>p. pgHeap s a = Some p \<and> pl_ok p" by (auto elim: plugins_okD)
  then have al: "alive (pgHeap s) t" by (auto simp: alive_def)
  have new: "\<forall>a \<in> set_tree t. \<not> same_name nam (plname s a)"
    using assms(4) t(3,4) c(1) by (fastforce simp: plname_def)
  then have f: "name_find (plname s) nam t = None" using named_find_None [OF t(2) c(2)] by simp
  have m: "m \<notin> set_tree t" using assms(3) t(4) by fastforce
  let ?p = "\<lparr>pl_name = nam, pl_libName = lib, pl_preload = pre, pl_loaded = False, pl_newPlugin = True, pl_visited = True,
    pl_args = args, pl_handle = None, pl_init = None, pl_shutdown = None\<rparr>"
  define s1 where "s1 = pg_emit [PgMenuAdd nam m] (s\<lparr>pgHeap := (pgHeap s)(m \<mapsto> ?p)\<rparr>)"
  define t1 where "t1 = name_add (plname s1) m t"
  have run: "load_plugin_row (Some m) row s = Some (s1\<lparr>pgTree := Some t1\<rparr>)"
    using c f t(1) al
    by (simp add: load_plugin_row_def find_plugin_def upd_pl_def pg_emit_def s1_def t1_def Let_def plname_def [abs_def])
  have k: "plname s1 x = (if x = m then nam else plname s x)" for x by (simp add: plname_def s1_def)
  have "named (plname s1) t" by (rule named_cong [OF _ t(2)]) (use m k in auto)
  moreover have "\<forall>y \<in> set_tree t. \<not> same_name (plname s1 m) (plname s1 y)" using m new by (metis k)
  moreover have "nul_free (plname s1 m)" using c(2) by (simp add: k)
  ultimately have t1: "named (plname s1) t1" "set_tree t1 = insert m (set_tree t)"
    using named_add [of "plname s1" t m] by (simp_all add: t1_def)
  let ?s = "s1\<lparr>pgTree := Some t1\<rparr>"
  have tr: "on_tree ?s = insert m (on_tree s)" using t1(2) t(3) by (simp add: on_tree_def)
  have h: "pgHeap ?s = (pgHeap s)(m \<mapsto> ?p)" by (simp add: s1_def)
  have ok: "plugins_ok ?s"
    unfolding plugins_ok_def
  proof (intro exI [of _ t1] conjI ballI)
    have "plname ?s = plname s1" by (rule ext) (simp add: plname_def)
    then show "named (plname ?s) t1" using t1(1) by simp
    fix x assume "x \<in> set_tree t1"
    then show "\<exists>p. pgHeap ?s x = Some p \<and> pl_ok p" using t(4) t1(2) m by (auto simp: h pl_ok_def)
  qed simp
  have "visited_entries ?s = insert (row_entry row) (visited_entries s)"
    using visited_entries_upd [OF tr h] c m t(3) by (simp add: row_entry_def entry_def)
  moreover have "grown s ?s"
    using ok m t(3) unfolding grown_def tr h by (auto simp: same_plugin_def s1_def)
  ultimately show ?thesis using run tr h by auto
qed

text \<open>Rows with different names, each with memory for a new plugin.\<close>

definition rows_good :: "plugins \<Rightarrow> (ptr \<times> db_row) list \<Rightarrow> bool" where
  "rows_good s rows \<longleftrightarrow> (\<forall>(mem, row) \<in> set rows. row_complete row \<and> (\<exists>m. mem = Some m \<and> pgHeap s m = None)) \<and>
     distinct (map fst rows) \<and> distinct (map (\<lambda>(_, row). map tolower (the (col row 0))) rows)"

lemma load_rows:
  "plugins_ok s \<Longrightarrow> rows_good s rows \<Longrightarrow>
   (\<forall>(_, row) \<in> set rows. \<forall>e \<in> visited_entries s. \<not> same_name (the (col row 0)) (fst e)) \<Longrightarrow>
   \<exists>s'. foldM (\<lambda>(mem, row). load_plugin_row mem row) rows s = Some s' \<and> grown s s' \<and>
     visited_entries s' = visited_entries s \<union> row_entry ` snd ` set rows"
proof (induction rows arbitrary: s)
  case Nil
  then show ?case by (simp add: grown_refl)
next
  case (Cons r rows)
  obtain mem row where r: "r = (mem, row)" by (cases r)
  from Cons.prems(2) r obtain m where m: "mem = Some m" "pgHeap s m = None" and row: "row_complete row"
    by (auto simp: rows_good_def)
  let ?n = "the (col row 0)"
  have "\<exists>s1 x. load_plugin_row mem row s = Some s1 \<and> grown s s1 \<and> visited_entries s1 = insert (row_entry row) (visited_entries s) \<and>
      (x = m \<or> pgHeap s x \<noteq> None) \<and> (\<forall>y. y \<noteq> x \<longrightarrow> pgHeap s1 y = pgHeap s y)"
  proof (cases "\<exists>a p. a \<in> on_tree s \<and> pgHeap s a = Some p \<and> same_name ?n (pl_name p)")
    case True
    then obtain a p where a: "a \<in> on_tree s" "pgHeap s a = Some p" "same_name ?n (pl_name p)" by blast
    have "\<not> pl_visited p"
    proof
      assume "pl_visited p"
      with a have "entry p \<in> visited_entries s" by (auto simp: visited_entries_def)
      with Cons.prems(3) r a(3) show False by (auto simp: entry_def)
    qed
    from load_plugin_row_known [OF Cons.prems(1) row a this, of mem] a(2) show ?thesis by blast
  next
    case False
    with load_plugin_row_new [OF Cons.prems(1) row m(2)] m(1) show ?thesis by blast
  qed
  then obtain s1 x where s1: "load_plugin_row mem row s = Some s1" "grown s s1"
    "visited_entries s1 = insert (row_entry row) (visited_entries s)"
    "x = m \<or> pgHeap s x \<noteq> None" "\<forall>y. y \<noteq> x \<longrightarrow> pgHeap s1 y = pgHeap s y" by blast
  have ok: "plugins_ok s1" using s1(2) by (simp add: grown_def)
  have good: "rows_good s1 rows"
    unfolding rows_good_def
  proof (intro conjI ballI)
    show "distinct (map fst rows)" "distinct (map (\<lambda>(_, row). map tolower (the (col row 0))) rows)"
      using Cons.prems(2) by (simp_all add: rows_good_def)
    fix q assume q: "q \<in> set rows"
    obtain mem' row' where q': "q = (mem', row')" by (cases q)
    from Cons.prems(2) q q' obtain m' where m': "mem' = Some m'" "pgHeap s m' = None" "row_complete row'"
      by (auto simp: rows_good_def)
    have "mem' \<in> set (map fst rows)" using q q' by force
    then have "m' \<noteq> m" using Cons.prems(2) m'(1) m(1) r by (auto simp: rows_good_def)
    then have "pgHeap s1 m' = None" using s1(4,5) m'(2) by metis
    with m' q' show "case q of (mem, row) \<Rightarrow> row_complete row \<and> (\<exists>m. mem = Some m \<and> pgHeap s1 m = None)" by simp
  qed
  have "\<forall>(_, row') \<in> set rows. \<forall>e \<in> visited_entries s1. \<not> same_name (the (col row' 0)) (fst e)"
  proof (clarify)
    fix mem' row' n l p a assume q: "(mem', row') \<in> set rows" "(n, l, p, a) \<in> visited_entries s1" "same_name (the (col row' 0)) (fst (n, l, p, a))"
    show False
    proof (cases "(n, l, p, a) = row_entry row")
      case True
      then have "map tolower (the (col row' 0)) = map tolower ?n" using q(3) by (simp add: row_entry_def same_name_def)
      moreover have "map tolower (the (col row' 0)) \<in> set (map (\<lambda>(_, row). map tolower (the (col row 0))) rows)"
        using q(1) by force
      ultimately show False using Cons.prems(2) r by (simp add: rows_good_def)
    next
      case False
      with q(2) s1(3) have "(n, l, p, a) \<in> visited_entries s" by blast
      moreover have "(mem', row') \<in> set (r # rows)" using q(1) by simp
      ultimately have "\<not> same_name (the (col row' 0)) (fst (n, l, p, a))" using Cons.prems(3) by blast
      with q(3) show False by simp
    qed
  qed
  from Cons.IH [OF ok good this] obtain s' where s': "foldM (\<lambda>(mem, row). load_plugin_row mem row) rows s1 = Some s'"
    "grown s1 s'" "visited_entries s' = visited_entries s1 \<union> row_entry ` snd ` set rows" by blast
  with s1 r show ?case using grown_trans [OF s1(2) s'(2)] by auto
qed

section \<open>Properties\<close>

lemma flushed_views:
  assumes "flushed s s'"
  shows "{entry p |a p. a \<in> on_tree s' \<and> pgHeap s' a = Some p} = visited_entries s"
proof (rule set_eqI)
  fix e
  have "a \<in> on_tree s' \<and> pgHeap s' a = Some p \<longleftrightarrow> a \<in> on_tree s \<and> pgHeap s a = Some p \<and> pl_visited p" for a p
    using assms by (auto simp: flushed_def unvisited_def)
  then show "e \<in> {entry p |a p. a \<in> on_tree s' \<and> pgHeap s' a = Some p} \<longleftrightarrow> e \<in> visited_entries s"
    by (simp add: visited_entries_def)
qed

lemma unvisit_ok:
  assumes "plugins_ok s" "pgTree s = Some t"
  shows "\<exists>s'. pluginUnvisitTree t s = Some s' \<and> grown s s' \<and> pgTree s' = Some t \<and> visited_entries s' = {} \<and>
    (\<forall>a. pgHeap s' a = None \<longleftrightarrow> pgHeap s a = None)"
proof -
  from assms have t: "named (plname s) t" "on_tree s = set_tree t"
    "\<And>a. a \<in> set_tree t \<Longrightarrow> \<exists>p. pgHeap s a = Some p \<and> pl_ok p" by (auto elim!: plugins_okD)
  let ?s = "s\<lparr>pgHeap := (\<lambda>a. if a \<in> set_tree t then map_option (\<lambda>p. p\<lparr>pl_visited := False\<rparr>) (pgHeap s a) else pgHeap s a)\<rparr>"
  have run: "pluginUnvisitTree t s = Some ?s" by (rule pluginUnvisitTree_run) (use t(3) in fastforce)
  have tr: "on_tree ?s = on_tree s" by (simp add: on_tree_def)
  have "plname ?s = plname s" by (rule ext) (auto simp: plname_def map_option_case split: option.splits)
  moreover have "\<exists>p. pgHeap ?s a = Some p \<and> pl_ok p" if "a \<in> set_tree t" for a
    using t(3) [OF that] that by (auto simp: pl_ok_def)
  ultimately have ok: "plugins_ok ?s" using t(1) assms(2) by (simp add: plugins_ok_def)
  have "grown s ?s" using ok tr by (auto simp: grown_def same_plugin_def)
  moreover have "visited_entries ?s = {}" using t(2) by (auto simp: visited_entries_def on_tree_def assms(2))
  ultimately show ?thesis using run assms(2) by auto
qed

lemma initialize_ok:
  assumes "plugins_ok s" "pgTree s = Some t" "sane dl"
  shows "\<exists>s'. pluginInitializeTree path dl t s = Some s' \<and> plugins_ok s' \<and> on_tree s' = on_tree s \<and>
    visited_entries s' = visited_entries s \<and> (\<exists>es. pgOut s' = pgOut s @ es) \<and>
    (\<forall>a \<in> on_tree s. pgHeap s' a = map_option (init_plugin path dl) (pgHeap s a))"
proof -
  from assms have t: "named (plname s) t" "on_tree s = set_tree t"
    "\<And>a. a \<in> set_tree t \<Longrightarrow> \<exists>p. pgHeap s a = Some p \<and> pl_ok p" by (auto elim!: plugins_okD)
  let ?h = "\<lambda>a. if a \<in> set_tree t then map_option (init_plugin path dl) (pgHeap s a) else pgHeap s a"
  from pluginInitializeTree_run [OF assms(3), of t s path] t(3) obtain es where
    run: "pluginInitializeTree path dl t s = Some (pg_emit es (s\<lparr>pgHeap := ?h\<rparr>))" by fastforce
  let ?s = "pg_emit es (s\<lparr>pgHeap := ?h\<rparr>)"
  have tr: "on_tree ?s = on_tree s" by (simp add: on_tree_def)
  have "plname ?s = plname s" by (rule ext) (auto simp: plname_def map_option_case split: option.splits)
  moreover have "\<exists>p. pgHeap ?s a = Some p \<and> pl_ok p" if "a \<in> set_tree t" for a
    using t(3) [OF that] that init_plugin_ok [OF assms(3)] by auto
  ultimately have ok: "plugins_ok ?s" using t(1) assms(2) by (simp add: plugins_ok_def)
  have vis: "visited_entries ?s = visited_entries s"
  proof (rule set_eqI)
    fix e
    have "(\<exists>p. e = entry p \<and> a \<in> on_tree s \<and> pgHeap ?s a = Some p \<and> pl_visited p) \<longleftrightarrow>
        (\<exists>p. e = entry p \<and> a \<in> on_tree s \<and> pgHeap s a = Some p \<and> pl_visited p)" for a
      by (cases "pgHeap s a") (auto simp: entry_def)
    then show "e \<in> visited_entries ?s \<longleftrightarrow> e \<in> visited_entries s"
      unfolding visited_entries_def mem_Collect_eq tr by (rule ex_cong1)
  qed
  have "pgOut ?s = pgOut s @ es" by simp
  moreover have "\<forall>a \<in> on_tree s. pgHeap ?s a = map_option (init_plugin path dl) (pgHeap s a)"
    by (simp add: t(2))
  ultimately show ?thesis
    by (intro exI [of _ ?s] conjI exI [of _ es]) (rule run ok tr vis | assumption)+
qed

lemma reload_rows:
  assumes "plugins_ok s" "pgTree s = Some t" "rows_good s rows"
  shows "\<exists>s1 s2. pluginUnvisitTree t s = Some s1 \<and> db_get_plugins rows s1 = Some s2 \<and> grown s s2 \<and>
    visited_entries s2 = row_entry ` snd ` set rows"
proof -
  from unvisit_ok [OF assms(1,2)] obtain s1 where s1: "pluginUnvisitTree t s = Some s1" "grown s s1" "pgTree s1 = Some t"
    "visited_entries s1 = {}" "\<forall>a. pgHeap s1 a = None \<longleftrightarrow> pgHeap s a = None" by blast
  define s1' where "s1' = pg_emit [PgDb (Queue get_plugins_query)] s1"
  have e1: "on_tree s1' = on_tree s1" "visited_entries s1' = {}" "plname s1' = plname s1" "pgHeap s1' = pgHeap s1" "pgTree s1' = pgTree s1"
    using s1(4) by (auto simp: on_tree_def visited_entries_def plname_def [abs_def] s1'_def)
  have ok1: "plugins_ok s1'" using s1(2) e1 by (simp add: grown_def plugins_ok_def)
  then have g1: "grown s s1'" using s1(2) e1 by (auto simp: grown_def s1'_def)
  have "rows_good s1' rows" using assms(3) s1(5) e1(4) by (simp add: rows_good_def)
  from load_rows [OF ok1 this] e1(2) obtain s2 where
    s2: "foldM (\<lambda>(mem, row). load_plugin_row mem row) rows s1' = Some s2" "grown s1' s2"
      "visited_entries s2 = row_entry ` snd ` set rows" by auto
  show ?thesis
  proof (cases "rows = []")
    case True
    then have "db_get_plugins rows s1 = Some s2" using s1(3) s2(1) by (simp add: db_get_plugins_def result_get_plugins_def s1'_def)
    with s1(1) s2(3) grown_trans [OF g1 s2(2)] show ?thesis by blast
  next
    case False
    let ?s2 = "s2\<lparr>pgTree := map_option bt_rebalance (pgTree s2)\<rparr>"
    have "db_get_plugins rows s1 = Some ?s2"
      using False s1(3) s2(1) by (simp add: db_get_plugins_def result_get_plugins_def s1'_def)
    moreover have "visited_entries ?s2 = visited_entries s2" "on_tree ?s2 = on_tree s2"
      by (auto simp: on_tree_def visited_entries_def split: option.splits)
    moreover have "plname ?s2 = plname s2" by (simp add: plname_def [abs_def])
    with s2(2) have "plugins_ok ?s2" by (auto simp: grown_def plugins_ok_def)
    ultimately show ?thesis using s1(1) s2(3) grown_trans [OF g1 s2(2)]
      by (intro exI [of _ s1] exI [of _ ?s2]) (simp add: grown_def)
  qed
qed

text \<open>A loaded plugin is visited by the reload exactly when a row has its name.\<close>

lemma visited_by_row:
  assumes "plugins_ok s2" "visited_entries s2 = row_entry ` snd ` set rows"
    and "a \<in> on_tree s2" "pgHeap s2 a = Some p2" "same_plugin p p2"
  shows "(\<exists>(_, row) \<in> set rows. same_name (pl_name p) (the (col row 0))) \<longleftrightarrow> pl_visited p2"
proof
  assume "\<exists>(_, row) \<in> set rows. same_name (pl_name p) (the (col row 0))"
  then obtain m row where row: "(m, row) \<in> set rows" "same_name (pl_name p) (the (col row 0))" by blast
  then have "row_entry row \<in> visited_entries s2" using assms(2) by force
  then obtain b q where b: "b \<in> on_tree s2" "pgHeap s2 b = Some q" "pl_visited q" "row_entry row = entry q"
    by (auto simp: visited_entries_def)
  have "same_name (pl_name p2) (pl_name q)"
    using row(2) b(4) assms(5) by (auto simp: entry_def row_entry_def same_plugin_def same_name_def)
  moreover from assms(1) obtain t2 where "named (plname s2) t2" "on_tree s2 = set_tree t2" by (auto elim: plugins_okD)
  ultimately have "a = b" using named_unique [of "plname s2" t2 a b] b assms(3,4) by (simp add: plname_def)
  with b assms(4) show "pl_visited p2" by simp
next
  assume "pl_visited p2"
  then have "entry p2 \<in> row_entry ` snd ` set rows"
    using assms(3,4) unfolding assms(2) [symmetric] visited_entries_def by blast
  then obtain m row where "(m, row) \<in> set rows" "entry p2 = row_entry row" by auto
  then show "\<exists>(_, row) \<in> set rows. same_name (pl_name p) (the (col row 0))"
    using assms(5) by (auto simp: entry_def row_entry_def same_plugin_def intro!: bexI)
qed

lemma flushed_fate:
  assumes "flushed s s'" "a \<in> on_tree s" "pgHeap s a = Some p" "pl_loaded p"
  shows "if pl_visited p then a \<in> on_tree s' \<and> pgHeap s' a = Some p
    else a \<notin> on_tree s' \<and> (\<exists>es. pgOut s' = pgOut s @ es \<and> PgShutdown (the (pl_shutdown p)) \<in> set es)"
proof (cases "pl_visited p")
  case True
  with assms show ?thesis by (auto simp: flushed_def unvisited_def)
next
  case False
  from assms(1) obtain es where es: "pgOut s' = pgOut s @ es"
    "\<forall>a p. a \<in> on_tree s \<and> pgHeap s a = Some p \<and> \<not> pl_visited p \<longrightarrow> set (gone_effects p) \<subseteq> set es"
    by (auto simp: flushed_def)
  with assms False have "set (gone_effects p) \<subseteq> set es" by blast
  with es(1) assms(4) False assms(1-3) show ?thesis by (auto simp: gone_effects_def flushed_def unvisited_def)
qed

text \<open>Claim C20. After a reload the plugins on the tree are exactly those of the database rows,
  with their settings; a loaded plugin that the rows still name stays loaded, and one that
  they no longer name is shut down and gone. This is for a well-formed register (a loaded
  plugin has its handle and shutdown function), complete rows with distinct names that get
  fresh memory, and a linker that gives no NULL function for a symbol that it finds; opening,
  finding a symbol and closing may fail.\<close>

theorem plugins_follow_database:
  assumes "plugins_ok s" "sane dl" "rows_good s rows"
  shows "\<exists>s'. plugins_sighup path dl rows s = Some s' \<and> plugins_ok s' \<and>
    {entry p |a p. a \<in> on_tree s' \<and> pgHeap s' a = Some p} = row_entry ` snd ` set rows \<and>
    (\<forall>a p. a \<in> on_tree s \<and> pgHeap s a = Some p \<and> pl_loaded p \<longrightarrow>
       (if \<exists>(_, row) \<in> set rows. same_name (pl_name p) (the (col row 0))
        then a \<in> on_tree s' \<and> map_option pl_loaded (pgHeap s' a) = Some True
        else a \<notin> on_tree s' \<and> (\<exists>es. pgOut s' = pgOut s @ es \<and> PgShutdown (the (pl_shutdown p)) \<in> set es)))"
proof -
  from assms(1) obtain t where t: "pgTree s = Some t" by (auto elim: plugins_okD)
  from reload_rows [OF assms(1) t assms(3)] obtain s1 s2 where s2: "pluginUnvisitTree t s = Some s1"
    "db_get_plugins rows s1 = Some s2" "grown s s2" "visited_entries s2 = row_entry ` snd ` set rows" by blast
  have ok2: "plugins_ok s2" using s2(3) by (simp add: grown_def)
  then obtain t2 where t2: "pgTree s2 = Some t2" by (auto elim: plugins_okD)
  from initialize_ok [OF ok2 t2 assms(2), of path] obtain s3 where
    s3: "pluginInitializeTree path dl t2 s2 = Some s3" "plugins_ok s3" "on_tree s3 = on_tree s2"
      "visited_entries s3 = visited_entries s2" "\<exists>es. pgOut s3 = pgOut s2 @ es"
      "\<forall>a \<in> on_tree s2. pgHeap s3 a = map_option (init_plugin path dl) (pgHeap s2 a)" by blast
  from plugin_flush_loop_run [OF s3(2) refl, of dl] obtain s4 where
    s4: "plugin_flush_loop dl s3 = Some s4" "flushed s3 s4" by blast
  let ?s4 = "s4\<lparr>pgTree := map_option bt_rebalance (pgTree s4)\<rparr>"
  have run: "plugins_sighup path dl rows s = Some ?s4"
    using s2(1,2) t t2 s3(1) s4(1) by (simp add: plugins_sighup_def)
  have e4: "on_tree ?s4 = on_tree s4" by (auto simp: on_tree_def split: option.splits)
  have "plname ?s4 = plname s4" by (simp add: plname_def [abs_def])
  then have ok4: "plugins_ok ?s4" using s4(2) by (auto simp: flushed_def plugins_ok_def)
  have fate: "if \<exists>(_, row) \<in> set rows. same_name (pl_name p) (the (col row 0))
      then a \<in> on_tree ?s4 \<and> map_option pl_loaded (pgHeap ?s4 a) = Some True
      else a \<notin> on_tree ?s4 \<and> (\<exists>es. pgOut ?s4 = pgOut s @ es \<and> PgShutdown (the (pl_shutdown p)) \<in> set es)"
    if a: "a \<in> on_tree s" "pgHeap s a = Some p" "pl_loaded p" for a p
  proof -
    from grownD [OF s2(3) a(1,2)] obtain p2 where p2: "a \<in> on_tree s2" "pgHeap s2 a = Some p2" "same_plugin p p2" by blast
    have "pl_ok p2" using ok2 p2(1,2) by (fastforce elim: plugins_okD)
    with p2(3) a(3) have l: "pl_loaded p2" "\<not> pl_newPlugin p2" by (auto simp: pl_ok_def same_plugin_def)
    then have p3: "a \<in> on_tree s3" "pgHeap s3 a = Some p2" using s3(3,6) p2 by (auto simp: init_plugin_def)
    obtain es1 es2 where o: "pgOut s3 = pgOut s2 @ es1" "pgOut s2 = pgOut s @ es2"
      using s3(5) s2(3) by (auto simp: grown_def)
    have sd: "pl_shutdown p2 = pl_shutdown p" using p2(3) by (simp add: same_plugin_def)
    show ?thesis
      using flushed_fate [OF s4(2) p3 l(1)] l(1) o sd unfolding visited_by_row [OF ok2 s2(4) p2] e4 by auto
  qed
  show ?thesis
  proof (intro exI conjI allI impI)
    show "{entry p |a p. a \<in> on_tree ?s4 \<and> pgHeap ?s4 a = Some p} = row_entry ` snd ` set rows"
      using flushed_views [OF s4(2)] s3(4) s2(4) e4 by simp
  qed (use run ok4 fate in blast)+
qed

definition example_linker :: linker where
  "example_linker = \<lparr>dlopen = (\<lambda>_. Some 5), dlsym = (\<lambda>_ _. Some (Some 6)), dlclose = (\<lambda>_. True)\<rparr>"

definition example_plugins :: plugins where
  "example_plugins = \<lparr>pgHeap = [11 \<mapsto> \<lparr>pl_name = ''url'', pl_libName = ''plugin_url.so'', pl_preload = 1, pl_loaded = True,
     pl_newPlugin = False, pl_visited = True, pl_args = [], pl_handle = Some 5, pl_init = Some 6, pl_shutdown = Some 7\<rparr>],
     pgTree = Some (Node Leaf 11 Leaf), pgOut = []\<rparr>"

definition example_rows :: "(ptr \<times> db_row) list" where
  "example_rows = [(Some 12, [Some ''trout'', Some ''plugin_trout.so'', Some ''1'', Some []])]"

lemma plugins_follow_database_witness:
  "\<exists>s'. plugins_sighup ''p'' example_linker example_rows example_plugins = Some s' \<and>
    plugins_ok s' \<and>
    {entry p |a p. a \<in> on_tree s' \<and> pgHeap s' a = Some p} =
      row_entry ` snd ` set example_rows \<and>
    (\<forall>a p. a \<in> on_tree example_plugins \<and> pgHeap example_plugins a = Some p \<and> pl_loaded p \<longrightarrow>
       (if \<exists>(_, row) \<in> set example_rows.
             same_name (pl_name p) (the (col row 0))
        then a \<in> on_tree s' \<and> map_option pl_loaded (pgHeap s' a) = Some True
        else a \<notin> on_tree s' \<and> (\<exists>es. pgOut s' = pgOut example_plugins @ es \<and> PgShutdown (the (pl_shutdown p)) \<in> set es)))"
proof (rule plugins_follow_database)
  show "plugins_ok example_plugins"
    by (auto simp: plugins_ok_def example_plugins_def pl_ok_def plname_def named_def bt_inv_def nul_free_def)
  show "sane example_linker" by (simp add: sane_def example_linker_def)
  show "rows_good example_plugins example_rows"
    by (simp add: rows_good_def row_complete_def example_plugins_def example_rows_def col_def col_int_def nul_free_def)
qed

end
