(* ===== verification/Auth.thy ===== *)
theory Auth
  imports DbThread "HOL-Library.Sublist"
begin

text \<open>
  \<open>bot/src/authenticate.c\<close>: one-time passwords. A nick asks for a challenge, answers it,
  and is accepted for half an hour. The OPIE library is a parameter. The list of sessions is
  the sequence of its items (\<open>LinkedList\<close> has the pointers); its head is the newest.
\<close>

datatype AuthState_t = AUTH_NONE | AUTH_CHALLENGE | AUTH_ACCEPTED | AUTH_REJECTED | AUTH_TIMEDOUT | AUTH_DISCONNECT

record AuthData_t =
  au_node :: addr
  au_server :: addr
  au_nick :: string
  au_row :: AuthRow
  au_state :: AuthState_t
  au_wakeTime :: int

text \<open>
  The OPIE routines. Keys are strings of eight bytes. \<open>op_etob\<close> decodes six words (1 is
  success), \<open>op_atob8\<close> hexadecimal digits; \<open>op_parse\<close> gives its result, algorithm,
  count, seed and extension flags.
\<close>

record opie =
  op_atob8 :: "string \<Rightarrow> string option"
  op_btoa8 :: "string \<Rightarrow> string option"
  op_etob :: "string \<Rightarrow> int \<times> string"
  op_hash :: "nat \<Rightarrow> string \<Rightarrow> string"
  op_parse :: "string \<Rightarrow> int \<times> nat \<times> int \<times> string \<times> int"
  op_random :: string

datatype rtype = RESPONSE_STANDARD | RESPONSE_WORD | RESPONSE_HEX | RESPONSE_INIT_HEX | RESPONSE_INIT_WORD | RESPONSE_UNKNOWN

definition rtrans :: "(rtype \<times> string) list" where
  "rtrans = [(RESPONSE_WORD, ''word''), (RESPONSE_HEX, ''hex''), (RESPONSE_INIT_HEX, ''init-hex''),
     (RESPONSE_INIT_WORD, ''init-word''), (RESPONSE_STANDARD, [])]"

definition algids :: "string option list" where
  "algids = [None, None, None, Some ''sha1'', Some ''md4'', Some ''md5'']"

text \<open>The algorithm: the index of the digest's name.\<close>

fun find_alg :: "string \<Rightarrow> nat \<Rightarrow> string option list \<Rightarrow> nat option" where
  "find_alg d n [] = None"
| "find_alg d n (a # as) =
     (if (case a of None \<Rightarrow> False | Some nam \<Rightarrow> strcasecmp nam d = 0) then Some n else find_alg d (n + 1) as)"

section \<open>The challenge\<close>

text \<open>The buffer has 256 bytes; \<open>row\<close>: what the database has for the nick.\<close>

definition auth_user_challenge :: "opie \<Rightarrow> AuthRow option \<Rightarrow> string option" where
  "auth_user_challenge op row =
     (case row of
        None \<Rightarrow> Some (op_random op)
      | Some r \<Rightarrow>
          let c = ''otp-'' @ ar_digest r @ '' '' @ fmt_d (ar_count r - 1) @ '' '' @ ar_seed r @ '' ext'' in
          if length c < 256 then Some c else None)"

section \<open>Checking a response\<close>

definition changed :: "AuthRow \<Rightarrow> AuthRow option \<Rightarrow> bool" where
  "changed auth newAuth =
     (case newAuth of
        None \<Rightarrow> True
      | Some n \<Rightarrow> ar_count n \<noteq> ar_count auth \<or> ar_hash n \<noteq> ar_hash auth \<or> ar_seed n \<noteq> ar_seed auth)"

text \<open>Before and after a colon.\<close>

definition at_colon :: "string \<Rightarrow> (string \<times> string) option" where
  "at_colon s = map_option (\<lambda>n. (take n s, drop (n + 1) s)) (strchr (CHR '':'') s)"

definition response_type :: "string \<Rightarrow> rtype \<times> string \<times> string" where
  "response_type response =
     (case at_colon response of
        None \<Rightarrow> (RESPONSE_STANDARD, response, [])
      | Some (nam, c) \<Rightarrow>
          ((case find (\<lambda>r. snd r = nam) rtrans of Some r \<Rightarrow> fst r | None \<Rightarrow> RESPONSE_UNKNOWN), nam, c))"

definition decode_words :: "opie \<Rightarrow> string \<Rightarrow> string option" where
  "decode_words op s = (case op_etob op s of (r, key) \<Rightarrow> if r = 1 then Some key else None)"

text \<open>The key when its hash is the last key.\<close>

definition check_key :: "opie \<Rightarrow> nat \<Rightarrow> string \<Rightarrow> string option \<Rightarrow> string option" where
  "check_key op alg lastkey key =
     (case key of None \<Rightarrow> None | Some k \<Rightarrow> if op_hash op alg k = lastkey then Some k else None)"

text \<open>The label \<open>verwrt\<close>: the key is stored.\<close>

definition verwrt :: "opie \<Rightarrow> addr \<Rightarrow> string \<Rightarrow> string \<Rightarrow> AuthRow \<Rightarrow> db_action list \<Rightarrow> bool \<times> AuthRow \<times> db_action list" where
  "verwrt op a nick key row acts =
     (case op_btoa8 op key of
        None \<Rightarrow> (False, row, acts)
      | Some h \<Rightarrow> (True, row\<lparr>ar_hash := h\<rparr>, acts @ db_set_auth (Some nick) (Some a)))"

text \<open>
  Result, the changed row of the session, and what is asked of the database. \<open>newAuth\<close> is
  what the database has at the time of \<open>changed\<close>.
\<close>

definition verify_init ::
    "opie \<Rightarrow> AuthRow option \<Rightarrow> addr \<Rightarrow> nat \<Rightarrow> string \<Rightarrow> (string \<Rightarrow> string option) \<Rightarrow> AuthRow \<Rightarrow> string \<Rightarrow> string \<Rightarrow>
     bool \<times> AuthRow \<times> db_action list" where
  "verify_init op newAuth a alg lastkey decode row nick c =
     (case at_colon c of
        None \<Rightarrow> (False, row, [])
      | Some (first, rest) \<Rightarrow>
          (case check_key op alg lastkey (decode first) of
             None \<Rightarrow> (False, row, [])
           | Some key \<Rightarrow>
               let ask = db_get_auth (Some nick) in
               if changed row newAuth then (False, row, ask)
               else
                 let row = row\<lparr>ar_count := ar_count row - 1\<rparr> in
                 (case op_btoa8 op key of
                    None \<Rightarrow> (False, row, ask)
                  | Some h \<Rightarrow>
                      let row = row\<lparr>ar_hash := h\<rparr>; acts = ask @ db_set_auth (Some nick) (Some a) in
                      (case at_colon rest of
                         None \<Rightarrow> (False, row, acts)
                       | Some (challenge, c2) \<Rightarrow>
                           (case op_parse op challenge of
                              (r, j, count, newseed, k) \<Rightarrow>
                                let row = row\<lparr>ar_count := count\<rparr> in
                                if r \<noteq> 0 \<or> j \<noteq> alg \<or> k \<noteq> 0 then (False, row, acts)
                                else
                                  let row = row\<lparr>ar_seed := newseed\<rparr> in
                                  (case decode c2 of
                                     None \<Rightarrow> (False, row, acts)
                                   | Some key \<Rightarrow> verwrt op a nick key row acts))))))"

definition auth_user_verify ::
    "opie \<Rightarrow> AuthRow option \<Rightarrow> addr \<Rightarrow> AuthRow \<Rightarrow> string \<Rightarrow> string option \<Rightarrow> bool \<times> AuthRow \<times> db_action list" where
  "auth_user_verify op newAuth a row nick response =
     (case response of
        None \<Rightarrow> (False, row, [])
      | Some response \<Rightarrow>
          (case (find_alg (ar_digest row) 0 algids, op_atob8 op (ar_hash row)) of
             (Some alg, Some lastkey) \<Rightarrow>
               (case response_type response of
                  (ty, text, c) \<Rightarrow>
                    if ty = RESPONSE_UNKNOWN then (False, row, [])
                    else if ty = RESPONSE_INIT_HEX then verify_init op newAuth a alg lastkey (op_atob8 op) row nick c
                    else if ty = RESPONSE_INIT_WORD then verify_init op newAuth a alg lastkey (decode_words op) row nick c
                    else
                      (case (case ty of
                               RESPONSE_WORD \<Rightarrow> check_key op alg lastkey (decode_words op c)
                             | RESPONSE_HEX \<Rightarrow> check_key op alg lastkey (op_atob8 op c)
                             | _ \<Rightarrow>
                                 (case check_key op alg lastkey (decode_words op text) of
                                    None \<Rightarrow> check_key op alg lastkey (op_atob8 op text)
                                  | Some k \<Rightarrow> Some k)) of
                         None \<Rightarrow> (False, row, [])
                       | Some key \<Rightarrow>
                           let ask = db_get_auth (Some nick) in
                           if changed row newAuth then (False, row, ask)
                           else verwrt op a nick key (row\<lparr>ar_count := ar_count row - 1\<rparr>) ask))
           | _ \<Rightarrow> (False, row, [])))"

section \<open>Sessions\<close>

datatype au_effect = AuTx addr string string | AuDb db_action | AuFreed addr

record auths =
  auList :: "AuthData_t list"
  auOut :: "au_effect list"

definition au_emit :: "au_effect list \<Rightarrow> auths \<Rightarrow> auths" where
  "au_emit es s = s\<lparr>auOut := auOut s @ es\<rparr>"

text \<open>One pass of \<open>authenticate_thread\<close> over the sessions.\<close>

definition time_out :: "int \<Rightarrow> AuthData_t \<Rightarrow> AuthData_t \<times> au_effect list" where
  "time_out now au =
     (if au_wakeTime au \<noteq> 0 \<and> au_wakeTime au \<le> now \<and> au_state au \<noteq> AUTH_REJECTED
      then (au\<lparr>au_state := AUTH_TIMEDOUT\<rparr>, [AuTx (au_server au) (au_nick au) ''Authentication timed out''])
      else (au, []))"

fun auth_sweep :: "int \<Rightarrow> AuthData_t list \<Rightarrow> AuthData_t list \<times> au_effect list" where
  "auth_sweep now [] = ([], [])"
| "auth_sweep now (au # aus) =
     (let (au, es) = time_out now au; (rest, es') = auth_sweep now aus in
      if au_state au = AUTH_REJECTED \<or> au_state au = AUTH_TIMEDOUT \<or> au_state au = AUTH_DISCONNECT
      then (rest, es @ AuFreed (au_node au) # es')
      else (au # rest, es @ es'))"

definition authenticate_thread :: "int \<Rightarrow> auths \<Rightarrow> auths" where
  "authenticate_thread now s = (let (aus, es) = auth_sweep now (auList s) in au_emit es (s\<lparr>auList := aus\<rparr>))"

definition auth_is :: "addr \<Rightarrow> string \<Rightarrow> AuthData_t \<Rightarrow> bool" where
  "auth_is server nick au \<longleftrightarrow> au_server au = server \<and> strcasecmp nick (au_nick au) = 0"

definition authenticate_check :: "addr \<Rightarrow> string \<Rightarrow> auths \<Rightarrow> bool" where
  "authenticate_check server nick s =
     (case find (auth_is server nick) (auList s) of None \<Rightarrow> False | Some au \<Rightarrow> au_state au = AUTH_ACCEPTED)"

text \<open>The first session of the nick, replaced.\<close>

fun set_session :: "addr \<Rightarrow> string \<Rightarrow> AuthData_t \<Rightarrow> AuthData_t list \<Rightarrow> AuthData_t list" where
  "set_session server nick au' [] = []"
| "set_session server nick au' (au # aus) =
     (if auth_is server nick au then au' # aus else au # set_session server nick au' aus)"

text \<open>
  \<open>row\<close>: the name and row that the database has for the nick, \<open>mem\<close> where a new session
  is allocated, \<open>newAuth\<close> as above. \<open>strcasecmp\<close> of a missing message faults.
\<close>

definition authenticate_state_machine ::
    "opie \<Rightarrow> (string \<times> AuthRow) option \<Rightarrow> AuthRow option \<Rightarrow> addr \<Rightarrow> int \<Rightarrow> addr \<Rightarrow> ptr \<Rightarrow> string \<Rightarrow> string option \<Rightarrow>
     auths \<Rightarrow> auths option" where
  "authenticate_state_machine op row newAuth mem now server channel nick msg s =
     (if channel \<noteq> None then Some s
      else
        (case find (auth_is server nick) (auList s) of
           None \<Rightarrow> do {
             challenge \<leftarrow> auth_user_challenge op (map_option snd row);
             let s = au_emit (map AuDb (db_get_auth (Some nick))) s;
                 s = (case row of
                        None \<Rightarrow> s
                      | Some (nam, r) \<Rightarrow> s\<lparr>auList := \<lparr>au_node = mem, au_server = server, au_nick = nam, au_row = r,
                          au_state = AUTH_CHALLENGE, au_wakeTime = (now + 30) mod 2 ^ 32\<rparr> # auList s\<rparr>) in
             Some (au_emit [AuTx server nick challenge] s)
           }
         | Some au \<Rightarrow>
             (case au_state au of
                AUTH_CHALLENGE \<Rightarrow>
                  (case auth_user_verify op newAuth (au_node au) (au_row au) nick msg of
                     (ok, r, acts) \<Rightarrow>
                       let au = (if ok then au\<lparr>au_row := r, au_state := AUTH_ACCEPTED, au_wakeTime := (now + 30 * 60) mod 2 ^ 32\<rparr>
                                 else au\<lparr>au_row := r, au_state := AUTH_REJECTED, au_wakeTime := now mod 2 ^ 32\<rparr>) in
                       Some (au_emit (map AuDb acts @
                           [AuTx server nick (if ok then ''Authentication accepted for 30min'' else ''Authentication rejected'')])
                         (s\<lparr>auList := set_session server nick au (auList s)\<rparr>)))
              | AUTH_ACCEPTED \<Rightarrow> do {
                  m \<leftarrow> msg;
                  if strcasecmp m ''logoff'' = 0
                  then Some (au_emit [AuTx server nick ''Logged off'']
                    (s\<lparr>auList := set_session server nick (au\<lparr>au_state := AUTH_DISCONNECT, au_wakeTime := (now + 5) mod 2 ^ 32\<rparr>) (auList s)\<rparr>))
                  else Some s
                }
              | _ \<Rightarrow> Some s)))"

section \<open>What an accepted response proves\<close>

lemma at_colon_sublist: "at_colon s = Some (a, b) \<Longrightarrow> sublist a s \<and> sublist b s"
  by (auto simp: at_colon_def)

lemma check_key_Some: "check_key op alg lastkey key = Some k \<longleftrightarrow> key = Some k \<and> op_hash op alg k = lastkey"
  by (auto simp: check_key_def split: option.splits)

lemma decode_words_Some: "decode_words op s = Some k \<longleftrightarrow> op_etob op s = (1, k)"
  by (auto simp: decode_words_def split: prod.splits if_splits)

definition decodes :: "opie \<Rightarrow> string \<Rightarrow> string \<Rightarrow> bool" where
  "decodes op s k \<longleftrightarrow> op_atob8 op s = Some k \<or> op_etob op s = (1, k)"


lemma verify_init_sound:
  assumes "verify_init op newAuth a alg lastkey decode row nick c = (True, row', acts)"
  shows "\<exists>key piece. decode piece = Some key \<and> sublist piece c \<and> op_hash op alg key = lastkey \<and> \<not> changed row newAuth"
  using assms by (auto simp: verify_init_def Let_def check_key_Some split: option.splits prod.splits if_splits dest: at_colon_sublist)

lemma response_parts:
  assumes "response_type response = (ty, piece, c)"
  shows "sublist piece response" "ty \<noteq> RESPONSE_STANDARD \<Longrightarrow> sublist c response"
  using assms by (auto simp: response_type_def split: option.splits dest: at_colon_sublist)

text \<open>The rows the two checks compare agree on everything a response changes.\<close>

lemma not_changed: "\<not> changed row newAuth \<Longrightarrow>
    \<exists>n. newAuth = Some n \<and> ar_count n = ar_count row \<and> ar_hash n = ar_hash row \<and> ar_seed n = ar_seed row"
  by (auto simp: changed_def split: option.splits)

lemma verify_sound:
  assumes "auth_user_verify op newAuth a row nick (Some response) = (True, row', acts)"
  shows "\<exists>alg lastkey key piece. find_alg (ar_digest row) 0 algids = Some alg \<and> op_atob8 op (ar_hash row) = Some lastkey \<and>
    decodes op piece key \<and> sublist piece response \<and> op_hash op alg key = lastkey \<and> \<not> changed row newAuth"
proof -
  from assms obtain alg lastkey where al: "find_alg (ar_digest row) 0 algids = Some alg" "op_atob8 op (ar_hash row) = Some lastkey"
    by (auto simp: auth_user_verify_def split: option.splits)
  obtain ty piece c where ty: "response_type response = (ty, piece, c)" by (cases "response_type response") auto
  note parts = response_parts [OF ty]
  have "\<exists>key piece. decodes op piece key \<and> sublist piece response \<and> op_hash op alg key = lastkey \<and> \<not> changed row newAuth"
  proof (cases ty)
    case RESPONSE_INIT_HEX
    with assms al ty have "verify_init op newAuth a alg lastkey (op_atob8 op) row nick c = (True, row', acts)"
      by (simp add: auth_user_verify_def)
    from verify_init_sound [OF this] parts(2) RESPONSE_INIT_HEX show ?thesis
      by (auto simp: decodes_def intro: sublist_order.order_trans)
  next
    case RESPONSE_INIT_WORD
    with assms al ty have "verify_init op newAuth a alg lastkey (decode_words op) row nick c = (True, row', acts)"
      by (simp add: auth_user_verify_def)
    from verify_init_sound [OF this] parts(2) RESPONSE_INIT_WORD show ?thesis
      by (auto simp: decodes_def decode_words_Some intro: sublist_order.order_trans)
  qed (use assms al ty parts in \<open>auto simp: auth_user_verify_def check_key_Some decodes_def decode_words_Some Let_def
        split: option.splits if_splits\<close>)
  with al show ?thesis by blast
qed

text \<open>Claim C21. A response is accepted only if a part of it decodes to a key whose hash is the
  stored key, with a known digest, and the database still has the count, key and seed of the
  session.\<close>

theorem auth_accept_sound:
  assumes "auth_user_verify op newAuth a row nick msg = (True, row', acts)"
  shows "\<exists>response alg lastkey key piece stored. msg = Some response \<and> sublist piece response \<and>
    (op_atob8 op piece = Some key \<or> op_etob op piece = (1, key)) \<and>
    find_alg (ar_digest row) 0 algids = Some alg \<and> op_atob8 op (ar_hash row) = Some lastkey \<and> op_hash op alg key = lastkey \<and>
    newAuth = Some stored \<and> ar_count stored = ar_count row \<and> ar_hash stored = ar_hash row \<and> ar_seed stored = ar_seed row"
proof (cases msg)
  case None
  with assms show ?thesis by (simp add: auth_user_verify_def)
next
  case (Some response)
  from verify_sound [of op newAuth a row nick response] assms Some not_changed [of row newAuth]
  show ?thesis by (fastforce simp: decodes_def)
qed

definition toy_opie :: opie where
  "toy_opie = \<lparr>op_atob8 = Some, op_btoa8 = Some, op_etob = (\<lambda>s. (0, s)), op_hash = (\<lambda>_ k. k @ ''x''),
     op_parse = (\<lambda>_. (1, 0, 0, [], 0)), op_random = ''otp-md5 1 xx ext''\<rparr>"

definition toy_row :: AuthRow where
  "toy_row = \<lparr>ar_digest = ''md5'', ar_seed = ''s1'', ar_hash = ''kx'', ar_count = 99\<rparr>"

lemma toy_verify:
  "auth_user_verify toy_opie (Some toy_row) 11 toy_row ''bob'' (Some ''hex:k'') =
     (True, toy_row\<lparr>ar_hash := ''k'', ar_count := 98\<rparr>, db_get_auth (Some ''bob'') @ db_set_auth (Some ''bob'') (Some 11))"
proof -
  have "find_alg ''md5'' 0 algids = Some 5" by code_simp
  moreover have "response_type ''hex:k'' = (RESPONSE_HEX, ''hex'', ''k'')" by code_simp
  ultimately show ?thesis
    by (simp add: auth_user_verify_def toy_opie_def toy_row_def check_key_def changed_def verwrt_def)
qed

lemma auth_accept_sound_witness:
  "\<exists>response alg lastkey key piece stored. Some ''hex:k'' = Some response \<and> sublist piece response \<and>
    (op_atob8 toy_opie piece = Some key \<or> op_etob toy_opie piece = (1, key)) \<and>
    find_alg (ar_digest toy_row) 0 algids = Some alg \<and> op_atob8 toy_opie (ar_hash toy_row) = Some lastkey \<and>
    op_hash toy_opie alg key = lastkey \<and>
    Some toy_row = Some stored \<and> ar_count stored = ar_count toy_row \<and> ar_hash stored = ar_hash toy_row \<and> ar_seed stored = ar_seed toy_row"
  by (rule auth_accept_sound [OF toy_verify])

section \<open>A response is good for one time\<close>






section \<open>Sessions over time\<close>

text \<open>Whether a message makes the nick accepted.\<close>

definition accepted_by :: "opie \<Rightarrow> AuthRow option \<Rightarrow> addr \<Rightarrow> ptr \<Rightarrow> string \<Rightarrow> string option \<Rightarrow> auths \<Rightarrow> bool" where
  "accepted_by op newAuth server channel nick msg s \<longleftrightarrow> channel = None \<and>
     (case find (auth_is server nick) (auList s) of
        None \<Rightarrow> False
      | Some au \<Rightarrow> au_state au = AUTH_CHALLENGE \<and> fst (auth_user_verify op newAuth (au_node au) (au_row au) nick msg))"

text \<open>
  Any order of messages and passes of the thread, in time; \<open>u\<close> is the time of the last pass, or of the
  start. The log has the time, server and nick of each accepted response.
\<close>

inductive auth_run :: "opie \<Rightarrow> int \<Rightarrow> int \<Rightarrow> (int \<times> addr \<times> string) list \<Rightarrow> auths \<Rightarrow> bool" for op where
  start: "0 \<le> t \<Longrightarrow> auth_run op t t [] \<lparr>auList = [], auOut = []\<rparr>"
| sweep: "auth_run op u t lg s \<Longrightarrow> t \<le> t' \<Longrightarrow> auth_run op t' t' lg (authenticate_thread t' s)"
| message: "auth_run op u t lg s \<Longrightarrow> t \<le> t' \<Longrightarrow>
    authenticate_state_machine op row newAuth mem t' server channel nick msg s = Some s' \<Longrightarrow>
    auth_run op u t' (if accepted_by op newAuth server channel nick msg s then (t', server, nick) # lg else lg) s'"

inductive_cases auth_runE: "auth_run op u t lg s"

lemma auth_run_time: "auth_run op u t lg s \<Longrightarrow> 0 \<le> u \<and> u \<le> t"
  by (induction rule: auth_run.induct) auto

text \<open>A session that is accepted was accepted at a time of the log, and was not timed out at the last pass.\<close>

definition backed :: "int \<Rightarrow> int \<Rightarrow> (int \<times> addr \<times> string) list \<Rightarrow> AuthData_t \<Rightarrow> bool" where
  "backed u t lg au \<longleftrightarrow> (au_state au = AUTH_ACCEPTED \<longrightarrow>
     (\<exists>\<tau> nk. (\<tau>, au_server au, nk) \<in> set lg \<and> strcasecmp nk (au_nick au) = 0 \<and> 0 \<le> \<tau> \<and> \<tau> \<le> t \<and>
        au_wakeTime au = (\<tau> + 30 * 60) mod 2 ^ 32 \<and> (t + 30 * 60 < 2 ^ 32 \<longrightarrow> u < \<tau> + 30 * 60)))"

lemma backed_mono:
  assumes "backed u t lg au" "t \<le> t'" "set lg \<subseteq> set lg'" shows "backed u t' lg' au"
  unfolding backed_def
proof
  assume "au_state au = AUTH_ACCEPTED"
  with assms(1) obtain \<tau> nk where "(\<tau>, au_server au, nk) \<in> set lg" "strcasecmp nk (au_nick au) = 0" "0 \<le> \<tau>" "\<tau> \<le> t"
    "au_wakeTime au = (\<tau> + 30 * 60) mod 2 ^ 32" "t + 30 * 60 < 2 ^ 32 \<longrightarrow> u < \<tau> + 30 * 60" by (auto simp: backed_def)
  with assms(2,3) show "\<exists>\<tau> nk. (\<tau>, au_server au, nk) \<in> set lg' \<and> strcasecmp nk (au_nick au) = 0 \<and> 0 \<le> \<tau> \<and> \<tau> \<le> t' \<and>
        au_wakeTime au = (\<tau> + 30 * 60) mod 2 ^ 32 \<and> (t' + 30 * 60 < 2 ^ 32 \<longrightarrow> u < \<tau> + 30 * 60)"
    by (intro exI [of _ \<tau>] exI [of _ nk]) auto
qed

lemma backed_swept:
  assumes "backed u t lg au" "t \<le> t'" "au_wakeTime au = 0 \<or> t' < au_wakeTime au" shows "backed t' t' lg au"
  unfolding backed_def
proof
  assume "au_state au = AUTH_ACCEPTED"
  with assms(1) obtain \<tau> nk where b: "(\<tau>, au_server au, nk) \<in> set lg" "strcasecmp nk (au_nick au) = 0" "0 \<le> \<tau>" "\<tau> \<le> t"
    "au_wakeTime au = (\<tau> + 30 * 60) mod 2 ^ 32" by (auto simp: backed_def)
  have "t' < \<tau> + 30 * 60" if "t' + 30 * 60 < 2 ^ 32"
    using assms(2,3) b(3-5) that by simp
  with b assms(2) show "\<exists>\<tau> nk. (\<tau>, au_server au, nk) \<in> set lg \<and> strcasecmp nk (au_nick au) = 0 \<and> 0 \<le> \<tau> \<and> \<tau> \<le> t' \<and>
        au_wakeTime au = (\<tau> + 30 * 60) mod 2 ^ 32 \<and> (t' + 30 * 60 < 2 ^ 32 \<longrightarrow> t' < \<tau> + 30 * 60)"
    by (intro exI [of _ \<tau>] exI [of _ nk]) auto
qed

lemma auth_sweep_from: "au \<in> set (fst (auth_sweep now aus)) \<Longrightarrow>
    au \<in> set aus \<and> au_state au \<notin> {AUTH_REJECTED, AUTH_TIMEDOUT, AUTH_DISCONNECT} \<and> (au_wakeTime au = 0 \<or> now < au_wakeTime au)"
proof (induction aus)
  case (Cons x aus)
  then show ?case by (auto simp: time_out_def Let_def split: prod.splits if_splits)
qed simp

lemma set_session_from: "au \<in> set (set_session server nick au' aus) \<Longrightarrow> au = au' \<or> au \<in> set aus"
  by (induction aus) (auto split: if_splits)

lemma find_session: "find (auth_is server nick) aus = Some au \<Longrightarrow> au \<in> set aus \<and> au_server au = server \<and> strcasecmp nick (au_nick au) = 0"
  by (induction aus) (auto simp: auth_is_def split: if_splits)

lemma message_backed:
  assumes "authenticate_state_machine op row newAuth mem now server channel nick msg s = Some s'"
    and "\<forall>au \<in> set (auList s). backed u t lg au" "t \<le> now" "au \<in> set (auList s')" "0 \<le> u" "u \<le> t"
  shows "backed u now (if accepted_by op newAuth server channel nick msg s then (now, server, nick) # lg else lg) au"
proof -
  let ?lg = "if accepted_by op newAuth server channel nick msg s then (now, server, nick) # lg else lg"
  have old: "backed u now ?lg x" if "x \<in> set (auList s)" for x
  proof (rule backed_mono)
    show "backed u t lg x" using assms(2) that by blast
    show "set lg \<subseteq> set ?lg" by auto
  qed (rule assms(3))
  show ?thesis
  proof (cases "channel = None \<and> find (auth_is server nick) (auList s) \<noteq> None")
    case False
    have "au \<in> set (auList s) \<or> au_state au = AUTH_CHALLENGE"
      using assms(1,4) False
      by (auto simp: authenticate_state_machine_def au_emit_def bind_eq_Some_conv Let_def split: if_splits option.splits prod.splits)
    with old show ?thesis by (auto simp: backed_def)
  next
    case True
    then obtain x where x: "channel = None" "find (auth_is server nick) (auList s) = Some x" by blast
    from find_session [OF x(2)] have x': "x \<in> set (auList s)" "au_server x = server" "strcasecmp nick (au_nick x) = 0" by auto
    have "au \<in> set (auList s) \<or> au_state au \<noteq> AUTH_ACCEPTED \<or>
        (au_server au = server \<and> au_nick au = au_nick x \<and> au_wakeTime au = (now + 30 * 60) mod 2 ^ 32 \<and>
         accepted_by op newAuth server channel nick msg s)"
      using assms(1,4) x x'(2)
      by (cases "au_state x") (auto simp: authenticate_state_machine_def accepted_by_def au_emit_def bind_eq_Some_conv Let_def
          split: if_splits option.splits prod.splits dest!: set_session_from)
    then show ?thesis
    proof (elim disjE)
      assume a: "au_server au = server \<and> au_nick au = au_nick x \<and> au_wakeTime au = (now + 30 * 60) mod 2 ^ 32 \<and>
        accepted_by op newAuth server channel nick msg s"
      then have "(now, au_server au, nick) \<in> set ?lg" by simp
      with a x'(3) assms(3,5,6) show ?thesis unfolding backed_def by (intro impI exI [of _ now] exI [of _ nick]) simp
    qed (use old in \<open>simp_all add: backed_def\<close>)
  qed
qed

lemma auth_run_backed: "auth_run op u t lg s \<Longrightarrow> au \<in> set (auList s) \<Longrightarrow> backed u t lg au"
proof (induction arbitrary: au rule: auth_run.induct)
  case (sweep u t lg s t')
  then have "au \<in> set (auList s)" "au_wakeTime au = 0 \<or> t' < au_wakeTime au"
    using auth_sweep_from [of au t' "auList s"] by (auto simp: authenticate_thread_def au_emit_def split: prod.splits)
  with sweep backed_swept show ?case by blast
next
  case (message u t lg s t' row newAuth mem server channel nick msg s')
  then show ?case using message_backed [of op row newAuth mem t' server channel nick msg s s' u t lg au] auth_run_time by blast
qed simp

text \<open>Claim C23. In every run of messages and passes of the sweeping thread, a nick that passes
  the check on a server stems from a response that was accepted there less than thirty minutes
  before the last pass of the thread, or after it: the check itself looks at no clock. This is
  for times below 2^32 seconds.\<close>

theorem session_was_accepted:
  assumes "auth_run op u t lg s" "t + 30 * 60 < 2 ^ 32" "authenticate_check server nick s"
  shows "\<exists>\<tau> nk stored. (\<tau>, server, nk) \<in> set lg \<and> \<tau> \<le> t \<and> u < \<tau> + 30 * 60 \<and>
    strcasecmp nk stored = 0 \<and> strcasecmp nick stored = 0"
proof -
  from assms(3) obtain au where au: "find (auth_is server nick) (auList s) = Some au" "au_state au = AUTH_ACCEPTED"
    by (auto simp: authenticate_check_def split: option.splits)
  from find_session [OF au(1)] have m: "au \<in> set (auList s)" "au_server au = server" "strcasecmp nick (au_nick au) = 0" by auto
  from auth_run_backed [OF assms(1) m(1)] au(2) m(2,3) assms(2) show ?thesis unfolding backed_def by blast
qed

lemma session_was_accepted_witness:
  "\<exists>(\<tau> :: int) nk stored. (\<tau>, 5 :: addr, nk) \<in> set [(1010, 5, ''bob'')] \<and> \<tau> \<le> 1010 \<and> 1000 < \<tau> + 30 * 60 \<and>
    strcasecmp nk stored = 0 \<and> strcasecmp ''bob'' stored = 0"
proof -
  let ?s0 = "\<lparr>auList = [], auOut = []\<rparr>"
  have l: "length (fmt_d 98) < 10" using length_nat_digits [of 98 2] by (simp add: fmt_d_def)
  define c where "c = ''otp-md5 '' @ fmt_d 98 @ '' s1 ext''"
  let ?au = "\<lparr>au_node = 11, au_server = 5, au_nick = ''bob'', au_row = toy_row, au_state = AUTH_CHALLENGE, au_wakeTime = 1030\<rparr>"
  have m1: "authenticate_state_machine toy_opie (Some (''bob'', toy_row)) None 11 1000 5 None ''bob'' None ?s0 =
      Some (au_emit (map AuDb (db_get_auth (Some ''bob'')) @ [AuTx 5 ''bob'' c]) (?s0\<lparr>auList := [?au]\<rparr>))"
    using l by (simp add: authenticate_state_machine_def auth_user_challenge_def toy_row_def au_emit_def c_def)
  let ?s1 = "au_emit (map AuDb (db_get_auth (Some ''bob'')) @ [AuTx 5 ''bob'' c]) (?s0\<lparr>auList := [?au]\<rparr>)"
  have is5: "auth_is 5 ''bob'' ?au" by (simp add: auth_is_def)
  obtain s2 where m2: "authenticate_state_machine toy_opie None (Some toy_row) 12 1010 5 None ''bob'' (Some ''hex:k'') ?s1 = Some s2"
    "authenticate_check 5 ''bob'' s2"
    using toy_verify is5
    by (simp add: authenticate_state_machine_def authenticate_check_def authenticate_thread_def au_emit_def time_out_def auth_is_def Let_def)
  have acc: "accepted_by toy_opie (Some toy_row) 5 None ''bob'' (Some ''hex:k'') ?s1"
    using toy_verify is5 by (simp add: accepted_by_def au_emit_def)
  have "auth_run toy_opie 1000 1000 (if accepted_by toy_opie None 5 None ''bob'' None ?s0 then (1000, 5, ''bob'') # [] else []) ?s1"
    by (rule auth_run.message [OF auth_run.start [of 1000] _ m1]) simp_all
  then have "auth_run toy_opie 1000 1000 [] ?s1" by (simp add: accepted_by_def)
  from auth_run.message [OF this _ m2(1)] acc have "auth_run toy_opie 1000 1010 [(1010, 5, ''bob'')] s2" by simp
  then show ?thesis by (rule session_was_accepted [OF _ _ m2(2)]) simp
qed

end
