(* ===== verification/CorePlugins.thy ===== *)
theory CorePlugins
  imports Bot BotCmds DbThread Regexp
begin

text \<open>
  The small plugins: \<open>core.c\<close> (search, seen, notice, symbol), \<open>trout.c\<close> (fish),
  \<open>fart.c\<close> and \<open>tracredir.c\<close>. The search index, the printing of times and the
  symbol table are parameters.
\<close>

section \<open>Shared\<close>

text \<open>\<open>Can't find channel %s\<close>.\<close>

definition no_channel :: "string \<Rightarrow> string" where
  "no_channel chan = ''Can't find channel '' @ chan"

text \<open>\<open>snprintf\<close> of a format whose only conversions are \<open>%s\<close>; \<open>None\<close> when an argument is missing.\<close>

fun fmt_strings :: "string \<Rightarrow> string list \<Rightarrow> string option" where
  "fmt_strings [] args = Some []"
| "fmt_strings [c] args = Some [c]"
| "fmt_strings (c # d # cs) args =
     (if c = CHR ''%'' \<and> d = CHR ''s'' then
        (case args of [] \<Rightarrow> None | a # as \<Rightarrow> map_option (\<lambda>r. a @ r) (fmt_strings cs as))
      else map_option (Cons c) (fmt_strings (d # cs) args))"

text \<open>The commands of a plugin, each with a function number, a help number and a tag.\<close>

definition add_commands :: "((addr \<times> addr) option \<times> string \<times> nat \<times> BotCmdHelpFunc option \<times> nat) list \<Rightarrow> cmd_tree \<Rightarrow> cmd_tree" where
  "add_commands cs t = fold (\<lambda>(mem, c, f, h, tag). botCmd_add mem c (Some (FnPlugin f)) h tag) cs t"

section \<open>Core\<close>

definition core_commands :: "string list" where
  "core_commands = [''search'', ''seen'', ''notice'', ''symbol'']"

definition core_initialize :: "(addr \<times> addr) option list \<Rightarrow> (nat \<Rightarrow> BotCmdHelpFunc option) \<Rightarrow> cmd_tree \<Rightarrow> cmd_tree" where
  "core_initialize mems helps t = add_commands (map (\<lambda>(i, mem, c). (mem, c, i, helps i, 0)) (zip [0..<4] (zip mems core_commands))) t"

definition core_shutdown :: "cmd_tree \<Rightarrow> cmd_tree" where
  "core_shutdown t = fold botCmd_remove core_commands t"

text \<open>The search: \<open>results\<close> has the time and the printed score of each; \<open>fmt_time\<close> prints a time.\<close>

definition SEARCH_WINDOW :: int where
  "SEARCH_WINDOW = 15 * 60"

definition search_line :: "(int \<Rightarrow> string) \<Rightarrow> string \<Rightarrow> int \<times> string \<Rightarrow> string option" where
  "search_line fmt_time url r =
     (case r of (time, score) \<Rightarrow>
        let l = ''    '' @ url @ ''/'' @ fmt_time time @ ''/'' @ fmt_time (time + SEARCH_WINDOW) @ '' ('' @ score @ '')'' in
        if length l \<le> length url + 70 then Some l else None)"

definition lucene_search_text ::
    "(int \<Rightarrow> string) \<Rightarrow> (int \<times> string) list option \<Rightarrow> ptr \<Rightarrow> ptr \<Rightarrow> string \<Rightarrow> string option \<Rightarrow> world \<Rightarrow> world option" where
  "lucene_search_text fmt_time results server channel who piece w =
     (case (server, channel, piece) of
        (Some sv, Some c, Some _) \<Rightarrow>
          (case results of
             None \<Rightarrow> tx_msg sv TX_PRIVMSG (Some who) (Some ''No matches found'') w
           | Some rs \<Rightarrow> do {
               ch \<leftarrow> wChans w c;
               let top = ''Top '' @ fmt_d (int (length rs)) @ '' matches:'' in
               if length top > 16 then None
               else do {
                 w \<leftarrow> tx_msg sv TX_PRIVMSG (Some who) (Some top) w;
                 foldM (\<lambda>r w. do { l \<leftarrow> search_line fmt_time (ch_url ch) r; tx_msg sv TX_PRIVMSG (Some who) (Some l) w }) rs w
               }
             })
      | _ \<Rightarrow> Some w)"

text \<open>The difference of two clock readings in seconds and microseconds.\<close>

function carry :: "int \<Rightarrow> int \<Rightarrow> int \<times> int" where
  "carry sec usec = (if usec < 0 then carry (sec - 1) (usec + 1000000) else (sec, usec))"
  by pat_completeness auto
termination by (relation "measure (\<lambda>(s, u). nat (- u))") auto

declare carry.simps [simp del]

definition took :: "int \<times> int \<Rightarrow> int \<times> int \<Rightarrow> string" where
  "took start stop = (case carry (fst stop - fst start) (snd stop - snd start) of
     (sec, usec) \<Rightarrow> ''Search took '' @ fmt_d sec @ ''.'' @ fmt_06 usec @ ''s'')"

text \<open>
  The channel and the rest of the command: in a private message it is named first. \<open>Inl\<close>
  a reply when there is none.
\<close>

definition which_channel :: "string \<Rightarrow> addr \<Rightarrow> ptr \<Rightarrow> string \<Rightarrow> world \<Rightarrow> (string + addr \<times> string) option" where
  "which_channel usage server channel msg w =
     (case channel of
        Some c \<Rightarrow> Some (Inr (c, msg))
      | None \<Rightarrow>
          (case CommandLineParse (Some msg) of
             (_, None) \<Rightarrow> Some (Inl usage)
           | (chan, Some rest) \<Rightarrow> do {
               c \<leftarrow> FindChannel (Some server) (the chan) w;
               Some (case c of None \<Rightarrow> Inl (no_channel (the chan)) | Some a \<Rightarrow> Inr (a, rest))
             }))"

definition botCmdSearch ::
    "(int \<Rightarrow> string) \<Rightarrow> (int \<Rightarrow> string \<Rightarrow> (int \<times> string) list option) \<Rightarrow> (int \<times> int) \<times> (int \<times> int) \<Rightarrow>
     ptr \<Rightarrow> ptr \<Rightarrow> string \<Rightarrow> string option \<Rightarrow> world \<Rightarrow> world option" where
  "botCmdSearch fmt_time clucene clock server channel who msg w =
     (case (server, msg) of
        (Some sv, Some m) \<Rightarrow> do {
          r \<leftarrow> which_channel ''You must specify \"search #channel text\"'' sv channel m w;
          case r of
            Inl reply \<Rightarrow> tx_msg sv TX_PRIVMSG (Some who) (Some reply) w
          | Inr (c, search) \<Rightarrow> do {
              ch \<leftarrow> wChans w c;
              if ch_url ch = [] then tx_msg sv TX_PRIVMSG (Some who) (Some ''No URL configured'') w
              else do {
                w \<leftarrow> tx_msg sv TX_PRIVMSG (Some who)
                  (Some (''Searching '' @ ch_channel ch @ '' for '' @ [CHR 0x22] @ search @ [CHR 0x22] @ ''...'')) w;
                w \<leftarrow> lucene_search_text fmt_time (clucene (ch_channelId ch) search) (Some sv) (Some c) who (Some search) w;
                let t = took (fst clock) (snd clock) in
                if length t < 32 + length search + length (ch_channel ch) then tx_msg sv TX_PRIVMSG (Some who) (Some t) w
                else None
              }
            }
        }
      | _ \<Rightarrow> Some w)"

text \<open>\<open>rows\<close>: what the database knows of the nick in the channel.\<close>

definition botCmdSeen ::
    "int \<Rightarrow> (addr \<Rightarrow> string \<Rightarrow> db_row list option) \<Rightarrow> ptr \<Rightarrow> ptr \<Rightarrow> string \<Rightarrow> string option \<Rightarrow> world \<Rightarrow> world option" where
  "botCmdSeen now rows server channel who msg w =
     (case (server, msg) of
        (Some sv, Some m) \<Rightarrow> do {
          r \<leftarrow> which_channel ''You must specify \"seen #channel nick\"'' sv channel m w;
          case r of
            Inl reply \<Rightarrow> tx_msg sv TX_PRIVMSG (Some who) (Some reply) w
          | Inr (c, nick) \<Rightarrow> do {
              ch \<leftarrow> wChans w c;
              let w = emit_db (db_get_seen (Some (ch_channelId ch, c)) (Some nick)) w in do {
              message \<leftarrow> result_get_seen nick (ch_channel ch) (channel = None) (rows c nick);
              if channel = None then tx_msg sv TX_PRIVMSG (Some who) (Some message) w
              else LoggedChannelMessage now sv c message w }
            }
        }
      | _ \<Rightarrow> Some w)"

definition notice_text :: "IRCChannel_t \<Rightarrow> string" where
  "notice_text ch = snprintf MAX_STRING_LENGTH
     (if ch_url ch \<noteq> [] then ''This channel ('' @ ch_channel ch @ '') is logged -- '' @ ch_url ch
      else ''This channel ('' @ ch_channel ch @ '') has no configured URL for logs'')"

definition botCmdNotice :: "int \<Rightarrow> ptr \<Rightarrow> ptr \<Rightarrow> string \<Rightarrow> string option \<Rightarrow> world \<Rightarrow> world option" where
  "botCmdNotice now server channel who msg w =
     (case server of
        None \<Rightarrow> Some w
      | Some sv \<Rightarrow>
          (case channel of
             Some c \<Rightarrow> do { ch \<leftarrow> wChans w c; LoggedChannelMessage now sv c (notice_text ch) w }
           | None \<Rightarrow>
               (case msg of
                  None \<Rightarrow> tx_msg sv TX_PRIVMSG (Some who) (Some ''Try \"help notice\"'') w
                | Some m \<Rightarrow> do {
                    it \<leftarrow> FindChannel (Some sv) m w;
                    case it of
                      None \<Rightarrow> tx_msg sv TX_PRIVMSG (Some who) (Some (snprintf MAX_STRING_LENGTH (no_channel m))) w
                    | Some c \<Rightarrow> do { ch \<leftarrow> wChans w c; tx_msg sv TX_PRIVMSG (Some who) (Some (notice_text ch)) w }
                  })))"

text \<open>\<open>strtol\<close> and the symbol table together: \<open>symbol\<close>.\<close>

definition botCmdSymbol :: "(string \<Rightarrow> string) \<Rightarrow> ptr \<Rightarrow> ptr \<Rightarrow> string \<Rightarrow> string option \<Rightarrow> world \<Rightarrow> world option" where
  "botCmdSymbol symbol server channel who msg w =
     (case (server, channel) of
        (Some sv, None) \<Rightarrow>
          tx_msg sv TX_PRIVMSG (Some who) (Some (case msg of None \<Rightarrow> ''Try \"help symbol\"'' | Some m \<Rightarrow> symbol m)) w
      | _ \<Rightarrow> Some w)"

section \<open>Fish\<close>

record FishCmd_t =
  fc_command :: string
  fishSelf :: string
  fishOtherAdj :: string
  fishOther :: string

definition fishCmds :: "FishCmd_t list" where
  "fishCmds =
     [\<lparr>fc_command = ''trout'', fishSelf = ''dumps a bucket of trout onto %s'',
        fishOtherAdj = ''slaps %s with a %s trout on behalf of %s...'',
        fishOther = ''slaps %s with a trout on behalf of %s...''\<rparr>,
      \<lparr>fc_command = ''salmon'', fishSelf = ''throws several salmon at %s.  SPLAT!'',
        fishOtherAdj = ''connects with the head of %s with a %s salmon on behalf of %s...'',
        fishOther = ''plants a salmon upside the head of %s on behalf of %s...''\<rparr>,
      \<lparr>fc_command = ''parrot'', fishSelf = ''looks around the channel for parrots for %s to smack.'',
        fishOtherAdj = ''points at %s and says \"Nice %s parrot you got there!\" on behalf of %s...'',
        fishOther = ''dislodges the parrot from the shoulder of %s on behalf of %s...''\<rparr>]"

definition fish_initialize :: "(addr \<times> addr) option list \<Rightarrow> nat \<Rightarrow> BotCmdHelpFunc option \<Rightarrow> cmd_tree \<Rightarrow> cmd_tree" where
  "fish_initialize mems f help t =
     add_commands (map (\<lambda>(i, mem, c). (mem, fc_command c, f, help, i)) (zip [0..<3] (zip mems fishCmds))) t"

definition fish_shutdown :: "cmd_tree \<Rightarrow> cmd_tree" where
  "fish_shutdown t = fold (\<lambda>c. botCmd_remove (fc_command c)) fishCmds t"

text \<open>The message; \<open>strlen\<close> of a missing target faults.\<close>

definition fish_message :: "FishCmd_t \<Rightarrow> string \<Rightarrow> string option \<Rightarrow> string option \<Rightarrow> string option" where
  "fish_message cmd who msg line =
     (if msg = None then map_option (snprintf (length (fishSelf cmd) + length who + 1)) (fmt_strings (fishSelf cmd) [who])
      else (case CommandLineParse line of
          (None, _) \<Rightarrow> None
        | (Some target, Some adj) \<Rightarrow>
            map_option (snprintf (length (fishOtherAdj cmd) + length who + length target + length adj + 1))
              (fmt_strings (fishOtherAdj cmd) [target, adj, who])
        | (Some target, None) \<Rightarrow>
            map_option (snprintf (length (fishOther cmd) + length who + length target + 1))
              (fmt_strings (fishOther cmd) [target, who])))"

definition botCmdFish :: "int \<Rightarrow> FishCmd_t option \<Rightarrow> addr \<Rightarrow> ptr \<Rightarrow> string \<Rightarrow> string option \<Rightarrow> world \<Rightarrow> world option" where
  "botCmdFish now tag server channel who msg w =
     (case tag of
        None \<Rightarrow> Some w
      | Some cmd \<Rightarrow>
          (case channel of
             Some c \<Rightarrow> do { m \<leftarrow> fish_message cmd who msg msg; LoggedActionMessage now server c m w }
           | None \<Rightarrow>
               (case msg of
                  None \<Rightarrow> tx_msg server TX_PRIVMSG (Some who)
                    (Some (''Try '' @ [CHR 0x22] @ ''help '' @ fc_command cmd @ [CHR 0x22])) w
                | Some _ \<Rightarrow>
                    let (chan, line) = CommandLineParse msg in do {
                    it \<leftarrow> FindChannel (Some server) (the chan) w;
                    case it of
                      None \<Rightarrow> tx_msg server TX_PRIVMSG (Some who) (Some (no_channel (the chan))) w
                    | Some c \<Rightarrow> do { m \<leftarrow> fish_message cmd who msg line; LoggedActionMessage now server c m w } })))"

definition botHelpFish :: "FishCmd_t option \<Rightarrow> string option" where
  "botHelpFish tag =
     (case tag of
        None \<Rightarrow> Some ''Unknown help for unknown abuse fish!''
      | Some cmd \<Rightarrow> fmt_strings (''Abuses someone with a %s on your behalf.  Syntax: (in channel) %s nick [adjective] '' @
          ''(in privmsg) %s #channel nick [adjective]'') [fc_command cmd, fc_command cmd, fc_command cmd])"

section \<open>Answers to what is said\<close>

definition fartRegexp :: string where
  "fartRegexp = ''(?i)('' @ [CHR 0x5C] @ ''B|'' @ [CHR 0x5C] @ ''s|^)farts?('' @ [CHR 0x5C] @ ''s|'' @ [CHR 0x5C] @ ''.|,|$)''"

definition regexpFuncFart :: "int \<Rightarrow> addr \<Rightarrow> ptr \<Rightarrow> string \<Rightarrow> world \<Rightarrow> world option" where
  "regexpFuncFart now server channel who w =
     (case channel of None \<Rightarrow> Some w | Some c \<Rightarrow> LoggedActionMessage now server c (''farts back at '' @ who) w)"

definition regexpFuncTrac :: "int \<Rightarrow> addr \<Rightarrow> ptr \<Rightarrow> string \<Rightarrow> int list \<Rightarrow> int \<Rightarrow> world \<Rightarrow> world option" where
  "regexpFuncTrac now server channel msg ov ovecsize w =
     (case channel of
        None \<Rightarrow> Some w
      | Some c \<Rightarrow>
          (case regexp_substring msg ov ovecsize 1 of
             None \<Rightarrow> Some w
           | Some ticketid \<Rightarrow> LoggedActionMessage now server c (''http://code.mythtv.org/trac/ticket/'' @ ticketid) w))"

end
