(* ===== verification/Logging.thy ===== *)
theory Logging
  imports LinkedList RingQueue CString
begin

text \<open>
  \<open>bot/src/logging.c\<close>: messages are queued by every thread and written by one to the
  outputs of a linked list. An output whose \<open>write\<close> fails is marked, taken off the list
  and closed, and that is itself a message. The queue and the list are those of \<open>RingQueue\<close> and
  \<open>LinkedList\<close>, on their stores. \<open>None\<close> stands for a fault, an overrun of a buffer or a
  call that never returns.
\<close>

section \<open>Data\<close>

datatype LogLevel_t = LOG_EMERG | LOG_ALERT | LOG_CRIT | LOG_ERR | LOG_WARNING | LOG_NOTICE | LOG_INFO | LOG_DEBUG | LOG_UNKNOWN

fun level_num :: "LogLevel_t \<Rightarrow> nat" where
  "level_num LOG_EMERG = 0"
| "level_num LOG_ALERT = 1"
| "level_num LOG_CRIT = 2"
| "level_num LOG_ERR = 3"
| "level_num LOG_WARNING = 4"
| "level_num LOG_NOTICE = 5"
| "level_num LOG_INFO = 6"
| "level_num LOG_DEBUG = 7"
| "level_num LOG_UNKNOWN = 8"

instantiation LogLevel_t :: linorder
begin

definition less_eq_LogLevel_t :: "LogLevel_t \<Rightarrow> LogLevel_t \<Rightarrow> bool" where
  "less_eq_LogLevel_t x y \<longleftrightarrow> level_num x \<le> level_num y"

definition less_LogLevel_t :: "LogLevel_t \<Rightarrow> LogLevel_t \<Rightarrow> bool" where
  "less_LogLevel_t x y \<longleftrightarrow> level_num x < level_num y"

instance
proof
  fix x y :: LogLevel_t
  assume "x \<le> y" "y \<le> x"
  then show "x = y" by (cases x; cases y) (simp_all add: less_eq_LogLevel_t_def)
qed (auto simp: less_eq_LogLevel_t_def less_LogLevel_t_def)

end

lemma level_max [simp]: "(x :: LogLevel_t) \<le> LOG_UNKNOWN"
  by (cases x) (simp_all add: less_eq_LogLevel_t_def)

lemma unknown_printed [simp]: "\<not> LOG_UNKNOWN < (x :: LogLevel_t)"
  by (simp add: not_less)

record LoggingItem_t =
  li_level :: LogLevel_t
  li_thread :: "64 word"
  li_file :: string
  li_line :: int
  li_function :: string
  li_tv :: "int \<times> int"
  li_message :: string

datatype LogFileType_t = LT_CONSOLE | LT_FILE | LT_SYSLOG | LT_NCURSES

record LogFileChain_t =
  lf_fd :: int
  lf_type :: LogFileType_t
  lf_aborted :: bool
  lf_filename :: "string option"

datatype log_effect =
    Wrote int string
  | Closed int
  | Syslogged LogLevel_t string
  | CursesLog string
  | OpenLog int
  | StartLogThread

record logs =
  lgStore :: "LogFileChain_t ll_store"
  lgList :: ptr
  lgQ :: "LoggingItem_t QueueObject_t option"
  lgLevel :: LogLevel_t
  lgDebug :: bool
  lgOut :: "log_effect list"

text \<open>
  What the world around says: the thread that runs and the time, whether \<open>malloc\<close> succeeds for
  messages, whether \<open>write\<close> on a descriptor fails, the date and time of a second as
  \<open>strftime\<close> prints it, and the name of a registered thread.
\<close>

record log_env =
  le_self :: "64 word"
  le_now :: "int \<times> int"
  le_malloc :: bool
  le_fails :: "int \<Rightarrow> bool"
  le_date :: "int \<Rightarrow> string"
  le_thread :: "64 word \<Rightarrow> string option"

definition lg_emit :: "log_effect list \<Rightarrow> logs \<Rightarrow> logs" where
  "lg_emit es s = s\<lparr>lgOut := lgOut s @ es\<rparr>"

definition LOGLINE_MAX :: nat where
  "LOGLINE_MAX = 1024"

section \<open>Queueing a message\<close>

definition log_item :: "log_env \<Rightarrow> LogLevel_t \<Rightarrow> string \<Rightarrow> int \<Rightarrow> string \<Rightarrow> string \<Rightarrow> LoggingItem_t" where
  "log_item e lev file ln fn txt =
     \<lparr>li_level = lev, li_thread = le_self e, li_file = file, li_line = ln, li_function = fn, li_tv = le_now e,
      li_message = snprintf LOGLINE_MAX txt\<rparr>"

text \<open>\<open>txt\<close>: the format with its arguments filled in. A full queue blocks the caller.\<close>

definition LogPrintLine :: "log_env \<Rightarrow> LogLevel_t \<Rightarrow> string \<Rightarrow> int \<Rightarrow> string \<Rightarrow> string \<Rightarrow> logs \<Rightarrow> logs option" where
  "LogPrintLine e lev file ln fn txt s =
     (if lev > lgLevel s \<or> \<not> le_malloc e then Some s
      else do {
        (_, q, _) \<leftarrow> QueueEnqueueItem (Some (log_item e lev file ln fn txt)) (lgQ s);
        Some (s\<lparr>lgQ := q\<rparr>)
      })"

abbreviation log_here :: "log_env \<Rightarrow> LogLevel_t \<Rightarrow> int \<Rightarrow> string \<Rightarrow> string \<Rightarrow> logs \<Rightarrow> logs option" where
  "log_here e lev ln fn txt \<equiv> LogPrintLine e lev ''logging.c'' ln fn txt"

section \<open>The list of outputs\<close>

text \<open>\<open>mem\<close>: what \<open>malloc\<close> gives, which is not tested.\<close>

definition LogOutputAdd :: "ptr \<Rightarrow> int \<Rightarrow> LogFileType_t \<Rightarrow> string option \<Rightarrow> logs \<Rightarrow> logs option" where
  "LogOutputAdd mem fd ty ident s = do {
     a \<leftarrow> mem;
     nam \<leftarrow> (if ty = LT_FILE then map_option Some ident else Some None);
     let f = \<lparr>lf_fd = (if ty = LT_FILE \<or> ty = LT_CONSOLE then fd else -1), lf_type = ty, lf_aborted = False, lf_filename = nam\<rparr>;
         st = lgStore s;
         st = st\<lparr>items := (items st)(a \<mapsto> \<lparr>prev = None, next = None, list = None, payload = f\<rparr>)\<rparr> in do {
     st \<leftarrow> LinkedListAdd (lgList s) (Some a) UNLOCKED AT_TAIL st;
     Some (s\<lparr>lgStore := st\<rparr>) }
   }"

definition LogOutputRemove :: "ptr \<Rightarrow> logs \<Rightarrow> (bool \<times> logs) option" where
  "LogOutputRemove logfile s =
     (case logfile of
        None \<Rightarrow> Some (False, s)
      | Some a \<Rightarrow> do {
          n \<leftarrow> items (lgStore s) a;
          let f = payload n;
              s = (if lf_type f = LT_FILE \<or> lf_type f = LT_CONSOLE then lg_emit [Closed (lf_fd f)] s else s) in do {
          st \<leftarrow> LinkedListRemove (lgList s) (Some a) LOCKED (lgStore s);
          Some (True, s\<lparr>lgStore := st\<lparr>items := (items st)(a := None)\<rparr>\<rparr>) }
        })"

definition LogWrite :: "log_env \<Rightarrow> addr \<Rightarrow> string \<Rightarrow> logs \<Rightarrow> logs option" where
  "LogWrite e a txt s = do {
     n \<leftarrow> items (lgStore s) a;
     let fd = lf_fd (payload n) in
     if lf_aborted (payload n) then Some s
     else let s = lg_emit [Wrote fd txt] s in
       if \<not> le_fails e fd then Some s
       else do {
         s \<leftarrow> log_here e LOG_UNKNOWN 316 ''LogWrite'' (''Closed Log output on fd '' @ fmt_d fd @ '' due to errors'') s;
         st \<leftarrow> wr_item (Some a) (\<lambda>n. n\<lparr>payload := payload n\<lparr>lf_aborted := True\<rparr>\<rparr>) (lgStore s);
         Some (s\<lparr>lgStore := st\<rparr>)
       }
   }"

text \<open>\<open>opened\<close>: what \<open>open\<close> gives, -1 for an error.\<close>

definition LogFileAdd :: "log_env \<Rightarrow> ptr \<Rightarrow> int \<Rightarrow> string option \<Rightarrow> logs \<Rightarrow> (bool \<times> logs) option" where
  "LogFileAdd e mem opened filename s =
     (case filename of
        None \<Rightarrow> Some (False, s)
      | Some f \<Rightarrow>
          if opened = -1 then Some (False, s)
          else do {
            s \<leftarrow> LogOutputAdd mem opened LT_FILE (Some f) s;
            s \<leftarrow> log_here e LOG_INFO 343 ''LogFileAdd'' (''Added log file: '' @ f) s;
            Some (True, s)
          })"

definition LogStdoutAdd :: "log_env \<Rightarrow> bool \<Rightarrow> ptr \<Rightarrow> logs \<Rightarrow> (bool \<times> logs) option" where
  "LogStdoutAdd e Daemon mem s =
     (if Daemon then Some (False, s)
      else do {
        s \<leftarrow> LogOutputAdd mem 1 LT_CONSOLE None s;
        s \<leftarrow> log_here e LOG_INFO 220 ''LogStdoutAdd'' ''Added console logging'' s;
        Some (True, s)
      })"

definition LogSyslogAdd :: "log_env \<Rightarrow> ptr \<Rightarrow> int \<Rightarrow> logs \<Rightarrow> (bool \<times> logs) option" where
  "LogSyslogAdd e mem facility s = do {
     s \<leftarrow> LogOutputAdd mem (-1) LT_SYSLOG None (lg_emit [OpenLog facility] s);
     s \<leftarrow> log_here e LOG_INFO 229 ''LogSyslogAdd'' ''Added syslog logging'' s;
     Some (True, s)
   }"

definition LogNcursesAdd :: "log_env \<Rightarrow> bool \<Rightarrow> ptr \<Rightarrow> logs \<Rightarrow> (bool \<times> logs) option" where
  "LogNcursesAdd e Daemon mem s =
     (if Daemon then Some (False, s)
      else do {
        s \<leftarrow> LogOutputAdd mem (-1) LT_NCURSES None s;
        s \<leftarrow> log_here e LOG_INFO 355 ''LogNcursesAdd'' ''Added logging to ncurses'' s;
        Some (True, s)
      })"

partial_function (option) LogFile_find :: "string \<Rightarrow> LogFileChain_t ll_store \<Rightarrow> ptr \<Rightarrow> ptr option" where
  "LogFile_find f st p =
     (case p of
        None \<Rightarrow> Some None
      | Some a \<Rightarrow> do {
          n \<leftarrow> items st a;
          if lf_type (payload n) = LT_FILE
          then do { nam \<leftarrow> lf_filename (payload n); if nam = f then Some (Some a) else LogFile_find f st (next n) }
          else LogFile_find f st (next n)
        })"

declare LogFile_find.simps [code]

definition LogFileRemove :: "log_env \<Rightarrow> string option \<Rightarrow> logs \<Rightarrow> (bool \<times> logs) option" where
  "LogFileRemove e filename s =
     (case filename of
        None \<Rightarrow> Some (False, s)
      | Some f \<Rightarrow> do {
          st \<leftarrow> LinkedListLock (lgList s) (lgStore s);
          l \<leftarrow> rd_list st (lgList s);
          it \<leftarrow> LogFile_find f st (head l);
          let s = s\<lparr>lgStore := st\<rparr> in do {
          s \<leftarrow> (case it of
                  Some a \<Rightarrow> do {
                    (_, s) \<leftarrow> LogOutputRemove (Some a) s;
                    log_here e LOG_INFO 382 ''LogFileRemove'' (''Removed log file: '' @ f) s
                  }
                | None \<Rightarrow> log_here e LOG_UNKNOWN 391 ''LogFileRemove'' (''Can't find log file: '' @ f) s);
          st \<leftarrow> LinkedListUnlock (lgList s) (lgStore s);
          Some (it \<noteq> None, s\<lparr>lgStore := st\<rparr>) }
        })"

definition DEBUG_FILE :: string where
  "DEBUG_FILE = ''/var/log/beirdobot/debug.log''"

text \<open>The handler of SIGUSR1; only the main thread acts.\<close>

definition logging_toggle_debug :: "log_env \<Rightarrow> 64 word \<Rightarrow> ptr \<Rightarrow> int \<Rightarrow> logs \<Rightarrow> logs option" where
  "logging_toggle_debug e main mem opened s =
     (if le_self e \<noteq> main then Some s
      else if lgDebug s then do {
        s \<leftarrow> log_here e LOG_CRIT 166 ''logging_toggle_debug'' ''Received SIGUSR1, disabling debug logging'' s;
        (_, s) \<leftarrow> LogFileRemove e (Some DEBUG_FILE) s;
        Some (s\<lparr>lgDebug := False\<rparr>)
      } else do {
        s \<leftarrow> log_here e LOG_CRIT 171 ''logging_toggle_debug'' ''Received SIGUSR1, enabling debug logging'' s;
        (_, s) \<leftarrow> LogFileAdd e mem opened (Some DEBUG_FILE) s;
        Some (s\<lparr>lgDebug := True\<rparr>)
      })"

definition LOG_LOCAL7 :: int where
  "LOG_LOCAL7 = 23 * 8"

definition logging_initialize :: "log_env \<Rightarrow> bool \<Rightarrow> bool \<Rightarrow> ptr \<Rightarrow> ptr \<times> ptr \<times> ptr \<Rightarrow> int \<Rightarrow> logs \<Rightarrow> logs option" where
  "logging_initialize e Daemon ncurses lmem mems opened s = do {
     let (m1, m2, m3) = mems; (lst, st) = LinkedListCreate lmem (lgStore s);
         s = s\<lparr>lgQ := QueueCreate 1024, lgList := lst, lgStore := st\<rparr> in do {
     (_, s) \<leftarrow> (if \<not> ncurses then LogStdoutAdd e Daemon m1 s else LogNcursesAdd e Daemon m1 s);
     (_, s) \<leftarrow> LogSyslogAdd e m2 LOG_LOCAL7 s;
     (_, s) \<leftarrow> (if lgDebug s then LogFileAdd e m3 opened (Some DEBUG_FILE) s else Some (False, s));
     Some (lg_emit [StartLogThread] s) }
   }"

section \<open>Writing a message\<close>

definition log_stamp :: "log_env \<Rightarrow> LoggingItem_t \<Rightarrow> string" where
  "log_stamp e it = le_date e (fst (li_tv it)) @ snprintf 9 (''.'' @ fmt_06 (snd (li_tv it)) @ '' '')"

text \<open>The lines; \<open>sprintf\<close> into a buffer of \<open>MAX_STRING_LENGTH\<close>.\<close>

definition log_buffer :: "string \<Rightarrow> string option" where
  "log_buffer l = (if length l < MAX_STRING_LENGTH then Some l else None)"

definition console_line :: "log_env \<Rightarrow> LoggingItem_t \<Rightarrow> string" where
  "console_line e it = log_stamp e it @ '' '' @ li_message it @ [CHR 0x0A]"

definition file_line :: "log_env \<Rightarrow> LoggingItem_t \<Rightarrow> string" where
  "file_line e it = log_stamp e it @ '' '' @ (case le_thread e (li_thread it) of None \<Rightarrow> ''thread_unknown'' | Some t \<Rightarrow> t) @
     '' '' @ li_file it @ '':'' @ fmt_d (li_line it) @ '' ('' @ li_function it @ '') - '' @ li_message it @ [CHR 0x0A]"

definition log_one :: "log_env \<Rightarrow> LoggingItem_t \<Rightarrow> addr \<Rightarrow> logs \<Rightarrow> logs option" where
  "log_one e it a s = do {
     n \<leftarrow> items (lgStore s) a;
     s \<leftarrow> (case lf_type (payload n) of
             LT_SYSLOG \<Rightarrow> Some (lg_emit [Syslogged (li_level it) (li_message it)] s)
           | LT_CONSOLE \<Rightarrow> do { l \<leftarrow> log_buffer (console_line e it); LogWrite e a l s }
           | LT_FILE \<Rightarrow> do { l \<leftarrow> log_buffer (file_line e it); LogWrite e a l s }
           | LT_NCURSES \<Rightarrow> do { l \<leftarrow> log_buffer (console_line e it); Some (lg_emit [CursesLog l] s) });
     n \<leftarrow> items (lgStore s) a;
     if lf_aborted (payload n) then map_option snd (LogOutputRemove (Some a) s) else Some s
   }"

text \<open>The walk over the list reads \<open>next\<close> before the output may be removed and freed.\<close>

partial_function (option) log_walk :: "log_env \<Rightarrow> LoggingItem_t \<Rightarrow> ptr \<Rightarrow> logs \<Rightarrow> logs option" where
  "log_walk e it p s =
     (case p of
        None \<Rightarrow> Some s
      | Some a \<Rightarrow> do {
          n \<leftarrow> items (lgStore s) a;
          s \<leftarrow> log_one e it a s;
          log_walk e it (next n) s
        })"

declare log_walk.simps [code]

definition LogItemOutput :: "log_env \<Rightarrow> LoggingItem_t option \<Rightarrow> logs \<Rightarrow> logs option" where
  "LogItemOutput e item s =
     (case item of
        None \<Rightarrow> Some s
      | Some it \<Rightarrow> do {
          st \<leftarrow> LinkedListLock (lgList s) (lgStore s);
          l \<leftarrow> rd_list st (lgList s);
          s \<leftarrow> log_walk e it (head l) (s\<lparr>lgStore := st\<rparr>);
          st \<leftarrow> LinkedListUnlock (lgList s) (lgStore s);
          Some (s\<lparr>lgStore := st\<rparr>)
        })"

text \<open>
  \<open>LogFlushOutput\<close>: until the queue is empty; the wait of no time ends with
  \<open>ETIMEDOUT\<close>. \<open>LoggingThread\<close> does the same, except that it waits for ever.
\<close>

partial_function (option) LogFlushOutput :: "log_env \<Rightarrow> logs \<Rightarrow> logs option" where
  "LogFlushOutput e s = do {
     (item, q, _) \<leftarrow> QueueDequeueItem 0 False (lgQ s) (case lgQ s of None \<Rightarrow> [] | Some q \<Rightarrow> [(q, ETIMEDOUT, False)]);
     let s = s\<lparr>lgQ := q\<rparr> in
     case item of
       None \<Rightarrow> Some s
     | Some it \<Rightarrow> do { s \<leftarrow> LogItemOutput e (Some it) s; LogFlushOutput e s }
   }"

declare LogFlushOutput.simps [code]

text \<open>One pass of \<open>LoggingThread\<close>; the queue is not empty when the wait ends.\<close>

definition LoggingThread :: "log_env \<Rightarrow> logs \<Rightarrow> logs option" where
  "LoggingThread e s = do {
     (item, q, _) \<leftarrow> QueueDequeueItem (-1) False (lgQ s) [];
     LogItemOutput e item (s\<lparr>lgQ := q\<rparr>)
   }"

section \<open>Every output gets every message\<close>

lemma dseg_payload:
  "h a = Some n \<Longrightarrow> dseg (h(a \<mapsto> n\<lparr>payload := f\<rparr>)) L p xs q = dseg h L p xs q"
  by (induction xs arbitrary: p) auto

lemma ll_rep_payload:
  "ll_rep st L xs \<Longrightarrow> items st a = Some n \<Longrightarrow> ll_rep (st\<lparr>items := (items st)(a \<mapsto> n\<lparr>payload := f\<rparr>)\<rparr>) L xs"
  by (simp add: ll_rep_def dseg_payload)

lemma ll_rep_free:
  "ll_rep st L xs \<Longrightarrow> a \<notin> set xs \<Longrightarrow> ll_rep (st\<lparr>items := (items st)(a := None)\<rparr>) L xs"
  using dseg_frame [of xs "{a}" "(items st)(a := None)" "items st"] by (auto simp: ll_rep_def)

lemma log_rep_next:
  "ll_rep st L (ys @ a # zs) \<Longrightarrow> \<exists>n. items st a = Some n \<and> next n = hd_opt zs"
  by (cases zs) (auto simp: ll_rep_def dseg_append)

definition queue_room :: "logs \<Rightarrow> nat \<Rightarrow> bool" where
  "queue_room s n \<longleftrightarrow> (\<exists>q. lgQ s = Some q \<and> q_inv q \<and> length (q_contents q) + n \<le> q_capacity q)"

definition queued_items :: "logs \<Rightarrow> LoggingItem_t list" where
  "queued_items s = (case lgQ s of None \<Rightarrow> [] | Some q \<Rightarrow> q_contents q)"

lemma log_print_room:
  assumes "queue_room s (Suc n)"
  shows "\<exists>q. LogPrintLine e lev file ln fn txt s = Some (s\<lparr>lgQ := q\<rparr>) \<and> queue_room (s\<lparr>lgQ := q\<rparr>) n \<and>
    queued_items (s\<lparr>lgQ := q\<rparr>) = queued_items s @ (if lev \<le> lgLevel s \<and> le_malloc e then [log_item e lev file ln fn txt] else [])"
proof (cases "lev > lgLevel s \<or> \<not> le_malloc e")
  case True
  have "s\<lparr>lgQ := lgQ s\<rparr> = s" by simp
  with assms True show ?thesis
    by (intro exI [of _ "lgQ s"]) (auto simp: LogPrintLine_def queue_room_def)
next
  case False
  from assms obtain q where q: "lgQ s = Some q" "q_inv q" "length (q_contents q) + Suc n \<le> q_capacity q"
    by (auto simp: queue_room_def)
  from ring_fifo.enq [OF q(2), of "log_item e lev file ln fn txt"] q(3) obtain q' where
    q': "try_enqueue (log_item e lev file ln fn txt) q = Some q'" "q_inv q'"
    "q_contents q' = q_contents q @ [log_item e lev file ln fn txt]" "q_capacity q' = q_capacity q" by auto
  from q'(1) obtain b sg where "QueueEnqueueItem (Some (log_item e lev file ln fn txt)) (Some q) = Some (b, Some q', sg)"
    by (auto simp: try_enqueue_def bind_eq_Some_conv split: prod.splits)
  with False q q' show ?thesis
    by (intro exI [of _ "Some q'"]) (auto simp: LogPrintLine_def queue_room_def queued_items_def not_less)
qed

definition close_item :: "log_env \<Rightarrow> int \<Rightarrow> LoggingItem_t" where
  "close_item e fd = log_item e LOG_UNKNOWN ''logging.c'' 316 ''LogWrite'' (''Closed Log output on fd '' @ fmt_d fd @ '' due to errors'')"

definition out_fails :: "log_env \<Rightarrow> LogFileChain_t \<Rightarrow> bool" where
  "out_fails e f \<longleftrightarrow> (lf_type f = LT_CONSOLE \<or> lf_type f = LT_FILE) \<and> le_fails e (lf_fd f)"

definition shown :: "log_env \<Rightarrow> LoggingItem_t \<Rightarrow> LogFileChain_t \<Rightarrow> log_effect list" where
  "shown e it f =
     (case lf_type f of
        LT_SYSLOG \<Rightarrow> [Syslogged (li_level it) (li_message it)]
      | LT_NCURSES \<Rightarrow> [CursesLog (console_line e it)]
      | LT_CONSOLE \<Rightarrow> Wrote (lf_fd f) (console_line e it) # (if out_fails e f then [Closed (lf_fd f)] else [])
      | LT_FILE \<Rightarrow> Wrote (lf_fd f) (file_line e it) # (if out_fails e f then [Closed (lf_fd f)] else []))"

definition log_fits :: "log_env \<Rightarrow> LoggingItem_t \<Rightarrow> bool" where
  "log_fits e it \<longleftrightarrow> length (console_line e it) < MAX_STRING_LENGTH \<and> length (file_line e it) < MAX_STRING_LENGTH"

definition log_file :: "logs \<Rightarrow> addr \<Rightarrow> LogFileChain_t" where
  "log_file s a = the (ll_data (lgStore s) a)"

definition log_outputs :: "logs \<Rightarrow> addr \<Rightarrow> addr list \<Rightarrow> bool" where
  "log_outputs s L xs \<longleftrightarrow> lgList s = Some L \<and> ll_rep (lgStore s) L xs \<and>
     (\<forall>a \<in> set xs. \<not> lf_aborted (log_file s a))"

lemma log_file_items: "items (lgStore s) a = Some n \<Longrightarrow> payload n = log_file s a"
  by (simp add: log_file_def ll_data_def)

lemma log_write_ok:
  assumes "items (lgStore s) a = Some n" "\<not> lf_aborted (log_file s a)" "\<not> le_fails e (lf_fd (log_file s a))"
  shows "LogWrite e a txt s = Some (lg_emit [Wrote (lf_fd (log_file s a)) txt] s)"
  using assms log_file_items [OF assms(1)] by (simp add: LogWrite_def lg_emit_def Let_def)

lemma log_write_fails:
  assumes n: "items (lgStore s) a = Some n" and "\<not> lf_aborted (log_file s a)" "le_fails e (lf_fd (log_file s a))"
    and "queue_room s (Suc k)"
  shows "\<exists>q. LogWrite e a txt s = Some (s\<lparr>lgOut := lgOut s @ [Wrote (lf_fd (log_file s a)) txt], lgQ := q,
      lgStore := (lgStore s)\<lparr>items := (items (lgStore s))(a \<mapsto> n\<lparr>payload := payload n\<lparr>lf_aborted := True\<rparr>\<rparr>)\<rparr>\<rparr>) \<and>
    queue_room (s\<lparr>lgQ := q\<rparr>) k \<and>
    queued_items (s\<lparr>lgQ := q\<rparr>) = queued_items s @ (if lgLevel s = LOG_UNKNOWN \<and> le_malloc e then [close_item e (lf_fd (log_file s a))] else [])"
proof -
  let ?s = "lg_emit [Wrote (lf_fd (log_file s a)) txt] s"
  have room: "queue_room ?s (Suc k)" "queued_items ?s = queued_items s" "lgLevel ?s = lgLevel s"
    using assms(4) by (simp_all add: queue_room_def queued_items_def lg_emit_def)
  have lev: "LOG_UNKNOWN \<le> lgLevel s \<longleftrightarrow> lgLevel s = LOG_UNKNOWN"
    by (metis level_max antisym order_refl)
  from log_print_room [OF room(1), of e LOG_UNKNOWN "''logging.c''" 316 "''LogWrite''"
      "''Closed Log output on fd '' @ fmt_d (lf_fd (log_file s a)) @ '' due to errors''"] obtain q where
    q: "log_here e LOG_UNKNOWN 316 ''LogWrite'' (''Closed Log output on fd '' @ fmt_d (lf_fd (log_file s a)) @ '' due to errors'') ?s
        = Some (?s\<lparr>lgQ := q\<rparr>)" "queue_room (?s\<lparr>lgQ := q\<rparr>) k"
      "queued_items (?s\<lparr>lgQ := q\<rparr>) = queued_items s @ (if lgLevel s = LOG_UNKNOWN \<and> le_malloc e then [close_item e (lf_fd (log_file s a))] else [])"
    unfolding room(2,3) lev close_item_def by blast
  have e: "LogWrite e a txt s = Some (s\<lparr>lgOut := lgOut s @ [Wrote (lf_fd (log_file s a)) txt], lgQ := q,
      lgStore := (lgStore s)\<lparr>items := (items (lgStore s))(a \<mapsto> n\<lparr>payload := payload n\<lparr>lf_aborted := True\<rparr>\<rparr>)\<rparr>\<rparr>)"
    using n assms(2,3) q(1) log_file_items [OF n] unfolding LogWrite_def
    by (simp add: Let_def wr_item_def) (simp add: lg_emit_def)
  show ?thesis
    using e q(2,3) by (intro exI [of _ q]) (simp add: queue_room_def queued_items_def lg_emit_def)
qed

definition closing :: "log_env \<Rightarrow> logs \<Rightarrow> addr list \<Rightarrow> LoggingItem_t list" where
  "closing e s as = (if lgLevel s = LOG_UNKNOWN \<and> le_malloc e then map (\<lambda>a. close_item e (lf_fd (log_file s a))) as else [])"

definition failing :: "log_env \<Rightarrow> logs \<Rightarrow> addr \<Rightarrow> bool" where
  "failing e s a \<longleftrightarrow> out_fails e (log_file s a)"

lemma remove_output:
  assumes L: "lgList s = Some L" and rep: "ll_rep (lgStore s) L (ys @ a # zs)"
    and f: "lf_type (log_file s a) = LT_FILE \<or> lf_type (log_file s a) = LT_CONSOLE"
  shows "\<exists>st. LogOutputRemove (Some a) s = Some (True, s\<lparr>lgOut := lgOut s @ [Closed (lf_fd (log_file s a))], lgStore := st\<rparr>) \<and>
    ll_rep st L (ys @ zs) \<and> (\<forall>b. b \<noteq> a \<longrightarrow> ll_data st b = ll_data (lgStore s) b) \<and> ll_locked st L = ll_locked (lgStore s) L"
proof -
  from log_rep_next [OF rep] obtain n where n: "items (lgStore s) a = Some n" by blast
  from LinkedListRemove_mid [OF rep, of LOCKED] obtain st where st: "LinkedListRemove (Some L) (Some a) LOCKED (lgStore s) = Some st"
    "ll_rep st L (ys @ zs)" "ll_data st = ll_data (lgStore s)" "ll_locked st L = ll_locked (lgStore s) L" by blast
  let ?st = "st\<lparr>items := (items st)(a := None)\<rparr>"
  have "a \<notin> set (ys @ zs)" using ll_rep_distinct [OF rep] by auto
  then have rep': "ll_rep ?st L (ys @ zs)" using st(2) by (rule ll_rep_free [rotated])
  have data: "\<forall>b. b \<noteq> a \<longrightarrow> ll_data ?st b = ll_data (lgStore s) b"
    using st(3) by (auto simp: ll_data_def fun_eq_iff)
  have "LogOutputRemove (Some a) s = Some (True, s\<lparr>lgOut := lgOut s @ [Closed (lf_fd (log_file s a))], lgStore := ?st\<rparr>)"
    using n f st(1) L log_file_items [OF n] by (simp add: LogOutputRemove_def Let_def lg_emit_def)
  with rep' data st(4) show ?thesis by (intro exI [of _ ?st]) (simp add: ll_locked_def)
qed

lemma abort_output:
  assumes rep: "ll_rep (lgStore s) L xs" and n: "items (lgStore s) a = Some n"
  shows "ll_rep ((lgStore s)\<lparr>items := (items (lgStore s))(a \<mapsto> n\<lparr>payload := payload n\<lparr>lf_aborted := True\<rparr>\<rparr>)\<rparr>) L xs"
  by (rule ll_rep_payload [OF rep n])

lemma write_failing:
  assumes o: "log_outputs s L (ys @ a # zs)" and f: "out_fails e (log_file s a)" and room: "queue_room s (Suc k)"
  shows "\<exists>s1 s2. LogWrite e a txt s = Some s1 \<and> lf_aborted (log_file s1 a) \<and> (\<exists>n. items (lgStore s1) a = Some n) \<and>
    LogOutputRemove (Some a) s1 = Some (True, s2) \<and> log_outputs s2 L (ys @ zs) \<and>
    lgOut s2 = lgOut s @ [Wrote (lf_fd (log_file s a)) txt, Closed (lf_fd (log_file s a))] \<and>
    queued_items s2 = queued_items s @ closing e s [a] \<and> queue_room s2 k \<and>
    (\<forall>b. b \<noteq> a \<longrightarrow> log_file s2 b = log_file s b) \<and> lgLevel s2 = lgLevel s \<and> ll_locked (lgStore s2) L = ll_locked (lgStore s) L"
proof -
  from o have L: "lgList s = Some L" and rep: "ll_rep (lgStore s) L (ys @ a # zs)"
    and live: "\<forall>b \<in> set (ys @ a # zs). \<not> lf_aborted (log_file s b)" by (simp_all add: log_outputs_def)
  from log_rep_next [OF rep] obtain n where n: "items (lgStore s) a = Some n" by blast
  from f have ty: "lf_type (log_file s a) = LT_FILE \<or> lf_type (log_file s a) = LT_CONSOLE" "le_fails e (lf_fd (log_file s a))"
    by (auto simp: out_fails_def)
  from live have na: "\<not> lf_aborted (log_file s a)" by simp
  let ?st = "(lgStore s)\<lparr>items := (items (lgStore s))(a \<mapsto> n\<lparr>payload := payload n\<lparr>lf_aborted := True\<rparr>\<rparr>)\<rparr>"
  from log_write_fails [OF n na ty(2) room, of "txt"] obtain q where
    w: "LogWrite e a txt s = Some (s\<lparr>lgOut := lgOut s @ [Wrote (lf_fd (log_file s a)) txt], lgQ := q, lgStore := ?st\<rparr>)"
      and q: "queue_room (s\<lparr>lgQ := q\<rparr>) k"
      "queued_items (s\<lparr>lgQ := q\<rparr>) = queued_items s @ closing e s [a]" unfolding closing_def by auto
  let ?s1 = "s\<lparr>lgOut := lgOut s @ [Wrote (lf_fd (log_file s a)) txt], lgQ := q, lgStore := ?st\<rparr>"
  have f1: "log_file ?s1 a = (log_file s a)\<lparr>lf_aborted := True\<rparr>" "\<forall>b. b \<noteq> a \<longrightarrow> log_file ?s1 b = log_file s b"
    using n by (simp_all add: log_file_def ll_data_def)
  have lk: "ll_locked ?st L = ll_locked (lgStore s) L" by (simp add: ll_locked_def)
  have "ll_rep (lgStore ?s1) L (ys @ a # zs)" using abort_output [OF rep n] by simp
  then obtain st where r: "LogOutputRemove (Some a) ?s1 = Some (True, ?s1\<lparr>lgOut := lgOut ?s1 @ [Closed (lf_fd (log_file ?s1 a))], lgStore := st\<rparr>)"
    "ll_rep st L (ys @ zs)" "\<forall>b. b \<noteq> a \<longrightarrow> ll_data st b = ll_data (lgStore ?s1) b" "ll_locked st L = ll_locked (lgStore ?s1) L"
    using remove_output [of ?s1 L ys a zs] f1(1) ty(1) L by auto
  let ?s2 = "?s1\<lparr>lgOut := lgOut ?s1 @ [Closed (lf_fd (log_file ?s1 a))], lgStore := st\<rparr>"
  have f2: "\<forall>b. b \<noteq> a \<longrightarrow> log_file ?s2 b = log_file s b"
    using r(3) f1(2) by (simp add: log_file_def)
  have "a \<notin> set (ys @ zs)" using ll_rep_distinct [OF rep] by auto
  then have "log_outputs ?s2 L (ys @ zs)" using L r(2) live f2 unfolding log_outputs_def by auto
  moreover have "queue_room ?s2 k" "queued_items ?s2 = queued_items s @ closing e s [a]"
    using q by (simp_all add: queue_room_def queued_items_def)
  moreover have "lgOut ?s2 = lgOut s @ [Wrote (lf_fd (log_file s a)) txt, Closed (lf_fd (log_file s a))]"
    using f1(1) by simp
  ultimately show ?thesis using w r(1,4) lk f1(1) f2 by (intro exI [of _ ?s1] exI [of _ ?s2]) simp
qed

lemma log_one_step:
  assumes o: "log_outputs s L (ys @ a # zs)" and fit: "log_fits e it"
    and room: "queue_room s (length (filter (failing e s) [a]) + k)"
  shows "\<exists>s2. log_one e it a s = Some s2 \<and> log_outputs s2 L (ys @ filter (\<lambda>b. \<not> failing e s b) [a] @ zs) \<and>
    lgOut s2 = lgOut s @ shown e it (log_file s a) \<and> queued_items s2 = queued_items s @ closing e s (filter (failing e s) [a]) \<and>
    queue_room s2 k \<and> (\<forall>b. b \<noteq> a \<or> \<not> failing e s a \<longrightarrow> log_file s2 b = log_file s b) \<and> lgLevel s2 = lgLevel s \<and>
    ll_locked (lgStore s2) L = ll_locked (lgStore s) L"
proof -
  from o have rep: "ll_rep (lgStore s) L (ys @ a # zs)" and na: "\<not> lf_aborted (log_file s a)" by (simp_all add: log_outputs_def)
  from log_rep_next [OF rep] obtain n where n: "items (lgStore s) a = Some n" by blast
  note p = log_file_items [OF n]
  from fit have b: "log_buffer (console_line e it) = Some (console_line e it)" "log_buffer (file_line e it) = Some (file_line e it)"
    by (simp_all add: log_fits_def log_buffer_def)
  show ?thesis
  proof (cases "failing e s a")
    case True
    then have f: "out_fails e (log_file s a)" by (simp add: failing_def)
    define l where "l = (if lf_type (log_file s a) = LT_FILE then file_line e it else console_line e it)"
    from True room have "queue_room s (Suc k)" by simp
    from write_failing [OF o f this, of l] obtain s1 s2 n1 where
      w: "LogWrite e a l s = Some s1" "lf_aborted (log_file s1 a)" "items (lgStore s1) a = Some n1"
        "LogOutputRemove (Some a) s1 = Some (True, s2)" and s2: "log_outputs s2 L (ys @ zs)"
        "lgOut s2 = lgOut s @ [Wrote (lf_fd (log_file s a)) l, Closed (lf_fd (log_file s a))]"
        "queued_items s2 = queued_items s @ closing e s [a]" "queue_room s2 k"
        "\<forall>b. b \<noteq> a \<longrightarrow> log_file s2 b = log_file s b" "lgLevel s2 = lgLevel s" "ll_locked (lgStore s2) L = ll_locked (lgStore s) L"
      by blast
    have "lf_type (log_file s a) = LT_FILE \<or> lf_type (log_file s a) = LT_CONSOLE" using f by (auto simp: out_fails_def)
    then have "log_one e it a s = Some s2 \<and> shown e it (log_file s a) = [Wrote (lf_fd (log_file s a)) l, Closed (lf_fd (log_file s a))]"
      using n p b w log_file_items [OF w(3)] f by (auto simp: log_one_def l_def shown_def)
    with True s2 show ?thesis by simp
  next
    case False
    then have "log_one e it a s = Some (lg_emit (shown e it (log_file s a)) s)"
      using n p na b log_write_ok [OF n na]
      by (cases "lf_type (log_file s a)") (simp_all add: log_one_def shown_def out_fails_def failing_def lg_emit_def)
    moreover have "log_outputs (lg_emit es s) L xs = log_outputs s L xs" "queue_room (lg_emit es s) = queue_room s"
      "queued_items (lg_emit es s) = queued_items s" for es xs
      by (simp_all add: log_outputs_def log_file_def queue_room_def queued_items_def lg_emit_def fun_eq_iff)
    ultimately show ?thesis using False o room by (simp add: closing_def lg_emit_def log_file_def)
  qed
qed

lemma closing_cong: "lgLevel s' = lgLevel s \<Longrightarrow> \<forall>a \<in> set as. log_file s' a = log_file s a \<Longrightarrow> closing e s' as = closing e s as"
  by (simp add: closing_def)

lemma log_walk_all:
  "log_outputs s L (ys @ zs) \<Longrightarrow> log_fits e it \<Longrightarrow> queue_room s (length (filter (failing e s) zs) + k) \<Longrightarrow>
   \<exists>s2. log_walk e it (hd_opt zs) s = Some s2 \<and> log_outputs s2 L (ys @ filter (\<lambda>b. \<not> failing e s b) zs) \<and>
    lgOut s2 = lgOut s @ concat (map (\<lambda>a. shown e it (log_file s a)) zs) \<and>
    queued_items s2 = queued_items s @ closing e s (filter (failing e s) zs) \<and>
    queue_room s2 k \<and> (\<forall>b. b \<notin> set (filter (failing e s) zs) \<longrightarrow> log_file s2 b = log_file s b) \<and> lgLevel s2 = lgLevel s \<and>
    ll_locked (lgStore s2) L = ll_locked (lgStore s) L"
proof (induction zs arbitrary: s ys)
  case Nil
  then show ?case by (simp add: log_walk.simps [of e it None] closing_def)
next
  case (Cons a zs)
  from Cons.prems(1) have rep: "ll_rep (lgStore s) L (ys @ a # zs)" by (simp add: log_outputs_def)
  from log_rep_next [OF rep] obtain n where n: "items (lgStore s) a = Some n" "next n = hd_opt zs" by blast
  have "queue_room s (length (filter (failing e s) [a]) + (length (filter (failing e s) zs) + k))"
    using Cons.prems(3) by (simp split: if_splits)
  from log_one_step [OF Cons.prems(1,2) this] obtain s1 where
    s1: "log_one e it a s = Some s1" "log_outputs s1 L ((ys @ filter (\<lambda>b. \<not> failing e s b) [a]) @ zs)"
      "lgOut s1 = lgOut s @ shown e it (log_file s a)" "queued_items s1 = queued_items s @ closing e s (filter (failing e s) [a])"
      "queue_room s1 (length (filter (failing e s) zs) + k)"
      "\<forall>b. b \<noteq> a \<or> \<not> failing e s a \<longrightarrow> log_file s1 b = log_file s b" "lgLevel s1 = lgLevel s"
      "ll_locked (lgStore s1) L = ll_locked (lgStore s) L" unfolding append_assoc by blast
  have "a \<notin> set zs" using ll_rep_distinct [OF rep] by simp
  then have same: "\<forall>b \<in> set zs. log_file s1 b = log_file s b" using s1(6) by auto
  then have f: "\<forall>b \<in> set zs. failing e s1 b = failing e s b" by (simp add: failing_def)
  then have fz: "filter (failing e s1) zs = filter (failing e s) zs" "filter (\<lambda>b. \<not> failing e s1 b) zs = filter (\<lambda>b. \<not> failing e s b) zs"
    by (auto intro: filter_cong)
  have cl: "closing e s1 (filter (failing e s) zs) = closing e s (filter (failing e s) zs)"
    by (rule closing_cong) (use s1(7) same in auto)
  have sh: "map (\<lambda>a. shown e it (log_file s1 a)) zs = map (\<lambda>a. shown e it (log_file s a)) zs" using same by simp
  from s1(5) have room: "queue_room s1 (length (filter (failing e s1) zs) + k)" by (simp only: fz)
  from Cons.IH [OF s1(2) Cons.prems(2) room] obtain s2 where
    s2: "log_walk e it (hd_opt zs) s1 = Some s2" "log_outputs s2 L ((ys @ filter (\<lambda>b. \<not> failing e s b) [a]) @ filter (\<lambda>b. \<not> failing e s b) zs)"
      "lgOut s2 = lgOut s1 @ concat (map (\<lambda>a. shown e it (log_file s a)) zs)"
      "queued_items s2 = queued_items s1 @ closing e s (filter (failing e s) zs)" "queue_room s2 k"
      "\<forall>b. b \<notin> set (filter (failing e s) zs) \<longrightarrow> log_file s2 b = log_file s1 b" "lgLevel s2 = lgLevel s1"
      "ll_locked (lgStore s2) L = ll_locked (lgStore s1) L" unfolding fz cl sh by blast
  have w: "log_walk e it (hd_opt (a # zs)) s = Some s2"
    using n s1(1) s2(1) by (subst log_walk.simps) simp
  have files: "\<forall>b. b \<notin> set (filter (failing e s) (a # zs)) \<longrightarrow> log_file s2 b = log_file s b"
    using s1(6) s2(6) by auto
  have "closing e s (filter (failing e s) [a]) @ closing e s (filter (failing e s) zs) = closing e s (filter (failing e s) (a # zs))"
    by (simp add: closing_def)
  with w files s1 s2 show ?case by (intro exI [of _ s2]) auto
qed

lemma lock_list:
  assumes "log_outputs s L xs" "ll_locked (lgStore s) L = (\<not> held)"
  shows "\<exists>st l. wr_list (lgList s) (\<lambda>l. l\<lparr>mutex := held\<rparr>) (lgStore s) = Some st \<and> log_outputs (s\<lparr>lgStore := st\<rparr>) L xs \<and>
    ll_locked st L = held \<and> log_file (s\<lparr>lgStore := st\<rparr>) = log_file s \<and> rd_list st (lgList s) = Some l \<and> head l = hd_opt xs"
  using assms by (auto simp: log_outputs_def ll_rep_def wr_list_def ll_locked_def log_file_def ll_data_def rd_list_def fun_eq_iff)

lemma item_output:
  assumes o: "log_outputs s L xs" and lk: "\<not> ll_locked (lgStore s) L" and fit: "log_fits e it"
    and room: "queue_room s (length (filter (failing e s) xs) + k)"
  shows "\<exists>s2. LogItemOutput e (Some it) s = Some s2 \<and> log_outputs s2 L (filter (\<lambda>b. \<not> failing e s b) xs) \<and>
    lgOut s2 = lgOut s @ concat (map (\<lambda>a. shown e it (log_file s a)) xs) \<and>
    queued_items s2 = queued_items s @ closing e s (filter (failing e s) xs) \<and>
    queue_room s2 k \<and> (\<forall>b. b \<notin> set (filter (failing e s) xs) \<longrightarrow> log_file s2 b = log_file s b) \<and> lgLevel s2 = lgLevel s \<and>
    \<not> ll_locked (lgStore s2) L"
proof -
  from lock_list [OF o, of True] lk obtain st l where st: "wr_list (lgList s) (\<lambda>l. l\<lparr>mutex := True\<rparr>) (lgStore s) = Some st"
    "log_outputs (s\<lparr>lgStore := st\<rparr>) L ([] @ xs)" "ll_locked st L" "log_file (s\<lparr>lgStore := st\<rparr>) = log_file s"
    "rd_list st (lgList s) = Some l" "head l = hd_opt xs" by auto
  let ?s = "s\<lparr>lgStore := st\<rparr>"
  have f: "failing e ?s = failing e s" by (simp add: failing_def st(4) fun_eq_iff)
  have c: "closing e ?s = closing e s" by (rule ext) (simp add: closing_def st(4))
  have room': "queue_room ?s (length (filter (failing e ?s) xs) + k)" using room by (simp add: queue_room_def f)
  from log_walk_all [OF st(2) fit room'] obtain s2 where
    s2: "log_walk e it (hd_opt xs) ?s = Some s2" "log_outputs s2 L (filter (\<lambda>b. \<not> failing e s b) xs)"
      "lgOut s2 = lgOut s @ concat (map (\<lambda>a. shown e it (log_file s a)) xs)"
      "queued_items s2 = queued_items s @ closing e s (filter (failing e s) xs)" "queue_room s2 k"
      "\<forall>b. b \<notin> set (filter (failing e s) xs) \<longrightarrow> log_file s2 b = log_file s b" "lgLevel s2 = lgLevel s" "ll_locked (lgStore s2) L"
    using st(3) by (auto simp: f c st(4) queued_items_def)
  from lock_list [OF s2(2), of False] s2(8) obtain st2 where
    st2: "wr_list (lgList s2) (\<lambda>l. l\<lparr>mutex := False\<rparr>) (lgStore s2) = Some st2"
      "log_outputs (s2\<lparr>lgStore := st2\<rparr>) L (filter (\<lambda>b. \<not> failing e s b) xs)" "\<not> ll_locked st2 L"
      "log_file (s2\<lparr>lgStore := st2\<rparr>) = log_file s2" by auto
  have L: "lgList s = Some L" "lgList s2 = Some L" using o s2(2) by (simp_all add: log_outputs_def)
  have "LinkedListLock (lgList s) (lgStore s) = Some st" "LinkedListUnlock (lgList s2) (lgStore s2) = Some st2"
    using L lk st(1) st2(1) by (auto simp: LinkedListLock_def LinkedListUnlock_def rd_list_def wr_list_def ll_locked_def split: option.splits)
  then have "LogItemOutput e (Some it) s = Some (s2\<lparr>lgStore := st2\<rparr>)"
    using st(5,6) s2(1) by (simp add: LogItemOutput_def)
  with s2 st2 show ?thesis by (intro exI [of _ "s2\<lparr>lgStore := st2\<rparr>"]) (simp add: queued_items_def queue_room_def)
qed

text \<open>Taking a message from the queue.\<close>

lemma flush_take:
  assumes "queue_room s n"
  shows "queued_items s = [] \<Longrightarrow> \<exists>s'. LogFlushOutput e s = Some s' \<and> s' = s"
    and "queued_items s = it # its \<Longrightarrow> \<exists>q. LogFlushOutput e s = do { s \<leftarrow> LogItemOutput e (Some it) (s\<lparr>lgQ := q\<rparr>); LogFlushOutput e s } \<and>
      queue_room (s\<lparr>lgQ := q\<rparr>) (Suc n) \<and> queued_items (s\<lparr>lgQ := q\<rparr>) = its"
proof -
  from assms obtain q where q: "lgQ s = Some q" "q_inv q" "length (q_contents q) + n \<le> q_capacity q" by (auto simp: queue_room_def)
  note fl = q_flags_contents [OF q(2)]
  have same: "s\<lparr>lgQ := Some q\<rparr> = s" using q(1) by simp
  show "\<exists>s'. LogFlushOutput e s = Some s' \<and> s' = s" if "queued_items s = []"
    using that q fl same by (subst LogFlushOutput.simps) (simp add: QueueDequeueItem_def queued_items_def Let_def)
  show "\<exists>q. LogFlushOutput e s = do { s \<leftarrow> LogItemOutput e (Some it) (s\<lparr>lgQ := q\<rparr>); LogFlushOutput e s } \<and>
      queue_room (s\<lparr>lgQ := q\<rparr>) (Suc n) \<and> queued_items (s\<lparr>lgQ := q\<rparr>) = its" if c: "queued_items s = it # its"
  proof -
    have ne: "\<not> qempty q" using c q(1) fl by (simp add: queued_items_def)
    note t = Queue_take_inv [OF q(2) ne]
    define q' where "q' = fst (snd (Queue_take q))"
    have t': "fst (Queue_take q) = Some it" "q_contents q' = its" "q_contents q = it # its"
      using t(2) c q(1) by (auto simp: queued_items_def q'_def)
    have "LogFlushOutput e s = do { s \<leftarrow> LogItemOutput e (Some it) (s\<lparr>lgQ := Some q'\<rparr>); LogFlushOutput e s }"
      using q(1) ne t'(1) by (subst LogFlushOutput.simps) (simp add: QueueDequeueItem_def Let_def case_prod_unfold q'_def ETIMEDOUT_def)
    moreover have "queue_room (s\<lparr>lgQ := Some q'\<rparr>) (Suc n)"
      using t(1,3) t' q(3) by (simp add: queue_room_def q'_def q_capacity_def)
    ultimately show ?thesis using t'(2) by (auto simp: queued_items_def)
  qed
qed

lemma flush_quiet:
  "log_outputs s L xs \<Longrightarrow> \<not> ll_locked (lgStore s) L \<Longrightarrow> \<forall>it \<in> set its. log_fits e it \<Longrightarrow> queue_room s n \<Longrightarrow>
   queued_items s = its \<Longrightarrow> \<forall>a \<in> set xs. \<not> failing e s a \<Longrightarrow>
   \<exists>s'. LogFlushOutput e s = Some s' \<and> log_outputs s' L xs \<and> \<not> ll_locked (lgStore s') L \<and> queued_items s' = [] \<and>
     lgOut s' = lgOut s @ concat (map (\<lambda>it. concat (map (\<lambda>a. shown e it (log_file s a)) xs)) its)"
proof (induction its arbitrary: s n)
  case Nil
  with flush_take(1) [OF Nil.prems(4), of e] show ?case by auto
next
  case (Cons it its)
  from flush_take(2) [OF Cons.prems(4,5), of e] obtain q where
    q: "LogFlushOutput e s = do { s \<leftarrow> LogItemOutput e (Some it) (s\<lparr>lgQ := q\<rparr>); LogFlushOutput e s }"
      "queue_room (s\<lparr>lgQ := q\<rparr>) (Suc n)" "queued_items (s\<lparr>lgQ := q\<rparr>) = its" by blast
  let ?s = "s\<lparr>lgQ := q\<rparr>"
  have f: "log_file ?s = log_file s" "failing e ?s = failing e s" by (simp_all add: log_file_def failing_def fun_eq_iff)
  have none: "filter (failing e s) xs = []" "filter (\<lambda>b. \<not> failing e s b) xs = xs"
    using Cons.prems(6) by (auto simp: filter_empty_conv)
  have "log_outputs ?s L xs" "\<not> ll_locked (lgStore ?s) L" "log_fits e it"
      "queue_room ?s (length (filter (failing e ?s) xs) + Suc n)"
    using Cons.prems(1-3) q(2) by (simp_all add: f none log_outputs_def log_file_def)
  from item_output [OF this] obtain s2 where s2: "LogItemOutput e (Some it) ?s = Some s2" "log_outputs s2 L xs"
      "lgOut s2 = lgOut s @ concat (map (\<lambda>a. shown e it (log_file s a)) xs)" "queued_items s2 = its" "queue_room s2 (Suc n)"
      "\<forall>b. log_file s2 b = log_file s b" "\<not> ll_locked (lgStore s2) L"
    by (auto simp: f none q(3) closing_def)
  have "log_file s2 = log_file s" "\<forall>a \<in> set xs. \<not> failing e s2 a" using s2(6) Cons.prems(6) by (auto simp: failing_def)
  with Cons.IH [OF s2(2,7) _ s2(5,4)] Cons.prems(3) obtain s' where
    "LogFlushOutput e s2 = Some s'" "log_outputs s' L xs" "\<not> ll_locked (lgStore s') L" "queued_items s' = []"
    "lgOut s' = lgOut s2 @ concat (map (\<lambda>it. concat (map (\<lambda>a. shown e it (log_file s a)) xs)) its)" by auto
  then show ?case using q(1) s2(1,3) by simp
qed

section \<open>Properties\<close>

text \<open>Claim C24. Flushing a log with at least one message returns with an empty queue and the list
  unlocked; every output got every queued message in order, outputs whose writes fail get the
  first, are closed and removed, and their closing messages reach the others. This is for
  outputs that fail always or never, for lines that with time stamp and origin stay below the
  1024 bytes of the buffer (longer ones overrun it, logging.c:435), and for a queue with room
  for a closing message of every output (the flush waits for ever on a full one).\<close>

theorem log_flush_complete:
  assumes o: "log_outputs s L xs" "\<not> ll_locked (lgStore s) L"
    and q: "queued_items s = it # its" "queue_room s (length xs)"
    and fit: "\<forall>i \<in> set (it # its @ closing e s xs). log_fits e i"
  shows "\<exists>s'. LogFlushOutput e s = Some s' \<and> queued_items s' = [] \<and> \<not> ll_locked (lgStore s') L \<and>
    (let ys = filter (\<lambda>a. \<not> failing e s a) xs in
     log_outputs s' L ys \<and>
     lgOut s' = lgOut s @ concat (map (\<lambda>a. shown e it (log_file s a)) xs) @
       concat (map (\<lambda>i. concat (map (\<lambda>a. shown e i (log_file s a)) ys)) (its @ closing e s (filter (failing e s) xs))))"
proof -
  from flush_take(2) [OF q(2,1), of e] obtain q' where
    q': "LogFlushOutput e s = do { s \<leftarrow> LogItemOutput e (Some it) (s\<lparr>lgQ := q'\<rparr>); LogFlushOutput e s }"
      "queue_room (s\<lparr>lgQ := q'\<rparr>) (Suc (length xs))" "queued_items (s\<lparr>lgQ := q'\<rparr>) = its" by blast
  let ?s = "s\<lparr>lgQ := q'\<rparr>" and ?ys = "filter (\<lambda>a. \<not> failing e s a) xs"
  have f: "log_file ?s = log_file s" "failing e ?s = failing e s"
    by (simp_all add: log_file_def failing_def fun_eq_iff)
  have c: "closing e ?s = closing e s" by (rule ext) (simp add: closing_def f)
  have "queue_room ?s (length (filter (failing e s) xs) + length ?ys)"
    using q'(2) by (auto simp: queue_room_def sum_length_filter_compl)
  with o fit have "log_outputs ?s L xs" "\<not> ll_locked (lgStore ?s) L" "log_fits e it"
      "queue_room ?s (length (filter (failing e ?s) xs) + length ?ys)"
    by (simp_all add: f log_outputs_def log_file_def)
  from item_output [OF this] obtain s2 where s2: "LogItemOutput e (Some it) ?s = Some s2" "log_outputs s2 L ?ys"
      "lgOut s2 = lgOut s @ concat (map (\<lambda>a. shown e it (log_file s a)) xs)"
      "queued_items s2 = its @ closing e s (filter (failing e s) xs)" "queue_room s2 (length ?ys)"
      "\<forall>b. b \<notin> set (filter (failing e s) xs) \<longrightarrow> log_file s2 b = log_file s b" "\<not> ll_locked (lgStore s2) L"
    by (auto simp: f c q'(3))
  have same: "\<forall>a \<in> set ?ys. log_file s2 a = log_file s a \<and> \<not> failing e s2 a" using s2(6) by (auto simp: failing_def)
  have "set (closing e s (filter (failing e s) xs)) \<subseteq> set (closing e s xs)" by (auto simp: closing_def)
  then have fit2: "\<forall>i \<in> set (its @ closing e s (filter (failing e s) xs)). log_fits e i" using fit by auto
  have "map (\<lambda>a. shown e i (log_file s2 a)) ?ys = map (\<lambda>a. shown e i (log_file s a)) ?ys" for i
    using same by (intro map_cong) auto
  with flush_quiet [OF s2(2,7) fit2 s2(5,4)] same obtain s' where
    "LogFlushOutput e s2 = Some s'" "log_outputs s' L ?ys" "\<not> ll_locked (lgStore s') L" "queued_items s' = []"
    "lgOut s' = lgOut s2 @ concat (map (\<lambda>i. concat (map (\<lambda>a. shown e i (log_file s a)) ?ys)) (its @ closing e s (filter (failing e s) xs)))"
    by auto
  then show ?thesis using q'(1) s2(1,3) by (simp add: Let_def)
qed

text \<open>A console on descriptor 1 that works, and a file on 5 whose writes fail.\<close>

definition example_env :: log_env where
  "example_env = \<lparr>le_self = 0, le_now = (0, 0), le_malloc = True, le_fails = (\<lambda>fd. fd = 5), le_date = (\<lambda>_. ''2010-Jan-01 00:00:00''),
     le_thread = (\<lambda>_. None)\<rparr>"

definition example_item :: "string \<Rightarrow> LoggingItem_t" where
  "example_item m = log_item example_env LOG_INFO ''bot.c'' 7 ''main'' m"

definition example_logs :: "string \<Rightarrow> logs" where
  "example_logs m =
     \<lparr>lgStore = \<lparr>items = [11 \<mapsto> \<lparr>prev = None, next = Some 12, list = Some 3, payload = \<lparr>lf_fd = 5, lf_type = LT_FILE, lf_aborted = False, lf_filename = Some ''f''\<rparr>\<rparr>,
         12 \<mapsto> \<lparr>prev = Some 11, next = None, list = Some 3, payload = \<lparr>lf_fd = 1, lf_type = LT_CONSOLE, lf_aborted = False, lf_filename = None\<rparr>\<rparr>],
       lists = [3 \<mapsto> \<lparr>head = Some 11, tail = Some 12, mutex = False\<rparr>]\<rparr>,
      lgList = Some 3, lgQ = Some (fst (Queue_put (example_item m) four_slots)),
      lgLevel = LOG_UNKNOWN, lgDebug = False, lgOut = []\<rparr>"

lemma example_flush_hyps:
  "log_outputs (example_logs m) 3 [11, 12]" "\<not> ll_locked (lgStore (example_logs m)) 3"
  "queued_items (example_logs m) = [example_item m]" "queue_room (example_logs m) (length [11 :: addr, 12])"
proof -
  have q0: "q_inv (four_slots :: LoggingItem_t QueueObject_t)" "q_contents (four_slots :: LoggingItem_t QueueObject_t) = []"
    using QueueCreate_inv [OF _ QueueCreate_four] by auto
  have nf: "\<not> qfull (four_slots :: LoggingItem_t QueueObject_t)" by (simp add: four_slots_def)
  note p = Queue_put_inv [OF q0(1) nf, of "example_item m"]
  show "log_outputs (example_logs m) 3 [11, 12]" "\<not> ll_locked (lgStore (example_logs m)) 3"
    by (auto simp: example_logs_def log_outputs_def log_file_def ll_data_def ll_rep_def ll_locked_def last_opt_Cons)
  show "queued_items (example_logs m) = [example_item m]" using p(2) q0(2) by (simp add: example_logs_def queued_items_def)
  show "queue_room (example_logs m) (length [11 :: addr, 12])"
    using p q0(2) by (simp add: example_logs_def queue_room_def q_capacity_def) (simp add: four_slots_def)
qed

lemma fmt_d_digit: "0 \<le> n \<Longrightarrow> n < 10 \<Longrightarrow> fmt_d n = [char_of (48 + nat n)]"
  by (simp add: fmt_d_def nat_digits.simps)

lemma fmt_d_316: "fmt_d 316 = [char_of (51 :: nat), char_of (49 :: nat), char_of (54 :: nat)]"
  by (simp add: fmt_d_def nat_digits.simps [of 316] nat_digits.simps [of 31] nat_digits.simps [of 3])

lemma log_flush_complete_witness:
  "\<exists>s'. LogFlushOutput example_env (example_logs ''hi'') = Some s' \<and> queued_items s' = [] \<and> \<not> ll_locked (lgStore s') 3 \<and>
    (let ys = filter (\<lambda>a. \<not> failing example_env (example_logs ''hi'') a) [11, 12] in
     log_outputs s' 3 ys \<and>
     lgOut s' = lgOut (example_logs ''hi'') @ concat (map (\<lambda>a. shown example_env (example_item ''hi'') (log_file (example_logs ''hi'') a)) [11, 12]) @
       concat (map (\<lambda>i. concat (map (\<lambda>a. shown example_env i (log_file (example_logs ''hi'') a)) ys))
         ([] @ closing example_env (example_logs ''hi'') (filter (failing example_env (example_logs ''hi'')) [11, 12]))))"
  by (rule log_flush_complete [OF example_flush_hyps])
    (simp add: closing_def example_logs_def example_env_def example_item_def log_file_def ll_data_def close_item_def log_item_def
       log_fits_def console_line_def file_line_def log_stamp_def fmt_06_def fmt_d_digit fmt_d_316 snprintf_def LOGLINE_MAX_def MAX_STRING_LENGTH_def)

text \<open>A message of at least 994 characters, which the program lets through to the log
  queue, overflows the line buffer of the logging thread when the first output is the console
  or the text window: the line is the time stamp and the message in 1024 bytes.\<close>

theorem long_message_overflows:
  assumes "log_outputs s L (a # zs)" "lf_type (log_file s a) = LT_CONSOLE \<or> lf_type (log_file s a) = LT_NCURSES"
    and "length (le_date e (fst (le_now e))) = 20" "994 \<le> length m"
  shows "LogItemOutput e (Some (log_item e lev file ln fn m)) s = None"
proof -
  let ?it = "log_item e lev file ln fn m"
  from assms(1) have rep: "ll_rep (lgStore s) L ([] @ a # zs)" by (simp add: log_outputs_def)
  from log_rep_next [OF rep] obtain n where n: "items (lgStore s) a = Some n" by blast
  have "length (fmt_06 (snd (le_now e))) \<ge> 6" by (simp add: fmt_06_def)
  then have "length (log_stamp e ?it) = 28" using assms(3) by (simp add: log_stamp_def log_item_def snprintf_def)
  then have "\<not> length (console_line e ?it) < MAX_STRING_LENGTH"
    using assms(4) by (simp add: console_line_def log_item_def snprintf_def LOGLINE_MAX_def MAX_STRING_LENGTH_def)
  then have "log_one e ?it a (s\<lparr>lgStore := st\<rparr>) = None" if "items st a = Some n" for st
    using that assms(2) log_file_items [OF n] by (auto simp: log_one_def log_buffer_def)
  then have w: "log_walk e ?it (Some a) (s\<lparr>lgStore := st\<rparr>) = None" if "items st a = Some n" for st
    using that by (subst log_walk.simps) simp
  from rep have h: "\<exists>l. lists (lgStore s) L = Some l \<and> head l = Some a" "lgList s = Some L"
    using assms(1) by (auto simp: ll_rep_def log_outputs_def)
  show ?thesis
    using h w n by (auto simp: LogItemOutput_def LinkedListLock_def rd_list_def wr_list_def)
qed

lemma long_message_overflows_witness:
  "LogItemOutput example_env (Some (log_item example_env LOG_INFO ''bot.c'' 7 ''main'' (replicate 1000 (CHR ''x''))))
    ((example_logs ''hi'')\<lparr>lgStore := \<lparr>items = [12 \<mapsto> \<lparr>prev = None, next = None, list = Some 3,
        payload = \<lparr>lf_fd = 1, lf_type = LT_CONSOLE, lf_aborted = False, lf_filename = None\<rparr>\<rparr>],
      lists = [3 \<mapsto> \<lparr>head = Some 12, tail = Some 12, mutex = False\<rparr>]\<rparr>\<rparr>) = None"
  by (rule long_message_overflows [of _ 3 12 "[]"])
    (simp_all add: log_outputs_def ll_rep_def example_logs_def log_file_def ll_data_def example_env_def last_opt_Cons)

end
