(* ===== verification/DbSystem.thy ===== *)
theory DbSystem
  imports DbThread RingQueue
begin

text \<open>
  The threads that ask the database and the one that answers: \<open>db_queue_query\<close> and the outer
  loop of \<open>mysql_thread\<close> in \<open>bot/src/mysql.c\<close>, as a step relation over the query queue of
  \<open>RingQueue\<close>. A caller that waits for its answer locks its own mutex, queues the query,
  and locks the mutex again, which the MySQL thread unlocks after the callback. Queries that
  follow from an answer (the chains) are queued by the MySQL thread itself. What one query does with
  its connection is in \<open>DbThread\<close>. \<open>QueueEnqueueItem\<close> and \<open>QueueDequeueItem\<close> are taken at the moment
  they succeed, a thread that is blocked in them is one whose step is not enabled; the waits and
  signals inside them are the steps of \<open>RingQueue\<close>. The lost wake-up found there makes a run stand still
  earlier, so this theory states what no run violates and a standstill that needs no lost wake-up,
  but not that any run goes on.
\<close>

section \<open>What follows from an answer\<close>

definition bound_string :: "MYSQL_BIND \<Rightarrow> string option" where
  "bound_string b = (case buffer b of Some (BStr s) \<Rightarrow> Some s | _ \<Rightarrow> None)"

definition bound_type :: "MYSQL_BIND \<Rightarrow> IRCMsgType_t option" where
  "bound_type b =
     (case buffer b of
        Some (BInt i) \<Rightarrow> find (\<lambda>t. msgtype_num t = i)
          [TYPE_MESSAGE, TYPE_ACTION, TYPE_TOPIC, TYPE_KICK, TYPE_MODE, TYPE_NICK, TYPE_JOIN, TYPE_PART, TYPE_QUIT]
      | _ \<Rightarrow> None)"

definition bound_obj :: "MYSQL_BIND \<Rightarrow> ptr" where
  "bound_obj b = (case buffer b of Some (BObj a) \<Rightarrow> Some a | _ \<Rightarrow> None)"

fun row_ids :: "db_row list \<Rightarrow> int list option" where
  "row_ids [] = Some []"
| "row_ids (r # rs) = do { i \<leftarrow> col_int r 0; is \<leftarrow> row_ids rs; Some (i # is) }"

fun queries_of :: "db_action list \<Rightarrow> query list" where
  "queries_of [] = []"
| "queries_of (Queue q # as) = q # queries_of as"
| "queries_of (ClucenAdd _ _ _ _ # as) = queries_of as"

text \<open>The time, the channels a server has, and the sessions in memory.\<close>

record db_world =
  dw_now :: int
  dw_known :: "addr \<Rightarrow> int \<Rightarrow> int option"
  dw_auth :: "addr \<Rightarrow> AuthRow option"

definition chain_queries :: "db_world \<Rightarrow> QueryChain \<Rightarrow> db_row list option \<Rightarrow> MYSQL_BIND list \<Rightarrow> query list option" where
  "chain_queries dw c res qdata =
     (case c of
        CHAIN_UPDATE_NICK \<Rightarrow> map_option (\<lambda>q. [q]) (chain_update_nick (length (rows_of res)) qdata)
      | CHAIN_SET_SETTING \<Rightarrow> map_option (\<lambda>q. [q]) (chain_set_setting (length (rows_of res)) qdata)
      | CHAIN_SET_AUTH \<Rightarrow>
          (case qdata of
             [n, a] \<Rightarrow> do {
               nick \<leftarrow> bound_string n;
               at \<leftarrow> bound_obj a;
               auth \<leftarrow> dw_auth dw at;
               Some [chain_set_auth (length (rows_of res)) nick auth]
             }
           | _ \<Rightarrow> None)
      | CHAIN_FLUSH_NICK \<Rightarrow>
          (case qdata of
             [_, n, x, nn, ty, sv] \<Rightarrow>
               if rows_of res = [] then Some []
               else do {
                 nick \<leftarrow> bound_string n;
                 msg \<leftarrow> bound_string x;
                 ty \<leftarrow> bound_type ty;
                 server \<leftarrow> bound_obj sv;
                 ids \<leftarrow> row_ids (rows_of res);
                 acts \<leftarrow> chain_flush_nick (dw_now dw) (dw_known dw server) ids nick ty msg (if is_null nn then None else bound_string nn);
                 Some (queries_of acts)
               }
           | _ \<Rightarrow> None))"

section \<open>Callers, the queue and the MySQL thread\<close>

record job =
  jbId :: nat
  jbData :: "MYSQL_BIND list option"
  jbCallback :: bool
  jbMutex :: ptr

datatype caller = CIdle | CPut job | CWait addr

datatype worker = WIdle | WRun job | WChain "job list" ptr

record dbsys =
  dsQ :: "job QueueObject_t"
  dsHeld :: "addr set"
  dsUsed :: "addr set"
  dsCaller :: "nat \<Rightarrow> caller"
  dsWorker :: worker
  dsRun :: "job list"
  dsBack :: "addr list"

text \<open>\<open>db_queue_query\<close> up to the wait for room: the mutex is new and gets locked.\<close>

definition queue_call :: "nat \<Rightarrow> job \<Rightarrow> dbsys \<Rightarrow> dbsys option" where
  "queue_call i j s =
     (if dsCaller s i = CIdle \<and> (case jbMutex j of None \<Rightarrow> True | Some m \<Rightarrow> m \<notin> dsUsed s)
      then Some (s\<lparr>dsCaller := (dsCaller s)(i := CPut j), dsHeld := dsHeld s \<union> set_option (jbMutex j),
        dsUsed := dsUsed s \<union> set_option (jbMutex j)\<rparr>)
      else None)"

text \<open>\<open>QueueEnqueueItem\<close> at the moment there is room, and the second lock when there is a mutex.\<close>

definition queue_put :: "nat \<Rightarrow> dbsys \<Rightarrow> dbsys option" where
  "queue_put i s =
     (case dsCaller s i of
        CPut j \<Rightarrow> do {
          q \<leftarrow> try_enqueue j (dsQ s);
          Some (s\<lparr>dsQ := q, dsCaller := (dsCaller s)(i := (case jbMutex j of None \<Rightarrow> CIdle | Some m \<Rightarrow> CWait m))\<rparr>)
        }
      | _ \<Rightarrow> None)"

text \<open>The second lock succeeds; the caller then destroys the mutex.\<close>

definition queue_return :: "nat \<Rightarrow> dbsys \<Rightarrow> dbsys option" where
  "queue_return i s =
     (case dsCaller s i of
        CWait m \<Rightarrow> if m \<in> dsHeld s then None
          else Some (s\<lparr>dsCaller := (dsCaller s)(i := CIdle), dsBack := dsBack s @ [m]\<rparr>)
      | _ \<Rightarrow> None)"

text \<open>\<open>QueueDequeueItem\<close> at the moment there is an item.\<close>

definition worker_take :: "dbsys \<Rightarrow> dbsys option" where
  "worker_take s =
     (if dsWorker s = WIdle then do { (j, q) \<leftarrow> try_dequeue (dsQ s); Some (s\<lparr>dsQ := q, dsWorker := WRun j\<rparr>) } else None)"

text \<open>The answer goes to the callback or to the chain, whose queries are then queued one by one.\<close>

definition chained_jobs :: "db_world \<Rightarrow> job \<Rightarrow> db_row list option \<Rightarrow> int \<Rightarrow> job list option" where
  "chained_jobs dw j res insertid =
     (if jbId j < length QueryTable then
        (case db_deliver (jbCallback j) (snd (QueryTable ! jbId j)) res insertid of
           ToChain c r \<Rightarrow> do {
             d \<leftarrow> jbData j;
             qs \<leftarrow> chain_queries dw c r d;
             Some (map (\<lambda>(n, d, _). \<lparr>jbId = n, jbData = d, jbCallback = False, jbMutex = None\<rparr>) qs)
           }
         | _ \<Rightarrow> Some [])
      else None)"

definition worker_answer :: "db_world \<Rightarrow> db_row list option \<Rightarrow> int \<Rightarrow> dbsys \<Rightarrow> dbsys option" where
  "worker_answer dw res insertid s =
     (case dsWorker s of
        WRun j \<Rightarrow> do { js \<leftarrow> chained_jobs dw j res insertid; Some (s\<lparr>dsWorker := WChain js (jbMutex j), dsRun := dsRun s @ [j]\<rparr>) }
      | _ \<Rightarrow> None)"

definition worker_chain :: "dbsys \<Rightarrow> dbsys option" where
  "worker_chain s =
     (case dsWorker s of
        WChain (j # js) m \<Rightarrow> do { q \<leftarrow> try_enqueue j (dsQ s); Some (s\<lparr>dsQ := q, dsWorker := WChain js m\<rparr>) }
      | _ \<Rightarrow> None)"

definition worker_release :: "dbsys \<Rightarrow> dbsys option" where
  "worker_release s =
     (case dsWorker s of
        WChain [] m \<Rightarrow> Some (s\<lparr>dsWorker := WIdle, dsHeld := dsHeld s - set_option m\<rparr>)
      | _ \<Rightarrow> None)"

text \<open>\<open>ok\<close>: the queries that the program makes.\<close>

inductive db_move :: "dbsys \<Rightarrow> dbsys \<Rightarrow> bool" where
  move_put: "queue_put i s = Some s' \<Longrightarrow> db_move s s'"
| move_return: "queue_return i s = Some s' \<Longrightarrow> db_move s s'"
| move_take: "worker_take s = Some s' \<Longrightarrow> db_move s s'"
| move_answer: "worker_answer dw res insertid s = Some s' \<Longrightarrow> db_move s s'"
| move_chain: "worker_chain s = Some s' \<Longrightarrow> db_move s s'"
| move_release: "worker_release s = Some s' \<Longrightarrow> db_move s s'"

inductive db_step :: "(job \<Rightarrow> bool) \<Rightarrow> dbsys \<Rightarrow> dbsys \<Rightarrow> bool" for ok where
  step_call: "ok j \<Longrightarrow> queue_call i j s = Some s' \<Longrightarrow> db_step ok s s'"
| step_move: "db_move s s' \<Longrightarrow> db_step ok s s'"

definition dbsys_start :: "job QueueObject_t \<Rightarrow> dbsys" where
  "dbsys_start q = \<lparr>dsQ = q, dsHeld = {}, dsUsed = {}, dsCaller = (\<lambda>_. CIdle), dsWorker = WIdle, dsRun = [], dsBack = []\<rparr>"

inductive_cases db_moveE: "db_move s s'"
inductive_cases db_stepE: "db_step ok s s'"

section \<open>Invariants\<close>

text \<open>The mutexes of a sequence of queries, and the queries in the order they were queued.\<close>

definition mtx :: "job list \<Rightarrow> addr list" where
  "mtx js = List.map_filter jbMutex js"

lemma mtx_simps [simp]:
  "mtx [] = []"
  "mtx (js @ ks) = mtx js @ mtx ks"
  "mtx (j # js) = (case jbMutex j of None \<Rightarrow> [] | Some m \<Rightarrow> [m]) @ mtx js"
  by (simp_all add: mtx_def map_filter_def split: option.split)

definition running :: "worker \<Rightarrow> job list" where
  "running w = (case w of WRun j \<Rightarrow> [j] | _ \<Rightarrow> [])"

definition flow :: "dbsys \<Rightarrow> job list" where
  "flow s = dsRun s @ running (dsWorker s) @ q_contents (dsQ s)"

definition db_inv :: "dbsys \<Rightarrow> bool" where
  "db_inv s \<longleftrightarrow> q_inv (dsQ s) \<and> 0 < q_capacity (dsQ s) \<and>
     distinct (mtx (flow s)) \<and> set (mtx (flow s)) \<subseteq> dsUsed s \<and>
     (\<forall>i j m. dsCaller s i = CPut j \<and> jbMutex j = Some m \<longrightarrow> m \<in> dsHeld s \<and> m \<in> dsUsed s \<and> m \<notin> set (mtx (flow s)) \<and>
        (\<forall>i' j'. dsCaller s i' = CPut j' \<and> jbMutex j' = Some m \<longrightarrow> i' = i)) \<and>
     (\<forall>i m. dsCaller s i = CWait m \<longrightarrow> m \<in> set (mtx (flow s)) \<and> (m \<in> dsHeld s \<or> m \<in> set (mtx (dsRun s)))) \<and>
     (\<forall>js m. dsWorker s = WChain js (Some m) \<longrightarrow> m \<in> set (mtx (dsRun s))) \<and>
     (\<forall>js m. dsWorker s = WChain js m \<longrightarrow> (\<forall>j \<in> set js. jbMutex j = None)) \<and>
     set (dsBack s) \<subseteq> set (mtx (dsRun s)) \<and>
     (\<forall>i m. dsCaller s i = CWait m \<and> m \<in> dsHeld s \<longrightarrow>
        m \<in> set (mtx (running (dsWorker s) @ q_contents (dsQ s))) \<or> (\<exists>js. dsWorker s = WChain js (Some m)))"

lemma try_enqueueD:
  assumes "try_enqueue j q = Some q'" "q_inv q"
  shows "q_inv q' \<and> q_contents q' = q_contents q @ [j] \<and> q_capacity q' = q_capacity q"
proof -
  have "length (q_contents q) < q_capacity q"
    using ring_fifo.enq_full [OF assms(2), of j] assms(1) by (cases "length (q_contents q) < q_capacity q") auto
  from ring_fifo.enq [OF assms(2) this, of j] assms(1) show ?thesis by auto
qed

lemma try_dequeueD:
  assumes "try_dequeue q = Some (j, q')" "q_inv q"
  shows "q_inv q' \<and> q_contents q = j # q_contents q' \<and> q_capacity q' = q_capacity q"
proof (cases "q_contents q")
  case Nil
  with ring_fifo.deq_empty [OF assms(2)] assms(1) show ?thesis by simp
next
  case (Cons x xs)
  with ring_fifo.deq [OF assms(2) Cons] assms(1) show ?thesis by auto
qed

lemma db_inv_start: "q_inv q \<Longrightarrow> q_contents q = [] \<Longrightarrow> 0 < q_capacity q \<Longrightarrow> db_inv (dbsys_start q)"
  by (simp add: db_inv_def dbsys_start_def flow_def running_def)

lemma db_inv_call:
  assumes inv: "db_inv s" and c: "queue_call i j s = Some s'"
  shows "db_inv s'"
proof -
  from c have s': "s' = s\<lparr>dsCaller := (dsCaller s)(i := CPut j), dsHeld := dsHeld s \<union> set_option (jbMutex j), dsUsed := dsUsed s \<union> set_option (jbMutex j)\<rparr>"
    and new: "\<forall>m. jbMutex j = Some m \<longrightarrow> m \<notin> dsUsed s"
    by (auto simp: queue_call_def split: if_splits)
  have fl: "flow s' = flow s" by (simp add: s' flow_def)
  show ?thesis
    using inv new unfolding db_inv_def fl by (simp add: s') blast
qed

lemma chained_no_mutex: "chained_jobs dw j res i = Some js \<Longrightarrow> j' \<in> set js \<Longrightarrow> jbMutex j' = None"
  by (auto simp: chained_jobs_def bind_eq_Some_conv split: if_splits db_delivery.splits)

lemma mtx_None: "\<forall>j \<in> set js. jbMutex j = None \<Longrightarrow> mtx js = []"
  by (induction js) auto

lemma db_inv_put:
  assumes inv: "db_inv s" and p: "queue_put i s = Some s'"
  shows "db_inv s' \<and> (\<exists>j. dsCaller s i = CPut j \<and> flow s' = flow s @ [j])"
proof -
  from p obtain j q where j: "dsCaller s i = CPut j" and q: "try_enqueue j (dsQ s) = Some q"
    and s': "s' = s\<lparr>dsQ := q, dsCaller := (dsCaller s)(i := (case jbMutex j of None \<Rightarrow> CIdle | Some m \<Rightarrow> CWait m))\<rparr>"
    by (auto simp: queue_put_def bind_eq_Some_conv split: caller.splits)
  from inv have "q_inv (dsQ s)" by (simp add: db_inv_def)
  note d = try_enqueueD [OF q this]
  then have fl: "flow s' = flow s @ [j]" by (simp add: flow_def s')
  show ?thesis
  proof (cases "jbMutex j")
    case None
    with inv j d show ?thesis unfolding db_inv_def fl by (simp add: s') blast
  next
    case (Some m)
    with inv j d show ?thesis unfolding db_inv_def fl by (simp add: s') blast
  qed
qed

lemma db_inv_return:
  assumes inv: "db_inv s" and p: "queue_return i s = Some s'"
  shows "db_inv s' \<and> flow s' = flow s"
proof -
  from p obtain m where m: "dsCaller s i = CWait m" "m \<notin> dsHeld s"
    and s': "s' = s\<lparr>dsCaller := (dsCaller s)(i := CIdle), dsBack := dsBack s @ [m]\<rparr>"
    by (auto simp: queue_return_def split: caller.splits if_splits)
  have fl: "flow s' = flow s" by (simp add: flow_def s')
  show ?thesis
    using inv m unfolding db_inv_def fl by (simp add: s') blast
qed

lemma db_inv_take:
  assumes inv: "db_inv s" and p: "worker_take s = Some s'"
  shows "db_inv s' \<and> flow s' = flow s"
proof -
  from p obtain j q where w: "dsWorker s = WIdle" and q: "try_dequeue (dsQ s) = Some (j, q)"
    and s': "s' = s\<lparr>dsQ := q, dsWorker := WRun j\<rparr>"
    by (auto simp: worker_take_def bind_eq_Some_conv split: if_splits)
  from inv have "q_inv (dsQ s)" by (simp add: db_inv_def)
  note d = try_dequeueD [OF q this]
  have fl: "flow s' = flow s" using d w by (simp add: flow_def s' running_def)
  show ?thesis
    using inv d w unfolding db_inv_def fl by (simp add: s' running_def) blast
qed

lemma db_inv_answer:
  assumes inv: "db_inv s" and p: "worker_answer dw res k s = Some s'"
  shows "db_inv s' \<and> flow s' = flow s"
proof -
  from p obtain j js where w: "dsWorker s = WRun j" and js: "chained_jobs dw j res k = Some js"
    and s': "s' = s\<lparr>dsWorker := WChain js (jbMutex j), dsRun := dsRun s @ [j]\<rparr>"
    by (auto simp: worker_answer_def bind_eq_Some_conv split: worker.splits)
  have fl: "flow s' = flow s" using w by (simp add: flow_def s' running_def)
  have "\<forall>j \<in> set js. jbMutex j = None" using chained_no_mutex [OF js] by blast
  then show ?thesis
    using inv w fl unfolding db_inv_def fl by (cases "jbMutex j") (simp add: s' running_def, blast)+
qed

lemma db_inv_chain:
  assumes inv: "db_inv s" and p: "worker_chain s = Some s'"
  shows "db_inv s' \<and> (\<exists>j. flow s' = flow s @ [j])"
proof -
  from p obtain j js m q where w: "dsWorker s = WChain (j # js) m" and q: "try_enqueue j (dsQ s) = Some q"
    and s': "s' = s\<lparr>dsQ := q, dsWorker := WChain js m\<rparr>"
    by (auto simp: worker_chain_def bind_eq_Some_conv split: worker.splits list.splits)
  from inv have "q_inv (dsQ s)" by (simp add: db_inv_def)
  note d = try_enqueueD [OF q this]
  have fl: "flow s' = flow s @ [j]" using d w by (simp add: flow_def s' running_def)
  have "jbMutex j = None" using inv w by (simp add: db_inv_def)
  with inv w d fl show ?thesis unfolding db_inv_def fl by (simp add: s' running_def) blast
qed

lemma db_inv_release:
  assumes inv: "db_inv s" and p: "worker_release s = Some s'"
  shows "db_inv s' \<and> flow s' = flow s"
proof -
  from p obtain m where w: "dsWorker s = WChain [] m" and s': "s' = s\<lparr>dsWorker := WIdle, dsHeld := dsHeld s - set_option m\<rparr>"
    by (auto simp: worker_release_def split: worker.splits list.splits)
  have fl: "flow s' = flow s" using w by (simp add: flow_def s' running_def)
  have run: "x \<in> set (mtx (dsRun s)) \<Longrightarrow> x \<in> set (mtx (flow s))" for x by (simp add: flow_def)
  show ?thesis
  proof (cases m)
    case None
    with inv w fl show ?thesis unfolding db_inv_def fl by (simp add: s' running_def) blast
  next
    case (Some a)
    with inv w have "a \<in> set (mtx (dsRun s))" by (simp add: db_inv_def)
    with Some inv w fl run show ?thesis unfolding db_inv_def fl by (simp add: s' running_def) blast
  qed
qed

lemma db_move_inv:
  assumes "db_move s s'" "db_inv s"
  shows "db_inv s' \<and> (\<exists>js. flow s' = flow s @ js)"
  using assms(1)
proof cases
  case (move_put i)
  with db_inv_put [OF assms(2)] show ?thesis by blast
next
  case (move_return i)
  from db_inv_return [OF assms(2) this] show ?thesis by simp
next
  case move_take
  from db_inv_take [OF assms(2) this] show ?thesis by simp
next
  case (move_answer dw res k)
  from db_inv_answer [OF assms(2) this] show ?thesis by simp
next
  case move_chain
  with db_inv_chain [OF assms(2)] show ?thesis by blast
next
  case move_release
  from db_inv_release [OF assms(2) this] show ?thesis by simp
qed

lemma db_step_inv:
  assumes "db_step ok s s'" "db_inv s"
  shows "db_inv s' \<and> (\<exists>js. flow s' = flow s @ js)"
  using assms(1)
proof cases
  case (step_call j i)
  with db_inv_call [OF assms(2) this(2)] show ?thesis by (auto simp: queue_call_def flow_def split: if_splits)
next
  case step_move
  with db_move_inv [OF _ assms(2)] show ?thesis by blast
qed

lemma db_steps_inv: "(db_step ok)\<^sup>*\<^sup>* s s' \<Longrightarrow> db_inv s \<Longrightarrow> db_inv s' \<and> (\<exists>js. flow s' = flow s @ js)"
proof (induction rule: rtranclp_induct)
  case (step s1 s2)
  with db_step_inv [of ok s1 s2] show ?case by auto
qed simp

section \<open>The queries of the program\<close>

definition program_job :: "job \<Rightarrow> bool" where
  "program_job j \<longleftrightarrow> (\<exists>sync. program_query (jbId j, jbData j, sync))"

lemma program_job_id: "program_job j \<Longrightarrow> jbId j < length QueryTable"
  using program_query_ok by (fastforce simp: program_job_def query_ok_def)

lemma queries_of_iff: "q \<in> set (queries_of as) \<longleftrightarrow> Queue q \<in> set as"
  by (induction as rule: queries_of.induct) auto

lemma chain_ids:
  assumes "i < length QueryTable"
  shows "snd (QueryTable ! i) = Some CHAIN_UPDATE_NICK \<Longrightarrow> i = 3"
    and "snd (QueryTable ! i) = Some CHAIN_SET_SETTING \<Longrightarrow> i = 14"
proof -
  have "\<forall>i \<in> set [0..<length QueryTable]. (snd (QueryTable ! i) = Some CHAIN_UPDATE_NICK \<longrightarrow> i = 3) \<and>
      (snd (QueryTable ! i) = Some CHAIN_SET_SETTING \<longrightarrow> i = 14)"
    by code_simp
  moreover have "i \<in> set [0..<length QueryTable]" using assms by simp
  ultimately show "snd (QueryTable ! i) = Some CHAIN_UPDATE_NICK \<Longrightarrow> i = 3"
    "snd (QueryTable ! i) = Some CHAIN_SET_SETTING \<Longrightarrow> i = 14" by blast+
qed

lemma chain_queries_program:
  assumes "program_query (i, Some d, sy)" "i < length QueryTable" "snd (QueryTable ! i) = Some c"
    and "chain_queries dw c res d = Some qs" "q \<in> set qs"
  shows "program_query q"
proof (cases c)
  case CHAIN_UPDATE_NICK
  with assms chain_ids(1) [of i] show ?thesis by (auto simp: chain_queries_def intro: program_query.chain_nick)
next
  case CHAIN_SET_SETTING
  with assms chain_ids(2) [of i] show ?thesis by (auto simp: chain_queries_def intro: program_query.chain_setting)
next
  case CHAIN_SET_AUTH
  with assms show ?thesis
    by (auto simp: chain_queries_def bind_eq_Some_conv split: list.splits intro: program_query.chain_auth)
next
  case CHAIN_FLUSH_NICK
  with assms show ?thesis
    by (auto simp: chain_queries_def bind_eq_Some_conv queries_of_iff split: list.splits if_splits intro: program_query.chain_flush)
qed

lemma chained_program:
  assumes p: "program_job j" and c: "chained_jobs dw j res k = Some js" and j': "j' \<in> set js"
  shows "program_job j'"
proof -
  from p obtain sy where q: "program_query (jbId j, jbData j, sy)" by (auto simp: program_job_def)
  have i: "jbId j < length QueryTable" by (rule program_job_id [OF p])
  show ?thesis
  proof (cases "db_deliver (jbCallback j) (snd (QueryTable ! jbId j)) res k")
    case (ToChain ch r)
    then have ch: "snd (QueryTable ! jbId j) = Some ch" by (auto simp: db_deliver_def split: if_splits option.splits)
    from c i ToChain j' obtain d qs n d' sy' where d: "jbData j = Some d" and qs: "chain_queries dw ch r d = Some qs"
      and m: "(n, d', sy') \<in> set qs" "jbId j' = n" "jbData j' = d'"
      by (auto simp: chained_jobs_def bind_eq_Some_conv)
    from chain_queries_program [OF q [unfolded d] i ch qs m(1)] m show ?thesis by (auto simp: program_job_def)
  qed (use c i j' in \<open>auto simp: chained_jobs_def\<close>)
qed

definition jobs_ok :: "dbsys \<Rightarrow> bool" where
  "jobs_ok s \<longleftrightarrow> (\<forall>j \<in> set (flow s). program_job j) \<and> (\<forall>i j. dsCaller s i = CPut j \<longrightarrow> program_job j) \<and>
     (\<forall>js m. dsWorker s = WChain js m \<longrightarrow> (\<forall>j \<in> set js. program_job j))"

lemma jobs_ok_move:
  assumes "db_move s s'" "db_inv s" "jobs_ok s"
  shows "jobs_ok s'"
  using assms(1)
proof cases
  case (move_put i)
  with db_inv_put [OF assms(2) this] assms(3) show ?thesis
    by (auto simp: jobs_ok_def queue_put_def bind_eq_Some_conv split: caller.splits option.splits if_splits)
next
  case (move_return i)
  with db_inv_return [OF assms(2) this] assms(3) show ?thesis
    by (auto simp: jobs_ok_def queue_return_def split: caller.splits if_splits)
next
  case move_take
  with db_inv_take [OF assms(2) this] assms(3) show ?thesis
    by (auto simp: jobs_ok_def worker_take_def bind_eq_Some_conv split: if_splits)
next
  case (move_answer dw res k)
  from move_answer obtain j js where w: "dsWorker s = WRun j" "chained_jobs dw j res k = Some js"
    and s': "s' = s\<lparr>dsWorker := WChain js (jbMutex j), dsRun := dsRun s @ [j]\<rparr>"
    by (auto simp: worker_answer_def bind_eq_Some_conv split: worker.splits)
  have "program_job j" using assms(3) w(1) by (simp add: jobs_ok_def flow_def running_def)
  then have "\<forall>j' \<in> set js. program_job j'" using chained_program [OF _ w(2)] by blast
  with db_inv_answer [OF assms(2) move_answer] assms(3) show ?thesis by (auto simp: jobs_ok_def s')
next
  case move_chain
  then obtain j js m q where w: "dsWorker s = WChain (j # js) m" and q: "try_enqueue j (dsQ s) = Some q"
    and s': "s' = s\<lparr>dsQ := q, dsWorker := WChain js m\<rparr>"
    by (auto simp: worker_chain_def bind_eq_Some_conv split: worker.splits list.splits)
  have "q_contents q = q_contents (dsQ s) @ [j]" using try_enqueueD [OF q] assms(2) by (simp add: db_inv_def)
  then have "flow s' = flow s @ [j]" using w by (simp add: flow_def s' running_def)
  with assms(3) w show ?thesis by (auto simp: jobs_ok_def s')
next
  case move_release
  with db_inv_release [OF assms(2) this] assms(3) show ?thesis
    by (auto simp: jobs_ok_def worker_release_def split: worker.splits list.splits)
qed

lemma program_steps:
  assumes "(db_step program_job)\<^sup>*\<^sup>* s s'" "db_inv s" "jobs_ok s"
  shows "db_inv s' \<and> jobs_ok s'"
  using assms(1)
proof (induction rule: rtranclp_induct)
  case (step s1 s2)
  then have inv: "db_inv s1" "jobs_ok s1" by auto
  from step(2) have "jobs_ok s2"
  proof cases
    case (step_call j i)
    with inv(2) show ?thesis by (auto simp: queue_call_def jobs_ok_def flow_def split: if_splits)
  next
    case step_move
    then show ?thesis by (rule jobs_ok_move [OF _ inv])
  qed
  with db_step_inv [OF step(2) inv(1)] show ?case by simp
qed (use assms in simp)

lemma capacity_pos: "q_inv q \<Longrightarrow> 0 < q_capacity q"
  unfolding q_inv_def q_capacity_def by (elim conjE, erule q_coreD) linarith

lemma db_inv_created: "1 < n \<Longrightarrow> QueueCreate n = Some q \<Longrightarrow> db_inv (dbsys_start q)"
  using QueueCreate_inv [of n q] by (intro db_inv_start capacity_pos) simp_all

section \<open>Who waits, and for what\<close>

definition stuck :: "dbsys \<Rightarrow> bool" where
  "stuck s \<longleftrightarrow> qfull (dsQ s) \<and> (\<exists>j js m. dsWorker s = WChain (j # js) m)"

lemma room_enqueue: "q_inv q \<Longrightarrow> \<not> qfull q \<Longrightarrow> \<exists>q'. try_enqueue j q = Some q'"
proof -
  assume inv: "q_inv q" and nf: "\<not> qfull q"
  then have "length (q_contents q) < q_capacity q" using q_flags_contents [OF inv] by linarith
  from ring_fifo.enq [OF inv this, of j] show ?thesis by blast
qed

lemma stuck_no_move:
  assumes "db_inv s" "stuck s" "\<forall>i m. dsCaller s i \<noteq> CWait m"
  shows "\<not> db_move s s'"
proof
  from assms(1) have q: "q_inv (dsQ s)" by (simp add: db_inv_def)
  from assms(2) obtain j js m where st: "qfull (dsQ s)" "dsWorker s = WChain (j # js) m" by (auto simp: stuck_def)
  have full: "try_enqueue x (dsQ s) = None" for x
    using ring_fifo.enq_full [OF q] q_flags_contents [OF q] st(1) by simp
  assume "db_move s s'"
  then show False
    using st full assms(3)
    by cases (auto simp: queue_put_def queue_return_def worker_take_def worker_answer_def worker_chain_def worker_release_def
        split: caller.splits if_splits)
qed

lemma stuck_frozen:
  assumes "db_inv s" "stuck s" "\<forall>i m. dsCaller s i \<noteq> CWait m" "db_step ok s s'"
  shows "stuck s' \<and> dsRun s' = dsRun s \<and> dsBack s' = dsBack s \<and> (\<forall>i m. dsCaller s' i \<noteq> CWait m) \<and>
    (\<forall>i j. dsCaller s i = CPut j \<longrightarrow> dsCaller s' i = CPut j)"
  using assms(4)
proof cases
  case (step_call j' i)
  with assms(2,3) show ?thesis by (auto simp: queue_call_def stuck_def split: if_splits)
next
  case step_move
  with stuck_no_move [OF assms(1-3)] show ?thesis by blast
qed

lemma stuck_for_ever:
  assumes "(db_step ok)\<^sup>*\<^sup>* s s'" "db_inv s" "stuck s" "\<forall>i m. dsCaller s i \<noteq> CWait m"
  shows "stuck s' \<and> dsRun s' = dsRun s \<and> dsBack s' = dsBack s \<and> (\<forall>i j. dsCaller s i = CPut j \<longrightarrow> dsCaller s' i = CPut j)"
proof -
  from assms(1) have "db_inv s' \<and> stuck s' \<and> dsRun s' = dsRun s \<and> dsBack s' = dsBack s \<and> (\<forall>i m. dsCaller s' i \<noteq> CWait m) \<and>
    (\<forall>i j. dsCaller s i = CPut j \<longrightarrow> dsCaller s' i = CPut j)"
  proof (induction rule: rtranclp_induct)
    case (step s1 s2)
    then have k: "db_inv s1" "stuck s1" "\<forall>i m. dsCaller s1 i \<noteq> CWait m" by auto
    from stuck_frozen [OF k step(2)] db_step_inv [OF step(2) k(1)] step(3) show ?case by auto
  qed (use assms in simp)
  then show ?thesis by simp
qed

section \<open>Filling the queue\<close>

definition nick_job :: job where
  "nick_job = \<lparr>jbId = 3, jbData = Some [bind_numeric 1 MYSQL_TYPE_LONG, bind_string (Some ''bob'') MYSQL_TYPE_VAR_STRING,
     bind_numeric 0 MYSQL_TYPE_LONGLONG, bind_numeric 1 MYSQL_TYPE_LONG], jbCallback = False, jbMutex = None\<rparr>"

definition setting_job :: "addr \<Rightarrow> job" where
  "setting_job m = \<lparr>jbId = 13, jbData = Some [bind_string (Some ''version'') MYSQL_TYPE_VAR_STRING], jbCallback = True, jbMutex = Some m\<rparr>"

lemma program_jobs: "program_job nick_job" "program_job (setting_job m)"
proof -
  have "db_update_nick 0 (Some 1) (Some ''bob'') True False = Some [Queue (3, jbData nick_job, False)]"
    by (simp add: db_update_nick_def nick_only_def of_bool_int_def nick_job_def)
  then have "program_query (3, jbData nick_job, False)" by (rule program_query.update_nick) simp
  then show "program_job nick_job" by (auto simp: program_job_def nick_job_def)
  have "program_query (13, jbData (setting_job m), True)"
    by (rule program_query.get_setting [of _ "Some ''version''"]) (simp add: db_get_setting_def setting_job_def)
  then show "program_job (setting_job m)" by (auto simp: program_job_def setting_job_def)
qed

lemma queue_nick:
  assumes inv: "db_inv s" and idle: "dsCaller s 0 = CIdle" and nf: "\<not> qfull (dsQ s)"
  shows "\<exists>s'. (db_step program_job)\<^sup>*\<^sup>* s s' \<and> db_inv s' \<and> dsCaller s' = dsCaller s \<and> dsWorker s' = dsWorker s \<and>
    dsUsed s' = dsUsed s \<and> q_contents (dsQ s') = q_contents (dsQ s) @ [nick_job] \<and> q_capacity (dsQ s') = q_capacity (dsQ s)"
proof -
  from inv have q: "q_inv (dsQ s)" by (simp add: db_inv_def)
  from room_enqueue [OF q nf] obtain q' where q': "try_enqueue nick_job (dsQ s) = Some q'" by blast
  let ?s1 = "s\<lparr>dsCaller := (dsCaller s)(0 := CPut nick_job)\<rparr>" and ?s2 = "s\<lparr>dsQ := q'\<rparr>"
  have c: "queue_call 0 nick_job s = Some ?s1" using idle by (simp add: queue_call_def nick_job_def)
  have same: "(dsCaller s)(0 := CIdle) = dsCaller s" using idle by (simp add: fun_upd_idem)
  have p: "queue_put 0 ?s1 = Some ?s2" using q' same by (simp add: queue_put_def) (simp add: nick_job_def)
  from c have s1: "db_step program_job s ?s1" using program_jobs(1) by (intro step_call)
  from p have "db_step program_job ?s1 ?s2" by (intro step_move move_put)
  with s1 have steps: "(db_step program_job)\<^sup>*\<^sup>* s ?s2" by simp
  with db_steps_inv [OF steps inv] try_enqueueD [OF q' q] show ?thesis by (intro exI [of _ ?s2]) simp
qed

lemma queue_nicks:
  "db_inv s \<Longrightarrow> dsCaller s 0 = CIdle \<Longrightarrow> length (q_contents (dsQ s)) + k \<le> q_capacity (dsQ s) \<Longrightarrow>
   \<exists>s'. (db_step program_job)\<^sup>*\<^sup>* s s' \<and> db_inv s' \<and> dsCaller s' = dsCaller s \<and> dsWorker s' = dsWorker s \<and>
    dsUsed s' = dsUsed s \<and> q_contents (dsQ s') = q_contents (dsQ s) @ replicate k nick_job \<and> q_capacity (dsQ s') = q_capacity (dsQ s)"
proof (induction k arbitrary: s)
  case (Suc k)
  then have "\<not> qfull (dsQ s)" using q_flags_contents [of "dsQ s"] by (simp add: db_inv_def)
  from queue_nick [OF Suc.prems(1,2) this] obtain s1 where s1: "(db_step program_job)\<^sup>*\<^sup>* s s1" "db_inv s1" "dsCaller s1 = dsCaller s"
    "dsWorker s1 = dsWorker s" "dsUsed s1 = dsUsed s" "q_contents (dsQ s1) = q_contents (dsQ s) @ [nick_job]"
    "q_capacity (dsQ s1) = q_capacity (dsQ s)" by blast
  with Suc.prems have "dsCaller s1 0 = CIdle" "length (q_contents (dsQ s1)) + k \<le> q_capacity (dsQ s1)" by simp_all
  from Suc.IH [OF s1(2) this] obtain s2 where s2: "(db_step program_job)\<^sup>*\<^sup>* s1 s2" "db_inv s2" "dsCaller s2 = dsCaller s1"
    "dsWorker s2 = dsWorker s1" "dsUsed s2 = dsUsed s1" "q_contents (dsQ s2) = q_contents (dsQ s1) @ replicate k nick_job"
    "q_capacity (dsQ s2) = q_capacity (dsQ s1)" by blast
  from s1(1) s2(1) have "(db_step program_job)\<^sup>*\<^sup>* s s2" by (rule rtranclp_trans)
  with s1 s2 show ?case by (intro exI [of _ s2]) simp
qed auto

lemma nick_chain: "chained_jobs dw nick_job (Some []) 0 = Some [\<lparr>jbId = 5, jbData = Some [bind_numeric 0 MYSQL_TYPE_LONGLONG,
    bind_numeric 1 MYSQL_TYPE_LONG, bind_numeric 1 MYSQL_TYPE_LONG, bind_string (Some ''bob'') MYSQL_TYPE_VAR_STRING],
    jbCallback = False, jbMutex = None\<rparr>]"
proof -
  have "snd (QueryTable ! 3) = Some CHAIN_UPDATE_NICK" "3 < length QueryTable" by (simp_all add: QueryTable_def)
  then show ?thesis
    by (simp add: chained_jobs_def nick_job_def db_deliver_def chain_queries_def chain_update_nick_def rows_of_def)
qed

lemma reach_stuck:
  assumes q: "q_inv q" "q_contents q = []" "0 < q_capacity q"
  shows "\<exists>s. (db_step program_job)\<^sup>*\<^sup>* (dbsys_start q) s \<and> db_inv s \<and> stuck s \<and> (\<forall>i m. dsCaller s i \<noteq> CWait m) \<and>
    dsCaller s 1 = CPut (setting_job 9)"
proof -
  let ?s0 = "dbsys_start q"
  have i0: "db_inv ?s0" by (rule db_inv_start [OF q])
  have s0: "dsCaller ?s0 = (\<lambda>_. CIdle)" "dsWorker ?s0 = WIdle" "dsUsed ?s0 = {}" "dsQ ?s0 = q" by (simp_all add: dbsys_start_def)
  from queue_nicks [OF i0, of 1] s0 q obtain s1 where s1: "(db_step program_job)\<^sup>*\<^sup>* ?s0 s1" "db_inv s1"
    "dsCaller s1 = (\<lambda>_. CIdle)" "dsWorker s1 = WIdle" "dsUsed s1 = {}" "q_contents (dsQ s1) = [nick_job]" "q_capacity (dsQ s1) = q_capacity q"
    by auto
  from s1(2) have "q_inv (dsQ s1)" by (simp add: db_inv_def)
  from ring_fifo.deq [OF this s1(6)] obtain q2 where q2: "try_dequeue (dsQ s1) = Some (nick_job, q2)" "q_contents q2 = []"
    "q_capacity q2 = q_capacity q" using s1(7) by auto
  let ?s2 = "s1\<lparr>dsQ := q2, dsWorker := WRun nick_job\<rparr>"
  have "worker_take s1 = Some ?s2" using s1(4) q2 by (simp add: worker_take_def)
  then have st2: "db_step program_job s1 ?s2" by (intro step_move move_take)
  have i2: "db_inv ?s2" using db_step_inv [OF st2 s1(2)] by simp
  from queue_nicks [OF i2, of "q_capacity q"] s1(3,5) q2 obtain s3 where s3: "(db_step program_job)\<^sup>*\<^sup>* ?s2 s3" "db_inv s3"
    "dsCaller s3 = (\<lambda>_. CIdle)" "dsWorker s3 = WRun nick_job" "dsUsed s3 = {}"
    "q_contents (dsQ s3) = replicate (q_capacity q) nick_job" "q_capacity (dsQ s3) = q_capacity q" by auto
  from s3(2) have "q_inv (dsQ s3)" by (simp add: db_inv_def)
  then have full: "qfull (dsQ s3)" using q_flags_contents [of "dsQ s3"] s3(6,7) by simp
  obtain j where j: "chained_jobs dw nick_job (Some []) 0 = Some [j]" for dw using nick_chain by blast
  let ?s4 = "s3\<lparr>dsWorker := WChain [j] None, dsRun := dsRun s3 @ [nick_job]\<rparr>"
  have "worker_answer dw (Some []) 0 s3 = Some ?s4" for dw using s3(4) j by (simp add: worker_answer_def nick_job_def)
  then have st4: "db_step program_job s3 ?s4" by (intro step_move move_answer)
  have i4: "db_inv ?s4" using db_step_inv [OF st4 s3(2)] by simp
  let ?s5 = "?s4\<lparr>dsCaller := (dsCaller ?s4)(1 := CPut (setting_job 9)), dsHeld := dsHeld ?s4 \<union> {9}, dsUsed := dsUsed ?s4 \<union> {9}\<rparr>"
  have "queue_call 1 (setting_job 9) ?s4 = Some ?s5" using s3(3,5) by (simp add: queue_call_def) (simp add: setting_job_def)
  then have st5: "db_step program_job ?s4 ?s5" using program_jobs(2) by (intro step_call)
  have "(db_step program_job)\<^sup>*\<^sup>* ?s0 ?s5"
    using s1(1) st2 s3(1) st4 st5 by (meson rtranclp.rtrancl_into_rtrancl rtranclp_trans)
  moreover have "db_inv ?s5" using db_step_inv [OF st5 i4] by simp
  moreover have "stuck ?s5" using full by (simp add: stuck_def)
  ultimately show ?thesis using s3(3) by (intro exI [of _ ?s5]) simp
qed

section \<open>Properties\<close>

text \<open>Claim C25. Whatever callers and MySQL thread do, a caller that waits on its mutex returns
  only after its own query was run, and every query was run in the order of the queue or still
  waits.\<close>

theorem sync_query_answered:
  assumes "1 < n" "QueueCreate n = Some q" "(db_step ok)\<^sup>*\<^sup>* (dbsys_start q) s" "(db_step ok)\<^sup>*\<^sup>* s s'"
  shows "distinct (mtx (dsRun s)) \<and> set (dsBack s) \<subseteq> set (mtx (dsRun s)) \<and>
    (\<exists>js. dsRun s' @ running (dsWorker s') @ q_contents (dsQ s') = (dsRun s @ running (dsWorker s) @ q_contents (dsQ s)) @ js)"
proof -
  have "db_inv (dbsys_start q)" by (rule db_inv_created [OF assms(1,2)])
  with db_steps_inv [OF assms(3)] have inv: "db_inv s" by blast
  then have "distinct (mtx (dsRun s))" "set (dsBack s) \<subseteq> set (mtx (dsRun s))" by (simp_all add: db_inv_def flow_def)
  with db_steps_inv [OF assms(4) inv] show ?thesis by (simp add: flow_def)
qed

definition example_session :: "dbsys option" where
  "example_session = do {
     s \<leftarrow> queue_call 1 (setting_job 9) (dbsys_start four_slots);
     s \<leftarrow> queue_put 1 s;
     s \<leftarrow> worker_take s;
     s \<leftarrow> worker_answer \<lparr>dw_now = 0, dw_known = (\<lambda>_ _. None), dw_auth = (\<lambda>_. None)\<rparr> (Some [[Some ''3'']]) 0 s;
     s \<leftarrow> worker_release s;
     queue_return 1 s
   }"

lemma example_session_back: "map_option dsBack example_session = Some [9]"
  by code_simp

lemma example_session_steps: "\<exists>s. (db_step program_job)\<^sup>*\<^sup>* (dbsys_start four_slots) s \<and> dsBack s = [9]"
proof -
  from example_session_back obtain s1 s2 s3 s4 s5 s where
    s: "queue_call 1 (setting_job 9) (dbsys_start four_slots) = Some s1" "queue_put 1 s1 = Some s2" "worker_take s2 = Some s3"
      "worker_answer \<lparr>dw_now = 0, dw_known = (\<lambda>_ _. None), dw_auth = (\<lambda>_. None)\<rparr> (Some [[Some ''3'']]) 0 s3 = Some s4"
      "worker_release s4 = Some s5" "queue_return 1 s5 = Some s" "dsBack s = [9]"
    by (auto simp: example_session_def bind_eq_Some_conv)
  have "db_step program_job (dbsys_start four_slots) s1" using s(1) program_jobs(2) by (intro step_call)
  moreover have "db_move s1 s2" "db_move s2 s3" "db_move s3 s4" "db_move s4 s5" "db_move s5 s"
    using s(2-6) by (blast intro: db_move.intros)+
  ultimately have "(db_step program_job)\<^sup>*\<^sup>* (dbsys_start four_slots) s"
    by (meson rtranclp.rtrancl_into_rtrancl rtranclp.rtrancl_refl step_move)
  with s(7) show ?thesis by blast
qed

lemma sync_query_answered_witness:
  "\<exists>s :: dbsys. dsBack s = [9] \<and> distinct (mtx (dsRun s)) \<and> set (dsBack s) \<subseteq> set (mtx (dsRun s)) \<and>
    (\<exists>js. dsRun s @ running (dsWorker s) @ q_contents (dsQ s) = (dsRun s @ running (dsWorker s) @ q_contents (dsQ s)) @ js)"
proof -
  from example_session_steps obtain s where s: "(db_step program_job)\<^sup>*\<^sup>* (dbsys_start four_slots) s" "dsBack s = [9]" by blast
  have "distinct (mtx (dsRun s)) \<and> set (dsBack s) \<subseteq> set (mtx (dsRun s)) \<and>
    (\<exists>js. dsRun s @ running (dsWorker s) @ q_contents (dsQ s) = (dsRun s @ running (dsWorker s) @ q_contents (dsQ s)) @ js)"
    by (rule sync_query_answered [OF _ QueueCreate_four s(1)]) simp_all
  with s(2) show ?thesis by blast
qed

text \<open>Claim C26. In every run of callers and MySQL thread that begins with an empty queue and
  whose callers make the queries of the program on the main table (the tables of the plugins
  are left out), every query that a caller is about to queue, that is queued, run or was run,
  or that follows from an answer, names an entry of the query table and has a well-typed value
  for every placeholder, or no values and no placeholder.\<close>

theorem queued_queries_fit:
  assumes "1 < n" "QueueCreate n = Some q" "(db_step program_job)\<^sup>*\<^sup>* (dbsys_start q) s"
    and "j \<in> set (dsRun s @ running (dsWorker s) @ q_contents (dsQ s)) \<or> (\<exists>i. dsCaller s i = CPut j) \<or>
      (\<exists>js m. dsWorker s = WChain js m \<and> j \<in> set js)"
  shows "query_ok (jbId j, jbData j, sync)"
proof -
  have "jobs_ok (dbsys_start q)" using QueueCreate_inv [OF assms(1,2)]
    by (simp add: jobs_ok_def dbsys_start_def flow_def running_def)
  with program_steps [OF assms(3) db_inv_created [OF assms(1,2)]] have "jobs_ok s" by blast
  with assms(4) have "program_job j" by (auto simp: jobs_ok_def flow_def)
  then obtain sy where "program_query (jbId j, jbData j, sy)" by (auto simp: program_job_def)
  from program_query_ok [OF this] show ?thesis by (simp only: query_ok_def fst_conv snd_conv)
qed

lemma queued_queries_fit_witness: "query_ok (jbId (setting_job 9), jbData (setting_job 9), False)"
proof -
  obtain s where s: "queue_call 1 (setting_job 9) (dbsys_start four_slots) = Some s" "dsCaller s 1 = CPut (setting_job 9)"
    by (auto simp: queue_call_def dbsys_start_def setting_job_def)
  then have steps: "(db_step program_job)\<^sup>*\<^sup>* (dbsys_start four_slots) s" using program_jobs(2) by (blast intro: step_call)
  show ?thesis by (rule queued_queries_fit [OF _ QueueCreate_four steps]) (use s(2) in auto)
qed

text \<open>Claim C27. The program can stand still for ever: with the queue full, the MySQL thread
  queues the query that follows from an answer into the queue that only it empties, and no
  step is possible any more.\<close>

theorem chain_deadlock:
  assumes "1 < n" "QueueCreate n = Some q"
  shows "\<exists>s. (db_step program_job)\<^sup>*\<^sup>* (dbsys_start q) s \<and> dsCaller s 1 = CPut (setting_job 9) \<and>
    (\<forall>s'. (db_step program_job)\<^sup>*\<^sup>* s s' \<longrightarrow> dsRun s' = dsRun s \<and> dsCaller s' 1 = CPut (setting_job 9))"
proof -
  have q: "q_inv q" "q_contents q = []" using QueueCreate_inv [OF assms] by auto
  from reach_stuck [OF q capacity_pos [OF q(1)]] obtain s where
    s: "(db_step program_job)\<^sup>*\<^sup>* (dbsys_start q) s" "db_inv s" "stuck s" "\<forall>i m. dsCaller s i \<noteq> CWait m"
      "dsCaller s 1 = CPut (setting_job 9)" by blast
  from stuck_for_ever [OF _ s(2-4)] s(1,5) show ?thesis by (intro exI [of _ s]) blast
qed

lemma chain_deadlock_witness:
  "\<exists>s. (db_step program_job)\<^sup>*\<^sup>* (dbsys_start four_slots) s \<and> dsCaller s 1 = CPut (setting_job 9) \<and>
    (\<forall>s'. (db_step program_job)\<^sup>*\<^sup>* s s' \<longrightarrow> dsRun s' = dsRun s \<and> dsCaller s' 1 = CPut (setting_job 9))"
  by (rule chain_deadlock [OF _ QueueCreate_four]) simp

end
