(* ===== verification/NickTable.thy ===== *)
theory NickTable
  imports Database
begin

text \<open>
  The table \<open>nicks\<close> and the three queries that keep it (\<open>db_update_nick\<close>,
  \<open>chain_update_nick\<close> and entries 3, 4 and 5 of the query table in \<open>bot/src/mysql.c\<close>),
  run in the order of the query queue. The server is the SQL that the entries say: a select, an
  update of the rows that match, an insert that the primary key (channel, nick) of
  \<open>db_schema.h\<close> rejects when the row is there. Nicks are compared letter by letter, as under a
  binary collation; under a collation that ignores case, two spellings of a nick are one key.
\<close>

type_synonym nick_table = "int \<times> string \<rightharpoonup> int \<times> int"

definition bint :: "MYSQL_BIND \<Rightarrow> int" where
  "bint b = (case buffer b of Some (BInt i) \<Rightarrow> i | _ \<Rightarrow> 0)"

definition bstr :: "MYSQL_BIND \<Rightarrow> string" where
  "bstr b = (case buffer b of Some (BStr s) \<Rightarrow> s | _ \<Rightarrow> [])"

text \<open>The table after a query, and the query that its answer leads to.\<close>

definition run_nick_query :: "query \<Rightarrow> nick_table \<Rightarrow> nick_table \<times> query list" where
  "run_nick_query q t =
     (case q of
        (n, Some [a, b, c, d], _) \<Rightarrow>
          if n = 3 then (t, (case chain_update_nick (if t (bint a, bstr b) = None then 0 else 1) [a, b, c, d] of Some q \<Rightarrow> [q] | None \<Rightarrow> []))
          else if n = 4 then
            (if t (bint c, bstr d) = None then t else t((bint c, bstr d) \<mapsto> (bint a, bint b)), [])
          else if n = 5 then
            (if t (bint c, bstr d) = None then t((bint c, bstr d) \<mapsto> (bint a, bint b)) else t, [])
          else (t, [])
      | _ \<Rightarrow> (t, []))"

definition query_weight :: "query \<Rightarrow> nat" where
  "query_weight q = (if fst q = 3 then 2 else 1)"

lemma run_nick_query_weight:
  "run_nick_query q t = (t', qs) \<Longrightarrow> sum_list (map query_weight qs) < query_weight q"
  by (auto simp: run_nick_query_def query_weight_def chain_update_nick_def split: prod.splits option.splits list.splits if_splits)

text \<open>The MySQL thread: the first query of the queue; what follows from its answer goes to the end.\<close>

function run_nick_queue :: "query list \<Rightarrow> nick_table \<Rightarrow> nick_table" where
  "run_nick_queue [] t = t"
| "run_nick_queue (q # qs) t = (case run_nick_query q t of (t', new) \<Rightarrow> run_nick_queue (qs @ new) t')"
  by pat_completeness auto
termination
  by (relation "measure (\<lambda>(qs, _). sum_list (map query_weight qs))") (auto dest: run_nick_query_weight [OF sym])

definition nick_query :: "int \<Rightarrow> int \<Rightarrow> string \<Rightarrow> bool \<Rightarrow> query" where
  "nick_query now chan nick present =
     (case db_update_nick now (Some chan) (Some nick) present False of Some [Queue q] \<Rightarrow> q | _ \<Rightarrow> (0, None, False))"

lemma nick_query_eq:
  "nick_query now chan nick present = (3, Some [bind_numeric chan MYSQL_TYPE_LONG, bind_string (Some nick) MYSQL_TYPE_VAR_STRING,
     bind_numeric now MYSQL_TYPE_LONGLONG, bind_numeric (of_bool_int present) MYSQL_TYPE_LONG], False)"
  by (simp add: nick_query_def db_update_nick_def nick_only_def)

definition as_long :: "int \<Rightarrow> int" where "as_long i = signed_take_bit 31 i"
definition as_longlong :: "int \<Rightarrow> int" where "as_longlong i = signed_take_bit 63 i"

lemma bound_values [simp]:
  "bint (bind_numeric i MYSQL_TYPE_LONG) = as_long i" "bint (bind_numeric i MYSQL_TYPE_LONGLONG) = as_longlong i"
  "bstr (bind_string (Some s) MYSQL_TYPE_VAR_STRING) = s" "as_long (of_bool_int p) = of_bool_int p"
  by (simp_all add: bint_def bind_numeric_def bstr_def bind_string_def as_long_def as_longlong_def of_bool_int_def)

definition nick_entry :: "int \<Rightarrow> bool \<Rightarrow> int \<times> int" where
  "nick_entry now present = (as_longlong now, of_bool_int present)"

text \<open>What one update queues for a nick that the table has or has not.\<close>

lemma run_select:
  "run_nick_query (nick_query now chan nick p) t =
     (t, [(if t (as_long chan, nick) = None then 5 else 4, Some [bind_numeric now MYSQL_TYPE_LONGLONG,
        bind_numeric (of_bool_int p) MYSQL_TYPE_LONG, bind_numeric chan MYSQL_TYPE_LONG,
        bind_string (Some nick) MYSQL_TYPE_VAR_STRING], False)])"
  by (simp add: nick_query_eq run_nick_query_def chain_update_nick_def)

lemma run_write:
  "run_nick_query (n, Some [bind_numeric now MYSQL_TYPE_LONGLONG, bind_numeric (of_bool_int p) MYSQL_TYPE_LONG,
      bind_numeric chan MYSQL_TYPE_LONG, bind_string (Some nick) MYSQL_TYPE_VAR_STRING], sy) t =
   (if n = 3 then run_nick_query (n, Some [bind_numeric now MYSQL_TYPE_LONGLONG, bind_numeric (of_bool_int p) MYSQL_TYPE_LONG,
      bind_numeric chan MYSQL_TYPE_LONG, bind_string (Some nick) MYSQL_TYPE_VAR_STRING], sy) t
    else if n = 4 \<and> t (as_long chan, nick) \<noteq> None \<or> n = 5 \<and> t (as_long chan, nick) = None
    then (t((as_long chan, nick) \<mapsto> nick_entry now p), []) else (t, []))"
  by (auto simp: run_nick_query_def nick_entry_def)

section \<open>Properties\<close>

text \<open>Claim C28. Two updates of one nick queued together leave the second when the nick was known
  but the first when it was new: both see no row, and the second insert is rejected by the
  primary key.\<close>

theorem nick_updates_race:
  "run_nick_queue [nick_query now1 chan nick p1, nick_query now2 chan nick p2] t =
     t((as_long chan, nick) \<mapsto> (if t (as_long chan, nick) = None then nick_entry now1 p1 else nick_entry now2 p2))"
proof (cases "t (as_long chan, nick)")
  case None
  then show ?thesis by (simp add: run_select run_write [of 5])
next
  case (Some e)
  then show ?thesis by (simp add: run_select run_write [of 4])
qed

end
