(* ===== verification/UrlPlugin.thy ===== *)
theory UrlPlugin
  imports Bot BotCmds DbLoad DbThread SchemaUpgrade Regexp
begin

text \<open>
  \<open>bot/src/plugins/url.c\<close>: keywords that expand to addresses, and a log of the addresses
  seen. The plugin has a query table of its own; its queries are returned beside the new
  state of the bot. Escaping (\<open>libcurl\<close>) and the printing of times are parameters.
\<close>

section \<open>Schema and queries\<close>

definition url_log_table :: string where
  "url_log_table = ''CREATE TABLE `plugin_url_log` ('' @ nl @ ''    `urlId` INT NOT NULL AUTO_INCREMENT ,'' @ nl @
     ''    `chanid` INT NOT NULL ,'' @ nl @ ''    `timestamp` INT NOT NULL ,'' @ nl @ ''    `url` TEXT NOT NULL ,'' @ nl @
     ''    PRIMARY KEY ( `urlId` ) ,'' @ nl @ ''    INDEX `chanTime` ( `chanid` , `timestamp` ) ,'' @ nl @
     ''    INDEX `url` ( `url` ( 256 ) ) '' @ nl @ '') TYPE = MYISAM'' @ nl"

definition urlSchema :: "string list" where
  "urlSchema = [
     ''CREATE TABLE `plugin_url_keywords` ('' @ nl @ ''    `chanid` INT NOT NULL ,'' @ nl @
       ''    `keyword` VARCHAR( 255 ) NOT NULL ,'' @ nl @ ''    `url` VARCHAR( 255 ) NOT NULL ,'' @ nl @
       ''    `enabled` INT NOT NULL DEFAULT '' @ qt @ ''1'' @ qt @ '', '' @ nl @
       ''    PRIMARY KEY ( `chanid`, `keyword` )'' @ nl @ '') TYPE = MYISAM'' @ nl,
     url_log_table]"

definition urlSchemaUpgrade :: "string list list" where
  "urlSchemaUpgrade = [[],
     [''ALTER TABLE `plugin_url_keywords` DROP `serverid`'', url_log_table],
     [''ALTER TABLE `plugin_url_keywords` ADD `enabled` INT NOT NULL DEFAULT '' @ qt @ ''1'' @ qt @ '' AFTER `url`'']]"

definition CURRENT_SCHEMA_URL :: int where
  "CURRENT_SCHEMA_URL = 3"

definition urlQueryTable :: "string list" where
  "urlQueryTable = [
     ''SELECT `url` FROM `plugin_url_keywords` WHERE `chanid` = ? AND `keyword` = ? AND `enabled` = 1'',
     ''INSERT INTO `plugin_url_log` (`chanid`, `timestamp`, `url`) VALUES ( ?, ?, ? )'',
     ''SELECT `timestamp`, `url` FROM `plugin_url_log` WHERE `chanid` = ? ORDER BY `timestamp` DESC LIMIT 3'',
     ''SELECT `timestamp`, `url` FROM `plugin_url_log` WHERE `chanid` = ? AND `url` LIKE ? ORDER BY `timestamp` DESC LIMIT 3'',
     ''SELECT `keyword`, `enabled` FROM `plugin_url_keywords` WHERE `chanid` = ? ORDER BY `keyword` ASC'',
     ''SELECT `timestamp`, `chanid`, `url` FROM `plugin_url_log` ORDER BY `timestamp` DESC LIMIT 10'',
     ''SELECT `chanid`, `keyword`, `url`, `enabled` FROM `plugin_url_keywords` ORDER BY `chanid` ASC, `keyword` ASC'',
     ''UPDATE `plugin_url_keywords` SET `chanid` = ?, `keyword` = ?, `url` = ?, `enabled` = ? WHERE `chanid` = ? AND `keyword` = ?'',
     ''INSERT INTO `plugin_url_keywords` ( `chanid`, `keyword`, `url`, `enabled` ) VALUES ( ?, ?, ?, ? )'']"

definition url_get_keyword :: "int \<Rightarrow> string \<Rightarrow> query" where
  "url_get_keyword chan keyword = (0, Some [bind_long chan, bind_text keyword], True)"

definition result_get_url_keyword :: "db_row list option \<Rightarrow> string option option" where
  "result_get_url_keyword res =
     (case rows_of res of [] \<Rightarrow> Some None | row # _ \<Rightarrow> do { u \<leftarrow> col row 0; Some (Some u) })"

definition db_log_url :: "int option \<Rightarrow> int \<Rightarrow> string option \<Rightarrow> query list" where
  "db_log_url chan timestamp url =
     (case (url, chan) of
        (Some u, Some c) \<Rightarrow> [(1, Some [bind_long c, bind_long timestamp, bind_text u], False)]
      | _ \<Rightarrow> [])"

definition db_last_url :: "int \<Rightarrow> query" where
  "db_last_url chan = (2, Some [bind_long chan], False)"

text \<open>\<open>strchr\<close> of a missing text faults.\<close>

definition db_search_url :: "int \<Rightarrow> string option \<Rightarrow> query option" where
  "db_search_url chan txt = do {
     t \<leftarrow> txt;
     let like = (if strchr (CHR ''%'') t = None then ''%'' @ t @ ''%'' else t) in
     Some (3, Some [bind_long chan, bind_text like], False)
   }"

text \<open>
  The callback of the last two. \<open>who\<close>: the nick that the kept pointer shows by then, \<open>None\<close> when
  its memory is freed; \<open>fmt_time\<close> prints a time in fewer than 32 characters.
\<close>

definition result_last_url ::
    "(int \<Rightarrow> string) \<Rightarrow> addr \<Rightarrow> string option \<Rightarrow> db_row list option \<Rightarrow> world \<Rightarrow> world option" where
  "result_last_url fmt_time server who res w = do {
     nick \<leftarrow> who;
     if rows_of res = [] then tx_msg server TX_PRIVMSG (Some nick) (Some ''No matches found'') w
     else foldM (\<lambda>row w. do {
         t \<leftarrow> col_int row 0;
         let line = snprintf 1024 (fmt_time t @ '': '' @ fmt_s (col row 1)) in
         tx_msg server TX_PRIVMSG (Some nick) (Some line) w }) (rows_of res) w
   }"

definition db_list_keywords :: "int \<Rightarrow> query" where
  "db_list_keywords chan = (4, Some [bind_long chan], True)"

text \<open>The list of keywords: \<open>len\<close> is the length so far, the buffer has \<open>len + 3\<close> bytes.\<close>

fun keyword_texts :: "db_row list \<Rightarrow> nat \<Rightarrow> string option \<Rightarrow> string option option" where
  "keyword_texts [] len sofar = Some sofar"
| "keyword_texts (row # rows) len sofar = do {
     nam \<leftarrow> col row 0;
     en \<leftarrow> col_int row 1;
     let enabled = (en \<noteq> 0);
         len = len + length nam + (if enabled then 0 else 10);
         size = len + 3;
         len = (case sofar of None \<Rightarrow> len | Some _ \<Rightarrow> len + 1);
         t = (case sofar of None \<Rightarrow> [] | Some s \<Rightarrow> s @ '' '') @ nam @ (if enabled then [] else ''(disabled)'') in
     if length t < size then keyword_texts rows len (Some t) else None
   }"

definition result_list_keywords :: "db_row list option \<Rightarrow> string option option" where
  "result_list_keywords res = keyword_texts (rows_of res) 0 None"

section \<open>The command\<close>

text \<open>
  \<open>snprintf\<close> with the stored address as format and one string: a second conversion, or one of
  another type than \<open>s\<close>, is undefined. A width or a flag before the \<open>s\<close> is not modelled; it
  gives \<open>None\<close> as well.
\<close>

fun url_format :: "string \<Rightarrow> string option \<Rightarrow> string option" where
  "url_format [] arg = Some []"
| "url_format [c] arg = (if c = CHR ''%'' then None else Some [c])"
| "url_format (c # d # cs) arg =
     (if c = CHR ''%'' then
        (if d = CHR ''%'' then map_option (Cons (CHR ''%'')) (url_format cs arg)
         else if d = CHR ''s'' then (case arg of None \<Rightarrow> None | Some a \<Rightarrow> map_option (\<lambda>r. a @ r) (url_format cs None))
         else None)
      else map_option (Cons c) (url_format (d # cs) arg))"

text \<open>
  What the database answers to the two queries that wait: the address of a keyword and the rows of
  keywords; \<open>None\<close>: the callback was not called, and the variable has no value.
\<close>

record url_db =
  ud_keyword :: "int \<Rightarrow> string \<Rightarrow> db_row list option option"
  ud_list :: "int \<Rightarrow> db_row list option option"

definition url_keyword_reply :: "(string \<Rightarrow> string option) \<Rightarrow> string \<Rightarrow> string option \<Rightarrow> string option \<Rightarrow> string option" where
  "url_keyword_reply escape keyword urlFmt msg =
     (case urlFmt of
        None \<Rightarrow> Some (''No match for keyword '' @ keyword)
      | Some f \<Rightarrow> do {
          url \<leftarrow> (case msg of
                    None \<Rightarrow> Some f
                  | Some m \<Rightarrow> do {
                      x \<leftarrow> escape m;
                      t \<leftarrow> url_format f (Some x);
                      Some (snprintf (length f + length x + 10) t) });
          Some (snprintf (length url + length keyword + 5) (keyword @ '': '' @ url))
        })"

definition url_command ::
    "(string \<Rightarrow> string option) \<Rightarrow> url_db \<Rightarrow> int \<Rightarrow> string option \<Rightarrow> (string option \<times> query list) option" where
  "url_command escape db chan msg =
     (case CommandLineParse msg of
        (None, _) \<Rightarrow> Some (Some ''You need to specify the keyword!'', [])
      | (Some keyword, rest) \<Rightarrow>
          if take 1 keyword = ''-'' then
            (case CommandLineParse rest of
               (None, _) \<Rightarrow> Some (Some ''You need to specify \"list\", \"last\" or \"search\"'', [])
             | (Some k, rest) \<Rightarrow>
                 if strcasecmp k ''last'' = 0 then Some (None, [db_last_url chan])
                 else if strcasecmp k ''search'' = 0 then map_option (\<lambda>q. (None, [q])) (db_search_url chan rest)
                 else if strcasecmp k ''list'' = 0 then do {
                   res \<leftarrow> ud_list db chan;
                   l \<leftarrow> result_list_keywords res;
                   Some (l, [db_list_keywords chan])
                 }
                 else Some (Some ''You need to specify \"list\", \"last\" or \"search\"'', []))
          else do {
            res \<leftarrow> ud_keyword db chan keyword;
            f \<leftarrow> result_get_url_keyword res;
            m \<leftarrow> url_keyword_reply escape keyword f rest;
            Some (Some m, [url_get_keyword chan keyword])
          })"

definition botCmdUrl ::
    "int \<Rightarrow> (string \<Rightarrow> string option) \<Rightarrow> url_db \<Rightarrow> ptr \<Rightarrow> ptr \<Rightarrow> string \<Rightarrow> string option \<Rightarrow> world \<Rightarrow> (world \<times> query list) option" where
  "botCmdUrl now escape db server channel who msg w =
     (case (server, msg) of
        (Some sv, Some _) \<Rightarrow> do {
          r \<leftarrow> (case channel of
                  Some c \<Rightarrow> Some (Inr (c, msg))
                | None \<Rightarrow>
                    (case CommandLineParse msg of
                       (_, None) \<Rightarrow> Some (Inl ''You must specify \"url #channel keyword [expansion]\"'')
                     | (chan, Some rest) \<Rightarrow> do {
                         nam \<leftarrow> chan;
                         c \<leftarrow> FindChannel (Some sv) nam w;
                         Some (case c of None \<Rightarrow> Inl (''Can't find channel '' @ nam) | Some a \<Rightarrow> Inr (a, Some rest))
                       }));
          case r of
            Inl reply \<Rightarrow> do { w \<leftarrow> tx_msg sv TX_PRIVMSG (Some who) (Some reply) w; Some (w, []) }
          | Inr (c, m) \<Rightarrow> do {
              ch \<leftarrow> wChans w c;
              (reply, qs) \<leftarrow> url_command escape db (ch_channelId ch) m;
              w \<leftarrow> (case reply of
                     None \<Rightarrow> Some w
                   | Some t \<Rightarrow> if channel = None then tx_msg sv TX_PRIVMSG (Some who) (Some t) w
                       else LoggedChannelMessage now sv c t w);
              Some (w, qs)
            }
        }
      | _ \<Rightarrow> Some (w, []))"

text \<open>Addresses in what is said.\<close>

definition urlRegexp :: string where
  "urlRegexp = ''(?i)(?:'' @ [CHR 0x5C] @ ''s|^)((?:https?|ftp)'' @ [CHR 0x5C] @ '':'' @ [CHR 0x5C] @ ''/'' @ [CHR 0x5C] @ ''/'' @
     [CHR 0x5C] @ ''S+)(?:'' @ [CHR 0x5C] @ ''s|$)''"

definition regexpFuncUrl :: "int \<Rightarrow> ptr \<Rightarrow> string \<Rightarrow> int list \<Rightarrow> int \<Rightarrow> world \<Rightarrow> query list option" where
  "regexpFuncUrl now channel msg ov ovecsize w =
     (case channel of
        None \<Rightarrow> Some []
      | Some c \<Rightarrow> do { ch \<leftarrow> wChans w c; Some (db_log_url (Some (ch_channelId ch)) now (regexp_substring msg ov ovecsize 1)) })"

section \<open>Keywords in the user interface\<close>

text \<open>\<open>keywords\<close> is an array; an entry is named by its index, \<open>newKeyword\<close> by \<open>KwNew\<close>.\<close>

record URLKeyword_t =
  uk_channelId :: int
  uk_oldChannelId :: int
  uk_keyword :: string
  uk_oldKeyword :: "string option"
  uk_url :: string
  uk_enabled :: bool
  uk_menuText :: string

datatype kw_ref = KwAt nat | KwNew

datatype url_effect =
    UMenuAdd nat string "kw_ref option"
  | UMenuRemove nat string
  | UMenuIndex string
  | UFormShow kw_ref
  | UFormRevert kw_ref
  | UFormSave kw_ref int string
  | UFormCancel
  | UQuery query
  | UText bool int int string
  | URegexpAdd string
  | URegexpRemove string
  | UVersionAdd string string
  | UVersionRemove string

record url_state =
  ukKeywords :: "URLKeyword_t list"
  ukNew :: "URLKeyword_t option"
  ukOut :: "url_effect list"

definition uk_emit :: "url_effect list \<Rightarrow> url_state \<Rightarrow> url_state" where
  "uk_emit es s = s\<lparr>ukOut := ukOut s @ es\<rparr>"

definition keyword_menu :: "nat \<Rightarrow> int \<Rightarrow> string \<Rightarrow> string" where
  "keyword_menu digits chan keyword = snprintf (length keyword + 20) (fmt_wd digits chan @ '' - '' @ keyword)"

fun load_keywords :: "nat \<Rightarrow> db_row list \<Rightarrow> URLKeyword_t list option" where
  "load_keywords digits [] = Some []"
| "load_keywords digits (row # rows) = do {
     i \<leftarrow> col_int row 0;
     k \<leftarrow> col row 1;
     u \<leftarrow> col row 2;
     e \<leftarrow> col_int row 3;
     ks \<leftarrow> load_keywords digits rows;
     Some (\<lparr>uk_channelId = i, uk_oldChannelId = 0, uk_keyword = k, uk_oldKeyword = None, uk_url = u, uk_enabled = (e \<noteq> 0),
       uk_menuText = keyword_menu digits i k\<rparr> # ks)
   }"

definition result_url_get_keywords :: "URLKeyword_t option \<Rightarrow> db_row list option \<Rightarrow> url_state \<Rightarrow> url_state option" where
  "result_url_get_keywords newkey res s =
     (let rows = rows_of res; s = uk_emit (map (\<lambda>k. UMenuRemove 2 (uk_menuText k)) (ukKeywords s)) s in
      if rows = [] then Some (s\<lparr>ukKeywords := []\<rparr>)
      else do {
        ks \<leftarrow> load_keywords (menu_digits (length rows)) rows;
        let s = uk_emit (map (\<lambda>(i, k). UMenuAdd 2 (uk_menuText k) (Some (KwAt i))) (zip [0..<length ks] ks)) (s\<lparr>ukKeywords := ks\<rparr>) in
        (case newkey of
           None \<Rightarrow> Some s
         | Some n \<Rightarrow>
             (case find (\<lambda>k. uk_channelId k = uk_channelId n \<and> uk_keyword k = uk_keyword n) ks of
                None \<Rightarrow> Some s
              | Some k \<Rightarrow> Some (uk_emit [UMenuIndex (uk_menuText k)] (s\<lparr>ukNew := None\<rparr>))))
      })"

definition urlGetKeywords :: "url_state \<Rightarrow> url_state" where
  "urlGetKeywords s = uk_emit [UQuery (6, None, False)] s"

definition uk_at :: "kw_ref \<Rightarrow> url_state \<Rightarrow> URLKeyword_t option" where
  "uk_at r s = (case r of KwNew \<Rightarrow> ukNew s | KwAt i \<Rightarrow> if i < length (ukKeywords s) then Some (ukKeywords s ! i) else None)"

definition uk_upd :: "kw_ref \<Rightarrow> (URLKeyword_t \<Rightarrow> URLKeyword_t) \<Rightarrow> url_state \<Rightarrow> url_state" where
  "uk_upd r f s = (case r of KwNew \<Rightarrow> s\<lparr>ukNew := map_option f (ukNew s)\<rparr>
     | KwAt i \<Rightarrow> s\<lparr>ukKeywords := (ukKeywords s)[i := f (ukKeywords s ! i)]\<rparr>)"

definition db_update_keyword :: "bool \<Rightarrow> URLKeyword_t \<Rightarrow> query" where
  "db_update_keyword isNew k =
     (let d = [bind_long (uk_channelId k), bind_text (uk_keyword k), bind_text (uk_url k), bind_long (if uk_enabled k then 1 else 0)] in
      if isNew then (8, Some d, True)
      else (7, Some (d @ [bind_long (uk_oldChannelId k), bind_string (uk_oldKeyword k) MYSQL_TYPE_VAR_STRING]), False))"

text \<open>\<open>cursesSaveOffset\<close> writes one field of the form.\<close>

definition urlSaveFunc :: "kw_ref \<Rightarrow> int \<Rightarrow> string \<Rightarrow> url_state \<Rightarrow> url_state option" where
  "urlSaveFunc r index string s = do {
     k \<leftarrow> uk_at r s;
     if index \<noteq> -1 then Some (uk_emit [UFormSave r index string] s)
     else
       let s = uk_emit [UQuery (db_update_keyword (r = KwNew) k)] s in
       if uk_channelId k \<noteq> uk_oldChannelId k then Some (uk_emit [UFormCancel] (urlGetKeywords s))
       else do { old \<leftarrow> uk_oldKeyword k; Some (if uk_keyword k \<noteq> old then uk_emit [UFormCancel] (urlGetKeywords s) else s) }
   }"

definition remember_old :: "kw_ref \<Rightarrow> url_state \<Rightarrow> url_state" where
  "remember_old r = uk_upd r (\<lambda>k. k\<lparr>uk_oldChannelId := uk_channelId k, uk_oldKeyword := Some (uk_keyword k)\<rparr>)"

definition urlKeywordRevert :: "kw_ref \<Rightarrow> url_state \<Rightarrow> url_state option" where
  "urlKeywordRevert r s = do { k \<leftarrow> uk_at r s; Some (uk_emit [UFormRevert r] (remember_old r s)) }"

definition urlKeywordDisplay :: "kw_ref \<Rightarrow> url_state \<Rightarrow> url_state option" where
  "urlKeywordDisplay r s = do { k \<leftarrow> uk_at r s; Some (uk_emit [UFormShow r] (remember_old r s)) }"

definition urlKeywordNew :: "url_state \<Rightarrow> url_state option" where
  "urlKeywordNew s = urlKeywordDisplay KwNew
     (s\<lparr>ukNew := Some \<lparr>uk_channelId = -1, uk_oldChannelId = 0, uk_keyword = [], uk_oldKeyword = None, uk_url = [], uk_enabled = False, uk_menuText = []\<rparr>\<rparr>)"

definition result_url_show_last :: "(int \<Rightarrow> string) \<Rightarrow> db_row list option \<Rightarrow> url_state \<Rightarrow> url_state option" where
  "result_url_show_last fmt_time res s =
     (if rows_of res = [] then Some (uk_emit [UText True 1 1 ''No URLs seen yet''] s)
      else foldM (\<lambda>(i, row) s. do {
          t \<leftarrow> col_int row 0;
          c \<leftarrow> col row 1;
          u \<leftarrow> col row 2;
          Some (uk_emit [UText True 0 (2 * i) ''Chan'', UText True 5 (2 * i) c, UText True 8 (2 * i) (fmt_time t),
            UText True 2 (2 * i + 1) u] s) }) (zip (map int [0..<length (rows_of res)]) (rows_of res)) s)"

section \<open>Loading and unloading the plugin\<close>

definition url_initialize :: "(addr \<times> addr) option \<Rightarrow> nat \<Rightarrow> BotCmdHelpFunc option \<Rightarrow> string \<Rightarrow> url_state \<Rightarrow> cmd_tree \<Rightarrow> url_state \<times> cmd_tree" where
  "url_initialize mem f help version s t =
     (uk_emit [UVersionAdd ''CURL'' version, URegexpAdd urlRegexp]
        (urlGetKeywords (uk_emit [UMenuAdd 1 ''URL'' None, UMenuAdd 2 ''Last URLs Seen'' None, UMenuAdd 2 ''New URL Keyword'' None] s)),
      botCmd_add mem ''url'' (Some (FnPlugin f)) help 0 t)"

definition url_shutdown :: "url_state \<Rightarrow> cmd_tree \<Rightarrow> url_state \<times> cmd_tree" where
  "url_shutdown s t =
     (uk_emit (map (\<lambda>k. UMenuRemove 2 (uk_menuText k)) (ukKeywords s) @
         [UMenuRemove 2 ''New URL Keyword'', UMenuRemove 2 ''Last URLs Seen'', UMenuRemove 1 ''URL'', URegexpRemove urlRegexp, UVersionRemove ''CURL''])
       (s\<lparr>ukKeywords := []\<rparr>),
      botCmd_remove ''url'' t)"

section \<open>What it answers\<close>

text \<open>The list of keywords never leaves its buffer: every keyword, the disabled ones marked, in order.\<close>

definition keyword_label :: "db_row \<Rightarrow> string" where
  "keyword_label row = the (col row 0) @ (if the (col_int row 1) \<noteq> 0 then [] else ''(disabled)'')"

fun blanks :: "string list \<Rightarrow> string" where
  "blanks [] = []"
| "blanks [s] = s"
| "blanks (s # t # ss) = s @ '' '' @ blanks (t # ss)"

lemma blanks_Cons: "ss \<noteq> [] \<Longrightarrow> blanks (s # ss) = s @ '' '' @ blanks ss"
  by (cases ss) auto

definition keyword_row :: "db_row \<Rightarrow> bool" where
  "keyword_row row \<longleftrightarrow> col row 0 \<noteq> None \<and> col_int row 1 \<noteq> None"

lemma keyword_texts_more:
  "\<forall>row \<in> set rows. keyword_row row \<Longrightarrow> length t \<le> len \<Longrightarrow>
   keyword_texts rows len (Some t) = Some (Some (blanks (t # map keyword_label rows)))"
proof (induction rows arbitrary: len t)
  case (Cons row rows)
  then obtain nam en where r: "col row 0 = Some nam" "col_int row (Suc 0) = Some en" by (auto simp: keyword_row_def)
  let ?t = "t @ '' '' @ keyword_label row"
  have l: "keyword_label row = nam @ (if en \<noteq> 0 then [] else ''(disabled)'')" using r by (simp add: keyword_label_def)
  from Cons.prems(1) have "\<forall>row \<in> set rows. keyword_row row" by simp
  from Cons.IH [OF this, of ?t "len + length nam + (if en \<noteq> 0 then 0 else 10) + 1"] Cons.prems(2)
  have "keyword_texts (row # rows) len (Some t) = Some (Some (blanks (?t # map keyword_label rows)))"
    by (cases "en = 0") (simp_all add: r l Let_def)
  then show ?case by (cases rows) simp_all
qed simp

lemma result_list_keywords_text:
  assumes "\<forall>row \<in> set rows. keyword_row row"
  shows "result_list_keywords (Some rows) = Some (if rows = [] then None else Some (blanks (map keyword_label rows)))"
proof (cases rows)
  case Nil
  then show ?thesis by (simp add: result_list_keywords_def rows_of_def)
next
  case (Cons row rest)
  with assms obtain nam en where r: "col row 0 = Some nam" "col_int row (Suc 0) = Some en" by (auto simp: keyword_row_def)
  have l: "keyword_label row = nam @ (if en \<noteq> 0 then [] else ''(disabled)'')" using r by (simp add: keyword_label_def)
  from assms Cons have "\<forall>row \<in> set rest. keyword_row row" by simp
  from keyword_texts_more [OF this, of "keyword_label row" "length nam + (if en \<noteq> 0 then 0 else 10)"]
  show ?thesis by (cases "en = 0") (simp_all add: result_list_keywords_def rows_of_def Cons r l Let_def)
qed

text \<open>Every query fits its entry of the table.\<close>

inductive url_query :: "query \<Rightarrow> bool" where
  uq_keyword: "url_query (url_get_keyword chan keyword)"
| uq_log: "q \<in> set (db_log_url c t u) \<Longrightarrow> url_query q"
| uq_last: "url_query (db_last_url chan)"
| uq_search: "db_search_url chan m = Some q \<Longrightarrow> url_query q"
| uq_list: "url_query (db_list_keywords chan)"
| uq_show: "url_query (5, None, True)"
| uq_all: "url_query (6, None, False)"
| uq_update: "url_query (db_update_keyword isNew k)"

lemma urlQueryTable_placeholders: "map placeholders urlQueryTable = [2, 3, 1, 2, 1, 0, 0, 6, 4]"
  by code_simp

lemma url_query_shape: "url_query q \<Longrightarrow> fits_table urlQueryTable q"
proof (induction rule: url_query.induct)
  case (uq_log q c t u)
  then show ?case by (auto simp: db_log_url_def fits_table_nth [OF urlQueryTable_placeholders] split: option.splits)
qed (auto simp: fits_table_nth [OF urlQueryTable_placeholders] url_get_keyword_def db_last_url_def db_search_url_def
    db_list_keywords_def db_update_keyword_def Let_def bind_eq_Some_conv)

lemma url_format_plain: "CHR ''%'' \<notin> set cs \<Longrightarrow> url_format cs arg = Some cs"
  by (induction cs arg rule: url_format.induct) auto

lemma url_format_prefix: "CHR ''%'' \<notin> set pre \<Longrightarrow> rest \<noteq> [] \<Longrightarrow> url_format (pre @ rest) arg = map_option (\<lambda>r. pre @ r) (url_format rest arg)"
proof (induction pre)
  case (Cons c pre)
  then obtain d ds where "pre @ rest = d # ds" by (cases "pre @ rest") auto
  moreover have "c \<noteq> CHR ''%''" using Cons.prems(1) by auto
  ultimately show ?case using Cons by (simp add: option.map_comp o_def)
qed (cases "url_format rest arg"; simp)

section \<open>Properties\<close>

text \<open>Asking for a keyword with a text answers with the stored address in which %s
  stands for the escaped text; an address with a conversion of another type is undefined when
  a text is given and answered as it is otherwise.\<close>

theorem url_keyword_answer:
  assumes "CHR ''%'' \<notin> set pre" "CHR ''%'' \<notin> set post" "escape m = Some x"
  shows "url_keyword_reply escape keyword (Some (pre @ ''%s'' @ post)) (Some m) = Some (keyword @ '': '' @ pre @ x @ post) \<and>
    (c \<in> set ''diouxXeEfFgGaAcpn'' \<longrightarrow>
       url_keyword_reply escape keyword (Some (pre @ CHR ''%'' # c # post)) (Some m) = None \<and>
       url_keyword_reply escape keyword (Some (pre @ CHR ''%'' # c # post)) None = Some (keyword @ '': '' @ pre @ CHR ''%'' # c # post))"
proof -
  have 1: "url_format (pre @ ''%s'' @ post) (Some x) = Some (pre @ x @ post)"
    using url_format_prefix [OF assms(1), of "''%s'' @ post" "Some x"] url_format_plain [OF assms(2), of None] by simp
  have 2: "url_format (pre @ CHR ''%'' # c # post) (Some x) = None" if c: "c \<in> set ''diouxXeEfFgGaAcpn''"
  proof -
    from c have "c \<noteq> CHR ''s''" "c \<noteq> CHR ''%''" by auto
    then show ?thesis using url_format_prefix [OF assms(1), of "CHR ''%'' # c # post" "Some x"] by simp
  qed
  show ?thesis using 1 2 assms(3) by (simp add: url_keyword_reply_def snprintf_def)
qed

lemma url_keyword_answer_witness:
  "url_keyword_reply Some ''wp'' (Some (''http://wp/'' @ ''%s'' @ ''?x'')) (Some ''Cat'') = Some (''wp'' @ '': '' @ ''http://wp/'' @ ''Cat'' @ ''?x'')"
  using url_keyword_answer [of "''http://wp/''" "''?x''" Some "''Cat''" "''Cat''" "''wp''"] by simp

lemma url_search_without_text:
  "url_command escape db chan (Some ''- search'') = None"
  by code_simp

end
