(* ===== verification/Notice.thy ===== *)
theory Notice
  imports Bot RingQueue
begin

text \<open>
  \<open>bot/src/notice.c\<close>: the notices that a channel is logged, queued by the handlers and sent one
  a second by a thread of their own; and the locked cell of \<open>bot/src/protected_data.c\<close>.
\<close>

section \<open>Protected data\<close>

text \<open>A cell with a mutex; locking a held mutex does not return for the thread that holds it.\<close>

record 'a ProtectedData_t =
  pd_mutex :: bool
  pd_data :: "'a option"

type_synonym 'a pd_store = "addr \<rightharpoonup> 'a ProtectedData_t"

definition ProtectedDataLock :: "ptr \<Rightarrow> 'a pd_store \<Rightarrow> 'a pd_store option" where
  "ProtectedDataLock blob s =
     (case blob of
        None \<Rightarrow> Some s
      | Some a \<Rightarrow> do { b \<leftarrow> s a; if pd_mutex b then None else Some (s(a \<mapsto> b\<lparr>pd_mutex := True\<rparr>)) })"

definition ProtectedDataUnlock :: "ptr \<Rightarrow> 'a pd_store \<Rightarrow> 'a pd_store option" where
  "ProtectedDataUnlock blob s =
     (case blob of None \<Rightarrow> Some s | Some a \<Rightarrow> do { b \<leftarrow> s a; Some (s(a \<mapsto> b\<lparr>pd_mutex := False\<rparr>)) })"

definition ProtectedDataCreate :: "ptr \<Rightarrow> 'a pd_store \<Rightarrow> ptr \<times> 'a pd_store" where
  "ProtectedDataCreate mem s =
     (case mem of None \<Rightarrow> (None, s) | Some a \<Rightarrow> (Some a, s(a \<mapsto> \<lparr>pd_mutex = False, pd_data = None\<rparr>)))"

definition ProtectedDataDestroy :: "ptr \<Rightarrow> 'a pd_store \<Rightarrow> 'a pd_store option" where
  "ProtectedDataDestroy blob s = do { a \<leftarrow> blob; _ \<leftarrow> s a; Some (s(a := None)) }"

lemma pd_lock_unlock:
  "s a = Some b \<Longrightarrow> \<not> pd_mutex b \<Longrightarrow>
   \<exists>s'. ProtectedDataLock (Some a) s = Some s' \<and> ProtectedDataLock (Some a) s' = None \<and> ProtectedDataUnlock (Some a) s' = Some s"
  by (auto simp: ProtectedDataLock_def ProtectedDataUnlock_def fun_upd_idem)

section \<open>Notices\<close>

record NotifyItem_t =
  nt_server :: ptr
  nt_channel :: addr
  nt_nick :: string

text \<open>\<open>mem\<close>: whether \<open>malloc\<close> succeeds. \<open>None\<close>: the queue is full and the handler waits, or a fault.\<close>

definition send_notice :: "bool \<Rightarrow> ptr \<Rightarrow> string option \<Rightarrow> world \<Rightarrow> NotifyItem_t QueueObject_t \<Rightarrow> NotifyItem_t QueueObject_t option" where
  "send_notice mem channel nick w q =
     (case (channel, nick) of
        (Some c, Some n) \<Rightarrow>
          if \<not> mem then Some q
          else do {
            ch \<leftarrow> wChans w c;
            try_enqueue \<lparr>nt_server = ch_server ch, nt_channel = c, nt_nick = n\<rparr> q
          }
      | _ \<Rightarrow> Some q)"

definition notice_line :: "string \<Rightarrow> IRCChannel_t \<Rightarrow> string" where
  "notice_line nick ch = snprintf MAX_STRING_LENGTH (nick @ '' :This channel ('' @ ch_channel ch @ '') is logged -- '' @ ch_url ch)"

text \<open>One pass of \<open>notify_thread\<close>; it then sleeps for a second.\<close>

definition notify_item :: "int \<Rightarrow> NotifyItem_t \<Rightarrow> world \<Rightarrow> world option" where
  "notify_item now it w = do {
     ch \<leftarrow> wChans w (nt_channel it);
     w \<leftarrow> (case nt_server it of None \<Rightarrow> Some w | Some sv \<Rightarrow> tx_msg sv TX_NOTICE None (Some (notice_line (nt_nick it) ch)) w);
     Some (emit_db (db_notify_nick now (Some (ch_channelId ch)) (Some (nt_nick it))) w)
   }"

definition notify_thread :: "int \<Rightarrow> NotifyItem_t QueueObject_t \<Rightarrow> world \<Rightarrow> (NotifyItem_t QueueObject_t \<times> world) option" where
  "notify_thread now q w = do { (it, q) \<leftarrow> try_dequeue q; w \<leftarrow> notify_item now it w; Some (q, w) }"

fun notify_all :: "int \<Rightarrow> nat \<Rightarrow> NotifyItem_t QueueObject_t \<Rightarrow> world \<Rightarrow> (NotifyItem_t QueueObject_t \<times> world) option" where
  "notify_all now 0 q w = Some (q, w)"
| "notify_all now (Suc n) q w = do { (q, w) \<leftarrow> notify_thread now q w; notify_all now n q w }"

text \<open>The channel is in memory and its server has a queue.\<close>

definition reachable_notice :: "world \<Rightarrow> NotifyItem_t \<Rightarrow> bool" where
  "reachable_notice w it \<longleftrightarrow> (\<exists>ch sv s. wChans w (nt_channel it) = Some ch \<and> nt_server it = Some sv \<and>
     wServers w sv = Some s \<and> sv_txQueue s)"

definition notice_effects :: "int \<Rightarrow> world \<Rightarrow> NotifyItem_t \<Rightarrow> effect list" where
  "notice_effects now w it =
     (let ch = the (wChans w (nt_channel it)) in
      TxMsg (the (nt_server it)) TX_NOTICE None (Some (notice_line (nt_nick it) ch)) #
        map DbAct (db_notify_nick now (Some (ch_channelId ch)) (Some (nt_nick it))))"

lemma notify_item_effects:
  assumes "reachable_notice w it"
  shows "\<exists>w'. notify_item now it w = Some w' \<and> wOut w' = wOut w @ notice_effects now w it \<and> wChans w' = wChans w \<and> wServers w' = wServers w"
  using assms by (auto simp: reachable_notice_def notify_item_def tx_msg_Some notice_effects_def Let_def)

text \<open>The notify thread sends every queued notice, in order, to its nick on its server,
  marks each in the database and leaves the queue empty.\<close>

theorem notices_in_order:
  assumes "q_inv q" "\<forall>it \<in> set (q_contents q). reachable_notice w it"
  shows "\<exists>q' w'. notify_all now (length (q_contents q)) q w = Some (q', w') \<and> q_contents q' = [] \<and>
    wOut w' = wOut w @ concat (map (notice_effects now w) (q_contents q))"
  using assms
proof (induction "q_contents q" arbitrary: q w)
  case Nil
  then show ?case by simp
next
  case (Cons it its)
  from ring_fifo.deq [OF Cons.prems(1) Cons.hyps(2) [symmetric]] obtain q1 where
    q1: "try_dequeue q = Some (it, q1)" "q_inv q1" "q_contents q1 = its" by blast
  from Cons.prems(2) Cons.hyps(2) have r: "reachable_notice w it" "\<forall>i \<in> set its. reachable_notice w i" by (metis list.set_intros)+
  from notify_item_effects [OF r(1), of now] obtain w1 where
    w1: "notify_item now it w = Some w1" "wOut w1 = wOut w @ notice_effects now w it" "wChans w1 = wChans w" "wServers w1 = wServers w"
    by blast
  have "\<forall>i \<in> set (q_contents q1). reachable_notice w1 i" "notice_effects now w1 = notice_effects now w"
    using r(2) q1(3) w1(3,4) by (simp_all add: reachable_notice_def notice_effects_def fun_eq_iff)
  with Cons.hyps(1) [OF q1(3) [symmetric] q1(2), of w1] obtain q2 w2 where
    "notify_all now (length its) q1 w1 = Some (q2, w2)" "q_contents q2 = []" "wOut w2 = wOut w1 @ concat (map (notice_effects now w) its)"
    by (auto simp: q1(3))
  with q1 w1 Cons.hyps(2) [symmetric] show ?case by (simp add: notify_thread_def)
qed

text \<open>A channel that is freed while its notice waits is used all the same.\<close>

lemma notice_channel_gone: "wChans w (nt_channel it) = None \<Longrightarrow> notify_item now it w = None"
  by (simp add: notify_item_def)

definition notice_world :: world where
  "notice_world = no_world\<lparr>wServers := [21 \<mapsto> new_server\<lparr>sv_txQueue := True\<rparr>],
     wChans := [22 \<mapsto> new_channel\<lparr>ch_channel := ''#bot'', ch_url := ''http://x'', ch_server := Some 21\<rparr>]\<rparr>"

definition notice_queue :: "NotifyItem_t QueueObject_t" where
  "notice_queue = fst (Queue_put \<lparr>nt_server = Some 21, nt_channel = 22, nt_nick = ''bob''\<rparr> four_slots)"

lemma notices_in_order_witness:
  "\<exists>q' w'. notify_all 0 (length (q_contents notice_queue)) notice_queue notice_world = Some (q', w') \<and> q_contents q' = [] \<and>
    wOut w' = wOut notice_world @ concat (map (notice_effects 0 notice_world) (q_contents notice_queue))"
proof (rule notices_in_order)
  have q0: "q_inv (four_slots :: NotifyItem_t QueueObject_t)" "q_contents (four_slots :: NotifyItem_t QueueObject_t) = []"
    using QueueCreate_inv [OF _ QueueCreate_four] by auto
  have nf: "\<not> qfull (four_slots :: NotifyItem_t QueueObject_t)" by (simp add: four_slots_def)
  note p = Queue_put_inv [OF q0(1) nf]
  show "q_inv notice_queue" using p(1) by (simp add: notice_queue_def)
  show "\<forall>it \<in> set (q_contents notice_queue). reachable_notice notice_world it"
    using p(2) q0(2) by (simp add: notice_queue_def notice_world_def reachable_notice_def)
qed

end
