(* ===== verification/TimeTree.thy ===== *)
theory TimeTree
  imports Structs
begin

text \<open>
  Trees keyed by times, as the feed and mailbox plugins use them: a \<open>time_t\<close> is compared
  through its first four bytes by \<open>KeyCompareInt\<close>, which orders non-negative times before
  2038. \<open>unconflicting\<close> is the loop that both plugins use to move a time to the next one that
  the tree does not hold (\<open>rssfeedFindUnconflictingTime\<close>, \<open>mailboxFindUnconflictingTime\<close>).
\<close>

section \<open>Times as keys\<close>

fun pos_int :: "BTreeKey \<Rightarrow> bool" where
  "pos_int (KInt w) \<longleftrightarrow> 0 \<le> sint w"
| "pos_int _ \<longleftrightarrow> False"

fun key_val :: "BTreeKey \<Rightarrow> int" where
  "key_val (KInt w) = sint w"
| "key_val _ = 0"

lemma sint_diff_pos:
  fixes l r :: "32 word"
  assumes "0 \<le> sint l" "0 \<le> sint r"
  shows "sint (l - r) = sint l - sint r"
  using assms sint_less [of l] sint_less [of r] by (simp add: sint_word_diff signed_take_bit_int_eq_self)

lemma cmp_pos: "pos_int a \<Longrightarrow> pos_int b \<Longrightarrow> cmp_of KeyCompareInt a b = clamp1 (key_val a - key_val b)"
  by (cases a; cases b) (auto simp: cmp_of_def sint_diff_pos)

interpretation time_key: key_order "cmp_of KeyCompareInt" pos_int
  by unfold_locales (simp_all add: cmp_pos)

interpretation time_tree: btree "cmp_of KeyCompareInt" pos_int key for key :: "'a \<Rightarrow> BTreeKey"
  by unfold_locales

definition is_time :: "int \<Rightarrow> bool" where
  "is_time t \<longleftrightarrow> 0 \<le> t \<and> t < 2 ^ 31"

lemma is_time_key [simp]: "is_time t \<Longrightarrow> pos_int (id_key t)" "is_time t \<Longrightarrow> key_val (id_key t) = t"
  by (simp_all add: is_time_def id_key_def sint_sbintrunc' signed_take_bit_int_eq_self)

abbreviation find_time :: "('a \<Rightarrow> BTreeKey) \<Rightarrow> int \<Rightarrow> 'a tree \<Rightarrow> 'a option" where
  "find_time key t T \<equiv> bt_find (cmp_of KeyCompareInt) key (id_key t) T"

abbreviation add_time :: "('a \<Rightarrow> BTreeKey) \<Rightarrow> 'a \<Rightarrow> 'a tree \<Rightarrow> 'a tree" where
  "add_time \<equiv> bt_insert (cmp_of KeyCompareInt)"

abbreviation time_inv :: "('a \<Rightarrow> BTreeKey) \<Rightarrow> 'a tree \<Rightarrow> bool" where
  "time_inv key T \<equiv> bt_inv (cmp_of KeyCompareInt) pos_int key T"

section \<open>The next free time\<close>

text \<open>
  The time that is moved may itself be the key of an item of the tree: \<open>K t x\<close> is the key of \<open>x\<close>
  while the time is \<open>t\<close>.
\<close>

partial_function (option) unconflicting :: "(int \<Rightarrow> 'a \<Rightarrow> BTreeKey) \<Rightarrow> 'a tree \<Rightarrow> int \<Rightarrow> int option" where
  "unconflicting K T t = (case find_time (K t) t T of None \<Rightarrow> Some t | Some _ \<Rightarrow> unconflicting K T (t + 1))"

declare unconflicting.simps [code]

lemma bt_find_cong: "(\<And>x. x \<in> set_tree T \<Longrightarrow> f x = g x) \<Longrightarrow> bt_find cmp f k T = bt_find cmp g k T"
  by (induction T) auto

lemma bt_insert_cong:
  "(\<And>x. x \<in> insert y (set_tree T) \<Longrightarrow> f x = g x) \<Longrightarrow> bt_insert cmp f y T = bt_insert cmp g y T"
  by (induction T) auto

lemma bt_inv_cong: "(\<And>x. x \<in> set_tree T \<Longrightarrow> f x = g x) \<Longrightarrow> bt_inv cmp ok f T = bt_inv cmp ok g T"
  by (induction T) (auto simp: bt_inv_def)

text \<open>The loop ends within as many steps as the tree has items, at the first time that is free.\<close>

lemma unconflicting_first:
  assumes "time_inv key T" "\<forall>t. \<forall>x \<in> set_tree T. K t x = key x"
    and "0 \<le> t" "t + int (card {x \<in> set_tree T. t \<le> key_val (key x)}) < 2 ^ 31"
  shows "\<exists>u. unconflicting K T t = Some u \<and> t \<le> u \<and> u \<le> t + int (card {x \<in> set_tree T. t \<le> key_val (key x)}) \<and>
    find_time key u T = None \<and> (\<forall>j. t \<le> j \<and> j < u \<longrightarrow> find_time key j T \<noteq> None)"
  using assms(3,4)
proof (induction "card {x \<in> set_tree T. t \<le> key_val (key x)}" arbitrary: t rule: less_induct)
  case less
  have K: "find_time (K t) t T = find_time key t T" by (rule bt_find_cong) (simp add: assms(2))
  show ?case
  proof (cases "find_time key t T")
    case None
    then have "unconflicting K T t = Some t" by (subst unconflicting.simps) (simp add: K)
    with None show ?thesis by (intro exI [of _ t]) auto
  next
    case (Some x)
    let ?A = "\<lambda>t. {x \<in> set_tree T. t \<le> key_val (key x)}"
    have t: "is_time t" using less.prems by (simp add: is_time_def)
    from Some time_tree.inv_find [OF assms(1), of "id_key t" x] t
    have x: "x \<in> set_tree T" "cmp_of KeyCompareInt (id_key t) (key x) = 0" by simp_all
    with assms(1) have "pos_int (key x)" by (simp add: bt_inv_def bt_keys_ok_def)
    with x t have v: "key_val (key x) = t" by (simp add: cmp_pos)
    have "x \<in> ?A t" "x \<notin> ?A (t + 1)" "?A (t + 1) \<subseteq> ?A t" using x v by auto
    then have "?A (t + 1) \<subset> ?A t" by blast
    then have c: "card (?A (t + 1)) < card (?A t)" by (intro psubset_card_mono) simp_all
    with less.hyps [of "t + 1"] less.prems obtain u where
      u: "unconflicting K T (t + 1) = Some u" "t + 1 \<le> u" "u \<le> t + 1 + int (card (?A (t + 1)))"
      "find_time key u T = None" "\<forall>j. t + 1 \<le> j \<and> j < u \<longrightarrow> find_time key j T \<noteq> None" by auto
    have "unconflicting K T t = Some u" using u(1) Some K by (subst unconflicting.simps) simp
    moreover have "\<forall>j. t \<le> j \<and> j < u \<longrightarrow> find_time key j T \<noteq> None"
    proof (intro allI impI)
      fix j assume "t \<le> j \<and> j < u"
      then show "find_time key j T \<noteq> None" using u(5) Some by (cases "j = t") auto
    qed
    ultimately show ?thesis using u(2-4) c by (intro exI [of _ u]) auto
  qed
qed

lemma card_later: "card {x \<in> set_tree T. t \<le> key_val (key x)} \<le> size T"
proof -
  have "card {x \<in> set_tree T. t \<le> key_val (key x)} \<le> card (set (inorder T))" by (intro card_mono) auto
  also have "\<dots> \<le> length (inorder T)" by (rule card_length)
  finally show ?thesis by simp
qed

lemma unconflicting_ends:
  assumes "time_inv key T" "\<forall>t. \<forall>x \<in> set_tree T. K t x = key x" "0 \<le> t" "t + int (size T) < 2 ^ 31"
  shows "\<exists>u. unconflicting K T t = Some u \<and> t \<le> u \<and> u \<le> t + int (size T) \<and>
    find_time key u T = None \<and> (\<forall>j. t \<le> j \<and> j < u \<longrightarrow> find_time key j T \<noteq> None)"
proof -
  have c: "int (card {x \<in> set_tree T. t \<le> key_val (key x)}) \<le> int (size T)"
    using card_later [where T = T and t = t and key = key] by simp
  have "t + int (card {x \<in> set_tree T. t \<le> key_val (key x)}) < 2 ^ 31" using c assms(4) by linarith
  from unconflicting_first [OF assms(1) assms(2) assms(3) this] c show ?thesis by (meson add_left_mono order_trans)
qed

text \<open>An item whose own key is moved along with the time conflicts with itself for ever.\<close>

lemma unconflicting_self: "unconflicting (\<lambda>t _. id_key t) (Node l x r) t = None"
proof (rule ccontr)
  assume "unconflicting (\<lambda>t _. id_key t) (Node l x r) t \<noteq> None"
  then obtain u where u: "unconflicting (\<lambda>t _. id_key t) (Node l x r) t = Some u" by auto
  have "K = (\<lambda>t _. id_key t) \<longrightarrow> T = Leaf" if "unconflicting K T t = Some u" for K :: "int \<Rightarrow> 'a \<Rightarrow> BTreeKey" and T t u
  proof (rule unconflicting.raw_induct [OF _ that, where P = "\<lambda>K T t u. K = (\<lambda>t _. id_key t) \<longrightarrow> T = Leaf"])
    fix f and K :: "int \<Rightarrow> 'a \<Rightarrow> BTreeKey" and T t u
    assume IH: "\<And>K T t u. f K T t = Some u \<Longrightarrow> K = (\<lambda>t _. id_key t) \<longrightarrow> T = Leaf"
      and h: "(case find_time (K t) t T of None \<Rightarrow> Some t | Some _ \<Rightarrow> f K T (t + 1)) = Some u"
    show "K = (\<lambda>t _. id_key t) \<longrightarrow> T = Leaf"
      using IH [of K T "t + 1" u] h by (cases T) (auto simp: cmp_of_def id_key_def clamp1_def)
  qed
  with u show False by blast
qed

end
