(* ===== verification/Sweep.thy ===== *)
theory Sweep
  imports Prelude
begin

text \<open>
  The removal of what a reload has not visited. Servers, plugins, feeds and mailboxes are all
  flushed by a walk over a tree that stops at the first item that is gone, because removing it
  changes the tree under the walk, and that is called again until it finds none. The locale states
  what a walk and a removal promise; the loop then ends with exactly the visited items.
\<close>

locale sweeper =
  fixes ok :: "'s \<Rightarrow> bool"
    and on :: "'s \<Rightarrow> 'a set"
    and gone :: "'s \<Rightarrow> 'a \<Rightarrow> bool"
    and drop_item :: "'a \<Rightarrow> 's \<Rightarrow> 's"
    and walk :: "'s \<Rightarrow> (bool \<times> 's) option"
    and sweep :: "'s \<Rightarrow> 's option"
  assumes finite_on: "ok s \<Longrightarrow> finite (on s)"
    and walk_none: "ok s \<Longrightarrow> \<forall>a \<in> on s. \<not> gone s a \<Longrightarrow> walk s = Some (False, s)"
    and walk_some: "ok s \<Longrightarrow> \<exists>a \<in> on s. gone s a \<Longrightarrow> \<exists>a \<in> on s. gone s a \<and> walk s = Some (True, drop_item a s)"
    and drop_ok: "ok s \<Longrightarrow> a \<in> on s \<Longrightarrow> gone s a \<Longrightarrow> ok (drop_item a s) \<and> on (drop_item a s) = on s - {a}"
    and drop_gone: "ok s \<Longrightarrow> a \<in> on s \<Longrightarrow> gone s a \<Longrightarrow> b \<in> on s - {a} \<Longrightarrow> gone (drop_item a s) b = gone s b"
    and sweep: "sweep s = do { (b, s) \<leftarrow> walk s; if b then sweep s else Some s }"
begin

text \<open>\<open>v\<close>: anything of an item that removing another one leaves alone.\<close>

lemma sweep_run:
  assumes "ok s" "\<And>s a b. ok s \<Longrightarrow> a \<in> on s \<Longrightarrow> gone s a \<Longrightarrow> b \<in> on s - {a} \<Longrightarrow> v (drop_item a s) b = v s b"
  shows "\<exists>s'. sweep s = Some s' \<and> ok s' \<and> on s' = {a \<in> on s. \<not> gone s a} \<and> (\<forall>b \<in> on s'. v s' b = v s b)"
  using assms(1)
proof (induction "card {a \<in> on s. gone s a}" arbitrary: s)
  case 0
  then have "{a \<in> on s. gone s a} = {}" using finite_on [of s] by simp
  then have none: "\<forall>a \<in> on s. \<not> gone s a" by blast
  with 0 walk_none [of s] have "sweep s = Some s" by (subst sweep) simp
  with 0 none show ?case by (intro exI [of _ s]) auto
next
  case (Suc n)
  then have "{a \<in> on s. gone s a} \<noteq> {}" by (metis card.empty nat.distinct(1))
  then obtain a where a: "a \<in> on s" "gone s a" "walk s = Some (True, drop_item a s)"
    using walk_some [OF Suc.prems] by blast
  let ?s = "drop_item a s"
  note d = drop_ok [OF Suc.prems a(1,2)] and g = drop_gone [OF Suc.prems a(1,2)]
  have rest: "{b \<in> on ?s. gone ?s b} = {b \<in> on s. gone s b} - {a}" using d g by auto
  have "n = card {b \<in> on ?s. gone ?s b}" using Suc.hyps(2) a rest by (simp add: card_Diff_singleton)
  with Suc.hyps(1) [of ?s] d obtain s' where s': "sweep ?s = Some s'" "ok s'" "on s' = {b \<in> on ?s. \<not> gone ?s b}"
    "\<forall>b \<in> on s'. v s' b = v ?s b" by blast
  have "sweep s = sweep ?s" using a(3) by (subst sweep) simp
  moreover have "on s' = {b \<in> on s. \<not> gone s b}" using s'(3) d g a by auto
  moreover have "\<forall>b \<in> on s'. v s' b = v s b" using s'(3,4) assms(2) [OF Suc.prems a(1,2)] d by auto
  ultimately show ?case using s' by (intro exI [of _ s']) simp
qed

end

end
