(* ===== verification/RssFeed.thy ===== *)
theory RssFeed
  imports TimeTree Sweep Bot BotCmds DbLoad SchemaUpgrade
begin

text \<open>
  \<open>bot/src/plugins/rssfeed.c\<close> without its thread (see \<open>RssThread\<close>): the feeds, their
  two trees (by number, and by the time of the next poll), loading and reloading from the
  database, the command and the forms. A feed is an address; a node of the tree of polls is
  the pair of its own address and its feed. The key of a node is read from the feed, so
  writing \<open>nextpoll\<close> moves the key of a node in place. A pass over freed memory gives \<open>None\<close>.
\<close>

section \<open>Schema and queries\<close>

definition CURRENT_SCHEMA_RSSFEED :: int where
  "CURRENT_SCHEMA_RSSFEED = 5"

definition rssSchema :: "string list" where
  "rssSchema = [
     ''CREATE TABLE `plugin_rssfeed` ('' @ nl @ ''    `feedid` INT NOT NULL AUTO_INCREMENT ,'' @ nl @
       ''    `enabled` INT NOT NULL DEFAULT '' @ qt @ ''1'' @ qt @ '','' @ nl @ ''    `chanid` INT NOT NULL ,'' @ nl @
       ''    `url` VARCHAR( 255 ) NOT NULL ,'' @ nl @ ''    `userpasswd` VARCHAR( 255 ) NOT NULL ,'' @ nl @
       ''    `authtype` INT NOT NULL ,'' @ nl @ ''    `prefix` VARCHAR( 64 ) NOT NULL ,'' @ nl @
       ''    `timeout` INT NOT NULL ,'' @ nl @ ''    `lastpost` INT NOT NULL ,'' @ nl @
       ''    `timespec` VARCHAR( 255 ) NOT NULL ,'' @ nl @ ''    `feedoffset` INT NOT NULL ,'' @ nl @
       ''    PRIMARY KEY ( `feedid` )'' @ nl @ '') TYPE = MYISAM'' @ nl]"

definition rssSchemaUpgrade :: "string list list" where
  "rssSchemaUpgrade = [[],
     [''ALTER TABLE `plugin_rssfeed` ADD `feedoffset` INT NOT NULL ;''],
     [''ALTER TABLE `plugin_rssfeed` ADD `userpasswd` VARCHAR( 255 ) NOT NULL AFTER `url` , '' @
      ''ADD `authtype` INT NOT NULL AFTER `userpasswd` ;''],
     [''ALTER TABLE `plugin_rssfeed` ADD `timespec` VARCHAR( 255 ) NOT NULL AFTER `lastpost` ;''],
     [''ALTER TABLE `plugin_rssfeed` ADD `enabled` INT NOT NULL DEFAULT '' @ qt @ ''1'' @ qt @ '' AFTER `feedId`'']]"

definition rssfeedQueryTable :: "string list" where
  "rssfeedQueryTable = [
     ''SELECT a.`feedid`, a.`chanid`, b.`serverid`, a.`url`, a.`userpasswd`, a.`authtype`, a.`prefix`, '' @
       ''a.`timeout`, a.`lastpost`, a.`timespec`, a.`feedoffset`, a.`enabled` FROM `plugin_rssfeed` AS a, '' @
       ''`channels` AS b WHERE a.`chanid` = b.`chanid` ORDER BY a.`feedid` ASC'',
     ''UPDATE `plugin_rssfeed` SET `lastpost` = ? WHERE `feedid` = ?'',
     ''UPDATE `plugin_rssfeed` SET `chanid` = ?, `url` = ?, `userpasswd` = ?, `authtype` = ?, `prefix` = ?, '' @
       ''`timeout` = ?, `timespec` = ?, `feedoffset` = ?, `enabled` = ? WHERE `feedid` = ?'',
     ''INSERT INTO `plugin_rssfeed` ( `feedid`, `chanid`, `url`, `userpasswd`, `authtype`, `prefix`, `timeout`, '' @
       ''`lastpost`, `timespec`, `feedoffset`, `enabled` ) VALUES ( NULL, ?, ?, ?, ?, ?, ?, 0, ?, ?, ? )'']"

section \<open>Feeds\<close>

record RssFeed_t =
  rf_feedId :: int
  rf_serverId :: int
  rf_chanId :: int
  rf_url :: string
  rf_userpass :: "string option"
  rf_authtype :: int
  rf_prefix :: string
  rf_timeout :: int
  rf_lastPost :: int
  rf_nextpoll :: int
  rf_server :: ptr
  rf_channel :: ptr
  rf_enabled :: bool
  rf_timeSpec :: string
  rf_offset :: int
  rf_visited :: bool
  rf_modified :: bool
  rf_justAdded :: bool
  rf_menuText :: "string option"

definition new_feed :: RssFeed_t where
  "new_feed = \<lparr>rf_feedId = 0, rf_serverId = 0, rf_chanId = 0, rf_url = [], rf_userpass = None, rf_authtype = 0,
     rf_prefix = [], rf_timeout = 0, rf_lastPost = 0, rf_nextpoll = 0, rf_server = None, rf_channel = None,
     rf_enabled = False, rf_timeSpec = [], rf_offset = 0, rf_visited = False, rf_modified = False,
     rf_justAdded = False, rf_menuText = None\<rparr>"

text \<open>A post that waits to be written: \<open>RssItem_t\<close>.\<close>

record RssItem_t =
  ri_feed :: addr
  ri_pubTime :: int
  ri_title :: "string option"
  ri_link :: "string option"

datatype rss_effect =
    RsMenuAdd nat string ptr
  | RsMenuRemove nat string
  | RsMenuSelect string
  | RsQuery query
  | RsKick
  | RsSleep int
  | RsForm string addr
  | RsFormSave addr int string
  | RsCancel
  | RsVersion bool string
  | RsThread bool

record rss =
  rsFeed :: "addr \<rightharpoonup> RssFeed_t"
  rsTree :: "addr tree"
  rsActive :: "(addr \<times> addr) tree"
  rsItems :: "RssItem_t tree"
  rsReload :: bool
  rsStop :: bool
  rsTick :: nat
  rsW :: world
  rsOut :: "rss_effect list"

definition rs_emit :: "rss_effect list \<Rightarrow> rss \<Rightarrow> rss" where
  "rs_emit es s = s\<lparr>rsOut := rsOut s @ es\<rparr>"

lemma rs_emit_simps [simp]:
  "rsFeed (rs_emit es s) = rsFeed s" "rsTree (rs_emit es s) = rsTree s" "rsActive (rs_emit es s) = rsActive s"
  "rsItems (rs_emit es s) = rsItems s" "rsReload (rs_emit es s) = rsReload s" "rsStop (rs_emit es s) = rsStop s"
  "rsTick (rs_emit es s) = rsTick s" "rsW (rs_emit es s) = rsW s" "rsOut (rs_emit es s) = rsOut s @ es"
  "(rs_emit es s)\<lparr>rsFeed := h\<rparr> = rs_emit es (s\<lparr>rsFeed := h\<rparr>)" "(rs_emit es s)\<lparr>rsTree := t\<rparr> = rs_emit es (s\<lparr>rsTree := t\<rparr>)"
  "(rs_emit es s)\<lparr>rsActive := u\<rparr> = rs_emit es (s\<lparr>rsActive := u\<rparr>)" "(rs_emit es s)\<lparr>rsItems := v\<rparr> = rs_emit es (s\<lparr>rsItems := v\<rparr>)"
  "rs_emit fs (rs_emit es s) = rs_emit (es @ fs) s" "rs_emit [] s = s"
  by (simp_all add: rs_emit_def)

definition upd_feed :: "addr \<Rightarrow> (RssFeed_t \<Rightarrow> RssFeed_t) \<Rightarrow> rss \<Rightarrow> rss option" where
  "upd_feed a f s = do { d \<leftarrow> rsFeed s a; Some (s\<lparr>rsFeed := (rsFeed s)(a \<mapsto> f d)\<rparr>) }"

definition feed_key :: "rss \<Rightarrow> addr \<Rightarrow> BTreeKey" where
  "feed_key s a = id_key (case rsFeed s a of Some f \<Rightarrow> rf_feedId f | None \<Rightarrow> 0)"

definition poll_key :: "rss \<Rightarrow> addr \<times> addr \<Rightarrow> BTreeKey" where
  "poll_key s x = id_key (case rsFeed s (snd x) of Some f \<Rightarrow> rf_nextpoll f | None \<Rightarrow> 0)"

definition find_feed :: "int \<Rightarrow> rss \<Rightarrow> ptr option" where
  "find_feed i s =
     (if alive (rsFeed s) (rsTree s) then Some (bt_find (cmp_of KeyCompareInt) (feed_key s) (id_key i) (rsTree s)) else None)"

definition polls_alive :: "rss \<Rightarrow> bool" where
  "polls_alive s \<longleftrightarrow> alive (rsFeed s) (map_tree snd (rsActive s))"

definition find_poll :: "int \<Rightarrow> rss \<Rightarrow> (addr \<times> addr) option option" where
  "find_poll t s = (if polls_alive s then Some (find_time (poll_key s) t (rsActive s)) else None)"

text \<open>
  A new node for a feed: its poll time is moved to a free one, while the nodes that the feed
  may still have in the tree move along.
\<close>

definition moving_key :: "rss \<Rightarrow> addr \<Rightarrow> int \<Rightarrow> addr \<times> addr \<Rightarrow> BTreeKey" where
  "moving_key s a t x = (if snd x = a then id_key t else poll_key s x)"

definition add_poll :: "addr \<times> addr \<Rightarrow> rss \<Rightarrow> rss option" where
  "add_poll x s = do {
     f \<leftarrow> rsFeed s (snd x);
     if polls_alive s then do {
       t \<leftarrow> unconflicting (moving_key s (snd x)) (rsActive s) (rf_nextpoll f);
       s \<leftarrow> upd_feed (snd x) (\<lambda>f. f\<lparr>rf_nextpoll := t\<rparr>) s;
       Some (s\<lparr>rsActive := add_time (poll_key s) x (rsActive s)\<rparr>)
     } else None
   }"

text \<open>\<open>FindServerNum\<close> and \<open>FindChannelNum\<close> for a feed.\<close>

definition locate_feed :: "addr \<Rightarrow> rss \<Rightarrow> rss option" where
  "locate_feed a s = do {
     f \<leftarrow> rsFeed s a;
     sv \<leftarrow> FindServerNum (rf_serverId f) (rsW s);
     ch \<leftarrow> FindChannelNum sv (rf_chanId f) (rsW s);
     upd_feed a (\<lambda>f. f\<lparr>rf_server := sv, rf_channel := ch\<rparr>) s
   }"

section \<open>Loading\<close>

definition feed_settings :: "db_row \<Rightarrow> RssFeed_t \<Rightarrow> RssFeed_t option" where
  "feed_settings row f = do {
     i \<leftarrow> col_int row 0;
     chan \<leftarrow> col_int row 1;
     server \<leftarrow> col_int row 2;
     url \<leftarrow> col row 3;
     userpass \<leftarrow> col row 4;
     authtype \<leftarrow> col_int row 5;
     pre \<leftarrow> col row 6;
     timeout \<leftarrow> col_int row 7;
     lastPost \<leftarrow> col_int row 8;
     timeSpec \<leftarrow> col row 9;
     offset \<leftarrow> col_int row 10;
     enabled \<leftarrow> col_int row 11;
     Some (f\<lparr>rf_feedId := i, rf_chanId := chan, rf_serverId := server, rf_url := url,
       rf_userpass := (if userpass = [] then None else Some userpass), rf_authtype := authtype, rf_prefix := pre,
       rf_timeout := timeout, rf_lastPost := lastPost, rf_timeSpec := timeSpec, rf_offset := offset,
       rf_enabled := (enabled \<noteq> 0), rf_modified := False\<rparr>)
   }"

definition feed_menu_text :: "nat \<Rightarrow> RssFeed_t \<Rightarrow> string" where
  "feed_menu_text digits f =
     snprintf (length (rf_prefix f) + 20) (fmt_wd digits (rf_feedId f) @ '' - '' @ rf_prefix f @ '' ('' @ fmt_d (rf_chanId f) @ '')'')"

definition feed_menu :: "nat \<Rightarrow> addr \<Rightarrow> rss \<Rightarrow> rss option" where
  "feed_menu digits a s = do {
     f \<leftarrow> rsFeed s a;
     let m = feed_menu_text digits f;
         s = (case rf_menuText f of
                Some old \<Rightarrow> if m = old then s else rs_emit [RsMenuRemove 2 old, RsMenuAdd 2 m (Some a)] s
              | None \<Rightarrow> rs_emit [RsMenuAdd 2 m (Some a)] s);
         s = (if rf_justAdded f then rs_emit [RsMenuSelect m] s else s) in
     upd_feed a (\<lambda>f. f\<lparr>rf_menuText := Some m, rf_justAdded := False\<rparr>) s
   }"

text \<open>
  What a row sets in a known or new feed (at \<open>new\<close>): the feed, whether it was known, whether it
  was and is enabled. \<open>np\<close> is the poll time for a feed that needs one.
\<close>

definition load_feed_data :: "nat \<Rightarrow> addr \<Rightarrow> db_row \<Rightarrow> int \<Rightarrow> rss \<Rightarrow> (addr \<times> bool \<times> bool \<times> bool \<times> rss) option" where
  "load_feed_data digits new row np s = do {
     i \<leftarrow> col_int row 0;
     item \<leftarrow> find_feed i s;
     let found = (item \<noteq> None);
         a = (case item of Some a \<Rightarrow> a | None \<Rightarrow> new);
         s = (if found then s else s\<lparr>rsFeed := (rsFeed s)(a \<mapsto> new_feed)\<rparr>) in do {
     old \<leftarrow> rsFeed s a;
     f \<leftarrow> feed_settings row old;
     s \<leftarrow> upd_feed a (\<lambda>_. f) s;
     s \<leftarrow> feed_menu digits a s;
     s \<leftarrow> (if wLoaded (rsW s) then locate_feed a s
          else upd_feed a (\<lambda>f. f\<lparr>rf_server := None, rf_channel := None\<rparr>) s);
     let fresh = (\<not> found \<or> \<not> rf_enabled old \<and> rf_enabled f) in do {
     s \<leftarrow> upd_feed a (\<lambda>f. f\<lparr>rf_nextpoll := (if fresh then np else rf_nextpoll f), rf_visited := True\<rparr>) s;
     Some (a, found, rf_enabled old, rf_enabled f,
       if found then s else s\<lparr>rsTree := bt_insert (cmp_of KeyCompareInt) (feed_key s) a (rsTree s)\<rparr>) } }
   }"

text \<open>Its place in the tree of polls; \<open>node\<close> is what \<open>malloc\<close> gives for a node.\<close>

definition schedule_feed :: "addr \<Rightarrow> addr \<Rightarrow> bool \<Rightarrow> bool \<Rightarrow> bool \<Rightarrow> rss \<Rightarrow> rss option" where
  "schedule_feed node a found oldEnabled enabled s = do {
     s \<leftarrow> (if found \<and> oldEnabled \<and> \<not> enabled then do {
             f \<leftarrow> rsFeed s a;
             x \<leftarrow> find_poll (rf_nextpoll f) s;
             Some (case x of None \<Rightarrow> s | Some x \<Rightarrow> s\<lparr>rsActive := bt_remove x (rsActive s)\<rparr>)
           } else Some s);
     if \<not> enabled \<or> oldEnabled then Some s else add_poll (node, a) s
   }"

definition load_feed_row :: "nat \<Rightarrow> addr \<times> addr \<times> db_row \<Rightarrow> int \<times> rss \<Rightarrow> (int \<times> rss) option" where
  "load_feed_row digits memrow nps = (case (memrow, nps) of ((new, node, row), (np, s)) \<Rightarrow> do {
     (a, found, old, enabled, s) \<leftarrow> load_feed_data digits new row np s;
     s \<leftarrow> schedule_feed node a found old enabled s;
     Some (if \<not> found \<or> \<not> old \<and> enabled then np + 1 else np, s)
   })"

definition poll_text :: "rss \<Rightarrow> int \<Rightarrow> addr \<times> addr \<Rightarrow> string option" where
  "poll_text s now x = do {
     f \<leftarrow> rsFeed s (snd x);
     let b = fmt_d (rf_feedId f) @ ''-'' @ rf_prefix f @ ''('' @ fmt_d (rf_nextpoll f) @ ''/'' @ fmt_d (rf_nextpoll f - now) @ '')'' in
     if length b < 256 then Some b else None
   }"

fun botRssfeedDump :: "rss \<Rightarrow> int \<Rightarrow> (addr \<times> addr) tree \<Rightarrow> string option option" where
  "botRssfeedDump s now Leaf = Some None"
| "botRssfeedDump s now (Node l x r) = do {
     message \<leftarrow> botRssfeedDump s now l;
     b \<leftarrow> poll_text s now x;
     let m = (case message of None \<Rightarrow> b | Some m \<Rightarrow> m @ '', '' @ b) in do {
     submsg \<leftarrow> botRssfeedDump s now r;
     Some (Some (case submsg of None \<Rightarrow> m | Some t \<Rightarrow> m @ '', '' @ t)) }
   }"

text \<open>\<open>now\<close>: the clock; \<open>None\<close> rows: the query failed.\<close>

definition result_load_rssfeeds :: "int \<Rightarrow> (addr \<times> addr \<times> db_row) list \<Rightarrow> rss \<Rightarrow> rss option" where
  "result_load_rssfeeds now rows s =
     (if rows = [] then Some s
      else do {
        (np, s) \<leftarrow> foldM (load_feed_row (menu_digits (length rows))) rows (now, s);
        let s = s\<lparr>rsTree := bt_rebalance (rsTree s), rsActive := bt_rebalance (rsActive s)\<rparr> in do {
        _ \<leftarrow> botRssfeedDump s now (rsActive s);
        Some s }
      })"

definition db_load_rssfeeds :: "int \<Rightarrow> (addr \<times> addr \<times> db_row) list \<Rightarrow> rss \<Rightarrow> rss option" where
  "db_load_rssfeeds now rows s = result_load_rssfeeds now rows (rs_emit [RsQuery (0, None, True)] s)"

section \<open>Reloading\<close>

fun rssfeedUnvisitTree :: "addr tree \<Rightarrow> rss \<Rightarrow> rss option" where
  "rssfeedUnvisitTree Leaf s = Some s"
| "rssfeedUnvisitTree (Node l a r) s = do {
     s \<leftarrow> rssfeedUnvisitTree l s;
     s \<leftarrow> upd_feed a (\<lambda>f. f\<lparr>rf_visited := False\<rparr>) s;
     rssfeedUnvisitTree r s
   }"

text \<open>A feed that is gone: its node of the tree of polls is looked up by its poll time.\<close>

definition drop_feed :: "addr \<Rightarrow> rss \<Rightarrow> rss option" where
  "drop_feed a s = do {
     f \<leftarrow> rsFeed s a;
     let s = s\<lparr>rsTree := bt_remove a (rsTree s)\<rparr> in do {
     x \<leftarrow> find_poll (rf_nextpoll f) s;
     let s = (case x of None \<Rightarrow> s | Some x \<Rightarrow> s\<lparr>rsActive := bt_remove x (rsActive s)\<rparr>) in
     Some (rs_emit (case rf_menuText f of None \<Rightarrow> [] | Some m \<Rightarrow> [RsMenuRemove 2 m]) (s\<lparr>rsFeed := (rsFeed s)(a := None)\<rparr>)) }
   }"

fun rssfeedFlushUnvisited :: "addr tree \<Rightarrow> rss \<Rightarrow> (bool \<times> rss) option" where
  "rssfeedFlushUnvisited Leaf s = Some (False, s)"
| "rssfeedFlushUnvisited (Node l a r) s = do {
     (b, s) \<leftarrow> rssfeedFlushUnvisited l s;
     if b then Some (True, s)
     else do {
       f \<leftarrow> rsFeed s a;
       if \<not> rf_visited f then do { s \<leftarrow> drop_feed a s; Some (True, s) }
       else rssfeedFlushUnvisited r s
     }
   }"

partial_function (option) rss_flush_loop :: "rss \<Rightarrow> rss option" where
  "rss_flush_loop s = do {
     (b, s) \<leftarrow> rssfeedFlushUnvisited (rsTree s) s;
     if b then rss_flush_loop s else Some s
   }"

declare rss_flush_loop.simps [code]

definition rss_reload :: "int \<Rightarrow> (addr \<times> addr \<times> db_row) list \<Rightarrow> rss \<Rightarrow> rss option" where
  "rss_reload now rows s = do {
     s \<leftarrow> rssfeedUnvisitTree (rsTree s) (s\<lparr>rsReload := False\<rparr>);
     s \<leftarrow> db_load_rssfeeds now rows s;
     s \<leftarrow> rss_flush_loop s;
     Some (s\<lparr>rsTree := bt_rebalance (rsTree s), rsActive := bt_rebalance (rsActive s)\<rparr>)
   }"

definition rssfeedSighup :: "rss \<Rightarrow> rss" where
  "rssfeedSighup s = rs_emit [RsKick] (s\<lparr>rsReload := True\<rparr>)"

section \<open>The command\<close>

text \<open>\<open>in_reach\<close>: which feeds a listing shows; a feed without a channel faults in a private listing.\<close>

definition in_reach :: "addr \<Rightarrow> ptr \<Rightarrow> bool \<Rightarrow> RssFeed_t \<Rightarrow> bool" where
  "in_reach server channel filt f \<longleftrightarrow>
     rf_server f = Some server \<and> (filt \<longrightarrow> rf_enabled f) \<and> (channel = None \<or> channel = rf_channel f)"

definition feed_text :: "world \<Rightarrow> ptr \<Rightarrow> RssFeed_t \<Rightarrow> string option" where
  "feed_text w channel f =
     (let tail = rf_prefix f @ (if rf_enabled f then [] else ''(disabled)'') in
      case channel of
        Some _ \<Rightarrow> Some (snprintf 256 (fmt_d (rf_feedId f) @ ''-'' @ tail))
      | None \<Rightarrow> do {
          c \<leftarrow> rf_channel f;
          ch \<leftarrow> wChans w c;
          Some (snprintf 256 (fmt_d (rf_feedId f) @ ''-('' @ ch_channel ch @ '')-'' @ tail)) })"

fun botRssfeedDepthFirst :: "rss \<Rightarrow> addr \<Rightarrow> ptr \<Rightarrow> bool \<Rightarrow> addr tree \<Rightarrow> string option option" where
  "botRssfeedDepthFirst s server channel filt Leaf = Some None"
| "botRssfeedDepthFirst s server channel filt (Node l a r) = do {
     message \<leftarrow> botRssfeedDepthFirst s server channel filt l;
     f \<leftarrow> rsFeed s a;
     message \<leftarrow> (if in_reach server channel filt f then do {
                   b \<leftarrow> feed_text (rsW s) channel f;
                   Some (Some (case message of None \<Rightarrow> b | Some m \<Rightarrow> m @ '', '' @ b))
                 } else Some message);
     submsg \<leftarrow> botRssfeedDepthFirst s server channel filt r;
     Some (case (submsg, message) of
             (None, _) \<Rightarrow> message
           | (Some t, None) \<Rightarrow> Some t
           | (Some t, Some m) \<Rightarrow> Some (m @ '', '' @ t))
   }"

text \<open>The details are written into a buffer of 1024 bytes; \<open>date\<close> prints a time in fewer than 32 characters.\<close>

definition rssfeedShowDetails :: "(int \<Rightarrow> string) \<Rightarrow> world \<Rightarrow> RssFeed_t \<Rightarrow> string option" where
  "rssfeedShowDetails date w f = do {
     c \<leftarrow> rf_channel f;
     ch \<leftarrow> wChans w c;
     let m = ''RSS: feed '' @ fmt_d (rf_feedId f) @ (if rf_enabled f then [] else '' (disabled)'') @ '': prefix ['' @ rf_prefix f @
         ''], channel '' @ ch_channel ch @ '', URL \"'' @ rf_url f @ ''\", poll interval '' @ fmt_d (rf_timeout f) @
         ''s, timespec '' @ rf_timeSpec f @ '', offset '' @ fmt_d (rf_offset f) @ ''s, last post '' @
         (if rf_lastPost f = 0 then ''never'' else date (rf_lastPost f)) @ '', next poll '' @ date (rf_nextpoll f) in
     if length m < 1024 then Some m else None
   }"

text \<open>\<open>LoggedChannelMessage\<close> with a message that may be \<open>NULL\<close>: then nothing is logged.\<close>

definition say_channel :: "int \<Rightarrow> addr \<Rightarrow> addr \<Rightarrow> string option \<Rightarrow> world \<Rightarrow> world option" where
  "say_channel now server channel message w =
     (case message of
        Some m \<Rightarrow> LoggedChannelMessage now server channel m w
      | None \<Rightarrow> do {
          ch \<leftarrow> wChans w channel;
          w \<leftarrow> tx_msg server TX_MESSAGE (Some (ch_channel ch)) None w;
          s \<leftarrow> wServers w server;
          update_nick now (Some channel) (sv_nick s) True False w })"

definition rss_enable :: "int \<Rightarrow> addr \<Rightarrow> int \<Rightarrow> rss \<Rightarrow> (string \<times> rss) option" where
  "rss_enable now node feedNum s = do {
     item \<leftarrow> find_feed feedNum s;
     case item of
       None \<Rightarrow> Some (''No such feed!'', s)
     | Some a \<Rightarrow> do {
         f \<leftarrow> rsFeed s a;
         c \<leftarrow> rf_channel f;
         ch \<leftarrow> wChans (rsW s) c;
         if \<not> rf_enabled f then do {
           s \<leftarrow> upd_feed a (\<lambda>f. f\<lparr>rf_enabled := True, rf_nextpoll := now\<rparr>) s;
           s \<leftarrow> add_poll (node, a) s;
           Some (''Enabled feed '' @ fmt_d (rf_feedId f) @ '' - '' @ rf_prefix f @ '' on '' @ ch_channel ch,
             rs_emit [RsKick] (s\<lparr>rsActive := bt_rebalance (rsActive s)\<rparr>))
         } else Some (''Feed '' @ fmt_d (rf_feedId f) @ '' already enabled'', s)
       }
   }"

text \<open>The node to remove is looked up by its poll time; when it is not found, nothing is removed.\<close>

definition rss_disable :: "int \<Rightarrow> rss \<Rightarrow> (string \<times> rss) option" where
  "rss_disable feedNum s = do {
     item \<leftarrow> find_feed feedNum s;
     case item of
       None \<Rightarrow> Some (''No such feed!'', s)
     | Some a \<Rightarrow> do {
         f \<leftarrow> rsFeed s a;
         c \<leftarrow> rf_channel f;
         ch \<leftarrow> wChans (rsW s) c;
         if rf_enabled f then do {
           s \<leftarrow> upd_feed a (\<lambda>f. f\<lparr>rf_enabled := False\<rparr>) s;
           x \<leftarrow> find_poll (rf_nextpoll f) s;
           let T = (case x of None \<Rightarrow> rsActive s | Some x \<Rightarrow> bt_remove x (rsActive s)) in
           Some (''Disabled feed '' @ fmt_d (rf_feedId f) @ '' - '' @ rf_prefix f @ '' on '' @ ch_channel ch,
             rs_emit [RsKick] (s\<lparr>rsActive := bt_rebalance T\<rparr>))
         } else Some (''Feed '' @ fmt_d (rf_feedId f) @ '' already disabled'', s)
       }
   }"

definition rss_reply :: "int \<Rightarrow> addr \<Rightarrow> ptr \<Rightarrow> string \<Rightarrow> string option \<Rightarrow> rss \<Rightarrow> rss option" where
  "rss_reply now server channel who message s =
     map_option (\<lambda>w. s\<lparr>rsW := w\<rparr>)
       (case channel of
          Some c \<Rightarrow> say_channel now server c message (rsW s)
        | None \<Rightarrow> tx_msg server TX_PRIVMSG (Some who) message (rsW s))"

text \<open>\<open>auth\<close>: whether \<open>authenticate_check\<close> accepts the nick; \<open>node\<close>: the node that enabling allocates.\<close>

definition botCmdRssfeed ::
    "int \<Rightarrow> (int \<Rightarrow> string) \<Rightarrow> bool \<Rightarrow> addr \<Rightarrow> addr \<Rightarrow> ptr \<Rightarrow> string \<Rightarrow> string option \<Rightarrow> rss \<Rightarrow> rss option" where
  "botCmdRssfeed now date auth node server channel who msg s =
     (case CommandLineParse msg of
        (None, _) \<Rightarrow> Some s
      | (Some command, line) \<Rightarrow>
          if command = ''list'' then do {
            m \<leftarrow> (if line = Some ''all'' then botRssfeedDepthFirst s server channel False (rsTree s)
                 else if line = Some ''timeout'' then botRssfeedDump s now (rsActive s)
                 else botRssfeedDepthFirst s server channel True (rsTree s));
            rss_reply now server channel who m s
          }
          else if command = ''show'' \<and> line \<noteq> None then do {
            item \<leftarrow> find_feed (atoi (the line)) s;
            m \<leftarrow> (case item of
                    None \<Rightarrow> Some ''No such feed!''
                  | Some a \<Rightarrow> do {
                      f \<leftarrow> rsFeed s a;
                      if rf_server f \<noteq> Some server \<or> channel \<noteq> None \<and> rf_channel f \<noteq> channel then Some ''No such feed in this context!''
                      else rssfeedShowDetails date (rsW s) f });
            rss_reply now server channel who (Some m) s
          }
          else if channel \<noteq> None then Some s
          else if \<not> auth then rss_reply now server None who (Some ''You are not authorized, you can't do that!'') s
          else if command = ''enable'' \<and> line \<noteq> None then do {
            (m, s) \<leftarrow> rss_enable now node (atoi (the line)) s;
            rss_reply now server channel who (Some m) s
          }
          else if command = ''disable'' \<and> line \<noteq> None then do {
            (m, s) \<leftarrow> rss_disable (atoi (the line)) s;
            rss_reply now server channel who (Some m) s
          }
          else Some s)"

section \<open>When a server or a channel goes away\<close>

fun rssfeedRecurseDisable :: "(RssFeed_t \<Rightarrow> bool) \<Rightarrow> (RssFeed_t \<Rightarrow> RssFeed_t) \<Rightarrow> addr tree \<Rightarrow> rss \<Rightarrow> (bool \<times> rss) option" where
  "rssfeedRecurseDisable P clear Leaf s = Some (False, s)"
| "rssfeedRecurseDisable P clear (Node l a r) s = do {
     (c1, s) \<leftarrow> rssfeedRecurseDisable P clear l s;
     f \<leftarrow> rsFeed s a;
     s \<leftarrow> (if P f then upd_feed a clear s else Some s);
     (c2, s) \<leftarrow> rssfeedRecurseDisable P clear r s;
     Some (c2 \<or> c1 \<or> P f, s)
   }"

definition rssfeedRecurseDisableServer :: "addr \<Rightarrow> addr tree \<Rightarrow> rss \<Rightarrow> (bool \<times> rss) option" where
  "rssfeedRecurseDisableServer server = rssfeedRecurseDisable (\<lambda>f. rf_server f = Some server) (\<lambda>f. f\<lparr>rf_server := None\<rparr>)"

definition rssfeedRecurseDisableChannel :: "addr \<Rightarrow> addr tree \<Rightarrow> rss \<Rightarrow> (bool \<times> rss) option" where
  "rssfeedRecurseDisableChannel channel = rssfeedRecurseDisable (\<lambda>f. rf_channel f = Some channel) (\<lambda>f. f\<lparr>rf_channel := None\<rparr>)"

definition rssfeedDisableServer :: "addr \<Rightarrow> rss \<Rightarrow> rss option" where
  "rssfeedDisableServer server s = do {
     (changed, s) \<leftarrow> rssfeedRecurseDisableServer server (rsTree s) s;
     Some (if changed then rs_emit [RsKick] s else s)
   }"

definition rssfeedDisableChannel :: "addr \<Rightarrow> rss \<Rightarrow> rss option" where
  "rssfeedDisableChannel channel s = do {
     (changed, s) \<leftarrow> rssfeedRecurseDisableChannel channel (rsTree s) s;
     Some (if changed then rs_emit [RsKick] s else s)
   }"

section \<open>Writing to the database and the forms\<close>

definition db_update_lastpost :: "int \<Rightarrow> int \<Rightarrow> query" where
  "db_update_lastpost feedId lastPost = (1, Some [bind_long lastPost, bind_long feedId], False)"

definition feed_binds :: "RssFeed_t \<Rightarrow> MYSQL_BIND list" where
  "feed_binds f =
     [bind_long (rf_chanId f), bind_text (rf_url f), bind_text (case rf_userpass f of None \<Rightarrow> [] | Some u \<Rightarrow> u),
      bind_long (rf_authtype f), bind_text (rf_prefix f), bind_long (rf_timeout f), bind_text (rf_timeSpec f),
      bind_long (rf_offset f), bind_long (if rf_enabled f then 1 else 0)]"

text \<open>The answer to the insert of a new feed: its node is taken out and put back under the new number.\<close>

definition result_insert_rssfeed :: "addr \<Rightarrow> int \<Rightarrow> rss \<Rightarrow> rss option" where
  "result_insert_rssfeed a insertid s = do {
     f \<leftarrow> rsFeed s a;
     if rf_feedId f = -1 then do {
       item \<leftarrow> find_feed (-1) s;
       case item of
         None \<Rightarrow> Some s
       | Some b \<Rightarrow> do {
           let s = s\<lparr>rsTree := bt_remove b (rsTree s)\<rparr> in do {
           s \<leftarrow> upd_feed a (\<lambda>f. f\<lparr>rf_feedId := insertid, rf_justAdded := True\<rparr>) s;
           Some (s\<lparr>rsTree := bt_rebalance (bt_insert (cmp_of KeyCompareInt) (feed_key s) b (rsTree s))\<rparr>) }
         }
     } else Some s
   }"

text \<open>\<open>insertid\<close>: the number the database gives to a new row; \<open>None\<close>: the callback is not called.\<close>

definition db_update_rssfeed :: "int option \<Rightarrow> addr \<Rightarrow> rss \<Rightarrow> rss option" where
  "db_update_rssfeed insertid a s = do {
     f \<leftarrow> rsFeed s a;
     if rf_feedId f = -1 then do {
       let s = rs_emit [RsQuery (3, Some (feed_binds f), True)] s in do {
       s \<leftarrow> (case insertid of None \<Rightarrow> Some s | Some i \<Rightarrow> result_insert_rssfeed a i s);
       Some (rs_emit [RsCancel] s) }
     } else Some (rs_emit [RsQuery (2, Some (feed_binds f @ [bind_long (rf_feedId f)]), False)] s)
   }"

definition rssfeedSaveFunc :: "int option \<Rightarrow> addr \<Rightarrow> int \<Rightarrow> string \<Rightarrow> rss \<Rightarrow> rss option" where
  "rssfeedSaveFunc insertid a index text s =
     (if index = -1 then map_option rssfeedSighup (db_update_rssfeed insertid a s)
      else upd_feed a (\<lambda>f. f\<lparr>rf_modified := True\<rparr>) (rs_emit [RsFormSave a index text] s))"

definition cursesRssfeedRevert :: "addr \<Rightarrow> rss \<Rightarrow> rss" where
  "cursesRssfeedRevert a s = rs_emit [RsForm ''revert'' a] s"

definition cursesRssfeedDisplay :: "addr \<Rightarrow> rss \<Rightarrow> rss" where
  "cursesRssfeedDisplay a s = rs_emit [RsForm ''display'' a] s"

definition cursesRssfeedNew :: "addr \<Rightarrow> rss \<Rightarrow> rss" where
  "cursesRssfeedNew a s =
     (let s = s\<lparr>rsFeed := (rsFeed s)(a \<mapsto> new_feed\<lparr>rf_feedId := -1\<rparr>)\<rparr> in
      cursesRssfeedDisplay a (s\<lparr>rsTree := bt_rebalance (bt_insert (cmp_of KeyCompareInt) (feed_key s) a (rsTree s))\<rparr>))"

definition cursesRssfeedCleanup :: "rss \<Rightarrow> rss option" where
  "cursesRssfeedCleanup s = do {
     item \<leftarrow> find_feed (-1) s;
     Some (case item of
             None \<Rightarrow> s
           | Some a \<Rightarrow> s\<lparr>rsTree := bt_rebalance (bt_remove a (rsTree s)), rsFeed := (rsFeed s)(a := None)\<rparr>)
   }"

section \<open>Loading and unloading the plugin\<close>

definition rss_initialize ::
    "int \<Rightarrow> (addr \<times> addr \<times> db_row) list \<Rightarrow> (addr \<times> addr) option \<Rightarrow> nat \<Rightarrow> BotCmdHelpFunc option \<Rightarrow> string \<Rightarrow> rss \<Rightarrow> cmd_tree \<Rightarrow>
     (rss \<times> cmd_tree) option" where
  "rss_initialize now rows mem f help version s t = do {
     let s = rs_emit [RsMenuAdd 1 ''RSSfeed'' None, RsMenuAdd 2 ''New RSS Feed'' None, RsVersion True version]
           (s\<lparr>rsItems := Leaf, rsTree := Leaf, rsActive := Leaf\<rparr>) in do {
     s \<leftarrow> db_load_rssfeeds now rows s;
     Some (rs_emit [RsThread True] s, botCmd_add mem ''rssfeed'' (Some (FnPlugin f)) help 0 t) }
   }"

partial_function (option) rss_free_feeds :: "rss \<Rightarrow> rss option" where
  "rss_free_feeds s =
     (case rsTree s of
        Leaf \<Rightarrow> Some s
      | Node l a r \<Rightarrow> do {
          f \<leftarrow> rsFeed s a;
          rss_free_feeds (rs_emit (case rf_menuText f of None \<Rightarrow> [] | Some m \<Rightarrow> [RsMenuRemove 2 m])
            (s\<lparr>rsTree := bt_remove a (rsTree s), rsFeed := (rsFeed s)(a := None)\<rparr>))
        })"

declare rss_free_feeds.simps [code]

text \<open>The thread has ended by the time the trees are freed: it holds the shutdown mutex while it runs.\<close>

definition rss_shutdown :: "rss \<Rightarrow> cmd_tree \<Rightarrow> (rss \<times> cmd_tree) option" where
  "rss_shutdown s t = do {
     let s = rs_emit [RsVersion False [], RsKick, RsKick] (s\<lparr>rsStop := True\<rparr>) in do {
     s \<leftarrow> rss_free_feeds (s\<lparr>rsActive := Leaf\<rparr>);
     Some (rs_emit [RsMenuRemove 2 ''New RSS Feed'', RsMenuRemove 1 ''RSSfeed'', RsThread False] (s\<lparr>rsItems := Leaf\<rparr>),
       botCmd_remove ''rssfeed'' t) }
   }"

end
