(* ===== verification/RssReload.thy ===== *)
theory RssReload
  imports RssFeed DbThread
begin

text \<open>
  What the reload of the feeds (\<open>result_load_rssfeeds\<close>, \<open>rssfeedFlushUnvisited\<close> in
  \<open>bot/src/plugins/rssfeed.c\<close>) keeps and achieves.
\<close>

lemma image_without: "f x = a \<Longrightarrow> \<forall>y \<in> A - {x}. f y \<noteq> a \<Longrightarrow> f ` (A - {x}) = f ` A - {a}"
  by blast

section \<open>Well-formed feeds\<close>

definition feed_on :: "rss \<Rightarrow> addr set" where
  "feed_on s = set_tree (rsTree s)"

definition feed_enabled :: "rss \<Rightarrow> addr \<Rightarrow> bool" where
  "feed_enabled s a \<longleftrightarrow> (case rsFeed s a of Some f \<Rightarrow> rf_enabled f | None \<Rightarrow> False)"

text \<open>A small number, a prefix as the column of the table allows, a poll time before 2038.\<close>

definition feed_fits :: "RssFeed_t \<Rightarrow> bool" where
  "feed_fits f \<longleftrightarrow> small_id (rf_feedId f) \<and> length (rf_prefix f) \<le> 64 \<and> is_time (rf_nextpoll f)"

definition rss_ok :: "rss \<Rightarrow> bool" where
  "rss_ok s \<longleftrightarrow> bt_inv (cmp_of KeyCompareInt) small_int (feed_key s) (rsTree s) \<and>
     (\<forall>a \<in> feed_on s. \<exists>f. rsFeed s a = Some f \<and> feed_fits f) \<and>
     time_inv (poll_key s) (rsActive s) \<and> snd ` set_tree (rsActive s) = {a \<in> feed_on s. feed_enabled s a}"

lemma rss_okD:
  assumes "rss_ok s"
  shows "bt_inv (cmp_of KeyCompareInt) small_int (feed_key s) (rsTree s)" "time_inv (poll_key s) (rsActive s)"
    "a \<in> feed_on s \<Longrightarrow> \<exists>f. rsFeed s a = Some f \<and> feed_fits f"
    "snd ` set_tree (rsActive s) = {a \<in> feed_on s. feed_enabled s a}"
    "alive (rsFeed s) (rsTree s)" "polls_alive s"
proof -
  show *: "bt_inv (cmp_of KeyCompareInt) small_int (feed_key s) (rsTree s)" "time_inv (poll_key s) (rsActive s)"
    "a \<in> feed_on s \<Longrightarrow> \<exists>f. rsFeed s a = Some f \<and> feed_fits f"
    "snd ` set_tree (rsActive s) = {a \<in> feed_on s. feed_enabled s a}" for a
    using assms by (simp_all add: rss_ok_def)
  show "alive (rsFeed s) (rsTree s)" using *(3) by (fastforce simp: alive_def feed_on_def)
  have "set_tree (map_tree snd (rsActive s)) \<subseteq> feed_on s" using *(4) by (auto simp: tree.set_map)
  then show "polls_alive s" using *(3) unfolding polls_alive_def alive_def by fastforce
qed

lemma find_feed_ok:
  assumes "rss_ok s" "small_id i"
  shows "\<exists>r. find_feed i s = Some r \<and> (\<forall>a. r = Some a \<longleftrightarrow> a \<in> feed_on s \<and> (\<exists>f. rsFeed s a = Some f \<and> rf_feedId f = i))"
proof -
  note ok = rss_okD [OF assms(1)]
  let ?r = "bt_find (cmp_of KeyCompareInt) (feed_key s) (id_key i) (rsTree s)"
  have "?r = Some a \<longleftrightarrow> a \<in> feed_on s \<and> (\<exists>f. rsFeed s a = Some f \<and> rf_feedId f = i)" for a
  proof -
    have "?r = Some a \<longleftrightarrow> a \<in> feed_on s \<and> cmp_of KeyCompareInt (id_key i) (feed_key s a) = 0"
      using int_tree.inv_find [OF ok(1), of "id_key i" a] assms(2) by (simp add: feed_on_def)
    moreover have "cmp_of KeyCompareInt (id_key i) (feed_key s a) = 0 \<longleftrightarrow> (\<exists>f. rsFeed s a = Some f \<and> rf_feedId f = i)"
      if "a \<in> feed_on s"
      using ok(3) [OF that] assms(2) by (auto simp: feed_key_def id_key_cmp feed_fits_def)
    ultimately show ?thesis by blast
  qed
  with ok(5) show ?thesis by (simp add: find_feed_def)
qed

lemma active_unique:
  assumes "rss_ok s" "x \<in> set_tree (rsActive s)" "y \<in> set_tree (rsActive s)" "snd x = snd y"
  shows "x = y"
proof -
  note ok = rss_okD [OF assms(1)]
  have "poll_key s x = poll_key s y" using assms(4) by (simp add: poll_key_def)
  moreover have "pos_int (poll_key s x)" using ok(2) assms(2) by (simp add: bt_inv_def bt_keys_ok_def)
  ultimately have "cmp_of KeyCompareInt (poll_key s x) (poll_key s y) = 0" by (simp add: cmp_pos)
  with time_tree.inv_unique [OF ok(2) assms(2,3)] show ?thesis by blast
qed

text \<open>An enabled feed is found in the tree of polls by its poll time.\<close>

lemma find_own_poll:
  assumes "rss_ok s" "a \<in> feed_on s" "rsFeed s a = Some f" "rf_enabled f"
  obtains x where "x \<in> set_tree (rsActive s)" "snd x = a" "find_poll (rf_nextpoll f) s = Some (Some x)"
proof -
  note ok = rss_okD [OF assms(1)]
  have "a \<in> snd ` set_tree (rsActive s)" using ok(4) assms by (simp add: feed_enabled_def)
  then obtain x where x: "x \<in> set_tree (rsActive s)" "snd x = a" by auto
  then have k: "poll_key s x = id_key (rf_nextpoll f)" using assms(3) by (simp add: poll_key_def)
  have "find_poll (rf_nextpoll f) s = Some (Some x)"
    using time_tree.plain.find_elem [OF ok(2) x(1)] ok(6) by (simp add: find_poll_def k)
  with x that show thesis by blast
qed

section \<open>One row\<close>

text \<open>The columns of a feed as the database has them.\<close>

definition settings_of :: "RssFeed_t \<Rightarrow> int list \<times> string list \<times> string option \<times> bool" where
  "settings_of f = ([rf_feedId f, rf_chanId f, rf_serverId f, rf_authtype f, rf_timeout f, rf_lastPost f, rf_offset f],
     [rf_url f, rf_prefix f, rf_timeSpec f], rf_userpass f, rf_enabled f)"

definition row_settings :: "db_row \<Rightarrow> (int list \<times> string list \<times> string option \<times> bool) option" where
  "row_settings row = map_option settings_of (feed_settings row new_feed)"

definition feed_row :: "db_row \<Rightarrow> int \<Rightarrow> bool" where
  "feed_row row i \<longleftrightarrow> small_id i \<and> col_int row 0 = Some i \<and> (\<forall>k < 12. col row k \<noteq> None) \<and> length (the (col row 6)) \<le> 64"

lemma feed_settings_run:
  assumes "feed_row row i"
  shows "\<exists>f. feed_settings row old = Some f \<and> row_settings row = Some (settings_of f) \<and> rf_feedId f = i \<and> length (rf_prefix f) \<le> 64 \<and>
    rf_nextpoll f = rf_nextpoll old \<and> rf_justAdded f = rf_justAdded old \<and> rf_menuText f = rf_menuText old"
proof -
  have c: "\<exists>v. col row k = Some v" if "k < 12" for k using assms that by (auto simp: feed_row_def)
  obtain v1 v2 v3 v4 v5 v6 v7 v8 v9 v10 v11 where
    "col row 1 = Some v1" "col row 2 = Some v2" "col row 3 = Some v3" "col row 4 = Some v4" "col row 5 = Some v5" "col row 6 = Some v6"
    "col row 7 = Some v7" "col row 8 = Some v8" "col row 9 = Some v9" "col row 10 = Some v10" "col row 11 = Some v11"
    using c [of 1] c [of 2] c [of 3] c [of 4] c [of 5] c [of 6] c [of 7] c [of 8] c [of 9] c [of 10] c [of 11] by auto
  moreover from assms obtain v0 where "col row 0 = Some v0" "i = atoi v0" by (auto simp: feed_row_def col_int_def)
  moreover have "length (the (col row 6)) \<le> 64" using assms by (simp add: feed_row_def)
  ultimately show ?thesis
    by (simp add: feed_settings_def row_settings_def settings_of_def col_int_def)
qed

text \<open>Looking up the server and channel of a feed does not fault.\<close>

definition located :: "world \<Rightarrow> bool" where
  "located w \<longleftrightarrow> (\<forall>i c. \<exists>sv ch. FindServerNum i w = Some sv \<and> FindChannelNum sv c w = Some ch)"

lemma feed_menu_run:
  assumes "rsFeed s a = Some f"
  shows "\<exists>m es. feed_menu digits a s =
    Some (rs_emit es (s\<lparr>rsFeed := (rsFeed s)(a \<mapsto> f\<lparr>rf_menuText := Some m, rf_justAdded := False\<rparr>)\<rparr>))"
proof -
  let ?m = "feed_menu_text digits f"
  show ?thesis
  proof (cases "rf_menuText f")
    case None
    then show ?thesis using assms
      by (intro exI [of _ ?m] exI [of _ "[RsMenuAdd 2 ?m (Some a)] @ (if rf_justAdded f then [RsMenuSelect ?m] else [])"])
        (simp add: feed_menu_def upd_feed_def Let_def)
  next
    case (Some old)
    then show ?thesis using assms
      by (intro exI [of _ ?m] exI [of _ "(if ?m = old then [] else [RsMenuRemove 2 old, RsMenuAdd 2 ?m (Some a)]) @
          (if rf_justAdded f then [RsMenuSelect ?m] else [])"])
        (simp add: feed_menu_def upd_feed_def Let_def)
  qed
qed

lemma locate_feed_run:
  assumes "located (rsW s)" "rsFeed s a = Some f"
  shows "\<exists>sv ch. locate_feed a s = Some (s\<lparr>rsFeed := (rsFeed s)(a \<mapsto> f\<lparr>rf_server := sv, rf_channel := ch\<rparr>)\<rparr>)"
proof -
  from assms(1) obtain sv ch where "FindServerNum (rf_serverId f) (rsW s) = Some sv" "FindChannelNum sv (rf_chanId f) (rsW s) = Some ch"
    unfolding located_def by blast
  with assms(2) show ?thesis by (auto simp: locate_feed_def upd_feed_def)
qed

text \<open>
  The feed of a row after its data are taken over: \<open>np\<close> is its poll time when it is new or was
  disabled.
\<close>

lemma load_feed_data_run:
  assumes ok: "rss_ok s" and row: "feed_row row i" and w: "located (rsW s)"
  shows "\<exists>a found old g es. load_feed_data digits new row np s = Some (a, found, rf_enabled old, rf_enabled g,
      rs_emit es (s\<lparr>rsFeed := (rsFeed s)(a \<mapsto> g), rsTree := (if found then rsTree s
        else bt_insert (cmp_of KeyCompareInt) (feed_key (s\<lparr>rsFeed := (rsFeed s)(a \<mapsto> g)\<rparr>)) a (rsTree s))\<rparr>)) \<and>
    row_settings row = Some (settings_of g) \<and> rf_feedId g = i \<and> length (rf_prefix g) \<le> 64 \<and> rf_visited g \<and>
    rf_nextpoll g = (if \<not> found \<or> \<not> rf_enabled old \<and> rf_enabled g then np else rf_nextpoll old) \<and>
    (if found then a \<in> feed_on s \<and> rsFeed s a = Some old \<and> rf_feedId old = i
     else a = new \<and> old = new_feed \<and> (\<forall>b \<in> feed_on s. \<forall>f. rsFeed s b = Some f \<longrightarrow> rf_feedId f \<noteq> i))"
proof -
  from row have i: "col_int row 0 = Some i" "small_id i" by (simp_all add: feed_row_def)
  from find_feed_ok [OF ok i(2)] obtain r where r: "find_feed i s = Some r"
    "\<And>a. r = Some a \<longleftrightarrow> a \<in> feed_on s \<and> (\<exists>f. rsFeed s a = Some f \<and> rf_feedId f = i)" by blast
  define found where "found \<longleftrightarrow> r \<noteq> None"
  define a where "a = (case r of Some a \<Rightarrow> a | None \<Rightarrow> new)"
  define s0 where "s0 = (if found then s else s\<lparr>rsFeed := (rsFeed s)(a \<mapsto> new_feed)\<rparr>)"
  have "\<exists>old. rsFeed s0 a = Some old \<and> (if found then rsFeed s a = Some old \<and> rf_feedId old = i else old = new_feed)"
    using r(2) by (cases r) (auto simp: s0_def found_def a_def)
  then obtain old where old: "rsFeed s0 a = Some old" "if found then rsFeed s a = Some old \<and> rf_feedId old = i else old = new_feed" by blast
  from feed_settings_run [OF row, of old] obtain f where f: "feed_settings row old = Some f" "row_settings row = Some (settings_of f)"
    "rf_feedId f = i" "length (rf_prefix f) \<le> 64" "rf_nextpoll f = rf_nextpoll old" by blast
  define s1 where "s1 = s0\<lparr>rsFeed := (rsFeed s0)(a \<mapsto> f)\<rparr>"
  have s1: "upd_feed a (\<lambda>_. f) s0 = Some s1" using old by (simp add: upd_feed_def s1_def)
  have "rsFeed s1 a = Some f" by (simp add: s1_def)
  from feed_menu_run [OF this] obtain m es where s2: "feed_menu digits a s1 =
    Some (rs_emit es (s1\<lparr>rsFeed := (rsFeed s1)(a \<mapsto> f\<lparr>rf_menuText := Some m, rf_justAdded := False\<rparr>)\<rparr>))" by blast
  define f2 where "f2 = f\<lparr>rf_menuText := Some m, rf_justAdded := False\<rparr>"
  define s2 where "s2 = rs_emit es (s1\<lparr>rsFeed := (rsFeed s1)(a \<mapsto> f2)\<rparr>)"
  have h2: "rsFeed s2 a = Some f2" "rsW s2 = rsW s" by (simp_all add: s2_def s1_def s0_def)
  have "\<exists>sv ch. (if wLoaded (rsW s2) then locate_feed a s2
      else upd_feed a (\<lambda>f. f\<lparr>rf_server := None, rf_channel := None\<rparr>) s2) =
      Some (s2\<lparr>rsFeed := (rsFeed s2)(a \<mapsto> f2\<lparr>rf_server := sv, rf_channel := ch\<rparr>)\<rparr>)"
    using locate_feed_run [of s2 a f2] h2 w by (auto simp: upd_feed_def)
  then obtain sv ch where s3: "(if wLoaded (rsW s2) then locate_feed a s2
      else upd_feed a (\<lambda>f. f\<lparr>rf_server := None, rf_channel := None\<rparr>) s2) =
      Some (s2\<lparr>rsFeed := (rsFeed s2)(a \<mapsto> f2\<lparr>rf_server := sv, rf_channel := ch\<rparr>)\<rparr>)" by blast
  define fresh where "fresh \<longleftrightarrow> \<not> found \<or> \<not> rf_enabled old \<and> rf_enabled f"
  define g where "g = f2\<lparr>rf_server := sv, rf_channel := ch, rf_nextpoll := (if fresh then np else rf_nextpoll f2), rf_visited := True\<rparr>"
  have g: "rf_enabled g = rf_enabled f" "settings_of g = settings_of f" "rf_feedId g = i" "rf_visited g"
    "rf_nextpoll g = (if fresh then np else rf_nextpoll old)" "length (rf_prefix g) \<le> 64"
    using f by (simp_all add: g_def f2_def settings_of_def)
  let ?fin = "rs_emit es (s\<lparr>rsFeed := (rsFeed s)(a \<mapsto> g), rsTree := (if found then rsTree s
        else bt_insert (cmp_of KeyCompareInt) (feed_key (s\<lparr>rsFeed := (rsFeed s)(a \<mapsto> g)\<rparr>)) a (rsTree s))\<rparr>)"
  define s4 where "s4 = s2\<lparr>rsFeed := (rsFeed s2)(a \<mapsto> g)\<rparr>"
  have last: "upd_feed a (\<lambda>f. f\<lparr>rf_nextpoll := (if fresh then np else rf_nextpoll f), rf_visited := True\<rparr>)
      (s2\<lparr>rsFeed := (rsFeed s2)(a \<mapsto> f2\<lparr>rf_server := sv, rf_channel := ch\<rparr>)\<rparr>) = Some s4"
    by (simp add: upd_feed_def g_def s4_def)
  have "load_feed_data digits new row np s = Some (a, found, rf_enabled old, rf_enabled f,
      if found then s4 else s4\<lparr>rsTree := bt_insert (cmp_of KeyCompareInt) (feed_key s4) a (rsTree s4)\<rparr>)"
    unfolding load_feed_data_def i r(1) Option.bind.bind_lunit Let_def found_def [symmetric] a_def [symmetric] s0_def [symmetric]
      old(1) f(1) s1 s2 f2_def [symmetric] s2_def [symmetric] s3 fresh_def [symmetric] last ..
  also have "(if found then s4 else s4\<lparr>rsTree := bt_insert (cmp_of KeyCompareInt) (feed_key s4) a (rsTree s4)\<rparr>) = ?fin"
    by (simp add: s4_def s2_def s1_def s0_def feed_key_def [abs_def])
  finally have L: "load_feed_data digits new row np s = Some (a, found, rf_enabled old, rf_enabled g, ?fin)" unfolding g(1) .
  have np: "rf_nextpoll g = (if \<not> found \<or> \<not> rf_enabled old \<and> rf_enabled g then np else rf_nextpoll old)"
    using g(1,5) by (simp add: fresh_def)
  have known: "if found then a \<in> feed_on s \<and> rsFeed s a = Some old \<and> rf_feedId old = i
     else a = new \<and> old = new_feed \<and> (\<forall>b \<in> feed_on s. \<forall>f. rsFeed s b = Some f \<longrightarrow> rf_feedId f \<noteq> i)"
  proof (cases r)
    case None
    have "\<forall>b \<in> feed_on s. \<forall>f. rsFeed s b = Some f \<longrightarrow> rf_feedId f \<noteq> i" using r(2) None by blast
    with None old(2) show ?thesis by (simp add: found_def a_def)
  next
    case (Some b)
    with r(2) [of b] old(2) show ?thesis by (simp add: found_def a_def)
  qed
  have "row_settings row = Some (settings_of g)" using f(2) g(2) by simp
  with L np known g(3,4,6) show ?thesis by (intro exI conjI)
qed

lemma poll_key_write: "snd x \<noteq> a \<Longrightarrow> poll_key (s\<lparr>rsFeed := (rsFeed s)(a \<mapsto> g), rsTree := T\<rparr>) x = poll_key s x"
  by (simp add: poll_key_def)

lemma add_poll_run:
  assumes inv: "time_inv (poll_key s) (rsActive s)" and al: "polls_alive s" and new: "a \<notin> snd ` set_tree (rsActive s)"
    and f: "rsFeed s a = Some f" and t: "0 \<le> rf_nextpoll f" "rf_nextpoll f + int (size (rsActive s)) < 2 ^ 31"
  shows "\<exists>u T. add_poll (n, a) s = Some (s\<lparr>rsFeed := (rsFeed s)(a \<mapsto> f\<lparr>rf_nextpoll := u\<rparr>), rsActive := T\<rparr>) \<and>
    rf_nextpoll f \<le> u \<and> u \<le> rf_nextpoll f + int (size (rsActive s)) \<and>
    time_inv (poll_key (s\<lparr>rsFeed := (rsFeed s)(a \<mapsto> f\<lparr>rf_nextpoll := u\<rparr>), rsActive := T\<rparr>)) T \<and>
    set_tree T = insert (n, a) (set_tree (rsActive s)) \<and> size T \<le> size (rsActive s) + 1"
proof -
  have mk: "\<forall>t. \<forall>x \<in> set_tree (rsActive s). moving_key s a t x = poll_key s x"
    using new by (auto simp: moving_key_def)
  from unconflicting_ends [OF inv mk t] obtain u where
    u: "unconflicting (moving_key s a) (rsActive s) (rf_nextpoll f) = Some u" "rf_nextpoll f \<le> u"
    "u \<le> rf_nextpoll f + int (size (rsActive s))" "find_time (poll_key s) u (rsActive s) = None"
    by (elim exE conjE)
  let ?s = "s\<lparr>rsFeed := (rsFeed s)(a \<mapsto> f\<lparr>rf_nextpoll := u\<rparr>)\<rparr>"
  let ?T = "add_time (poll_key ?s) (n, a) (rsActive s)"
  have k: "poll_key ?s x = poll_key s x" if "x \<in> set_tree (rsActive s)" for x
    using that new by (auto simp: poll_key_def)
  have ka: "poll_key ?s (n, a) = id_key u" by (simp add: poll_key_def)
  have it: "is_time u" using u t by (simp add: is_time_def)
  have inv': "time_inv (poll_key ?s) (rsActive s)" using inv bt_inv_cong [of "rsActive s" "poll_key ?s" "poll_key s"] k by blast
  have "find_time (poll_key ?s) u (rsActive s) = None"
    using u(4) bt_find_cong [of "rsActive s" "poll_key ?s" "poll_key s"] k by simp
  then have T: "time_inv (poll_key ?s) ?T" "set_tree ?T = insert (n, a) (set_tree (rsActive s))"
    using time_tree.inv_insert [OF inv', of "(n, a)"] it by (simp_all add: ka)
  have sz: "size (bt_insert cmp key x T) \<le> size T + 1" for cmp :: "BTreeKey \<Rightarrow> BTreeKey \<Rightarrow> int" and key and x :: "addr \<times> addr" and T
    by (induction T) auto
  have "add_poll (n, a) s = Some (?s\<lparr>rsActive := ?T\<rparr>)" using f al u(1) by (simp add: add_poll_def upd_feed_def)
  moreover have "poll_key (?s\<lparr>rsActive := ?T\<rparr>) = poll_key ?s" by (simp add: poll_key_def fun_eq_iff)
  ultimately show ?thesis using u(2,3) T sz [of _ "poll_key ?s" "(n, a)" "rsActive s"] by (intro exI [of _ u] exI [of _ ?T]) simp
qed

text \<open>The tree of feeds after a feed was written or added.\<close>

lemma feed_tree_write:
  assumes ok: "rss_ok s" and g: "small_id (rf_feedId g)"
    and found: "found \<Longrightarrow> a \<in> feed_on s \<and> rsFeed s a = Some old \<and> rf_feedId old = rf_feedId g"
    and new: "\<not> found \<Longrightarrow> rsFeed s a = None \<and> (\<forall>b \<in> feed_on s. \<forall>f. rsFeed s b = Some f \<longrightarrow> rf_feedId f \<noteq> rf_feedId g)"
  defines "h \<equiv> s\<lparr>rsFeed := (rsFeed s)(a \<mapsto> g)\<rparr>"
  defines "T \<equiv> (if found then rsTree s else bt_insert (cmp_of KeyCompareInt) (feed_key h) a (rsTree s))"
  shows "bt_inv (cmp_of KeyCompareInt) small_int (feed_key h) T \<and> set_tree T = insert a (feed_on s)"
proof (cases found)
  case True
  then have "feed_key h x = feed_key s x" for x using found by (simp add: feed_key_def h_def)
  then have "feed_key h = feed_key s" by (simp add: fun_eq_iff)
  with rss_okD(1) [OF ok] True found show ?thesis by (auto simp: T_def feed_on_def)
next
  case False
  note ok' = rss_okD [OF ok]
  have a: "a \<notin> feed_on s" using new [OF False] ok'(3) by fastforce
  then have k: "feed_key h x = feed_key s x" if "x \<in> set_tree (rsTree s)" for x
    using that by (auto simp: feed_key_def h_def feed_on_def)
  have inv: "bt_inv (cmp_of KeyCompareInt) small_int (feed_key h) (rsTree s)"
    using ok'(1) bt_inv_cong [of "rsTree s" "feed_key h" "feed_key s"] k by blast
  have ka: "feed_key h a = id_key (rf_feedId g)" by (simp add: feed_key_def h_def)
  have "cmp_of KeyCompareInt (feed_key h a) (feed_key h b) \<noteq> 0" if "b \<in> set_tree (rsTree s)" for b
  proof -
    from that ok'(3) obtain f where f: "rsFeed s b = Some f" "small_id (rf_feedId f)" by (auto simp: feed_on_def feed_fits_def)
    moreover have "rf_feedId f \<noteq> rf_feedId g" using new [OF False] that f by (auto simp: feed_on_def)
    ultimately show ?thesis using g k [OF that] ka id_key_cmp [of "rf_feedId g" "rf_feedId f"] by (simp add: feed_key_def)
  qed
  then have "bt_find (cmp_of KeyCompareInt) (feed_key h) (feed_key h a) (rsTree s) = None"
    using bt_find_SomeD by (metis option.exhaust)
  with int_tree.inv_insert [OF inv] g False show ?thesis by (simp add: T_def ka feed_on_def)
qed

lemma polls_alive_write: "polls_alive s \<Longrightarrow> rsActive s' = rsActive s \<Longrightarrow> rsFeed s' = (rsFeed s)(a \<mapsto> g) \<Longrightarrow> polls_alive s'"
  by (auto simp: polls_alive_def alive_def)

text \<open>Scheduling after the data of a feed were taken over.\<close>

lemma schedule_feed_run:
  assumes inv: "time_inv (poll_key s) (rsActive s)" and al: "polls_alive s" and f: "rsFeed s a = Some f"
    and old: "a \<in> snd ` set_tree (rsActive s) \<longleftrightarrow> found \<and> oldEn"
    and old2: "oldEn \<longrightarrow> found"
    and t: "\<not> oldEn \<and> en \<longrightarrow> 0 \<le> rf_nextpoll f \<and> rf_nextpoll f + int (size (rsActive s)) < 2 ^ 31"
  shows "\<exists>u T. schedule_feed n a found oldEn en s = Some (s\<lparr>rsFeed := (rsFeed s)(a \<mapsto> f\<lparr>rf_nextpoll := u\<rparr>), rsActive := T\<rparr>) \<and>
    time_inv (poll_key (s\<lparr>rsFeed := (rsFeed s)(a \<mapsto> f\<lparr>rf_nextpoll := u\<rparr>), rsActive := T\<rparr>)) T \<and>
    snd ` set_tree T = (if en then insert a (snd ` set_tree (rsActive s)) else snd ` set_tree (rsActive s) - {a}) \<and>
    size T \<le> size (rsActive s) + 1 \<and> (is_time (rf_nextpoll f) \<longrightarrow> is_time u)"
proof -
  have same: "s\<lparr>rsFeed := (rsFeed s)(a \<mapsto> f)\<rparr> = s" using f by (simp add: fun_upd_idem)
  have sz: "size (bt_remove x T) \<le> size T" for x :: "addr \<times> addr" and T
  proof (induction T)
    case (Node l y r)
    have "size (bt_join l r) = size l + size r"
      by (metis inorder_bt_join length_append length_inorder)
    with Node show ?case by auto
  qed simp
  consider (keep) "oldEn = en" | (off) "oldEn" "\<not> en" | (on) "\<not> oldEn" "en" by blast
  then show ?thesis
  proof cases
    case keep
    then have "schedule_feed n a found oldEn en s = Some s" by (simp add: schedule_feed_def)
    moreover have "snd ` set_tree (rsActive s) = (if en then insert a (snd ` set_tree (rsActive s)) else snd ` set_tree (rsActive s) - {a})"
      using old old2 keep by (simp add: insert_absorb)
    ultimately show ?thesis
      by (intro exI [of _ "rf_nextpoll f"] exI [of _ "rsActive s"]) (simp add: same inv)
  next
    case off
    with old old2 obtain x where x: "x \<in> set_tree (rsActive s)" "snd x = a" by auto
    then have k: "poll_key s x = id_key (rf_nextpoll f)" using f by (simp add: poll_key_def)
    have "find_time (poll_key s) (rf_nextpoll f) (rsActive s) = Some x"
      using time_tree.plain.find_elem [OF inv x(1)] by (simp add: k)
    then have run: "schedule_feed n a found oldEn en s = Some (s\<lparr>rsActive := bt_remove x (rsActive s)\<rparr>)"
      using off old2 f al by (simp add: schedule_feed_def find_poll_def)
    note r = time_tree.inv_remove [OF inv, of x]
    have pk: "poll_key (s\<lparr>rsActive := T\<rparr>) = poll_key s" for T by (simp add: poll_key_def fun_eq_iff)
    have un: "y = x" if "y \<in> set_tree (rsActive s)" "snd y = a" for y
    proof -
      have "poll_key s y = poll_key s x" using that x by (simp add: poll_key_def)
      moreover have "pos_int (poll_key s x)" using inv x(1) by (simp add: bt_inv_def bt_keys_ok_def)
      ultimately show "y = x" using time_tree.inv_unique [OF inv that(1) x(1)] by (simp add: cmp_pos)
    qed
    have "snd ` (set_tree (rsActive s) - {x}) = snd ` set_tree (rsActive s) - {a}"
      by (rule image_without [where f = snd, OF x(2)]) (use un in blast)
    with run r pk off same show ?thesis using f sz [of x "rsActive s"]
      by (intro exI [of _ "rf_nextpoll f"] exI [of _ "bt_remove x (rsActive s)"]) (simp add: fun_upd_idem)
  next
    case on
    with old have "a \<notin> snd ` set_tree (rsActive s)" by simp
    from add_poll_run [OF inv al this f, of n] t on obtain u T where
      u: "rf_nextpoll f \<le> u" "u \<le> rf_nextpoll f + int (size (rsActive s))" and
      r: "add_poll (n, a) s = Some (s\<lparr>rsFeed := (rsFeed s)(a \<mapsto> f\<lparr>rf_nextpoll := u\<rparr>), rsActive := T\<rparr>)"
      "time_inv (poll_key (s\<lparr>rsFeed := (rsFeed s)(a \<mapsto> f\<lparr>rf_nextpoll := u\<rparr>), rsActive := T\<rparr>)) T"
      "set_tree T = insert (n, a) (set_tree (rsActive s))" "size T \<le> size (rsActive s) + 1" by blast
    have "schedule_feed n a found oldEn en s = add_poll (n, a) s" using on by (simp add: schedule_feed_def)
    moreover have "is_time u" using u t on by (simp add: is_time_def)
    ultimately show ?thesis using r on(2) by (intro exI [of _ u] exI [of _ T]) simp
  qed
qed

text \<open>A row keeps the feeds well formed; its feed is visited and has its settings.\<close>

definition row_done :: "rss \<Rightarrow> rss \<Rightarrow> addr \<Rightarrow> db_row \<Rightarrow> bool" where
  "row_done s s' a row \<longleftrightarrow> rss_ok s' \<and> rsW s' = rsW s \<and> feed_on s' = insert a (feed_on s) \<and>
     (\<exists>g. rsFeed s' a = Some g \<and> row_settings row = Some (settings_of g) \<and> rf_visited g) \<and>
     (\<forall>b. b \<noteq> a \<longrightarrow> rsFeed s' b = rsFeed s b) \<and> size (rsActive s') \<le> size (rsActive s) + 1"

lemma load_feed_row_ok:
  assumes ok: "rss_ok s" and row: "feed_row row i" and w: "located (rsW s)" and new: "rsFeed s new = None"
    and t: "0 \<le> np" "np + int (size (rsActive s)) < 2 ^ 31"
  shows "\<exists>np' s' a. load_feed_row d (new, node, row) (np, s) = Some (np', s') \<and> row_done s s' a row \<and> np \<le> np' \<and> np' \<le> np + 1 \<and>
    (if a \<in> feed_on s then \<exists>f. rsFeed s a = Some f \<and> rf_feedId f = i else a = new)"
proof -
  note ok' = rss_okD [OF ok]
  from load_feed_data_run [OF ok row w, of d new np] obtain a found old g es where
    run: "load_feed_data d new row np s = Some (a, found, rf_enabled old, rf_enabled g,
      rs_emit es (s\<lparr>rsFeed := (rsFeed s)(a \<mapsto> g), rsTree := (if found then rsTree s
        else bt_insert (cmp_of KeyCompareInt) (feed_key (s\<lparr>rsFeed := (rsFeed s)(a \<mapsto> g)\<rparr>)) a (rsTree s))\<rparr>))"
    and g: "row_settings row = Some (settings_of g)" "rf_feedId g = i" "length (rf_prefix g) \<le> 64" "rf_visited g"
      "rf_nextpoll g = (if \<not> found \<or> \<not> rf_enabled old \<and> rf_enabled g then np else rf_nextpoll old)"
    and known: "if found then a \<in> feed_on s \<and> rsFeed s a = Some old \<and> rf_feedId old = i
       else a = new \<and> old = new_feed \<and> (\<forall>b \<in> feed_on s. \<forall>f. rsFeed s b = Some f \<longrightarrow> rf_feedId f \<noteq> i)"
    by (elim exE conjE)
  define h where "h = s\<lparr>rsFeed := (rsFeed s)(a \<mapsto> g)\<rparr>"
  define T where "T = (if found then rsTree s else bt_insert (cmp_of KeyCompareInt) (feed_key h) a (rsTree s))"
  define s1 where "s1 = rs_emit es (h\<lparr>rsTree := T\<rparr>)"
  from row have i: "small_id i" by (simp add: feed_row_def)
  have T: "bt_inv (cmp_of KeyCompareInt) small_int (feed_key h) T \<and> set_tree T = insert a (feed_on s)"
    unfolding T_def h_def by (rule feed_tree_write [OF ok]) (use known new g(2) i in \<open>auto split: if_splits\<close>)
  have fk: "feed_key s1 = feed_key h" by (simp add: s1_def feed_key_def fun_eq_iff)
  have s1: "rsActive s1 = rsActive s" "rsFeed s1 = (rsFeed s)(a \<mapsto> g)" "rsTree s1 = T" "rsW s1 = rsW s"
    by (simp_all add: s1_def h_def)
  have al: "polls_alive s1" by (rule polls_alive_write [OF ok'(6) s1(1,2)])
  have mem: "a \<in> snd ` set_tree (rsActive s) \<longleftrightarrow> found \<and> rf_enabled old"
  proof (cases found)
    case True
    with known ok'(4) show ?thesis by (auto simp: feed_enabled_def)
  next
    case False
    with known new ok'(3) have "a \<notin> feed_on s" by fastforce
    with ok'(4) False show ?thesis by blast
  qed
  have old2: "rf_enabled old \<longrightarrow> found" using known by (auto simp: new_feed_def split: if_splits)
  have pk: "poll_key s1 x = poll_key s x" if "x \<in> set_tree (rsActive s)" for x
  proof (cases "snd x = a")
    case True
    with that mem have "found" "rf_enabled old" by auto
    with True g(5) known show ?thesis by (simp add: poll_key_def s1)
  qed (simp add: poll_key_def s1)
  have inv: "time_inv (poll_key s1) (rsActive s1)"
    using ok'(2) bt_inv_cong [of "rsActive s" "poll_key s1" "poll_key s"] pk s1(1) by simp
  have "\<exists>u U. schedule_feed node a found (rf_enabled old) (rf_enabled g) s1 =
      Some (s1\<lparr>rsFeed := (rsFeed s1)(a \<mapsto> g\<lparr>rf_nextpoll := u\<rparr>), rsActive := U\<rparr>) \<and>
    time_inv (poll_key (s1\<lparr>rsFeed := (rsFeed s1)(a \<mapsto> g\<lparr>rf_nextpoll := u\<rparr>), rsActive := U\<rparr>)) U \<and>
    snd ` set_tree U = (if rf_enabled g then insert a (snd ` set_tree (rsActive s1)) else snd ` set_tree (rsActive s1) - {a}) \<and>
    size U \<le> size (rsActive s1) + 1 \<and> (is_time (rf_nextpoll g) \<longrightarrow> is_time u)"
  proof (rule schedule_feed_run [OF inv al])
    show "rsFeed s1 a = Some g" by (simp add: s1(2))
    show "a \<in> snd ` set_tree (rsActive s1) \<longleftrightarrow> found \<and> rf_enabled old" using mem by (simp add: s1(1))
    show "\<not> rf_enabled old \<and> rf_enabled g \<longrightarrow> 0 \<le> rf_nextpoll g \<and> rf_nextpoll g + int (size (rsActive s1)) < 2 ^ 31"
      using g(5) t by (simp add: s1(1))
  qed (rule old2)
  then obtain u U where u: "schedule_feed node a found (rf_enabled old) (rf_enabled g) s1 =
      Some (s1\<lparr>rsFeed := (rsFeed s1)(a \<mapsto> g\<lparr>rf_nextpoll := u\<rparr>), rsActive := U\<rparr>)"
    "time_inv (poll_key (s1\<lparr>rsFeed := (rsFeed s1)(a \<mapsto> g\<lparr>rf_nextpoll := u\<rparr>), rsActive := U\<rparr>)) U"
    "snd ` set_tree U = (if rf_enabled g then insert a (snd ` set_tree (rsActive s1)) else snd ` set_tree (rsActive s1) - {a})"
    "size U \<le> size (rsActive s1) + 1" "is_time (rf_nextpoll g) \<longrightarrow> is_time u" by (elim exE conjE)
  define s' where "s' = s1\<lparr>rsFeed := (rsFeed s1)(a \<mapsto> g\<lparr>rf_nextpoll := u\<rparr>), rsActive := U\<rparr>"
  have on: "feed_on s' = insert a (feed_on s)" using T by (simp add: feed_on_def s'_def s1(3))
  have fk': "feed_key s' = feed_key h" by (simp add: s'_def s1 h_def feed_key_def fun_eq_iff)
  have en: "feed_enabled s' b \<longleftrightarrow> (if b = a then rf_enabled g else feed_enabled s b)" for b
    by (simp add: feed_enabled_def s'_def s1)
  have "rss_ok s'"
    unfolding rss_ok_def
  proof (intro conjI ballI)
    show "bt_inv (cmp_of KeyCompareInt) small_int (feed_key s') (rsTree s')" using T fk' by (simp add: s'_def s1)
    show "time_inv (poll_key s') (rsActive s')" using u(2) by (simp add: s'_def)
    have "is_time (rf_nextpoll g)"
      using g(5) t known ok'(3) [of a] by (auto simp: feed_fits_def is_time_def split: if_splits)
    then show "\<exists>f. rsFeed s' b = Some f \<and> feed_fits f" if "b \<in> feed_on s'" for b
      using that on ok'(3) [of b] g(2,3) i u(5) by (cases "b = a") (simp_all add: s'_def s1 feed_fits_def)
    have "snd ` set_tree (rsActive s') = (if rf_enabled g then insert a {b \<in> feed_on s. feed_enabled s b} else {b \<in> feed_on s. feed_enabled s b} - {a})"
      using u(3) ok'(4) by (simp add: s'_def s1)
    also have "\<dots> = {b \<in> feed_on s'. feed_enabled s' b}" unfolding on en by auto
    finally show "snd ` set_tree (rsActive s') = {b \<in> feed_on s'. feed_enabled s' b}" .
  qed
  moreover have "row_settings row = Some (settings_of (g\<lparr>rf_nextpoll := u\<rparr>))" using g(1) by (simp add: settings_of_def)
  ultimately have "row_done s s' a row"
    using on u(4) g(4) by (simp add: row_done_def s'_def s1)
  moreover have "load_feed_row d (new, node, row) (np, s) =
      Some (if \<not> found \<or> \<not> rf_enabled old \<and> rf_enabled g then np + 1 else np, s')"
    unfolding load_feed_row_def prod.case run h_def [symmetric] T_def [symmetric] s1_def [symmetric] Option.bind.bind_lunit
      u(1) s'_def [symmetric] ..
  moreover have "if a \<in> feed_on s then \<exists>f. rsFeed s a = Some f \<and> rf_feedId f = i else a = new"
    using known ok'(3) [of a] new by (auto split: if_splits)
  ultimately show ?thesis
    by (intro exI [of _ "if \<not> found \<or> \<not> rf_enabled old \<and> rf_enabled g then np + 1 else np"] exI [of _ s'] exI [of _ a]) simp
qed

section \<open>All rows\<close>

definition row_loaded :: "rss \<Rightarrow> db_row \<Rightarrow> bool" where
  "row_loaded s row \<longleftrightarrow> (\<exists>a \<in> feed_on s. \<exists>g. rsFeed s a = Some g \<and> row_settings row = Some (settings_of g) \<and> rf_visited g)"

text \<open>A feed that no row names.\<close>

definition untouched :: "int list \<Rightarrow> rss \<Rightarrow> addr \<Rightarrow> bool" where
  "untouched ids s a \<longleftrightarrow> a \<in> feed_on s \<and> (\<exists>f. rsFeed s a = Some f \<and> rf_feedId f \<notin> set ids)"

definition rows_done :: "rss \<Rightarrow> rss \<Rightarrow> int list \<Rightarrow> db_row list \<Rightarrow> bool" where
  "rows_done s s' ids rows \<longleftrightarrow> rss_ok s' \<and> rsW s' = rsW s \<and> (\<forall>row \<in> set rows. row_loaded s' row) \<and>
     (\<forall>a. untouched ids s a \<longrightarrow> a \<in> feed_on s' \<and> rsFeed s' a = rsFeed s a) \<and>
     (\<forall>a \<in> feed_on s'. untouched ids s a \<or> (\<exists>g. rsFeed s' a = Some g \<and> rf_feedId g \<in> set ids \<and> rf_visited g))"

lemma settings_id: "settings_of f = settings_of g \<Longrightarrow> rf_feedId f = rf_feedId g \<and> rf_enabled f = rf_enabled g"
  by (simp add: settings_of_def)

lemma feed_row_settings:
  assumes "feed_row row i" "row_settings row = Some (settings_of g)" shows "rf_feedId g = i"
proof -
  from feed_settings_run [OF assms(1), of new_feed] obtain f where "row_settings row = Some (settings_of f)" "rf_feedId f = i"
    by (elim exE conjE)
  with assms(2) settings_id [of f g] show ?thesis by simp
qed

lemma load_rows_ok:
  assumes "rss_ok s" "located (rsW s)" "list_all2 (\<lambda>m i. feed_row (snd (snd m)) i) ms ids" "distinct ids"
    and "distinct (map fst ms)" "\<forall>m \<in> set ms. rsFeed s (fst m) = None"
    and "0 \<le> np" "np + int (size (rsActive s)) + 2 * int (length ms) < 2 ^ 31"
  shows "\<exists>np' s'. foldM (load_feed_row d) ms (np, s) = Some (np', s') \<and> rows_done s s' ids (map (\<lambda>m. snd (snd m)) ms)"
  using assms(3,1,2,4-)
proof (induction arbitrary: s np rule: list_all2_induct)
  case Nil
  then have "rows_done s s [] []" using rss_okD(3) by (auto simp: rows_done_def untouched_def)
  then show ?case by simp
next
  case (Cons m ms i ids)
  obtain new node row where m: "m = (new, node, row)" by (cases m) auto
  note P = Cons.prems
  from P(7) have "np + int (size (rsActive s)) < 2 ^ 31" by simp
  with load_feed_row_ok [OF P(1), of row i new np d node] Cons.hyps(1) P(2,5,6) m obtain np1 s1 a where
    run: "load_feed_row d m (np, s) = Some (np1, s1)" and done1: "row_done s s1 a row" and np1: "np \<le> np1" "np1 \<le> np + 1"
    and a: "if a \<in> feed_on s then \<exists>f. rsFeed s a = Some f \<and> rf_feedId f = i else a = new"
    by auto
  from done1 obtain g where d1: "rss_ok s1" "rsW s1 = rsW s" "feed_on s1 = insert a (feed_on s)" "rsFeed s1 a = Some g"
    "row_settings row = Some (settings_of g)" "rf_visited g" "\<forall>b. b \<noteq> a \<longrightarrow> rsFeed s1 b = rsFeed s b"
    "size (rsActive s1) \<le> size (rsActive s) + 1" by (auto simp: row_done_def)
  have gi: "rf_feedId g = i" using feed_row_settings d1(5) Cons.hyps(1) m by simp
  have new1: "\<forall>m \<in> set ms. rsFeed s1 (fst m) = None"
  proof
    fix m' assume m': "m' \<in> set ms"
    then have n: "rsFeed s (fst m') = None" "fst m' \<noteq> new" using P(4,5) m by force+
    then have "fst m' \<noteq> a" using a by (auto split: if_splits)
    with d1(7) n show "rsFeed s1 (fst m') = None" by simp
  qed
  from Cons.IH [OF d1(1), of np1] d1(2,8) P(2-4,6,7) new1 np1 obtain np2 s2 where
    run2: "foldM (load_feed_row d) ms (np1, s1) = Some (np2, s2)" and done2: "rows_done s1 s2 ids (map (\<lambda>m. snd (snd m)) ms)"
    by auto
  have ua: "untouched ids s1 a" using d1(3,4) gi P(3) by (simp add: untouched_def)
  with done2 have a2: "a \<in> feed_on s2" "rsFeed s2 a = Some g" using d1(4) by (auto simp: rows_done_def)
  have up: "untouched ids s1 b \<and> b \<noteq> a" if u: "untouched (i # ids) s b" for b
  proof -
    from u obtain f where f: "b \<in> feed_on s" "rsFeed s b = Some f" "rf_feedId f \<noteq> i" "rf_feedId f \<notin> set ids"
      by (auto simp: untouched_def)
    have "b \<noteq> a" using f(1-3) a by auto
    moreover have "rsFeed s1 b = Some f" using d1(7) f(2) \<open>b \<noteq> a\<close> by simp
    ultimately show ?thesis using f d1(3) by (simp add: untouched_def)
  qed
  have older: "untouched (i # ids) s b" if "untouched ids s1 b" "b \<noteq> a" for b
  proof -
    from that d1(3,7) have b: "b \<in> feed_on s" "rsFeed s1 b = rsFeed s b" by (auto simp: untouched_def)
    with that obtain f where f: "rsFeed s b = Some f" "rf_feedId f \<notin> set ids" by (auto simp: untouched_def)
    have "rf_feedId f \<noteq> i"
    proof
      assume "rf_feedId f = i"
      with b f gi d1(1,3,4) find_feed_ok [of s1 i] Cons.hyps(1) m have "\<exists>r. r = Some a \<and> r = Some b"
        by (metis feed_row_def insertI1 insertI2 snd_conv)
      with that(2) show False by simp
    qed
    with b f show ?thesis by (simp add: untouched_def)
  qed
  have "rows_done s s2 (i # ids) (map (\<lambda>m. snd (snd m)) (m # ms))"
    unfolding rows_done_def
  proof (intro conjI ballI allI impI)
    show "rss_ok s2" "rsW s2 = rsW s" using done2 d1(2) by (auto simp: rows_done_def)
    show "row_loaded s2 r" if "r \<in> set (map (\<lambda>m. snd (snd m)) (m # ms))" for r
      using that done2 a2 d1(5,6) m by (auto simp: rows_done_def row_loaded_def)
    show "b \<in> feed_on s2" "rsFeed s2 b = rsFeed s b" if "untouched (i # ids) s b" for b
      using up [OF that] done2 d1(7) by (auto simp: rows_done_def)
    show "untouched (i # ids) s b \<or> (\<exists>g. rsFeed s2 b = Some g \<and> rf_feedId g \<in> set (i # ids) \<and> rf_visited g)"
      if "b \<in> feed_on s2" for b
    proof (cases "b = a")
      case True
      with a2 gi d1(6) show ?thesis by simp
    next
      case False
      with that done2 older [of b] show ?thesis by (auto simp: rows_done_def)
    qed
  qed
  with run run2 show ?case by simp
qed

section \<open>The listing of polls\<close>

lemma length_fmt_d: "- (10 ^ 10) < i \<Longrightarrow> i < 10 ^ 10 \<Longrightarrow> length (fmt_d i) \<le> 11"
  using length_nat_digits [of "nat i" 10] length_nat_digits [of "nat (- i)" 10] by (auto simp: fmt_d_def nat_less_iff)

lemma poll_text_fits:
  assumes "rsFeed s (snd x) = Some f" "feed_fits f" "is_time now" shows "poll_text s now x \<noteq> None"
proof -
  have "length (fmt_d (rf_feedId f)) \<le> 11" "length (fmt_d (rf_nextpoll f)) \<le> 11" "length (fmt_d (rf_nextpoll f - now)) \<le> 11"
    by (rule length_fmt_d; use assms(2,3) in \<open>simp add: feed_fits_def small_id_def is_time_def\<close>)+
  then show ?thesis using assms(1,2) by (simp add: poll_text_def feed_fits_def)
qed

lemma dump_returns: "\<forall>x \<in> set_tree T. poll_text s now x \<noteq> None \<Longrightarrow> botRssfeedDump s now T \<noteq> None"
  by (induction T) (auto simp: Let_def split: option.splits)

section \<open>Unvisiting\<close>

definition unvisit_feeds :: "addr set \<Rightarrow> rss \<Rightarrow> rss" where
  "unvisit_feeds A s = s\<lparr>rsFeed := (\<lambda>a. if a \<in> A then map_option (\<lambda>f. f\<lparr>rf_visited := False\<rparr>) (rsFeed s a) else rsFeed s a)\<rparr>"

lemma rssfeedUnvisitTree_run:
  "\<forall>a \<in> set_tree t. rsFeed s a \<noteq> None \<Longrightarrow> rssfeedUnvisitTree t s = Some (unvisit_feeds (set_tree t) s)"
proof (induction t arbitrary: s)
  case Leaf
  then show ?case by (simp add: unvisit_feeds_def)
next
  case (Node l a r)
  let ?s1 = "unvisit_feeds (set_tree l) s"
  have l: "rssfeedUnvisitTree l s = Some ?s1" using Node by simp
  have "rsFeed ?s1 a \<noteq> None" using Node.prems by (simp add: unvisit_feeds_def)
  then obtain f where f: "rsFeed ?s1 a = Some f" by blast
  let ?s2 = "?s1\<lparr>rsFeed := (rsFeed ?s1)(a \<mapsto> f\<lparr>rf_visited := False\<rparr>)\<rparr>"
  have m: "upd_feed a (\<lambda>f. f\<lparr>rf_visited := False\<rparr>) ?s1 = Some ?s2" unfolding upd_feed_def f by simp
  have "\<forall>x \<in> set_tree r. rsFeed ?s2 x \<noteq> None" using Node.prems by (auto simp: unvisit_feeds_def)
  note r = Node.IH(2) [OF this]
  have "rsFeed (unvisit_feeds (set_tree r) ?s2) x = rsFeed (unvisit_feeds (set_tree (Node l a r)) s) x" for x
    using f by (cases "rsFeed s x") (auto simp: unvisit_feeds_def split: if_splits)
  then have "unvisit_feeds (set_tree r) ?s2 = unvisit_feeds (set_tree (Node l a r)) s"
    by (simp add: unvisit_feeds_def fun_eq_iff)
  with r show ?case by (simp add: l m)
qed

lemma unvisit_feeds_ok:
  assumes "rss_ok s"
  shows "rss_ok (unvisit_feeds (feed_on s) s)" "feed_on (unvisit_feeds (feed_on s) s) = feed_on s"
    "a \<in> feed_on s \<Longrightarrow> rsFeed (unvisit_feeds (feed_on s) s) a = map_option (\<lambda>f. f\<lparr>rf_visited := False\<rparr>) (rsFeed s a)"
proof -
  note ok = rss_okD [OF assms]
  let ?s = "unvisit_feeds (feed_on s) s"
  show on: "feed_on ?s = feed_on s" by (simp add: feed_on_def unvisit_feeds_def)
  show h: "a \<in> feed_on s \<Longrightarrow> rsFeed ?s a = map_option (\<lambda>f. f\<lparr>rf_visited := False\<rparr>) (rsFeed s a)" for a
    by (simp add: unvisit_feeds_def)
  have "feed_key ?s x = feed_key s x" "poll_key ?s y = poll_key s y" "feed_enabled ?s x = feed_enabled s x" for x y
    by (auto simp: feed_key_def poll_key_def feed_enabled_def unvisit_feeds_def split: option.splits)
  then have k: "feed_key ?s = feed_key s" "poll_key ?s = poll_key s" "feed_enabled ?s = feed_enabled s" by (simp_all add: fun_eq_iff)
  have "\<forall>a \<in> feed_on s. \<exists>f. rsFeed ?s a = Some f \<and> feed_fits f"
    using h ok(3) by (fastforce simp: feed_fits_def)
  with ok k on show "rss_ok ?s" by (simp add: rss_ok_def) (simp add: unvisit_feeds_def)
qed

section \<open>Flushing\<close>

definition feed_gone :: "rss \<Rightarrow> addr \<Rightarrow> bool" where
  "feed_gone s a \<longleftrightarrow> (case rsFeed s a of Some f \<Rightarrow> \<not> rf_visited f | None \<Rightarrow> False)"

definition flush_ok :: "rss \<Rightarrow> bool" where
  "flush_ok s \<longleftrightarrow> rss_ok s \<and> (\<forall>a \<in> feed_on s. feed_gone s a \<longrightarrow> feed_enabled s a)"

lemma flush_walk:
  "\<forall>a \<in> set_tree t. rsFeed s a \<noteq> None \<Longrightarrow>
   rssfeedFlushUnvisited t s = (case find (feed_gone s) (inorder t) of None \<Rightarrow> Some (False, s) | Some a \<Rightarrow> map_option (Pair True) (drop_feed a s))"
proof (induction t)
  case (Node l a r)
  then obtain f where f: "rsFeed s a = Some f" by auto
  have g: "feed_gone s a \<longleftrightarrow> \<not> rf_visited f" using f by (simp add: feed_gone_def)
  have l: "rssfeedFlushUnvisited l s = (case find (feed_gone s) (inorder l) of None \<Rightarrow> Some (False, s) | Some a \<Rightarrow> map_option (Pair True) (drop_feed a s))"
    and r: "rssfeedFlushUnvisited r s = (case find (feed_gone s) (inorder r) of None \<Rightarrow> Some (False, s) | Some a \<Rightarrow> map_option (Pair True) (drop_feed a s))"
    using Node by simp_all
  show ?case
  proof (cases "find (feed_gone s) (inorder l)")
    case None
    with l r f g show ?thesis by (cases "drop_feed a s") (simp_all add: find_app)
  next
    case (Some b)
    with l show ?thesis by (cases "drop_feed b s") (simp_all add: find_app)
  qed
qed simp

lemma drop_feed_run:
  assumes "flush_ok s" "a \<in> feed_on s" "feed_gone s a"
  shows "\<exists>s'. drop_feed a s = Some s' \<and> flush_ok s' \<and> feed_on s' = feed_on s - {a} \<and> rsFeed s' = (rsFeed s)(a := None) \<and> rsW s' = rsW s"
proof -
  from assms have ok: "rss_ok s" and en: "feed_enabled s a" by (simp_all add: flush_ok_def)
  note ok' = rss_okD [OF ok]
  from en obtain f where f: "rsFeed s a = Some f" "rf_enabled f" by (auto simp: feed_enabled_def split: option.splits)
  from find_own_poll [OF ok assms(2) f] obtain x where x: "x \<in> set_tree (rsActive s)" "snd x = a"
    "find_poll (rf_nextpoll f) s = Some (Some x)" by blast
  define es where "es = (case rf_menuText f of None \<Rightarrow> [] | Some m \<Rightarrow> [RsMenuRemove 2 m])"
  define s' where "s' = rs_emit es (s\<lparr>rsTree := bt_remove a (rsTree s), rsActive := bt_remove x (rsActive s), rsFeed := (rsFeed s)(a := None)\<rparr>)"
  have "find_poll (rf_nextpoll f) (s\<lparr>rsTree := T\<rparr>) = find_poll (rf_nextpoll f) s" for T
    by (simp add: find_poll_def polls_alive_def poll_key_def [abs_def])
  then have run: "drop_feed a s = Some s'" using f x(3) by (simp add: drop_feed_def s'_def es_def)
  have sel: "rsTree s' = bt_remove a (rsTree s)" "rsActive s' = bt_remove x (rsActive s)" "rsFeed s' = (rsFeed s)(a := None)" "rsW s' = rsW s"
    by (simp_all add: s'_def)
  note T = int_tree.inv_remove [OF ok'(1), of a] and U = time_tree.inv_remove [OF ok'(2), of x]
  have on: "feed_on s' = feed_on s - {a}" using T by (simp add: feed_on_def sel)
  have un: "snd y \<noteq> a" if "y \<in> set_tree (rsActive s) - {x}" for y
    using that active_unique [OF ok, of y x] x by auto
  have fk: "feed_key s' b = feed_key s b" if "b \<noteq> a" for b using that by (simp add: feed_key_def sel)
  have pk: "poll_key s' y = poll_key s y" if "snd y \<noteq> a" for y using that by (simp add: poll_key_def sel)
  have "rss_ok s'"
    unfolding rss_ok_def
  proof (intro conjI ballI)
    show "bt_inv (cmp_of KeyCompareInt) small_int (feed_key s') (rsTree s')"
      using T fk bt_inv_cong [of "bt_remove a (rsTree s)" "feed_key s'" "feed_key s"] by (simp add: sel)
    show "time_inv (poll_key s') (rsActive s')"
      using U pk un bt_inv_cong [of "bt_remove x (rsActive s)" "poll_key s'" "poll_key s"] by (simp add: sel)
    show "\<exists>f. rsFeed s' b = Some f \<and> feed_fits f" if "b \<in> feed_on s'" for b
      using that on ok'(3) [of b] by (simp add: sel)
    have "snd ` set_tree (rsActive s') = snd ` set_tree (rsActive s) - {a}"
      using image_without [where f = snd and A = "set_tree (rsActive s)", OF x(2)] U un by (simp add: sel)
    also have "\<dots> = {b \<in> feed_on s'. feed_enabled s' b}" using on ok'(4) by (auto simp: feed_enabled_def sel)
    finally show "snd ` set_tree (rsActive s') = {b \<in> feed_on s'. feed_enabled s' b}" .
  qed
  moreover have "feed_gone s' b = feed_gone s b" "feed_enabled s' b = feed_enabled s b" if "b \<noteq> a" for b
    using that by (simp_all add: feed_gone_def feed_enabled_def sel)
  ultimately have "flush_ok s'" using assms(1) on by (auto simp: flush_ok_def)
  with run on sel show ?thesis by simp
qed

interpretation feeds: sweeper flush_ok feed_on feed_gone "\<lambda>a s. the (drop_feed a s)"
  "\<lambda>s. rssfeedFlushUnvisited (rsTree s) s" rss_flush_loop
proof
  fix s :: rss and a b
  assume ok: "flush_ok s"
  then have al: "\<forall>a \<in> set_tree (rsTree s). rsFeed s a \<noteq> None"
    using rss_okD(3) [of s] by (fastforce simp: flush_ok_def feed_on_def)
  show "finite (feed_on s)" by (simp add: feed_on_def)
  show "rssfeedFlushUnvisited (rsTree s) s = Some (False, s)" if none: "\<forall>a \<in> feed_on s. \<not> feed_gone s a"
  proof -
    have "find (feed_gone s) (inorder (rsTree s)) = None" using none by (simp add: find_None_iff feed_on_def)
    with flush_walk [OF al] show ?thesis by simp
  qed
  show "\<exists>a \<in> feed_on s. feed_gone s a \<and> rssfeedFlushUnvisited (rsTree s) s = Some (True, the (drop_feed a s))"
    if some: "\<exists>a \<in> feed_on s. feed_gone s a"
  proof -
    have "find (feed_gone s) (inorder (rsTree s)) \<noteq> None" using some by (auto simp: find_None_iff feed_on_def)
    then obtain a where f: "find (feed_gone s) (inorder (rsTree s)) = Some a" by blast
    then have a: "a \<in> feed_on s" "feed_gone s a" by (auto simp: find_Some_iff feed_on_def in_set_conv_nth simp flip: set_inorder)
    with drop_feed_run [OF ok] obtain s' where "drop_feed a s = Some s'" by blast
    with f a flush_walk [OF al] show ?thesis by (intro bexI [of _ a]) simp_all
  qed
  assume a: "a \<in> feed_on s" "feed_gone s a"
  from drop_feed_run [OF ok a] obtain s' where s': "drop_feed a s = Some s'" "flush_ok s'" "feed_on s' = feed_on s - {a}"
    "rsFeed s' = (rsFeed s)(a := None)" by blast
  then show "flush_ok (the (drop_feed a s)) \<and> feed_on (the (drop_feed a s)) = feed_on s - {a}" by simp
  show "feed_gone (the (drop_feed a s)) b = feed_gone s b" if "b \<in> feed_on s - {a}"
    using that s' by (simp add: feed_gone_def)
next
  show "rss_flush_loop s = do { (b, s) \<leftarrow> rssfeedFlushUnvisited (rsTree s) s; if b then rss_flush_loop s else Some s }" for s
    by (rule rss_flush_loop.simps)
qed

lemma drop_feed_view:
  assumes "flush_ok s" "a \<in> feed_on s" "feed_gone s a" "b \<in> feed_on s - {a}"
  shows "rsFeed (the (drop_feed a s)) b = rsFeed s b"
proof -
  from drop_feed_run [OF assms(1-3)] obtain s' where "drop_feed a s = Some s'" "rsFeed s' = (rsFeed s)(a := None)" by blast
  with assms(4) show ?thesis by simp
qed

lemma flush_loop_run:
  assumes "flush_ok s"
  shows "\<exists>s'. rss_flush_loop s = Some s' \<and> flush_ok s' \<and> feed_on s' = {a \<in> feed_on s. \<not> feed_gone s a} \<and>
    (\<forall>b \<in> feed_on s'. rsFeed s' b = rsFeed s b)"
  by (rule feeds.sweep_run [OF assms]) (rule drop_feed_view)

section \<open>Properties\<close>

lemma rss_ok_cong:
  assumes "rsFeed s' = rsFeed s" "rsTree s' = rsTree s \<or> rsTree s' = bt_rebalance (rsTree s)"
    "rsActive s' = rsActive s \<or> rsActive s' = bt_rebalance (rsActive s)"
  shows "rss_ok s' = rss_ok s" "feed_on s' = feed_on s"
proof -
  have k: "feed_key s' = feed_key s" "poll_key s' = poll_key s" "feed_enabled s' = feed_enabled s"
    by (simp_all add: feed_key_def poll_key_def feed_enabled_def fun_eq_iff assms(1))
  show on: "feed_on s' = feed_on s" using assms(2) by (auto simp: feed_on_def)
  have "bt_inv cmp ok key (rsTree s') = bt_inv cmp ok key (rsTree s)"
    for cmp :: "BTreeKey \<Rightarrow> BTreeKey \<Rightarrow> int" and ok key using assms(2) by (auto simp: bt_inv_def)
  moreover have "bt_inv cmp ok key (rsActive s') = bt_inv cmp ok key (rsActive s)" "set_tree (rsActive s') = set_tree (rsActive s)"
    for cmp :: "BTreeKey \<Rightarrow> BTreeKey \<Rightarrow> int" and ok key using assms(3) by (auto simp: bt_inv_def)
  ultimately show "rss_ok s' = rss_ok s" using k on assms(1) by (simp add: rss_ok_def)
qed

lemma size_active_unvisit: "rsActive (unvisit_feeds A s) = rsActive s" "rsTree (unvisit_feeds A s) = rsTree s" "rsW (unvisit_feeds A s) = rsW s"
  by (simp_all add: unvisit_feeds_def)

definition reload_rows :: "(addr \<times> addr \<times> db_row) list \<Rightarrow> int list \<Rightarrow> rss \<Rightarrow> bool" where
  "reload_rows ms ids s \<longleftrightarrow> list_all2 (\<lambda>m i. feed_row (snd (snd m)) i) ms ids \<and> distinct ids \<and> distinct (map fst ms) \<and>
     (\<forall>m \<in> set ms. rsFeed s (fst m) = None)"

lemma load_feeds_run:
  assumes "rss_ok s" "located (rsW s)" "reload_rows ms ids s" "is_time now" "now + int (size (rsActive s)) + 2 * int (length ms) < 2 ^ 31"
  shows "\<exists>s'. db_load_rssfeeds now ms s = Some s' \<and> rows_done s s' ids (map (\<lambda>m. snd (snd m)) ms)"
proof (cases "ms = []")
  case True
  with assms(3) have "ids = []" by (simp add: reload_rows_def)
  with True assms(1) have "rows_done s (rs_emit [RsQuery (0, None, True)] s) ids []"
    using rss_okD(3) [OF assms(1)] rss_ok_cong [of "rs_emit [RsQuery (0, None, True)] s" s]
    by (fastforce simp: rows_done_def untouched_def)
  with True show ?thesis by (simp add: db_load_rssfeeds_def result_load_rssfeeds_def)
next
  case False
  let ?s = "rs_emit [RsQuery (0, None, True)] s" and ?d = "menu_digits (length ms)"
  have ok: "rss_ok ?s" "feed_on ?s = feed_on s" using assms(1) rss_ok_cong [of ?s s] by simp_all
  have "\<exists>np' s'. foldM (load_feed_row ?d) ms (now, ?s) = Some (np', s') \<and> rows_done ?s s' ids (map (\<lambda>m. snd (snd m)) ms)"
    by (rule load_rows_ok [OF ok(1)]) (use assms in \<open>simp_all add: reload_rows_def is_time_def\<close>)
  then obtain np s1 where s1: "foldM (load_feed_row ?d) ms (now, ?s) = Some (np, s1)" "rows_done ?s s1 ids (map (\<lambda>m. snd (snd m)) ms)"
    by blast
  define s2 where "s2 = s1\<lparr>rsTree := bt_rebalance (rsTree s1), rsActive := bt_rebalance (rsActive s1)\<rparr>"
  have c: "rss_ok s2 = rss_ok s1" "feed_on s2 = feed_on s1" using rss_ok_cong [of s2 s1] by (simp_all add: s2_def)
  then have ok2: "rss_ok s2" using s1(2) by (simp add: rows_done_def)
  have "poll_text s2 now x \<noteq> None" if "x \<in> set_tree (rsActive s2)" for x
  proof -
    from that rss_okD(4) [OF ok2] have "snd x \<in> feed_on s2" by blast
    with rss_okD(3) [OF ok2] obtain f where "rsFeed s2 (snd x) = Some f" "feed_fits f" by blast
    with poll_text_fits assms(4) show ?thesis by blast
  qed
  then have "botRssfeedDump s2 now (rsActive s2) \<noteq> None" using dump_returns by blast
  then have "db_load_rssfeeds now ms s = Some s2"
    using s1(1) False by (auto simp: db_load_rssfeeds_def result_load_rssfeeds_def s2_def)
  moreover have "rows_done s s2 ids (map (\<lambda>m. snd (snd m)) ms)"
    using s1(2) c ok(2) unfolding rows_done_def row_loaded_def untouched_def by (simp add: s2_def)
  ultimately show ?thesis by blast
qed

text \<open>Claim C29. After a reload the feeds in memory have exactly the settings of the rows of the
  database, the tree of polls holds exactly the enabled feeds, each once and sorted by poll
  time, and the invariant of feeds, tree and polls holds again, provided that no feed that was
  disabled is gone.\<close>

theorem feeds_follow_database:
  assumes "rss_ok s" "located (rsW s)" "reload_rows ms ids s" "is_time now" "now + int (size (rsActive s)) + 2 * int (length ms) < 2 ^ 31"
    and gone: "\<forall>a \<in> feed_on s. \<forall>f. rsFeed s a = Some f \<and> rf_feedId f \<notin> set ids \<longrightarrow> rf_enabled f"
  shows "\<exists>s'. rss_reload now ms s = Some s' \<and> rss_ok s' \<and>
    (\<lambda>a. map_option settings_of (rsFeed s' a)) ` feed_on s' = (\<lambda>m. row_settings (snd (snd m))) ` set ms \<and>
    snd ` set_tree (rsActive s') = {a \<in> feed_on s'. feed_enabled s' a}"
proof -
  let ?s0 = "s\<lparr>rsReload := False\<rparr>"
  have ok0: "rss_ok ?s0" "feed_on ?s0 = feed_on s" using assms(1) rss_ok_cong [of ?s0 s] by simp_all
  define s1 where "s1 = unvisit_feeds (feed_on ?s0) ?s0"
  note u = unvisit_feeds_ok [OF ok0(1), folded s1_def]
  have "\<forall>a \<in> set_tree (rsTree s). rsFeed ?s0 a \<noteq> None" using rss_okD(3) [OF assms(1)] by (fastforce simp: feed_on_def)
  from rssfeedUnvisitTree_run [OF this] have r1: "rssfeedUnvisitTree (rsTree s) ?s0 = Some s1" by (simp add: s1_def feed_on_def)
  have r: "reload_rows ms ids s1" using assms(3) by (auto simp: reload_rows_def s1_def unvisit_feeds_def)
  from load_feeds_run [OF u(1) _ r assms(4)] assms(2,5) obtain s2 where
    s2: "db_load_rssfeeds now ms s1 = Some s2" "rows_done s1 s2 ids (map (\<lambda>m. snd (snd m)) ms)"
    by (auto simp: s1_def size_active_unvisit)
  have old: "\<exists>f. rsFeed s a = Some f \<and> rsFeed s2 a = Some (f\<lparr>rf_visited := False\<rparr>) \<and> rf_enabled f" if "untouched ids s1 a" for a
  proof -
    from that u ok0 have a: "a \<in> feed_on s" by (simp add: untouched_def)
    with that u(3) [of a] ok0(2) obtain f where f: "rsFeed s a = Some f" "rsFeed s1 a = Some (f\<lparr>rf_visited := False\<rparr>)" "rf_feedId f \<notin> set ids"
      by (auto simp: untouched_def)
    with gone a that s2(2) show ?thesis by (auto simp: rows_done_def)
  qed
  have fl: "flush_ok s2"
    unfolding flush_ok_def
  proof (intro conjI ballI impI)
    show "rss_ok s2" using s2(2) by (simp add: rows_done_def)
    fix a assume "a \<in> feed_on s2" "feed_gone s2 a"
    with s2(2) have "untouched ids s1 a" by (fastforce simp: rows_done_def feed_gone_def)
    with old [of a] show "feed_enabled s2 a" by (auto simp: feed_enabled_def)
  qed
  from flush_loop_run [OF fl] obtain s3 where
    s3: "rss_flush_loop s2 = Some s3" "flush_ok s3" "feed_on s3 = {a \<in> feed_on s2. \<not> feed_gone s2 a}" "\<forall>b \<in> feed_on s3. rsFeed s3 b = rsFeed s2 b"
    by (elim exE conjE)
  define s4 where "s4 = s3\<lparr>rsTree := bt_rebalance (rsTree s3), rsActive := bt_rebalance (rsActive s3)\<rparr>"
  have c: "rss_ok s4" "feed_on s4 = feed_on s3" using rss_ok_cong [of s4 s3] s3(2) by (simp_all add: s4_def flush_ok_def)
  have run: "rss_reload now ms s = Some s4" using r1 s2(1) s3(1) by (simp add: rss_reload_def s4_def)
  have h4: "rsFeed s4 a = rsFeed s2 a" if "a \<in> feed_on s4" for a using that s3(4) c(2) by (simp add: s4_def)
  have "(\<lambda>a. map_option settings_of (rsFeed s4 a)) ` feed_on s4 = (\<lambda>m. row_settings (snd (snd m))) ` set ms"
  proof (intro equalityI subsetI)
    fix e assume "e \<in> (\<lambda>a. map_option settings_of (rsFeed s4 a)) ` feed_on s4"
    then obtain a where a: "a \<in> feed_on s4" "e = map_option settings_of (rsFeed s2 a)" using h4 by auto
    with c s3(3) have a2: "a \<in> feed_on s2" "\<not> feed_gone s2 a" by simp_all
    have "\<not> untouched ids s1 a" using old [of a] a2(2) by (auto simp: feed_gone_def)
    with a2(1) s2(2) obtain g where g: "rsFeed s2 a = Some g" "rf_feedId g \<in> set ids" by (auto simp: rows_done_def)
    from g(2) obtain i where i: "i < length ids" "ids ! i = rf_feedId g" by (auto simp: in_set_conv_nth)
    define m where "m = ms ! i"
    have m: "m \<in> set ms" "feed_row (snd (snd m)) (rf_feedId g)"
      using assms(3) i by (auto simp: reload_rows_def list_all2_conv_all_nth m_def)
    with s2(2) obtain b h where h: "b \<in> feed_on s2" "rsFeed s2 b = Some h" "row_settings (snd (snd m)) = Some (settings_of h)"
      by (fastforce simp: rows_done_def row_loaded_def)
    have id: "rf_feedId h = rf_feedId g" by (rule feed_row_settings [OF m(2) h(3)])
    have "b = a"
    proof -
      have "rss_ok s2" using s2(2) by (simp add: rows_done_def)
      from find_feed_ok [OF this, of "rf_feedId g"] m(2) obtain r where
        "\<And>x. r = Some x \<longleftrightarrow> x \<in> feed_on s2 \<and> (\<exists>f. rsFeed s2 x = Some f \<and> rf_feedId f = rf_feedId g)" by (auto simp: feed_row_def)
      with a2(1) g(1) h(1,2) id have "r = Some a" "r = Some b" by blast+
      then show "b = a" by simp
    qed
    with h g a m show "e \<in> (\<lambda>m. row_settings (snd (snd m))) ` set ms" by force
  next
    fix e assume "e \<in> (\<lambda>m. row_settings (snd (snd m))) ` set ms"
    then obtain m where m: "m \<in> set ms" "e = row_settings (snd (snd m))" by blast
    with s2(2) obtain b h where h: "b \<in> feed_on s2" "rsFeed s2 b = Some h" "e = Some (settings_of h)" "rf_visited h"
      by (fastforce simp: rows_done_def row_loaded_def)
    then have "b \<in> feed_on s4" using c(2) s3(3) by (simp add: feed_gone_def)
    with h4 h show "e \<in> (\<lambda>a. map_option settings_of (rsFeed s4 a)) ` feed_on s4" by force
  qed
  with run c(1) rss_okD(4) [OF c(1)] show ?thesis by blast
qed

section \<open>Examples\<close>

definition feed_columns :: "string \<Rightarrow> string \<Rightarrow> db_row" where
  "feed_columns i enabled = map Some [i, ''1'', ''1'', ''http://x'', '''', ''0'', ''news'', ''600'', ''0'', ''spec'', ''0'', enabled]"

definition example_feed :: "int \<Rightarrow> int \<Rightarrow> bool \<Rightarrow> RssFeed_t" where
  "example_feed i t en = new_feed\<lparr>rf_feedId := i, rf_nextpoll := t, rf_enabled := en, rf_visited := True\<rparr>"

text \<open>A known feed that the database has no more.\<close>

definition example_rss :: rss where
  "example_rss = \<lparr>rsFeed = [7 \<mapsto> example_feed 1 90 True], rsTree = Node Leaf 7 Leaf, rsActive = Node Leaf (8, 7) Leaf,
     rsItems = Leaf, rsReload = True, rsStop = False, rsTick = 0, rsW = no_world, rsOut = []\<rparr>"

lemma example_rss_ok: "rss_ok example_rss"
  by (auto simp: rss_ok_def example_rss_def feed_on_def feed_enabled_def bt_inv_def feed_key_def poll_key_def example_feed_def
      feed_fits_def small_id_def is_time_def new_feed_def)

lemma located_no_world: "located no_world"
  by (simp add: located_def no_world_def FindServerNum_def FindChannelNum_def)

lemma feed_columns_ok: "feed_row (feed_columns ''2'' ''1'') 2"
proof -
  have "list_all (\<lambda>k. col (feed_columns ''2'' ''1'') k \<noteq> None) [0..<12]" by code_simp
  then have "\<forall>k < 12. col (feed_columns ''2'' ''1'') k \<noteq> None" by (simp add: list_all_iff)
  moreover have "col_int (feed_columns ''2'' ''1'') 0 = Some 2" by code_simp
  moreover have "length (the (col (feed_columns ''2'' ''1'') 6)) \<le> 64" by code_simp
  ultimately show ?thesis by (simp add: feed_row_def small_id_def)
qed

definition example_rows :: "(addr \<times> addr \<times> db_row) list" where
  "example_rows = [(50, 51, feed_columns ''2'' ''1'')]"

lemma feeds_follow_database_witness:
  "\<exists>s'. rss_reload 100 example_rows example_rss = Some s' \<and> rss_ok s' \<and>
    (\<lambda>a. map_option settings_of (rsFeed s' a)) ` feed_on s' = (\<lambda>m. row_settings (snd (snd m))) ` set example_rows \<and>
    snd ` set_tree (rsActive s') = {a \<in> feed_on s'. feed_enabled s' a}"
proof (rule feeds_follow_database [OF example_rss_ok, where ids = "[2]"])
  show "located (rsW example_rss)" by (simp add: example_rss_def located_no_world)
  show "reload_rows example_rows [2] example_rss"
    using feed_columns_ok by (simp add: reload_rows_def example_rss_def example_rows_def)
  show "is_time 100" by (simp add: is_time_def)
  show "100 + int (size (rsActive example_rss)) + 2 * int (length example_rows) < 2 ^ 31"
    by (simp add: example_rss_def example_rows_def)
  show "\<forall>a \<in> feed_on example_rss. \<forall>f. rsFeed example_rss a = Some f \<and> rf_feedId f \<notin> set [2] \<longrightarrow> rf_enabled f"
    by (simp add: example_rss_def feed_on_def example_feed_def)
qed

theorem stolen_poll:
  assumes "rss_ok s" "a \<in> feed_on s" "rsFeed s a = Some f" "\<not> rf_enabled f"
    and "x \<in> set_tree (rsActive s)" "rsFeed s (snd x) = Some g" "rf_nextpoll g = rf_nextpoll f"
  shows "\<exists>s'. drop_feed a s = Some s' \<and> rsFeed s' (snd x) = Some g \<and> rf_enabled g \<and> snd x \<in> feed_on s' \<and>
    snd x \<notin> snd ` set_tree (rsActive s')"
proof -
  note ok = rss_okD [OF assms(1)]
  from assms(5) ok(4) have b: "snd x \<in> feed_on s" "feed_enabled s (snd x)" by auto
  then have en: "rf_enabled g" using assms(6) by (simp add: feed_enabled_def)
  with assms(3,4,6) have ne: "snd x \<noteq> a" by auto
  have "find_poll (rf_nextpoll f) (s\<lparr>rsTree := T\<rparr>) = find_poll (rf_nextpoll f) s" for T
    by (simp add: find_poll_def polls_alive_def poll_key_def [abs_def])
  moreover have "find_poll (rf_nextpoll f) s = Some (Some x)"
    using time_tree.plain.find_elem [OF ok(2) assms(5)] ok(6) assms(6,7) by (simp add: find_poll_def poll_key_def)
  ultimately obtain s' where s': "drop_feed a s = Some s'" "rsTree s' = bt_remove a (rsTree s)"
    "rsActive s' = bt_remove x (rsActive s)" "rsFeed s' = (rsFeed s)(a := None)"
    using assms(3) by (simp add: drop_feed_def)
  moreover have "snd x \<notin> snd ` (set_tree (rsActive s) - {x})"
    using active_unique [OF assms(1) _ assms(5)] by auto
  ultimately show ?thesis
    using int_tree.inv_remove [OF ok(1), of a] time_tree.inv_remove [OF ok(2), of x] b(1) en ne assms(6)
    by (intro exI [of _ s']) (simp add: feed_on_def)
qed

text \<open>Feed 1 was disabled at the time 90 at which feed 2 is due.\<close>

definition clash_rss :: rss where
  "clash_rss = example_rss\<lparr>rsFeed := [7 \<mapsto> example_feed 1 90 False, 9 \<mapsto> example_feed 2 90 True],
     rsTree := Node Leaf 7 (Node Leaf 9 Leaf), rsActive := Node Leaf (8, 9) Leaf\<rparr>"

lemma stolen_poll_witness:
  "\<exists>s'. drop_feed 7 clash_rss = Some s' \<and> rsFeed s' 9 = Some (example_feed 2 90 True) \<and> rf_enabled (example_feed 2 90 True) \<and>
     9 \<in> feed_on s' \<and> 9 \<notin> snd ` set_tree (rsActive s')"
proof -
  have "rss_ok clash_rss"
    by (auto simp: rss_ok_def clash_rss_def example_rss_def feed_on_def feed_enabled_def bt_inv_def feed_key_def poll_key_def
      example_feed_def feed_fits_def small_id_def is_time_def new_feed_def cmp_of_def id_key_def clamp1_def)
  from stolen_poll [OF this, of 7 "example_feed 1 90 False" "(8, 9)" "example_feed 2 90 True"] show ?thesis
    by (simp add: clash_rss_def example_rss_def feed_on_def example_feed_def)
qed

end
