(* ===== verification/RssThread.thy ===== *)
theory RssThread
  imports RssReload "HOL-Library.Tree_Multiset"
begin

text \<open>
  \<open>rssfeed_thread\<close> of \<open>bot/src/plugins/rssfeed.c\<close>: finding the feeds that are due, fetching
  and queueing their new posts, writing the posts to the channels, sleeping and reloading.
  The clock is a sequence of readings, \<open>rsTick\<close> counts how many were taken.
\<close>

text \<open>An item of a feed as \<open>libmrss\<close> gives it.\<close>

record mrss_item =
  it_title :: "string option"
  it_link :: "string option"
  it_pubDate :: "string option"

text \<open>
  What the thread is given: the clock; the offset from UTC at a time; the items of an address (with user and kind of
  authentication, at the time of a reading), \<open>None\<close> for an error; \<open>localtime_r\<close>; \<open>strptime\<close> of a date
  and a format, which writes the fields that it reads and leaves the others, and \<open>mktime\<close>, which
  sets the fields right; \<open>strftime\<close> of a time.
\<close>

record tm =
  tm_sec :: int
  tm_min :: int
  tm_hour :: int
  tm_mday :: int
  tm_mon :: int
  tm_year :: int
  tm_wday :: int
  tm_yday :: int
  tm_isdst :: int
  tm_gmtoff :: int
  tm_zone :: string

record rss_env =
  re_now :: "nat \<Rightarrow> int"
  re_localtime :: "int \<Rightarrow> tm"
  re_fetch :: "nat \<Rightarrow> string \<Rightarrow> string option \<Rightarrow> int \<Rightarrow> mrss_item list option"
  re_strptime :: "string \<Rightarrow> string \<Rightarrow> tm \<Rightarrow> bool \<times> tm"
  re_mktime :: "tm \<Rightarrow> int \<times> tm"
  re_date :: "int \<Rightarrow> string"

definition rd_clock :: "rss_env \<Rightarrow> rss \<Rightarrow> int \<times> rss" where
  "rd_clock env s = (re_now env (rsTick s), s\<lparr>rsTick := rsTick s + 1\<rparr>)"

section \<open>Which feed is next\<close>

definition find_home :: "addr \<Rightarrow> rss \<Rightarrow> rss option" where
  "find_home a s = do {
     f \<leftarrow> rsFeed s a;
     if (rf_server f = None \<or> rf_channel f = None) \<and> wLoaded (rsW s) then locate_feed a s else Some s
   }"

definition feed_joined :: "addr \<Rightarrow> rss \<Rightarrow> bool option" where
  "feed_joined a s = do {
     f \<leftarrow> rsFeed s a;
     case rf_channel f of None \<Rightarrow> Some False | Some c \<Rightarrow> do { ch \<leftarrow> wChans (rsW s) c; Some (ch_joined ch) }
   }"

definition rssfeedIsReady :: "addr \<Rightarrow> rss \<Rightarrow> (bool \<times> rss) option" where
  "rssfeedIsReady a s = do {
     s \<leftarrow> find_home a s;
     f \<leftarrow> rsFeed s a;
     j \<leftarrow> (if rf_server f = None then Some False else feed_joined a s);
     Some (j, s)
   }"

text \<open>\<open>BalancedBTreeFindLeastCond\<close> with this condition, which may write to the feeds it sees.\<close>

fun least_ready :: "(addr \<times> addr) tree \<Rightarrow> rss \<Rightarrow> ((addr \<times> addr) option \<times> rss) option" where
  "least_ready Leaf s = Some (None, s)"
| "least_ready (Node l x r) s = do {
     (y, s) \<leftarrow> least_ready l s;
     case y of
       Some _ \<Rightarrow> Some (y, s)
     | None \<Rightarrow> do {
         (j, s) \<leftarrow> rssfeedIsReady (snd x) s;
         if j then Some (Some x, s) else least_ready r s
       }
   }"

definition least_poll :: "rss \<Rightarrow> (addr \<times> addr) option" where
  "least_poll s = (if rsActive s = Leaf then None else Some (min_of (rsActive s)))"

section \<open>Fetching\<close>

definition one_line :: "string \<Rightarrow> string" where
  "one_line t = map (\<lambda>c. if c = CHR 0x0A \<or> c = CHR 0x0D then CHR '' '' else c) t"

definition item_key :: "RssItem_t \<Rightarrow> BTreeKey" where
  "item_key i = id_key (ri_pubTime i)"

text \<open>
  The items of a feed: those with a date after the last post are put into the tree of posts, their
  time moved to a free one. \<open>strptime\<close> of a missing date faults. The broken-down time \<open>tm\<close> is the
  thread's own variable: the fields that a date does not give are those left by the item before,
  and at first those of the time of the pass.
\<close>

fun queue_items :: "rss_env \<Rightarrow> int \<Rightarrow> addr \<Rightarrow> mrss_item list \<Rightarrow> int \<times> tm \<times> rss \<Rightarrow> (int \<times> tm \<times> rss) option" where
  "queue_items env localoffset a [] (lastPost, tm, s) = Some (lastPost, tm, s)"
| "queue_items env localoffset a (it # its) (lastPost, tm, s) = do {
     pubDate \<leftarrow> it_pubDate it;
     f \<leftarrow> rsFeed s a;
     let (date, tm) = re_strptime env pubDate (rf_timeSpec f) tm;
         (t, tm) = re_mktime env tm;
         pubTime = t + localoffset - rf_offset f in
     if date \<and> pubTime > rf_lastPost f then do {
       k \<leftarrow> unconflicting (\<lambda>_. item_key) (rsItems s) pubTime;
       let i = \<lparr>ri_feed = a, ri_pubTime = k, ri_title = map_option one_line (it_title it), ri_link = it_link it\<rparr> in
       queue_items env localoffset a its (max lastPost pubTime, tm, s\<lparr>rsItems := add_time item_key i (rsItems s)\<rparr>)
     } else queue_items env localoffset a its (lastPost, tm, s)
   }"

definition fetch_feed :: "rss_env \<Rightarrow> int \<Rightarrow> addr \<Rightarrow> tm \<times> rss \<Rightarrow> (tm \<times> rss) option" where
  "fetch_feed env localoffset a = (\<lambda>(tm, s). do {
     f \<leftarrow> rsFeed s a;
     case re_fetch env (rsTick s) (rf_url f) (rf_userpass f) (rf_authtype f) of
       None \<Rightarrow> Some (tm, s)
     | Some its \<Rightarrow> do {
         (lastPost, tm, s) \<leftarrow> queue_items env localoffset a its (rf_lastPost f, tm, s);
         if lastPost > rf_lastPost f
         then do {
           s \<leftarrow> upd_feed a (\<lambda>f. f\<lparr>rf_lastPost := lastPost\<rparr>) (rs_emit [RsQuery (db_update_lastpost (rf_feedId f) lastPost)] s);
           Some (tm, s) }
         else Some (tm, s)
       }
   })"

section \<open>The due feeds\<close>

text \<open>
  One round of the loop for a node: either nothing is due (the delay until its poll), or it is put
  off, or it is polled. A feed that is put off gets its new time while its node stays in its place.
\<close>

definition poll_item :: "rss_env \<Rightarrow> int \<Rightarrow> addr \<times> addr \<Rightarrow> tm \<Rightarrow> rss \<Rightarrow> (int option \<times> tm \<times> rss) option" where
  "poll_item env localoffset x tm s = (case rd_clock env s of (now, s) \<Rightarrow> do {
     f \<leftarrow> rsFeed s (snd x);
     if rf_nextpoll f > now + 15 then Some (Some (rf_nextpoll f - now), tm, s)
     else do {
       s \<leftarrow> find_home (snd x) s;
       joined \<leftarrow> feed_joined (snd x) s;
       if \<not> joined then do { s \<leftarrow> upd_feed (snd x) (\<lambda>f. f\<lparr>rf_nextpoll := now + 60\<rparr>) s; Some (None, tm, s) }
       else do {
         s \<leftarrow> upd_feed (snd x) (\<lambda>f. f\<lparr>rf_nextpoll := now + rf_timeout f\<rparr>) (s\<lparr>rsActive := bt_remove x (rsActive s)\<rparr>);
         s \<leftarrow> add_poll x s;
         (tm, s) \<leftarrow> (if rsStop s then Some (tm, s) else fetch_feed env localoffset (snd x) (tm, s));
         Some (None, tm, s)
       }
     }
   })"

partial_function (option) poll_loop :: "rss_env \<Rightarrow> int \<Rightarrow> (addr \<times> addr) option \<Rightarrow> int \<Rightarrow> tm \<Rightarrow> rss \<Rightarrow> (int \<times> rss) option" where
  "poll_loop env localoffset item delta tm s =
     (case item of
        None \<Rightarrow> Some (delta, s)
      | Some x \<Rightarrow>
          if rsStop s then Some (delta, s)
          else do {
            (r, tm, s) \<leftarrow> poll_item env localoffset x tm s;
            case r of
              Some d \<Rightarrow> Some (d, s)
            | None \<Rightarrow> poll_loop env localoffset (least_poll s) delta tm s
          })"

declare poll_loop.simps [code]

section \<open>Writing the posts\<close>

text \<open>
  The lines of a post: the title with a date, and the address on the same line when it fits the
  longest line of the server (compared as unsigned numbers). The buffers have 1024 and 255 bytes;
  a missing title prints as \<open>(null)\<close>.
\<close>

definition post_lines :: "rss_env \<Rightarrow> int \<Rightarrow> RssFeed_t \<Rightarrow> RssItem_t \<Rightarrow> string list option" where
  "post_lines env floodMaxLine f i =
     (let m = ''['' @ rf_prefix f @ ''] at '' @ re_date env (ri_pubTime i) @ '' \"'' @ fmt_s (ri_title i) @ ''\"'' in
      if length m \<ge> 1024 then None
      else case ri_link i of
        None \<Rightarrow> Some [m]
      | Some l \<Rightarrow>
          if floodMaxLine < 0 \<or> int (length m + length l + 3) \<le> floodMaxLine
          then if length l + 3 < 255 \<and> length m + length l + 3 < 1024 then Some [m @ '' ('' @ l @ '')''] else None
          else if length l + 4 < 1024 then Some [m, ''  ('' @ l @ '')''] else None)"

definition post_item :: "rss_env \<Rightarrow> RssItem_t \<Rightarrow> rss \<Rightarrow> rss option" where
  "post_item env i s = do {
     f \<leftarrow> rsFeed s (ri_feed i);
     sv \<leftarrow> rf_server f;
     c \<leftarrow> rf_channel f;
     server \<leftarrow> wServers (rsW s) sv;
     ms \<leftarrow> post_lines env (sv_floodMaxLine server) f i;
     w \<leftarrow> foldM (\<lambda>m w. LoggedChannelMessage (re_now env (rsTick s)) sv c m w) ms (rsW s);
     Some (s\<lparr>rsW := w, rsItems := bt_remove i (rsItems s)\<rparr>)
   }"

partial_function (option) post_items :: "rss_env \<Rightarrow> rss \<Rightarrow> rss option" where
  "post_items env s =
     (if rsItems s = Leaf \<or> rsStop s then Some s
      else do { s \<leftarrow> post_item env (min_of (rsItems s)) s; post_items env s })"

declare post_items.simps [code]

section \<open>The thread\<close>

text \<open>A pass up to the label \<open>DelayPoll\<close>: how long to sleep.\<close>

definition rss_pass :: "rss_env \<Rightarrow> rss \<Rightarrow> (int \<times> rss) option" where
  "rss_pass env s = do {
     (item, s) \<leftarrow> least_ready (rsActive s) s;
     let (now, s) = rd_clock env s in
     case item of
       None \<Rightarrow> Some (60, s)
     | Some x \<Rightarrow>
         if \<not> wLoaded (rsW s) then Some (60, s)
         else do {
           f \<leftarrow> rsFeed s (snd x);
           if rf_nextpoll f > now + 15 then Some (rf_nextpoll f - now, s)
           else do {
             let tm = re_localtime env now;
             (delta, s) \<leftarrow> poll_loop env (tm_gmtoff tm) (Some x) 60 tm s;
             s \<leftarrow> post_items env (s\<lparr>rsActive := bt_rebalance (rsActive s), rsItems := bt_rebalance (rsItems s)\<rparr>);
             Some (delta, s)
           }
         }
   }"

definition rss_round :: "rss_env \<Rightarrow> (addr \<times> addr \<times> db_row) list \<Rightarrow> rss \<Rightarrow> rss option" where
  "rss_round env rows s = do {
     (delta, s) \<leftarrow> rss_pass env s;
     let (now, s) = rd_clock env s;
         s = (if delta \<ge> 0 \<and> \<not> rsStop s then rs_emit [RsSleep delta] s else s) in
     if rsReload s then rss_reload now rows s else Some s
   }"

text \<open>The rounds that the thread makes; \<open>rows\<close> is what a reload of that round reads.\<close>

fun rssfeed_thread :: "rss_env \<Rightarrow> (addr \<times> addr \<times> db_row) list list \<Rightarrow> rss \<Rightarrow> rss option" where
  "rssfeed_thread env [] s = Some s"
| "rssfeed_thread env (rows # rounds) s =
     (if rsStop s then Some s else do { s \<leftarrow> rss_round env rows s; rssfeed_thread env rounds s })"

section \<open>What is queued\<close>

text \<open>The times that the items of a feed get, in their order, and the broken-down time left at the end.\<close>

definition read_date :: "rss_env \<Rightarrow> int \<Rightarrow> RssFeed_t \<Rightarrow> mrss_item \<Rightarrow> tm \<Rightarrow> int option \<times> tm" where
  "read_date env lo f it tm =
     (let (date, tm) = re_strptime env (the (it_pubDate it)) (rf_timeSpec f) tm; (t, tm) = re_mktime env tm in
      (if date then Some (t + lo - rf_offset f) else None, tm))"

fun dates :: "rss_env \<Rightarrow> int \<Rightarrow> RssFeed_t \<Rightarrow> mrss_item list \<Rightarrow> tm \<Rightarrow> (mrss_item \<times> int option) list" where
  "dates env lo f [] tm = []"
| "dates env lo f (it # its) tm = (let (t, tm) = read_date env lo f it tm in (it, t) # dates env lo f its tm)"

definition is_new :: "RssFeed_t \<Rightarrow> mrss_item \<times> int option \<Rightarrow> bool" where
  "is_new f d \<longleftrightarrow> (case snd d of None \<Rightarrow> False | Some t \<Rightarrow> rf_lastPost f < t)"

definition post_of :: "addr \<Rightarrow> mrss_item \<Rightarrow> addr \<times> string option \<times> string option" where
  "post_of a it = (a, map_option one_line (it_title it), it_link it)"

definition item_post :: "RssItem_t \<Rightarrow> addr \<times> string option \<times> string option" where
  "item_post i = (ri_feed i, ri_title i, ri_link i)"

definition latest :: "RssFeed_t \<Rightarrow> (mrss_item \<times> int option) list \<Rightarrow> int \<Rightarrow> int" where
  "latest f ds m = fold (\<lambda>d m. if is_new f d then max m (the (snd d)) else m) ds m"

lemma latest_ge: "m \<le> latest f ds m" "d \<in> set ds \<Longrightarrow> is_new f d \<Longrightarrow> the (snd d) \<le> latest f ds m"
proof (induction ds arbitrary: m)
  case (Cons x ds)
  { case 1
    from Cons.IH(1) [of "if is_new f x then max m (the (snd x)) else m"] show ?case
      by (auto simp: latest_def split: if_splits) }
  { case 2
    from Cons.IH [of "if is_new f x then max m (the (snd x)) else m"] 2 show ?case
      by (auto simp: latest_def split: if_splits) }
qed (simp_all add: latest_def)

text \<open>A post is put in under the first free time after its own.\<close>

lemma queue_items_Cons:
  assumes "rsFeed s a = Some f" "it_pubDate it \<noteq> None" "read_date env lo f it tm = (t, tm')"
  shows "queue_items env lo a (it # its) (m, tm, s) =
    (if is_new f (it, t) then do {
       k \<leftarrow> unconflicting (\<lambda>_. item_key) (rsItems s) (the t);
       queue_items env lo a its (max m (the t), tm', s\<lparr>rsItems := add_time item_key
         \<lparr>ri_feed = a, ri_pubTime = k, ri_title = map_option one_line (it_title it), ri_link = it_link it\<rparr> (rsItems s)\<rparr>) }
     else queue_items env lo a its (m, tm', s))"
  using assms by (auto simp: is_new_def read_date_def Let_def split: prod.splits if_splits)

lemma add_time_elems:
  assumes "time_inv key T" "pos_int (key x)" "bt_find (cmp_of KeyCompareInt) key (key x) T = None"
  shows "time_inv key (add_time key x T)" "mset_tree (add_time key x T) = add_mset x (mset_tree T)" "size (add_time key x T) = Suc (size T)"
proof -
  note i = time_tree.inv_insert [OF assms]
  then show "time_inv key (add_time key x T)" by simp
  have "\<forall>y \<in> set_tree T. cmp_of KeyCompareInt (key x) (key y) \<noteq> 0"
    using time_tree.plain.find_None_iff [OF assms(1,2)] assms(3) by blast
  then show m: "mset_tree (add_time key x T) = add_mset x (mset_tree T)" by (induction T) auto
  then have "size (mset_tree (add_time key x T)) = Suc (size (mset_tree T))" by simp
  then show "size (add_time key x T) = Suc (size T)" by simp
qed

lemma queue_items_run:
  assumes "rsFeed s a = Some f" "\<forall>it \<in> set its. it_pubDate it \<noteq> None" "time_inv item_key (rsItems s)"
    and "\<forall>d \<in> set (dates env lo f its tm). is_new f d \<longrightarrow> 0 \<le> the (snd d) \<and> the (snd d) + int (size (rsItems s)) + int (length its) < 2 ^ 31"
  shows "\<exists>T tm'. queue_items env lo a its (m, tm, s) = Some (latest f (dates env lo f its tm) m, tm', s\<lparr>rsItems := T\<rparr>) \<and> time_inv item_key T \<and>
    image_mset item_post (mset_tree T) = image_mset item_post (mset_tree (rsItems s)) +
      mset (map (\<lambda>d. post_of a (fst d)) (filter (is_new f) (dates env lo f its tm))) \<and>
    size T \<le> size (rsItems s) + length its"
  using assms
proof (induction its arbitrary: m tm s)
  case Nil
  then show ?case by (intro exI [of _ "rsItems s"]) (simp add: latest_def)
next
  case (Cons it its)
  obtain t tm1 where rd: "read_date env lo f it tm = (t, tm1)" by (cases "read_date env lo f it tm")
  then have ds: "dates env lo f (it # its) tm = (it, t) # dates env lo f its tm1" by simp
  have step: "queue_items env lo a (it # its) (m, tm, s) =
    (if is_new f (it, t) then do {
       k \<leftarrow> unconflicting (\<lambda>_. item_key) (rsItems s) (the t);
       queue_items env lo a its (max m (the t), tm1, s\<lparr>rsItems := add_time item_key
         \<lparr>ri_feed = a, ri_pubTime = k, ri_title = map_option one_line (it_title it), ri_link = it_link it\<rparr> (rsItems s)\<rparr>) }
     else queue_items env lo a its (m, tm1, s))"
    by (rule queue_items_Cons) (use Cons.prems rd in auto)
  note range = Cons.prems(4) [unfolded ds]
  show ?case
  proof (cases "is_new f (it, t)")
    case False
    from Cons.IH [OF Cons.prems(1) _ Cons.prems(3), of tm1 m] Cons.prems(2) range obtain T tm' where
      T: "queue_items env lo a its (m, tm1, s) = Some (latest f (dates env lo f its tm1) m, tm', s\<lparr>rsItems := T\<rparr>)" "time_inv item_key T"
      "image_mset item_post (mset_tree T) = image_mset item_post (mset_tree (rsItems s)) +
        mset (map (\<lambda>d. post_of a (fst d)) (filter (is_new f) (dates env lo f its tm1)))"
      "size T \<le> size (rsItems s) + length its" by fastforce
    then show ?thesis unfolding ds using step False by (intro exI [of _ T] exI [of _ tm']) (simp add: latest_def)
  next
    case True
    let ?t = "the t"
    from range True have t: "0 \<le> ?t" "?t + int (size (rsItems s)) < 2 ^ 31" by auto
    have same: "\<forall>t. \<forall>x \<in> set_tree (rsItems s). (\<lambda>_. item_key) t x = item_key x" by simp
    from unconflicting_ends [where K = "\<lambda>_. item_key", OF Cons.prems(3) same t] obtain k where
      k: "unconflicting (\<lambda>_. item_key) (rsItems s) ?t = Some k" "?t \<le> k" "k \<le> ?t + int (size (rsItems s))"
      "find_time item_key k (rsItems s) = None" by (elim exE conjE)
    define i where "i = \<lparr>ri_feed = a, ri_pubTime = k, ri_title = map_option one_line (it_title it), ri_link = it_link it\<rparr>"
    define s1 where "s1 = s\<lparr>rsItems := add_time item_key i (rsItems s)\<rparr>"
    have ik: "item_key i = id_key k" "is_time k" using k t by (simp_all add: item_key_def i_def is_time_def)
    have e: "time_inv item_key (rsItems s1)" "mset_tree (rsItems s1) = add_mset i (mset_tree (rsItems s))"
      "size (rsItems s1) = Suc (size (rsItems s))"
      using add_time_elems [OF Cons.prems(3), of i] ik k(4) by (simp_all add: s1_def)
    have "\<forall>d \<in> set (dates env lo f its tm1). is_new f d \<longrightarrow> 0 \<le> the (snd d) \<and>
        the (snd d) + int (size (rsItems s1)) + int (length its) < 2 ^ 31"
      using range e(3) by auto
    with Cons.IH [of s1 tm1 "max m ?t"] Cons.prems(1,2) e(1) obtain T tm' where
      T: "queue_items env lo a its (max m ?t, tm1, s1) = Some (latest f (dates env lo f its tm1) (max m ?t), tm', s1\<lparr>rsItems := T\<rparr>)"
      "time_inv item_key T"
      "image_mset item_post (mset_tree T) = image_mset item_post (mset_tree (rsItems s1)) +
        mset (map (\<lambda>d. post_of a (fst d)) (filter (is_new f) (dates env lo f its tm1)))"
      "size T \<le> size (rsItems s1) + length its" by (auto simp: s1_def)
    have "queue_items env lo a (it # its) (m, tm, s) = Some (latest f (dates env lo f (it # its) tm) m, tm', s\<lparr>rsItems := T\<rparr>)"
      unfolding ds using step True k(1) T(1) by (simp add: i_def [symmetric] s1_def [symmetric] latest_def) (simp add: s1_def)
    moreover have "item_post i = post_of a it" by (simp add: item_post_def post_of_def i_def)
    ultimately show ?thesis unfolding ds using T(2-4) e(2,3) True by (intro exI [of _ T] exI [of _ tm']) (simp add: comp_def)
  qed
qed

lemma queue_items_none:
  assumes "rsFeed s a = Some f" "\<forall>it \<in> set its. it_pubDate it \<noteq> None" "\<forall>d \<in> set (dates env lo f its tm). \<not> is_new f d"
  shows "\<exists>tm'. queue_items env lo a its (m, tm, s) = Some (m, tm', s)"
  using assms(2,3)
proof (induction its arbitrary: tm)
  case (Cons it its)
  obtain t tm1 where rd: "read_date env lo f it tm = (t, tm1)" by (cases "read_date env lo f it tm")
  with Cons show ?case using queue_items_Cons [OF assms(1) _ rd, of its m] by simp
qed simp

text \<open>The dates of the items are there and those that are new lie in the range of the keys.\<close>

definition dated :: "RssFeed_t \<Rightarrow> nat \<Rightarrow> mrss_item list \<Rightarrow> (mrss_item \<times> int option) list \<Rightarrow> bool" where
  "dated f n its ds \<longleftrightarrow> (\<forall>it \<in> set its. it_pubDate it \<noteq> None) \<and>
     (\<forall>d \<in> set ds. is_new f d \<longrightarrow> 0 \<le> the (snd d) \<and> the (snd d) + int n + int (length its) < 2 ^ 31)"

lemma fetch_feed_run:
  assumes "rsFeed s a = Some f" "re_fetch env (rsTick s) (rf_url f) (rf_userpass f) (rf_authtype f) = Some its"
    and "time_inv item_key (rsItems s)" "ds = dates env lo f its tm" "dated f (size (rsItems s)) its ds"
  shows "\<exists>T es tm'. fetch_feed env lo a (tm, s) =
      Some (tm', rs_emit es (s\<lparr>rsItems := T, rsFeed := (rsFeed s)(a \<mapsto> f\<lparr>rf_lastPost := latest f ds (rf_lastPost f)\<rparr>)\<rparr>)) \<and>
    time_inv item_key T \<and> size T \<le> size (rsItems s) + length its \<and>
    image_mset item_post (mset_tree T) = image_mset item_post (mset_tree (rsItems s)) + mset (map (\<lambda>d. post_of a (fst d)) (filter (is_new f) ds))"
proof -
  have d: "\<forall>it \<in> set its. it_pubDate it \<noteq> None" "\<forall>d \<in> set (dates env lo f its tm). is_new f d \<longrightarrow> 0 \<le> the (snd d) \<and>
      the (snd d) + int (size (rsItems s)) + int (length its) < 2 ^ 31"
    using assms(4,5) by (auto simp: dated_def)
  from queue_items_run [OF assms(1) d(1) assms(3) d(2), of "rf_lastPost f"] obtain T tm' where
    T: "queue_items env lo a its (rf_lastPost f, tm, s) = Some (latest f ds (rf_lastPost f), tm', s\<lparr>rsItems := T\<rparr>)" "time_inv item_key T"
    "image_mset item_post (mset_tree T) = image_mset item_post (mset_tree (rsItems s)) + mset (map (\<lambda>d. post_of a (fst d)) (filter (is_new f) ds))"
    "size T \<le> size (rsItems s) + length its" unfolding assms(4) by blast
  let ?m = "latest f ds (rf_lastPost f)"
  define es where "es = (if ?m > rf_lastPost f then [RsQuery (db_update_lastpost (rf_feedId f) ?m)] else [])"
  have "fetch_feed env lo a (tm, s) = Some (tm', rs_emit es (s\<lparr>rsItems := T, rsFeed := (rsFeed s)(a \<mapsto> f\<lparr>rf_lastPost := ?m\<rparr>)\<rparr>))"
  proof (cases "?m > rf_lastPost f")
    case True
    with assms(1,2) T(1) show ?thesis by (simp add: fetch_feed_def upd_feed_def es_def)
  next
    case False
    with latest_ge(1) [of "rf_lastPost f" f ds] have e: "?m = rf_lastPost f" by simp
    have "(rsFeed s)(a \<mapsto> f\<lparr>rf_lastPost := ?m\<rparr>) = rsFeed s" using assms(1) by (simp add: e fun_upd_idem)
    with assms(1,2) T(1) e show ?thesis by (simp add: fetch_feed_def es_def)
  qed
  with T(2-4) show ?thesis by blast
qed

text \<open>Claim C30. Fetching a feed that answers queues exactly the items whose time lies after the
  last post, each with its title on one line and its address, and the new last post is the
  greatest of these times. The time of an item is read over the broken-down time that the item
  before left. Items that read as the same times at a later fetch are not queued again; a date
  that leaves fields to the clock reads differently. This is for a well-formed tree of posts,
  items that all have a pubDate (one without faults, rssfeed.c:456) and new times within the
  positive 32-bit range.\<close>

theorem posts_queued_once:
  assumes "rsFeed s a = Some f" "re_fetch env (rsTick s) (rf_url f) (rf_userpass f) (rf_authtype f) = Some its"
    and "time_inv item_key (rsItems s)" "dated f (size (rsItems s)) its (dates env lo f its tm)"
  shows "\<exists>tm' s' f'. fetch_feed env lo a (tm, s) = Some (tm', s') \<and> rsFeed s' a = Some f' \<and>
    image_mset item_post (mset_tree (rsItems s')) = image_mset item_post (mset_tree (rsItems s)) +
      mset (map (\<lambda>d. post_of a (fst d)) (filter (is_new f) (dates env lo f its tm))) \<and>
    rf_lastPost f' = latest f (dates env lo f its tm) (rf_lastPost f) \<and>
    (\<forall>tm2. dates env lo f its tm2 = dates env lo f its tm \<longrightarrow>
      (\<exists>tm3. queue_items env lo a its (rf_lastPost f', tm2, s') = Some (rf_lastPost f', tm3, s')))"
proof -
  let ?ds = "dates env lo f its tm"
  from fetch_feed_run [OF assms(1-3) refl assms(4)] obtain T es tm' where
    T: "fetch_feed env lo a (tm, s) = Some (tm', rs_emit es (s\<lparr>rsItems := T, rsFeed := (rsFeed s)(a \<mapsto> f\<lparr>rf_lastPost := latest f ?ds (rf_lastPost f)\<rparr>)\<rparr>))"
    "image_mset item_post (mset_tree T) = image_mset item_post (mset_tree (rsItems s)) + mset (map (\<lambda>d. post_of a (fst d)) (filter (is_new f) ?ds))"
    by blast
  define f' where "f' = f\<lparr>rf_lastPost := latest f ?ds (rf_lastPost f)\<rparr>"
  define s' where "s' = rs_emit es (s\<lparr>rsItems := T, rsFeed := (rsFeed s)(a \<mapsto> f')\<rparr>)"
  have f': "rsFeed s' a = Some f'" by (simp add: s'_def)
  have old: "\<not> is_new f' d" if "d \<in> set ?ds" for d
  proof
    assume n: "is_new f' d"
    with latest_ge(1) [of "rf_lastPost f" f ?ds] have "is_new f d" by (auto simp: is_new_def f'_def split: option.splits)
    with latest_ge(2) [OF that this, of "rf_lastPost f"] n show False by (auto simp: is_new_def f'_def split: option.splits)
  qed
  have "dates env lo f' its t = dates env lo f its t" for t
    by (induction its arbitrary: t) (simp_all add: read_date_def f'_def split: prod.split)
  moreover have "\<forall>it \<in> set its. it_pubDate it \<noteq> None" using assms(4) by (auto simp: dated_def)
  ultimately have "\<exists>tm3. queue_items env lo a its (rf_lastPost f', tm2, s') = Some (rf_lastPost f', tm3, s')"
    if "dates env lo f its tm2 = ?ds" for tm2
    using queue_items_none [OF f'] old that by metis
  with T f' show ?thesis by (intro exI [of _ tm'] exI [of _ s'] exI [of _ f']) (simp add: s'_def f'_def)
qed

section \<open>What is written\<close>

definition said :: "int \<Rightarrow> world \<Rightarrow> addr \<Rightarrow> addr \<Rightarrow> string \<Rightarrow> effect list" where
  "said now w sv c m =
     (let ch = the (wChans w c); nick = sv_nick (the (wServers w sv)) in
      TxMsg sv TX_MESSAGE (Some (ch_channel ch)) (Some m) #
      map DbAct (the (db_add_logentry now (Some (ch_channelId ch)) (Some nick) TYPE_MESSAGE (Some m) False) @
        the (db_update_nick now (Some (ch_channelId ch)) (Some nick) True False)))"

lemma said_run:
  assumes "wChans w c = Some ch" "wServers w sv = Some s" "sv_txQueue s"
  shows "LoggedChannelMessage now sv c m w = Some (w\<lparr>wOut := wOut w @ said now w sv c m\<rparr>)"
  using assms by (simp add: LoggedChannelMessage_def tx_msg_Some log_entry_def update_nick_def chan_id_def said_def Let_def
      db_add_logentry_def db_update_nick_def nick_only_def emit_def emit_db_def)

lemma said_all:
  assumes "wChans w c = Some ch" "wServers w sv = Some s" "sv_txQueue s"
  shows "foldM (\<lambda>m w. LoggedChannelMessage now sv c m w) ms w = Some (w\<lparr>wOut := wOut w @ concat (map (said now w sv c) ms)\<rparr>)"
  using assms
proof (induction ms arbitrary: w)
  case (Cons m ms)
  let ?w = "w\<lparr>wOut := wOut w @ said now w sv c m\<rparr>"
  have "said now ?w sv c = said now w sv c" by (simp add: said_def fun_eq_iff)
  with Cons.IH [of ?w] Cons.prems said_run [of w c ch sv s now m] show ?case by simp
qed simp

text \<open>The feed of a post is in memory, with a server that takes messages and a channel, and the lines fit.\<close>

definition postable :: "rss_env \<Rightarrow> rss \<Rightarrow> RssItem_t \<Rightarrow> bool" where
  "postable env s i \<longleftrightarrow> (\<exists>f sv c server ch. rsFeed s (ri_feed i) = Some f \<and> rf_server f = Some sv \<and> rf_channel f = Some c \<and>
     wServers (rsW s) sv = Some server \<and> sv_txQueue server \<and> wChans (rsW s) c = Some ch \<and>
     post_lines env (sv_floodMaxLine server) f i \<noteq> None)"

definition post_effects :: "rss_env \<Rightarrow> rss \<Rightarrow> RssItem_t \<Rightarrow> effect list" where
  "post_effects env s i =
     (let f = the (rsFeed s (ri_feed i)); sv = the (rf_server f); c = the (rf_channel f) in
      concat (map (said (re_now env (rsTick s)) (rsW s) sv c) (the (post_lines env (sv_floodMaxLine (the (wServers (rsW s) sv))) f i))))"

lemma post_item_run:
  assumes "postable env s i"
  shows "post_item env i s = Some (s\<lparr>rsW := (rsW s)\<lparr>wOut := wOut (rsW s) @ post_effects env s i\<rparr>, rsItems := bt_remove i (rsItems s)\<rparr>)"
  using assms said_all by (auto simp: postable_def post_item_def post_effects_def)

lemma bt_remove_min: "T \<noteq> Leaf \<Longrightarrow> distinct (inorder T) \<Longrightarrow> inorder (bt_remove (min_of T) T) = tl (inorder T)"
proof -
  assume T: "T \<noteq> Leaf" "distinct (inorder T)"
  have "inorder T = min_of T # inorder (del_min T)" by (rule inorder_del_min [OF T(1)])
  with T(2) inorder_bt_remove [OF T(2), of "min_of T"] show ?thesis by (simp add: filter_neq_id)
qed

lemma post_items_run:
  assumes "distinct (inorder (rsItems s))" "\<forall>i \<in> set_tree (rsItems s). postable env s i" "\<not> rsStop s"
  shows "\<exists>s'. post_items env s = Some s' \<and> rsItems s' = Leaf \<and>
    wOut (rsW s') = wOut (rsW s) @ concat (map (post_effects env s) (inorder (rsItems s)))"
  using assms
proof (induction "inorder (rsItems s)" arbitrary: s)
  case Nil
  then have "rsItems s = Leaf" by (cases "rsItems s") auto
  then show ?case by (subst post_items.simps) simp
next
  case (Cons i xs)
  then have T: "rsItems s \<noteq> Leaf" by auto
  with Cons.hyps(2) inorder_del_min [OF T] have i: "i = min_of (rsItems s)" by simp
  from Cons.hyps(2) Cons.prems(2) have p: "postable env s i" by (metis list.set_intros(1) set_inorder)
  define s1 where "s1 = s\<lparr>rsW := (rsW s)\<lparr>wOut := wOut (rsW s) @ post_effects env s i\<rparr>, rsItems := bt_remove i (rsItems s)\<rparr>"
  have xs: "xs = inorder (rsItems s1)" using bt_remove_min [OF T Cons.prems(1)] Cons.hyps(2) i by (simp add: s1_def) (metis list.sel(3))
  have w: "rsFeed s1 = rsFeed s" "wServers (rsW s1) = wServers (rsW s)" "wChans (rsW s1) = wChans (rsW s)" "rsTick s1 = rsTick s" "rsStop s1 = rsStop s"
    by (simp_all add: s1_def)
  have said: "said now (rsW s1) = said now (rsW s)" for now by (simp add: said_def fun_eq_iff w)
  have eff: "post_effects env s1 = post_effects env s" "postable env s1 = postable env s"
    by (simp_all add: post_effects_def postable_def fun_eq_iff w said)
  have sub: "set_tree (rsItems s1) \<subseteq> set_tree (rsItems s)" using xs Cons.hyps(2) by (metis set_inorder set_subset_Cons)
  have "distinct (inorder (rsItems s1))" using xs Cons.hyps(2) Cons.prems(1) by (metis distinct.simps(2))
  from Cons.hyps(1) [OF xs this] sub eff Cons.prems(2,3) w obtain s' where
    s': "post_items env s1 = Some s'" "rsItems s' = Leaf" "wOut (rsW s') = wOut (rsW s1) @ concat (map (post_effects env s) (inorder (rsItems s1)))"
    by auto
  have "post_items env s = Some s'" using T Cons.prems(3) post_item_run [OF p] s'(1) i by (subst post_items.simps) (simp add: s1_def)
  with s' Cons.hyps(2) [symmetric] xs show ?case by (simp add: s1_def)
qed

text \<open>Writing out the queued posts ends: every post was said in its channel, in the
  order of their times, and the tree is empty.\<close>

theorem posts_in_order:
  assumes "time_inv item_key (rsItems s)" "\<forall>i \<in> set_tree (rsItems s). is_time (ri_pubTime i) \<and> postable env s i" "\<not> rsStop s"
  shows "\<exists>s'. post_items env s = Some s' \<and> rsItems s' = Leaf \<and> sorted_wrt (\<lambda>i j. ri_pubTime i < ri_pubTime j) (inorder (rsItems s)) \<and>
    wOut (rsW s') = wOut (rsW s) @ concat (map (post_effects env s) (inorder (rsItems s)))"
proof -
  have "sorted_wrt (\<lambda>i j. cmp_of KeyCompareInt (item_key i) (item_key j) < 0) (inorder (rsItems s))"
    using assms(1) by (simp add: bt_inv_def bt_strict_def)
  then have "sorted_wrt (\<lambda>i j. ri_pubTime i < ri_pubTime j) (inorder (rsItems s))"
    by (rule sorted_wrt_mono_rel [rotated]) (use assms(2) in \<open>simp add: item_key_def cmp_pos\<close>)
  moreover have "distinct (inorder (rsItems s))"
    using assms(1) time_tree.bt_strict_distinct by (auto simp: bt_inv_def)
  ultimately show ?thesis using post_items_run [of s env] assms(2,3) by blast
qed

section \<open>A channel that was not joined\<close>

text \<open>The feed is there, with server and channel.\<close>

definition at_home :: "rss \<Rightarrow> addr \<Rightarrow> bool \<Rightarrow> bool" where
  "at_home s a joined \<longleftrightarrow> (\<exists>f c ch. rsFeed s a = Some f \<and> rf_server f \<noteq> None \<and> rf_channel f = Some c \<and> wChans (rsW s) c = Some ch \<and>
     ch_joined ch = joined)"

lemma at_home_run:
  assumes "at_home s a j" shows "find_home a s = Some s" "feed_joined a s = Some j"
  using assms by (auto simp: at_home_def find_home_def feed_joined_def)

lemma at_home_cong: "rsFeed s' = rsFeed s \<Longrightarrow> rsW s' = rsW s \<Longrightarrow> at_home s' = at_home s"
  by (simp add: at_home_def fun_eq_iff)

text \<open>A due feed whose channel is not joined ends the polling of all feeds: its time is
  changed in place, the loop finds its node again and stops, although a later node of the tree
  is due before; the tree is no longer sorted.\<close>

theorem late_join_stops_polling:
  assumes "rsActive s \<noteq> Leaf" "x = min_of (rsActive s)" "rsFeed s (snd x) = Some f" "at_home s (snd x) False" "\<not> rsStop s"
    and now: "now = re_now env (rsTick s)" "rf_nextpoll f \<le> now + 15" "re_now env (rsTick s + 1) < now + 45" "is_time (now + 60)"
    and y: "y \<in> set_tree (rsActive s)" "snd y \<noteq> snd x" "rsFeed s (snd y) = Some g" "is_time (rf_nextpoll g)" "rf_nextpoll g < now + 60"
  shows "\<exists>s'. poll_loop env lo (Some x) delta tm s = Some (now + 60 - re_now env (rsTick s + 1), s') \<and> rsActive s' = rsActive s \<and>
    rsFeed s' = (rsFeed s)(snd x \<mapsto> f\<lparr>rf_nextpoll := now + 60\<rparr>) \<and> rsW s' = rsW s \<and> \<not> time_inv (poll_key s') (rsActive s')"
proof -
  define s1 where "s1 = s\<lparr>rsTick := rsTick s + 1\<rparr>"
  define s2 where "s2 = s1\<lparr>rsFeed := (rsFeed s)(snd x \<mapsto> f\<lparr>rf_nextpoll := now + 60\<rparr>)\<rparr>"
  define s3 where "s3 = s2\<lparr>rsTick := rsTick s2 + 1\<rparr>"
  have "at_home s1 = at_home s" by (rule at_home_cong) (simp_all add: s1_def)
  then have "at_home s1 (snd x) False" using assms(4) by simp
  note h = at_home_run [OF this]
  have 1: "poll_item env lo x tm s = Some (None, tm, s2)"
    using assms(3) now h by (simp add: poll_item_def rd_clock_def s1_def [symmetric] s2_def) (simp add: s1_def upd_feed_def)
  have 2: "least_poll s2 = Some x" using assms(1,2) by (simp add: least_poll_def s2_def s1_def)
  have 3: "poll_item env lo x tm s2 = Some (Some (now + 60 - re_now env (rsTick s + 1)), tm, s3)"
    using now by (simp add: poll_item_def rd_clock_def s3_def) (simp add: s2_def s1_def)
  have st: "\<not> rsStop s2" using assms(5) by (simp add: s2_def s1_def)
  have run: "poll_loop env lo (Some x) delta tm s = Some (now + 60 - re_now env (rsTick s + 1), s3)"
    using 1 2 3 st assms(5) by (subst poll_loop.simps, simp, subst poll_loop.simps, simp)
  have act: "rsActive s3 = rsActive s" "rsFeed s3 = (rsFeed s)(snd x \<mapsto> f\<lparr>rf_nextpoll := now + 60\<rparr>)" "rsW s3 = rsW s"
    by (simp_all add: s3_def s2_def s1_def)
  have "\<not> time_inv (poll_key s3) (rsActive s)"
  proof
    assume inv: "time_inv (poll_key s3) (rsActive s)"
    have io: "inorder (rsActive s) = x # inorder (del_min (rsActive s))" using inorder_del_min [OF assms(1)] assms(2) by simp
    with y(1,2) have "y \<in> set (inorder (del_min (rsActive s)))" by (metis set_ConsD set_inorder)
    with inv io have "cmp_of KeyCompareInt (poll_key s3 x) (poll_key s3 y) < 0" by (simp add: bt_inv_def bt_strict_def)
    moreover have "poll_key s3 x = id_key (now + 60)" "poll_key s3 y = id_key (rf_nextpoll g)"
      using y(2,3) by (simp_all add: poll_key_def act)
    ultimately show False using y(4,5) now(4) by (simp add: cmp_pos)
  qed
  with run act show ?thesis by (intro exI [of _ s3]) simp
qed

text \<open>In such a tree the disable command does not find the node of the feed.\<close>

lemma bt_find_right:
  assumes "bt_find cmp key k (Node l y r) = Some z" "cmp k (key y) > 0" shows "z \<in> set_tree r"
  using assms bt_find_SomeD [of cmp key k r z] by (auto split: if_splits)

theorem disabled_feed_stays:
  assumes "find_feed i s = Some (Some a)" "rsFeed s a = Some f" "rf_enabled f" "rf_channel f = Some c" "wChans (rsW s) c = Some ch"
    and T: "rsActive s = Node l y r" "x \<in> set_tree l" "snd x = a" "distinct (inorder (rsActive s))" "polls_alive s"
    and k: "rsFeed s (snd y) = Some g" "is_time (rf_nextpoll g)" "is_time (rf_nextpoll f)" "rf_nextpoll g < rf_nextpoll f"
  shows "\<exists>m s'. rss_disable i s = Some (m, s') \<and> \<not> feed_enabled s' a \<and> x \<in> set_tree (rsActive s')"
proof -
  let ?s = "s\<lparr>rsFeed := (rsFeed s)(a \<mapsto> f\<lparr>rf_enabled := False\<rparr>)\<rparr>"
  have pk: "poll_key ?s = poll_key s" using assms(2) by (auto simp: poll_key_def fun_eq_iff)
  have al: "polls_alive ?s" using T(5) by (auto simp: polls_alive_def alive_def)
  let ?z = "find_time (poll_key s) (rf_nextpoll f) (rsActive s)"
  have fp: "find_poll (rf_nextpoll f) ?s = Some ?z" using al by (simp add: find_poll_def pk)
  have "cmp_of KeyCompareInt (id_key (rf_nextpoll f)) (poll_key s y) > 0"
    using k by (simp add: poll_key_def cmp_pos)
  then have z: "z \<in> set_tree r" if "?z = Some z" for z using bt_find_right that T(1) by metis
  define U where "U = (case ?z of None \<Rightarrow> rsActive s | Some z \<Rightarrow> bt_remove z (rsActive s))"
  have "x \<in> set_tree U"
  proof (cases ?z)
    case None
    with T(1,2) show ?thesis by (simp add: U_def)
  next
    case (Some z)
    with z have "z \<in> set_tree r" by blast
    with T(1,2,4) have ne: "z \<noteq> x" by auto
    have "set (inorder (bt_remove z (rsActive s))) = set (inorder (rsActive s)) - {z}"
      unfolding inorder_bt_remove [OF T(4)] by auto
    then have "set_tree (bt_remove z (rsActive s)) = set_tree (rsActive s) - {z}" by simp
    with ne T(1,2) Some show ?thesis by (simp add: U_def)
  qed
  moreover have "\<exists>m. rss_disable i s = Some (m, rs_emit [RsKick] (?s\<lparr>rsActive := bt_rebalance U\<rparr>))"
    using assms(1-5) fp by (simp add: rss_disable_def upd_feed_def U_def cong: option.case_cong)
  ultimately show ?thesis by (auto simp: feed_enabled_def)
qed


section \<open>Examples\<close>

text \<open>Every date is the time 500, every fetch gives two items; the clock stands at 80.\<close>

definition two_items :: "mrss_item list" where
  "two_items = [\<lparr>it_title = Some ''one'', it_link = None, it_pubDate = Some ''d''\<rparr>,
     \<lparr>it_title = Some ''two'', it_link = Some ''http://x'', it_pubDate = Some ''d''\<rparr>]"

definition no_tm :: tm where
  "no_tm = \<lparr>tm_sec = 0, tm_min = 0, tm_hour = 0, tm_mday = 1, tm_mon = 0, tm_year = 70, tm_wday = 4, tm_yday = 0, tm_isdst = 0,
     tm_gmtoff = 0, tm_zone = ''GMT''\<rparr>"

definition example_env :: rss_env where
  "example_env = \<lparr>re_now = (\<lambda>_. 80), re_localtime = (\<lambda>_. no_tm), re_fetch = (\<lambda>_ _ _ _. Some two_items),
     re_strptime = (\<lambda>_ _ tm. (True, tm)), re_mktime = (\<lambda>tm. (500, tm)), re_date = (\<lambda>_. ''today'')\<rparr>"

lemma posts_queued_once_witness:
  "\<exists>tm' s' f'. fetch_feed example_env 0 7 (no_tm, example_rss) = Some (tm', s') \<and> rsFeed s' 7 = Some f' \<and>
    image_mset item_post (mset_tree (rsItems s')) = image_mset item_post (mset_tree (rsItems example_rss)) +
      mset (map (\<lambda>d. post_of 7 (fst d)) (filter (is_new (example_feed 1 90 True)) (dates example_env 0 (example_feed 1 90 True) two_items no_tm))) \<and>
    rf_lastPost f' = latest (example_feed 1 90 True) (dates example_env 0 (example_feed 1 90 True) two_items no_tm) (rf_lastPost (example_feed 1 90 True)) \<and>
    (\<forall>tm2. dates example_env 0 (example_feed 1 90 True) two_items tm2 = dates example_env 0 (example_feed 1 90 True) two_items no_tm \<longrightarrow>
      (\<exists>tm3. queue_items example_env 0 7 two_items (rf_lastPost f', tm2, s') = Some (rf_lastPost f', tm3, s')))"
  by (rule posts_queued_once)
    (simp_all add: example_rss_def example_env_def bt_inv_def dated_def two_items_def read_date_def example_feed_def new_feed_def)

text \<open>The feed has a server and a channel; two posts wait.\<close>

definition home_world :: "bool \<Rightarrow> world" where
  "home_world joined = no_world\<lparr>wServers := [3 \<mapsto> new_server\<lparr>sv_txQueue := True, sv_floodMaxLine := 60\<rparr>],
     wChans := [4 \<mapsto> new_channel\<lparr>ch_channel := ''#c'', ch_joined := joined\<rparr>]\<rparr>"

definition home_feed :: "int \<Rightarrow> int \<Rightarrow> RssFeed_t" where
  "home_feed i t = (example_feed i t True)\<lparr>rf_server := Some 3, rf_channel := Some 4\<rparr>"

definition post_at :: "int \<Rightarrow> RssItem_t" where
  "post_at t = \<lparr>ri_feed = 7, ri_pubTime = t, ri_title = Some ''one'', ri_link = None\<rparr>"

definition posts_rss :: rss where
  "posts_rss = example_rss\<lparr>rsFeed := [7 \<mapsto> home_feed 1 90], rsW := home_world True,
     rsItems := Node Leaf (post_at 500) (Node Leaf (post_at 501) Leaf)\<rparr>"

lemma posts_in_order_witness:
  "\<exists>s'. post_items example_env posts_rss = Some s' \<and> rsItems s' = Leaf \<and>
    sorted_wrt (\<lambda>i j. ri_pubTime i < ri_pubTime j) (inorder (rsItems posts_rss)) \<and>
    wOut (rsW s') = wOut (rsW posts_rss) @ concat (map (post_effects example_env posts_rss) (inorder (rsItems posts_rss)))"
proof (rule posts_in_order)
  show "time_inv item_key (rsItems posts_rss)"
    by (simp add: posts_rss_def bt_inv_def item_key_def post_at_def cmp_of_def id_key_def clamp1_def)
  show "\<forall>i \<in> set_tree (rsItems posts_rss). is_time (ri_pubTime i) \<and> postable example_env posts_rss i"
    by (simp add: posts_rss_def is_time_def postable_def post_at_def home_feed_def home_world_def example_env_def
        post_lines_def example_feed_def new_feed_def fmt_s_def)
  show "\<not> rsStop posts_rss" by (simp add: posts_rss_def example_rss_def)
qed

text \<open>Feed 1 was due at 90, feed 2 is due at 100; the channel is not joined.\<close>

definition parted_rss :: rss where
  "parted_rss = example_rss\<lparr>rsFeed := [7 \<mapsto> home_feed 1 90, 9 \<mapsto> home_feed 2 100], rsW := home_world False,
     rsTree := Node Leaf 7 (Node Leaf 9 Leaf), rsActive := Node Leaf (8, 7) (Node Leaf (10, 9) Leaf)\<rparr>"

lemma late_join_stops_polling_witness:
  "\<exists>s'. poll_loop example_env 0 (Some (8, 7)) 60 no_tm parted_rss = Some (80 + 60 - re_now example_env (rsTick parted_rss + 1), s') \<and>
    rsActive s' = rsActive parted_rss \<and> rsFeed s' = (rsFeed parted_rss)(7 \<mapsto> (home_feed 1 90)\<lparr>rf_nextpoll := 80 + 60\<rparr>) \<and>
    rsW s' = rsW parted_rss \<and> \<not> time_inv (poll_key s') (rsActive s')"
proof -
  let ?T = "rsActive parted_rss" and ?e = example_env and ?x = "(8, 7) :: addr \<times> addr" and ?y = "(10, 9) :: addr \<times> addr"
  have "?T \<noteq> Leaf" "?x = min_of ?T" "rsFeed parted_rss (snd ?x) = Some (home_feed 1 90)" "\<not> rsStop parted_rss"
    and "80 = re_now ?e (rsTick parted_rss)" "rf_nextpoll (home_feed 1 90) \<le> 80 + 15" "re_now ?e (rsTick parted_rss + 1) < 80 + 45"
    and "is_time (80 + 60)" "?y \<in> set_tree ?T" "snd ?y \<noteq> snd ?x" "rsFeed parted_rss (snd ?y) = Some (home_feed 2 100)"
    and "is_time (rf_nextpoll (home_feed 2 100))" "rf_nextpoll (home_feed 2 100) < 80 + 60"
    by (simp_all add: parted_rss_def example_rss_def home_feed_def example_feed_def example_env_def is_time_def)
  moreover have "at_home parted_rss (snd ?x) False"
    by (simp add: at_home_def parted_rss_def home_world_def home_feed_def new_channel_def)
  ultimately show ?thesis using late_join_stops_polling [of parted_rss ?x "home_feed 1 90" 80 ?e ?y "home_feed 2 100" 0 60 no_tm]
    unfolding snd_conv by blast
qed

text \<open>After that feed 1 has the time 140, but still the left place: here in a tree of three.\<close>

definition later_rss :: rss where
  "later_rss = parted_rss\<lparr>rsFeed := [7 \<mapsto> home_feed 1 140, 9 \<mapsto> home_feed 2 100], 
     rsTree := Node Leaf 7 (Node Leaf 9 Leaf), rsActive := Node (Node Leaf (8, 7) Leaf) (10, 9) Leaf\<rparr>"

lemma disabled_feed_stays_witness:
  "\<exists>m s'. rss_disable 1 later_rss = Some (m, s') \<and> \<not> feed_enabled s' 7 \<and> (8, 7) \<in> set_tree (rsActive s')"
proof -
  have "find_feed 1 later_rss = Some (Some 7)"
    by (simp add: find_feed_def later_rss_def parted_rss_def alive_def feed_key_def home_feed_def example_feed_def cmp_of_def id_key_def clamp1_def)
  from disabled_feed_stays [OF this, of "home_feed 1 140" 4 "new_channel\<lparr>ch_channel := ''#c'', ch_joined := False\<rparr>"
      "Node Leaf (8, 7) Leaf" "(10, 9)" Leaf "(8, 7)" "home_feed 2 100"]
  show ?thesis
    by (simp add: later_rss_def parted_rss_def home_feed_def example_feed_def home_world_def example_rss_def polls_alive_def alive_def is_time_def)
qed

end
