(* ===== verification/PluginUi.thy ===== *)
theory PluginUi
  imports DbThread TimeTree
begin

text \<open>
  What the plugins with a thread and a table of their own share: their calls to the menus and
  forms of the user interface, to the database and to their thread.
\<close>

datatype plug_effect =
    PeMenuAdd nat string ptr
  | PeMenuRemove nat "string option"
  | PeMenuSelect string
  | PeQuery query
  | PeKick
  | PeForm string addr
  | PeFormSave addr int string
  | PeCancel
  | PeCleanupFunc
  | PeVersion bool string
  | PeThread bool

text \<open>
  The text of an item in the menu: taken out and put in again when it changes, selected when the
  item was just added from the form.
\<close>

definition menu_effects :: "addr \<Rightarrow> string option \<Rightarrow> string \<Rightarrow> bool \<Rightarrow> plug_effect list" where
  "menu_effects a old m added =
     (case old of
        Some t \<Rightarrow> if m = t then [] else [PeMenuRemove 2 (Some t), PeMenuAdd 2 m (Some a)]
      | None \<Rightarrow> [PeMenuAdd 2 m (Some a)]) @
     (if added then [PeMenuSelect m] else [])"

text \<open>Names with a separator between them.\<close>

fun joined :: "string \<Rightarrow> string list \<Rightarrow> string" where
  "joined sep [] = []"
| "joined sep [s] = s"
| "joined sep (s # t # ss) = s @ sep @ joined sep (t # ss)"

lemma joined_append: "xs \<noteq> [] \<Longrightarrow> ys \<noteq> [] \<Longrightarrow> joined sep (xs @ ys) = joined sep xs @ sep @ joined sep ys"
proof (induction sep xs rule: joined.induct)
  case (2 sep s)
  then show ?case by (cases ys) auto
qed auto

lemma joined_Cons: "joined sep (x # xs) = (if xs = [] then x else x @ sep @ joined sep xs)"
  by (cases xs) auto

end
