(* ===== verification/Follow.thy ===== *)
theory Follow
  imports Sweep
begin

text \<open>
  Items in memory that follow the rows of the database: a reload marks every item as not visited,
  loads the rows (each makes an item or updates the one with its number, and marks it as visited)
  and removes what was not visited. \<open>num\<close> is the number of an item, \<open>info\<close> what a row sets.
\<close>

locale follower = sweeper ok on gone drop_item walk sweep
  for ok :: "'s \<Rightarrow> bool"
    and on :: "'s \<Rightarrow> 'a set"
    and gone :: "'s \<Rightarrow> 'a \<Rightarrow> bool"
    and drop_item :: "'a \<Rightarrow> 's \<Rightarrow> 's"
    and walk :: "'s \<Rightarrow> (bool \<times> 's) option"
    and sweep :: "'s \<Rightarrow> 's option" +
  fixes num :: "'s \<Rightarrow> 'a \<Rightarrow> int"
    and info :: "'s \<Rightarrow> 'a \<Rightarrow> 'v"
    and unvisit :: "'s \<Rightarrow> 's option"
    and load :: "'m \<Rightarrow> 's \<Rightarrow> 's option"
    and fits :: "'m \<Rightarrow> bool"
    and mem :: "'m \<Rightarrow> 'a"
    and rnum :: "'m \<Rightarrow> int"
    and rinfo :: "'m \<Rightarrow> 'v"
  assumes num_inj: "ok s \<Longrightarrow> inj_on (num s) (on s)"
    and drop_keeps: "ok s \<Longrightarrow> a \<in> on s \<Longrightarrow> gone s a \<Longrightarrow> b \<in> on s - {a} \<Longrightarrow>
      num (drop_item a s) b = num s b \<and> info (drop_item a s) b = info s b"
    and unvisit: "ok s \<Longrightarrow> \<exists>s'. unvisit s = Some s' \<and> ok s' \<and> on s' = on s \<and>
      (\<forall>a \<in> on s. gone s' a \<and> num s' a = num s a \<and> info s' a = info s a)"
    and load: "ok s \<Longrightarrow> fits m \<Longrightarrow> mem m \<notin> on s \<Longrightarrow> \<exists>s' b. load m s = Some s' \<and> ok s' \<and> on s' = insert b (on s) \<and>
      (if b \<in> on s then num s b = rnum m else b = mem m) \<and> num s' b = rnum m \<and> info s' b = rinfo m \<and> \<not> gone s' b \<and>
      (\<forall>a \<in> on s - {b}. num s' a = num s a \<and> info s' a = info s a \<and> gone s' a = gone s a)"
begin

text \<open>After some rows: their items are there and visited; the others are as they were.\<close>

definition loaded :: "'s \<Rightarrow> 'm list \<Rightarrow> 's \<Rightarrow> bool" where
  "loaded s ms s' \<longleftrightarrow> ok s' \<and> on s \<subseteq> on s' \<and> on s' \<subseteq> on s \<union> mem ` set ms \<and>
     (\<forall>m \<in> set ms. \<exists>b \<in> on s'. num s' b = rnum m \<and> info s' b = rinfo m \<and> \<not> gone s' b) \<and>
     (\<forall>a \<in> on s'. num s' a \<notin> rnum ` set ms \<longrightarrow> a \<in> on s \<and> gone s' a = gone s a) \<and> (\<forall>a \<in> on s. num s' a = num s a)"

lemma loaded_ok: "loaded s ms s' \<Longrightarrow> ok s'"
  by (simp add: loaded_def)

lemma load_all:
  assumes "ok s" "\<forall>m \<in> set ms. fits m" "distinct (map rnum ms)" "distinct (map mem ms)" "\<forall>m \<in> set ms. mem m \<notin> on s"
  shows "\<exists>s'. foldM load ms s = Some s' \<and> loaded s ms s'"
  using assms
proof (induction ms rule: rev_induct)
  case Nil
  then show ?case by (simp add: loaded_def)
next
  case (snoc m ms)
  then obtain s1 where s1: "foldM load ms s = Some s1" "loaded s ms s1" by auto
  then have l: "ok s1" "on s \<subseteq> on s1" "on s1 \<subseteq> on s \<union> mem ` set ms"
    "\<forall>m \<in> set ms. \<exists>b \<in> on s1. num s1 b = rnum m \<and> info s1 b = rinfo m \<and> \<not> gone s1 b"
    "\<forall>a \<in> on s1. num s1 a \<notin> rnum ` set ms \<longrightarrow> a \<in> on s \<and> gone s1 a = gone s a" "\<forall>a \<in> on s. num s1 a = num s a"
    unfolding loaded_def by blast+
  have fresh: "mem m \<notin> on s1" "rnum m \<notin> rnum ` set ms" using l(3) snoc.prems(3-5) by auto
  from load [OF l(1) _ fresh(1)] snoc.prems(2) obtain s2 b where
    s2: "load m s1 = Some s2" "ok s2" "on s2 = insert b (on s1)" "if b \<in> on s1 then num s1 b = rnum m else b = mem m"
      "num s2 b = rnum m" "info s2 b = rinfo m" "\<not> gone s2 b"
      "\<forall>a \<in> on s1 - {b}. num s2 a = num s1 a \<and> info s2 a = info s1 a \<and> gone s2 a = gone s1 a" by auto
  have same: "num s2 a = num s1 a" if "a \<in> on s1" for a using that s2(4,5,8) by (cases "a = b") auto
  have other: "b \<noteq> c" if "c \<in> on s1" "num s1 c \<in> rnum ` set ms" for c using that s2(4) fresh(2) by metis
  have 1: "on s2 \<subseteq> on s \<union> mem ` set (ms @ [m])" using s2(3,4) l(3) by (auto split: if_splits)
  have 2: "\<exists>c \<in> on s2. num s2 c = rnum k \<and> info s2 c = rinfo k \<and> \<not> gone s2 c" if k: "k \<in> set (ms @ [m])" for k
  proof (cases "k = m")
    case True
    with s2(3,5-7) show ?thesis by blast
  next
    case False
    with k l(4) obtain c where c: "c \<in> on s1" "num s1 c = rnum k" "info s1 c = rinfo k" "\<not> gone s1 c" "k \<in> set ms" by fastforce
    with other [of c] have "c \<in> on s1 - {b}" by auto
    with c s2(3,8) show ?thesis by (intro bexI [of _ c]) auto
  qed
  have 3: "a \<in> on s \<and> gone s2 a = gone s a" if a: "a \<in> on s2" "num s2 a \<notin> rnum ` set (ms @ [m])" for a
  proof -
    from a s2(3,5) have "a \<in> on s1 - {b}" by auto
    with a l(5) s2(8) show ?thesis by auto
  qed
  have 4: "\<forall>a \<in> on s. num s2 a = num s a" using same l(2,6) by auto
  have "loaded s (ms @ [m]) s2"
    unfolding loaded_def
  proof (intro conjI ballI impI)
    show "ok s2" by (rule s2(2))
    show "on s \<subseteq> on s2" using l(2) s2(3) by auto
  qed (use 1 2 3 4 in blast)+
  with s1(1) s2(1) show ?case by (auto simp: foldM_append)
qed

text \<open>Rebalancing between the steps changes nothing of this.\<close>

lemma loaded_cong:
  assumes "loaded s ms s1" "ok s2" "on s2 = on s1" "num s2 = num s1" "info s2 = info s1" "gone s2 = gone s1"
  shows "loaded s ms s2"
  using assms(1,2) unfolding loaded_def assms(3-6) by blast

theorem follows:
  assumes "ok s" "unvisit s = Some s1" "loaded s1 ms s2"
  shows "\<exists>s'. sweep s2 = Some s' \<and> ok s' \<and> (\<lambda>a. (num s' a, info s' a)) ` on s' = (\<lambda>m. (rnum m, rinfo m)) ` set ms \<and>
    on s' \<subseteq> on s \<union> mem ` set ms \<and> (\<forall>a \<in> on s. num s a \<in> rnum ` set ms \<longrightarrow> a \<in> on s' \<and> num s' a = num s a)"
proof -
  from unvisit [OF assms(1)] assms(2) have u: "ok s1" "on s1 = on s" "\<forall>a \<in> on s. gone s1 a \<and> num s1 a = num s a" by auto
  have l: "ok s2" "on s1 \<subseteq> on s2" "on s2 \<subseteq> on s1 \<union> mem ` set ms"
    "\<forall>m \<in> set ms. \<exists>b \<in> on s2. num s2 b = rnum m \<and> info s2 b = rinfo m \<and> \<not> gone s2 b"
    "\<forall>a \<in> on s2. num s2 a \<notin> rnum ` set ms \<longrightarrow> a \<in> on s1 \<and> gone s2 a = gone s1 a" "\<forall>a \<in> on s1. num s2 a = num s1 a"
    using assms(3) unfolding loaded_def by blast+
  have "\<exists>s'. sweep s2 = Some s' \<and> ok s' \<and> on s' = {a \<in> on s2. \<not> gone s2 a} \<and>
      (\<forall>b \<in> on s'. (\<lambda>s a. (num s a, info s a)) s' b = (\<lambda>s a. (num s a, info s a)) s2 b)"
    by (rule sweep_run [OF l(1)]) (use drop_keeps in simp)
  then obtain s' where s': "sweep s2 = Some s'" "ok s'" "on s' = {a \<in> on s2. \<not> gone s2 a}"
    "\<forall>b \<in> on s'. num s' b = num s2 b \<and> info s' b = info s2 b" by auto
  have one: "a = b" if "a \<in> on s2" "b \<in> on s2" "num s2 a = num s2 b" for a b
    using num_inj [OF l(1)] that by (simp add: inj_on_def)
  have vis: "\<not> gone s2 a \<longleftrightarrow> num s2 a \<in> rnum ` set ms" if a: "a \<in> on s2" for a
  proof
    assume "\<not> gone s2 a"
    with a l(5) u show "num s2 a \<in> rnum ` set ms" by auto
  next
    assume "num s2 a \<in> rnum ` set ms"
    then obtain m where m: "m \<in> set ms" "num s2 a = rnum m" by auto
    with l(4) obtain b where "b \<in> on s2" "num s2 b = rnum m" "\<not> gone s2 b" by auto
    with one [OF a] m show "\<not> gone s2 a" by auto
  qed
  have "(\<lambda>a. (num s' a, info s' a)) ` on s' = (\<lambda>m. (rnum m, rinfo m)) ` set ms"
  proof (intro equalityI subsetI)
    fix x assume "x \<in> (\<lambda>a. (num s' a, info s' a)) ` on s'"
    then obtain a where a: "a \<in> on s2" "\<not> gone s2 a" "x = (num s2 a, info s2 a)" using s'(3,4) by auto
    with vis obtain m where m: "m \<in> set ms" "num s2 a = rnum m" by auto
    with l(4) obtain b where "b \<in> on s2" "num s2 b = rnum m" "info s2 b = rinfo m" by auto
    with one [OF a(1)] m a(3) show "x \<in> (\<lambda>m. (rnum m, rinfo m)) ` set ms" by force
  next
    fix x assume "x \<in> (\<lambda>m. (rnum m, rinfo m)) ` set ms"
    then obtain m where m: "m \<in> set ms" "x = (rnum m, rinfo m)" by auto
    with l(4) obtain b where "b \<in> on s2" "num s2 b = rnum m" "info s2 b = rinfo m" "\<not> gone s2 b" by auto
    with s'(3,4) m show "x \<in> (\<lambda>a. (num s' a, info s' a)) ` on s'" by force
  qed
  moreover have "on s' \<subseteq> on s \<union> mem ` set ms" using s'(3) l(3) u(2) by auto
  moreover have "\<forall>a \<in> on s. num s a \<in> rnum ` set ms \<longrightarrow> a \<in> on s' \<and> num s' a = num s a"
  proof (intro ballI impI)
    fix a assume a: "a \<in> on s" "num s a \<in> rnum ` set ms"
    with l(2,6) u(2,3) have n: "a \<in> on s2" "num s2 a = num s a" by auto
    with vis a(2) s'(3) have "a \<in> on s'" by simp
    with n s'(4) show "a \<in> on s' \<and> num s' a = num s a" by simp
  qed
  ultimately show ?thesis using s'(1,2) by blast
qed

end

end
