(* ===== verification/Trac.thy ===== *)
theory Trac
  imports PluginUi Follow Regexp Bot BotCmds DbLoad SchemaUpgrade
begin

text \<open>
  \<open>bot/src/plugins/trac.c\<close>: the Trac setups of channels in a tree by channel number, links to
  tickets and changesets that are mentioned in a channel, the details command, the thread that
  registers the expressions and reloads, the form. Subversion, libmrss, libcurl and PCRE are
  parameters. A setup is an address, and so is the tree item that holds it. Writing or reading past
  the end of a buffer, reading freed memory and \<open>NULL\<close> pointers give \<open>None\<close>.
\<close>

section \<open>Schema and queries\<close>

definition CURRENT_SCHEMA_TRAC :: int where
  "CURRENT_SCHEMA_TRAC = 4"

definition tracSchema :: "string list" where
  "tracSchema = [
     ''CREATE TABLE `plugin_trac` ('' @ nl @ ''  `chanid` int(11) NOT NULL default '' @ qt @ ''0'' @ qt @ '','' @ nl @
       ''  `enabled` INT NOT NULL DEFAULT '' @ qt @ ''1'' @ qt @ '','' @ nl @
       ''  `url` varchar(255) NOT NULL default '' @ qt @ qt @ '','' @ nl @
       ''  `svnUrl` varchar(255) NOT NULL default '' @ qt @ qt @ '','' @ nl @
       ''  `svnUser` varchar(64) NOT NULL default '' @ qt @ qt @ '','' @ nl @
       ''  `svnPasswd` varchar(64) NOT NULL default '' @ qt @ qt @ '','' @ nl @
       ''  PRIMARY KEY  (`chanid`)'' @ nl @ '') TYPE = MyISAM'' @ nl]"

definition tracSchemaUpgrade :: "string list list" where
  "tracSchemaUpgrade = [[],
     [''ALTER TABLE `plugin_trac` ADD `svnUrl` VARCHAR( 255 ) NOT NULL AFTER `url`, ADD `svnUser` VARCHAR( 64 ) '' @
      ''NOT NULL AFTER `svnUrl`, ADD `svnPasswd` VARCHAR( 64 ) NOT NULL AFTER `svnUser`''],
     [''ALTER TABLE `plugin_trac` ADD `enabled` INT NOT NULL DEFAULT '' @ qt @ ''1'' @ qt @ '' AFTER `chanid`''],
     [''ALTER TABLE `plugin_trac` DROP PRIMARY KEY,'' @ nl @ ''ADD PRIMARY KEY ( `chanid` ), DROP `serverid`'']]"

definition tracQueryTable :: "string list" where
  "tracQueryTable = [
     ''SELECT b.serverid, a.chanid, a.url, a.svnUrl, a.svnUser, a.svnPasswd, a.enabled FROM `plugin_trac` AS a '' @
       ''JOIN `channels` as b ON a.`chanid` = b.`chanid` ORDER BY a.`chanid` ASC'',
     ''UPDATE `plugin_trac` SET `chanid` = ?, `url` = ?, `svnUrl` = ?, `svnUser` = ?, `svnPasswd` = ?, '' @
       ''`enabled` = ? WHERE `chanid` = ?'',
     ''INSERT INTO `plugin_trac` ( `chanid`, `url`, `svnUrl`, `svnUser`, `svnPasswd`, `enabled` ) '' @
       ''VALUES ( ?, ?, ?, ?, ?, ? )'']"

section \<open>Data\<close>

text \<open>\<open>tu_svnPool\<close>: whether there is a pool (and the context in it).\<close>

record TracURL_t =
  tu_serverId :: int
  tu_server :: ptr
  tu_chanId :: int
  tu_oldChanId :: int
  tu_channel :: ptr
  tu_url :: string
  tu_svnUrl :: string
  tu_svnUser :: string
  tu_svnPasswd :: string
  tu_svnPool :: bool
  tu_enabled :: bool
  tu_visited :: bool
  tu_modified :: bool
  tu_justAdded :: bool
  tu_menuText :: "string option"

definition new_trac :: TracURL_t where
  "new_trac = \<lparr>tu_serverId = 0, tu_server = None, tu_chanId = 0, tu_oldChanId = 0, tu_channel = None, tu_url = [],
     tu_svnUrl = [], tu_svnUser = [], tu_svnPasswd = [], tu_svnPool = False, tu_enabled = False, tu_visited = False,
     tu_modified = False, tu_justAdded = False, tu_menuText = None\<rparr>"

datatype trac_func = FnTicket | FnChangeset

text \<open>Where the set-up of a Subversion client ends.\<close>

datatype svn_setup = SvnNoCmdline | SvnFailed | SvnReady

text \<open>
  What the libraries answer: compiling and studying a pattern; the set-up of a client for a setup; the
  log entries (revision and properties) of a revision, \<open>None\<close> for an error; the title and the
  number of items of a feed; the result of a transfer and the pieces that it delivered; the byte
  after what was received in the memory of a page.
\<close>

record 'r trac_env =
  te_compile :: "string \<Rightarrow> 'r option"
  te_study :: "'r \<Rightarrow> 'r option"
  te_svn :: "addr \<Rightarrow> svn_setup"
  te_log :: "string \<Rightarrow> int \<Rightarrow> (int \<times> (string \<rightharpoonup> string)) list option"
  te_rss :: "string \<Rightarrow> (string option \<times> nat) option"
  te_page :: "string \<Rightarrow> bool \<times> string list"
  te_junk :: char

record 'r trac =
  trItem :: "addr \<rightharpoonup> TracURL_t"
  trTree :: "addr tree"
  trRegexp :: "string option"
  trRegs :: "('r, trac_func) Regexp_t list"
  trCmdInit :: bool
  trCmds :: cmd_tree
  trStop :: bool
  trNew :: ptr
  trW :: world
  trOut :: "plug_effect list"

definition tr_emit :: "plug_effect list \<Rightarrow> 'r trac \<Rightarrow> 'r trac" where
  "tr_emit es s = s\<lparr>trOut := trOut s @ es\<rparr>"

lemma tr_emit_simps [simp]:
  "trItem (tr_emit es s) = trItem s" "trTree (tr_emit es s) = trTree s" "trRegexp (tr_emit es s) = trRegexp s"
  "trRegs (tr_emit es s) = trRegs s" "trCmdInit (tr_emit es s) = trCmdInit s" "trCmds (tr_emit es s) = trCmds s"
  "trStop (tr_emit es s) = trStop s" "trNew (tr_emit es s) = trNew s" "trW (tr_emit es s) = trW s"
  "(tr_emit es s)\<lparr>trItem := h\<rparr> = tr_emit es (s\<lparr>trItem := h\<rparr>)" "(tr_emit es s)\<lparr>trTree := t\<rparr> = tr_emit es (s\<lparr>trTree := t\<rparr>)"
  "tr_emit fs (tr_emit es s) = tr_emit (es @ fs) s" "tr_emit [] s = s"
  by (simp_all add: tr_emit_def)

definition upd_trac :: "addr \<Rightarrow> (TracURL_t \<Rightarrow> TracURL_t) \<Rightarrow> 'r trac \<Rightarrow> 'r trac option" where
  "upd_trac a f s = do { d \<leftarrow> trItem s a; Some (s\<lparr>trItem := (trItem s)(a \<mapsto> f d)\<rparr>) }"

definition trac_key :: "'r trac \<Rightarrow> addr \<Rightarrow> BTreeKey" where
  "trac_key s a = id_key (case trItem s a of Some t \<Rightarrow> tu_chanId t | None \<Rightarrow> 0)"

definition find_trac :: "int \<Rightarrow> 'r trac \<Rightarrow> ptr option" where
  "find_trac i s =
     (if alive (trItem s) (trTree s) then Some (bt_find (cmp_of KeyCompareInt) (trac_key s) (id_key i) (trTree s)) else None)"

definition add_trac :: "addr \<Rightarrow> 'r trac \<Rightarrow> 'r trac" where
  "add_trac a s = s\<lparr>trTree := bt_insert (cmp_of KeyCompareInt) (trac_key s) a (trTree s)\<rparr>"

section \<open>Loading\<close>

definition tracSvnInitialize :: "svn_setup \<Rightarrow> TracURL_t \<Rightarrow> bool \<times> TracURL_t" where
  "tracSvnInitialize r t =
     (case r of
        SvnNoCmdline \<Rightarrow> (False, t)
      | SvnFailed \<Rightarrow> (False, t\<lparr>tu_svnPool := True\<rparr>)
      | SvnReady \<Rightarrow> (True, t\<lparr>tu_svnPool := True\<rparr>))"

definition trac_settings :: "db_row \<Rightarrow> TracURL_t \<Rightarrow> TracURL_t option" where
  "trac_settings row t = do {
     server \<leftarrow> col_int row 0;
     chan \<leftarrow> col_int row 1;
     url \<leftarrow> col row 2;
     svnUrl \<leftarrow> col row 3;
     svnUser \<leftarrow> col row 4;
     svnPasswd \<leftarrow> col row 5;
     enabled \<leftarrow> col_int row 6;
     Some (t\<lparr>tu_serverId := server, tu_chanId := chan, tu_url := url, tu_svnUrl := svnUrl, tu_svnUser := svnUser,
       tu_svnPasswd := svnPasswd, tu_enabled := (enabled \<noteq> 0), tu_visited := True, tu_modified := False\<rparr>)
   }"

definition trac_menu_text :: "nat \<Rightarrow> TracURL_t \<Rightarrow> string" where
  "trac_menu_text digits t = snprintf (length (tu_url t) + 20) (fmt_wd digits (tu_chanId t) @ '' - '' @ tu_url t)"

text \<open>The Subversion client: dropped when the setup is disabled, set up when it is enabled or new.\<close>

definition trac_svn :: "svn_setup \<Rightarrow> bool \<Rightarrow> bool \<Rightarrow> TracURL_t \<Rightarrow> TracURL_t" where
  "trac_svn r found oldEnabled t =
     (let t = (if found \<and> oldEnabled \<and> \<not> tu_enabled t then t\<lparr>tu_svnPool := False\<rparr> else t) in
      if (\<not> found \<or> \<not> oldEnabled) \<and> tu_enabled t \<and> tu_svnUrl t \<noteq> []
      then (case tracSvnInitialize r t of (ok, t) \<Rightarrow> if ok then t else t\<lparr>tu_svnPool := False\<rparr>)
      else t)"

text \<open>A row, with what \<open>malloc\<close> gives for a new setup.\<close>

definition load_trac_row :: "'r trac_env \<Rightarrow> nat \<Rightarrow> addr \<times> db_row \<Rightarrow> 'r trac \<Rightarrow> 'r trac option" where
  "load_trac_row env digits memrow s = (case memrow of (new, row) \<Rightarrow> do {
     chanid \<leftarrow> col_int row 1;
     item \<leftarrow> find_trac chanid s;
     let found = (item \<noteq> None);
         a = (case item of Some a \<Rightarrow> a | None \<Rightarrow> new);
         s = (if found then s else s\<lparr>trItem := (trItem s)(a \<mapsto> new_trac)\<rparr>) in do {
     old \<leftarrow> trItem s a;
     t \<leftarrow> trac_settings row old;
     let m = trac_menu_text digits t;
         s = tr_emit (menu_effects a (tu_menuText t) m (tu_justAdded t)) s;
         t = trac_svn (te_svn env a) found (tu_enabled old) (t\<lparr>tu_menuText := Some m, tu_justAdded := False\<rparr>);
         t = t\<lparr>tu_oldChanId := tu_chanId t\<rparr>;
         s = s\<lparr>trItem := (trItem s)(a \<mapsto> t)\<rparr> in
     Some (if found then s else add_trac a s) }
   })"

definition result_load_channel_regexp :: "'r trac_env \<Rightarrow> (addr \<times> db_row) list \<Rightarrow> 'r trac \<Rightarrow> 'r trac option" where
  "result_load_channel_regexp env rows s =
     (if rows = [] then Some (s\<lparr>trRegexp := None\<rparr>)
      else do {
        s \<leftarrow> foldM (load_trac_row env (menu_digits (length rows))) rows s;
        Some (s\<lparr>trTree := bt_rebalance (trTree s)\<rparr>)
      })"

definition db_load_channel_regexp :: "'r trac_env \<Rightarrow> (addr \<times> db_row) list \<Rightarrow> 'r trac \<Rightarrow> 'r trac option" where
  "db_load_channel_regexp env rows s = result_load_channel_regexp env rows (tr_emit [PeQuery (0, None, True)] s)"

section \<open>Reloading\<close>

fun tracUnvisitTree :: "addr tree \<Rightarrow> 'r trac \<Rightarrow> 'r trac option" where
  "tracUnvisitTree Leaf s = Some s"
| "tracUnvisitTree (Node l a r) s = do {
     s \<leftarrow> tracUnvisitTree l s;
     s \<leftarrow> upd_trac a (\<lambda>t. t\<lparr>tu_visited := False\<rparr>) s;
     tracUnvisitTree r s
   }"

definition drop_trac :: "addr \<Rightarrow> 'r trac \<Rightarrow> 'r trac" where
  "drop_trac a s = tr_emit [PeMenuRemove 2 (Option.bind (trItem s a) tu_menuText)]
     (s\<lparr>trTree := bt_remove a (trTree s), trItem := (trItem s)(a := None)\<rparr>)"

fun tracFlushUnvisited :: "addr tree \<Rightarrow> 'r trac \<Rightarrow> (bool \<times> 'r trac) option" where
  "tracFlushUnvisited Leaf s = Some (False, s)"
| "tracFlushUnvisited (Node l a r) s = do {
     (b, s) \<leftarrow> tracFlushUnvisited l s;
     if b then Some (True, s)
     else do {
       t \<leftarrow> trItem s a;
       if \<not> tu_visited t then Some (True, drop_trac a s) else tracFlushUnvisited r s
     }
   }"

partial_function (option) trac_flush_loop :: "'r trac \<Rightarrow> 'r trac option" where
  "trac_flush_loop s = do {
     (b, s) \<leftarrow> tracFlushUnvisited (trTree s) s;
     if b then trac_flush_loop s else Some s
   }"

declare trac_flush_loop.simps [code]

definition ticketRegexp :: string where
  "ticketRegexp = ''(?i)(?:'' @ [CHR 0x5C] @ ''B|'' @ [CHR 0x5C] @ ''s|^)'' @ [CHR 0x5C] @ ''#('' @ [CHR 0x5C] @ ''d+)(?:'' @ [CHR 0x5C] @ ''s|$)''"

definition changesetRegexp :: string where
  "changesetRegexp = ''(?i)(?:'' @ [CHR 0x5C] @ ''B|'' @ [CHR 0x5C] @ ''s|^)'' @ [CHR 0x5C] @ ''[('' @ [CHR 0x5C] @ ''d+)'' @ [CHR 0x5C] @
     '']('' @ ''?:'' @ [CHR 0x5C] @ ''s|$)''"

definition trac_unregister :: "'r trac \<Rightarrow> 'r trac" where
  "trac_unregister s =
     (case trRegexp s of
        None \<Rightarrow> s
      | Some re \<Rightarrow> s\<lparr>trRegs := regexp_remove (Some re) changesetRegexp (regexp_remove (Some re) ticketRegexp (trRegs s)),
          trRegexp := None\<rparr>)"

definition trac_reload :: "'r trac_env \<Rightarrow> (addr \<times> db_row) list \<Rightarrow> 'r trac \<Rightarrow> 'r trac option" where
  "trac_reload env rows s = do {
     s \<leftarrow> tracUnvisitTree (trTree s) s;
     s \<leftarrow> db_load_channel_regexp env rows s;
     s \<leftarrow> trac_flush_loop s;
     Some (trac_unregister (s\<lparr>trTree := bt_rebalance (trTree s)\<rparr>))
   }"

section \<open>The thread\<close>

fun tracRecurseBuildChannelRegexp :: "addr tree \<Rightarrow> 'r trac \<Rightarrow> (string option \<times> 'r trac) option" where
  "tracRecurseBuildChannelRegexp Leaf s = Some (None, s)"
| "tracRecurseBuildChannelRegexp (Node l a r) s = do {
     (message, s) \<leftarrow> tracRecurseBuildChannelRegexp l s;
     t \<leftarrow> trItem s a;
     sv \<leftarrow> FindServerNum (tu_serverId t) (trW s);
     ch \<leftarrow> FindChannelNum sv (tu_chanId t) (trW s);
     s \<leftarrow> upd_trac a (\<lambda>t. t\<lparr>tu_server := sv, tu_channel := ch\<rparr>) s;
     c \<leftarrow> ch;
     chan \<leftarrow> wChans (trW s) c;
     let message = (case message of None \<Rightarrow> ch_fullspec chan | Some m \<Rightarrow> m @ ''|'' @ ch_fullspec chan) in do {
     (submsg, s) \<leftarrow> tracRecurseBuildChannelRegexp r s;
     Some (Some (case submsg of None \<Rightarrow> message | Some m \<Rightarrow> message @ ''|'' @ m), s) }
   }"

definition channel_regexp :: "string \<Rightarrow> string" where
  "channel_regexp specs = ''(?i)('' @ specs @ '')''"

text \<open>
  Before the thread waits: the expressions for the channels are registered. \<open>False\<close>: there is no
  setup, the thread ends. \<open>mem\<close>: what \<open>malloc\<close> gives for the command.
\<close>

definition trac_setup :: "'r trac_env \<Rightarrow> (addr \<times> addr) option \<Rightarrow> nat \<Rightarrow> BotCmdHelpFunc option \<Rightarrow> 'r trac \<Rightarrow> (bool \<times> 'r trac) option" where
  "trac_setup env mem f help s =
     (if trTree s = Leaf then Some (False, s)
      else do {
        (m, s) \<leftarrow> tracRecurseBuildChannelRegexp (trTree s) s;
        specs \<leftarrow> m;
        let re = channel_regexp specs;
            add = (\<lambda>p fn. regexp_add (te_compile env) (te_study env) (Some re) p (Some fn));
            s = s\<lparr>trRegexp := Some re, trRegs := add changesetRegexp FnChangeset (add ticketRegexp FnTicket (trRegs s))\<rparr> in
        Some (True, if trCmdInit s then s
          else s\<lparr>trCmds := botCmd_add mem ''trac'' (Some (FnPlugin f)) help 0 (trCmds s), trCmdInit := True\<rparr>)
      })"

text \<open>
  The rounds that the thread makes: whether it is to stop when it wakes up, and the rows that it reads
  then. A round in which the channels are not loaded only sleeps.
\<close>

fun trac_thread ::
    "'r trac_env \<Rightarrow> (addr \<times> addr) option \<Rightarrow> nat \<Rightarrow> BotCmdHelpFunc option \<Rightarrow> (bool \<times> (addr \<times> db_row) list) list \<Rightarrow> 'r trac \<Rightarrow> 'r trac option" where
  "trac_thread env mem f help [] s = Some s"
| "trac_thread env mem f help ((stop, rows) # rounds) s =
     (if trStop s then Some s
      else if \<not> wLoaded (trW s) then trac_thread env mem f help rounds (s\<lparr>trStop := stop\<rparr>)
      else do {
        (go, s) \<leftarrow> trac_setup env mem f help s;
        if \<not> go then Some s
        else do {
          let s = s\<lparr>trStop := stop\<rparr> in do {
          s \<leftarrow> (if stop then Some s else trac_reload env rows s);
          trac_thread env mem f help rounds s } }
      })"

definition tracSighup :: "'r trac \<Rightarrow> 'r trac" where
  "tracSighup s = tr_emit [PeKick] s"

section \<open>Links in the channels\<close>

text \<open>The link is printed into a buffer with room for \<open>room\<close> characters beside address and twice the number.\<close>

definition trac_link :: "nat \<Rightarrow> string \<Rightarrow> string \<Rightarrow> string \<Rightarrow> string \<Rightarrow> string \<Rightarrow> string option" where
  "trac_link room before between path url n =
     (let m = before @ n @ between @ '' URL: '' @ url @ path @ n in
      if length m < room + 2 * length n + length url then Some m else None)"

definition regexp_link ::
    "(string \<Rightarrow> string \<Rightarrow> string option) \<Rightarrow> int \<Rightarrow> addr \<Rightarrow> addr \<Rightarrow> string \<Rightarrow> int list \<Rightarrow> int \<Rightarrow> 'r trac \<Rightarrow> 'r trac option" where
  "regexp_link link now server channel msg ov n s = do {
     ch \<leftarrow> wChans (trW s) channel;
     item \<leftarrow> find_trac (ch_channelId ch) s;
     case item of
       None \<Rightarrow> Some s
     | Some a \<Rightarrow> do {
         t \<leftarrow> trItem s a;
         if \<not> tu_enabled t then Some s
         else case regexp_substring msg ov n 1 of
           None \<Rightarrow> Some s
         | Some x \<Rightarrow> do {
             m \<leftarrow> link (tu_url t) x;
             map_option (\<lambda>w. s\<lparr>trW := w\<rparr>) (LoggedChannelMessage now server channel m (trW s))
           }
       }
   }"

definition regexpFuncTicket :: "int \<Rightarrow> addr \<Rightarrow> addr \<Rightarrow> string \<Rightarrow> int list \<Rightarrow> int \<Rightarrow> 'r trac \<Rightarrow> 'r trac option" where
  "regexpFuncTicket = regexp_link (trac_link 28 ''Trac: Ticket #'' [] ''/ticket/'')"

definition regexpFuncChangeset :: "int \<Rightarrow> addr \<Rightarrow> addr \<Rightarrow> string \<Rightarrow> int list \<Rightarrow> int \<Rightarrow> 'r trac \<Rightarrow> 'r trac option" where
  "regexpFuncChangeset = regexp_link (trac_link 36 ''Trac: Changeset ['' '']'' ''/changeset/'')"

end
