(* ===== verification/TracDetails.thy ===== *)
theory TracDetails
  imports Trac NamedTrees
begin

text \<open>
  The details command of \<open>bot/src/plugins/trac.c\<close>: the feed and the table (CSV) of a ticket, the log
  entry of a changeset; then the form and loading and unloading the plugin.
\<close>

section \<open>Reading a table\<close>

text \<open>
  \<open>strchr\<close> and \<open>strlen\<close> in the memory from a pointer on: \<open>None\<close> when they run over its end,
  \<open>Some None\<close> when the string ends before.
\<close>

fun mem_chr :: "char \<Rightarrow> string \<Rightarrow> nat option option" where
  "mem_chr c [] = None"
| "mem_chr c (x # xs) =
     (if x = c then Some (Some 0) else if x = CHR 0x00 then Some None else map_option (map_option Suc) (mem_chr c xs))"

fun mem_len :: "string \<Rightarrow> nat option" where
  "mem_len [] = None"
| "mem_len (x # xs) = (if x = CHR 0x00 then Some 0 else map_option Suc (mem_len xs))"

text \<open>A field up to a comma or the end of the string, and the pointer one character after that.\<close>

definition csv_field :: "string \<Rightarrow> (string \<times> string) option" where
  "csv_field p = do {
     ch \<leftarrow> mem_chr (CHR '','') p;
     len \<leftarrow> (case ch of Some n \<Rightarrow> Some n | None \<Rightarrow> mem_len p);
     Some (take len p, drop (len + 1) p)
   }"

type_synonym csv_tree = "(string \<times> string) tree"

lemma csv_field_shorter: "csv_field p = Some (f, q) \<Longrightarrow> p \<noteq> [] \<and> length q < length p"
  by (cases p) (auto simp: csv_field_def bind_eq_Some_conv)

text \<open>Both pointers are read until one of them is at the end of a string.\<close>

function csv_fields :: "string \<Rightarrow> string \<Rightarrow> csv_tree \<Rightarrow> csv_tree option" where
  "csv_fields headers data t =
     (case headers of
        [] \<Rightarrow> None
      | h # _ \<Rightarrow>
          if h = CHR 0x00 then Some t
          else case data of
            [] \<Rightarrow> None
          | d # _ \<Rightarrow>
              if d = CHR 0x00 then Some t
              else do {
                (header, headers) \<leftarrow> csv_field headers;
                (field, data) \<leftarrow> csv_field data;
                csv_fields headers data (name_add fst (header, field) t)
              })"
  by pat_completeness auto
termination
  by (relation "measure (\<lambda>(headers, data, t). length headers)") (auto dest: csv_field_shorter)

declare csv_fields.simps [simp del]

text \<open>
  \<open>page\<close> is the memory of the page. The line breaks after the headers and after the data become
  ends of strings.
\<close>

definition tracTicketCsv :: "string \<Rightarrow> csv_tree option" where
  "tracTicketCsv page = do {
     i \<leftarrow> mem_chr (CHR 0x0A) page;
     i \<leftarrow> i;
     let data = drop (i + 1) page in do {
     j \<leftarrow> mem_chr (CHR 0x0A) data;
     j \<leftarrow> j;
     let data = data[j := CHR 0x00] in
     map_option bt_rebalance (csv_fields (take i page @ [CHR 0x00] @ data) data Leaf) }
   }"

section \<open>Tickets and changesets\<close>

text \<open>Every piece that arrives replaces the one before.\<close>

definition tracMemorizeFile :: "string \<Rightarrow> string option \<Rightarrow> string option" where
  "tracMemorizeFile piece page = Some piece"

definition fetch_page :: "'r trac_env \<Rightarrow> string \<Rightarrow> string option" where
  "fetch_page env url = (case te_page env url of (ok, ps) \<Rightarrow>
     let page = fold tracMemorizeFile ps None in if ok then page else None)"

definition ticket_items :: "string list" where
  "ticket_items = [''Reporter'', ''Owner'', ''Type'', ''Status'', ''Priority'', ''Milestone'', ''Component'', ''Version'',
     ''Severity'', ''Resolution'']"

definition ticket_field :: "csv_tree \<Rightarrow> string \<Rightarrow> string" where
  "ticket_field t i =
     (case name_find fst i t of
        None \<Rightarrow> []
      | Some (h, d) \<Rightarrow> if d = [] then [] else '', '' @ i @ '': '' @ d)"

definition tracDetailsTicket :: "'r trac_env \<Rightarrow> TracURL_t \<Rightarrow> int \<Rightarrow> string option" where
  "tracDetailsTicket env t number =
     (let url = tu_url t @ ''/ticket/'' @ fmt_d number @ ''?format='' in
      case te_rss env (url @ ''rss'') of
        None \<Rightarrow> Some (''No data for ticket #'' @ fmt_d number)
      | Some (title, comments) \<Rightarrow> do {
          title \<leftarrow> title;
          csv \<leftarrow> (case fetch_page env (url @ ''csv'') of
                   None \<Rightarrow> Some Leaf
                 | Some page \<Rightarrow> tracTicketCsv (page @ [te_junk env]));
          Some (title @ '', Comments: '' @ fmt_d (int comments) @ concat (map (ticket_field csv) ticket_items))
        })"

text \<open>A missing property is a \<open>NULL\<close> pointer.\<close>

definition tracSvnReceiver :: "int \<times> (string \<rightharpoonup> string) \<Rightarrow> string option" where
  "tracSvnReceiver entry = (case entry of (revision, revprops) \<Rightarrow> do {
     author \<leftarrow> revprops ''author'';
     date \<leftarrow> revprops ''date'';
     message \<leftarrow> revprops ''message'';
     let m = ''['' @ fmt_d revision @ ''] Author: '' @ author @ ''  Date: '' @ date @ ''  Message: '' @ message in
     if length m < 42 + length author + length date + length message
     then Some (map (\<lambda>c. if c = CHR 0x0A \<or> c = CHR 0x0D then CHR '' '' else c) m) else None
   })"

text \<open>The last entry that is received; no message when there is none.\<close>

definition tracDetailsChangeset :: "'r trac_env \<Rightarrow> TracURL_t \<Rightarrow> int \<Rightarrow> string option option" where
  "tracDetailsChangeset env t number =
     (case te_log env (tu_svnUrl t) number of
        None \<Rightarrow> Some (Some (''No data for changeset ['' @ fmt_d number @ '']''))
      | Some es \<Rightarrow> foldM (\<lambda>e _. map_option Some (tracSvnReceiver e)) es None)"

text \<open>
  What is asked for: \<open>#\<close> and a number, or a number in brackets. The outer option is a fault, the inner
  one the message. In a private message a word of another form leads to the name of the channel,
  which is freed by then: \<open>private\<close>.
\<close>

definition trac_details :: "'r trac_env \<Rightarrow> bool \<Rightarrow> TracURL_t \<Rightarrow> string \<Rightarrow> string option option" where
  "trac_details env private t which =
     (if which \<noteq> [] \<and> hd which = CHR ''#'' then
        (let number = atoi (tl which) in
         if number = 0 then Some (Some ''Can't fetch details for #0 or non-numeric'')
         else map_option Some (tracDetailsTicket env t number))
      else if which \<noteq> [] \<and> hd which = CHR ''['' \<and> last which = CHR '']'' then
        (let number = atoi (butlast (tl which)) in
         if number = 0 then Some (Some ''Can't fetch logs for [0] or non-numeric'')
         else if \<not> tu_svnPool t then Some (Some ''SVN Repository not configured!'')
         else tracDetailsChangeset env t number)
      else if private then None else Some None)"

text \<open>The channel of the command, or the one that is named after what is asked for.\<close>

definition trac_channel :: "addr \<Rightarrow> ptr \<Rightarrow> string option \<Rightarrow> 'r trac \<Rightarrow> ptr option" where
  "trac_channel server channel line s =
     (case channel of
        Some c \<Rightarrow> Some (Some c)
      | None \<Rightarrow>
          (case fst (CommandLineParse line) of
             None \<Rightarrow> Some None
           | Some name \<Rightarrow> FindChannel (Some server) name (trW s)))"

definition botCmdTrac :: "'r trac_env \<Rightarrow> int \<Rightarrow> addr \<Rightarrow> ptr \<Rightarrow> string \<Rightarrow> string option \<Rightarrow> 'r trac \<Rightarrow> 'r trac option" where
  "botCmdTrac env now server channel who msg s =
     (case CommandLineParse msg of
        (None, _) \<Rightarrow> Some s
      | (Some command, line) \<Rightarrow>
          if command \<noteq> ''details'' then Some s
          else case CommandLineParse line of
            (None, _) \<Rightarrow> Some s
          | (Some which, line) \<Rightarrow> do {
              c \<leftarrow> trac_channel server channel line s;
              case c of
                None \<Rightarrow> Some s
              | Some c \<Rightarrow> do {
                  ch \<leftarrow> wChans (trW s) c;
                  item \<leftarrow> find_trac (ch_channelId ch) s;
                  case item of
                    None \<Rightarrow> Some s
                  | Some a \<Rightarrow> do {
                      t \<leftarrow> trItem s a;
                      if \<not> tu_enabled t then Some s
                      else do {
                        m \<leftarrow> trac_details env (channel = None) t which;
                        case m of
                          None \<Rightarrow> Some s
                        | Some m \<Rightarrow> map_option (\<lambda>w. s\<lparr>trW := w\<rparr>)
                            (case channel of
                               Some c \<Rightarrow> LoggedChannelMessage now server c m (trW s)
                             | None \<Rightarrow> tx_msg server TX_PRIVMSG (Some who) (Some m) (trW s))
                      }
                    }
                }
            })"

section \<open>The form\<close>

definition trac_binds :: "TracURL_t \<Rightarrow> MYSQL_BIND list" where
  "trac_binds t =
     [bind_long (tu_chanId t), bind_text (tu_url t), bind_text (tu_svnUrl t), bind_text (tu_svnUser t),
      bind_text (tu_svnPasswd t), bind_long (if tu_enabled t then 1 else 0)]"

text \<open>A new setup is taken out of the tree and put back under the number that the form gave it.\<close>

definition db_update_tracitem :: "addr \<Rightarrow> 'r trac \<Rightarrow> 'r trac option" where
  "db_update_tracitem a s = do {
     t \<leftarrow> trItem s a;
     if trNew s = Some a then do {
       s \<leftarrow> upd_trac a (\<lambda>t. t\<lparr>tu_justAdded := True\<rparr>) (tr_emit [PeQuery (2, Some (trac_binds t), True)] s);
       let s = add_trac a (s\<lparr>trTree := bt_remove a (trTree s)\<rparr>) in
       Some (tr_emit [PeCancel] (s\<lparr>trTree := bt_rebalance (trTree s), trNew := None\<rparr>)) }
     else Some (tr_emit [PeQuery (1, Some (trac_binds t @ [bind_long (tu_oldChanId t)]), False)] s)
   }"

definition tracSaveFunc :: "addr \<Rightarrow> int \<Rightarrow> string \<Rightarrow> 'r trac \<Rightarrow> 'r trac option" where
  "tracSaveFunc a index text s =
     (if index = -1 then map_option tracSighup (db_update_tracitem a s)
      else upd_trac a (\<lambda>t. t\<lparr>tu_modified := True\<rparr>) (tr_emit [PeFormSave a index text] s))"

definition cursesTracRevert :: "addr \<Rightarrow> 'r trac \<Rightarrow> 'r trac" where
  "cursesTracRevert a s = tr_emit [PeForm ''revert'' a] s"

definition cursesTracDisplay :: "addr \<Rightarrow> 'r trac \<Rightarrow> 'r trac option" where
  "cursesTracDisplay a s = map_option (tr_emit [PeForm ''display'' a]) (upd_trac a (\<lambda>t. t\<lparr>tu_oldChanId := tu_chanId t\<rparr>) s)"

definition cursesTracNew :: "addr \<Rightarrow> 'r trac \<Rightarrow> 'r trac option" where
  "cursesTracNew a s =
     (let s = add_trac a (s\<lparr>trItem := (trItem s)(a \<mapsto> new_trac\<lparr>tu_chanId := -1\<rparr>), trNew := Some a\<rparr>) in
      cursesTracDisplay a (tr_emit [PeCleanupFunc] (s\<lparr>trTree := bt_rebalance (trTree s)\<rparr>)))"

text \<open>The pointer to the new setup keeps its value.\<close>

definition cursesTracCleanup :: "'r trac \<Rightarrow> 'r trac option" where
  "cursesTracCleanup s = do {
     item \<leftarrow> find_trac (-1) s;
     Some (case item of
             None \<Rightarrow> s
           | Some a \<Rightarrow> s\<lparr>trTree := bt_rebalance (bt_remove a (trTree s)), trItem := (trItem s)(a := None)\<rparr>)
   }"

section \<open>Loading and unloading the plugin\<close>

definition trac_initialize :: "'r trac_env \<Rightarrow> (addr \<times> db_row) list \<Rightarrow> string \<Rightarrow> string \<Rightarrow> 'r trac \<Rightarrow> 'r trac option" where
  "trac_initialize env rows svnVersion curlVersion s =
     map_option (tr_emit [PeThread True])
       (db_load_channel_regexp env rows
          (tr_emit [PeVersion True svnVersion, PeVersion True curlVersion, PeMenuAdd 1 ''Trac'' None,
             PeMenuAdd 2 ''New Trac Setup'' None] (s\<lparr>trTree := Leaf\<rparr>)))"

partial_function (option) trac_free_items :: "'r trac \<Rightarrow> 'r trac option" where
  "trac_free_items s =
     (case trTree s of
        Leaf \<Rightarrow> Some s
      | Node l a r \<Rightarrow> do {
          t \<leftarrow> trItem s a;
          trac_free_items (drop_trac a s)
        })"

declare trac_free_items.simps [code]

text \<open>The thread never holds the shutdown mutex, so nothing waits for it to end.\<close>

definition trac_shutdown :: "'r trac \<Rightarrow> 'r trac option" where
  "trac_shutdown s =
     (let s = (if trCmdInit s then s\<lparr>trCmds := botCmd_remove ''trac'' (trCmds s)\<rparr> else s);
          s = trac_unregister (tr_emit [PeVersion False ''libsvn'', PeVersion False ''CURL''] s) in
      map_option (tr_emit [PeMenuRemove 2 (Some ''New Trac Setup''), PeMenuRemove 1 (Some ''Trac''), PeThread False])
        (trac_free_items (tr_emit [PeKick] (s\<lparr>trStop := True\<rparr>))))"

end
