(* ===== verification/TracReload.thy ===== *)
theory TracReload
  imports TracDetails
begin

text \<open>
  What the reload of the Trac setups and the thread of \<open>bot/src/plugins/trac.c\<close> achieve: the setups
  follow the database, and the expressions follow the setups.
\<close>

section \<open>Well-formed setups\<close>

definition trac_on :: "'r trac \<Rightarrow> addr set" where
  "trac_on s = set_tree (trTree s)"

definition trac_gone :: "'r trac \<Rightarrow> addr \<Rightarrow> bool" where
  "trac_gone s a \<longleftrightarrow> (case trItem s a of Some t \<Rightarrow> \<not> tu_visited t | None \<Rightarrow> False)"

definition trac_num :: "'r trac \<Rightarrow> addr \<Rightarrow> int" where
  "trac_num s a = (case trItem s a of Some t \<Rightarrow> tu_chanId t | None \<Rightarrow> 0)"

definition settings_trac :: "TracURL_t \<Rightarrow> int \<times> string list \<times> bool" where
  "settings_trac t = (tu_serverId t, [tu_url t, tu_svnUrl t, tu_svnUser t, tu_svnPasswd t], tu_enabled t)"

definition trac_info :: "'r trac \<Rightarrow> addr \<Rightarrow> (int \<times> string list \<times> bool) option" where
  "trac_info s a = map_option settings_trac (trItem s a)"

definition trac_ok :: "'r trac \<Rightarrow> bool" where
  "trac_ok s \<longleftrightarrow> bt_inv (cmp_of KeyCompareInt) small_int (trac_key s) (trTree s) \<and>
     (\<forall>a \<in> trac_on s. \<exists>t. trItem s a = Some t \<and> small_id (tu_chanId t))"

lemma trac_key_num: "trac_key s a = id_key (trac_num s a)"
  by (simp add: trac_key_def trac_num_def)

lemma trac_okD:
  assumes "trac_ok s"
  shows "bt_inv (cmp_of KeyCompareInt) small_int (trac_key s) (trTree s)" "alive (trItem s) (trTree s)"
    "a \<in> trac_on s \<Longrightarrow> \<exists>t. trItem s a = Some t \<and> small_id (tu_chanId t) \<and> trac_num s a = tu_chanId t"
proof -
  show "bt_inv (cmp_of KeyCompareInt) small_int (trac_key s) (trTree s)" using assms by (simp add: trac_ok_def)
  show "alive (trItem s) (trTree s)" using assms by (fastforce simp: trac_ok_def alive_def trac_on_def)
  show "a \<in> trac_on s \<Longrightarrow> \<exists>t. trItem s a = Some t \<and> small_id (tu_chanId t) \<and> trac_num s a = tu_chanId t"
    using assms by (fastforce simp: trac_ok_def trac_num_def)
qed

text \<open>Only the items and their tree matter.\<close>

lemma trac_cong:
  assumes "trItem s' = trItem s" "trTree s' = trTree s \<or> trTree s' = bt_rebalance (trTree s)"
  shows "trac_ok s' = trac_ok s" "trac_on s' = trac_on s" "trac_gone s' = trac_gone s" "trac_num s' = trac_num s" "trac_info s' = trac_info s"
proof -
  show on: "trac_on s' = trac_on s" using assms(2) by (auto simp: trac_on_def)
  have k: "trac_key s' = trac_key s" by (simp add: trac_key_def fun_eq_iff assms(1))
  have "bt_inv cmp ok key (trTree s') = bt_inv cmp ok key (trTree s)" for cmp :: "BTreeKey \<Rightarrow> BTreeKey \<Rightarrow> int" and ok key
    using assms(2) by (auto simp: bt_inv_def)
  then show "trac_ok s' = trac_ok s" by (simp add: trac_ok_def on k assms(1))
qed (simp_all add: trac_gone_def trac_num_def trac_info_def fun_eq_iff assms(1))

lemma find_trac_ok:
  assumes "trac_ok s" "small_id i"
  shows "\<exists>r. find_trac i s = Some r \<and> (\<forall>a. r = Some a \<longleftrightarrow> a \<in> trac_on s \<and> trac_num s a = i)"
proof -
  note ok = trac_okD [OF assms(1)]
  let ?r = "bt_find (cmp_of KeyCompareInt) (trac_key s) (id_key i) (trTree s)"
  have "?r = Some a \<longleftrightarrow> a \<in> trac_on s \<and> trac_num s a = i" for a
    using int_tree.inv_find [OF ok(1), of "id_key i" a] assms(2) ok(3) [of a]
    by (auto simp: trac_on_def trac_key_num id_key_cmp)
  with ok(2) show ?thesis by (simp add: find_trac_def)
qed

lemma trac_num_inj: "trac_ok s \<Longrightarrow> inj_on (trac_num s) (trac_on s)"
proof (rule inj_onI)
  fix a b assume s: "trac_ok s" and ab: "a \<in> trac_on s" "b \<in> trac_on s" "trac_num s a = trac_num s b"
  have "cmp_of KeyCompareInt (trac_key s a) (trac_key s b) = 0"
    using ab trac_okD(3) [OF s ab(1)] by (auto simp: trac_key_num id_key_cmp)
  with int_tree.inv_unique [OF trac_okD(1) [OF s]] ab show "a = b" by (auto simp: trac_on_def)
qed

section \<open>Steps of a reload\<close>

lemma trac_tree_same:
  assumes "trac_ok s" "\<And>a. a \<in> trac_on s \<Longrightarrow> trac_num s' a = trac_num s a \<and> trItem s' a \<noteq> None" "trTree s' = trTree s"
  shows "trac_ok s'" "trac_on s' = trac_on s"
proof -
  show on: "trac_on s' = trac_on s" by (simp add: trac_on_def assms(3))
  have "bt_inv (cmp_of KeyCompareInt) small_int (trac_key s') (trTree s) = bt_inv (cmp_of KeyCompareInt) small_int (trac_key s) (trTree s)"
    by (rule bt_inv_cong) (use assms(2) in \<open>simp add: trac_key_num trac_on_def\<close>)
  moreover have "\<exists>t. trItem s' a = Some t \<and> small_id (tu_chanId t)" if a: "a \<in> trac_on s" for a
  proof -
    from assms(2) [OF a] obtain t where t: "trItem s' a = Some t" by auto
    with assms(2) [OF a] trac_okD(3) [OF assms(1) a] show ?thesis by (auto simp: trac_num_def)
  qed
  ultimately show "trac_ok s'" using assms(1,3) on by (simp add: trac_ok_def)
qed

definition unvisit_tracs :: "addr set \<Rightarrow> 'r trac \<Rightarrow> 'r trac" where
  "unvisit_tracs A s = s\<lparr>trItem := (\<lambda>a. if a \<in> A then map_option (\<lambda>t. t\<lparr>tu_visited := False\<rparr>) (trItem s a) else trItem s a)\<rparr>"

lemma tracUnvisitTree_run:
  "\<forall>a \<in> set_tree t. trItem s a \<noteq> None \<Longrightarrow> tracUnvisitTree t s = Some (unvisit_tracs (set_tree t) s)"
proof (induction t arbitrary: s)
  case Leaf
  then show ?case by (simp add: unvisit_tracs_def)
next
  case (Node l a r)
  let ?s1 = "unvisit_tracs (set_tree l) s"
  have l: "tracUnvisitTree l s = Some ?s1" using Node by simp
  have "trItem ?s1 a \<noteq> None" using Node.prems by (simp add: unvisit_tracs_def)
  then obtain f where f: "trItem ?s1 a = Some f" by blast
  let ?s2 = "?s1\<lparr>trItem := (trItem ?s1)(a \<mapsto> f\<lparr>tu_visited := False\<rparr>)\<rparr>"
  have m: "upd_trac a (\<lambda>f. f\<lparr>tu_visited := False\<rparr>) ?s1 = Some ?s2" unfolding upd_trac_def f by simp
  have "\<forall>x \<in> set_tree r. trItem ?s2 x \<noteq> None" using Node.prems by (auto simp: unvisit_tracs_def)
  note r = Node.IH(2) [OF this]
  have "trItem (unvisit_tracs (set_tree r) ?s2) x = trItem (unvisit_tracs (set_tree (Node l a r)) s) x" for x
    using f by (cases "trItem s x") (auto simp: unvisit_tracs_def split: if_splits)
  then have "unvisit_tracs (set_tree r) ?s2 = unvisit_tracs (set_tree (Node l a r)) s"
    by (simp add: unvisit_tracs_def fun_eq_iff)
  with r show ?case by (simp add: l m)
qed

lemma unvisit_tracs_ok:
  assumes "trac_ok s"
  shows "\<exists>s'. tracUnvisitTree (trTree s) s = Some s' \<and> trac_ok s' \<and> trac_on s' = trac_on s \<and>
    (\<forall>a \<in> trac_on s. trac_gone s' a \<and> trac_num s' a = trac_num s a \<and> trac_info s' a = trac_info s a)"
proof -
  let ?s = "unvisit_tracs (trac_on s) s"
  have al: "\<forall>a \<in> set_tree (trTree s). trItem s a \<noteq> None" using trac_okD(2) [OF assms] by (simp add: alive_def)
  have run: "tracUnvisitTree (trTree s) s = Some ?s" unfolding trac_on_def by (rule tracUnvisitTree_run [OF al])
  have v: "trac_gone ?s a \<and> trac_num ?s a = trac_num s a \<and> trac_info ?s a = trac_info s a \<and> trItem ?s a \<noteq> None" if "a \<in> trac_on s" for a
    using that al by (auto simp: trac_gone_def trac_num_def trac_info_def settings_trac_def unvisit_tracs_def trac_on_def split: option.splits)
  have "trTree ?s = trTree s" by (simp add: unvisit_tracs_def)
  from trac_tree_same [OF assms _ this] v run show ?thesis by blast
qed

lemma trac_flush_walk:
  "\<forall>a \<in> set_tree t. trItem s a \<noteq> None \<Longrightarrow>
   tracFlushUnvisited t s = (case find (trac_gone s) (inorder t) of None \<Rightarrow> Some (False, s) | Some a \<Rightarrow> Some (True, drop_trac a s))"
proof (induction t)
  case (Node l a r)
  then obtain f where f: "trItem s a = Some f" by auto
  have g: "trac_gone s a \<longleftrightarrow> \<not> tu_visited f" using f by (simp add: trac_gone_def)
  show ?case using Node f g
    by (cases "find (trac_gone s) (inorder l)") (simp_all add: find_app)
qed simp

lemma drop_trac_ok:
  assumes "trac_ok s" "a \<in> trac_on s"
  shows "trac_ok (drop_trac a s)" "trac_on (drop_trac a s) = trac_on s - {a}"
    "b \<noteq> a \<Longrightarrow> trac_gone (drop_trac a s) b = trac_gone s b \<and> trac_num (drop_trac a s) b = trac_num s b \<and> trac_info (drop_trac a s) b = trac_info s b"
proof -
  let ?s = "drop_trac a s"
  note T = int_tree.inv_remove [OF trac_okD(1) [OF assms(1)], of a]
  show v: "b \<noteq> a \<Longrightarrow> trac_gone ?s b = trac_gone s b \<and> trac_num ?s b = trac_num s b \<and> trac_info ?s b = trac_info s b" for b
    by (simp add: drop_trac_def trac_gone_def trac_num_def trac_info_def)
  show on: "trac_on ?s = trac_on s - {a}" using T by (simp add: trac_on_def drop_trac_def)
  have "bt_inv (cmp_of KeyCompareInt) small_int (trac_key ?s) (trTree ?s)"
    using T v bt_inv_cong [of "bt_remove a (trTree s)" "trac_key ?s" "trac_key s"] by (simp add: drop_trac_def trac_key_num)
  moreover have "\<exists>t. trItem ?s b = Some t \<and> small_id (tu_chanId t)" if "b \<in> trac_on ?s" for b
    using that on trac_okD(3) [OF assms(1), of b] by (auto simp: drop_trac_def)
  ultimately show "trac_ok ?s" by (simp add: trac_ok_def)
qed

interpretation tracs: sweeper trac_ok trac_on trac_gone drop_trac "\<lambda>s. tracFlushUnvisited (trTree s) s" trac_flush_loop
proof
  fix s :: "'r trac" and a b
  assume ok: "trac_ok s"
  then have al: "\<forall>a \<in> set_tree (trTree s). trItem s a \<noteq> None" using trac_okD(2) [of s] by (simp add: alive_def)
  show "finite (trac_on s)" by (simp add: trac_on_def)
  show "tracFlushUnvisited (trTree s) s = Some (False, s)" if "\<forall>a \<in> trac_on s. \<not> trac_gone s a"
  proof -
    have "find (trac_gone s) (inorder (trTree s)) = None" using that by (simp add: find_None_iff trac_on_def)
    with trac_flush_walk [OF al] show ?thesis by simp
  qed
  show "\<exists>a \<in> trac_on s. trac_gone s a \<and> tracFlushUnvisited (trTree s) s = Some (True, drop_trac a s)"
    if "\<exists>a \<in> trac_on s. trac_gone s a"
  proof -
    have "find (trac_gone s) (inorder (trTree s)) \<noteq> None" using that by (auto simp: find_None_iff trac_on_def)
    then obtain a where f: "find (trac_gone s) (inorder (trTree s)) = Some a" by blast
    then have "a \<in> trac_on s" "trac_gone s a" by (auto simp: find_Some_iff trac_on_def in_set_conv_nth simp flip: set_inorder)
    with f trac_flush_walk [OF al] show ?thesis by (intro bexI [of _ a]) simp_all
  qed
  assume a: "a \<in> trac_on s"
  show "trac_ok (drop_trac a s) \<and> trac_on (drop_trac a s) = trac_on s - {a}" using drop_trac_ok [OF ok a] by simp
  show "trac_gone (drop_trac a s) b = trac_gone s b" if "b \<in> trac_on s - {a}" using that drop_trac_ok(3) [OF ok a, of b] by simp
next
  show "trac_flush_loop s = do { (b, s) \<leftarrow> tracFlushUnvisited (trTree s) s; if b then trac_flush_loop s else Some s }" for s :: "'r trac"
    by (rule trac_flush_loop.simps)
qed


section \<open>One row\<close>

definition trac_row :: "db_row \<Rightarrow> int \<Rightarrow> bool" where
  "trac_row row i \<longleftrightarrow> small_id i \<and> col_int row 1 = Some i \<and> (\<forall>k < 7. col row k \<noteq> None)"

definition row_trac :: "db_row \<Rightarrow> (int \<times> string list \<times> bool) option" where
  "row_trac row = map_option settings_trac (trac_settings row new_trac)"

lemma trac_settings_run:
  assumes "trac_row row i"
  shows "\<exists>t. trac_settings row old = Some t \<and> row_trac row = Some (settings_trac t) \<and> tu_chanId t = i \<and> tu_visited t"
proof -
  have c: "\<exists>v. col row k = Some v" if "k < 7" for k using assms that by (auto simp: trac_row_def)
  obtain v0 v2 v3 v4 v5 v6 where "col row 0 = Some v0" "col row 2 = Some v2" "col row 3 = Some v3" "col row 4 = Some v4"
    "col row 5 = Some v5" "col row 6 = Some v6"
    using c [of 0] c [of 2] c [of 3] c [of 4] c [of 5] c [of 6] by auto
  moreover from assms obtain v1 where "col row 1 = Some v1" "i = atoi v1" by (auto simp: trac_row_def col_int_def)
  ultimately show ?thesis by (simp add: trac_settings_def row_trac_def settings_trac_def col_int_def)
qed

lemma trac_svn_keeps:
  "settings_trac (trac_svn r found old t) = settings_trac t" "tu_chanId (trac_svn r found old t) = tu_chanId t"
  "tu_visited (trac_svn r found old t) = tu_visited t" "settings_trac (t\<lparr>tu_menuText := x, tu_justAdded := y\<rparr>) = settings_trac t"
  "settings_trac (t\<lparr>tu_oldChanId := z\<rparr>) = settings_trac t"
  by (simp_all add: trac_svn_def tracSvnInitialize_def settings_trac_def Let_def split: svn_setup.split)

text \<open>What a step leaves alone.\<close>

definition trac_rest :: "'r trac \<Rightarrow> ('r, trac_func) Regexp_t list \<times> string option \<times> bool \<times> cmd_tree \<times> world" where
  "trac_rest s = (trRegs s, trRegexp s, trCmdInit s, trCmds s, trW s)"

lemma load_trac_row_run:
  assumes "trac_ok s" "trac_row (snd m) i" "fst m \<notin> trac_on s"
  shows "\<exists>s' b. load_trac_row env digits m s = Some s' \<and> trac_ok s' \<and> trac_on s' = insert b (trac_on s) \<and>
    (if b \<in> trac_on s then trac_num s b = i else b = fst m) \<and> trac_num s' b = i \<and> trac_info s' b = row_trac (snd m) \<and>
    \<not> trac_gone s' b \<and> (\<forall>a \<in> trac_on s - {b}. trac_num s' a = trac_num s a \<and> trac_info s' a = trac_info s a \<and> trac_gone s' a = trac_gone s a) \<and>
    trac_rest s' = trac_rest s"
proof -
  obtain new row where m: "m = (new, row)" by (cases m)
  from assms(2) have i: "small_id i" "col_int row 1 = Some i" by (simp_all add: trac_row_def m)
  from find_trac_ok [OF assms(1) i(1)] obtain r where
    r: "find_trac i s = Some r" "\<And>a. r = Some a \<longleftrightarrow> a \<in> trac_on s \<and> trac_num s a = i" by blast
  define b where "b = (case r of Some a \<Rightarrow> a | None \<Rightarrow> new)"
  define s0 where "s0 = (if r \<noteq> None then s else s\<lparr>trItem := (trItem s)(b \<mapsto> new_trac)\<rparr>)"
  have "\<exists>old. trItem s0 b = Some old"
  proof (cases r)
    case (Some a)
    with r(2) [of a] trac_okD(3) [OF assms(1), of a] show ?thesis by (auto simp: s0_def b_def)
  qed (simp add: s0_def)
  then obtain old where old: "trItem s0 b = Some old" by blast
  from trac_settings_run [OF assms(2), of old] obtain t where
    t: "trac_settings row old = Some t" "row_trac row = Some (settings_trac t)" "tu_chanId t = i" "tu_visited t" by (auto simp: m)
  define u where "u = trac_svn (te_svn env b) (r \<noteq> None) (tu_enabled old) (t\<lparr>tu_menuText := Some (trac_menu_text digits t), tu_justAdded := False\<rparr>)"
  define u' where "u' = u\<lparr>tu_oldChanId := tu_chanId u\<rparr>"
  have u': "settings_trac u' = settings_trac t" "tu_chanId u' = i" "tu_visited u'"
    using t(3,4) by (simp_all add: u'_def u_def trac_svn_keeps)
  define es where "es = menu_effects b (tu_menuText t) (trac_menu_text digits t) (tu_justAdded t)"
  define s1 where "s1 = tr_emit es (s0\<lparr>trItem := (trItem s0)(b \<mapsto> u')\<rparr>)"
  define s' where "s' = (if r \<noteq> None then s1 else add_trac b s1)"
  have run: "load_trac_row env digits m s = Some s'"
  proof (cases r)
    case None
    then have "b = new" "old = new_trac" using old by (simp_all add: b_def s0_def)
    with i(2) r(1) t(1) None show ?thesis
      by (simp add: load_trac_row_def m Let_def s'_def s1_def s0_def es_def u'_def u_def)
  next
    case (Some a)
    then have "b = a" "trItem s a = Some old" using old by (simp_all add: b_def s0_def)
    with i(2) r(1) t(1) Some show ?thesis
      by (simp add: load_trac_row_def m Let_def s'_def s1_def s0_def es_def u'_def u_def)
  qed
  have it: "trItem s' = (trItem s)(b \<mapsto> u')" by (simp add: s'_def s1_def s0_def add_trac_def)
  have rest: "trac_rest s' = trac_rest s" by (simp add: s'_def s1_def s0_def add_trac_def trac_rest_def)
  have v: "trac_num s' b = i" "trac_info s' b = row_trac row" "\<not> trac_gone s' b"
    using u' t(2) by (simp_all add: trac_num_def trac_info_def trac_gone_def it)
  have w: "trac_num s' a = trac_num s a \<and> trac_info s' a = trac_info s a \<and> trac_gone s' a = trac_gone s a" if "a \<noteq> b" for a
    using that by (simp add: trac_num_def trac_info_def trac_gone_def it)
  then have w': "\<forall>a \<in> trac_on s - {b}. trac_num s' a = trac_num s a \<and> trac_info s' a = trac_info s a \<and> trac_gone s' a = trac_gone s a"
    by blast
  show ?thesis
  proof (cases r)
    case (Some a)
    then have b: "b = a" "b \<in> trac_on s" "trac_num s b = i" using r(2) [of a] by (simp_all add: b_def)
    have "trTree s' = trTree s" using Some by (simp add: s'_def s1_def s0_def)
    moreover have "trac_num s' c = trac_num s c \<and> trItem s' c \<noteq> None" if "c \<in> trac_on s" for c
      using that v w [of c] b trac_okD(3) [OF assms(1) that] by (cases "c = b") (auto simp: it)
    ultimately have "trac_ok s'" "trac_on s' = trac_on s" using trac_tree_same [OF assms(1)] by blast+
    with run v w' b rest show ?thesis by (intro exI [of _ s'] exI [of _ b] conjI) (simp_all add: m insert_absorb)
  next
    case None
    then have b: "b = new" "b \<notin> trac_on s" using assms(3) by (simp_all add: b_def m)
    have T: "trTree s' = bt_insert (cmp_of KeyCompareInt) (trac_key s') b (trTree s)"
      using None by (simp add: s'_def s1_def s0_def add_trac_def trac_key_def [abs_def])
    have k: "trac_key s' a = trac_key s a" if "a \<in> trac_on s" for a
    proof -
      from that b have "a \<noteq> b" by auto
      with w [of a] show ?thesis by (simp add: trac_key_num)
    qed
    have inv: "bt_inv (cmp_of KeyCompareInt) small_int (trac_key s') (trTree s)"
      using trac_okD(1) [OF assms(1)] k bt_inv_cong [of "trTree s" "trac_key s'" "trac_key s"] by (simp add: trac_on_def)
    have "bt_find (cmp_of KeyCompareInt) (trac_key s') (trac_key s' b) (trTree s) = bt_find (cmp_of KeyCompareInt) (trac_key s) (id_key i) (trTree s)"
      using k v(1) bt_find_cong [of "trTree s" "trac_key s'" "trac_key s"] by (simp add: trac_on_def trac_key_num)
    moreover have "\<dots> = None" using r(1) None trac_okD(2) [OF assms(1)] by (simp add: find_trac_def)
    moreover have "small_int (trac_key s' b)" using v(1) i(1) by (simp add: trac_key_num)
    ultimately have ins: "bt_inv (cmp_of KeyCompareInt) small_int (trac_key s') (trTree s') \<and> set_tree (trTree s') = insert b (set_tree (trTree s))"
      unfolding T using int_tree.inv_insert [OF inv] by simp
    then have on: "trac_on s' = insert b (trac_on s)" by (simp add: trac_on_def)
    have "trac_ok s'" using ins on trac_okD(3) [OF assms(1)] u'(2) i(1) by (fastforce simp: trac_ok_def it)
    with run v w' b on rest show ?thesis by (intro exI [of _ s'] exI [of _ b] conjI) (simp_all add: m)
  qed
qed

interpretation setups: follower trac_ok trac_on trac_gone drop_trac "\<lambda>s. tracFlushUnvisited (trTree s) s" trac_flush_loop
  trac_num trac_info "\<lambda>s. tracUnvisitTree (trTree s) s" "load_trac_row env digits"
  "\<lambda>m. \<exists>i. trac_row (snd m) i" fst "\<lambda>m. the (col_int (snd m) 1)" "\<lambda>m. row_trac (snd m)"
  for env :: "'r trac_env" and digits :: nat
proof
  fix s :: "'r trac" and m :: "addr \<times> db_row" and a b
  show "trac_ok s \<Longrightarrow> inj_on (trac_num s) (trac_on s)" by (rule trac_num_inj)
  show "trac_num (drop_trac a s) b = trac_num s b \<and> trac_info (drop_trac a s) b = trac_info s b"
    if "trac_ok s" "a \<in> trac_on s" "trac_gone s a" "b \<in> trac_on s - {a}"
    using drop_trac_ok(3) [OF that(1,2), of b] that(4) by simp
  show "trac_ok s \<Longrightarrow> \<exists>s'. tracUnvisitTree (trTree s) s = Some s' \<and> trac_ok s' \<and> trac_on s' = trac_on s \<and>
      (\<forall>a \<in> trac_on s. trac_gone s' a \<and> trac_num s' a = trac_num s a \<and> trac_info s' a = trac_info s a)"
    by (rule unvisit_tracs_ok)
  assume "trac_ok s" "\<exists>i. trac_row (snd m) i" "fst m \<notin> trac_on s"
  then obtain i where i: "trac_row (snd m) i" by blast
  then have "the (col_int (snd m) 1) = i" by (simp add: trac_row_def)
  with load_trac_row_run [OF \<open>trac_ok s\<close> i \<open>fst m \<notin> trac_on s\<close>, of env digits]
  show "\<exists>s' b. load_trac_row env digits m s = Some s' \<and> trac_ok s' \<and> trac_on s' = insert b (trac_on s) \<and>
      (if b \<in> trac_on s then trac_num s b = the (col_int (snd m) 1) else b = fst m) \<and> trac_num s' b = the (col_int (snd m) 1) \<and>
      trac_info s' b = row_trac (snd m) \<and> \<not> trac_gone s' b \<and>
      (\<forall>a \<in> trac_on s - {b}. trac_num s' a = trac_num s a \<and> trac_info s' a = trac_info s a \<and> trac_gone s' a = trac_gone s a)"
    by (elim exE conjE) (intro exI conjI, assumption+, simp_all)
qed


section \<open>The reload\<close>

lemma trac_unvisit_rest: "tracUnvisitTree t s = Some s' \<Longrightarrow> trac_rest s' = trac_rest s"
  by (induction t arbitrary: s s') (fastforce simp: upd_trac_def trac_rest_def bind_eq_Some_conv)+

lemma load_rows_rest:
  "foldM (load_trac_row env digits) ms s = Some s' \<Longrightarrow> trac_rest s' = trac_rest s"
proof (induction ms arbitrary: s)
  case (Cons m ms)
  then obtain s1 where "load_trac_row env digits m s = Some s1" "foldM (load_trac_row env digits) ms s1 = Some s'"
    by (auto simp: bind_eq_Some_conv)
  moreover from this(1) have "trac_rest s1 = trac_rest s"
    by (auto simp: load_trac_row_def Let_def bind_eq_Some_conv trac_rest_def add_trac_def split: prod.splits if_splits)
  ultimately show ?case using Cons.IH by auto
qed simp

lemma drop_trac_rest: "trac_rest (drop_trac a s) = trac_rest s"
  by (simp add: drop_trac_def trac_rest_def)

lemma trac_walk_rest: "tracFlushUnvisited t s = Some (b, s') \<Longrightarrow> trac_rest s' = trac_rest s"
proof (induction t arbitrary: s b s')
  case (Node l a r)
  from Node.prems obtain b1 s1 where w: "tracFlushUnvisited l s = Some (b1, s1)" and
    w2: "(if b1 then Some (True, s1) else trItem s1 a \<bind> (\<lambda>t. if \<not> tu_visited t then Some (True, drop_trac a s1) else tracFlushUnvisited r s1)) = Some (b, s')"
    by (auto simp: bind_eq_Some_conv)
  note l = Node.IH(1) [OF w]
  show ?case
  proof (cases b1)
    case False
    with w2 obtain t where t: "trItem s1 a = Some t" by (cases "trItem s1 a") simp_all
    with False w2 have "(if \<not> tu_visited t then Some (True, drop_trac a s1) else tracFlushUnvisited r s1) = Some (b, s')" by simp
    with l Node.IH(2) [of s1 b s'] show ?thesis by (cases "tu_visited t") (auto simp: drop_trac_rest)
  qed (use w2 l in simp)
qed simp

lemma trac_flush_rest: "trac_flush_loop s = Some s' \<Longrightarrow> trac_rest s' = trac_rest s"
proof (erule trac_flush_loop.raw_induct [rotated])
  fix loop :: "'r trac \<Rightarrow> 'r trac option" and s s'
  assume IH: "\<And>s s'. loop s = Some s' \<Longrightarrow> trac_rest s' = trac_rest s"
    and h: "(tracFlushUnvisited (trTree s) s \<bind> (\<lambda>(b, s). if b then loop s else Some s)) = Some s'"
  from h obtain b s1 where w: "tracFlushUnvisited (trTree s) s = Some (b, s1)" "(if b then loop s1 else Some s1) = Some s'"
    by (auto simp: bind_eq_Some_conv)
  with IH [of s1 s'] trac_walk_rest [OF w(1)] show "trac_rest s' = trac_rest s" by (cases b) auto
qed

definition trac_rows :: "(addr \<times> db_row) list \<Rightarrow> 'r trac \<Rightarrow> bool" where
  "trac_rows ms s \<longleftrightarrow> (\<forall>m \<in> set ms. (\<exists>i. trac_row (snd m) i) \<and> fst m \<notin> trac_on s) \<and>
     distinct (map (\<lambda>m. the (col_int (snd m) 1)) ms) \<and> distinct (map fst ms)"

lemma trac_reload_run:
  assumes "trac_ok s" "trac_rows ms s"
  shows "\<exists>s'. trac_reload env ms s = Some s' \<and> trac_ok s' \<and>
    (\<lambda>a. (trac_num s' a, trac_info s' a)) ` trac_on s' = (\<lambda>m. (the (col_int (snd m) 1), row_trac (snd m))) ` set ms \<and>
    (\<forall>a \<in> trac_on s. trac_num s a \<in> (\<lambda>m. the (col_int (snd m) 1)) ` set ms \<longrightarrow> a \<in> trac_on s' \<and> trac_num s' a = trac_num s a) \<and>
    trRegs s' = (if ms = [] then trRegs s else trRegs (trac_unregister s)) \<and> trRegexp s' = None \<and>
    (trCmdInit s', trCmds s', trW s') = (trCmdInit s, trCmds s, trW s)"
proof -
  from unvisit_tracs_ok [OF assms(1)] obtain s1 where
    s1: "tracUnvisitTree (trTree s) s = Some s1" "trac_ok s1" "trac_on s1 = trac_on s" by blast
  define s2 where "s2 = tr_emit [PeQuery (0, None, True)] s1"
  have c2: "trac_ok s2" "trac_on s2 = trac_on s" "trac_num s2 = trac_num s1" "trac_info s2 = trac_info s1" "trac_gone s2 = trac_gone s1"
    using trac_cong [of s2 s1] s1(2,3) by (simp_all add: s2_def)
  let ?d = "menu_digits (length ms)"
  obtain s3 where s3: "foldM (load_trac_row env ?d) ms s2 = Some s3" "setups.loaded s2 ms s3"
    using setups.load_all [OF c2(1), of ms env ?d] assms(2) c2(2) by (auto simp: trac_rows_def)
  have e: "trac_on s2 = trac_on s1" "trac_num s2 = trac_num s1" "trac_gone s2 = trac_gone s1" using c2 s1(3) by simp_all
  have l3: "setups.loaded s1 ms s3" using s3(2) unfolding setups.loaded_def e .
  define s4 where "s4 = (if ms = [] then s3\<lparr>trRegexp := None\<rparr> else s3\<lparr>trTree := bt_rebalance (trTree s3)\<rparr>)"
  have load: "db_load_channel_regexp env ms s1 = Some s4"
    using s3(1) by (auto simp: db_load_channel_regexp_def result_load_channel_regexp_def s2_def [symmetric] s4_def)
  have c4: "trac_ok s4 = trac_ok s3" "trac_on s4 = trac_on s3" "trac_num s4 = trac_num s3" "trac_info s4 = trac_info s3" "trac_gone s4 = trac_gone s3"
    using trac_cong [of s4 s3] by (simp_all add: s4_def)
  have "trac_ok s4" using c4(1) setups.loaded_ok [OF l3] by simp
  from setups.loaded_cong [OF l3 this c4(2-5)] have l4: "setups.loaded s1 ms s4" .
  obtain s5 where s5: "trac_flush_loop s4 = Some s5" "trac_ok s5"
    "(\<lambda>a. (trac_num s5 a, trac_info s5 a)) ` trac_on s5 = (\<lambda>m. (the (col_int (snd m) 1), row_trac (snd m))) ` set ms"
    "\<forall>a \<in> trac_on s. trac_num s a \<in> (\<lambda>m. the (col_int (snd m) 1)) ` set ms \<longrightarrow> a \<in> trac_on s5 \<and> trac_num s5 a = trac_num s a"
    using setups.follows [OF assms(1) s1(1) l4] by blast
  define s6 where "s6 = trac_unregister (s5\<lparr>trTree := bt_rebalance (trTree s5)\<rparr>)"
  have run: "trac_reload env ms s = Some s6"
    using s1(1) load s5(1) by (simp add: trac_reload_def s6_def)
  have t6: "trItem s6 = trItem s5" "trTree s6 = bt_rebalance (trTree s5)" by (simp_all add: s6_def trac_unregister_def split: option.split)
  then have c6: "trac_ok s6 = trac_ok s5" "trac_on s6 = trac_on s5" "trac_num s6 = trac_num s5" "trac_info s6 = trac_info s5"
    using trac_cong [of s6 s5] by simp_all
  have "trac_rest s3 = trac_rest s"
    using trac_unvisit_rest [OF s1(1)] load_rows_rest [OF s3(1)] by (simp add: s2_def trac_rest_def)
  moreover have "trac_rest s5 = trac_rest s4" by (rule trac_flush_rest [OF s5(1)])
  ultimately have r: "trRegs s5 = trRegs s" "trRegexp s5 = (if ms = [] then None else trRegexp s)" "trCmdInit s5 = trCmdInit s"
    "trCmds s5 = trCmds s" "trW s5 = trW s" by (simp_all add: trac_rest_def s4_def split: if_splits)
  have "trRegs s6 = (if ms = [] then trRegs s else trRegs (trac_unregister s)) \<and> trRegexp s6 = None"
    using r by (simp add: s6_def trac_unregister_def split: option.split)
  moreover have "(trCmdInit s6, trCmds s6, trW s6) = (trCmdInit s, trCmds s, trW s)"
    using r by (simp add: s6_def trac_unregister_def split: option.split)
  ultimately show ?thesis using run s5 c6 by (intro exI [of _ s6]) simp
qed

end
