(* ===== verification/TracThread.thy ===== *)
theory TracThread
  imports TracReload
begin

text \<open>
  The expressions that the thread of \<open>bot/src/plugins/trac.c\<close> registers, the links to tickets and
  changesets, and the reading of the table of a ticket.
\<close>

section \<open>The expression for the channels\<close>

text \<open>The name of the channel of a setup.\<close>

definition trac_spec :: "'r trac \<Rightarrow> addr \<Rightarrow> string option" where
  "trac_spec s a = do {
     t \<leftarrow> trItem s a;
     sv \<leftarrow> FindServerNum (tu_serverId t) (trW s);
     ch \<leftarrow> FindChannelNum sv (tu_chanId t) (trW s);
     c \<leftarrow> ch;
     chan \<leftarrow> wChans (trW s) c;
     Some (ch_fullspec chan)
   }"

text \<open>States that differ in the servers and channels that the setups point to.\<close>

definition homeless :: "TracURL_t \<Rightarrow> TracURL_t" where
  "homeless t = t\<lparr>tu_server := None, tu_channel := None\<rparr>"

definition same_setups :: "'r trac \<Rightarrow> 'r trac \<Rightarrow> bool" where
  "same_setups s s' \<longleftrightarrow> trTree s' = trTree s \<and> trac_rest s' = trac_rest s \<and> trStop s' = trStop s \<and>
     (\<forall>a. map_option homeless (trItem s' a) = map_option homeless (trItem s a))"

lemma same_setups_views:
  assumes "same_setups s s'"
  shows "trac_spec s' a = trac_spec s a" "trac_num s' a = trac_num s a" "trac_gone s' a = trac_gone s a" "trac_info s' a = trac_info s a"
    "trItem s' a = None \<longleftrightarrow> trItem s a = None"
proof -
  have w: "trW s' = trW s" using assms by (simp add: same_setups_def trac_rest_def)
  have e: "map_option homeless (trItem s' a) = map_option homeless (trItem s a)" using assms by (simp add: same_setups_def)
  have h: "homeless t = homeless t' \<Longrightarrow> tu_serverId t = tu_serverId t' \<and> tu_chanId t = tu_chanId t' \<and> tu_visited t = tu_visited t' \<and>
      settings_trac t = settings_trac t'" for t t'
    by (cases t; cases t') (simp add: homeless_def settings_trac_def)
  show "trItem s' a = None \<longleftrightarrow> trItem s a = None" using e by (cases "trItem s' a"; cases "trItem s a") auto
  show "trac_spec s' a = trac_spec s a" "trac_num s' a = trac_num s a" "trac_gone s' a = trac_gone s a" "trac_info s' a = trac_info s a"
  proof -
    consider "trItem s' a = None" "trItem s a = None" | t t' where "trItem s' a = Some t" "trItem s a = Some t'" "homeless t = homeless t'"
      using e by (cases "trItem s' a"; cases "trItem s a") auto
    then have "trac_spec s' a = trac_spec s a \<and> trac_num s' a = trac_num s a \<and> trac_gone s' a = trac_gone s a \<and> trac_info s' a = trac_info s a"
    proof cases
      case 2
      with h [OF 2(3)] w show ?thesis by (simp add: trac_spec_def trac_num_def trac_gone_def trac_info_def)
    qed (simp add: trac_spec_def trac_num_def trac_gone_def trac_info_def)
    then show "trac_spec s' a = trac_spec s a" "trac_num s' a = trac_num s a" "trac_gone s' a = trac_gone s a" "trac_info s' a = trac_info s a"
      by simp_all
  qed
qed

lemma same_setups_trans: "same_setups s s' \<Longrightarrow> same_setups s' s'' \<Longrightarrow> same_setups s s''"
  by (simp add: same_setups_def)

lemma build_regexp_run:
  "\<forall>a \<in> set_tree t. trac_spec s a \<noteq> None \<Longrightarrow>
   \<exists>s'. tracRecurseBuildChannelRegexp t s = Some (if t = Leaf then None else Some (joined ''|'' (map (the \<circ> trac_spec s) (inorder t))), s') \<and>
     same_setups s s'"
proof (induction t arbitrary: s)
  case Leaf
  then show ?case by (simp add: same_setups_def)
next
  case (Node l a r)
  from Node.IH(1) [of s] Node.prems obtain s1 where s1: "tracRecurseBuildChannelRegexp l s = Some (if l = Leaf then None else Some (joined ''|'' (map (the \<circ> trac_spec s) (inorder l))), s1)"
    "same_setups s s1" by fastforce
  note v = same_setups_views [OF s1(2)]
  have "trac_spec s1 a \<noteq> None" using Node.prems v(1) by simp
  then obtain t sv c chan where t: "trItem s1 a = Some t" "FindServerNum (tu_serverId t) (trW s1) = Some sv"
    "FindChannelNum sv (tu_chanId t) (trW s1) = Some (Some c)" "wChans (trW s1) c = Some chan" "trac_spec s1 a = Some (ch_fullspec chan)"
    by (auto simp: trac_spec_def bind_eq_Some_conv)
  note sa = t(5) [unfolded v(1) [of a]]
  define s2 where "s2 = s1\<lparr>trItem := (trItem s1)(a \<mapsto> t\<lparr>tu_server := sv, tu_channel := Some c\<rparr>)\<rparr>"
  have "same_setups s1 s2" using t(1) by (simp add: same_setups_def s2_def trac_rest_def homeless_def)
  with s1(2) have s2: "same_setups s s2" by (rule same_setups_trans)
  have "\<forall>a \<in> set_tree r. trac_spec s2 a \<noteq> None" using Node.prems same_setups_views(1) [OF s2] by simp
  from Node.IH(2) [OF this] obtain s3 where
    s3: "tracRecurseBuildChannelRegexp r s2 = Some (if r = Leaf then None else Some (joined ''|'' (map (the \<circ> trac_spec s2) (inorder r))), s3)"
      "same_setups s2 s3" by blast
  have sp: "the \<circ> trac_spec s2 = the \<circ> trac_spec s" using same_setups_views(1) [OF s2] by (simp add: fun_eq_iff)
  have up: "upd_trac a (\<lambda>t. t\<lparr>tu_server := sv, tu_channel := Some c\<rparr>) s1 = Some s2" using t(1) by (simp add: upd_trac_def s2_def)
  have w2: "trW s2 = trW s1" by (simp add: s2_def)
  have "inorder l = [] \<longleftrightarrow> l = Leaf" "inorder r = [] \<longleftrightarrow> r = Leaf" by (cases l; simp) (cases r; simp)
  then have "tracRecurseBuildChannelRegexp (Node l a r) s = Some (Some (joined ''|'' (map (the \<circ> trac_spec s) (inorder (Node l a r)))), s3)"
    using s1(1) t(1-4) sa s3(1) joined_append [of "map (the \<circ> trac_spec s) (inorder l)" "the (trac_spec s a) # map (the \<circ> trac_spec s) (inorder r)" "''|''"]
    by (auto simp: up w2 sp joined_Cons)
  with same_setups_trans [OF s2 s3(2)] show ?case by auto
qed

definition trac_specs :: "'r trac \<Rightarrow> string" where
  "trac_specs s = channel_regexp (joined ''|'' (map (the \<circ> trac_spec s) (inorder (trTree s))))"

definition reg_names :: "('r, 'f) Regexp_t list \<Rightarrow> (string \<times> string \<times> 'f) list" where
  "reg_names = map (\<lambda>r. (channelRegexp r, contentRegexp r, func r))"

text \<open>The patterns compile; nobody else uses the two of this plugin.\<close>

definition compiles :: "'r trac_env \<Rightarrow> string \<Rightarrow> bool" where
  "compiles env p \<longleftrightarrow> Option.bind (te_compile env p) (te_study env) \<noteq> None"

definition trac_ready :: "'r trac_env \<Rightarrow> 'r trac \<Rightarrow> bool" where
  "trac_ready env s \<longleftrightarrow> trac_ok s \<and> trTree s \<noteq> Leaf \<and> (\<forall>a \<in> trac_on s. trac_spec s a \<noteq> None) \<and>
     (\<forall>p \<in> {trac_specs s, ticketRegexp, changesetRegexp}. compiles env p) \<and>
     (\<forall>r \<in> set (trRegs s). contentRegexp r \<noteq> ticketRegexp \<and> contentRegexp r \<noteq> changesetRegexp)"

lemma regexp_remove_new:
  assumes "\<forall>r \<in> set R. contentRegexp r \<noteq> p" "channelRegexp x = c" "contentRegexp x = p"
  shows "regexp_remove (Some c) p (R @ x # Y) = R @ Y"
  using assms by (induction R) (auto simp: regexp_remove_def)

lemma regexps_differ: "ticketRegexp \<noteq> changesetRegexp"
  by (simp add: ticketRegexp_def changesetRegexp_def)

lemma trac_setup_run:
  assumes "trac_ready env s"
  shows "\<exists>s' x y. trac_setup env mem f help s = Some (True, s') \<and> trRegexp s' = Some (trac_specs s) \<and> trRegs s' = trRegs s @ [x, y] \<and>
    reg_names [x, y] = [(trac_specs s, ticketRegexp, FnTicket), (trac_specs s, changesetRegexp, FnChangeset)] \<and>
    trac_ok s' \<and> trac_on s' = trac_on s \<and> trac_num s' = trac_num s \<and> trac_info s' = trac_info s \<and> trStop s' = trStop s \<and> trW s' = trW s"
proof -
  have T: "trTree s \<noteq> Leaf" "\<forall>a \<in> set_tree (trTree s). trac_spec s a \<noteq> None" using assms by (simp_all add: trac_ready_def trac_on_def)
  obtain s1 where s1: "tracRecurseBuildChannelRegexp (trTree s) s = Some (Some (joined ''|'' (map (the \<circ> trac_spec s) (inorder (trTree s)))), s1)"
    "same_setups s s1" using build_regexp_run [OF T(2)] T(1) by auto
  from assms obtain rc rt rs where c: "Option.bind (te_compile env (trac_specs s)) (te_study env) = Some rc"
    "Option.bind (te_compile env ticketRegexp) (te_study env) = Some rt" "Option.bind (te_compile env changesetRegexp) (te_study env) = Some rs"
    by (auto simp: trac_ready_def compiles_def)
  define x where "x = \<lparr>channelRegexp = trac_specs s, contentRegexp = ticketRegexp, reChannel = rc, reContent = rt, func = FnTicket\<rparr>"
  define y where "y = \<lparr>channelRegexp = trac_specs s, contentRegexp = changesetRegexp, reChannel = rc, reContent = rs, func = FnChangeset\<rparr>"
  define s2 where "s2 = s1\<lparr>trRegexp := Some (trac_specs s), trRegs := trRegs s1 @ [x, y]\<rparr>"
  define s3 where "s3 = (if trCmdInit s2 then s2 else s2\<lparr>trCmds := botCmd_add mem ''trac'' (Some (FnPlugin f)) help 0 (trCmds s2), trCmdInit := True\<rparr>)"
  have "trac_setup env mem f help s = Some (True, s3)"
    using s1(1) T(1) c by (cases "trCmdInit s1") (simp_all add: trac_setup_def trac_specs_def [symmetric] regexp_add_def x_def y_def s3_def s2_def Let_def)
  moreover have "trRegs s1 = trRegs s" "trStop s1 = trStop s" "trW s1 = trW s" using s1(2) by (simp_all add: same_setups_def trac_rest_def)
  moreover have "trItem s3 = trItem s1" "trTree s3 = trTree s1" by (simp_all add: s3_def s2_def)
  then have "trac_ok s3 = trac_ok s1" "trac_on s3 = trac_on s1" "trac_num s3 = trac_num s1" "trac_info s3 = trac_info s1"
    using trac_cong [of s3 s1] by simp_all
  moreover have ok: "trac_ok s" using assms by (simp add: trac_ready_def)
  have v: "trac_num s1 a = trac_num s a \<and> trItem s1 a \<noteq> None" if "a \<in> trac_on s" for a
    using same_setups_views [OF s1(2), of a] trac_okD(3) [OF ok that] by auto
  have "trTree s1 = trTree s" using s1(2) by (simp add: same_setups_def)
  from trac_tree_same [OF ok v this] have "trac_ok s1" "trac_on s1 = trac_on s" by simp_all
  moreover have "trac_num s1 = trac_num s" "trac_info s1 = trac_info s" using same_setups_views [OF s1(2)] by (simp_all add: fun_eq_iff)
  ultimately show ?thesis by (intro exI [of _ s3] exI [of _ x] exI [of _ y]) (simp add: s3_def s2_def x_def y_def reg_names_def)
qed

lemma trac_unregister_new:
  assumes "\<forall>r \<in> set R. contentRegexp r \<noteq> ticketRegexp \<and> contentRegexp r \<noteq> changesetRegexp" "trRegexp s = Some c" "trRegs s = R @ [x, y]"
    "reg_names [x, y] = [(c, ticketRegexp, FnTicket), (c, changesetRegexp, FnChangeset)]"
  shows "trRegs (trac_unregister s) = R"
  using assms regexp_remove_new [of R ticketRegexp x c "[y]"] regexp_remove_new [of R changesetRegexp y c "[]"]
  by (simp add: trac_unregister_def reg_names_def)

text \<open>Claim C31. A round of the Trac thread registers the ticket and changeset expressions for
  exactly the channels of the setups, in order of their numbers, and the reload after it
  removes exactly these two again and leaves the setups that the rows of the database
  describe, in a well-formed tree. This is with the thread not told to stop, the channels
  loaded, at least one setup before and at least one row after (without rows the expressions
  stay registered, trac.c:592), every setup with its channel known, patterns that compile and
  that nobody else registered, and complete rows with distinct numbers that get fresh memory.\<close>

theorem trac_round:
  assumes "trac_ready env s" "wLoaded (trW s)" "\<not> trStop s" "trac_rows ms s" "ms \<noteq> []"
  shows "\<exists>s1 s2. trac_setup env mem f help s = Some (True, s1) \<and>
    reg_names (trRegs s1) = reg_names (trRegs s) @ [(trac_specs s, ticketRegexp, FnTicket), (trac_specs s, changesetRegexp, FnChangeset)] \<and>
    trac_thread env mem f help [(False, ms)] s = Some s2 \<and> trRegs s2 = trRegs s \<and> trRegexp s2 = None \<and> trac_ok s2 \<and>
    (\<lambda>a. (trac_num s2 a, trac_info s2 a)) ` trac_on s2 = (\<lambda>m. (the (col_int (snd m) 1), row_trac (snd m))) ` set ms"
proof -
  from trac_setup_run [OF assms(1), of mem f "help"] obtain s1 x y where
    s1: "trac_setup env mem f help s = Some (True, s1)" "trRegexp s1 = Some (trac_specs s)" "trRegs s1 = trRegs s @ [x, y]"
      "reg_names [x, y] = [(trac_specs s, ticketRegexp, FnTicket), (trac_specs s, changesetRegexp, FnChangeset)]"
      "trac_ok s1" "trac_on s1 = trac_on s" by (elim exE conjE)
  have "trac_rows ms s1" using assms(4) s1(6) by (simp add: trac_rows_def)
  let ?s1 = "s1\<lparr>trStop := False\<rparr>"
  have c: "trac_ok ?s1 = trac_ok s1" "trac_on ?s1 = trac_on s1" using trac_cong [of ?s1 s1] by simp_all
  have "trac_rows ms ?s1" using assms(4) s1(6) c(2) by (simp add: trac_rows_def)
  with trac_reload_run [of ?s1 ms env] c(1) s1(5) assms(5) obtain s2 where
    s2: "trac_reload env ms ?s1 = Some s2" "trac_ok s2" "trRegs s2 = trRegs (trac_unregister ?s1)" "trRegexp s2 = None"
      "(\<lambda>a. (trac_num s2 a, trac_info s2 a)) ` trac_on s2 = (\<lambda>m. (the (col_int (snd m) 1), row_trac (snd m))) ` set ms" by auto
  have "trRegs (trac_unregister ?s1) = trRegs s"
    by (rule trac_unregister_new [where c = "trac_specs s"]) (use assms(1) s1(2-4) in \<open>auto simp: trac_ready_def\<close>)
  with s1 s2 assms(2,3) show ?thesis
    by (intro exI [of _ s1] exI [of _ s2]) (simp add: reg_names_def)
qed

text \<open>When the last Trac setup is deleted, the thread forgets the expressions without
  removing them, and they are still registered after the plugin is unloaded.\<close>

theorem empty_reload_leaves_regexps:
  assumes "trac_ready env s" "wLoaded (trW s)" "\<not> trStop s"
  shows "\<exists>s2 s3. trac_thread env mem f help [(False, []), round] s = Some s2 \<and> trTree s2 = Leaf \<and> trac_shutdown s2 = Some s3 \<and>
    reg_names (trRegs s3) = reg_names (trRegs s) @ [(trac_specs s, ticketRegexp, FnTicket), (trac_specs s, changesetRegexp, FnChangeset)]"
proof -
  from trac_setup_run [OF assms(1), of mem f "help"] obtain s1 x y where
    s1: "trac_setup env mem f help s = Some (True, s1)" "trRegs s1 = trRegs s @ [x, y]"
      "reg_names [x, y] = [(trac_specs s, ticketRegexp, FnTicket), (trac_specs s, changesetRegexp, FnChangeset)]"
      "trac_ok s1" "trW s1 = trW s" by (elim exE conjE)
  let ?s1 = "s1\<lparr>trStop := False\<rparr>"
  have "trac_ok ?s1" using s1(4) trac_cong [of ?s1 s1] by simp
  with trac_reload_run [of ?s1 "[]" env] obtain s2 where
    s2: "trac_reload env [] ?s1 = Some s2" "trRegs s2 = trRegs s1" "trRegexp s2 = None" "trac_on s2 = {}" "trW s2 = trW s1" "trStop s2 = trStop s2"
    by (auto simp: trac_rows_def)
  from s2(4) have L: "trTree s2 = Leaf" by (cases "trTree s2") (auto simp: trac_on_def)
  obtain stop rows where r: "round = (stop, rows)" by (cases round)
  have "\<exists>s4. trac_thread env mem f help [(stop, rows)] s2 = Some s4 \<and> trTree s4 = Leaf \<and> trRegs s4 = trRegs s2 \<and> trRegexp s4 = None"
    using L s2(3,5) s1(5) assms(2) by (auto simp: trac_setup_def)
  then obtain s4 where s4: "trac_thread env mem f help [(stop, rows)] s2 = Some s4" "trTree s4 = Leaf" "trRegs s4 = trRegs s2" "trRegexp s4 = None" by blast
  have "trac_thread env mem f help [(False, []), round] s = Some s4"
    using s1(1) s2(1) s4(1) assms(2,3) by (simp add: r)
  moreover have "\<exists>s5. trac_shutdown s4 = Some s5 \<and> trRegs s5 = trRegs s4"
    using s4(2,4) by (simp add: trac_shutdown_def trac_unregister_def Let_def trac_free_items.simps)
  ultimately show ?thesis using s4 s2(2) s1(2,3) by (auto simp: reg_names_def)
qed


section \<open>Links\<close>

text \<open>Every link to a ticket overflows its buffer by one byte, the one to a changeset
  fits exactly.\<close>

theorem ticket_link_overflows:
  assumes "wChans (trW s) channel = Some ch" "find_trac (ch_channelId ch) s = Some (Some a)" "trItem s a = Some t" "tu_enabled t"
    and "regexp_substring msg ov n 1 = Some x"
  shows "regexpFuncTicket now server channel msg ov n s = None \<and>
    regexpFuncChangeset now server channel msg ov n s = map_option (\<lambda>w. s\<lparr>trW := w\<rparr>)
       (LoggedChannelMessage now server channel (''Trac: Changeset ['' @ x @ ''] URL: '' @ tu_url t @ ''/changeset/'' @ x) (trW s))"
proof -
  have "trac_link 28 ''Trac: Ticket #'' [] ''/ticket/'' (tu_url t) x = None" by (simp add: trac_link_def)
  moreover have "trac_link 36 ''Trac: Changeset ['' '']'' ''/changeset/'' (tu_url t) x =
      Some (''Trac: Changeset ['' @ x @ ''] URL: '' @ tu_url t @ ''/changeset/'' @ x)" by (simp add: trac_link_def)
  moreover have "regexp_link link now server channel msg ov n s =
      (case link (tu_url t) x of None \<Rightarrow> None | Some m \<Rightarrow> map_option (\<lambda>w. s\<lparr>trW := w\<rparr>) (LoggedChannelMessage now server channel m (trW s)))" for link
    using assms by (cases "link (tu_url t) x") (simp_all add: regexp_link_def)
  ultimately show ?thesis unfolding regexpFuncTicket_def regexpFuncChangeset_def by simp
qed

section \<open>The table of a ticket\<close>

text \<open>A field without separators, as \<open>Trac\<close> sends it when nothing has to be quoted.\<close>

definition plain_field :: "string \<Rightarrow> bool" where
  "plain_field f \<longleftrightarrow> CHR '','' \<notin> set f \<and> CHR 0x0A \<notin> set f \<and> nul_free f"

lemma mem_chr_hit: "c \<notin> set f \<Longrightarrow> nul_free f \<Longrightarrow> mem_chr c (f @ c # r) = Some (Some (length f))"
  by (induction f) (auto simp: nul_free_def)

lemma mem_chr_end: "c \<notin> set f \<Longrightarrow> nul_free f \<Longrightarrow> c \<noteq> CHR 0x00 \<Longrightarrow> mem_chr c (f @ CHR 0x00 # r) = Some None"
  by (induction f) (auto simp: nul_free_def)

lemma mem_len_end: "nul_free f \<Longrightarrow> mem_len (f @ CHR 0x00 # r) = Some (length f)"
  by (induction f) (auto simp: nul_free_def)

lemma csv_field_run:
  assumes "plain_field f" "x = CHR '','' \<or> x = CHR 0x00" shows "csv_field (f @ x # r) = Some (f, r)"
proof (cases "x = CHR '',''")
  case True
  with mem_chr_hit [of "CHR '',''" f r] assms(1) show ?thesis by (simp add: csv_field_def plain_field_def)
next
  case False
  with assms mem_chr_end [of "CHR '',''" f r] mem_len_end [of f r] show ?thesis by (simp add: csv_field_def plain_field_def)
qed

abbreviation csv_line :: "string list \<Rightarrow> string" where
  "csv_line fs \<equiv> joined '','' fs"

lemma csv_line_head: "fs \<noteq> [] \<Longrightarrow> \<forall>f \<in> set fs. plain_field f \<Longrightarrow> last fs \<noteq> [] \<Longrightarrow> \<exists>c p. csv_line fs = c # p \<and> c \<noteq> CHR 0x00"
  by (cases fs; cases "hd fs") (auto simp: joined_Cons plain_field_def nul_free_def split: if_splits)

text \<open>The fields of a line, followed by \<open>r\<close>.\<close>

lemma csv_line_Cons: "csv_line (f # fs) @ CHR 0x00 # r = f @ (if fs = [] then CHR 0x00 # r else CHR '','' # csv_line fs @ CHR 0x00 # r)"
  by (simp add: joined_Cons)

lemma csv_fields_line:
  assumes "length hs = length ds" "\<forall>f \<in> set hs \<union> set ds. plain_field f" "hs \<noteq> [] \<Longrightarrow> last hs \<noteq> [] \<and> last ds \<noteq> []" "hs \<noteq> []"
  shows "csv_fields (csv_line hs @ CHR 0x00 # X) (csv_line ds @ CHR 0x00 # Y) t = csv_fields X Y (fold (name_add fst) (zip hs ds) t)"
  using assms
proof (induction hs ds arbitrary: t rule: list_induct2)
  case (Cons h hs d ds)
  obtain c p where c: "csv_line (h # hs) = c # p" "c \<noteq> CHR 0x00" using csv_line_head [of "h # hs"] Cons.prems by auto
  obtain e q where e: "csv_line (d # ds) = e # q" "e \<noteq> CHR 0x00" using csv_line_head [of "d # ds"] Cons.prems by auto
  have f: "csv_field (csv_line (h # hs) @ CHR 0x00 # X) = Some (h, if hs = [] then X else csv_line hs @ CHR 0x00 # X)"
    "csv_field (csv_line (d # ds) @ CHR 0x00 # Y) = Some (d, if ds = [] then Y else csv_line ds @ CHR 0x00 # Y)"
    using csv_field_run Cons.prems(1) unfolding csv_line_Cons by auto
  have "csv_fields (csv_line (h # hs) @ CHR 0x00 # X) (csv_line (d # ds) @ CHR 0x00 # Y) t =
    csv_fields (if hs = [] then X else csv_line hs @ CHR 0x00 # X) (if ds = [] then Y else csv_line ds @ CHR 0x00 # Y) (name_add fst (h, d) t)"
    using c e f by (subst csv_fields.simps) simp
  also have "\<dots> = csv_fields X Y (fold (name_add fst) (zip (h # hs) (d # ds)) t)"
  proof (cases "hs = []")
    case False
    then have "ds \<noteq> []" using Cons.hyps by auto
    with False Cons.IH [of "name_add fst (h, d) t"] Cons.prems show ?thesis by simp
  qed (use Cons.hyps in simp)
  finally show ?case .
qed simp

definition distinct_names :: "string list \<Rightarrow> bool" where
  "distinct_names ns \<longleftrightarrow> sorted_wrt (\<lambda>a b. \<not> same_name a b) ns"

lemma add_fields:
  assumes "named fst t" "\<forall>p \<in> set ps. nul_free (fst p)" "distinct_names (map fst ps)" "\<forall>p \<in> set ps. \<forall>y \<in> set_tree t. \<not> same_name (fst p) (fst y)"
  shows "named fst (fold (name_add fst) ps t) \<and> set_tree (fold (name_add fst) ps t) = set ps \<union> set_tree t"
  using assms
proof (induction ps arbitrary: t)
  case (Cons p ps)
  from Cons.prems have "\<forall>y \<in> set_tree t. \<not> same_name (fst p) (fst y)" by simp
  with named_add [of fst t p] Cons.prems(1,2) have t: "named fst (name_add fst p t)" "set_tree (name_add fst p t) = insert p (set_tree t)"
    by simp_all
  have "\<forall>q \<in> set ps. \<not> same_name (fst q) (fst p)" using Cons.prems(3) by (auto simp: distinct_names_def dest: same_name_sym)
  with Cons.prems(4) t(2) have "\<forall>q \<in> set ps. \<forall>y \<in> set_tree (name_add fst p t). \<not> same_name (fst q) (fst y)" by auto
  with Cons.IH [OF t(1)] Cons.prems(2,3) t(2) show ?case by (simp add: distinct_names_def)
qed simp

lemma plain_line: "\<forall>f \<in> set fs. plain_field f \<Longrightarrow> CHR 0x0A \<notin> set (csv_line fs) \<and> nul_free (csv_line fs)"
  by (induction fs) (auto simp: joined_Cons plain_field_def nul_free_def)

text \<open>What is read from the memory of a page of two lines.\<close>

lemma table_run:
  assumes "length hs = length ds" "hs \<noteq> []" "\<forall>f \<in> set hs \<union> set ds. plain_field f" "last hs \<noteq> []" "last ds \<noteq> []"
  shows "tracTicketCsv (csv_line hs @ CHR 0x0A # csv_line ds @ CHR 0x0A # junk) =
    map_option bt_rebalance (csv_fields (csv_line ds @ CHR 0x00 # junk) junk (fold (name_add fst) (zip hs ds) Leaf))"
proof -
  have "mem_chr (CHR 0x0A) (csv_line hs @ CHR 0x0A # csv_line ds @ CHR 0x0A # junk) = Some (Some (length (csv_line hs)))"
    "mem_chr (CHR 0x0A) (csv_line ds @ CHR 0x0A # junk) = Some (Some (length (csv_line ds)))"
    using mem_chr_hit plain_line [of hs] plain_line [of ds] assms(3) by auto
  moreover have "csv_fields (csv_line hs @ CHR 0x00 # csv_line ds @ CHR 0x00 # junk) (csv_line ds @ CHR 0x00 # junk) Leaf =
      csv_fields (csv_line ds @ CHR 0x00 # junk) junk (fold (name_add fst) (zip hs ds) Leaf)"
    using csv_fields_line [OF assms(1,3) _ assms(2)] assms(4,5) by blast
  ultimately show ?thesis by (simp add: tracTicketCsv_def)
qed

text \<open>Claim C32. The two-line table of a ticket reads back: every header is found with its value,
  if the byte after the page is zero; with any other byte there, which malloc leaves to
  chance, reading runs off the memory of the page. This is for as many values as headers, at
  least one, without comma, line end or zero byte, with a last column that is not empty, and
  with headers that differ (also in more than case).\<close>

theorem ticket_table_read:
  assumes "length hs = length ds" "hs \<noteq> []" "\<forall>f \<in> set hs \<union> set ds. plain_field f" "last hs \<noteq> []" "last ds \<noteq> []" "distinct_names hs"
    and page: "page = csv_line hs @ [CHR 0x0A] @ csv_line ds @ [CHR 0x0A]"
  shows "(\<exists>T. tracTicketCsv (page @ [CHR 0x00]) = Some T \<and> (\<forall>i < length hs. name_find fst (hs ! i) T = Some (hs ! i, ds ! i))) \<and>
    (junk \<noteq> CHR 0x00 \<longrightarrow> tracTicketCsv (page @ [junk]) = None)"
proof
  have "ds \<noteq> []" using assms(1,2) by auto
  with csv_line_head [of ds] assms(3,5) obtain c p where c: "csv_line ds = c # p" "c \<noteq> CHR 0x00" by blast
  let ?T = "fold (name_add fst) (zip hs ds) Leaf"
  note run = table_run [OF assms(1-5)]
  have nf: "nul_free h" if "h \<in> set hs" for h using assms(3) that by (auto simp: plain_field_def)
  have T: "named fst ?T \<and> set_tree ?T = set (zip hs ds) \<union> set_tree Leaf"
    by (rule add_fields) (use assms(1,6) nf in \<open>auto dest: set_zip_leftD\<close>)
  have "tracTicketCsv (page @ [CHR 0x00]) = Some (bt_rebalance ?T)"
    using run [of "[CHR 0x00]"] c by (simp add: page csv_fields.simps [of "c # _"] csv_fields.simps [of _ "[CHR 0x00]"])
  moreover have "name_find fst (hs ! i) (bt_rebalance ?T) = Some (hs ! i, ds ! i)" if i: "i < length hs" for i
  proof -
    have "named fst (bt_rebalance ?T)" using T by (simp add: named_def bt_inv_def)
    moreover have "(hs ! i, ds ! i) \<in> set_tree (bt_rebalance ?T)" using T i assms(1) by (auto simp: set_zip)
    ultimately show ?thesis using named_find [of fst "bt_rebalance ?T" "hs ! i"] nf i by simp
  qed
  ultimately show "\<exists>T. tracTicketCsv (page @ [CHR 0x00]) = Some T \<and> (\<forall>i < length hs. name_find fst (hs ! i) T = Some (hs ! i, ds ! i))" by blast
  show "junk \<noteq> CHR 0x00 \<longrightarrow> tracTicketCsv (page @ [junk]) = None"
  proof
    assume j: "junk \<noteq> CHR 0x00"
    have "csv_fields (csv_line ds @ CHR 0x00 # [junk]) [junk] t = None" for t
    proof -
      obtain d dr where ds: "ds = d # dr" using \<open>ds \<noteq> []\<close> by (cases ds) auto
      let ?r = "if dr = [] then [junk] else csv_line dr @ CHR 0x00 # [junk]"
      have f: "csv_field (csv_line ds @ CHR 0x00 # [junk]) = Some (d, ?r)"
        using csv_field_run [of d] assms(3) unfolding ds csv_line_Cons by auto
      have "\<exists>e q. ?r = e # q \<and> e \<noteq> CHR 0x00"
      proof (cases "dr = []")
        case False
        with csv_line_head [of dr] assms(3,5) show ?thesis by (auto simp: ds)
      qed (use j in simp)
      then have r: "csv_fields ?r [] u = None" for u by (elim exE conjE) (simp add: csv_fields.simps [of _ "[]"])
      have g: "csv_field [junk] = (if junk = CHR '','' then Some ([], []) else None)" using j by (simp add: csv_field_def)
      have "csv_fields (csv_line ds @ CHR 0x00 # [junk]) [junk] t =
          (case csv_field [junk] of None \<Rightarrow> None | Some (fd, data) \<Rightarrow> csv_fields ?r data (name_add fst (d, fd) t))"
        using c j f by (subst csv_fields.simps) (auto split: option.split)
      with g r show ?thesis by simp
    qed
    then show "tracTicketCsv (page @ [junk]) = None" using run [of "[junk]"] by (simp add: page)
  qed
qed


section \<open>Examples\<close>

text \<open>A server with one channel, and a setup for it; all patterns compile to themselves.\<close>

definition trac_world :: world where
  "trac_world = no_world\<lparr>wServers := [3 \<mapsto> new_server\<lparr>sv_serverId := 1, sv_channelNum := Some (Node Leaf 4 Leaf)\<rparr>],
     wChans := [4 \<mapsto> new_channel\<lparr>ch_channelId := 5, ch_fullspec := ''irc/#c''\<rparr>], wTree := Some (Node Leaf 3 Leaf), wLoaded := True\<rparr>"

definition trac_example :: "string trac" where
  "trac_example = \<lparr>trItem = [7 \<mapsto> new_trac\<lparr>tu_serverId := 1, tu_chanId := 5, tu_url := ''http://x'', tu_enabled := True\<rparr>],
     trTree = Node Leaf 7 Leaf, trRegexp = None, trRegs = [], trCmdInit = False, trCmds = Leaf, trStop = False, trNew = None,
     trW = trac_world, trOut = []\<rparr>"

definition trac_example_env :: "string trac_env" where
  "trac_example_env = \<lparr>te_compile = Some, te_study = Some, te_svn = (\<lambda>_. SvnReady), te_log = (\<lambda>_ _. None), te_rss = (\<lambda>_. None),
     te_page = (\<lambda>_. (False, [])), te_junk = CHR ''x''\<rparr>"

lemma trac_example_ready: "trac_ready trac_example_env trac_example"
proof -
  have "trac_spec trac_example 7 = Some ''irc/#c''"
    by (simp add: trac_spec_def trac_example_def FindServerNum_def FindChannelNum_def find_server_def find_num_def
        alive_def trac_world_def new_trac_def server_key_def num_key_def cmp_of_def id_key_def clamp1_def)
  moreover have "trac_ok trac_example"
    by (simp add: trac_ok_def trac_on_def trac_example_def bt_inv_def trac_key_def small_id_def)
  ultimately show ?thesis
    by (simp add: trac_ready_def trac_on_def compiles_def trac_example_env_def) (simp add: trac_example_def)
qed

definition trac_row_of :: "string \<Rightarrow> db_row" where
  "trac_row_of i = map Some [''1'', i, ''http://y'', '''', '''', '''', ''1'']"

lemma trac_row_of_ok: "trac_row (trac_row_of ''6'') 6" "col_int (trac_row_of ''6'') 1 = Some 6"
proof -
  show c: "col_int (trac_row_of ''6'') 1 = Some 6" by code_simp
  have "list_all (\<lambda>k. col (trac_row_of ''6'') k \<noteq> None) [0..<7]" by code_simp
  then have "\<forall>k < 7. col (trac_row_of ''6'') k \<noteq> None" by (simp add: list_all_iff)
  with c show "trac_row (trac_row_of ''6'') 6" by (simp add: trac_row_def small_id_def)
qed

lemma trac_round_witness:
  "\<exists>s1 s2. trac_setup trac_example_env None 9 None trac_example = Some (True, s1) \<and>
    reg_names (trRegs s1) = reg_names (trRegs trac_example) @
      [(trac_specs trac_example, ticketRegexp, FnTicket), (trac_specs trac_example, changesetRegexp, FnChangeset)] \<and>
    trac_thread trac_example_env None 9 None [(False, [(8, trac_row_of ''6'')])] trac_example = Some s2 \<and>
    trRegs s2 = trRegs trac_example \<and> trRegexp s2 = None \<and> trac_ok s2 \<and>
    (\<lambda>a. (trac_num s2 a, trac_info s2 a)) ` trac_on s2 = (\<lambda>m. (the (col_int (snd m) 1), row_trac (snd m))) ` set [(8 :: addr, trac_row_of ''6'')]"
proof (rule trac_round [OF trac_example_ready])
  show "trac_rows [(8, trac_row_of ''6'')] trac_example"
    using trac_row_of_ok by (auto simp: trac_rows_def trac_on_def trac_example_def)
qed (simp_all add: trac_example_def trac_world_def)

lemma empty_reload_leaves_regexps_witness:
  "\<exists>s2 s3. trac_thread trac_example_env None 9 None [(False, []), (False, [])] trac_example = Some s2 \<and> trTree s2 = Leaf \<and>
    trac_shutdown s2 = Some s3 \<and> reg_names (trRegs s3) = reg_names (trRegs trac_example) @
      [(trac_specs trac_example, ticketRegexp, FnTicket), (trac_specs trac_example, changesetRegexp, FnChangeset)]"
  by (rule empty_reload_leaves_regexps [OF trac_example_ready]) (simp_all add: trac_example_def trac_world_def)

lemma ticket_link_overflows_witness:
  "regexpFuncTicket 0 3 4 ''#12'' [0, 3, 1, 3] 2 trac_example = None \<and>
    regexpFuncChangeset 0 3 4 ''#12'' [0, 3, 1, 3] 2 trac_example = map_option (\<lambda>w. trac_example\<lparr>trW := w\<rparr>)
       (LoggedChannelMessage 0 3 4 (''Trac: Changeset ['' @ ''12'' @ ''] URL: '' @ ''http://x'' @ ''/changeset/'' @ ''12'') (trW trac_example))"
proof -
  have w: "wChans (trW trac_example) 4 = Some (new_channel\<lparr>ch_channelId := 5, ch_fullspec := ''irc/#c''\<rparr>)"
    by (simp add: trac_example_def trac_world_def)
  have f: "find_trac 5 trac_example = Some (Some 7)"
    by (simp add: find_trac_def trac_example_def alive_def trac_key_def cmp_of_def id_key_def clamp1_def)
  have t: "trItem trac_example 7 = Some (new_trac\<lparr>tu_serverId := 1, tu_chanId := 5, tu_url := ''http://x'', tu_enabled := True\<rparr>)"
    by (simp add: trac_example_def)
  have r: "regexp_substring ''#12'' [0, 3, 1, 3] 2 1 = Some ''12''" by code_simp
  show ?thesis using ticket_link_overflows [OF w _ t _ r, of 0 3] f by simp
qed

lemma ticket_table_read_witness:
  "(\<exists>T. tracTicketCsv (csv_line [''id'', ''owner''] @ [CHR 0x0A] @ csv_line [''7'', ''bob''] @ [CHR 0x0A] @ [CHR 0x00]) = Some T \<and>
     name_find fst ''owner'' T = Some (''owner'', ''bob'')) \<and>
   tracTicketCsv (csv_line [''id'', ''owner''] @ [CHR 0x0A] @ csv_line [''7'', ''bob''] @ [CHR 0x0A] @ ''x'') = None"
proof -
  have "same_name ''id'' ''owner'' = False" by code_simp
  then have "distinct_names [''id'', ''owner'']" by (simp add: distinct_names_def)
  from ticket_table_read [of "[''id'', ''owner'']" "[''7'', ''bob'']", OF _ _ _ _ _ this refl, of "CHR ''x''"]
  show ?thesis by (auto simp: plain_field_def nul_free_def dest!: spec [of _ "1 :: nat"])
qed

end
