(* ===== verification/Mailbox.thy ===== *)
theory Mailbox
  imports PluginUi Sweep Bot BotCmds DbLoad SchemaUpgrade
begin

text \<open>
  \<open>bot/src/plugins/mailbox.c\<close>, first part: mailboxes and their reports, the three trees (by number,
  by the time of the next poll, by the name of an open stream), loading and reloading. The c-client
  library is a parameter. A mailbox, a report, a stream and a node are addresses. The key of a node
  of the tree of polls is the time in its mailbox, that of a node of the tree of streams the name in
  the stream: both change or disappear with what they point to, and a pass over freed memory gives
  \<open>None\<close>. The lists of reports and of messages, modelled on a store in \<open>LinkedList\<close>, are lists here.
\<close>

section \<open>Schema and queries\<close>

definition CURRENT_SCHEMA_MAILBOX :: int where
  "CURRENT_SCHEMA_MAILBOX = 5"

definition mailboxSchema :: "string list" where
  "mailboxSchema = [
     ''CREATE TABLE `plugin_mailbox` ('' @ nl @ ''    `mailboxId` INT NULL AUTO_INCREMENT PRIMARY KEY ,'' @ nl @
       ''    `enabled` INT NOT NULL DEFAULT '' @ qt @ ''1'' @ qt @ '','' @ nl @ ''    `server` VARCHAR( 255 ) NOT NULL ,'' @ nl @
       ''    `user` VARCHAR( 255 ) NOT NULL ,'' @ nl @ ''    `port` INT NOT NULL DEFAULT '' @ qt @ ''0'' @ qt @ '','' @ nl @
       ''    `password` VARCHAR( 255 ) NOT NULL ,'' @ nl @ ''    `protocol` VARCHAR( 32 ) NOT NULL ,'' @ nl @
       ''    `options` VARCHAR( 255 ) NOT NULL ,'' @ nl @ ''    `mailbox` VARCHAR( 255 ) NOT NULL ,'' @ nl @
       ''    `pollInterval` INT NOT NULL DEFAULT '' @ qt @ ''600'' @ qt @ '','' @ nl @
       ''    `lastCheck` INT NOT NULL DEFAULT '' @ qt @ ''0'' @ qt @ '','' @ nl @
       ''    `lastRead` INT NOT NULL DEFAULT '' @ qt @ ''0'' @ qt @ nl @ ''    PRIMARY KEY ( `mailboxId` )'' @ nl @
       '') TYPE = MYISAM'' @ nl,
     ''CREATE TABLE `plugin_mailbox_report` ('' @ nl @ ''  `mailboxId` INT NOT NULL ,'' @ nl @
       ''  `enabled` INT NOT NULL DEFAULT '' @ qt @ ''1'' @ qt @ '','' @ nl @ ''  `channelId` INT NOT NULL ,'' @ nl @
       ''  `nick` VARCHAR( 64 ) NOT NULL ,'' @ nl @ ''  `format` TEXT NOT NULL'' @ nl @
       ''  PRIMARY KEY ( `mailboxId` , `channelId` , `nick` )'' @ nl @ '') TYPE = MYISAM'' @ nl]"

definition mailboxSchemaUpgrade :: "string list list" where
  "mailboxSchemaUpgrade = [[],
     [''CREATE TABLE `plugin_mailbox_report` ('' @ nl @ ''  `mailboxId` INT NOT NULL ,'' @ nl @ ''  `channelId` INT NOT NULL ,'' @ nl @
      ''  `serverId` INT NOT NULL ,'' @ nl @ ''  `nick` VARCHAR( 64 ) NOT NULL ,'' @ nl @ ''  `format` TEXT NOT NULL'' @ nl @
      '') TYPE = MYISAM'' @ nl],
     [''ALTER TABLE `plugin_mailbox` ADD `enabled` INT NOT NULL DEFAULT '' @ qt @ ''1'' @ qt @ '' AFTER `mailboxId`'',
      ''ALTER TABLE `plugin_mailbox_report` ADD `enabled` INT NOT NULL DEFAULT '' @ qt @ ''1'' @ qt @ '' AFTER `mailboxId`''],
     [''ALTER TABLE `plugin_mailbox_report` DROP PRIMARY KEY ,'' @ nl @
      ''ADD PRIMARY KEY ( `mailboxId` , `channelId` , `serverId` , `nick` )'',
      ''ALTER TABLE `plugin_mailbox` DROP PRIMARY KEY, '' @ nl @ ''ADD PRIMARY KEY ( `mailboxId` )''],
     [''UPDATE `plugin_mailbox_report` SET `channelId` = `serverId` WHERE `nick` != '' @ qt @ qt,
      ''ALTER TABLE `plugin_mailbox_report` DROP PRIMARY KEY, '' @ nl @ ''ADD PRIMARY KEY ( `mailboxId`, `channelId`, `nick` ), '' @
      nl @ ''DROP `serverId'']]"

definition mailboxQueryTable :: "string list" where
  "mailboxQueryTable = [
     ''SELECT mailboxId, server, port, user, password, protocol, options, mailbox, pollInterval, lastCheck, lastRead, '' @
       ''enabled FROM `plugin_mailbox` ORDER BY `mailboxId` ASC'',
     ''UPDATE `plugin_mailbox` SET `lastCheck` = ? WHERE `mailboxId` = ?'',
     ''SELECT channelId, nick, format, enabled FROM `plugin_mailbox_report` WHERE mailboxId = ?'',
     ''UPDATE `plugin_mailbox` SET `lastRead` = ? WHERE `mailboxId` = ?'',
     ''UPDATE `plugin_mailbox` SET `server` = ?, `port` = ?, `user` = ?, `password` = ?, `protocol` = ?, '' @
       ''`options` = ?, `mailbox` = ?, `pollInterval` = ?, `enabled` = ? WHERE `mailboxId` = ?'',
     ''UPDATE `plugin_mailbox_report` SET `mailboxId` = ?, `channelId` = ?, `nick` = ?, `format` = ?, `enabled` = ? '' @
       ''WHERE `mailboxId` = ? AND `channelId` = ? AND `nick` = ?'',
     ''INSERT INTO `plugin_mailbox` ( `server`, `port`, `user`, `password`, `protocol`, `options`, `mailbox`, '' @
       ''`pollInterval`, `enabled`, `lastCheck`, `lastRead`) VALUES ( ?, ?, ?, ?, ?, ?, ?, ?, ?, 0, 0 )'',
     ''INSERT INTO `plugin_mailbox_report` ( `mailboxId`, `channelId`, `nick`, `format`, `enabled` ) '' @
       ''VALUES ( ?, ?, ?, ?, ? )'']"

section \<open>Data\<close>

text \<open>\<open>mr_addr\<close>: the address of the report.\<close>

record MailboxReport_t =
  mr_addr :: addr
  mr_mailboxId :: int
  mr_oldMailboxId :: int
  mr_chanServId :: int
  mr_oldChanServId :: int
  mr_serverId :: int
  mr_server :: ptr
  mr_channelId :: int
  mr_channel :: ptr
  mr_nick :: string
  mr_oldNick :: "string option"
  mr_format :: string
  mr_enabled :: bool
  mr_visited :: bool
  mr_modified :: bool
  mr_justAdded :: bool
  mr_menuText :: "string option"

definition new_report :: "addr \<Rightarrow> MailboxReport_t" where
  "new_report a = \<lparr>mr_addr = a, mr_mailboxId = 0, mr_oldMailboxId = 0, mr_chanServId = 0, mr_oldChanServId = 0, mr_serverId = 0,
     mr_server = None, mr_channelId = 0, mr_channel = None, mr_nick = [], mr_oldNick = None, mr_format = [], mr_enabled = False,
     mr_visited = False, mr_modified = False, mr_justAdded = False, mr_menuText = None\<rparr>"

text \<open>What the library parses out of the address of a mailbox.\<close>

record NETMBX =
  nm_orighost :: string
  nm_user :: string
  nm_mailbox :: string
  nm_service :: string
  nm_port :: int

record Mailbox_t =
  mb_mailboxId :: int
  mb_server :: string
  mb_port :: int
  mb_user :: string
  mb_password :: string
  mb_protocol :: string
  mb_options :: string
  mb_mailbox :: string
  mb_interval :: int
  mb_lastCheck :: int
  mb_lastRead :: int
  mb_nextPoll :: int
  mb_enabled :: bool
  mb_serverSpec :: string
  mb_newMessages :: int
  mb_recentMessages :: int
  mb_totalMessages :: int
  mb_messageList :: "int list option"
  mb_netmbx :: NETMBX
  mb_stream :: ptr
  mb_reports :: "MailboxReport_t list option"
  mb_visited :: bool
  mb_modified :: bool
  mb_justAdded :: bool
  mb_menuText :: "string option"

definition new_mailbox :: Mailbox_t where
  "new_mailbox = \<lparr>mb_mailboxId = 0, mb_server = [], mb_port = 0, mb_user = [], mb_password = [], mb_protocol = [],
     mb_options = [], mb_mailbox = [], mb_interval = 0, mb_lastCheck = 0, mb_lastRead = 0, mb_nextPoll = 0, mb_enabled = False,
     mb_serverSpec = [], mb_newMessages = 0, mb_recentMessages = 0, mb_totalMessages = 0, mb_messageList = None,
     mb_netmbx = \<lparr>nm_orighost = [], nm_user = [], nm_mailbox = [], nm_service = [], nm_port = 0\<rparr>, mb_stream = None,
     mb_reports = None, mb_visited = False, mb_modified = False, mb_justAdded = False, mb_menuText = None\<rparr>"

text \<open>The sender, the first recipient and other headers of a message; a missing one is a \<open>NULL\<close> pointer.\<close>

record envelope =
  ev_from :: "(string \<times> string) option"
  ev_to :: "(string \<times> string) option"
  ev_subject :: "string option"
  ev_date :: "string option"
  ev_messageId :: "string option"

text \<open>The numbers that a status report brings, those that were asked for.\<close>

record MAILSTATUS =
  ms_messages :: "int option"
  ms_recent :: "int option"
  ms_unseen :: "int option"

text \<open>
  The library at a time (the number of clock readings before): opening a mailbox gives a stream with
  the name of the mailbox, or fails; the status reports and the numbers of the messages that it calls
  back with; the header, text and length of a message.
\<close>

record mail_env =
  me_now :: "nat \<Rightarrow> int"
  me_open :: "nat \<Rightarrow> string \<Rightarrow> (addr \<times> string) option"
  me_ping :: "nat \<Rightarrow> addr \<Rightarrow> bool"
  me_status :: "nat \<Rightarrow> addr \<Rightarrow> MAILSTATUS list"
  me_search :: "nat \<Rightarrow> addr \<Rightarrow> int list"
  me_envelope :: "addr \<Rightarrow> int \<Rightarrow> envelope"
  me_text :: "addr \<Rightarrow> int \<Rightarrow> string \<times> nat"
  me_net :: "string \<Rightarrow> NETMBX"

datatype mail_effect = MlUi plug_effect | MlSleep int | MlSeen addr int

text \<open>
  \<open>mlStream\<close>: the open streams with their names. A node of \<open>mlStreams\<close> is its own address, its mailbox
  and the stream that its key points into.
\<close>

record mail =
  mlBox :: "addr \<rightharpoonup> Mailbox_t"
  mlStream :: "addr \<rightharpoonup> string"
  mlTree :: "addr tree"
  mlActive :: "(addr \<times> addr) tree"
  mlStreams :: "(addr \<times> addr \<times> addr) tree"
  mlReload :: bool
  mlStop :: bool
  mlNew :: "MailboxReport_t option"
  mlTick :: nat
  mlW :: world
  mlOut :: "mail_effect list"

definition ml_emit :: "mail_effect list \<Rightarrow> mail \<Rightarrow> mail" where
  "ml_emit es s = s\<lparr>mlOut := mlOut s @ es\<rparr>"

definition ml_ui :: "plug_effect list \<Rightarrow> mail \<Rightarrow> mail" where
  "ml_ui es s = ml_emit (map MlUi es) s"

lemma ml_emit_simps [simp]:
  "mlBox (ml_emit es s) = mlBox s" "mlStream (ml_emit es s) = mlStream s" "mlTree (ml_emit es s) = mlTree s"
  "mlActive (ml_emit es s) = mlActive s" "mlStreams (ml_emit es s) = mlStreams s" "mlReload (ml_emit es s) = mlReload s"
  "mlStop (ml_emit es s) = mlStop s" "mlNew (ml_emit es s) = mlNew s" "mlTick (ml_emit es s) = mlTick s" "mlW (ml_emit es s) = mlW s"
  by (simp_all add: ml_emit_def)

lemma ml_ui_simps [simp]:
  "mlBox (ml_ui ps s) = mlBox s" "mlStream (ml_ui ps s) = mlStream s" "mlTree (ml_ui ps s) = mlTree s"
  "mlActive (ml_ui ps s) = mlActive s" "mlStreams (ml_ui ps s) = mlStreams s" "mlReload (ml_ui ps s) = mlReload s"
  "mlStop (ml_ui ps s) = mlStop s" "mlNew (ml_ui ps s) = mlNew s" "mlTick (ml_ui ps s) = mlTick s" "mlW (ml_ui ps s) = mlW s"
  by (simp_all add: ml_ui_def)

definition upd_box :: "addr \<Rightarrow> (Mailbox_t \<Rightarrow> Mailbox_t) \<Rightarrow> mail \<Rightarrow> mail option" where
  "upd_box a f s = do { d \<leftarrow> mlBox s a; Some (s\<lparr>mlBox := (mlBox s)(a \<mapsto> f d)\<rparr>) }"

section \<open>The three trees\<close>

definition box_key :: "mail \<Rightarrow> addr \<Rightarrow> BTreeKey" where
  "box_key s a = id_key (case mlBox s a of Some b \<Rightarrow> mb_mailboxId b | None \<Rightarrow> 0)"

definition due_key :: "mail \<Rightarrow> addr \<times> addr \<Rightarrow> BTreeKey" where
  "due_key s x = id_key (case mlBox s (snd x) of Some b \<Rightarrow> mb_nextPoll b | None \<Rightarrow> 0)"

definition stream_key :: "mail \<Rightarrow> addr \<times> addr \<times> addr \<Rightarrow> BTreeKey" where
  "stream_key s x = KString (case mlStream s (snd (snd x)) of Some n \<Rightarrow> n | None \<Rightarrow> [])"

definition find_box :: "int \<Rightarrow> mail \<Rightarrow> ptr option" where
  "find_box i s =
     (if alive (mlBox s) (mlTree s) then Some (bt_find (cmp_of KeyCompareInt) (box_key s) (id_key i) (mlTree s)) else None)"

definition checks_alive :: "mail \<Rightarrow> bool" where
  "checks_alive s \<longleftrightarrow> alive (mlBox s) (map_tree snd (mlActive s))"

definition find_check :: "int \<Rightarrow> mail \<Rightarrow> (addr \<times> addr) option option" where
  "find_check t s = (if checks_alive s then Some (find_time (due_key s) t (mlActive s)) else None)"

definition streams_alive :: "mail \<Rightarrow> bool" where
  "streams_alive s \<longleftrightarrow> alive (mlStream s) (map_tree (snd \<circ> snd) (mlStreams s))"

text \<open>
  The nodes whose keys \<open>BalancedBTreeFind\<close> and \<open>BalancedBTreeFindParent\<close> read on their way. A search
  of the streams reads the names in the streams of these nodes, and of no others.
\<close>

fun find_path :: "('k \<Rightarrow> 'k \<Rightarrow> int) \<Rightarrow> ('a \<Rightarrow> 'k) \<Rightarrow> 'k \<Rightarrow> 'a tree \<Rightarrow> 'a list" where
  "find_path cmp key k Leaf = []"
| "find_path cmp key k (Node l x r) =
     x # (if cmp k (key x) = 0 then [] else if cmp k (key x) < 0 then find_path cmp key k l else find_path cmp key k r)"

fun parent_path :: "('k \<Rightarrow> 'k \<Rightarrow> int) \<Rightarrow> ('a \<Rightarrow> 'k) \<Rightarrow> 'k \<Rightarrow> 'a tree \<Rightarrow> 'a list" where
  "parent_path cmp key k Leaf = []"
| "parent_path cmp key k (Node l x r) =
     x # (if cmp k (key x) < 0 then parent_path cmp key k l else parent_path cmp key k r)"

definition stream_path :: "string \<Rightarrow> mail \<Rightarrow> (addr \<times> addr \<times> addr) list" where
  "stream_path n s = find_path (cmp_of KeyCompareString) (stream_key s) (KString n) (mlStreams s)"

definition find_stream :: "string \<Rightarrow> mail \<Rightarrow> (addr \<times> addr \<times> addr) option option" where
  "find_stream n s =
     (if \<forall>x \<in> set (stream_path n s). mlStream s (snd (snd x)) \<noteq> None
      then Some (bt_find (cmp_of KeyCompareString) (stream_key s) (KString n) (mlStreams s)) else None)"

definition add_stream :: "addr \<times> addr \<times> addr \<Rightarrow> mail \<Rightarrow> mail option" where
  "add_stream x s =
     (if \<forall>y \<in> set (parent_path (cmp_of KeyCompareString) (stream_key s) (stream_key s x) (mlStreams s)). mlStream s (snd (snd y)) \<noteq> None
      then Some (s\<lparr>mlStreams := bt_insert (cmp_of KeyCompareString) (stream_key s) x (mlStreams s)\<rparr>) else None)"

lemma find_path_nodes: "set (find_path cmp key k T) \<subseteq> set_tree T"
  by (induction T) auto

lemma parent_path_nodes: "set (parent_path cmp key k T) \<subseteq> set_tree T"
  by (induction T) auto

lemma bt_find_path: "bt_find cmp key k T = Some x \<Longrightarrow> x \<in> set (find_path cmp key k T)"
  by (induction T) (auto split: if_splits)

text \<open>When the key of one node changes, only the searches that read it see a difference.\<close>

lemma find_path_changed:
  assumes "\<And>y. y \<in> set_tree T \<Longrightarrow> y \<noteq> x \<Longrightarrow> key' y = key y"
  shows "x \<in> set (find_path cmp key k T) \<Longrightarrow> x \<in> set (find_path cmp key' k T)"
    and "x \<notin> set (find_path cmp key k T) \<Longrightarrow> find_path cmp key' k T = find_path cmp key k T \<and> bt_find cmp key' k T = bt_find cmp key k T"
proof -
  show "x \<in> set (find_path cmp key k T) \<Longrightarrow> x \<in> set (find_path cmp key' k T)"
    using assms
  proof (induction T)
    case (Node l y r)
    show ?case
    proof (cases "y = x")
      case False
      with Node.prems(2) [of y] have "key' y = key y" by simp
      with Node False show ?thesis by (simp split: if_splits)
    qed simp
  qed simp
  show "x \<notin> set (find_path cmp key k T) \<Longrightarrow> find_path cmp key' k T = find_path cmp key k T \<and> bt_find cmp key' k T = bt_find cmp key k T"
    using assms
  proof (induction T)
    case (Node l y r)
    with Node.prems(2) [of y] have "key' y = key y" by auto
    with Node show ?case by (simp split: if_splits)
  qed simp
qed

lemma find_stream_alive:
  assumes "streams_alive s"
  shows "find_stream n s = Some (bt_find (cmp_of KeyCompareString) (stream_key s) (KString n) (mlStreams s))"
  using assms find_path_nodes [of "cmp_of KeyCompareString" "stream_key s" "KString n" "mlStreams s"]
  by (auto simp: find_stream_def streams_alive_def alive_def stream_path_def tree.set_map)

lemma add_stream_alive:
  assumes "streams_alive s"
  shows "add_stream x s = Some (s\<lparr>mlStreams := bt_insert (cmp_of KeyCompareString) (stream_key s) x (mlStreams s)\<rparr>)"
  using assms parent_path_nodes [of "cmp_of KeyCompareString" "stream_key s" "stream_key s x" "mlStreams s"]
  by (auto simp: add_stream_def streams_alive_def alive_def tree.set_map)

text \<open>Putting a node of a mailbox at a free time: the nodes it may still have move along.\<close>

definition box_at :: "mail \<Rightarrow> addr \<Rightarrow> int \<Rightarrow> addr \<times> addr \<Rightarrow> BTreeKey" where
  "box_at s a t x = (if snd x = a then id_key t else due_key s x)"

definition add_check :: "addr \<times> addr \<Rightarrow> mail \<Rightarrow> mail option" where
  "add_check x s = do {
     b \<leftarrow> mlBox s (snd x);
     if checks_alive s then do {
       t \<leftarrow> unconflicting (box_at s (snd x)) (mlActive s) (mb_nextPoll b);
       s \<leftarrow> upd_box (snd x) (\<lambda>b. b\<lparr>mb_nextPoll := t\<rparr>) s;
       Some (s\<lparr>mlActive := add_time (due_key s) x (mlActive s)\<rparr>)
     } else None
   }"

text \<open>The node that is due at the time of a mailbox is taken out.\<close>

definition drop_check :: "addr \<Rightarrow> mail \<Rightarrow> mail option" where
  "drop_check a s = do {
     b \<leftarrow> mlBox s a;
     x \<leftarrow> find_check (mb_nextPoll b) s;
     Some (case x of None \<Rightarrow> s | Some x \<Rightarrow> s\<lparr>mlActive := bt_remove x (mlActive s)\<rparr>)
   }"

text \<open>\<open>mail_close\<close>: the stream is freed; \<open>NULL\<close> is allowed.\<close>

definition mail_close :: "ptr \<Rightarrow> mail \<Rightarrow> mail option" where
  "mail_close p s =
     (case p of
        None \<Rightarrow> Some s
      | Some st \<Rightarrow> do { _ \<leftarrow> mlStream s st; Some (s\<lparr>mlStream := (mlStream s)(st := None)\<rparr>) })"

section \<open>Loading the mailboxes\<close>

definition mailbox_settings :: "db_row \<Rightarrow> Mailbox_t \<Rightarrow> Mailbox_t option" where
  "mailbox_settings row b = do {
     i \<leftarrow> col_int row 0;
     server \<leftarrow> col row 1;
     port \<leftarrow> col_int row 2;
     user \<leftarrow> col row 3;
     password \<leftarrow> col row 4;
     protocol \<leftarrow> col row 5;
     options \<leftarrow> col row 6;
     mailbox \<leftarrow> col row 7;
     interval \<leftarrow> col_int row 8;
     lastCheck \<leftarrow> col_int row 9;
     lastRead \<leftarrow> col_int row 10;
     enabled \<leftarrow> col_int row 11;
     Some (b\<lparr>mb_mailboxId := i, mb_server := server, mb_port := port, mb_user := user, mb_password := password,
       mb_protocol := protocol, mb_options := options, mb_mailbox := (if mailbox = [] then ''INBOX'' else mailbox),
       mb_interval := interval, mb_lastCheck := lastCheck, mb_lastRead := lastRead, mb_enabled := (enabled \<noteq> 0), mb_visited := True\<rparr>)
   }"

text \<open>The address of a mailbox; user and service are printed into buffers of 300 and 64 bytes.\<close>

definition server_spec :: "Mailbox_t \<Rightarrow> string option" where
  "server_spec b =
     (let port = (if mb_port b = 0 then [] else '':'' @ fmt_d (mb_port b));
          service = ''/service='' @ mb_protocol b;
          user = ''/user='' @ mb_user b in
      if length service < 64 \<and> length user < 300
      then Some (''{'' @ mb_server b @ port @ user @ service @ mb_options b @ ''}'' @ mb_mailbox b) else None)"

definition mailbox_menu_text :: "nat \<Rightarrow> Mailbox_t \<Rightarrow> string" where
  "mailbox_menu_text digits b =
     snprintf (length (mb_server b) + length (mb_user b) + length (mb_protocol b) + 30)
       (fmt_wd digits (mb_mailboxId b) @ '' - '' @ mb_user b @ ''@'' @ mb_server b @ '' ('' @ mb_protocol b @ '')'')"

text \<open>
  What a row sets in a known or new mailbox: the mailbox, whether it was known and enabled, whether its
  address changed. \<open>np\<close> is the poll time for a mailbox that is due.
\<close>

definition load_mailbox_data :: "nat \<Rightarrow> addr \<Rightarrow> db_row \<Rightarrow> int \<Rightarrow> mail \<Rightarrow> (addr \<times> bool \<times> bool \<times> bool \<times> int \<times> mail) option" where
  "load_mailbox_data digits new row np s = do {
     i \<leftarrow> col_int row 0;
     item \<leftarrow> find_box i s;
     let found = (item \<noteq> None);
         a = (case item of Some a \<Rightarrow> a | None \<Rightarrow> new);
         s = (if found then s else s\<lparr>mlBox := (mlBox s)(a \<mapsto> new_mailbox)\<rparr>) in do {
     old \<leftarrow> mlBox s a;
     b \<leftarrow> mailbox_settings row old;
     spec \<leftarrow> server_spec b;
     let m = mailbox_menu_text digits b;
         s = ml_ui (menu_effects a (mb_menuText b) m (mb_justAdded b)) s;
         newBox = (found \<and> mb_serverSpec old \<noteq> spec);
         replan = (\<not> found \<or> \<not> mb_enabled old \<and> mb_enabled b \<or> newBox \<or> mb_modified b);
         due = (mb_lastCheck b + mb_interval b \<le> np + 1);
         b = b\<lparr>mb_serverSpec := spec, mb_menuText := Some m, mb_justAdded := False,
               mb_nextPoll := (if \<not> replan then mb_nextPoll b else if due then np else mb_lastCheck b + mb_interval b)\<rparr>;
         s = s\<lparr>mlBox := (mlBox s)(a \<mapsto> b)\<rparr> in
     Some (a, found, mb_enabled old, newBox, if replan \<and> due then np + 1 else np,
       if found then s else s\<lparr>mlTree := bt_insert (cmp_of KeyCompareInt) (box_key s) a (mlTree s)\<rparr>) }
   }"

text \<open>
  A mailbox that was disabled or changed: the node found at its (possibly new) poll time is taken out,
  its stream is closed and leaves the tree of streams.
\<close>

definition stop_mailbox :: "addr \<Rightarrow> mail \<Rightarrow> mail option" where
  "stop_mailbox a s = do {
     s \<leftarrow> drop_check a s;
     b \<leftarrow> mlBox s a;
     case mb_stream b of
       None \<Rightarrow> Some s
     | Some st \<Rightarrow> do {
         n \<leftarrow> mlStream s st;
         x \<leftarrow> find_stream n s;
         s \<leftarrow> mail_close (Some st) s;
         s \<leftarrow> upd_box a (\<lambda>b. b\<lparr>mb_stream := None\<rparr>) s;
         Some (case x of None \<Rightarrow> s | Some x \<Rightarrow> s\<lparr>mlStreams := bt_remove x (mlStreams s)\<rparr>)
       }
   }"

text \<open>A new stream, entered under its name; \<open>node\<close> is what \<open>malloc\<close> gives for its node.\<close>

definition start_stream :: "mail_env \<Rightarrow> addr \<Rightarrow> addr \<Rightarrow> mail \<Rightarrow> mail option" where
  "start_stream env node a s = do {
     b \<leftarrow> mlBox s a;
     case me_open env (mlTick s) (mb_serverSpec b) of
       None \<Rightarrow> upd_box a (\<lambda>b. b\<lparr>mb_netmbx := me_net env (mb_serverSpec b), mb_stream := None\<rparr>) s
     | Some (st, n) \<Rightarrow> do {
         s \<leftarrow> upd_box a (\<lambda>b. b\<lparr>mb_netmbx := me_net env (mb_serverSpec b), mb_stream := Some st\<rparr>) (s\<lparr>mlStream := (mlStream s)(st \<mapsto> n)\<rparr>);
         add_stream (node, a, st) s
       }
   }"

text \<open>\<open>memory\<close>: what \<open>malloc\<close> gives for a new mailbox and for the nodes of polls and streams.\<close>

type_synonym mail_row = "(addr \<times> addr \<times> addr) \<times> db_row"

definition load_mailbox_row :: "mail_env \<Rightarrow> nat \<Rightarrow> mail_row \<Rightarrow> int \<times> mail \<Rightarrow> (int \<times> mail) option" where
  "load_mailbox_row env digits memrow nps = (case (memrow, nps) of (((new, node, snode), row), (np, s)) \<Rightarrow> do {
     (a, found, old, newBox, np, s) \<leftarrow> load_mailbox_data digits new row np s;
     b \<leftarrow> mlBox s a;
     s \<leftarrow> (if found \<and> (old \<and> \<not> mb_enabled b \<or> newBox \<or> mb_modified b) then stop_mailbox a s else Some s);
     let idle = (\<not> mb_enabled b \<or> old \<and> \<not> newBox \<and> \<not> mb_modified b) in do {
     s \<leftarrow> upd_box a (\<lambda>b. b\<lparr>mb_modified := False\<rparr>) s;
     s \<leftarrow> (if idle then Some s else do { s \<leftarrow> add_check (node, a) s; start_stream env snode a s });
     Some (np, s) }
   })"

definition check_text :: "mail \<Rightarrow> int \<Rightarrow> addr \<times> addr \<Rightarrow> string option" where
  "check_text s now x = do {
     b \<leftarrow> mlBox s (snd x);
     let t = fmt_d (mb_mailboxId b) @ '' '' @ mb_serverSpec b @ ''('' @ fmt_d (mb_nextPoll b) @ ''/'' @ fmt_d (mb_nextPoll b - now) @ '')'' in
     if length t < 256 then Some t else None
   }"

fun botMailboxDump :: "mail \<Rightarrow> int \<Rightarrow> (addr \<times> addr) tree \<Rightarrow> string option option" where
  "botMailboxDump s now Leaf = Some None"
| "botMailboxDump s now (Node l x r) = do {
     message \<leftarrow> botMailboxDump s now l;
     t \<leftarrow> check_text s now x;
     let m = (case message of None \<Rightarrow> t | Some m \<Rightarrow> m @ '', '' @ t) in do {
     submsg \<leftarrow> botMailboxDump s now r;
     Some (Some (case submsg of None \<Rightarrow> m | Some u \<Rightarrow> m @ '', '' @ u)) }
   }"

definition result_load_mailboxes :: "mail_env \<Rightarrow> mail_row list \<Rightarrow> mail \<Rightarrow> mail option" where
  "result_load_mailboxes env rows s =
     (if rows = [] then Some s
      else do {
        let now = me_now env (mlTick s) in do {
        (np, s) \<leftarrow> foldM (load_mailbox_row env (menu_digits (length rows))) rows (now, s);
        let s = s\<lparr>mlTree := bt_rebalance (mlTree s), mlStreams := bt_rebalance (mlStreams s), mlActive := bt_rebalance (mlActive s)\<rparr> in do {
        _ \<leftarrow> botMailboxDump s now (mlActive s);
        Some s } }
      })"

definition db_load_mailboxes :: "mail_env \<Rightarrow> mail_row list \<Rightarrow> mail \<Rightarrow> mail option" where
  "db_load_mailboxes env rows s = result_load_mailboxes env rows (ml_ui [PeQuery (0, None, True)] s)"

end
