(* ===== verification/MailboxReload.thy ===== *)
theory MailboxReload
  imports Mailbox
begin

text \<open>
  \<open>bot/src/plugins/mailbox.c\<close>, second part: the reports of the mailboxes, and the reload that follows
  the database. The \<open>rows\<close> of a mailbox are what the database answers for its number, with the addresses
  that \<open>malloc\<close> gives for new reports.
\<close>

section \<open>Reports\<close>

definition report_menu_text :: "MailboxReport_t \<Rightarrow> string" where
  "report_menu_text r =
     snprintf 64 (''Report M: '' @ fmt_d (mr_mailboxId r) @ '', S: '' @ fmt_d (mr_serverId r) @ '', C: '' @ fmt_d (mr_channelId r))"

definition resetMenuText :: "MailboxReport_t \<Rightarrow> MailboxReport_t \<times> plug_effect list" where
  "resetMenuText r =
     (let m = report_menu_text r in
      (r\<lparr>mr_menuText := Some m\<rparr>, [PeMenuRemove 2 (mr_menuText r), PeMenuAdd 2 m (Some (mr_addr r))]))"

text \<open>Looking up server and channel, once the channels are loaded.\<close>

definition locate_report :: "world \<Rightarrow> MailboxReport_t \<Rightarrow> (MailboxReport_t \<times> plug_effect list) option" where
  "locate_report w r = do {
     i \<leftarrow> (if mr_nick r = [] then FindServerWithChannel (mr_channelId r) w else Some (mr_serverId r));
     let (r, es) = (if mr_serverId r \<noteq> i then resetMenuText (r\<lparr>mr_serverId := i\<rparr>) else (r, [])) in do {
     sv \<leftarrow> FindServerNum (mr_serverId r) w;
     ch \<leftarrow> (if mr_channelId r > 0 then FindChannelNum sv (mr_channelId r) w else Some (mr_channel r));
     Some (r\<lparr>mr_server := sv, mr_channel := ch\<rparr>, es) }
   }"

text \<open>A report with a nick has a server, one without has a channel.\<close>

definition report_settings :: "world \<Rightarrow> Mailbox_t \<Rightarrow> db_row \<Rightarrow> MailboxReport_t \<Rightarrow> MailboxReport_t option" where
  "report_settings w b row r = do {
     i \<leftarrow> col_int row 0;
     nick \<leftarrow> col row 1;
     format \<leftarrow> col row 2;
     enabled \<leftarrow> col_int row 3;
     server \<leftarrow> (if nick \<noteq> [] then Some i else FindServerWithChannel i w);
     Some (r\<lparr>mr_mailboxId := mb_mailboxId b, mr_chanServId := i, mr_channelId := (if nick \<noteq> [] then 0 else i),
       mr_serverId := server, mr_nick := nick, mr_format := format, mr_enabled := (enabled \<noteq> 0), mr_visited := True,
       mr_modified := False\<rparr>)
   }"

definition is_report :: "int \<Rightarrow> string \<Rightarrow> MailboxReport_t \<Rightarrow> bool" where
  "is_report i nick r \<longleftrightarrow> mr_chanServId r = i \<and> mr_nick r = nick"

definition load_report_row ::
    "world \<Rightarrow> Mailbox_t \<Rightarrow> addr \<times> db_row \<Rightarrow> MailboxReport_t list \<times> plug_effect list \<Rightarrow> (MailboxReport_t list \<times> plug_effect list) option" where
  "load_report_row w b memrow rses = (case (memrow, rses) of ((new, row), (rs, es)) \<Rightarrow> do {
     i \<leftarrow> col_int row 0;
     nick \<leftarrow> col row 1;
     let before = takeWhile (\<lambda>r. \<not> is_report i nick r) rs;
         rest = dropWhile (\<lambda>r. \<not> is_report i nick r) rs in do {
     r \<leftarrow> report_settings w b row (case rest of [] \<Rightarrow> new_report new | r # _ \<Rightarrow> r);
     let m = report_menu_text r;
         ms = menu_effects (mr_addr r) (mr_menuText r) m (mr_justAdded r);
         r = r\<lparr>mr_menuText := Some m, mr_justAdded := False\<rparr> in do {
     (r, ls) \<leftarrow> (if wLoaded w then locate_report w r else Some (r\<lparr>mr_server := None, mr_channel := None\<rparr>, []));
     let r = r\<lparr>mr_oldMailboxId := mr_mailboxId r, mr_oldChanServId := mr_chanServId r, mr_oldNick := Some (mr_nick r)\<rparr> in
     Some (before @ r # tl rest, es @ ms @ ls) } }
   })"

definition result_load_reports :: "(addr \<times> db_row) list \<Rightarrow> addr \<Rightarrow> mail \<Rightarrow> mail option" where
  "result_load_reports rows a s =
     (if rows = [] then Some s
      else do {
        b \<leftarrow> mlBox s a;
        rs \<leftarrow> mb_reports b;
        (rs, es) \<leftarrow> foldM (load_report_row (mlW s) b) rows (rs, []);
        upd_box a (\<lambda>b. b\<lparr>mb_reports := Some rs\<rparr>) (ml_ui es s)
      })"

type_synonym report_rows = "int \<Rightarrow> (addr \<times> db_row) list"

fun dbRecurseReports :: "report_rows \<Rightarrow> addr tree \<Rightarrow> mail \<Rightarrow> mail option" where
  "dbRecurseReports rows Leaf s = Some s"
| "dbRecurseReports rows (Node l a r) s = do {
     s \<leftarrow> dbRecurseReports rows l s;
     s \<leftarrow> upd_box a (\<lambda>b. b\<lparr>mb_reports := Some (case mb_reports b of None \<Rightarrow> [] | Some rs \<Rightarrow> rs)\<rparr>) s;
     b \<leftarrow> mlBox s a;
     s \<leftarrow> result_load_reports (rows (mb_mailboxId b)) a (ml_ui [PeQuery (2, Some [bind_long (mb_mailboxId b)], True)] s);
     dbRecurseReports rows r s
   }"

definition db_load_reports :: "report_rows \<Rightarrow> mail \<Rightarrow> mail option" where
  "db_load_reports rows s = dbRecurseReports rows (mlTree s) s"

section \<open>Reloading\<close>

definition unvisit_box :: "Mailbox_t \<Rightarrow> Mailbox_t" where
  "unvisit_box b = b\<lparr>mb_visited := False, mb_reports := map_option (map (\<lambda>r. r\<lparr>mr_visited := False\<rparr>)) (mb_reports b)\<rparr>"

fun mailboxUnvisitTree :: "addr tree \<Rightarrow> mail \<Rightarrow> mail option" where
  "mailboxUnvisitTree Leaf s = Some s"
| "mailboxUnvisitTree (Node l a r) s = do {
     s \<leftarrow> mailboxUnvisitTree l s;
     s \<leftarrow> upd_box a unvisit_box s;
     mailboxUnvisitTree r s
   }"

text \<open>The stream that a mailbox still has leaves the tree of streams.\<close>

definition drop_stream :: "addr \<Rightarrow> mail \<Rightarrow> mail option" where
  "drop_stream a s = do {
     b \<leftarrow> mlBox s a;
     case mb_stream b of
       None \<Rightarrow> Some s
     | Some st \<Rightarrow> do {
         n \<leftarrow> mlStream s st;
         x \<leftarrow> find_stream n s;
         Some (case x of None \<Rightarrow> s | Some x \<Rightarrow> s\<lparr>mlStreams := bt_remove x (mlStreams s)\<rparr>)
       }
   }"

definition drop_reports :: "MailboxReport_t list \<Rightarrow> plug_effect list" where
  "drop_reports rs = map (\<lambda>r. PeMenuRemove 2 (mr_menuText r)) rs"

definition reports_of :: "Mailbox_t \<Rightarrow> MailboxReport_t list" where
  "reports_of b = (case mb_reports b of None \<Rightarrow> [] | Some rs \<Rightarrow> rs)"

text \<open>A mailbox that is gone; the stream of an enabled one is closed first.\<close>

definition drop_box :: "addr \<Rightarrow> mail \<Rightarrow> mail option" where
  "drop_box a s = do {
     b \<leftarrow> mlBox s a;
     s \<leftarrow> (if mb_enabled b then do { s \<leftarrow> mail_close (mb_stream b) s; upd_box a (\<lambda>b. b\<lparr>mb_stream := None\<rparr>) s } else Some s);
     s \<leftarrow> drop_check a (s\<lparr>mlTree := bt_remove a (mlTree s)\<rparr>);
     s \<leftarrow> drop_stream a s;
     Some (ml_ui (PeMenuRemove 2 (mb_menuText b) # drop_reports (reports_of b)) (s\<lparr>mlBox := (mlBox s)(a := None)\<rparr>))
   }"

fun mailboxFlushUnvisited :: "addr tree \<Rightarrow> mail \<Rightarrow> (bool \<times> mail) option" where
  "mailboxFlushUnvisited Leaf s = Some (False, s)"
| "mailboxFlushUnvisited (Node l a r) s = do {
     (found, s) \<leftarrow> mailboxFlushUnvisited l s;
     if found then Some (True, s)
     else do {
       b \<leftarrow> mlBox s a;
       if \<not> mb_visited b then do { s \<leftarrow> drop_box a s; Some (True, s) }
       else if \<exists>x \<in> set (reports_of b). \<not> mr_visited x
       then do {
         s \<leftarrow> upd_box a (\<lambda>b. b\<lparr>mb_reports := Some (filter mr_visited (reports_of b))\<rparr>) s;
         Some (True, ml_ui (drop_reports (filter (\<lambda>x. \<not> mr_visited x) (reports_of b))) s) }
       else mailboxFlushUnvisited r s
     }
   }"

partial_function (option) mail_flush_loop :: "mail \<Rightarrow> mail option" where
  "mail_flush_loop s = do {
     (found, s) \<leftarrow> mailboxFlushUnvisited (mlTree s) s;
     if found then mail_flush_loop s else Some s
   }"

declare mail_flush_loop.simps [code]

definition mailbox_reload :: "mail_env \<Rightarrow> mail_row list \<Rightarrow> report_rows \<Rightarrow> mail \<Rightarrow> mail option" where
  "mailbox_reload env rows reports s = do {
     s \<leftarrow> mailboxUnvisitTree (mlTree s) (s\<lparr>mlReload := False\<rparr>);
     s \<leftarrow> db_load_mailboxes env rows s;
     s \<leftarrow> db_load_reports reports s;
     s \<leftarrow> mail_flush_loop s;
     Some (s\<lparr>mlTree := bt_rebalance (mlTree s), mlActive := bt_rebalance (mlActive s), mlStreams := bt_rebalance (mlStreams s)\<rparr>)
   }"

definition mailboxSighup :: "mail \<Rightarrow> mail" where
  "mailboxSighup s = ml_ui [PeKick] (s\<lparr>mlReload := True\<rparr>)"

end
