(* ===== verification/MailboxText.thy ===== *)
theory MailboxText
  imports Mailbox RssThread
begin

text \<open>
  \<open>mailboxReportExpand\<close> of \<open>bot/src/plugins/mailbox.c\<close>: the text of a report for a message. The buffer is
  allocated for the format and grows by every field that is filled in; \<open>None\<close> is a write behind its
  end or the use of a header that the message does not have.
\<close>

section \<open>The loop\<close>

text \<open>The body, its length, and whether its line ends were taken out before.\<close>

type_synonym body_state = "string \<times> nat \<times> bool"

definition body_processed :: "body_state \<Rightarrow> string \<times> nat" where
  "body_processed b = (case b of (body, n, done_before) \<Rightarrow>
     if done_before then (body, n)
     else (map (\<lambda>c. if c = CHR 0x0A \<or> c = CHR 0x0D then CHR '' '' else c) body, if n > 200 then 200 else n))"

text \<open>What a field is replaced by, and the new length of the buffer.\<close>

definition expand_field :: "envelope \<Rightarrow> body_state \<Rightarrow> int \<Rightarrow> string \<Rightarrow> (body_state \<times> int \<times> string) option" where
  "expand_field ev b len field =
     (if strcasecmp field ''from'' = 0 then do {
        (mailbox, host) \<leftarrow> ev_from ev;
        Some (b, len + (int (length mailbox) + 1 + int (length host) - 6), mailbox @ ''@'' @ host) }
      else if strcasecmp field ''subject'' = 0 then do {
        subject \<leftarrow> ev_subject ev;
        Some (b, len + (int (length subject) - 9), subject) }
      else if strcasecmp field ''to'' = 0 then do {
        (mailbox, host) \<leftarrow> ev_to ev;
        Some (b, len + (int (length mailbox) + 1 + int (length host) - 4), mailbox @ ''@'' @ host) }
      else if strcasecmp field ''date'' = 0 then do {
        date \<leftarrow> ev_date ev;
        Some (b, len + (int (length date) - 6), date) }
      else if strcasecmp field ''messageid'' = 0 then do {
        message_id \<leftarrow> ev_messageId ev;
        Some (b, len + (int (length message_id) - 11), message_id) }
      else if strcasecmp field ''body'' = 0 then
        (case body_processed b of (body, n) \<Rightarrow> Some ((body, n, True), len + (int n - 6), take n body))
      else Some (b, len, ''$'' @ field @ ''$''))"

lemma dropWhile_shorter: "dropWhile P s = x # r \<Longrightarrow> length r < Suc (length s)"
  using length_dropWhile_le [of P s] by simp

function expand_loop :: "envelope \<Rightarrow> body_state \<Rightarrow> int \<Rightarrow> string \<Rightarrow> string \<Rightarrow> string option" where
  "expand_loop ev b len message [] = (if int (length message) < len then Some message else None)"
| "expand_loop ev b len message (c # format) =
     (if c \<noteq> CHR ''$''
      then if int (length message) < len then expand_loop ev b len (message @ [c]) format else None
      else case dropWhile (\<lambda>x. x \<noteq> CHR ''$'') format of
        [] \<Rightarrow> if int (length message) < len then expand_loop ev b len (message @ ''$'') format else None
      | _ # rest \<Rightarrow> do {
          (b, len, text) \<leftarrow> expand_field ev b len (takeWhile (\<lambda>x. x \<noteq> CHR ''$'') format);
          if int (length message + length text) < len then expand_loop ev b len (message @ text) rest else None
        })"
  by pat_completeness auto
termination
  by (relation "measure (\<lambda>(ev, b, len, message, format). length format)") (auto dest: dropWhile_shorter)

definition mailboxReportExpand :: "string \<Rightarrow> envelope \<Rightarrow> string \<Rightarrow> nat \<Rightarrow> string option" where
  "mailboxReportExpand format ev body bodyLen =
     expand_loop ev (body, bodyLen, False) (int (length format) + 1) [] format"

section \<open>What the report says\<close>

fun pieces :: "string \<Rightarrow> string list" where
  "pieces [] = [[]]"
| "pieces (c # cs) = (if c = CHR ''$'' then [] # pieces cs else case pieces cs of [] \<Rightarrow> [[c]] | p # ps \<Rightarrow> (c # p) # ps)"

text \<open>Between its dollar signs a format alternates between text and fields; a last sign without a partner stands for itself.\<close>

fun filled :: "(string \<Rightarrow> string option) \<Rightarrow> string list \<Rightarrow> string option" where
  "filled v [] = Some []"
| "filled v [p] = Some p"
| "filled v [p, q] = Some (p @ ''$'' @ q)"
| "filled v (p # q # r # ps) = do { x \<leftarrow> v q; y \<leftarrow> filled v (r # ps); Some (p @ x @ y) }"

definition mail_address :: "(string \<times> string) option \<Rightarrow> string option" where
  "mail_address = map_option (\<lambda>(mailbox, host). mailbox @ ''@'' @ host)"

definition field_text :: "envelope \<Rightarrow> string \<Rightarrow> nat \<Rightarrow> string \<Rightarrow> string option" where
  "field_text ev body n field =
     (case map_of [(''from'', mail_address (ev_from ev)), (''to'', mail_address (ev_to ev)), (''subject'', ev_subject ev),
        (''date'', ev_date ev), (''messageid'', ev_messageId ev), (''body'', Some (take (min n 200) (one_line body)))]
        (map tolower field) of
        Some t \<Rightarrow> t
      | None \<Rightarrow> Some (''$'' @ field @ ''$''))"

section \<open>Correctness\<close>

lemma pieces_not_Nil [simp]: "pieces s \<noteq> []"
  by (induction s) (auto split: list.splits)

lemma pieces_no_sign: "CHR ''$'' \<notin> set s \<Longrightarrow> pieces s = [s]"
  by (induction s) auto

lemma pieces_sign: "CHR ''$'' \<notin> set p \<Longrightarrow> pieces (p @ CHR ''$'' # s) = p # pieces s"
  by (induction p) auto

lemma split_sign:
  obtains (none) "dropWhile (\<lambda>x. x \<noteq> CHR ''$'') s = []" "CHR ''$'' \<notin> set s"
  | (sign) q rest where "dropWhile (\<lambda>x. x \<noteq> CHR ''$'') s = CHR ''$'' # rest" "takeWhile (\<lambda>x. x \<noteq> CHR ''$'') s = q"
      "s = q @ CHR ''$'' # rest" "CHR ''$'' \<notin> set q"
proof (cases "dropWhile (\<lambda>x. x \<noteq> CHR ''$'') s")
  case Nil
  then show thesis using none by (auto simp: dropWhile_eq_Nil_conv)
next
  case (Cons c rest)
  then have c: "c = CHR ''$''" using hd_dropWhile [of "\<lambda>x. x \<noteq> CHR ''$''" s] by auto
  have s: "s = takeWhile (\<lambda>x. x \<noteq> CHR ''$'') s @ CHR ''$'' # rest"
    using takeWhile_dropWhile_id [of "\<lambda>x. x \<noteq> CHR ''$''" s] Cons c by simp
  have "CHR ''$'' \<notin> set (takeWhile (\<lambda>x. x \<noteq> CHR ''$'') s)" by (auto dest: set_takeWhileD)
  with sign Cons c s show thesis by blast
qed

lemma fill_char: "filled v (pieces (c # s)) = map_option ((#) c) (filled v (pieces s))" if "c \<noteq> CHR ''$''"
proof -
  obtain p ps where p: "pieces s = p # ps" by (cases "pieces s") auto
  then show ?thesis using that by (cases ps; cases "tl ps"; cases "v (hd ps)") (auto split: Option.bind_splits)
qed

lemma fill_field: "CHR ''$'' \<notin> set q \<Longrightarrow>
  filled v (pieces (CHR ''$'' # q @ CHR ''$'' # s)) = do { x \<leftarrow> v q; y \<leftarrow> filled v (pieces s); Some (x @ y) }"
proof -
  assume "CHR ''$'' \<notin> set q"
  moreover obtain p ps where "pieces s = p # ps" by (cases "pieces s") auto
  ultimately show ?thesis by (simp add: pieces_sign)
qed

lemma fill_last_sign: "CHR ''$'' \<notin> set s \<Longrightarrow> filled v (pieces (CHR ''$'' # s)) = Some (''$'' @ s)"
  by (simp add: pieces_no_sign)

text \<open>A field that is filled in leaves the buffer as long as the text before and the rest of the format need.\<close>

definition body_ready :: "string \<Rightarrow> nat \<Rightarrow> body_state \<Rightarrow> bool" where
  "body_ready body n b \<longleftrightarrow> body_processed b = (one_line body, min n 200)"

lemma tolower_length: "map tolower a = map tolower b \<Longrightarrow> length a = length b"
  using map_eq_imp_length_eq by blast

lemma field_is: "nul_free q \<Longrightarrow> nul_free k \<Longrightarrow> strcasecmp q k = 0 \<longleftrightarrow> map tolower q = map tolower k"
  by (rule strcasecmp_0_length)

lemma expand_field_text:
  assumes "nul_free q" "body_ready body n b"
  shows "case field_text ev body n q of
     None \<Rightarrow> expand_field ev b len q = None
   | Some t \<Rightarrow> \<exists>b' len'. expand_field ev b len q = Some (b', len', t) \<and> body_ready body n b' \<and>
       len + int (length t) \<le> len' + int (length q) + 2"
proof -
  note cmp = field_is [OF assms(1)]
  have names: "strcasecmp q ''from'' = 0 \<longleftrightarrow> map tolower q = ''from''" "strcasecmp q ''to'' = 0 \<longleftrightarrow> map tolower q = ''to''"
    "strcasecmp q ''subject'' = 0 \<longleftrightarrow> map tolower q = ''subject''" "strcasecmp q ''date'' = 0 \<longleftrightarrow> map tolower q = ''date''"
    "strcasecmp q ''messageid'' = 0 \<longleftrightarrow> map tolower q = ''messageid''" "strcasecmp q ''body'' = 0 \<longleftrightarrow> map tolower q = ''body''"
    by (subst cmp; simp add: nul_free_def tolower_def)+
  have len: "length q = length (map tolower q)" by simp
  have body: "body_processed b = (one_line body, min n 200)" using assms(2) by (simp add: body_ready_def)
  consider "map tolower q = ''from''" | "map tolower q = ''to''" | "map tolower q = ''subject''" | "map tolower q = ''date''"
    | "map tolower q = ''messageid''" | "map tolower q = ''body''"
    | "map tolower q \<notin> {''from'', ''to'', ''subject'', ''date'', ''messageid'', ''body''}" by blast
  then show ?thesis
  proof cases
    case 1
    then show ?thesis using assms(2) len
      by (cases "ev_from ev"; cases b) (auto simp: names expand_field_def field_text_def mail_address_def)
  next
    case 2
    then show ?thesis using assms(2) len
      by (cases "ev_to ev"; cases b) (auto simp: names expand_field_def field_text_def mail_address_def)
  next
    case 3
    then show ?thesis using assms(2) len
      by (cases "ev_subject ev"; cases b) (auto simp: names expand_field_def field_text_def)
  next
    case 4
    then show ?thesis using assms(2) len
      by (cases "ev_date ev"; cases b) (auto simp: names expand_field_def field_text_def)
  next
    case 5
    then show ?thesis using assms(2) len
      by (cases "ev_messageId ev"; cases b) (auto simp: names expand_field_def field_text_def)
  next
    case 6
    then show ?thesis using body len
      by (auto simp: names expand_field_def field_text_def body_ready_def body_processed_def)
  next
    case 7
    then show ?thesis using assms(2)
      by (cases b) (auto simp: names expand_field_def field_text_def)
  qed
qed

lemma expand_loop_fill:
  assumes "nul_free format" "body_ready body n b" "int (length message) + int (length format) < len"
  shows "expand_loop ev b len message format = map_option ((@) message) (filled (field_text ev body n) (pieces format))"
  using assms
proof (induction ev b len message format rule: expand_loop.induct)
  case (2 ev b len message c format)
  show ?case
  proof (cases "c = CHR ''$''")
    case False
    with 2 show ?thesis by (simp add: fill_char option.map_comp comp_def nul_free_def del: pieces.simps)
  next
    case c: True
    show ?thesis
    proof (cases rule: split_sign [of format])
      case none
      with 2(2) 2(4-) c have "expand_loop ev b len message (c # format) =
        map_option ((@) (message @ ''$'')) (filled (field_text ev body n) (pieces format))"
        by (cases "filled (field_text ev body n) (pieces format)") (simp_all add: nul_free_def none(1) del: dropWhile_eq_Nil_conv)
      with none(2) c show ?thesis by (simp add: fill_last_sign pieces_no_sign del: pieces.simps)
    next
      case (sign q rest)
      have nq: "nul_free q" "nul_free rest" using 2(4) sign(3) by (auto simp: nul_free_def)
      note E = expand_field_text [OF nq(1) 2(5), of ev len]
      have R: "filled (field_text ev body n) (pieces (c # format)) =
          do { x \<leftarrow> field_text ev body n q; y \<leftarrow> filled (field_text ev body n) (pieces rest); Some (x @ y) }"
        using fill_field [OF sign(4)] c sign(3) by simp
      show ?thesis
      proof (cases "field_text ev body n q")
        case None
        with E have "expand_field ev b len q = None" by simp
        with c sign(1,2) R None show ?thesis by simp
      next
        case (Some t)
        with E obtain b' len' where F: "expand_field ev b len q = Some (b', len', t)" "body_ready body n b'"
          "len + int (length t) \<le> len' + int (length q) + 2" by auto
        have "int (length (message @ t)) + int (length rest) < len'" using F(3) 2(6) sign(3) by simp
        with 2(3) [of _ rest] c sign(1,2) F nq have "expand_loop ev b' len' (message @ t) rest =
          map_option ((@) (message @ t)) (filled (field_text ev body n) (pieces rest))"
          by (cases "filled (field_text ev body n) (pieces rest)") simp_all
        moreover have "expand_loop ev b len message (c # format) = expand_loop ev b' len' (message @ t) rest"
          using c sign(1,2) F \<open>int (length (message @ t)) + int (length rest) < len'\<close> by simp
        ultimately show ?thesis using R Some by (cases "filled (field_text ev body n) (pieces rest)") simp_all
      qed
    qed
  qed
qed simp

section \<open>Properties\<close>

text \<open>Claim C33. The text of a report, written field by field into a buffer that grows with every
  field, never overruns the buffer and is the format with the text between pairs of dollar
  signs replaced; it fails only on a field whose header the message lacks.\<close>

theorem report_text:
  assumes "nul_free format"
  shows "mailboxReportExpand format ev body bodyLen = filled (field_text ev body bodyLen) (pieces format)"
proof -
  have "body_ready body bodyLen (body, bodyLen, False)"
    by (simp add: body_ready_def body_processed_def one_line_def)
  from expand_loop_fill [OF assms this, of "[]" "int (length format) + 1" ev] show ?thesis
    by (cases "filled (field_text ev body bodyLen) (pieces format)") (simp_all add: mailboxReportExpand_def)
qed

definition a_message :: envelope where
  "a_message = \<lparr>ev_from = Some (''bob'', ''x.org''), ev_to = None, ev_subject = Some ''Hi'', ev_date = None, ev_messageId = None\<rparr>"

lemma report_text_witness:
  "mailboxReportExpand ''$FROM$ said $Subject$: $body$ $x$ for $5'' a_message (''a'' @ [CHR 0x0A] @ ''b'') 3 =
     Some ''bob@x.org said Hi: a b $x$ for $5'' \<and> mailboxReportExpand ''to $to$'' a_message [] 0 = None"
  by (subst report_text, simp add: nul_free_def, subst report_text, simp add: nul_free_def, code_simp)

end
