(* ===== verification/MailboxThread.thy ===== *)
theory MailboxThread
  imports MailboxReload MailboxText
begin

text \<open>
  \<open>mailbox_thread\<close> of \<open>bot/src/plugins/mailbox.c\<close>, the callbacks that it gets from the c-client library
  and the reports it writes. The clock is a sequence of readings, \<open>mlTick\<close> counts how many were taken;
  the library answers according to that count.
\<close>

definition ml_clock :: "mail_env \<Rightarrow> mail \<Rightarrow> int \<times> mail" where
  "ml_clock env s = (me_now env (mlTick s), s\<lparr>mlTick := mlTick s + 1\<rparr>)"

section \<open>Callbacks of the library\<close>

definition mailboxFindByStream :: "addr \<Rightarrow> mail \<Rightarrow> ptr option" where
  "mailboxFindByStream st s = do {
     n \<leftarrow> mlStream s st;
     x \<leftarrow> find_stream n s;
     Some (map_option (fst \<circ> snd) x)
   }"

text \<open>Only the numbers that the library reports are taken over.\<close>

definition take_status :: "MAILSTATUS \<Rightarrow> Mailbox_t \<Rightarrow> Mailbox_t" where
  "take_status st b = b\<lparr>
     mb_totalMessages := (case ms_messages st of Some n \<Rightarrow> n | None \<Rightarrow> mb_totalMessages b),
     mb_recentMessages := (case ms_recent st of Some n \<Rightarrow> n | None \<Rightarrow> mb_recentMessages b),
     mb_newMessages := (case ms_unseen st of Some n \<Rightarrow> n | None \<Rightarrow> mb_newMessages b)\<rparr>"

definition mm_status :: "addr \<Rightarrow> MAILSTATUS \<Rightarrow> mail \<Rightarrow> mail option" where
  "mm_status st status s = do {
     mbox \<leftarrow> mailboxFindByStream st s;
     case mbox of None \<Rightarrow> Some s | Some a \<Rightarrow> upd_box a (take_status status) s
   }"

definition mm_searched :: "addr \<Rightarrow> int \<Rightarrow> mail \<Rightarrow> mail option" where
  "mm_searched st number s = do {
     mailbox \<leftarrow> mailboxFindByStream st s;
     case mailbox of
       None \<Rightarrow> Some s
     | Some a \<Rightarrow> upd_box a (\<lambda>b. b\<lparr>mb_messageList := map_option (\<lambda>l. l @ [number]) (mb_messageList b)\<rparr>) s
   }"

text \<open>The login: the first mailbox, from the root of the tree of polls, with the same host, user, mailbox, service and port.\<close>

definition same_netmbx :: "NETMBX \<Rightarrow> NETMBX \<Rightarrow> bool" where
  "same_netmbx m n \<longleftrightarrow> strcasecmp (nm_orighost m) (nm_orighost n) = 0 \<and> strcasecmp (nm_user m) (nm_user n) = 0 \<and>
     strcasecmp (nm_mailbox m) (nm_mailbox n) = 0 \<and> strcasecmp (nm_service m) (nm_service n) = 0 \<and> nm_port m = nm_port n"

fun mailboxRecurseFindNetmbx :: "mail \<Rightarrow> NETMBX \<Rightarrow> (addr \<times> addr) tree \<Rightarrow> (addr \<times> addr) option option" where
  "mailboxRecurseFindNetmbx s n Leaf = Some None"
| "mailboxRecurseFindNetmbx s n (Node l x r) = do {
     b \<leftarrow> mlBox s (snd x);
     if same_netmbx (mb_netmbx b) n then Some (Some x)
     else do {
       y \<leftarrow> mailboxRecurseFindNetmbx s n l;
       case y of Some _ \<Rightarrow> Some y | None \<Rightarrow> mailboxRecurseFindNetmbx s n r
     }
   }"

definition mailboxFindByNetmbx :: "NETMBX \<Rightarrow> mail \<Rightarrow> ptr option" where
  "mailboxFindByNetmbx n s = map_option (map_option snd) (mailboxRecurseFindNetmbx s n (mlActive s))"

definition mm_login :: "NETMBX \<Rightarrow> mail \<Rightarrow> (string \<times> string) option" where
  "mm_login mb s = do {
     mailbox \<leftarrow> mailboxFindByNetmbx mb s;
     case mailbox of None \<Rightarrow> Some ([], []) | Some a \<Rightarrow> do { b \<leftarrow> mlBox s a; Some (mb_user b, mb_password b) }
   }"

definition mm_diskerror :: "addr \<Rightarrow> mail \<Rightarrow> int option" where
  "mm_diskerror st s = map_option (\<lambda>m. if m = None then 1 else 0) (mailboxFindByStream st s)"

section \<open>Writing a report\<close>

definition report_message :: "mail_env \<Rightarrow> addr \<Rightarrow> MailboxReport_t \<Rightarrow> int \<Rightarrow> int \<Rightarrow> world \<Rightarrow> world option" where
  "report_message env st r now uid w = do {
     message \<leftarrow> mailboxReportExpand (mr_format r) (me_envelope env st uid) (fst (me_text env st uid)) (snd (me_text env st uid));
     sv \<leftarrow> mr_server r;
     case mr_channel r of
       Some c \<Rightarrow> LoggedChannelMessage now sv c message w
     | None \<Rightarrow> do { _ \<leftarrow> wServers w sv; tx_msg sv TX_PRIVMSG (Some (mr_nick r)) (Some message) w }
   }"

definition mailboxReport :: "mail_env \<Rightarrow> addr \<Rightarrow> MailboxReport_t \<Rightarrow> mail \<Rightarrow> mail option" where
  "mailboxReport env a r s = do {
     b \<leftarrow> mlBox s a;
     l \<leftarrow> mb_messageList b;
     st \<leftarrow> mb_stream b;
     w \<leftarrow> foldM (report_message env st r (me_now env (mlTick s))) l (mlW s);
     Some (s\<lparr>mlW := w\<rparr>)
   }"

definition db_update_lastpoll :: "int \<Rightarrow> int \<Rightarrow> query" where
  "db_update_lastpoll mailboxId lastPoll = (1, Some [bind_long lastPoll, bind_long mailboxId], False)"

definition db_update_lastread :: "int \<Rightarrow> int \<Rightarrow> query" where
  "db_update_lastread mailboxId lastRead = (3, Some [bind_long lastRead, bind_long mailboxId], False)"

text \<open>A report, by its place in the list; one without a server is looked up again.\<close>

definition run_report :: "mail_env \<Rightarrow> addr \<Rightarrow> nat \<Rightarrow> mail \<Rightarrow> mail option" where
  "run_report env a i s = do {
     b \<leftarrow> mlBox s a;
     rs \<leftarrow> mb_reports b;
     (r, es) \<leftarrow> (if (mr_server (rs ! i) = None \<or> mr_serverId (rs ! i) = -1) \<and> wLoaded (mlW s)
                 then locate_report (mlW s) (rs ! i) else Some (rs ! i, []));
     s \<leftarrow> upd_box a (\<lambda>b. b\<lparr>mb_reports := Some (rs[i := r])\<rparr>) (ml_ui es s);
     if mr_server r = None \<or> \<not> mr_enabled r then Some s
     else do {
       s \<leftarrow> mailboxReport env a r s;
       let (now, s) = ml_clock env s;
       upd_box a (\<lambda>b. b\<lparr>mb_lastRead := now\<rparr>) (ml_ui [PeQuery (db_update_lastread (mb_mailboxId b) now)] s)
     }
   }"

text \<open>The unseen messages of a mailbox; \<open>LinkedListLock\<close> of missing reports faults.\<close>

definition report_mail :: "mail_env \<Rightarrow> addr \<Rightarrow> addr \<Rightarrow> mail \<Rightarrow> mail option" where
  "report_mail env a st s = do {
     b \<leftarrow> mlBox s a;
     if mb_newMessages b = 0 then Some s
     else do {
       s \<leftarrow> upd_box a (\<lambda>b. b\<lparr>mb_messageList := Some (case mb_messageList b of None \<Rightarrow> [] | Some l \<Rightarrow> l)\<rparr>) s;
       s \<leftarrow> foldM (mm_searched st) (me_search env (mlTick s) st) s;
       b \<leftarrow> mlBox s a;
       rs \<leftarrow> mb_reports b;
       foldM (run_report env a) [0..<length rs] s
     }
   }"

definition mark_seen :: "addr \<Rightarrow> addr \<Rightarrow> mail \<Rightarrow> mail option" where
  "mark_seen a st s = do {
     b \<leftarrow> mlBox s a;
     case mb_messageList b of
       None \<Rightarrow> Some s
     | Some l \<Rightarrow> upd_box a (\<lambda>b. b\<lparr>mb_messageList := Some []\<rparr>) (ml_emit (map (MlSeen st) l) s)
   }"

section \<open>The thread\<close>

text \<open>A stream that does not answer is handed to \<open>mail_open\<close>, which closes it.\<close>

definition refresh_stream :: "mail_env \<Rightarrow> addr \<Rightarrow> mail \<Rightarrow> mail option" where
  "refresh_stream env a s = do {
     b \<leftarrow> mlBox s a;
     ready \<leftarrow> (case mb_stream b of None \<Rightarrow> Some False | Some st \<Rightarrow> do { _ \<leftarrow> mlStream s st; Some (me_ping env (mlTick s) st) });
     if ready then Some s
     else do {
       s \<leftarrow> mail_close (mb_stream b) s;
       case me_open env (mlTick s) (mb_serverSpec b) of
         None \<Rightarrow> upd_box a (\<lambda>b. b\<lparr>mb_stream := None\<rparr>) s
       | Some (st, n) \<Rightarrow> upd_box a (\<lambda>b. b\<lparr>mb_stream := Some st\<rparr>) (s\<lparr>mlStream := (mlStream s)(st \<mapsto> n)\<rparr>)
     }
   }"

definition poll_mailbox :: "mail_env \<Rightarrow> addr \<Rightarrow> mail \<Rightarrow> mail option" where
  "poll_mailbox env a s = do {
     s \<leftarrow> refresh_stream env a s;
     b \<leftarrow> mlBox s a;
     case mb_stream b of
       None \<Rightarrow> Some s
     | Some st \<Rightarrow> do {
         s \<leftarrow> foldM (mm_status st) (me_status env (mlTick s) st) s;
         s \<leftarrow> report_mail env a st s;
         mark_seen a st s
       }
   }"

definition poll_box :: "mail_env \<Rightarrow> addr \<times> addr \<Rightarrow> mail \<Rightarrow> (int option \<times> mail) option" where
  "poll_box env x s = (case ml_clock env s of (now, s) \<Rightarrow> do {
     b \<leftarrow> mlBox s (snd x);
     if mb_nextPoll b > now + 15 then Some (Some (mb_nextPoll b - now), s)
     else do {
       s \<leftarrow> upd_box (snd x) (\<lambda>b. b\<lparr>mb_nextPoll := now + mb_interval b\<rparr>) (s\<lparr>mlActive := bt_remove x (mlActive s)\<rparr>);
       s \<leftarrow> add_check x s;
       s \<leftarrow> upd_box (snd x) (\<lambda>b. b\<lparr>mb_lastCheck := now\<rparr>) s;
       let s = ml_ui [PeQuery (db_update_lastpoll (mb_mailboxId b) now)] s in do {
       s \<leftarrow> (if mlStop s then Some s else poll_mailbox env (snd x) s);
       Some (None, s) }
     }
   })"

definition least_check :: "mail \<Rightarrow> (addr \<times> addr) option" where
  "least_check s = (if mlActive s = Leaf then None else Some (min_of (mlActive s)))"

partial_function (option) mail_loop :: "mail_env \<Rightarrow> (addr \<times> addr) option \<Rightarrow> int \<Rightarrow> mail \<Rightarrow> (int \<times> mail) option" where
  "mail_loop env item delta s =
     (case item of
        None \<Rightarrow> Some (delta, s)
      | Some x \<Rightarrow>
          if mlStop s then Some (delta, s)
          else do {
            (r, s) \<leftarrow> poll_box env x s;
            case r of
              Some d \<Rightarrow> Some (d, s)
            | None \<Rightarrow> mail_loop env (least_check s) delta s
          })"

declare mail_loop.simps [code]

text \<open>A pass up to the label \<open>DelayPoll\<close>: how long to sleep.\<close>

definition mail_pass :: "mail_env \<Rightarrow> mail \<Rightarrow> (int \<times> mail) option" where
  "mail_pass env s =
     (let item = least_check s; (now, s) = ml_clock env s in
      case item of
        None \<Rightarrow> Some (900, s)
      | Some x \<Rightarrow>
          if \<not> wLoaded (mlW s) then Some (60, s)
          else do {
            b \<leftarrow> mlBox s (snd x);
            if mb_nextPoll b > now + 15 then Some (mb_nextPoll b - now, s)
            else do {
              (delta, s) \<leftarrow> mail_loop env (Some x) 60 s;
              Some (delta, s\<lparr>mlActive := bt_rebalance (mlActive s)\<rparr>)
            }
          })"

text \<open>What the database answers in a round: its mailboxes, and the reports of a mailbox.\<close>

type_synonym mail_tables = "mail_row list \<times> report_rows"

definition mail_round :: "mail_env \<Rightarrow> mail_tables \<Rightarrow> mail \<Rightarrow> mail option" where
  "mail_round env tables s = do {
     (delta, s) \<leftarrow> mail_pass env s;
     let (now, s) = ml_clock env s;
         s = (if delta > 0 \<and> \<not> mlStop s then ml_emit [MlSleep delta] s else s) in
     if mlReload s then mailbox_reload env (fst tables) (snd tables) s else Some s
   }"

fun mail_rounds :: "mail_env \<Rightarrow> mail_tables list \<Rightarrow> mail \<Rightarrow> mail option" where
  "mail_rounds env [] s = Some s"
| "mail_rounds env (t # ts) s = (if mlStop s then Some s else do { s \<leftarrow> mail_round env t s; mail_rounds env ts s })"

definition mailbox_thread :: "mail_env \<Rightarrow> mail_tables \<Rightarrow> mail_tables list \<Rightarrow> mail \<Rightarrow> mail option" where
  "mailbox_thread env tables rounds s = do {
     s \<leftarrow> db_load_mailboxes env (fst tables) (s\<lparr>mlTree := Leaf, mlActive := Leaf, mlStreams := Leaf\<rparr>);
     s \<leftarrow> db_load_reports (snd tables) s;
     mail_rounds env rounds (ml_emit [MlSleep 5] s)
   }"

end
