(* ===== verification/MailboxPoll.thy ===== *)
theory MailboxPoll
  imports MailboxThread
begin

text \<open>
  What a poll of a mailbox reports, and where it stays silent or faults.
\<close>

section \<open>A poll that works\<close>

text \<open>What a report says of a message, and what the reports of a mailbox say in their order.\<close>

definition report_effects :: "mail_env \<Rightarrow> addr \<Rightarrow> world \<Rightarrow> int \<Rightarrow> MailboxReport_t \<Rightarrow> int \<Rightarrow> effect list" where
  "report_effects env st w now r uid =
     (let m = the (mailboxReportExpand (mr_format r) (me_envelope env st uid) (fst (me_text env st uid)) (snd (me_text env st uid)));
          sv = the (mr_server r) in
      case mr_channel r of
        Some c \<Rightarrow> said now w sv c m
      | None \<Rightarrow> [TxMsg sv TX_PRIVMSG (Some (mr_nick r)) (Some m)])"

fun round_effects :: "mail_env \<Rightarrow> addr \<Rightarrow> world \<Rightarrow> int list \<Rightarrow> nat \<Rightarrow> MailboxReport_t list \<Rightarrow> effect list" where
  "round_effects env st w us t [] = []"
| "round_effects env st w us t (r # rs) =
     (if mr_enabled r
      then concat (map (report_effects env st w (me_now env t) r) us) @ round_effects env st w us (t + 1) rs
      else round_effects env st w us t rs)"

text \<open>A report that needs no lookup; if it is enabled, it can be written for these messages.\<close>

definition report_ready :: "mail_env \<Rightarrow> addr \<Rightarrow> world \<Rightarrow> int list \<Rightarrow> MailboxReport_t \<Rightarrow> bool" where
  "report_ready env st w us r \<longleftrightarrow> (\<exists>sv server. mr_server r = Some sv \<and> mr_serverId r \<noteq> -1 \<and> wServers w sv = Some server \<and> sv_txQueue server) \<and>
     (\<forall>c. mr_channel r = Some c \<longrightarrow> wChans w c \<noteq> None) \<and>
     (mr_enabled r \<longrightarrow> (\<forall>uid \<in> set us.
        mailboxReportExpand (mr_format r) (me_envelope env st uid) (fst (me_text env st uid)) (snd (me_text env st uid)) \<noteq> None))"

definition seen_marks :: "mail_effect list \<Rightarrow> mail_effect list" where
  "seen_marks es = filter (\<lambda>e. case e of MlSeen _ _ \<Rightarrow> True | _ \<Rightarrow> False) es"

lemma seen_marks_append [simp]: "seen_marks (es @ fs) = seen_marks es @ seen_marks fs"
  by (simp add: seen_marks_def)

lemma seen_marks_ui [simp]: "seen_marks (map MlUi ps) = []"
  by (induction ps) (simp_all add: seen_marks_def)

lemma seen_marks_one [simp]: "seen_marks [MlUi p] = []"
  by (simp add: seen_marks_def)

lemma seen_marks_seen [simp]: "seen_marks (map (MlSeen st) us) = map (MlSeen st) us"
  by (simp add: seen_marks_def filter_id_conv)

text \<open>The parts of the state that a poll of one mailbox writes.\<close>

definition poll_state :: "mail \<Rightarrow> addr \<Rightarrow> Mailbox_t \<Rightarrow> world \<Rightarrow> nat \<Rightarrow> mail_effect list \<Rightarrow> mail" where
  "poll_state s a b w t es = s\<lparr>mlBox := (mlBox s)(a \<mapsto> b), mlW := w, mlTick := t, mlOut := es\<rparr>"

lemma find_stream_poll: "find_stream n (poll_state s a b w t es) = find_stream n s"
proof -
  have "stream_key (poll_state s a b w t es) = stream_key s" by (simp add: stream_key_def poll_state_def fun_eq_iff)
  moreover have "mlStream (poll_state s a b w t es) = mlStream s" "mlStreams (poll_state s a b w t es) = mlStreams s"
    by (simp_all add: poll_state_def)
  ultimately show ?thesis by (simp add: find_stream_def stream_path_def)
qed

lemma poll_state_simps [simp]:
  "mlBox (poll_state s a b w t es) a = Some b" "mlW (poll_state s a b w t es) = w" "mlTick (poll_state s a b w t es) = t"
  "mlOut (poll_state s a b w t es) = es" "mlStream (poll_state s a b w t es) = mlStream s" "mlStreams (poll_state s a b w t es) = mlStreams s"
  "upd_box a f (poll_state s a b w t es) = Some (poll_state s a (f b) w t es)"
  "ml_emit fs (poll_state s a b w t es) = poll_state s a b w t (es @ fs)"
  "ml_ui ps (poll_state s a b w t es) = poll_state s a b w t (es @ map MlUi ps)"
  "(poll_state s a b w t es)\<lparr>mlW := v\<rparr> = poll_state s a b v t es"
  "ml_clock env (poll_state s a b w t es) = (me_now env t, poll_state s a b w (t + 1) es)"
  "mailboxFindByStream st (poll_state s a b w t es) = mailboxFindByStream st s"
  by (simp_all add: mailboxFindByStream_def find_stream_poll) (simp_all add: poll_state_def upd_box_def ml_ui_def ml_emit_def ml_clock_def)

lemma poll_state_self: "mlBox s a = Some b \<Longrightarrow> s = poll_state s a b (mlW s) (mlTick s) (mlOut s)"
  by (simp add: poll_state_def fun_upd_idem)

lemma said_out: "said now (w\<lparr>wOut := es\<rparr>) sv c m = said now w sv c m"
  by (simp add: said_def)

lemma report_effects_out: "report_effects env st (w\<lparr>wOut := es\<rparr>) = report_effects env st w"
  by (simp add: report_effects_def said_out fun_eq_iff cong: option.case_cong)

lemma report_messages_run:
  assumes "report_ready env st w us r" "mr_enabled r"
  shows "foldM (report_message env st r now) us w = Some (w\<lparr>wOut := wOut w @ concat (map (report_effects env st w now r) us)\<rparr>)"
  using assms
proof (induction us arbitrary: w)
  case (Cons u us)
  from Cons.prems obtain sv server where s: "mr_server r = Some sv" "wServers w sv = Some server" "sv_txQueue server"
    by (auto simp: report_ready_def)
  from Cons.prems obtain m where m: "mailboxReportExpand (mr_format r) (me_envelope env st u) (fst (me_text env st u)) (snd (me_text env st u)) = Some m"
    by (auto simp: report_ready_def)
  let ?w = "w\<lparr>wOut := wOut w @ report_effects env st w now r u\<rparr>"
  have "report_message env st r now u w = Some ?w"
  proof (cases "mr_channel r")
    case None
    with s m show ?thesis by (simp add: report_message_def report_effects_def tx_msg_Some emit_def)
  next
    case (Some c)
    with Cons.prems(1) obtain ch where "wChans w c = Some ch" by (auto simp: report_ready_def)
    with s m Some show ?thesis by (simp add: report_message_def report_effects_def said_run)
  qed
  moreover have "report_effects env st ?w = report_effects env st w" by (rule report_effects_out)
  moreover have "report_ready env st ?w us r" using Cons.prems(1) by (auto simp: report_ready_def)
  ultimately show ?case using Cons.IH [of ?w] Cons.prems(2) by simp
qed simp

lemma run_report_ready:
  assumes "mb_reports b = Some rs" "i < length rs" "report_ready env st w us (rs ! i)" "mb_messageList b = Some us" "mb_stream b = Some st"
  shows "run_report env a i (poll_state s a b w t es) =
    Some (if mr_enabled (rs ! i)
      then poll_state s a (b\<lparr>mb_lastRead := me_now env t\<rparr>)
        (w\<lparr>wOut := wOut w @ concat (map (report_effects env st w (me_now env t) (rs ! i)) us)\<rparr>) (t + 1)
        (es @ map MlUi [PeQuery (db_update_lastread (mb_mailboxId b) (me_now env t))])
      else poll_state s a b w t es)"
proof -
  from assms(3) obtain sv where sv: "mr_server (rs ! i) = Some sv" "mr_serverId (rs ! i) \<noteq> -1" by (auto simp: report_ready_def)
  have b: "b\<lparr>mb_reports := Some rs\<rparr> = b" using assms(1) by simp
  show ?thesis
    using assms sv report_messages_run [OF assms(3)]
    by (simp add: run_report_def mailboxReport_def b)
qed

lemma run_reports:
  assumes "mb_reports b = Some rs" "\<forall>r \<in> set rs. report_ready env st w us r" "mb_messageList b = Some us" "mb_stream b = Some st" "k \<le> length rs"
  shows "\<exists>b' t' es'. foldM (run_report env a) [k..<length rs] (poll_state s a b w t es) =
      Some (poll_state s a b' (w\<lparr>wOut := wOut w @ round_effects env st w us t (drop k rs)\<rparr>) t' es') \<and>
    mb_messageList b' = Some us \<and> seen_marks es' = seen_marks es"
  using assms
proof (induction "length rs - k" arbitrary: k b w t es)
  case 0
  then show ?case by (intro exI [of _ b] exI [of _ t] exI [of _ es]) simp
next
  case (Suc n)
  then have k: "k < length rs" "n = length rs - Suc k" "Suc k \<le> length rs" by simp_all
  then have r: "report_ready env st w us (rs ! k)" using Suc.prems(2) by simp
  note run = run_report_ready [OF Suc.prems(1) k(1) r Suc.prems(3,4), of a s t es]
  have up: "[k..<length rs] = k # [Suc k..<length rs]" using k(1) by (simp add: upt_conv_Cons)
  have dr: "drop k rs = rs ! k # drop (Suc k) rs" using k(1) by (simp add: Cons_nth_drop_Suc)
  show ?case
  proof (cases "mr_enabled (rs ! k)")
    case True
    let ?b = "b\<lparr>mb_lastRead := me_now env t\<rparr>"
    let ?w = "w\<lparr>wOut := wOut w @ concat (map (report_effects env st w (me_now env t) (rs ! k)) us)\<rparr>"
    have ready: "\<forall>r \<in> set rs. report_ready env st ?w us r" using Suc.prems(2) by (simp add: report_ready_def)
    have re: "round_effects env st ?w us t' rs' = round_effects env st w us t' rs'" for t' rs'
      by (induction rs' arbitrary: t') (simp_all add: report_effects_out)
    let ?es = "es @ [MlUi (PeQuery (db_update_lastread (mb_mailboxId b) (me_now env t)))]"
    from Suc.hyps(1) [where k = "Suc k" and b = ?b and w = ?w and t = "t + 1" and es = ?es] Suc.prems ready k obtain b' t' es' where
      rest: "foldM (run_report env a) [Suc k..<length rs] (poll_state s a ?b ?w (t + 1) ?es) =
        Some (poll_state s a b' (?w\<lparr>wOut := wOut ?w @ round_effects env st ?w us (t + 1) (drop (Suc k) rs)\<rparr>) t' es')"
      "mb_messageList b' = Some us" "seen_marks es' = seen_marks ?es" by auto
    have "foldM (run_report env a) [k..<length rs] (poll_state s a b w t es) =
      foldM (run_report env a) [Suc k..<length rs] (poll_state s a ?b ?w (t + 1) ?es)" using run True up by simp
    then show ?thesis using rest True dr by (intro exI [of _ b'] exI [of _ t'] exI [of _ es']) (simp add: re)
  next
    case False
    from Suc.hyps(1) [OF k(2) Suc.prems(1-4) k(3), of t es] run False up dr show ?thesis by simp
  qed
qed

lemma statuses_run:
  assumes "mailboxFindByStream st s = Some (Some a)"
  shows "foldM (mm_status st) sts (poll_state s a b w t es) = Some (poll_state s a (fold take_status sts b) w t es)"
  using assms by (induction sts arbitrary: b) (simp_all add: mm_status_def)

lemma searched_run:
  assumes "mailboxFindByStream st s = Some (Some a)" "mb_messageList b = Some l"
  shows "foldM (mm_searched st) us (poll_state s a b w t es) = Some (poll_state s a (b\<lparr>mb_messageList := Some (l @ us)\<rparr>) w t es)"
  using assms
proof (induction us arbitrary: b l)
  case Nil
  then have "b\<lparr>mb_messageList := Some l\<rparr> = b" by simp
  then show ?case by simp
qed (simp add: mm_searched_def)

lemma take_status_simps [simp]:
  "mb_messageList (fold take_status sts b) = mb_messageList b" "mb_reports (fold take_status sts b) = mb_reports b"
  "mb_stream (fold take_status sts b) = mb_stream b" "mb_mailboxId (fold take_status sts b) = mb_mailboxId b"
  by (induction sts arbitrary: b) (simp_all add: take_status_def)

section \<open>Properties\<close>

text \<open>Claim C34. A poll of a mailbox with new messages writes every message that the search found
  once for every enabled report, in the order of the reports, marks exactly these messages as
  seen and leaves the list of messages empty. This is for a stream that answers and is found
  in the tree of streams as that of the mailbox (one that the thread opened again is not,
  mailbox.c:525), no messages left from before, reports that have a server number, their
  server with a transmit queue and, if any, their channel, and messages whose text the formats
  can build (they have the headers that are used, mailbox.c:1826).\<close>

theorem mail_reported_once:
  assumes "mlBox s a = Some b" "mb_stream b = Some st" "mlStream s st \<noteq> None" "me_ping env (mlTick s) st"
    and "mailboxFindByStream st s = Some (Some a)" "mb_messageList b \<in> {None, Some []}"
    and "mb_newMessages (fold take_status (me_status env (mlTick s) st) b) \<noteq> 0"
    and "mb_reports b = Some rs" "\<forall>r \<in> set rs. report_ready env st (mlW s) (me_search env (mlTick s) st) r"
  shows "\<exists>s' b'. poll_mailbox env a s = Some s' \<and> mlBox s' a = Some b' \<and> mb_messageList b' = Some [] \<and>
    wOut (mlW s') = wOut (mlW s) @ round_effects env st (mlW s) (me_search env (mlTick s) st) (mlTick s) rs \<and>
    seen_marks (mlOut s') = seen_marks (mlOut s) @ map (MlSeen st) (me_search env (mlTick s) st)"
proof -
  let ?w = "mlW s" and ?t = "mlTick s" and ?us = "me_search env (mlTick s) st"
  define b1 where "b1 = (fold take_status (me_status env ?t st) b)\<lparr>mb_messageList := Some ?us\<rparr>"
  have b1: "mb_reports b1 = Some rs" "mb_messageList b1 = Some ?us" "mb_stream b1 = Some st" using assms(2,8) by (simp_all add: b1_def)
  from run_reports [OF b1(1) assms(9) b1(2,3), of 0 a s ?t "mlOut s"] obtain b2 t2 es2 where
    run: "foldM (run_report env a) [0..<length rs] (poll_state s a b1 ?w ?t (mlOut s)) =
      Some (poll_state s a b2 (?w\<lparr>wOut := wOut ?w @ round_effects env st ?w ?us ?t rs\<rparr>) t2 es2)"
      "mb_messageList b2 = Some ?us" "seen_marks es2 = seen_marks (mlOut s)" by auto
  have new: "(case mb_messageList b of None \<Rightarrow> [] | Some l \<Rightarrow> l) = []" using assms(6) by auto
  define b3 where "b3 = b2\<lparr>mb_messageList := Some []\<rparr>"
  define s3 where "s3 = poll_state s a b3 (?w\<lparr>wOut := wOut ?w @ round_effects env st ?w ?us ?t rs\<rparr>) t2 (es2 @ map (MlSeen st) ?us)"
  have "poll_mailbox env a s = poll_mailbox env a (poll_state s a b ?w ?t (mlOut s))" using poll_state_self [OF assms(1)] by simp
  also have "\<dots> = Some s3"
    using assms(2-5,7,8) b1 run(1,2)
    by (auto simp: poll_mailbox_def refresh_stream_def statuses_run report_mail_def new searched_run b1_def [symmetric] mark_seen_def s3_def b3_def)
  finally have "poll_mailbox env a s = Some s3" .
  then show ?thesis using run(3) by (intro exI [of _ s3] exI [of _ b3]) (simp add: s3_def b3_def)
qed

theorem reopened_stream_silent:
  assumes "mlBox s a = Some b" "mb_stream b = None" "me_open env (mlTick s) (mb_serverSpec b) = Some (st, n)"
    and "find_stream n (s\<lparr>mlStream := (mlStream s)(st \<mapsto> n)\<rparr>) = Some None" "mb_newMessages b = 0" "mb_messageList b = None"
    and "\<forall>t. me_ping env t st"
  shows "\<exists>s'. poll_mailbox env a s = Some s' \<and> mlW s' = mlW s \<and> mlOut s' = mlOut s \<and>
    (\<forall>t. poll_mailbox env a (s'\<lparr>mlTick := t\<rparr>) = Some (s'\<lparr>mlTick := t\<rparr>))"
proof -
  define s1 where "s1 = s\<lparr>mlStream := (mlStream s)(st \<mapsto> n), mlBox := (mlBox s)(a \<mapsto> b\<lparr>mb_stream := Some st\<rparr>)\<rparr>"
  have silent: "foldM (mm_status st) sts u = Some u" if "mailboxFindByStream st u = Some None" for sts u
    by (induction sts) (simp_all add: mm_status_def that)
  have key: "stream_key (s1\<lparr>mlTick := t\<rparr>) = stream_key (s\<lparr>mlStream := (mlStream s)(st \<mapsto> n)\<rparr>)" for t
    by (simp add: stream_key_def s1_def fun_eq_iff)
  have "mlStreams (s1\<lparr>mlTick := t\<rparr>) = mlStreams s" "mlStream (s1\<lparr>mlTick := t\<rparr>) = (mlStream s)(st \<mapsto> n)" for t by (simp_all add: s1_def)
  with key have "find_stream n (s1\<lparr>mlTick := t\<rparr>) = find_stream n (s\<lparr>mlStream := (mlStream s)(st \<mapsto> n)\<rparr>)" for t
    by (simp add: find_stream_def stream_path_def)
  then have find: "mailboxFindByStream st (s1\<lparr>mlTick := t\<rparr>) = Some None" for t
    using assms(4) by (simp add: mailboxFindByStream_def s1_def)
  have box: "mlBox (s1\<lparr>mlTick := t\<rparr>) a = Some (b\<lparr>mb_stream := Some st\<rparr>)" for t by (simp add: s1_def)
  have rest: "report_mail env a st (s1\<lparr>mlTick := t\<rparr>) = Some (s1\<lparr>mlTick := t\<rparr>)" "mark_seen a st (s1\<lparr>mlTick := t\<rparr>) = Some (s1\<lparr>mlTick := t\<rparr>)" for t
    using assms(5,6) box by (simp_all add: report_mail_def mark_seen_def)
  have opened: "refresh_stream env a s = Some (s1\<lparr>mlTick := mlTick s\<rparr>)"
    using assms(1-3) by (simp add: refresh_stream_def mail_close_def upd_box_def s1_def)
  have ping: "refresh_stream env a (s1\<lparr>mlTick := t\<rparr>) = Some (s1\<lparr>mlTick := t\<rparr>)" for t
    using box assms(7) by (simp add: refresh_stream_def s1_def)
  have "poll_mailbox env a s = Some (s1\<lparr>mlTick := mlTick s\<rparr>)"
    using opened box silent [OF find] rest by (simp add: poll_mailbox_def)
  moreover have "poll_mailbox env a (s1\<lparr>mlTick := t\<rparr>) = Some (s1\<lparr>mlTick := t\<rparr>)" for t
    using ping box silent [OF find] rest by (simp add: poll_mailbox_def)
  ultimately show ?thesis by (intro exI [of _ "s1\<lparr>mlTick := mlTick s\<rparr>"]) (simp add: s1_def)
qed

lemma find_stream_closed:
  assumes "mlStreams s' = mlStreams s" "mlStream s' = (mlStream s)(st := None)"
    and "snd (snd x) = st" "\<forall>y \<in> set_tree (mlStreams s). snd (snd y) = st \<longrightarrow> y = x"
  shows "find_stream n s' = (if x \<in> set (stream_path n s) then None else find_stream n s)"
proof -
  have key: "stream_key s' y = stream_key s y" if "y \<in> set_tree (mlStreams s)" "y \<noteq> x" for y
    using that assms(2,4) by (auto simp: stream_key_def)
  note path = find_path_changed [where key' = "stream_key s'" and key = "stream_key s" and T = "mlStreams s" and x = x
    and cmp = "cmp_of KeyCompareString" and k = "KString n", OF key]
  show ?thesis
  proof (cases "x \<in> set (stream_path n s)")
    case True
    with path(1) assms(1) have "x \<in> set (stream_path n s')" by (simp add: stream_path_def)
    with True assms(2,3) show ?thesis by (auto simp: find_stream_def)
  next
    case False
    with path(2) assms(1) have eq: "stream_path n s' = stream_path n s"
      "bt_find (cmp_of KeyCompareString) (stream_key s') (KString n) (mlStreams s') = bt_find (cmp_of KeyCompareString) (stream_key s) (KString n) (mlStreams s)"
      by (simp_all add: stream_path_def)
    have "set (stream_path n s) \<subseteq> set_tree (mlStreams s)" unfolding stream_path_def by (rule find_path_nodes)
    then have "mlStream s' (snd (snd y)) = mlStream s (snd (snd y))" if "y \<in> set (stream_path n s)" for y
      using that False assms(2,4) by auto
    with False eq show ?thesis by (auto simp: find_stream_def)
  qed
qed

text \<open>Claim C36. Removing an enabled mailbox whose open stream has one node in the tree of
  streams, where it is found by its name, while the tree of polls holds no freed mailbox,
  frees the stream and leaves its node there: every later search whose way through the tree
  reads this node reads freed memory, among them the search for the name of the stream, and
  every other search answers as before.\<close>

theorem removed_mailbox_breaks_streams:
  assumes "mlBox s a = Some b" "mb_enabled b" "mb_stream b = Some st" "mlStream s st = Some n0" "checks_alive s"
    and "find_stream n0 s = Some (Some x)" "snd (snd x) = st" "\<forall>y \<in> set_tree (mlStreams s). snd (snd y) = st \<longrightarrow> y = x"
  shows "\<exists>s'. drop_box a s = Some s' \<and> mlStreams s' = mlStreams s \<and> mlStream s' st = None \<and> find_stream n0 s' = None \<and>
    (\<forall>n. find_stream n s' = (if x \<in> set (stream_path n s) then None else find_stream n s))"
proof -
  define s1 where "s1 = s\<lparr>mlStream := (mlStream s)(st := None), mlBox := (mlBox s)(a \<mapsto> b\<lparr>mb_stream := None\<rparr>), mlTree := bt_remove a (mlTree s)\<rparr>"
  from assms(3,4) have close: "mail_close (mb_stream b) s = Some (s\<lparr>mlStream := (mlStream s)(st := None)\<rparr>)"
    by (simp add: mail_close_def)
  have "checks_alive s1" using assms(5) by (auto simp: checks_alive_def alive_def s1_def)
  then have "drop_check a s1 = Some (s1\<lparr>mlActive := (case find_time (due_key s1) (mb_nextPoll b) (mlActive s1) of
      None \<Rightarrow> mlActive s1 | Some y \<Rightarrow> bt_remove y (mlActive s1))\<rparr>)"
    by (auto simp: drop_check_def find_check_def s1_def split: option.splits)
  then obtain T where T: "drop_check a s1 = Some (s1\<lparr>mlActive := T\<rparr>)" by blast
  define s2 where "s2 = s1\<lparr>mlActive := T\<rparr>"
  have str: "drop_stream a s2 = Some s2" by (simp add: drop_stream_def s2_def s1_def)
  define s' where "s' = ml_ui (PeMenuRemove 2 (mb_menuText b) # drop_reports (reports_of b)) (s2\<lparr>mlBox := (mlBox s2)(a := None)\<rparr>)"
  have run: "drop_box a s = Some s'"
    using assms(1,2) close T str by (simp add: drop_box_def upd_box_def s1_def [symmetric] s2_def s'_def)
  have s': "mlStreams s' = mlStreams s" "mlStream s' = (mlStream s)(st := None)" by (simp_all add: s'_def s2_def s1_def)
  have find: "find_stream n s' = (if x \<in> set (stream_path n s) then None else find_stream n s)" for n
    by (rule find_stream_closed [OF s' assms(7,8)])
  have "x \<in> set (stream_path n0 s)"
    using assms(6) bt_find_path by (auto simp: find_stream_def stream_path_def split: if_splits)
  with run s' find show ?thesis by (intro exI [of _ s']) simp
qed

section \<open>Examples\<close>

text \<open>Mailbox 1 at address 1, its stream at 5; two messages; a report to a channel, one that is off and one to a nick.\<close>

definition mail_report :: "ptr \<Rightarrow> string \<Rightarrow> bool \<Rightarrow> MailboxReport_t" where
  "mail_report c nick on = (new_report 20)\<lparr>mr_server := Some 3, mr_serverId := 1, mr_channel := c, mr_nick := nick,
     mr_format := ''$subject$'', mr_enabled := on\<rparr>"

definition mail_reports :: "MailboxReport_t list" where
  "mail_reports = [mail_report (Some 4) [] True, mail_report (Some 4) [] False, mail_report None ''bob'' True]"

definition mail_box :: "int \<Rightarrow> ptr \<Rightarrow> Mailbox_t" where
  "mail_box i st = new_mailbox\<lparr>mb_mailboxId := i, mb_enabled := True, mb_stream := st, mb_reports := Some mail_reports, mb_serverSpec := ''{h}M''\<rparr>"

definition mail_example :: "ptr \<Rightarrow> mail" where
  "mail_example st = \<lparr>mlBox = [1 \<mapsto> mail_box 1 st], mlStream = [5 \<mapsto> ''{h}I''], mlTree = Node Leaf 1 Leaf, mlActive = Node Leaf (9, 1) Leaf,
     mlStreams = Node Leaf (10, 1, 5) Leaf, mlReload = False, mlStop = False, mlNew = None, mlTick = 0, mlW = home_world True, mlOut = []\<rparr>"

definition mail_example_env :: mail_env where
  "mail_example_env = \<lparr>me_now = (\<lambda>_. 80), me_open = (\<lambda>_ n. Some (6, n)), me_ping = (\<lambda>_ _. True),
     me_status = (\<lambda>_ _. [\<lparr>ms_messages = Some 9, ms_recent = None, ms_unseen = Some 2\<rparr>]), me_search = (\<lambda>_ _. [41, 42]),
     me_envelope = (\<lambda>_ _. a_message), me_text = (\<lambda>_ _. ([], 0)), me_net = (\<lambda>_. mb_netmbx new_mailbox)\<rparr>"

lemma mail_example_text: "mailboxReportExpand ''$subject$'' a_message [] 0 = Some ''Hi''"
  by code_simp

lemma mail_example_stream: "mailboxFindByStream 5 (mail_example (Some 5)) = Some (Some 1)"
  by code_simp

lemma mail_reported_once_witness:
  "\<exists>s' b'. poll_mailbox mail_example_env 1 (mail_example (Some 5)) = Some s' \<and> mlBox s' 1 = Some b' \<and> mb_messageList b' = Some [] \<and>
    wOut (mlW s') = wOut (mlW (mail_example (Some 5))) @ round_effects mail_example_env 5 (mlW (mail_example (Some 5)))
      (me_search mail_example_env (mlTick (mail_example (Some 5))) 5) (mlTick (mail_example (Some 5))) mail_reports \<and>
    seen_marks (mlOut s') = seen_marks (mlOut (mail_example (Some 5))) @ map (MlSeen 5) (me_search mail_example_env (mlTick (mail_example (Some 5))) 5)"
proof (rule mail_reported_once)
  show "mlBox (mail_example (Some 5)) 1 = Some (mail_box 1 (Some 5))" by (simp add: mail_example_def)
  show "mailboxFindByStream 5 (mail_example (Some 5)) = Some (Some 1)" by (rule mail_example_stream)
  show "\<forall>r \<in> set mail_reports. report_ready mail_example_env 5 (mlW (mail_example (Some 5)))
      (me_search mail_example_env (mlTick (mail_example (Some 5))) 5) r"
    by (simp add: mail_reports_def mail_report_def report_ready_def mail_example_def home_world_def mail_example_env_def mail_example_text)
qed (simp_all add: mail_box_def mail_example_def mail_example_env_def take_status_def new_mailbox_def)

lemma reopened_stream_silent_witness:
  "\<exists>s'. poll_mailbox mail_example_env 1 (mail_example None) = Some s' \<and> mlW s' = mlW (mail_example None) \<and> mlOut s' = mlOut (mail_example None) \<and>
    (\<forall>t. poll_mailbox mail_example_env 1 (s'\<lparr>mlTick := t\<rparr>) = Some (s'\<lparr>mlTick := t\<rparr>))"
proof (rule reopened_stream_silent [where b = "mail_box 1 None" and st = 6 and n = "''{h}M''"])
  show "find_stream ''{h}M'' ((mail_example None)\<lparr>mlStream := (mlStream (mail_example None))(6 \<mapsto> ''{h}M'')\<rparr>) = Some None" by code_simp
qed (simp_all add: mail_box_def mail_example_def mail_example_env_def new_mailbox_def)

lemma removed_mailbox_breaks_streams_witness:
  "\<exists>s'. drop_box 1 (mail_example (Some 5)) = Some s' \<and> mlStreams s' = mlStreams (mail_example (Some 5)) \<and> mlStream s' 5 = None \<and>
    find_stream ''{h}I'' s' = None \<and>
    (\<forall>n. find_stream n s' = (if (10, 1, 5) \<in> set (stream_path n (mail_example (Some 5))) then None else find_stream n (mail_example (Some 5))))"
proof (rule removed_mailbox_breaks_streams)
  show "mlBox (mail_example (Some 5)) 1 = Some (mail_box 1 (Some 5))" by (simp add: mail_example_def)
  show "find_stream ''{h}I'' (mail_example (Some 5)) = Some (Some (10, 1, 5))" by code_simp
qed (simp_all add: mail_box_def mail_example_def new_mailbox_def checks_alive_def alive_def)

end
