(* ===== verification/MailboxFollow.thy ===== *)
theory MailboxFollow
  imports MailboxPoll
begin

text \<open>
  How the reports of a mailbox follow their table, and what happens to the poll of a mailbox that was edited.
\<close>

section \<open>The reports of a mailbox\<close>

definition report_key :: "MailboxReport_t \<Rightarrow> int \<times> string" where
  "report_key r = (mr_chanServId r, mr_nick r)"

definition report_info :: "MailboxReport_t \<Rightarrow> (int \<times> string) \<times> string \<times> bool" where
  "report_info r = (report_key r, mr_format r, mr_enabled r)"

definition row_key :: "db_row \<Rightarrow> int \<times> string" where
  "row_key row = (the (col_int row 0), the (col row 1))"

definition row_report :: "db_row \<Rightarrow> (int \<times> string) \<times> string \<times> bool" where
  "row_report row = (row_key row, the (col row 2), the (col_int row 3) \<noteq> 0)"

definition report_row :: "db_row \<Rightarrow> bool" where
  "report_row row \<longleftrightarrow> (\<forall>k < 4. col row k \<noteq> None)"

text \<open>The lookups of servers and channels do not fault.\<close>

definition reports_located :: "world \<Rightarrow> bool" where
  "reports_located w \<longleftrightarrow> located w \<and> (\<forall>c. FindServerWithChannel c w \<noteq> None)"

lemma report_row_cols:
  assumes "report_row row"
  obtains c n f e where "col row 0 = Some c" "col row 1 = Some n" "col row 2 = Some f" "col row 3 = Some e"
proof -
  have "col row k \<noteq> None" if "k < 4" for k using assms that by (simp add: report_row_def)
  from this [of 0] this [of 1] this [of 2] this [of 3] that show thesis by auto
qed

lemma report_settings_run:
  assumes "report_row row" "reports_located w"
  shows "\<exists>r. report_settings w b row old = Some r \<and> report_info r = row_report row \<and> mr_visited r"
proof -
  from assms(1) obtain c n f e where col: "col row 0 = Some c" "col row 1 = Some n" "col row 2 = Some f" "col row 3 = Some e"
    by (rule report_row_cols)
  from assms(2) obtain i where "FindServerWithChannel (atoi c) w = Some i" unfolding reports_located_def by blast
  with col show ?thesis
    by (simp add: report_settings_def col_int_def report_info_def report_key_def row_report_def row_key_def)
qed

lemma locate_report_run:
  assumes "reports_located w"
  shows "\<exists>r' es. locate_report w r = Some (r', es) \<and> report_info r' = report_info r \<and> mr_visited r' = mr_visited r"
proof -
  from assms obtain j where j: "FindServerWithChannel (mr_channelId r) w = Some j" unfolding reports_located_def by blast
  define i where "i = (if mr_nick r = [] then j else mr_serverId r)"
  have i: "(if mr_nick r = [] then FindServerWithChannel (mr_channelId r) w else Some (mr_serverId r)) = Some i" using j by (simp add: i_def)
  define q where "q = (if mr_serverId r \<noteq> i then resetMenuText (r\<lparr>mr_serverId := i\<rparr>) else (r, []))"
  have q: "report_info (fst q) = report_info r" "mr_visited (fst q) = mr_visited r"
    by (simp_all add: q_def resetMenuText_def Let_def report_info_def report_key_def)
  from assms obtain sv ch where "FindServerNum (mr_serverId (fst q)) w = Some sv" "FindChannelNum sv (mr_channelId (fst q)) w = Some ch"
    unfolding reports_located_def located_def by blast
  then have "locate_report w r = Some ((fst q)\<lparr>mr_server := sv, mr_channel := (if mr_channelId (fst q) > 0 then ch else mr_channel (fst q))\<rparr>, snd q)"
    unfolding locate_report_def i Option.bind.bind_lunit Let_def q_def [symmetric] by (cases q) simp
  with q show ?thesis by (simp add: report_info_def report_key_def)
qed

lemma load_report_row_run:
  assumes "report_row row" "reports_located w"
  shows "\<exists>r es'. load_report_row w b (new, row) (rs, es) =
      Some (takeWhile (\<lambda>r. report_key r \<noteq> row_key row) rs @ r # tl (dropWhile (\<lambda>r. report_key r \<noteq> row_key row) rs), es') \<and>
    report_info r = row_report row \<and> mr_visited r"
proof -
  from assms(1) obtain c n f e where col: "col row 0 = Some c" "col row 1 = Some n" by (rule report_row_cols)
  have same: "(\<lambda>r. \<not> is_report (atoi c) n r) = (\<lambda>r. report_key r \<noteq> row_key row)"
    using col by (auto simp: is_report_def report_key_def row_key_def col_int_def)
  define old where "old = (case dropWhile (\<lambda>r. report_key r \<noteq> row_key row) rs of [] \<Rightarrow> new_report new | r # _ \<Rightarrow> r)"
  from report_settings_run [OF assms, of b old] obtain r where r: "report_settings w b row old = Some r" "report_info r = row_report row" "mr_visited r"
    by blast
  define r1 where "r1 = r\<lparr>mr_menuText := Some (report_menu_text r), mr_justAdded := False\<rparr>"
  have "\<exists>r2 ls. (if wLoaded w then locate_report w r1 else Some (r1\<lparr>mr_server := None, mr_channel := None\<rparr>, [])) = Some (r2, ls) \<and>
      report_info r2 = report_info r \<and> mr_visited r2 = mr_visited r"
    using locate_report_run [OF assms(2), of r1] by (auto simp: r1_def report_info_def report_key_def)
  then obtain r2 ls where r2: "(if wLoaded w then locate_report w r1 else Some (r1\<lparr>mr_server := None, mr_channel := None\<rparr>, [])) = Some (r2, ls)"
    "report_info r2 = report_info r" "mr_visited r2 = mr_visited r" by blast
  define r3 where "r3 = r2\<lparr>mr_oldMailboxId := mr_mailboxId r2, mr_oldChanServId := mr_chanServId r2, mr_oldNick := Some (mr_nick r2)\<rparr>"
  have "load_report_row w b (new, row) (rs, es) =
      Some (takeWhile (\<lambda>r. report_key r \<noteq> row_key row) rs @ r3 # tl (dropWhile (\<lambda>r. report_key r \<noteq> row_key row) rs),
        es @ menu_effects (mr_addr r) (mr_menuText r) (report_menu_text r) (mr_justAdded r) @ ls)"
    unfolding load_report_row_def prod.case col col_int_def Option.bind.bind_lunit Let_def option.map same old_def [symmetric] r(1)
      r1_def [symmetric] r2(1) r3_def by simp
  moreover have "report_info r3 = row_report row" "mr_visited r3" using r r2 by (simp_all add: r3_def report_info_def report_key_def)
  ultimately show ?thesis by blast
qed

text \<open>After some rows: the visited reports are theirs, the others are as they were.\<close>

definition reports_loaded :: "MailboxReport_t list \<Rightarrow> db_row list \<Rightarrow> MailboxReport_t list \<Rightarrow> bool" where
  "reports_loaded rs rows rs' \<longleftrightarrow> distinct (map report_key rs') \<and>
     (\<forall>r \<in> set rs'. mr_visited r \<longleftrightarrow> report_key r \<in> row_key ` set rows) \<and>
     report_info ` set (filter mr_visited rs') = row_report ` set rows \<and>
     filter (\<lambda>r. \<not> mr_visited r) rs' = filter (\<lambda>r. report_key r \<notin> row_key ` set rows) rs"

lemma split_key:
  obtains before old after where "rs = before @ old @ after" "length old \<le> 1" "\<forall>r \<in> set old. report_key r = k"
    "takeWhile (\<lambda>r. report_key r \<noteq> k) rs = before" "tl (dropWhile (\<lambda>r. report_key r \<noteq> k) rs) = after"
    "\<forall>r \<in> set before. report_key r \<noteq> k" "distinct (map report_key rs) \<longrightarrow> (\<forall>r \<in> set after. report_key r \<noteq> k)"
proof (cases "dropWhile (\<lambda>r. report_key r \<noteq> k) rs")
  case Nil
  then have "takeWhile (\<lambda>r. report_key r \<noteq> k) rs = rs" "\<forall>r \<in> set rs. report_key r \<noteq> k"
    by (auto simp: dropWhile_eq_Nil_conv takeWhile_eq_all_conv)
  then show thesis using that [of rs "[]" "[]"] Nil by simp
next
  case (Cons x after)
  have k: "report_key x = k" using hd_dropWhile [of "\<lambda>r. report_key r \<noteq> k" rs] Cons by simp
  define before where "before = takeWhile (\<lambda>r. report_key r \<noteq> k) rs"
  have rs: "rs = before @ [x] @ after"
    using takeWhile_dropWhile_id [of "\<lambda>r. report_key r \<noteq> k" rs] Cons by (simp add: before_def)
  have none: "\<forall>r \<in> set before. report_key r \<noteq> k" by (auto simp: before_def dest: set_takeWhileD)
  have rest: "\<forall>r \<in> set after. report_key r \<noteq> k" if "distinct (map report_key rs)"
    using that k unfolding rs by (auto simp: image_iff)
  show thesis
    by (rule that [of before "[x]" after, OF rs]) (use k none rest Cons in \<open>simp_all add: before_def\<close>)
qed

lemma reports_loaded_step:
  assumes "reports_loaded rs rows rs'" "row_key row \<notin> row_key ` set rows" "report_info r = row_report row" "mr_visited r"
    and "distinct (map report_key rs)"
  shows "reports_loaded rs (rows @ [row])
    (takeWhile (\<lambda>r. report_key r \<noteq> row_key row) rs' @ r # tl (dropWhile (\<lambda>r. report_key r \<noteq> row_key row) rs'))"
proof -
  let ?k = "row_key row"
  from assms(1) have l: "distinct (map report_key rs')" "\<forall>r \<in> set rs'. mr_visited r \<longleftrightarrow> report_key r \<in> row_key ` set rows"
    "report_info ` set (filter mr_visited rs') = row_report ` set rows"
    "filter (\<lambda>r. \<not> mr_visited r) rs' = filter (\<lambda>r. report_key r \<notin> row_key ` set rows) rs"
    unfolding reports_loaded_def by blast+
  obtain before old after where rs': "rs' = before @ old @ after" and old: "length old \<le> 1" "\<forall>r \<in> set old. report_key r = ?k"
    and new: "takeWhile (\<lambda>r. report_key r \<noteq> ?k) rs' = before" "tl (dropWhile (\<lambda>r. report_key r \<noteq> ?k) rs') = after"
    and other: "\<forall>r \<in> set before. report_key r \<noteq> ?k" "distinct (map report_key rs') \<longrightarrow> (\<forall>r \<in> set after. report_key r \<noteq> ?k)"
    by (rule split_key [of rs' ?k])
  have k: "report_key r = ?k" using assms(3) by (simp add: report_info_def row_report_def)
  have unv: "\<forall>r \<in> set old. \<not> mr_visited r" using l(2) old(2) assms(2) rs' by auto
  have ra: "\<forall>r \<in> set after. report_key r \<noteq> ?k" using other(2) l(1) by blast
  have "distinct (map report_key (before @ r # after))" using l(1) other(1) ra k unfolding rs' by auto
  moreover have "\<forall>x \<in> set (before @ r # after). mr_visited x \<longleftrightarrow> report_key x \<in> row_key ` set (rows @ [row])"
    using l(2) other(1) ra k assms(4) unfolding rs' by auto
  moreover have "report_info ` set (filter mr_visited (before @ r # after)) = row_report ` set (rows @ [row])"
  proof -
    have "filter mr_visited old = []" using unv by (simp add: filter_empty_conv)
    then have "report_info ` set (filter mr_visited (before @ r # after)) = insert (report_info r) (report_info ` set (filter mr_visited rs'))"
      using assms(4) unfolding rs' by auto
    then show ?thesis using l(3) assms(3) by simp
  qed
  moreover have "filter (\<lambda>r. \<not> mr_visited r) (before @ r # after) = filter (\<lambda>r. report_key r \<notin> row_key ` set (rows @ [row])) rs"
  proof -
    have "filter (\<lambda>r. report_key r \<notin> row_key ` set (rows @ [row])) rs =
        filter (\<lambda>r. report_key r \<noteq> ?k) (filter (\<lambda>r. report_key r \<notin> row_key ` set rows) rs)"
      by (auto intro: filter_cong)
    also have "\<dots> = filter (\<lambda>r. report_key r \<noteq> ?k) (filter (\<lambda>r. \<not> mr_visited r) rs')" by (simp only: l(4))
    also have "\<dots> = filter (\<lambda>r. \<not> mr_visited r) (before @ after)"
    proof -
      have "filter (\<lambda>r. report_key r \<noteq> ?k) (filter (\<lambda>r. \<not> mr_visited r) old) = []" using old(2) by (simp add: filter_empty_conv)
      moreover have "filter (\<lambda>r. report_key r \<noteq> ?k) (filter (\<lambda>r. \<not> mr_visited r) before) = filter (\<lambda>r. \<not> mr_visited r) before"
        "filter (\<lambda>r. report_key r \<noteq> ?k) (filter (\<lambda>r. \<not> mr_visited r) after) = filter (\<lambda>r. \<not> mr_visited r) after"
        using other(1) ra by (auto intro!: filter_cong)
      ultimately show ?thesis by (simp only: rs' filter_append append_Nil)
    qed
    finally show ?thesis using assms(4) by simp
  qed
  ultimately show ?thesis unfolding new reports_loaded_def by blast
qed

lemma load_reports_run:
  assumes "\<forall>m \<in> set rows. report_row (snd m)" "reports_located w" "distinct (map report_key rs)" "\<forall>r \<in> set rs. \<not> mr_visited r"
    and "distinct (map (row_key \<circ> snd) rows)"
  shows "\<exists>rs' es'. foldM (load_report_row w b) rows (rs, es) = Some (rs', es') \<and> reports_loaded rs (map snd rows) rs'"
  using assms(1,5)
proof (induction rows rule: rev_induct)
  case Nil
  have "filter (\<lambda>r. \<not> mr_visited r) rs = rs" "filter mr_visited rs = []" using assms(4) by (simp_all add: filter_id_conv filter_empty_conv)
  with assms(3,4) show ?case by (simp add: reports_loaded_def)
next
  case (snoc m rows)
  then obtain rs1 es1 where 1: "foldM (load_report_row w b) rows (rs, es) = Some (rs1, es1)" "reports_loaded rs (map snd rows) rs1" by auto
  obtain new row where m: "m = (new, row)" by (cases m)
  with snoc.prems(1) have "report_row row" by simp
  from load_report_row_run [OF this assms(2)] obtain r es2 where
    2: "load_report_row w b (new, row) (rs1, es1) =
      Some (takeWhile (\<lambda>r. report_key r \<noteq> row_key row) rs1 @ r # tl (dropWhile (\<lambda>r. report_key r \<noteq> row_key row) rs1), es2)"
    "report_info r = row_report row" "mr_visited r" by blast
  have "row_key row \<notin> row_key ` set (map snd rows)" using snoc.prems(2) m by (auto simp: image_iff)
  from reports_loaded_step [OF 1(2) this 2(2,3) assms(3)] show ?case using 1(1) 2(1) m by (simp add: foldM_append)
qed

text \<open>Claim C35. After the reports of a mailbox were loaded, the visited ones are exactly those of
  the rows of the database, one for each channel and nick, and the reports that are not in the
  rows are left unvisited as they were, for the flush to remove.\<close>

theorem reports_follow:
  assumes "mlBox s a = Some b" "mb_reports b = Some rs" "distinct (map report_key rs)" "\<forall>r \<in> set rs. \<not> mr_visited r"
    and "\<forall>m \<in> set rows. report_row (snd m)" "distinct (map (row_key \<circ> snd) rows)" "reports_located (mlW s)"
  shows "\<exists>s' rs'. result_load_reports rows a s = Some s' \<and> mlBox s' a = Some (b\<lparr>mb_reports := Some rs'\<rparr>) \<and>
    report_info ` set (filter mr_visited rs') = row_report ` set (map snd rows) \<and> distinct (map report_key (filter mr_visited rs')) \<and>
    filter (\<lambda>r. \<not> mr_visited r) rs' = filter (\<lambda>r. report_key r \<notin> row_key ` set (map snd rows)) rs"
proof (cases "rows = []")
  case True
  have "filter (\<lambda>r. \<not> mr_visited r) rs = rs" "filter mr_visited rs = []" using assms(4) by (simp_all add: filter_id_conv filter_empty_conv)
  moreover have "b\<lparr>mb_reports := Some rs\<rparr> = b" using assms(2) by simp
  ultimately show ?thesis using True assms(1) by (intro exI [of _ s] exI [of _ rs]) (simp add: result_load_reports_def)
next
  case False
  from load_reports_run [OF assms(5,7,3,4,6), of b "[]"] obtain rs' es where
    1: "foldM (load_report_row (mlW s) b) rows (rs, []) = Some (rs', es)" "reports_loaded rs (map snd rows) rs'" by blast
  have "distinct (map report_key (filter mr_visited rs'))" using 1(2) by (simp add: reports_loaded_def distinct_map_filter)
  moreover define s' where "s' = (ml_ui es s)\<lparr>mlBox := (mlBox s)(a \<mapsto> b\<lparr>mb_reports := Some rs'\<rparr>)\<rparr>"
  then have "result_load_reports rows a s = Some s'"
    using False assms(1,2) 1(1) by (simp add: result_load_reports_def upd_box_def)
  moreover have "mlBox s' a = Some (b\<lparr>mb_reports := Some rs'\<rparr>)" by (simp add: s'_def)
  ultimately show ?thesis using 1(2) unfolding reports_loaded_def by blast
qed

section \<open>A mailbox that was edited\<close>

lemma insert_less: "\<forall>y \<in> set_tree T. cmp (key x) (key y) \<noteq> (0 :: int) \<Longrightarrow> set_tree (bt_insert cmp key x T) = insert x (set_tree T)"
  by (induction T) auto

lemma time_less: "is_time t \<Longrightarrow> is_time u \<Longrightarrow> cmp_of KeyCompareInt (id_key t) (id_key u) < 0 \<longleftrightarrow> t < u"
  "is_time t \<Longrightarrow> is_time u \<Longrightarrow> cmp_of KeyCompareInt (id_key t) (id_key u) = 0 \<longleftrightarrow> t = u"
  by (simp_all add: is_time_def cmp_pos)

definition check_time :: "mail \<Rightarrow> addr \<times> addr \<Rightarrow> int" where
  "check_time s x = (case mlBox s (snd x) of Some b \<Rightarrow> mb_nextPoll b | None \<Rightarrow> 0)"

lemma due_key_time: "due_key s x = id_key (check_time s x)"
  by (simp add: due_key_def check_time_def split: option.splits)

text \<open>
  A row gives a mailbox the new poll time \<open>t\<close>. Its node hangs to the right of the root, which is due
  later, and no node to the left is due at \<open>t\<close>.
\<close>

definition moved_left :: "mail \<Rightarrow> addr \<Rightarrow> int \<Rightarrow> (addr \<times> addr) \<Rightarrow> bool" where
  "moved_left s a t x \<longleftrightarrow> (\<exists>l y r. mlActive s = Node l y r \<and> x \<in> set_tree r \<and> snd x = a \<and> check_time s x = t \<and> is_time t \<and>
     snd y \<noteq> a \<and> is_time (check_time s y) \<and> t < check_time s y \<and>
     (\<forall>z \<in> set_tree l. snd z \<noteq> a \<and> is_time (check_time s z) \<and> check_time s z \<noteq> t))"

lemma moved_left_not_found:
  assumes "moved_left s a t x"
  shows "find_time (due_key s) t (mlActive s) = None"
proof -
  from assms obtain l y r where T: "mlActive s = Node l y r" "is_time t" "is_time (check_time s y)" "t < check_time s y"
    "\<forall>z \<in> set_tree l. is_time (check_time s z) \<and> check_time s z \<noteq> t" unfolding moved_left_def by blast
  have "find_time (due_key s) t l \<noteq> Some z" for z
    using bt_find_SomeD [of "cmp_of KeyCompareInt" "due_key s" "id_key t" l z] T(2,5) time_less(2) by (force simp: due_key_time)
  then have "find_time (due_key s) t l = None" by (cases "find_time (due_key s) t l") blast+
  with T time_less [of t "check_time s y"] show ?thesis by (simp add: due_key_time)
qed

lemma moved_left_add:
  assumes "moved_left s a t x" "mlBox s a = Some b" "mb_nextPoll b = t" "checks_alive s"
  shows "\<exists>T. add_check (node, a) s = Some (s\<lparr>mlActive := T\<rparr>) \<and> {x, (node, a)} \<subseteq> set_tree T"
proof -
  from assms(1) obtain l y r where T: "mlActive s = Node l y r" "x \<in> set_tree r" "is_time t" "is_time (check_time s y)" "t < check_time s y"
    "\<forall>z \<in> set_tree l. snd z \<noteq> a \<and> is_time (check_time s z) \<and> check_time s z \<noteq> t" unfolding moved_left_def by blast
  have key: "box_at s a t = due_key s" using assms(2,3) by (simp add: box_at_def due_key_def fun_eq_iff)
  have "unconflicting (box_at s a) (mlActive s) t = Some t"
    using moved_left_not_found [OF assms(1)] key by (subst unconflicting.simps) simp
  moreover have "(mlBox s)(a \<mapsto> b\<lparr>mb_nextPoll := t\<rparr>) = mlBox s" using assms(2,3) by (simp add: fun_upd_idem)
  ultimately have run: "add_check (node, a) s = Some (s\<lparr>mlActive := add_time (due_key s) (node, a) (mlActive s)\<rparr>)"
    using assms(2-4) by (simp add: add_check_def upd_box_def)
  have ka: "due_key s (node, a) = id_key t" using assms(2,3) by (simp add: due_key_def)
  have "set_tree (bt_insert (cmp_of KeyCompareInt) (due_key s) (node, a) l) = insert (node, a) (set_tree l)"
    by (rule insert_less) (use T(3,6) ka in \<open>auto simp: due_key_time time_less\<close>)
  then have "{x, (node, a)} \<subseteq> set_tree (add_time (due_key s) (node, a) (mlActive s))"
    using T time_less [of t "check_time s y"] ka by (simp add: due_key_time)
  with run show ?thesis by blast
qed

text \<open>Loading a mailbox that was edited and becomes due before others leaves its old
  node in the tree of polls beside the new one: the search for the old node uses the new time.\<close>

theorem edited_mailbox_polled_twice:
  assumes "load_mailbox_data digits new row np s = Some (a, True, True, newBox, np', s1)" "mlBox s1 a = Some b"
    and "mb_enabled b" "newBox \<or> mb_modified b" "mb_stream b = None" "checks_alive s1" "streams_alive s1"
    and "moved_left s1 a (mb_nextPoll b) x"
  shows "\<exists>s'. load_mailbox_row env digits ((new, node, snode), row) (np, s) = Some (np', s') \<and> {x, (node, a)} \<subseteq> set_tree (mlActive s')"
proof -
  let ?b = "b\<lparr>mb_modified := False\<rparr>"
  define s2 where "s2 = s1\<lparr>mlBox := (mlBox s1)(a \<mapsto> ?b)\<rparr>"
  have stop: "stop_mailbox a s1 = Some s1"
    using assms(2,5,6) moved_left_not_found [OF assms(8)] by (simp add: stop_mailbox_def drop_check_def find_check_def)
  have "check_time s2 = check_time s1" using assms(2) by (simp add: check_time_def s2_def fun_eq_iff)
  then have "moved_left s2 a (mb_nextPoll ?b) x" using assms(8) by (simp add: moved_left_def s2_def)
  moreover have "checks_alive s2" using assms(6) by (auto simp: checks_alive_def alive_def s2_def)
  ultimately obtain T where T: "add_check (node, a) s2 = Some (s2\<lparr>mlActive := T\<rparr>)" "{x, (node, a)} \<subseteq> set_tree T"
    using moved_left_add [of s2 a "mb_nextPoll ?b" x ?b node] by (auto simp: s2_def)
  have "\<exists>s'. start_stream env snode a (s2\<lparr>mlActive := T\<rparr>) = Some s' \<and> mlActive s' = T"
  proof (cases "me_open env (mlTick s2) (mb_serverSpec ?b)")
    case None
    then show ?thesis by (simp add: start_stream_def upd_box_def s2_def)
  next
    case (Some p)
    then obtain st n where p: "me_open env (mlTick s2) (mb_serverSpec ?b) = Some (st, n)" by (cases p) simp
    define s3 where "s3 = s2\<lparr>mlActive := T, mlStream := (mlStream s2)(st \<mapsto> n),
      mlBox := (mlBox s2)(a \<mapsto> ?b\<lparr>mb_netmbx := me_net env (mb_serverSpec ?b), mb_stream := Some st\<rparr>)\<rparr>"
    have "streams_alive s3" using assms(7) by (auto simp: streams_alive_def alive_def s3_def s2_def)
    then have "\<exists>s'. add_stream (snode, a, st) s3 = Some s' \<and> mlActive s' = T" by (simp add: add_stream_alive) (simp add: s3_def)
    moreover have "start_stream env snode a (s2\<lparr>mlActive := T\<rparr>) = add_stream (snode, a, st) s3"
      using p by (simp add: start_stream_def upd_box_def s2_def s3_def)
    ultimately show ?thesis by simp
  qed
  then obtain s' where s': "start_stream env snode a (s2\<lparr>mlActive := T\<rparr>) = Some s'" "mlActive s' = T" by blast
  have "load_mailbox_row env digits ((new, node, snode), row) (np, s) = Some (np', s')"
    using assms(1-4) stop T(1) s'(1) by (auto simp: load_mailbox_row_def upd_box_def s2_def)
  with T(2) s'(2) show ?thesis by blast
qed

section \<open>Examples\<close>

definition mail_report_row :: "string \<Rightarrow> db_row" where
  "mail_report_row nick = map Some [''1'', nick, ''$body$'', ''1'']"

lemma mail_report_row_ok: "report_row (mail_report_row nick)"
  by (auto simp: report_row_def col_def mail_report_row_def less_Suc_eq numeral_eq_Suc)

text \<open>Mailbox 1 has a report to \<open>bob\<close>, which stays, and one to a channel; the table has \<open>bob\<close> and \<open>eve\<close>.\<close>

definition old_reports :: "MailboxReport_t list" where
  "old_reports = [(new_report 20)\<lparr>mr_chanServId := 1, mr_nick := ''bob''\<rparr>, (new_report 21)\<lparr>mr_chanServId := 5\<rparr>]"

definition old_mail :: mail where
  "old_mail = (mail_example None)\<lparr>mlBox := [1 \<mapsto> (mail_box 1 None)\<lparr>mb_reports := Some old_reports\<rparr>]\<rparr>"

lemma reports_follow_witness:
  "\<exists>s' rs'. result_load_reports [(30, mail_report_row ''eve''), (31, mail_report_row ''bob'')] 1 old_mail = Some s' \<and>
    mlBox s' 1 = Some ((mail_box 1 None)\<lparr>mb_reports := Some old_reports, mb_reports := Some rs'\<rparr>) \<and>
    report_info ` set (filter mr_visited rs') = row_report ` set (map snd [(30 :: addr, mail_report_row ''eve''), (31, mail_report_row ''bob'')]) \<and>
    distinct (map report_key (filter mr_visited rs')) \<and>
    filter (\<lambda>r. \<not> mr_visited r) rs' = filter (\<lambda>r. report_key r \<notin> row_key ` set (map snd [(30 :: addr, mail_report_row ''eve''), (31, mail_report_row ''bob'')])) old_reports"
proof (rule reports_follow)
  show "reports_located (mlW old_mail)"
    by (auto simp: reports_located_def located_def old_mail_def mail_example_def home_world_def no_world_def FindServerNum_def
        FindServerWithChannel_def FindChannelNum_def split: option.splits)
  show "distinct (map (row_key \<circ> snd) [(30, mail_report_row ''eve''), (31, mail_report_row ''bob'')])" by code_simp
  show "distinct (map report_key old_reports)" by code_simp
qed (simp_all add: old_mail_def old_reports_def new_report_def mail_report_row_ok)

text \<open>Mailbox 2 was due at 200 and gets the time 80 because its form was saved; mailbox 1 is due at 100.\<close>

definition edited_row :: db_row where
  "edited_row = map Some [''2'', ''h'', ''0'', ''u'', ''p'', ''imap'', '''', '''', ''60'', ''0'', ''0'', ''1'']"

definition edited_mail :: mail where
  "edited_mail = (mail_example None)\<lparr>mlBox := [1 \<mapsto> (mail_box 1 None)\<lparr>mb_nextPoll := 100\<rparr>,
     2 \<mapsto> (mail_box 2 None)\<lparr>mb_nextPoll := 200, mb_modified := True\<rparr>],
     mlTree := Node Leaf 1 (Node Leaf 2 Leaf), mlActive := Node Leaf (9, 1) (Node Leaf (10, 2) Leaf), mlStream := Map.empty, mlStreams := Leaf\<rparr>"

definition edited_load :: "(addr \<times> bool \<times> bool \<times> bool \<times> int \<times> mail) option" where
  "edited_load = load_mailbox_data 1 30 edited_row 80 edited_mail"

definition after_edit :: mail where
  "after_edit = snd (snd (snd (snd (snd (the edited_load)))))"

lemma edited_load: "edited_load = Some (2, True, True, True, 81, after_edit)"
proof -
  have c: "(case edited_load of None \<Rightarrow> False | Some (a, f, o', n, t, s) \<Rightarrow> a = 2 \<and> f \<and> o' \<and> n \<and> t = 81)" by code_simp
  then obtain p where p: "edited_load = Some p" by (cases edited_load) simp_all
  obtain i f e n t u where q: "p = (i, f, e, n, t, u)" by (rule prod_cases6)
  show ?thesis using c unfolding after_edit_def p q by simp
qed

lemma after_edit_box:
  obtains b where "mlBox after_edit 2 = Some b" "mb_enabled b" "mb_stream b = None" "mb_nextPoll b = 80"
proof -
  have "(case mlBox after_edit 2 of None \<Rightarrow> False | Some b \<Rightarrow> mb_enabled b \<and> mb_stream b = None \<and> mb_nextPoll b = 80)" by code_simp
  then show thesis using that by (auto split: option.splits)
qed

lemma after_edit_moved: "moved_left after_edit 2 80 (10, 2)"
proof -
  have "mlActive after_edit = Node Leaf (9, 1) (Node Leaf (10, 2) Leaf)" by code_simp
  moreover have "check_time after_edit (9, 1) = 100" "check_time after_edit (10, 2) = 80" by code_simp+
  ultimately show ?thesis by (simp add: moved_left_def is_time_def)
qed

lemma edited_mailbox_polled_twice_witness:
  "\<exists>s'. load_mailbox_row mail_example_env 1 ((30, 31, 32), edited_row) (80, edited_mail) = Some (81, s') \<and>
    {(10, 2), (31, 2)} \<subseteq> set_tree (mlActive s')"
proof -
  obtain b where b: "mlBox after_edit 2 = Some b" "mb_enabled b" "mb_stream b = None" "mb_nextPoll b = 80" by (rule after_edit_box)
  have "checks_alive after_edit" "streams_alive after_edit" by code_simp+
  moreover have "moved_left after_edit 2 (mb_nextPoll b) (10, 2)" unfolding b(4) by (rule after_edit_moved)
  ultimately show ?thesis
    using edited_mailbox_polled_twice [OF edited_load [unfolded edited_load_def] b(1,2) _ b(3)] by blast
qed

end
