(* ===== verification/MailboxCmd.thy ===== *)
theory MailboxCmd
  imports MailboxFollow
begin

text \<open>
  \<open>bot/src/plugins/mailbox.c\<close>, last part: the command, servers and channels that go away, the forms,
  loading and unloading the plugin. Every query the plugin queues fits its table of queries.
\<close>

section \<open>The command\<close>

text \<open>A line of the list is printed into 256 bytes. Text to the right of an item needs text before it.\<close>

fun botMailboxDepthFirst :: "mail \<Rightarrow> bool \<Rightarrow> addr tree \<Rightarrow> string option option" where
  "botMailboxDepthFirst s filt Leaf = Some None"
| "botMailboxDepthFirst s filt (Node l a r) = do {
     message \<leftarrow> botMailboxDepthFirst s filt l;
     b \<leftarrow> mlBox s a;
     message \<leftarrow> (if \<not> filt \<or> mb_enabled b then
         let t = fmt_d (mb_mailboxId b) @ ''-'' @ mb_serverSpec b in
         if length t < 256 then Some (Some (case message of None \<Rightarrow> t | Some m \<Rightarrow> m @ '', '' @ t)) else None
       else Some message);
     submsg \<leftarrow> botMailboxDepthFirst s filt r;
     (case submsg of
        None \<Rightarrow> Some message
      | Some t \<Rightarrow> do { m \<leftarrow> message; Some (Some (m @ '', '' @ t)) })
   }"

text \<open>The details are written into 1024 bytes; \<open>date\<close> prints a time in fewer than 32 characters.\<close>

definition mailboxShowDetails :: "(int \<Rightarrow> string) \<Rightarrow> Mailbox_t \<Rightarrow> string option" where
  "mailboxShowDetails date b =
     (let m = ''Mailbox: mailbox '' @ fmt_d (mb_mailboxId b) @ (if mb_enabled b then [] else '' (disabled)'') @ '': '' @ mb_serverSpec b @
         '', poll interval '' @ fmt_d (mb_interval b) @ ''s, last checked '' @
         (if mb_lastCheck b = 0 then ''never'' else date (mb_lastCheck b)) @ '', last read '' @
         (if mb_lastRead b = 0 then ''never'' else date (mb_lastRead b)) @ '', next poll '' @ date (mb_nextPoll b) in
      if length m < 1024 then Some m else None)"

definition mailbox_enable :: "int \<Rightarrow> addr \<Rightarrow> int \<Rightarrow> mail \<Rightarrow> (string \<times> mail) option" where
  "mailbox_enable now node mailboxNum s = do {
     item \<leftarrow> find_box mailboxNum s;
     case item of
       None \<Rightarrow> Some (''No such mailbox!'', s)
     | Some a \<Rightarrow> do {
         b \<leftarrow> mlBox s a;
         if \<not> mb_enabled b then do {
           s \<leftarrow> upd_box a (\<lambda>b. b\<lparr>mb_enabled := True, mb_nextPoll := now\<rparr>) s;
           s \<leftarrow> add_check (node, a) s;
           Some (''Enabled mailbox '' @ fmt_d (mb_mailboxId b) @ '' - '' @ mb_serverSpec b,
             ml_ui [PeKick] (s\<lparr>mlActive := bt_rebalance (mlActive s)\<rparr>))
         } else Some (''Mailbox '' @ fmt_d (mb_mailboxId b) @ '' already enabled'', s)
       }
   }"

definition mailbox_disable :: "int \<Rightarrow> mail \<Rightarrow> (string \<times> mail) option" where
  "mailbox_disable mailboxNum s = do {
     item \<leftarrow> find_box mailboxNum s;
     case item of
       None \<Rightarrow> Some (''No such feed!'', s)
     | Some a \<Rightarrow> do {
         b \<leftarrow> mlBox s a;
         if mb_enabled b then do {
           s \<leftarrow> upd_box a (\<lambda>b. b\<lparr>mb_enabled := False\<rparr>) s;
           s \<leftarrow> drop_check a s;
           Some (''Disabled mailbox '' @ fmt_d (mb_mailboxId b) @ '' - '' @ mb_serverSpec b,
             ml_ui [PeKick] (s\<lparr>mlActive := bt_rebalance (mlActive s)\<rparr>))
         } else Some (''Mailbox '' @ fmt_d (mb_mailboxId b) @ '' already disabled'', s)
       }
   }"

definition mail_reply :: "int \<Rightarrow> addr \<Rightarrow> ptr \<Rightarrow> string \<Rightarrow> string option \<Rightarrow> mail \<Rightarrow> mail option" where
  "mail_reply now server channel who message s =
     map_option (\<lambda>w. s\<lparr>mlW := w\<rparr>)
       (case channel of
          Some c \<Rightarrow> say_channel now server c message (mlW s)
        | None \<Rightarrow> tx_msg server TX_PRIVMSG (Some who) message (mlW s))"

text \<open>\<open>auth\<close>: whether \<open>authenticate_check\<close> accepts the nick; \<open>node\<close>: the node that enabling allocates.\<close>

definition botCmdMailbox ::
    "int \<Rightarrow> (int \<Rightarrow> string) \<Rightarrow> bool \<Rightarrow> addr \<Rightarrow> addr \<Rightarrow> ptr \<Rightarrow> string \<Rightarrow> string option \<Rightarrow> mail \<Rightarrow> mail option" where
  "botCmdMailbox now date auth node server channel who msg s =
     (case CommandLineParse msg of
        (None, _) \<Rightarrow> Some s
      | (Some command, line) \<Rightarrow>
          if command = ''list'' then do {
            m \<leftarrow> (if line = Some ''all'' then botMailboxDepthFirst s False (mlTree s)
                 else if line = Some ''timeout'' then botMailboxDump s now (mlActive s)
                 else botMailboxDepthFirst s True (mlTree s));
            mail_reply now server channel who m s
          }
          else if command = ''show'' \<and> line \<noteq> None then do {
            item \<leftarrow> find_box (atoi (the line)) s;
            m \<leftarrow> (case item of
                    None \<Rightarrow> Some ''No such mailbox!''
                  | Some a \<Rightarrow> do { b \<leftarrow> mlBox s a; mailboxShowDetails date b });
            mail_reply now server channel who (Some m) s
          }
          else if channel \<noteq> None then Some s
          else if \<not> auth then mail_reply now server None who (Some ''You are not authorized, you can't do that!'') s
          else if command = ''enable'' \<and> line \<noteq> None then do {
            (m, s) \<leftarrow> mailbox_enable now node (atoi (the line)) s;
            mail_reply now server channel who (Some m) s
          }
          else if command = ''disable'' \<and> line \<noteq> None then do {
            (m, s) \<leftarrow> mailbox_disable (atoi (the line)) s;
            mail_reply now server channel who (Some m) s
          }
          else Some s)"

section \<open>When a server or a channel goes away\<close>

fun mailboxRecurseDisable ::
    "(MailboxReport_t \<Rightarrow> bool) \<Rightarrow> (MailboxReport_t \<Rightarrow> MailboxReport_t) \<Rightarrow> addr tree \<Rightarrow> mail \<Rightarrow> (bool \<times> mail) option" where
  "mailboxRecurseDisable P clear Leaf s = Some (False, s)"
| "mailboxRecurseDisable P clear (Node l a r) s = do {
     (c1, s) \<leftarrow> mailboxRecurseDisable P clear l s;
     b \<leftarrow> mlBox s a;
     s \<leftarrow> upd_box a (\<lambda>b. b\<lparr>mb_reports := map_option (map (\<lambda>r. if P r then clear r else r)) (mb_reports b)\<rparr>) s;
     (c2, s) \<leftarrow> mailboxRecurseDisable P clear r s;
     Some (c2 \<or> c1 \<or> (\<exists>x \<in> set (reports_of b). P x), s)
   }"

definition mailboxRecurseDisableServer :: "addr \<Rightarrow> addr tree \<Rightarrow> mail \<Rightarrow> (bool \<times> mail) option" where
  "mailboxRecurseDisableServer server = mailboxRecurseDisable (\<lambda>r. mr_server r = Some server) (\<lambda>r. r\<lparr>mr_server := None\<rparr>)"

definition mailboxRecurseDisableChannel :: "addr \<Rightarrow> addr tree \<Rightarrow> mail \<Rightarrow> (bool \<times> mail) option" where
  "mailboxRecurseDisableChannel channel = mailboxRecurseDisable (\<lambda>r. mr_channel r = Some channel) (\<lambda>r. r\<lparr>mr_channel := None\<rparr>)"

definition mailboxDisableServer :: "addr \<Rightarrow> mail \<Rightarrow> mail option" where
  "mailboxDisableServer server s = do {
     (changed, s) \<leftarrow> mailboxRecurseDisableServer server (mlTree s) s;
     Some (if changed then ml_ui [PeKick] s else s)
   }"

definition mailboxDisableChannel :: "addr \<Rightarrow> mail \<Rightarrow> mail option" where
  "mailboxDisableChannel channel s = do {
     (changed, s) \<leftarrow> mailboxRecurseDisableChannel channel (mlTree s) s;
     Some (if changed then ml_ui [PeKick] s else s)
   }"

section \<open>The form of a mailbox\<close>

definition box_binds :: "Mailbox_t \<Rightarrow> MYSQL_BIND list" where
  "box_binds b =
     [bind_text (mb_server b), bind_long (mb_port b), bind_text (mb_user b), bind_text (mb_password b), bind_text (mb_protocol b),
      bind_text (mb_options b), bind_text (mb_mailbox b), bind_long (mb_interval b), bind_long (if mb_enabled b then 1 else 0)]"

text \<open>The answer to the insert of a new mailbox: its node is taken out and put back under the new number.\<close>

definition result_insert_mailbox :: "addr \<Rightarrow> int \<Rightarrow> mail \<Rightarrow> mail option" where
  "result_insert_mailbox a insertid s = do {
     b \<leftarrow> mlBox s a;
     if mb_mailboxId b = -1 then do {
       item \<leftarrow> find_box (-1) s;
       case item of
         None \<Rightarrow> Some s
       | Some c \<Rightarrow> do {
           s \<leftarrow> upd_box a (\<lambda>b. b\<lparr>mb_mailboxId := insertid, mb_justAdded := True\<rparr>) (s\<lparr>mlTree := bt_remove c (mlTree s)\<rparr>);
           Some (s\<lparr>mlTree := bt_rebalance (bt_insert (cmp_of KeyCompareInt) (box_key s) c (mlTree s))\<rparr>)
         }
     } else Some s
   }"

text \<open>\<open>insertid\<close>: the number the database gives to a new row; \<open>None\<close>: the callback is not called.\<close>

definition db_update_mailbox :: "int option \<Rightarrow> addr \<Rightarrow> mail \<Rightarrow> mail option" where
  "db_update_mailbox insertid a s = do {
     b \<leftarrow> mlBox s a;
     if mb_mailboxId b = -1 then do {
       let s = ml_ui [PeQuery (6, Some (box_binds b), True)] s in do {
       s \<leftarrow> (case insertid of None \<Rightarrow> Some s | Some i \<Rightarrow> result_insert_mailbox a i s);
       Some (ml_ui [PeCancel] s) }
     } else Some (ml_ui [PeQuery (4, Some (box_binds b @ [bind_long (mb_mailboxId b)]), False)] s)
   }"

definition mailboxSaveFunc :: "int option \<Rightarrow> addr \<Rightarrow> int \<Rightarrow> string \<Rightarrow> mail \<Rightarrow> mail option" where
  "mailboxSaveFunc insertid a index text s =
     (if index = -1 then map_option mailboxSighup (db_update_mailbox insertid a s)
      else upd_box a (\<lambda>b. b\<lparr>mb_modified := True\<rparr>) (ml_ui [PeFormSave a index text] s))"

definition cursesMailboxRevert :: "addr \<Rightarrow> mail \<Rightarrow> mail" where
  "cursesMailboxRevert a s = ml_ui [PeForm ''revert'' a] s"

definition cursesMailboxDisplay :: "addr \<Rightarrow> mail \<Rightarrow> mail" where
  "cursesMailboxDisplay a s = ml_ui [PeForm ''display'' a] s"

definition cursesMailboxNew :: "addr \<Rightarrow> mail \<Rightarrow> mail" where
  "cursesMailboxNew a s =
     (let s = s\<lparr>mlBox := (mlBox s)(a \<mapsto> new_mailbox\<lparr>mb_mailboxId := -1\<rparr>)\<rparr> in
      cursesMailboxDisplay a (ml_ui [PeCleanupFunc]
        (s\<lparr>mlTree := bt_rebalance (bt_insert (cmp_of KeyCompareInt) (box_key s) a (mlTree s))\<rparr>)))"

definition cursesMailboxCleanup :: "mail \<Rightarrow> mail option" where
  "cursesMailboxCleanup s = do {
     item \<leftarrow> find_box (-1) s;
     Some (case item of
             None \<Rightarrow> s
           | Some a \<Rightarrow> s\<lparr>mlTree := bt_rebalance (bt_remove a (mlTree s)), mlBox := (mlBox s)(a := None)\<rparr>)
   }"

section \<open>The form of a report\<close>

text \<open>A report is the new one (\<open>None\<close>) or one of a mailbox, by its place in the list.\<close>

type_synonym report_at = "(addr \<times> nat) option"

definition get_report :: "report_at \<Rightarrow> mail \<Rightarrow> MailboxReport_t option" where
  "get_report at s = (case at of
     None \<Rightarrow> mlNew s
   | Some (a, i) \<Rightarrow> do { b \<leftarrow> mlBox s a; rs \<leftarrow> mb_reports b; if i < length rs then Some (rs ! i) else None })"

definition upd_report :: "report_at \<Rightarrow> (MailboxReport_t \<Rightarrow> MailboxReport_t) \<Rightarrow> mail \<Rightarrow> mail option" where
  "upd_report at f s = do {
     r \<leftarrow> get_report at s;
     case at of
       None \<Rightarrow> Some (s\<lparr>mlNew := Some (f r)\<rparr>)
     | Some (a, i) \<Rightarrow> upd_box a (\<lambda>b. b\<lparr>mb_reports := map_option (\<lambda>rs. rs[i := f r]) (mb_reports b)\<rparr>) s
   }"

definition report_binds :: "MailboxReport_t \<Rightarrow> MYSQL_BIND list" where
  "report_binds r =
     [bind_long (mr_mailboxId r), bind_long (mr_chanServId r), bind_text (mr_nick r), bind_text (mr_format r),
      bind_long (if mr_enabled r then 1 else 0)]"

text \<open>The new report goes to the end of the reports of its mailbox, if there is such a mailbox.\<close>

definition db_update_report :: "report_at \<Rightarrow> mail \<Rightarrow> mail option" where
  "db_update_report at s = do {
     r \<leftarrow> get_report at s;
     if at = None then do {
       let s = ml_ui [PeQuery (7, Some (report_binds r), True)] s in do {
       item \<leftarrow> find_box (mr_mailboxId r) s;
       s \<leftarrow> (case item of
               None \<Rightarrow> Some s
             | Some a \<Rightarrow> upd_box a (\<lambda>b. b\<lparr>mb_reports := map_option (\<lambda>rs. rs @ [r\<lparr>mr_justAdded := True\<rparr>]) (mb_reports b)\<rparr>)
                           (s\<lparr>mlNew := None\<rparr>));
       Some (ml_ui [PeCancel] s) }
     } else Some (ml_ui [PeQuery (5, Some (report_binds r @ [bind_long (mr_oldMailboxId r), bind_long (mr_oldChanServId r),
         bind_string (mr_oldNick r) MYSQL_TYPE_VAR_STRING]), False)] s)
   }"

definition mailboxReportSaveFunc :: "report_at \<Rightarrow> int \<Rightarrow> string \<Rightarrow> mail \<Rightarrow> mail option" where
  "mailboxReportSaveFunc at index text s = do {
     r \<leftarrow> get_report at s;
     if index = -1 then do {
       moved \<leftarrow> (if mr_mailboxId r \<noteq> mr_oldMailboxId r \<or> mr_chanServId r \<noteq> mr_oldChanServId r then Some True
                 else map_option (\<lambda>n. mr_nick r \<noteq> n) (mr_oldNick r));
       i \<leftarrow> (if mr_nick r \<noteq> [] then Some (mr_chanServId r) else FindServerWithChannel (mr_chanServId r) (mlW s));
       s \<leftarrow> upd_report at (\<lambda>r. r\<lparr>mr_channelId := (if mr_nick r \<noteq> [] then 0 else mr_chanServId r), mr_serverId := i\<rparr>)
              (if moved then ml_ui [PeCancel] s else s);
       map_option mailboxSighup (db_update_report at s)
     } else upd_report at (\<lambda>r. r\<lparr>mr_modified := True\<rparr>) (ml_ui [PeFormSave (mr_addr r) index text] s)
   }"

definition remember_report :: "MailboxReport_t \<Rightarrow> MailboxReport_t" where
  "remember_report r = r\<lparr>mr_oldMailboxId := mr_mailboxId r, mr_oldChanServId := mr_chanServId r, mr_oldNick := Some (mr_nick r)\<rparr>"

definition cursesMailboxReportRevert :: "report_at \<Rightarrow> mail \<Rightarrow> mail option" where
  "cursesMailboxReportRevert at s = do {
     r \<leftarrow> get_report at s;
     map_option (ml_ui [PeForm ''revert'' (mr_addr r)]) (upd_report at remember_report s)
   }"

definition cursesMailboxReportDisplay :: "report_at \<Rightarrow> mail \<Rightarrow> mail option" where
  "cursesMailboxReportDisplay at s = do {
     r \<leftarrow> get_report at s;
     map_option (ml_ui [PeForm ''display'' (mr_addr r)]) (upd_report at remember_report s)
   }"

definition cursesMailboxReportNew :: "addr \<Rightarrow> mail \<Rightarrow> mail option" where
  "cursesMailboxReportNew new s = cursesMailboxReportDisplay None (ml_ui [PeCleanupFunc] (s\<lparr>mlNew := Some (new_report new)\<rparr>))"

definition cursesMailboxReportCleanup :: "mail \<Rightarrow> mail" where
  "cursesMailboxReportCleanup s = s\<lparr>mlNew := None\<rparr>"

section \<open>Loading and unloading the plugin\<close>

definition mailbox_initialize :: "(addr \<times> addr) option \<Rightarrow> nat \<Rightarrow> BotCmdHelpFunc option \<Rightarrow> mail \<Rightarrow> cmd_tree \<Rightarrow> mail \<times> cmd_tree" where
  "mailbox_initialize mem f help s t =
     (ml_ui [PeMenuAdd 1 ''Mailbox'' None, PeMenuAdd 2 ''New Mailbox'' None, PeMenuAdd 2 ''New Report'' None, PeThread True] s,
      botCmd_add mem ''mailbox'' (Some (FnPlugin f)) help 0 t)"

text \<open>The streams of the mailboxes that are polled are closed, root after root.\<close>

partial_function (option) mail_close_all :: "mail \<Rightarrow> mail option" where
  "mail_close_all s =
     (case mlActive s of
        Leaf \<Rightarrow> Some s
      | Node l x r \<Rightarrow> do {
          b \<leftarrow> mlBox s (snd x);
          s \<leftarrow> mail_close (mb_stream b) s;
          s \<leftarrow> upd_box (snd x) (\<lambda>b. b\<lparr>mb_stream := None\<rparr>) s;
          mail_close_all (s\<lparr>mlActive := bt_remove x (mlActive s)\<rparr>)
        })"

declare mail_close_all.simps [code]

partial_function (option) mail_free_boxes :: "mail \<Rightarrow> mail option" where
  "mail_free_boxes s =
     (case mlTree s of
        Leaf \<Rightarrow> Some s
      | Node l a r \<Rightarrow> do {
          b \<leftarrow> mlBox s a;
          mail_free_boxes (ml_ui (PeMenuRemove 2 (mb_menuText b) # drop_reports (reports_of b))
            (s\<lparr>mlTree := bt_remove a (mlTree s), mlBox := (mlBox s)(a := None)\<rparr>))
        })"

declare mail_free_boxes.simps [code]

text \<open>The thread has ended by the time the trees are freed: it holds the shutdown mutex while it runs.\<close>

definition mailbox_shutdown :: "mail \<Rightarrow> cmd_tree \<Rightarrow> (mail \<times> cmd_tree) option" where
  "mailbox_shutdown s t = do {
     s \<leftarrow> mail_close_all (ml_ui [PeKick, PeKick] (s\<lparr>mlStop := True, mlStreams := Leaf\<rparr>));
     s \<leftarrow> mail_free_boxes s;
     Some (ml_ui [PeMenuRemove 2 (Some ''New Mailbox''), PeMenuRemove 2 (Some ''New Report''), PeMenuRemove 1 (Some ''Mailbox''), PeThread False]
       (s\<lparr>mlNew := None\<rparr>), botCmd_remove ''mailbox'' t)
   }"

end
