(* ===== verification/MailboxQueries.thy ===== *)
theory MailboxQueries
  imports MailboxCmd
begin

text \<open>
  The operations of the mailbox plugin as steps of one relation, and what the plugin queues for the
  database: every query names an entry of \<open>mailboxQueryTable\<close> and brings a value for each of its
  placeholders.
\<close>

lemma mailboxQueryTable_placeholders: "map placeholders mailboxQueryTable = [0, 2, 1, 2, 10, 8, 9, 5]"
  by code_simp

lemmas fits_mail = fits_table_nth [OF mailboxQueryTable_placeholders]

definition queries_fit :: "mail \<Rightarrow> bool" where
  "queries_fit s \<longleftrightarrow> (\<forall>q. MlUi (PeQuery q) \<in> set (mlOut s) \<longrightarrow> fits_table mailboxQueryTable q)"

named_theorems mail_fit "operations after which the queries still fit"

lemma queries_fit_emit [simp]:
  "queries_fit (ml_emit es s) \<longleftrightarrow> queries_fit s \<and> (\<forall>q. MlUi (PeQuery q) \<in> set es \<longrightarrow> fits_table mailboxQueryTable q)"
  by (auto simp: queries_fit_def ml_emit_def)

lemma queries_fit_ui [simp]:
  "queries_fit (ml_ui ps s) \<longleftrightarrow> queries_fit s \<and> (\<forall>q. PeQuery q \<in> set ps \<longrightarrow> fits_table mailboxQueryTable q)"
  by (auto simp: ml_ui_def)

lemma queries_fit_writes [simp]:
  "queries_fit (s\<lparr>mlBox := v1\<rparr>) = queries_fit s" "queries_fit (s\<lparr>mlStream := v2\<rparr>) = queries_fit s"
  "queries_fit (s\<lparr>mlTree := v3\<rparr>) = queries_fit s" "queries_fit (s\<lparr>mlActive := v4\<rparr>) = queries_fit s"
  "queries_fit (s\<lparr>mlStreams := v5\<rparr>) = queries_fit s" "queries_fit (s\<lparr>mlReload := v6\<rparr>) = queries_fit s"
  "queries_fit (s\<lparr>mlStop := v6\<rparr>) = queries_fit s" "queries_fit (s\<lparr>mlNew := v7\<rparr>) = queries_fit s"
  "queries_fit (s\<lparr>mlTick := v8\<rparr>) = queries_fit s" "queries_fit (s\<lparr>mlW := v9\<rparr>) = queries_fit s"
  by (simp_all add: queries_fit_def)

lemma queries_fit_if: "queries_fit (if P then s else u) \<longleftrightarrow> (if P then queries_fit s else queries_fit u)"
  by simp

lemma upd_box_fit [mail_fit]: "upd_box a f s = Some s' \<Longrightarrow> queries_fit s' = queries_fit s"
  by (auto simp: upd_box_def bind_eq_Some_conv)

lemma menu_effects_query [simp]: "PeQuery q \<notin> set (menu_effects a old m added)"
  by (auto simp: menu_effects_def split: option.splits if_splits)

lemma drop_reports_query [simp]: "PeQuery q \<notin> set (drop_reports rs)"
  by (auto simp: drop_reports_def)

lemma foldM_fit:
  assumes "\<And>x s s'. f x s = Some s' \<Longrightarrow> queries_fit s \<Longrightarrow> queries_fit s'" "foldM f xs s = Some s'" "queries_fit s"
  shows "queries_fit s'"
  using assms(2,3) by (induction xs arbitrary: s) (auto simp: bind_eq_Some_conv dest: assms(1))

section \<open>Loading and flushing\<close>

lemma mail_close_fit [mail_fit]: "mail_close p s = Some s' \<Longrightarrow> queries_fit s' = queries_fit s"
  by (auto simp: mail_close_def bind_eq_Some_conv split: option.splits)

lemma add_check_fit [mail_fit]: "add_check x s = Some s' \<Longrightarrow> queries_fit s' = queries_fit s"
  by (auto simp: add_check_def bind_eq_Some_conv split: if_splits dest!: mail_fit)

lemma drop_check_fit [mail_fit]: "drop_check a s = Some s' \<Longrightarrow> queries_fit s' = queries_fit s"
  by (auto simp: drop_check_def bind_eq_Some_conv split: option.splits)

lemma drop_stream_fit [mail_fit]: "drop_stream a s = Some s' \<Longrightarrow> queries_fit s' = queries_fit s"
  by (auto simp: drop_stream_def bind_eq_Some_conv split: option.splits)

lemma stop_mailbox_fit [mail_fit]: "stop_mailbox a s = Some s' \<Longrightarrow> queries_fit s' = queries_fit s"
  by (auto simp: stop_mailbox_def bind_eq_Some_conv split: option.splits dest!: mail_fit)

lemma add_stream_fit [mail_fit]: "add_stream x s = Some s' \<Longrightarrow> queries_fit s' = queries_fit s"
  by (auto simp: add_stream_def split: if_splits)

lemma start_stream_fit [mail_fit]: "start_stream env n a s = Some s' \<Longrightarrow> queries_fit s' = queries_fit s"
  by (auto simp: start_stream_def bind_eq_Some_conv split: option.splits prod.splits if_splits dest!: mail_fit)

lemma load_mailbox_data_fit [mail_fit]:
  "load_mailbox_data d new row np s = Some (a, found, old, newBox, np', s') \<Longrightarrow> queries_fit s' = queries_fit s"
  unfolding load_mailbox_data_def Let_def bind_eq_Some_conv
  by (elim exE conjE, simp only: option.inject prod.inject, elim conjE, hypsubst,
    simp only: queries_fit_if queries_fit_writes queries_fit_ui menu_effects_query if_cancel simp_thms)

lemma load_mailbox_row_fit: "load_mailbox_row env d m nps = Some nps' \<Longrightarrow> queries_fit (snd nps') = queries_fit (snd nps)"
proof -
  obtain new node snode row where m: "m = ((new, node, snode), row)" by (metis prod.exhaust)
  obtain np s where nps: "nps = (np, s)" by (cases nps)
  assume "load_mailbox_row env d m nps = Some nps'"
  then obtain a found old newBox np1 s1 where
    1: "load_mailbox_data d new row np s = Some (a, found, old, newBox, np1, s1)" and
    rest: "do { b \<leftarrow> mlBox s1 a;
      s \<leftarrow> (if found \<and> (old \<and> \<not> mb_enabled b \<or> newBox \<or> mb_modified b) then stop_mailbox a s1 else Some s1);
      let idle = (\<not> mb_enabled b \<or> old \<and> \<not> newBox \<and> \<not> mb_modified b) in do {
      s \<leftarrow> upd_box a (\<lambda>b. b\<lparr>mb_modified := False\<rparr>) s;
      s \<leftarrow> (if idle then Some s else do { s \<leftarrow> add_check (node, a) s; start_stream env snode a s });
      Some (np1, s) } } = Some nps'"
    unfolding load_mailbox_row_def m nps prod.case by (cases "load_mailbox_data d new row np s") auto
  from rest obtain b s2 s3 s4 where "mlBox s1 a = Some b" and
    2: "(if found \<and> (old \<and> \<not> mb_enabled b \<or> newBox \<or> mb_modified b) then stop_mailbox a s1 else Some s1) = Some s2" and
    3: "upd_box a (\<lambda>b. b\<lparr>mb_modified := False\<rparr>) s2 = Some s3" and
    4: "(if \<not> mb_enabled b \<or> old \<and> \<not> newBox \<and> \<not> mb_modified b then Some s3
         else do { s \<leftarrow> add_check (node, a) s3; start_stream env snode a s }) = Some s4" "(np1, s4) = nps'"
    unfolding Let_def bind_eq_Some_conv option.inject by (elim exE conjE) (rule that)
  have "queries_fit s2 = queries_fit s1" using 2 by (auto split: if_splits dest!: mail_fit)
  moreover have "queries_fit s4 = queries_fit s3" using 4 by (auto simp: bind_eq_Some_conv split: if_splits dest!: mail_fit)
  ultimately show ?thesis using load_mailbox_data_fit [OF 1] upd_box_fit [OF 3] 4(2) nps by auto
qed

lemma load_rows_fit: "foldM (load_mailbox_row env d) rows nps = Some nps' \<Longrightarrow> queries_fit (snd nps') = queries_fit (snd nps)"
  by (induction rows arbitrary: nps) (auto simp: bind_eq_Some_conv dest: load_mailbox_row_fit)

lemma db_load_mailboxes_fit [mail_fit]: "db_load_mailboxes env rows s = Some s' \<Longrightarrow> queries_fit s' = queries_fit s"
  by (auto simp: db_load_mailboxes_def result_load_mailboxes_def bind_eq_Some_conv fits_mail Let_def split: if_splits prod.splits dest!: load_rows_fit)

lemma locate_report_query: "locate_report w r = Some (r', es) \<Longrightarrow> PeQuery q \<notin> set es"
  by (auto simp: locate_report_def bind_eq_Some_conv resetMenuText_def Let_def split: if_splits)

lemma load_report_row_query:
  "load_report_row w b m (rs, es) = Some (rs', es') \<Longrightarrow> PeQuery q \<in> set es' \<longleftrightarrow> PeQuery q \<in> set es"
  by (auto simp: load_report_row_def bind_eq_Some_conv Let_def split: prod.splits if_splits dest: locate_report_query)

lemma load_report_rows_query:
  "foldM (load_report_row w b) rows (rs, es) = Some (rs', es') \<Longrightarrow> PeQuery q \<in> set es' \<longleftrightarrow> PeQuery q \<in> set es"
  by (induction rows arbitrary: rs es) (auto simp: bind_eq_Some_conv dest: load_report_row_query)

lemma result_load_reports_fit [mail_fit]: "result_load_reports rows a s = Some s' \<Longrightarrow> queries_fit s' = queries_fit s"
proof -
  assume "result_load_reports rows a s = Some s'"
  then show ?thesis
  proof (cases "rows = []")
    case False
    with \<open>result_load_reports rows a s = Some s'\<close> obtain b rs rs' es where
      1: "foldM (load_report_row (mlW s) b) rows (rs, []) = Some (rs', es)" "upd_box a (\<lambda>b. b\<lparr>mb_reports := Some rs'\<rparr>) (ml_ui es s) = Some s'"
      unfolding result_load_reports_def bind_eq_Some_conv if_not_P [OF False] by (elim exE conjE) (auto split: prod.splits)
    have "PeQuery q \<notin> set es" for q using load_report_rows_query [OF 1(1)] by simp
    with upd_box_fit [OF 1(2)] show ?thesis by simp
  qed (simp add: result_load_reports_def)
qed

lemma dbRecurseReports_fit [mail_fit]: "dbRecurseReports rows T s = Some s' \<Longrightarrow> queries_fit s' = queries_fit s"
  by (induction T arbitrary: s s') (auto simp: bind_eq_Some_conv fits_mail dest!: mail_fit)

lemma mailboxUnvisitTree_fit [mail_fit]: "mailboxUnvisitTree T s = Some s' \<Longrightarrow> queries_fit s' = queries_fit s"
  by (induction T arbitrary: s s') (auto simp: bind_eq_Some_conv dest!: mail_fit)

lemma drop_box_fit [mail_fit]: "drop_box a s = Some s' \<Longrightarrow> queries_fit s' = queries_fit s"
  by (auto simp: drop_box_def bind_eq_Some_conv split: if_splits dest!: mail_fit)

lemma mailboxFlushUnvisited_fit [mail_fit]: "mailboxFlushUnvisited T s = Some (found, s') \<Longrightarrow> queries_fit s' = queries_fit s"
  by (induction T arbitrary: s found s') (auto simp: bind_eq_Some_conv split: if_splits dest!: mail_fit)

lemma mail_flush_loop_fit [mail_fit]: "mail_flush_loop s = Some s' \<Longrightarrow> queries_fit s' = queries_fit s"
proof (erule mail_flush_loop.raw_induct [rotated])
  fix loop :: "mail \<Rightarrow> mail option" and s s'
  assume IH: "\<And>s s'. loop s = Some s' \<Longrightarrow> queries_fit s' = queries_fit s"
    and h: "(mailboxFlushUnvisited (mlTree s) s \<bind> (\<lambda>(found, s). if found then loop s else Some s)) = Some s'"
  from h obtain b s1 where w: "mailboxFlushUnvisited (mlTree s) s = Some (b, s1)" "(if b then loop s1 else Some s1) = Some s'"
    by (auto simp: bind_eq_Some_conv)
  with IH [of s1 s'] mailboxFlushUnvisited_fit [OF w(1)] show "queries_fit s' = queries_fit s" by (cases b) auto
qed

lemma mailbox_reload_fit [mail_fit]: "mailbox_reload env rows reports s = Some s' \<Longrightarrow> queries_fit s' = queries_fit s"
  unfolding mailbox_reload_def db_load_reports_def bind_eq_Some_conv by (elim exE conjE, (drule mail_fit)+, clarsimp)

section \<open>The thread\<close>

lemma ml_clock_fit [mail_fit]: "ml_clock env s = (now, s') \<Longrightarrow> queries_fit s' = queries_fit s"
  by (auto simp: ml_clock_def)

lemma mm_status_fit [mail_fit]: "mm_status st x s = Some s' \<Longrightarrow> queries_fit s' = queries_fit s"
  by (auto simp: mm_status_def bind_eq_Some_conv split: option.splits dest!: mail_fit)

lemma mm_searched_fit [mail_fit]: "mm_searched st x s = Some s' \<Longrightarrow> queries_fit s' = queries_fit s"
  by (auto simp: mm_searched_def bind_eq_Some_conv split: option.splits dest!: mail_fit)

lemma mailboxReport_fit [mail_fit]: "mailboxReport env a r s = Some s' \<Longrightarrow> queries_fit s' = queries_fit s"
  by (auto simp: mailboxReport_def bind_eq_Some_conv)

lemma report_lookup_query:
  "(if c then locate_report w r else Some (r, [])) = Some (r', es) \<Longrightarrow> PeQuery q \<notin> set es"
  by (auto split: if_splits dest: locate_report_query)

lemma run_report_fit:
  assumes "run_report env a i s = Some s'"
  shows "queries_fit s' = queries_fit s"
proof -
  from assms obtain b rs where b: "mlBox s a = Some b" "mb_reports b = Some rs"
    unfolding run_report_def bind_eq_Some_conv by (elim exE conjE) (rule that)
  define L where "L = (if (mr_server (rs ! i) = None \<or> mr_serverId (rs ! i) = -1) \<and> wLoaded (mlW s)
    then locate_report (mlW s) (rs ! i) else Some (rs ! i, []))"
  define rest where "rest r s = (if mr_server r = None \<or> \<not> mr_enabled r then Some s
     else do {
       s \<leftarrow> mailboxReport env a r s;
       let (now, s) = ml_clock env s;
       upd_box a (\<lambda>b. b\<lparr>mb_lastRead := now\<rparr>) (ml_ui [PeQuery (db_update_lastread (mb_mailboxId b) now)] s)
     })" for r s
  have "do { (r, es) \<leftarrow> L; s \<leftarrow> upd_box a (\<lambda>b. b\<lparr>mb_reports := Some (rs[i := r])\<rparr>) (ml_ui es s); rest r s } = Some s'"
    using assms b unfolding run_report_def L_def rest_def by simp
  then obtain r es s1 where 1: "L = Some (r, es)" "upd_box a (\<lambda>b. b\<lparr>mb_reports := Some (rs[i := r])\<rparr>) (ml_ui es s) = Some s1" and
    2: "rest r s1 = Some s'" by (cases L) (auto simp: bind_eq_Some_conv)
  have "PeQuery q \<notin> set es" for q by (rule report_lookup_query [OF 1(1) [unfolded L_def]])
  with upd_box_fit [OF 1(2)] have "queries_fit s1 = queries_fit s" by simp
  moreover have "queries_fit s' = queries_fit s1"
    using 2 unfolding rest_def by (auto simp: bind_eq_Some_conv fits_mail db_update_lastread_def ml_clock_def split: if_splits dest!: mailboxReport_fit upd_box_fit)
  ultimately show ?thesis by simp
qed

lemma foldM_frame: "(\<And>x s s'. f x s = Some s' \<Longrightarrow> queries_fit s' = queries_fit s) \<Longrightarrow> foldM f xs s = Some s' \<Longrightarrow> queries_fit s' = queries_fit s"
  by (induction xs arbitrary: s) (auto simp: bind_eq_Some_conv)

lemma mm_status_all: "foldM (mm_status st) xs s = Some s' \<Longrightarrow> queries_fit s' = queries_fit s"
  by (erule foldM_frame [rotated]) (rule mm_status_fit)

lemma mm_searched_all: "foldM (mm_searched st) xs s = Some s' \<Longrightarrow> queries_fit s' = queries_fit s"
  by (erule foldM_frame [rotated]) (rule mm_searched_fit)

lemma run_report_all: "foldM (run_report env a) xs s = Some s' \<Longrightarrow> queries_fit s' = queries_fit s"
  by (erule foldM_frame [rotated]) (rule run_report_fit)

lemma report_mail_fit [mail_fit]: "report_mail env a st s = Some s' \<Longrightarrow> queries_fit s' = queries_fit s"
  by (auto simp: report_mail_def bind_eq_Some_conv split: if_splits
      dest!: upd_box_fit mm_searched_all run_report_all)

lemma mark_seen_fit [mail_fit]: "mark_seen a st s = Some s' \<Longrightarrow> queries_fit s' = queries_fit s"
  by (auto simp: mark_seen_def bind_eq_Some_conv split: option.splits dest!: upd_box_fit)

lemma refresh_stream_fit [mail_fit]: "refresh_stream env a s = Some s' \<Longrightarrow> queries_fit s' = queries_fit s"
  by (auto simp: refresh_stream_def bind_eq_Some_conv split: if_splits option.splits dest!: upd_box_fit mail_close_fit)

lemma poll_mailbox_fit [mail_fit]: "poll_mailbox env a s = Some s' \<Longrightarrow> queries_fit s' = queries_fit s"
  by (auto simp: poll_mailbox_def bind_eq_Some_conv split: option.splits
      dest!: refresh_stream_fit mark_seen_fit report_mail_fit mm_status_all)


lemma poll_box_fit:
  assumes "poll_box env x s = Some (r, s')"
  shows "queries_fit s' = queries_fit s"
proof -
  obtain now s0 where c: "ml_clock env s = (now, s0)" by (cases "ml_clock env s")
  define rest where "rest b = do {
       s \<leftarrow> upd_box (snd x) (\<lambda>b. b\<lparr>mb_nextPoll := now + mb_interval b\<rparr>) (s0\<lparr>mlActive := bt_remove x (mlActive s0)\<rparr>);
       s \<leftarrow> add_check x s;
       s \<leftarrow> upd_box (snd x) (\<lambda>b. b\<lparr>mb_lastCheck := now\<rparr>) s;
       let s = ml_ui [PeQuery (db_update_lastpoll (mb_mailboxId b) now)] s in do {
       s \<leftarrow> (if mlStop s then Some s else poll_mailbox env (snd x) s);
       Some (None :: int option, s) }
     }" for b :: Mailbox_t
  have keep: "queries_fit s2 = queries_fit s0" if "rest b = Some (d, s2)" for b d s2
    using that by (auto simp: rest_def bind_eq_Some_conv fits_mail db_update_lastpoll_def Let_def split: if_splits
        dest!: upd_box_fit add_check_fit poll_mailbox_fit)
  obtain b where b: "mlBox s0 (snd x) = Some b"
    using assms unfolding poll_box_def c prod.case bind_eq_Some_conv by (elim exE conjE) (rule that)
  have run: "poll_box env x s = (if mb_nextPoll b > now + 15 then Some (Some (mb_nextPoll b - now), s0) else rest b)"
    unfolding poll_box_def c prod.case b Option.bind.bind_lunit rest_def ..
  have "queries_fit s' = queries_fit s0"
  proof (cases "mb_nextPoll b > now + 15")
    case False
    then have "rest b = Some (r, s')" using run assms by simp
    then show ?thesis by (rule keep)
  qed (use run assms in simp)
  with ml_clock_fit [OF c] show ?thesis by simp
qed

lemma mail_loop_fit: "mail_loop env item delta s = Some r \<Longrightarrow> queries_fit (snd r) = queries_fit s"
proof (erule mail_loop.raw_induct [rotated])
  fix loop :: "mail_env \<Rightarrow> (addr \<times> addr) option \<Rightarrow> int \<Rightarrow> mail \<Rightarrow> (int \<times> mail) option" and env item delta s r
  assume IH: "\<And>env item delta s r. loop env item delta s = Some r \<Longrightarrow> queries_fit (snd r) = queries_fit s"
    and h: "(case item of None \<Rightarrow> Some (delta, s)
       | Some x \<Rightarrow> if mlStop s then Some (delta, s)
           else poll_box env x s \<bind> (\<lambda>(r, s). case r of None \<Rightarrow> loop env (least_check s) delta s | Some d \<Rightarrow> Some (d, s))) = Some r"
  show "queries_fit (snd r) = queries_fit s"
  proof (cases item)
    case (Some x)
    show ?thesis
    proof (cases "mlStop s")
      case False
      with h Some obtain d s1 where w: "poll_box env x s = Some (d, s1)"
        "(case d of None \<Rightarrow> loop env (least_check s1) delta s1 | Some d \<Rightarrow> Some (d, s1)) = Some r" by (auto simp: bind_eq_Some_conv)
      with poll_box_fit [OF w(1)] show ?thesis by (cases d) (auto dest: IH)
    qed (use h Some in auto)
  qed (use h in auto)
qed

lemma mail_pass_fit: "mail_pass env s = Some (d, s') \<Longrightarrow> queries_fit s' = queries_fit s"
proof -
  assume h: "mail_pass env s = Some (d, s')"
  let ?s = "s\<lparr>mlTick := mlTick s + 1\<rparr>"
  show ?thesis
  proof (cases "least_check s")
    case (Some x)
    show ?thesis
    proof (cases "wLoaded (mlW s)")
      case True
      from h Some True obtain b where b: "mlBox s (snd x) = Some b" by (auto simp: mail_pass_def ml_clock_def bind_eq_Some_conv)
      show ?thesis
      proof (cases "mb_nextPoll b > me_now env (mlTick s) + 15")
        case False
        with h Some True b obtain r where "mail_loop env (Some x) 60 ?s = Some r" "s' = (snd r)\<lparr>mlActive := bt_rebalance (mlActive (snd r))\<rparr>"
          by (auto simp: mail_pass_def ml_clock_def bind_eq_Some_conv)
        with mail_loop_fit [of env "Some x" 60 ?s r] show ?thesis by simp
      qed (use h Some True b in \<open>auto simp: mail_pass_def ml_clock_def\<close>)
    qed (use h Some in \<open>auto simp: mail_pass_def ml_clock_def\<close>)
  qed (use h in \<open>auto simp: mail_pass_def ml_clock_def\<close>)
qed

lemma mail_round_fit [mail_fit]: "mail_round env t s = Some s' \<Longrightarrow> queries_fit s' = queries_fit s"
  by (auto simp: mail_round_def ml_clock_def Let_def bind_eq_Some_conv split: if_splits dest!: mail_pass_fit mailbox_reload_fit)

lemma mail_rounds_fit [mail_fit]: "mail_rounds env ts s = Some s' \<Longrightarrow> queries_fit s' = queries_fit s"
proof (induction env ts s rule: mail_rounds.induct)
  case (2 env t ts s)
  then show ?case by (cases "mail_round env t s") (auto split: if_splits dest: mail_round_fit)
qed simp

lemma mailbox_thread_fit [mail_fit]: "mailbox_thread env t ts s = Some s' \<Longrightarrow> queries_fit s' = queries_fit s"
  unfolding mailbox_thread_def db_load_reports_def bind_eq_Some_conv by (elim exE conjE, (drule mail_fit)+, clarsimp)


section \<open>Commands and forms\<close>

lemma mail_reply_fit [mail_fit]: "mail_reply now server channel who m s = Some s' \<Longrightarrow> queries_fit s' = queries_fit s"
  by (auto simp: mail_reply_def)

lemma mailbox_enable_fit [mail_fit]: "mailbox_enable now node i s = Some (m, s') \<Longrightarrow> queries_fit s' = queries_fit s"
  by (auto simp: mailbox_enable_def bind_eq_Some_conv split: option.splits if_splits dest!: upd_box_fit add_check_fit)

lemma mailbox_disable_fit [mail_fit]: "mailbox_disable i s = Some (m, s') \<Longrightarrow> queries_fit s' = queries_fit s"
  by (auto simp: mailbox_disable_def bind_eq_Some_conv split: option.splits if_splits dest!: upd_box_fit drop_check_fit)

lemma botCmdMailbox_fit [mail_fit]:
  "botCmdMailbox now date auth node server channel who msg s = Some s' \<Longrightarrow> queries_fit s' = queries_fit s"
  by (auto simp: botCmdMailbox_def bind_eq_Some_conv split: option.splits if_splits prod.splits
      dest!: mail_reply_fit mailbox_enable_fit mailbox_disable_fit)

lemma mailboxRecurseDisable_fit: "mailboxRecurseDisable P clear T s = Some (c, s') \<Longrightarrow> queries_fit s' = queries_fit s"
  by (induction T arbitrary: s c s') (auto simp: bind_eq_Some_conv dest!: upd_box_fit)

lemma mailboxDisable_fit [mail_fit]:
  "mailboxDisableServer sv s = Some s' \<Longrightarrow> queries_fit s' = queries_fit s"
  "mailboxDisableChannel ch s = Some s' \<Longrightarrow> queries_fit s' = queries_fit s"
  by (auto simp: mailboxDisableServer_def mailboxDisableChannel_def mailboxRecurseDisableServer_def mailboxRecurseDisableChannel_def
      bind_eq_Some_conv split: if_splits dest!: mailboxRecurseDisable_fit)

lemma mailboxSighup_fit [simp]: "queries_fit (mailboxSighup s) = queries_fit s"
  by (simp add: mailboxSighup_def)

lemma result_insert_mailbox_fit: "result_insert_mailbox a i s = Some s' \<Longrightarrow> queries_fit s' = queries_fit s"
  by (auto simp: result_insert_mailbox_def bind_eq_Some_conv split: if_splits option.splits dest!: upd_box_fit)

lemma well_bound_simps [simp]: "well_bound (bind_long i)" "well_bound (bind_text t)" "well_bound (bind_string v MYSQL_TYPE_VAR_STRING)"
  by (auto simp: well_bound_def bind_numeric_def bind_string_def db_render_def split: option.splits)

lemma db_update_mailbox_fit: "db_update_mailbox ins a s = Some s' \<Longrightarrow> queries_fit s' = queries_fit s"
  by (auto simp: db_update_mailbox_def bind_eq_Some_conv Let_def fits_mail box_binds_def split: if_splits option.splits
      dest!: result_insert_mailbox_fit)

lemma mailboxSaveFunc_fit [mail_fit]: "mailboxSaveFunc ins a i t s = Some s' \<Longrightarrow> queries_fit s' = queries_fit s"
  by (auto simp: mailboxSaveFunc_def split: if_splits dest!: db_update_mailbox_fit upd_box_fit)

lemma upd_report_fit: "upd_report at f s = Some s' \<Longrightarrow> queries_fit s' = queries_fit s"
  by (auto simp: upd_report_def bind_eq_Some_conv split: option.splits prod.splits dest!: upd_box_fit)

lemma db_update_report_fit: "db_update_report at s = Some s' \<Longrightarrow> queries_fit s' = queries_fit s"
  by (auto simp: db_update_report_def bind_eq_Some_conv Let_def fits_mail report_binds_def split: if_splits option.splits
      dest!: upd_box_fit)

lemma mailboxReportSaveFunc_fit [mail_fit]: "mailboxReportSaveFunc at i t s = Some s' \<Longrightarrow> queries_fit s' = queries_fit s"
  by (auto simp: mailboxReportSaveFunc_def bind_eq_Some_conv split: if_splits dest!: db_update_report_fit upd_report_fit)

lemma report_forms_fit [mail_fit]:
  "cursesMailboxReportRevert at s = Some s' \<Longrightarrow> queries_fit s' = queries_fit s"
  "cursesMailboxReportDisplay at s = Some s' \<Longrightarrow> queries_fit s' = queries_fit s"
  by (auto simp: cursesMailboxReportRevert_def cursesMailboxReportDisplay_def bind_eq_Some_conv dest!: upd_report_fit)

section \<open>The plugin\<close>

text \<open>One operation of the plugin: a round of its thread, a command, a server or channel that goes away, a form.\<close>

inductive mail_step :: "mail_env \<Rightarrow> mail \<Rightarrow> mail \<Rightarrow> bool" for env where
  ms_thread: "mailbox_thread env t ts s = Some s' \<Longrightarrow> mail_step env s s'"
| ms_round: "mail_round env t s = Some s' \<Longrightarrow> mail_step env s s'"
| ms_sighup: "mail_step env s (mailboxSighup s)"
| ms_command: "botCmdMailbox now date auth node server channel who msg s = Some s' \<Longrightarrow> mail_step env s s'"
| ms_server: "mailboxDisableServer sv s = Some s' \<Longrightarrow> mail_step env s s'"
| ms_channel: "mailboxDisableChannel ch s = Some s' \<Longrightarrow> mail_step env s s'"
| ms_save: "mailboxSaveFunc ins a i t s = Some s' \<Longrightarrow> mail_step env s s'"
| ms_form: "mail_step env s (cursesMailboxRevert a s)"
| ms_display: "mail_step env s (cursesMailboxDisplay a s)"
| ms_new: "mail_step env s (cursesMailboxNew a s)"
| ms_cleanup: "cursesMailboxCleanup s = Some s' \<Longrightarrow> mail_step env s s'"
| ms_report_save: "mailboxReportSaveFunc at i t s = Some s' \<Longrightarrow> mail_step env s s'"
| ms_report_revert: "cursesMailboxReportRevert at s = Some s' \<Longrightarrow> mail_step env s s'"
| ms_report_display: "cursesMailboxReportDisplay at s = Some s' \<Longrightarrow> mail_step env s s'"
| ms_report_new: "cursesMailboxReportNew new s = Some s' \<Longrightarrow> mail_step env s s'"
| ms_report_cleanup: "mail_step env s (cursesMailboxReportCleanup s)"

lemma mail_step_fit: "mail_step env s s' \<Longrightarrow> queries_fit s' = queries_fit s"
proof (induction rule: mail_step.induct)
  case (ms_new s a)
  show ?case by (simp add: cursesMailboxNew_def Let_def cursesMailboxDisplay_def)
next
  case (ms_report_new new s s')
  then show ?case using report_forms_fit(2) by (fastforce simp: cursesMailboxReportNew_def)
next
  case (ms_cleanup s s')
  then show ?case by (auto simp: cursesMailboxCleanup_def bind_eq_Some_conv split: option.splits)
qed (auto simp: cursesMailboxRevert_def cursesMailboxDisplay_def cursesMailboxReportCleanup_def dest: mail_fit)

text \<open>Claim C40. Whatever the thread, the commands and the forms of the mailbox plugin do, every
  query they queue names an entry of its table and brings a well-typed value for each
  placeholder.\<close>

theorem mailbox_queries_fit:
  assumes "(mail_step env)\<^sup>*\<^sup>* s s'" "mlOut s = []" "MlUi (PeQuery q) \<in> set (mlOut s')"
  shows "fits_table mailboxQueryTable q"
proof -
  have "queries_fit s" using assms(2) by (simp add: queries_fit_def)
  with assms(1) have "queries_fit s'" by (induction rule: rtranclp_induct) (simp_all add: mail_step_fit)
  with assms(3) show ?thesis unfolding queries_fit_def by blast
qed

lemma mailbox_queries_fit_witness:
  "fits_table mailboxQueryTable (4, Some (box_binds (mail_box 1 None) @ [bind_long 1]), False)"
proof (rule mailbox_queries_fit [where env = mail_example_env and s = "mail_example None"])
  let ?s = "mailboxSighup (ml_ui [PeQuery (4, Some (box_binds (mail_box 1 None) @ [bind_long 1]), False)] (mail_example None))"
  have "mailboxSaveFunc None 1 (-1) [] (mail_example None) = Some ?s"
    by (simp add: mailboxSaveFunc_def db_update_mailbox_def mail_example_def mail_box_def new_mailbox_def)
  then show "(mail_step mail_example_env)\<^sup>*\<^sup>* (mail_example None) ?s" by (blast intro: ms_save)
  show "mlOut (mail_example None) = []" by (simp add: mail_example_def)
  show "MlUi (PeQuery (4, Some (box_binds (mail_box 1 None) @ [bind_long 1]), False)) \<in> set (mlOut ?s)"
    by (simp add: mailboxSighup_def ml_ui_def ml_emit_def)
qed

end
