(* ===== verification/Dns.thy ===== *)
theory Dns
  imports Bot PluginUi BotCmds RingQueue "HOL-Library.Word"
begin

text \<open>
  \<open>bot/src/plugins/dns.c\<close>: the command \<open>dig\<close>, its queue and thread, reverse names, and the reading of
  the answer packet. The resolver library is a parameter: the answer to a query, the length of an encoded
  name and its text. \<open>None\<close> is a read or write outside a buffer or through \<open>NULL\<close>.
\<close>

section \<open>Record types\<close>

record DNSType_t =
  dt_name :: string
  dt_type :: int

definition dnsTypes :: "DNSType_t list" where
  "dnsTypes = [\<lparr>dt_name = ''A'', dt_type = 1\<rparr>, \<lparr>dt_name = ''NS'', dt_type = 2\<rparr>, \<lparr>dt_name = ''CNAME'', dt_type = 5\<rparr>,
     \<lparr>dt_name = ''SOA'', dt_type = 6\<rparr>, \<lparr>dt_name = ''PTR'', dt_type = 12\<rparr>, \<lparr>dt_name = ''MX'', dt_type = 15\<rparr>,
     \<lparr>dt_name = ''TXT'', dt_type = 16\<rparr>, \<lparr>dt_name = ''AAAA'', dt_type = 28\<rparr>]"

definition dns_name_key :: "DNSType_t \<Rightarrow> BTreeKey" where
  "dns_name_key t = KString (dt_name t)"

definition dns_num_key :: "DNSType_t \<Rightarrow> BTreeKey" where
  "dns_num_key t = id_key (dt_type t)"

text \<open>The two trees as \<open>plugin_initialize\<close> fills them.\<close>

definition dnsTypeTree :: "DNSType_t tree" where
  "dnsTypeTree = bt_rebalance (fold (bt_insert str_cmp dns_name_key) dnsTypes Leaf)"

definition dnsTypeNumTree :: "DNSType_t tree" where
  "dnsTypeNumTree = bt_rebalance (fold (bt_insert (cmp_of KeyCompareInt) dns_num_key) dnsTypes Leaf)"

section \<open>The words of the command\<close>

record dig =
  dg_server :: "string option"
  dg_type :: string
  dg_host :: "string option"

definition first_is :: "char \<Rightarrow> string \<Rightarrow> bool" where
  "first_is c s \<longleftrightarrow> (case s of [] \<Rightarrow> False | x # _ \<Rightarrow> x = c)"

text \<open>The last word: as a host it takes the server back.\<close>

definition dig_last :: "string \<Rightarrow> dig \<Rightarrow> dig" where
  "dig_last w d =
     (if first_is (CHR ''@'') w then d\<lparr>dg_server := Some (tl w)\<rparr>
      else if dg_host d = None then d\<lparr>dg_server := None, dg_host := Some w\<rparr>
      else d\<lparr>dg_type := w\<rparr>)"

definition dig_word :: "string \<Rightarrow> dig \<Rightarrow> dig" where
  "dig_word w d =
     (if first_is (CHR ''@'') w then d\<lparr>dg_server := Some (tl w)\<rparr>
      else if strcasecmp w ''-x'' = 0 then d\<lparr>dg_type := w\<rparr>
      else if dg_host d = None then d\<lparr>dg_host := Some w\<rparr>
      else d\<lparr>dg_type := w\<rparr>)"

lemma strip_length: "length (strip_spaces s) \<le> length s" "length (strip_trailing s) \<le> length s"
  using length_dropWhile_le [of _ s] length_dropWhile_le [of _ "rev s"] by (simp_all add: strip_spaces_def strip_trailing_def)

lemma CommandLineParse_shorter: "CommandLineParse (Some m) = (w, Some l) \<Longrightarrow> length l < length m"
proof -
  assume "CommandLineParse (Some m) = (w, Some l)"
  then obtain n where n: "strchr (CHR '' '') m = Some n" "l = strip_trailing (strip_spaces (drop (n + 1) m))"
    by (auto simp: CommandLineParse_def split: option.splits if_splits)
  have "length l \<le> length (drop (n + 1) m)" unfolding n(2) using strip_length by (meson order_trans)
  moreover have "n < length m" using strchr_Some [OF n(1)] by simp
  ultimately show ?thesis by simp
qed

function dig_parse :: "string \<Rightarrow> dig \<Rightarrow> dig" where
  "dig_parse command d =
     (case CommandLineParse (Some command) of
        (w, None) \<Rightarrow> dig_last (the w) d
      | (w, Some line) \<Rightarrow> dig_parse line (dig_word (the w) d))"
  by auto
termination
  by (relation "measure (\<lambda>(c, d). length c)") (auto dest: CommandLineParse_shorter [OF sym])

declare dig_parse.simps [simp del]

section \<open>Reverse names\<close>

text \<open>\<open>%u\<close> of \<open>sscanf\<close> with 64-bit longs: blanks, a sign, digits; the value modulo \<open>2 ^ 32\<close>.\<close>

definition scan_u :: "string \<Rightarrow> (nat \<times> string) option" where
  "scan_u s =
     (let s = dropWhile isspace s;
          neg = first_is (CHR ''-'') s;
          ds = (if neg \<or> first_is (CHR ''+'') s then tl s else s);
          v = dec_value 0 (takeWhile isdigit ds);
          u = (if v \<ge> 2 ^ 64 then 2 ^ 64 - 1 else if neg then (2 ^ 64 - v) mod 2 ^ 64 else v) in
      if takeWhile isdigit ds = [] then None else Some (u mod 2 ^ 32, dropWhile isdigit ds))"

fun scan_quad :: "nat \<Rightarrow> string \<Rightarrow> nat list" where
  "scan_quad 0 s = []"
| "scan_quad (Suc k) s =
     (case scan_u s of
        None \<Rightarrow> []
      | Some (v, r) \<Rightarrow> v # (case r of [] \<Rightarrow> [] | c # r' \<Rightarrow> if c = CHR ''.'' then scan_quad k r' else []))"

definition ARPA_ROOT :: string where
  "ARPA_ROOT = ''in-addr.arpa''"

text \<open>The name is printed into a buffer of \<open>4 * 4 + sizeof(ARPA_ROOT) + 2\<close> bytes.\<close>

definition in_addr_arpa :: "string \<Rightarrow> string option option" where
  "in_addr_arpa dottedquad =
     (let a = scan_quad 4 dottedquad;
          name = concat (map (\<lambda>n. nat_digits (n mod 256) @ ''.'') (rev a)) @ ARPA_ROOT @ ''.'' in
      if a = [] then Some None
      else if length name \<ge> 4 * 4 + (length ARPA_ROOT + 1) + 2 then None
      else if \<exists>n \<in> set a. n > 255 then Some None
      else Some (Some name))"

section \<open>Reading the answer\<close>

type_synonym packet = "8 word list"

record resolver =
  rv_query :: "string option \<Rightarrow> string \<Rightarrow> int \<Rightarrow> packet \<times> int"
  rv_skipname :: "packet \<Rightarrow> nat \<Rightarrow> nat \<Rightarrow> int"
  rv_expand :: "packet \<Rightarrow> nat \<Rightarrow> nat \<Rightarrow> int \<times> string"

definition rd8 :: "packet \<Rightarrow> nat \<Rightarrow> nat option" where
  "rd8 buf i = (if i < length buf then Some (unat (buf ! i)) else None)"

definition get16 :: "packet \<Rightarrow> nat \<Rightarrow> nat option" where
  "get16 buf i = do { h \<leftarrow> rd8 buf i; l \<leftarrow> rd8 buf (i + 1); Some (h * 256 + l) }"

definition get32 :: "packet \<Rightarrow> nat \<Rightarrow> nat option" where
  "get32 buf i = do { h \<leftarrow> get16 buf i; l \<leftarrow> get16 buf (i + 2); Some (h * 65536 + l) }"

definition skipName :: "resolver \<Rightarrow> packet \<Rightarrow> nat \<Rightarrow> nat \<Rightarrow> nat" where
  "skipName rv buf cp endOfMsg = nat (rv_skipname rv buf cp endOfMsg)"

text \<open>How far the data are from \<open>cp\<close>, the type and the length of the data; class and time to live are not used.\<close>

definition skipToData :: "resolver \<Rightarrow> packet \<Rightarrow> nat \<Rightarrow> nat \<Rightarrow> (nat \<times> nat \<times> nat) option" where
  "skipToData rv buf cp endOfMsg = do {
     let n = skipName rv buf cp endOfMsg in do {
     type \<leftarrow> get16 buf (cp + n);
     _ \<leftarrow> get16 buf (cp + n + 2);
     _ \<leftarrow> get32 buf (cp + n + 4);
     dlen \<leftarrow> get16 buf (cp + n + 8);
     Some (n + 10, type, dlen) }
   }"

text \<open>\<open>strcat\<close> into the result, 512 bytes.\<close>

definition rr_cat :: "string \<Rightarrow> string \<Rightarrow> string option" where
  "rr_cat result t = (if length result + length t < 512 then Some (result @ t) else None)"

definition inet_ntoa :: "nat \<Rightarrow> nat \<Rightarrow> nat \<Rightarrow> nat \<Rightarrow> string" where
  "inet_ntoa a b c d = nat_digits a @ ''.'' @ nat_digits b @ ''.'' @ nat_digits c @ ''.'' @ nat_digits d"

text \<open>\<open>strncat\<close> of some bytes of the packet, up to a zero.\<close>

fun rd_text :: "packet \<Rightarrow> nat \<Rightarrow> nat \<Rightarrow> string option" where
  "rd_text buf cp 0 = Some []"
| "rd_text buf cp (Suc n) = do {
     c \<leftarrow> rd8 buf cp;
     if c = 0 then Some [] else do { t \<leftarrow> rd_text buf (cp + 1) n; Some (char_of c # t) }
   }"

text \<open>\<open>%X\<close>\<close>

definition hex_digit :: "nat \<Rightarrow> char" where
  "hex_digit n = char_of (if n < 10 then 48 + n else 55 + n)"

fun fmt_X :: "nat \<Rightarrow> string" where
  "fmt_X n = (if n < 16 then [hex_digit n] else fmt_X (n div 16) @ [hex_digit (n mod 16)])"

declare fmt_X.simps [simp del]

text \<open>The groups of an address of 16 bytes at \<open>cp + i\<close>.\<close>

fun aaaa_loop :: "packet \<Rightarrow> nat \<Rightarrow> nat \<Rightarrow> nat list \<Rightarrow> bool \<Rightarrow> string \<Rightarrow> string option" where
  "aaaa_loop buf cp dlen [] wasZero result = Some result"
| "aaaa_loop buf cp dlen (i # is) wasZero result = do {
     tempNum \<leftarrow> get16 buf (cp + i);
     if i \<noteq> 0 \<and> \<not> wasZero \<and> tempNum = 0 then do {
       result \<leftarrow> rr_cat result ''::'';
       aaaa_loop buf cp dlen is True result
     }
     else if i \<noteq> 0 \<and> wasZero \<and> tempNum = 0 \<and> int i \<noteq> int dlen - 2 then aaaa_loop buf cp dlen is wasZero result
     else do {
       result \<leftarrow> (if i \<noteq> 0 \<and> \<not> wasZero then rr_cat result '':'' else Some result);
       result \<leftarrow> rr_cat result (fmt_X tempNum);
       aaaa_loop buf cp dlen is wasZero result
     }
   }"

text \<open>\<open>%d\<close> of the 32 bits of a number.\<close>

definition fmt_d32 :: "nat \<Rightarrow> string" where
  "fmt_d32 n = fmt_d (sint (word_of_nat n :: 32 word))"

fun soa_numbers :: "packet \<Rightarrow> nat \<Rightarrow> nat \<Rightarrow> string \<Rightarrow> string option" where
  "soa_numbers buf cp 0 result = Some result"
| "soa_numbers buf cp (Suc n) result = do {
     ttl \<leftarrow> get32 buf cp;
     result \<leftarrow> rr_cat result (fmt_d32 ttl @ '' '');
     soa_numbers buf (cp + 4) n result
   }"

text \<open>
  The text of a record: \<open>None\<close> a fault, \<open>Some None\<close> when the routine gives up. \<open>count\<close> is the number of
  records left, which reading an \<open>SOA\<close> record overwrites with the length of a name.
\<close>

definition rr_text :: "resolver \<Rightarrow> packet \<Rightarrow> nat \<Rightarrow> nat \<Rightarrow> nat \<Rightarrow> int \<Rightarrow> int \<Rightarrow> string \<Rightarrow> (string \<times> int) option option" where
  "rr_text rv buf endOfMsg cp dlen type count result =
     (if type = 2 \<or> type = 5 \<or> type = 12 then
        (case rv_expand rv buf endOfMsg cp of (n, temp) \<Rightarrow>
           if n < 0 then Some None
           else do { r \<leftarrow> rr_cat result temp; r \<leftarrow> rr_cat r '' ''; Some (Some (r, count)) })
      else if type = 1 then do {
        a \<leftarrow> rd8 buf cp;
        b \<leftarrow> rd8 buf (cp + 1);
        c \<leftarrow> rd8 buf (cp + 2);
        d \<leftarrow> rd8 buf (cp + 3);
        r \<leftarrow> rr_cat result (inet_ntoa a b c d);
        r \<leftarrow> rr_cat r '' '';
        Some (Some (r, count)) }
      else if type = 15 then do {
        pref \<leftarrow> get16 buf cp;
        case rv_expand rv buf endOfMsg (cp + 2) of (n, temp) \<Rightarrow>
          if n < 0 then Some None
          else let message = ''('' @ fmt_d (int pref) @ '') '' @ temp @ '' '' in
            if length message \<ge> 256 then None
            else do { r \<leftarrow> rr_cat result message; Some (Some (r, count)) } }
      else if type = 16 then do {
        t \<leftarrow> rd_text buf cp dlen;
        r \<leftarrow> rr_cat result t;
        r \<leftarrow> rr_cat r '' '';
        Some (Some (r, count)) }
      else if type = 6 then
        (case rv_expand rv buf endOfMsg cp of (n, temp) \<Rightarrow>
           if n < 0 then Some None
           else do {
             r \<leftarrow> rr_cat result temp;
             r \<leftarrow> rr_cat r ''. '';
             case rv_expand rv buf endOfMsg (cp + nat n) of (m, temp) \<Rightarrow>
               if m < 0 then Some None
               else do {
                 r \<leftarrow> rr_cat r temp;
                 r \<leftarrow> rr_cat r ''. '';
                 r \<leftarrow> soa_numbers buf (cp + nat n + nat m) 5 r;
                 Some (Some (r, m)) } })
      else if type = 28 then do {
        r \<leftarrow> aaaa_loop buf cp dlen (map (\<lambda>i. 2 * i) [0..<(dlen + 1) div 2]) False result;
        r \<leftarrow> rr_cat r '' '';
        Some (Some (r, count)) }
      else Some None)"

lemma skipToData_pos: "skipToData rv buf cp e = Some (n, t, l) \<Longrightarrow> 10 \<le> n"
  by (auto simp: skipToData_def Let_def bind_eq_Some_conv)

function rr_loop :: "resolver \<Rightarrow> packet \<Rightarrow> nat \<Rightarrow> int \<Rightarrow> int \<Rightarrow> nat \<Rightarrow> bool \<Rightarrow> string \<Rightarrow> (bool \<times> string) option option" where
  "rr_loop rv buf endOfMsg requested_type count cp found result =
     (if count - 1 \<ge> 0 \<and> cp < endOfMsg then
        (case skipToData rv buf cp endOfMsg of
           None \<Rightarrow> None
         | Some (n, type, dlen) \<Rightarrow>
             if int type = requested_type then
               (case rr_text rv buf endOfMsg (cp + n) dlen requested_type (count - 1) result of
                  None \<Rightarrow> None
                | Some None \<Rightarrow> Some None
                | Some (Some (r, c)) \<Rightarrow> rr_loop rv buf endOfMsg requested_type c (cp + n + dlen) True r)
             else rr_loop rv buf endOfMsg requested_type (count - 1) (cp + n + dlen) found result)
      else Some (Some (found, result)))"
  by auto
termination
  by (relation "measure (\<lambda>(rv, buf, endOfMsg, requested_type, count, cp, found, result). endOfMsg - cp)")
    (auto dest!: skipToData_pos)

declare rr_loop.simps [simp del]

text \<open>The header has 12 bytes, with the numbers of answers and name servers at 6 and 8.\<close>

definition findRR :: "resolver \<Rightarrow> string option \<Rightarrow> string \<Rightarrow> int \<Rightarrow> string option option" where
  "findRR rv dnsserver domain requested_type =
     (case bt_find (cmp_of KeyCompareInt) dns_num_key (id_key requested_type) dnsTypeNumTree of
        None \<Rightarrow> Some None
      | Some dnsType \<Rightarrow> do {
          result \<leftarrow> rr_cat [] (domain @ '' '' @ dt_name dnsType @ '': '');
          case rv_query rv dnsserver domain requested_type of (buf, responseLen) \<Rightarrow>
            if responseLen < 0 then Some None
            else do {
              let endOfMsg = nat responseLen; cp = 12 + skipName rv buf 12 endOfMsg + 4 in do {
              ancount \<leftarrow> get16 buf 6;
              nscount \<leftarrow> get16 buf 8;
              r \<leftarrow> rr_loop rv buf endOfMsg requested_type (int ancount + int nscount) cp False result;
              Some (case r of None \<Rightarrow> None | Some (found, t) \<Rightarrow> if found then Some t else None) } } })"

section \<open>The thread\<close>

record DNSItem_t =
  di_server :: addr
  di_channel :: ptr
  di_nick :: string
  di_command :: string

definition dns_query :: "resolver \<Rightarrow> string option \<Rightarrow> string option \<Rightarrow> string \<Rightarrow> string option" where
  "dns_query rv server host type = do {
     h \<leftarrow> host;
     case bt_find str_cmp dns_name_key (KString type) dnsTypeTree of
       None \<Rightarrow> Some (h @ '' '' @ type @ '': Unknown RR Type'')
     | Some t \<Rightarrow> do {
         r \<leftarrow> findRR rv server h (dt_type t);
         Some (case r of None \<Rightarrow> h @ '' '' @ dt_name t @ '': No results'' | Some s \<Rightarrow> s)
       }
   }"

definition dns_response :: "resolver \<Rightarrow> string \<Rightarrow> string option" where
  "dns_response rv command =
     (let d = dig_parse command \<lparr>dg_server = None, dg_type = ''A'', dg_host = None\<rparr> in
      if strcasecmp (dg_type d) ''-x'' = 0 then do {
        h \<leftarrow> dg_host d;
        r \<leftarrow> in_addr_arpa h;
        case r of None \<Rightarrow> Some (h @ '': Invalid Reverse'') | Some a \<Rightarrow> dns_query rv (dg_server d) (Some a) ''PTR''
      } else dns_query rv (dg_server d) (dg_host d) (dg_type d))"

definition dns_item :: "resolver \<Rightarrow> int \<Rightarrow> DNSItem_t \<Rightarrow> world \<Rightarrow> world option" where
  "dns_item rv now q w = do {
     response \<leftarrow> dns_response rv (di_command q);
     case di_channel q of
       Some c \<Rightarrow> LoggedChannelMessage now (di_server q) c response w
     | None \<Rightarrow> tx_msg (di_server q) TX_PRIVMSG (Some (di_nick q)) (Some response) w
   }"

text \<open>A pass of the thread with a request in the queue; the queue holds 256.\<close>

definition dns_thread :: "resolver \<Rightarrow> int \<Rightarrow> DNSItem_t QueueObject_t \<Rightarrow> world \<Rightarrow> (DNSItem_t QueueObject_t \<times> world) option" where
  "dns_thread rv now q w = do { (it, q) \<leftarrow> try_dequeue q; w \<leftarrow> dns_item rv now it w; Some (q, w) }"

text \<open>
  The nick and the words are kept as pointers into the message of the caller; here they keep their values.
  \<open>memory\<close>: whether \<open>malloc\<close> succeeds. \<open>None\<close>: the queue is full and the caller waits.
\<close>

definition botCmdDig ::
    "bool \<Rightarrow> bool \<Rightarrow> addr \<Rightarrow> ptr \<Rightarrow> string \<Rightarrow> string option \<Rightarrow> world \<Rightarrow> DNSItem_t QueueObject_t \<Rightarrow> DNSItem_t QueueObject_t option" where
  "botCmdDig memory threadAbort server channel who msg w DnsQ =
     (case msg of
        None \<Rightarrow> Some DnsQ
      | Some m \<Rightarrow>
          if memory \<and> \<not> wAbort w \<and> \<not> threadAbort
          then try_enqueue \<lparr>di_server = server, di_channel = channel, di_nick = who, di_command = m\<rparr> DnsQ
          else Some DnsQ)"

definition botHelpDig :: string where
  "botHelpDig = ''Looks up hosts in DNS.  Syntax: dig hostname type @server or dig -x ipaddress @server''"

section \<open>The plugin\<close>

record dns_plugin =
  dpQueue :: "DNSItem_t QueueObject_t option"
  dpTypes :: "DNSType_t tree"
  dpNums :: "DNSType_t tree"
  dpAbort :: bool

text \<open>The queue is made by the thread when it starts; the text of the version is that of the library.\<close>

definition dns_initialize ::
    "(addr \<times> addr) option \<Rightarrow> nat \<Rightarrow> BotCmdHelpFunc option \<Rightarrow> string \<Rightarrow> dns_plugin \<Rightarrow> cmd_tree \<Rightarrow> plug_effect list \<times> dns_plugin \<times> cmd_tree" where
  "dns_initialize mem f help version p t =
     ([PeVersion True version, PeThread True],
      p\<lparr>dpTypes := dnsTypeTree, dpNums := dnsTypeNumTree\<rparr>,
      botCmd_add mem ''dig'' (Some (FnPlugin f)) help 0 t)"

text \<open>After the thread has left its loop; the signals wake it. What is queued is freed unanswered.\<close>

definition dns_shutdown :: "dns_plugin \<Rightarrow> cmd_tree \<Rightarrow> (plug_effect list \<times> QueueSignal list \<times> dns_plugin \<times> cmd_tree) option" where
  "dns_shutdown p t = do {
     q \<leftarrow> dpQueue p;
     let sigs = (if QueueUsed (Some q) \<noteq> 0 then snd (QueueClear True q) else []) in
     Some ([PeVersion False [], PeThread False], [SIG_NOT_EMPTY, SIG_NOT_FULL] @ sigs,
       p\<lparr>dpAbort := True, dpQueue := None, dpTypes := Leaf, dpNums := Leaf\<rparr>, botCmd_remove ''dig'' t)
   }"

end
