(* ===== verification/DnsText.thy ===== *)
theory DnsText
  imports Dns DbThread
begin

text \<open>What \<open>bot/src/plugins/dns.c\<close> prints: reverse names, the addresses of an answer, and the text of IPv6 addresses.\<close>

section \<open>Reverse names\<close>

lemma digits_prefix:
  assumes "\<forall>c r'. r = c # r' \<longrightarrow> \<not> isdigit c"
  shows "takeWhile isdigit (nat_digits n @ r) = nat_digits n" "dropWhile isdigit (nat_digits n @ r) = r"
  using assms by (cases r; simp add: nat_digits_isdigit)+

lemma digits_start:
  "dropWhile isspace (nat_digits n @ r) = nat_digits n @ r"
  "c = CHR ''-'' \<or> c = CHR ''+'' \<Longrightarrow> \<not> first_is c (nat_digits n @ r)"
proof -
  obtain d ds where d: "nat_digits n = d # ds" using nat_digits_nonempty by (cases "nat_digits n") auto
  then have "isdigit d" using nat_digits_isdigit [of d n] by simp
  then have s: "\<not> isspace d \<and> d \<noteq> CHR ''-'' \<and> d \<noteq> CHR ''+''" by (auto simp: isdigit_def isspace_def)
  then show "dropWhile isspace (nat_digits n @ r) = nat_digits n @ r" by (simp add: d)
  show "c = CHR ''-'' \<or> c = CHR ''+'' \<Longrightarrow> \<not> first_is c (nat_digits n @ r)" using s by (auto simp: d first_is_def)
qed

lemma scan_u_digits:
  assumes "\<forall>c r'. r = c # r' \<longrightarrow> \<not> isdigit c" "n < 2 ^ 32"
  shows "scan_u (nat_digits n @ r) = Some (n, r)"
proof -
  have "dec_value 0 (nat_digits n) = n" using dec_value_digits [of 0 n "[]"] by simp
  then show ?thesis using assms(2)
    by (simp add: scan_u_def digits_start digits_prefix [OF assms(1)] nat_digits_nonempty)
qed

lemma scan_quad_inet:
  assumes "a < 256" "b < 256" "c < 256" "d < 256"
  shows "scan_quad 4 (inet_ntoa a b c d) = [a, b, c, d]"
proof -
  have p: "n < 256 \<Longrightarrow> scan_u (nat_digits n @ CHR ''.'' # r) = Some (n, CHR ''.'' # r)" for n r
    by (rule scan_u_digits) (auto simp: isdigit_def)
  have e: "n < 256 \<Longrightarrow> scan_u (nat_digits n) = Some (n, [])" for n
    using scan_u_digits [of "[]" n] by simp
  show ?thesis using assms by (simp add: inet_ntoa_def numeral_eq_Suc p e)
qed

lemma scan_quad_length: "length (scan_quad k s) \<le> k"
  by (induction k s rule: scan_quad.induct) (auto split: option.splits list.splits)

lemma dotted_length: "length (concat (map (\<lambda>n. nat_digits (n mod 256) @ ''.'') xs)) \<le> 4 * length xs"
proof (induction xs)
  case (Cons n xs)
  have "length (nat_digits (n mod 256)) \<le> 3"
    by (rule length_nat_digits) (auto intro: less_trans [OF mod_less_divisor])
  with Cons show ?case by simp
qed simp

lemma arpa_fits: "in_addr_arpa s \<noteq> None"
  using dotted_length [of "rev (scan_quad 4 s)"] scan_quad_length [of 4 s]
  by (simp add: in_addr_arpa_def Let_def ARPA_ROOT_def)

text \<open>Claim C38. Whatever text is asked for, the reverse name fits its buffer, and the reverse
  name of an address a.b.c.d in dotted form is d.c.b.a.in-addr.arpa, for numbers below 256.\<close>

theorem reverse_name:
  "in_addr_arpa s \<noteq> None \<and>
   (a < 256 \<longrightarrow> b < 256 \<longrightarrow> c < 256 \<longrightarrow> d < 256 \<longrightarrow>
      in_addr_arpa (inet_ntoa a b c d) = Some (Some (inet_ntoa d c b a @ ''.in-addr.arpa.'')))"
proof (intro conjI impI)
  assume l: "a < 256" "b < 256" "c < 256" "d < 256"
  show "in_addr_arpa (inet_ntoa a b c d) = Some (Some (inet_ntoa d c b a @ ''.in-addr.arpa.''))"
    using l dotted_length [of "[d, c, b, a]"]
    by (simp only: in_addr_arpa_def Let_def scan_quad_inet [OF l]) (simp add: inet_ntoa_def ARPA_ROOT_def)
qed (rule arpa_fits)

lemma reverse_name_witness:
  "in_addr_arpa (inet_ntoa 192 168 0 17) = Some (Some (inet_ntoa 17 0 168 192 @ ''.in-addr.arpa.''))"
  using reverse_name [of "[]" 192 168 0 17] by simp

section \<open>The records of an answer\<close>

text \<open>How records stand in a packet.\<close>

record dns_rr =
  rr_name :: packet
  rr_type :: nat
  rr_class :: nat
  rr_ttl :: nat
  rr_data :: packet

definition be16 :: "nat \<Rightarrow> packet" where
  "be16 n = [word_of_nat (n div 256), word_of_nat n]"

definition be32 :: "nat \<Rightarrow> packet" where
  "be32 n = be16 (n div 65536) @ be16 (n mod 65536)"

definition rr_bytes :: "dns_rr \<Rightarrow> packet" where
  "rr_bytes r = rr_name r @ be16 (rr_type r) @ be16 (rr_class r) @ be32 (rr_ttl r) @ be16 (length (rr_data r)) @ rr_data r"

definition rr_ok :: "dns_rr \<Rightarrow> bool" where
  "rr_ok r \<longleftrightarrow> rr_type r < 65536 \<and> length (rr_data r) < 65536"

text \<open>What the library promises: the length of each of these encoded names, wherever it stands.\<close>

definition skips_names :: "resolver \<Rightarrow> packet set \<Rightarrow> bool" where
  "skips_names rv names \<longleftrightarrow>
     (\<forall>pre nm post e. nm \<in> names \<longrightarrow> length pre + length nm \<le> e \<longrightarrow>
        rv_skipname rv (pre @ nm @ post) (length pre) e = int (length nm))"

named_theorems packet_simps

lemma rd8_shift [packet_simps]: "rd8 (pre @ xs) (length pre + i) = rd8 xs i" "rd8 (pre @ xs) (length pre) = rd8 xs 0"
  by (simp_all add: rd8_def nth_append)

lemma get16_shift [packet_simps]:
  "get16 (pre @ xs) (length pre + i) = get16 xs i" "get16 (pre @ xs) (length pre) = get16 xs 0"
  using rd8_shift(1) [of pre xs "Suc i"] rd8_shift(1) [of pre xs 1] by (simp_all add: get16_def rd8_shift)

lemma get32_shift [packet_simps]:
  "get32 (pre @ xs) (length pre + i) = get32 xs i" "get32 (pre @ xs) (length pre) = get32 xs 0"
  using get16_shift(1) [of pre xs "Suc (Suc i)"] get16_shift(1) [of pre xs 2]
  by (simp_all add: get32_def get16_shift numeral_2_eq_2)

lemma get16_be16: "n < 65536 \<Longrightarrow> get16 (be16 n @ xs) 0 = Some n"
  by (simp add: get16_def rd8_def be16_def unat_of_nat)

lemma get16_any: "\<exists>k. get16 (be16 n @ xs) 0 = Some k"
  by (simp add: get16_def rd8_def be16_def)

lemma get32_any: "\<exists>k. get32 (be32 n @ xs) 0 = Some k"
  by (simp add: get32_def get16_def rd8_def be32_def be16_def)

lemma length_be [simp]: "length (be16 n) = 2" "length (be32 n) = 4"
  by (simp_all add: be16_def be32_def)

lemma skipName_at:
  "skips_names rv names \<Longrightarrow> nm \<in> names \<Longrightarrow> length pre + length nm \<le> e \<Longrightarrow>
   skipName rv (pre @ nm @ post) (length pre) e = length nm"
  by (simp add: skipName_def skips_names_def)

lemma length_rr_bytes: "length (rr_bytes r) = length (rr_name r) + 10 + length (rr_data r)"
  by (simp add: rr_bytes_def)

lemma skipToData_rr:
  assumes "skips_names rv names" "rr_name r \<in> names" "rr_ok r" "length pre + length (rr_bytes r) \<le> e"
  shows "skipToData rv (pre @ rr_bytes r @ post) (length pre) e
           = Some (length (rr_name r) + 10, rr_type r, length (rr_data r))"
proof -
  let ?tail = "be16 (rr_type r) @ be16 (rr_class r) @ be32 (rr_ttl r) @ be16 (length (rr_data r)) @ rr_data r @ post"
  have buf: "pre @ rr_bytes r @ post = pre @ rr_name r @ ?tail" by (simp add: rr_bytes_def)
  have skip: "skipName rv (pre @ rr_name r @ ?tail) (length pre) e = length (rr_name r)"
    using assms by (intro skipName_at) (simp_all add: length_rr_bytes)
  have at: "get16 (pre @ rr_name r @ ?tail) (length pre + length (rr_name r) + i) = get16 ?tail i"
    "get32 (pre @ rr_name r @ ?tail) (length pre + length (rr_name r) + i) = get32 ?tail i" for i
    using get16_shift(1) [of "pre @ rr_name r" ?tail i] get32_shift(1) [of "pre @ rr_name r" ?tail i] by simp_all
  have t0: "get16 ?tail 0 = Some (rr_type r)" using assms(3) by (simp add: rr_ok_def get16_be16)
  have t2: "\<exists>k. get16 ?tail 2 = Some k"
    using get16_any get16_shift(2) [of "be16 (rr_type r)"] by (metis length_be(1))
  have t4: "\<exists>k. get32 ?tail 4 = Some k"
    using get32_any [of "rr_ttl r"] get32_shift(2) [of "be16 (rr_type r) @ be16 (rr_class r)"] by simp
  have t8: "get16 ?tail 8 = Some (length (rr_data r))"
    using get16_be16 [of "length (rr_data r)" "rr_data r @ post"] assms(3)
      get16_shift(2) [of "be16 (rr_type r) @ be16 (rr_class r) @ be32 (rr_ttl r)"] by (simp add: rr_ok_def)
  from t2 t4 obtain cl ttl where k: "get16 ?tail 2 = Some cl" "get32 ?tail 4 = Some ttl" by blast
  show ?thesis
    unfolding buf skipToData_def Let_def skip at at(1) [of 0, simplified add_0_right] t0 t8 k by simp
qed

text \<open>
  The loop over the records, for any kind of record whose text \<open>txt\<close> is put behind what there is.
\<close>

definition shows_as :: "resolver \<Rightarrow> packet \<Rightarrow> nat \<Rightarrow> nat \<Rightarrow> (dns_rr \<Rightarrow> string) \<Rightarrow> dns_rr \<Rightarrow> bool" where
  "shows_as rv buf e t txt r \<longleftrightarrow>
     (\<forall>pre post count result. buf = pre @ rr_data r @ post \<longrightarrow> length result + length (txt r) < 512 \<longrightarrow>
        rr_text rv buf e (length pre) (length (rr_data r)) (int t) count result = Some (Some (result @ txt r, count)))"

lemma shows_asD:
  "shows_as rv buf e t txt r \<Longrightarrow> buf = pre @ rr_data r @ post \<Longrightarrow> length result + length (txt r) < 512 \<Longrightarrow>
   rr_text rv buf e (length pre) (length (rr_data r)) (int t) count result = Some (Some (result @ txt r, count))"
  unfolding shows_as_def by blast

lemma rr_loop_records:
  assumes "skips_names rv names"
    "\<forall>r \<in> set rrs. rr_name r \<in> names \<and> rr_ok r \<and> (rr_type r = t \<longrightarrow> shows_as rv buf e t txt r)"
    "buf = pre @ concat (map rr_bytes rrs) @ rest" "length pre + length (concat (map rr_bytes rrs)) \<le> e"
    "length result + length (concat (map txt (filter (\<lambda>r. rr_type r = t) rrs))) < 512"
  shows "rr_loop rv buf e (int t) (int (length rrs)) (length pre) found result
           = Some (Some (found \<or> (\<exists>r \<in> set rrs. rr_type r = t),
                         result @ concat (map txt (filter (\<lambda>r. rr_type r = t) rrs))))"
  using assms(2-5)
proof (induction rrs arbitrary: pre found result)
  case Nil
  then show ?case by (simp add: rr_loop.simps)
next
  case (Cons r rrs)
  have go: "length pre < e" using Cons.prems(3) by (simp add: length_rr_bytes)
  have skip: "skipToData rv buf (length pre) e = Some (length (rr_name r) + 10, rr_type r, length (rr_data r))"
    unfolding Cons.prems(2) using skipToData_rr [OF assms(1), of r pre e] Cons.prems(1,3) by simp
  let ?pre = "pre @ rr_name r @ be16 (rr_type r) @ be16 (rr_class r) @ be32 (rr_ttl r) @ be16 (length (rr_data r))"
  have at: "length pre + (length (rr_name r) + 10) = length ?pre" by simp
  have dat: "buf = ?pre @ rr_data r @ concat (map rr_bytes rrs) @ rest"
    unfolding Cons.prems(2) by (simp add: rr_bytes_def)
  have nxt: "length ?pre + length (rr_data r) = length (pre @ rr_bytes r)" by (simp add: rr_bytes_def)
  have IH: "rr_loop rv buf e (int t) (int (length rrs)) (length (pre @ rr_bytes r)) f res
     = Some (Some (f \<or> (\<exists>r \<in> set rrs. rr_type r = t), res @ concat (map txt (filter (\<lambda>r. rr_type r = t) rrs))))"
    if "length res + length (concat (map txt (filter (\<lambda>r. rr_type r = t) rrs))) < 512" for f res
    using Cons.IH [of "pre @ rr_bytes r" res f] Cons.prems(1-3) that by simp
  obtain q where q: "q = length ?pre" by blast
  note step = at [folded q] nxt [folded q]
  show ?case
  proof (cases "rr_type r = t")
    case True
    have "rr_text rv buf e q (length (rr_data r)) (int t) (int (length rrs)) result = Some (Some (result @ txt r, int (length rrs)))"
      unfolding q by (rule shows_asD [OF _ dat]) (use True Cons.prems(1,4) in simp_all)
    with IH [of "result @ txt r" True] show ?thesis using go True Cons.prems(4)
      by (subst rr_loop.simps) (simp add: skip step)
  next
    case False
    with IH [of result found] show ?thesis using go Cons.prems(4)
      by (subst rr_loop.simps) (simp add: skip step)
  qed
qed

section \<open>The addresses of an answer\<close>

definition rr_address :: "dns_rr \<Rightarrow> string" where
  "rr_address r = (case map unat (rr_data r) of [a, b, c, d] \<Rightarrow> inet_ntoa a b c d @ '' '' | _ \<Rightarrow> [])"

lemma list_of_four: "length xs = 4 \<Longrightarrow> \<exists>a b c d. xs = [a, b, c, d]"
  by (auto simp: numeral_eq_Suc length_Suc_conv)

lemma address_shown:
  assumes "length (rr_data r) = 4"
  shows "shows_as rv buf e 1 rr_address r"
proof -
  obtain a b c d where dat: "rr_data r = [a, b, c, d]" using list_of_four [OF assms] by blast
  have rd: "rd8 (pre @ xs) (length pre + i) = rd8 xs i" "rd8 (pre @ xs) (length pre) = rd8 xs 0" for pre xs i
    by (rule rd8_shift)+
  have four: "rd8 (a # b # c # d # post) 0 = Some (unat a)" "rd8 (a # b # c # d # post) 1 = Some (unat b)"
    "rd8 (a # b # c # d # post) 2 = Some (unat c)" "rd8 (a # b # c # d # post) 3 = Some (unat d)" for post
    by (simp_all add: rd8_def)
  show ?thesis
    unfolding shows_as_def dat rr_text_def
    by (intro allI impI) (simp add: rd four rr_cat_def rr_address_def dat del: One_nat_def add_2_eq_Suc')
qed

text \<open>An answer: the header, the question, the records of the two sections and whatever follows.\<close>

definition dns_packet :: "packet \<Rightarrow> packet \<Rightarrow> packet \<Rightarrow> packet \<Rightarrow> dns_rr list \<Rightarrow> dns_rr list \<Rightarrow> packet \<Rightarrow> packet" where
  "dns_packet start arcount qname qfixed answers authority rest =
     start @ be16 (length answers) @ be16 (length authority) @ arcount @ qname @ qfixed @
     concat (map rr_bytes (answers @ authority)) @ rest"

lemma type_tree_A: "bt_find (cmp_of KeyCompareInt) dns_num_key (id_key 1) dnsTypeNumTree = Some \<lparr>dt_name = ''A'', dt_type = 1\<rparr>"
  by code_simp

text \<open>Claim C37. The answer to an address query is read whole: for every packet with answer and
  authority records in any order, the reply lists exactly the addresses of the records of type
  A, in order, and there is none if no record has that type, as long as the reply fits its 512
  bytes and the library skips the encoded names.\<close>

theorem dns_addresses_listed:
  assumes "skips_names rv names" "qname \<in> names" "length start = 6" "length arcount = 2" "length qfixed = 4"
    "length answers < 65536" "length authority < 65536"
    "\<forall>r \<in> set (answers @ authority). rr_name r \<in> names \<and> rr_ok r \<and> (rr_type r = 1 \<longrightarrow> length (rr_data r) = 4)"
    "rv_query rv server domain 1 = (dns_packet start arcount qname qfixed answers authority rest, len)"
    "length (dns_packet start arcount qname qfixed answers authority []) \<le> nat len"
    "length domain + 4 + length (concat (map rr_address (filter (\<lambda>r. rr_type r = 1) (answers @ authority)))) < 512"
  shows "findRR rv server domain 1 =
    Some (if \<exists>r \<in> set (answers @ authority). rr_type r = 1
          then Some (domain @ '' A: '' @ concat (map rr_address (filter (\<lambda>r. rr_type r = 1) (answers @ authority))))
          else None)"
proof -
  let ?rrs = "answers @ authority" and ?buf = "dns_packet start arcount qname qfixed answers authority rest"
  let ?head = "start @ be16 (length answers) @ be16 (length authority) @ arcount"
  let ?pre = "?head @ qname @ qfixed"
  have len: "0 \<le> len" using assms(5,10) by (cases "0 \<le> len") (simp_all add: dns_packet_def)
  have buf: "?buf = ?pre @ concat (map rr_bytes ?rrs) @ rest" by (simp add: dns_packet_def)
  have head: "length ?head = 12" using assms(3,4) by simp
  have "skipName rv (?head @ qname @ qfixed @ concat (map rr_bytes ?rrs) @ rest) (length ?head) (nat len) = length qname"
    by (rule skipName_at [OF assms(1,2)]) (use assms(10) in \<open>simp add: dns_packet_def\<close>)
  then have skip: "skipName rv ?buf 12 (nat len) = length qname" unfolding head by (simp add: dns_packet_def)
  have pos: "12 + length qname + 4 = length ?pre" using head assms(5) by simp
  have n6: "get16 ?buf 6 = Some (length answers)"
    using get16_shift(2) [of start] assms(3,6) by (simp add: dns_packet_def get16_be16)
  have n8: "get16 ?buf 8 = Some (length authority)"
    using get16_shift(2) [of "start @ be16 (length answers)"] assms(3,7) by (simp add: dns_packet_def get16_be16)
  have "rr_loop rv ?buf (nat len) (int 1) (int (length ?rrs)) (length ?pre) False (domain @ '' A: '')
     = Some (Some (False \<or> (\<exists>r \<in> set ?rrs. rr_type r = 1), (domain @ '' A: '') @ concat (map rr_address (filter (\<lambda>r. rr_type r = 1) ?rrs))))"
  proof (rule rr_loop_records [OF assms(1) _ buf])
    show "\<forall>r \<in> set ?rrs. rr_name r \<in> names \<and> rr_ok r \<and> (rr_type r = 1 \<longrightarrow> shows_as rv ?buf (nat len) 1 rr_address r)"
      using assms(8) address_shown by blast
  qed (use assms(10,11) in \<open>simp_all add: dns_packet_def\<close>)
  then have loop: "rr_loop rv ?buf (nat len) 1 (int (length answers) + int (length authority)) (length ?pre) False (domain @ '' A: '')
     = Some (Some (\<exists>r \<in> set ?rrs. rr_type r = 1, domain @ '' A: '' @ concat (map rr_address (filter (\<lambda>r. rr_type r = 1) ?rrs))))"
    by simp
  show ?thesis
    unfolding findRR_def type_tree_A assms(9) using loop [folded pos] len assms(11)
    by (simp add: rr_cat_def Let_def skip n6 n8)
qed

text \<open>A resolver that answers one question: names are a pointer or labels up to a zero byte.\<close>

definition demo_names :: "packet set" where
  "demo_names = {[192, 12], [3, 98, 111, 116, 0]}"

definition demo_answers :: "dns_rr list" where
  "demo_answers =
     [\<lparr>rr_name = [192, 12], rr_type = 5, rr_class = 1, rr_ttl = 3600, rr_data = [1, 120, 0]\<rparr>,
      \<lparr>rr_name = [192, 12], rr_type = 1, rr_class = 1, rr_ttl = 60, rr_data = [10, 0, 0, 1]\<rparr>,
      \<lparr>rr_name = [192, 12], rr_type = 1, rr_class = 1, rr_ttl = 60, rr_data = [10, 0, 0, 254]\<rparr>]"

definition demo_packet :: packet where
  "demo_packet = dns_packet [0, 1, 128, 0, 0, 1] [0, 0] [3, 98, 111, 116, 0] [0, 1, 0, 1] demo_answers [] [0, 0]"

definition demo_resolver :: resolver where
  "demo_resolver = \<lparr>rv_query = \<lambda>server domain t. (demo_packet, 72),
     rv_skipname = \<lambda>buf cp e. if unat (buf ! cp) \<ge> 192 then 2 else int (length (takeWhile (\<lambda>b. b \<noteq> 0) (drop cp buf))) + 1,
     rv_expand = \<lambda>buf e cp. (1, [])\<rparr>"

lemma demo_skips: "skips_names demo_resolver demo_names"
  by (auto simp: skips_names_def demo_names_def demo_resolver_def nth_append)

lemma dns_addresses_listed_witness:
  "findRR demo_resolver None ''bot'' 1 = Some (Some ''bot A: 10.0.0.1 10.0.0.254 '')"
proof -
  have shown: "concat (map rr_address (filter (\<lambda>r. rr_type r = 1) demo_answers)) = ''10.0.0.1 10.0.0.254 ''" by code_simp
  have hit: "\<exists>r \<in> set demo_answers. rr_type r = 1" by (simp add: demo_answers_def)
  have ok: "\<forall>r \<in> set demo_answers. rr_name r \<in> demo_names \<and> rr_ok r \<and> (rr_type r = 1 \<longrightarrow> length (rr_data r) = 4)"
    by (simp add: demo_answers_def demo_names_def rr_ok_def)
  have len: "length (dns_packet [0, 1, 128, 0, 0, 1] [0, 0] [3, 98, 111, 116, 0] [0, 1, 0, 1] demo_answers [] []) \<le> nat 72"
    by (simp add: dns_packet_def demo_answers_def rr_bytes_def)
  have n: "length demo_answers < 65536" by (simp add: demo_answers_def)
  show ?thesis
    using dns_addresses_listed [OF demo_skips, of "[3, 98, 111, 116, 0]" "[0, 1, 128, 0, 0, 1]" "[0, 0]" "[0, 1, 0, 1]"
        demo_answers "[]" None "''bot''" "[0, 0]" 72] shown hit ok len n
    by (simp add: demo_names_def demo_resolver_def demo_packet_def)
qed

section \<open>IPv6 addresses\<close>

lemma rr_cat_twice: "do { r \<leftarrow> rr_cat r s; r \<leftarrow> rr_cat r t; f r } = do { r \<leftarrow> rr_cat r (s @ t); f r }"
  by (simp add: rr_cat_def)

lemma fmt_X_two: "0 < x \<Longrightarrow> x < 16 \<Longrightarrow> y < 16 \<Longrightarrow> fmt_X (16 * x + y) = fmt_X x @ fmt_X y"
  by (simp add: fmt_X.simps [of "16 * x + y"] fmt_X.simps [of x] fmt_X.simps [of y])

text \<open>The last three groups when everything between the first group and them is zero.\<close>

lemma aaaa_tail:
  assumes "\<forall>i \<in> {2, 4, 6, 8, 10}. get16 buf (cp + i) = Some 0" "get16 buf cp = Some g"
    "get16 buf (cp + 12) = Some u" "get16 buf (cp + 14) = Some v"
  shows "aaaa_loop buf cp 16 (map (\<lambda>i. 2 * i) [0..<8]) False result =
     do { r \<leftarrow> rr_cat result (fmt_X g); r \<leftarrow> rr_cat r ''::''; r \<leftarrow> (if u = 0 then Some r else rr_cat r (fmt_X u)); rr_cat r (fmt_X v) }"
proof -
  have places: "map (\<lambda>i. 2 * i) [0..<8] = [0, 2, 4, 6, 8, 10, 12, 14 :: nat]" by code_simp
  have zero: "get16 buf (cp + 2) = Some 0" "get16 buf (cp + 4) = Some 0" "get16 buf (cp + 6) = Some 0"
    "get16 buf (cp + 8) = Some 0" "get16 buf (cp + 10) = Some 0"
    using assms(1) by blast+
  have done_loop: "aaaa_loop buf cp 16 [] True = Some" by (rule ext) simp
  have final: "aaaa_loop buf cp 16 [14] True = (\<lambda>r. rr_cat r (fmt_X v))"
    by (rule ext) (simp add: assms(4) done_loop)
  show ?thesis
  proof (cases "rr_cat result (fmt_X g)")
    case (Some r)
    then show ?thesis unfolding places
      by (cases "rr_cat r ''::''") (simp_all add: zero assms(2-4) done_loop final del: add_2_eq_Suc')
  qed (simp add: places assms(2))
qed

lemma ten_zeros: "replicate 10 0 = [0, 0, 0, 0, 0, 0, 0, 0, 0, 0 :: 8 word]"
  by code_simp

text \<open>Claim C39. Two IPv6 addresses whose last group is not zero and differ print alike: when the
  groups between the first and the last two are zero, x:y with one hexadecimal digit each is
  printed like the single group xy, as no colon follows the text of a group after the zeros.\<close>

theorem aaaa_text_ambiguous:
  assumes "0 < x" "x < 16" "y < 16"
  shows "rr_text rv (pre @ [h, l] @ replicate 10 0 @ [0, word_of_nat x, 0, word_of_nat y] @ post) e (length pre) 16 28 count result
       = rr_text rv (pre @ [h, l] @ replicate 10 0 @ [0, 0, 0, word_of_nat (16 * x + y)] @ post) e (length pre) 16 28 count result"
proof -
  have loop: "aaaa_loop (pre @ [h, l] @ replicate 10 0 @ [0, word_of_nat u, 0, word_of_nat v] @ post) (length pre) 16 (map (\<lambda>i. 2 * i) [0..<8]) False result =
      do { r \<leftarrow> rr_cat result (fmt_X (unat h * 256 + unat l)); r \<leftarrow> rr_cat r ''::'';
           r \<leftarrow> (if u = 0 then Some r else rr_cat r (fmt_X u)); rr_cat r (fmt_X v) }" (is "aaaa_loop (pre @ ?data) _ _ _ _ _ = _")
    if "u < 256" "v < 256" for u v
  proof (rule aaaa_tail)
    have "get16 ?data i = Some 0" if "i \<in> {2, 4, 6, 8, 10}" for i
      using that unfolding ten_zeros get16_def rd8_def by (elim insertE) simp_all
    then show "\<forall>i \<in> {2, 4, 6, 8, 10}. get16 (pre @ ?data) (length pre + i) = Some 0" by (simp only: get16_shift) blast
    show "get16 (pre @ ?data) (length pre) = Some (unat h * 256 + unat l)"
      by (simp only: get16_shift) (simp add: get16_def rd8_def)
    show "get16 (pre @ ?data) (length pre + 12) = Some u" "get16 (pre @ ?data) (length pre + 14) = Some v"
      using that by (simp_all only: get16_shift) (simp_all add: ten_zeros get16_def rd8_def unat_of_nat)
  qed
  have "16 * x + y < 256" using assms by simp
  then show ?thesis
    using loop [of x y] loop [of 0 "16 * x + y"] assms
    by (simp add: rr_text_def fmt_X_two rr_cat_twice)
qed

lemma aaaa_text_ambiguous_witness:
  "rr_text demo_resolver ([] @ [32, 1] @ replicate 10 0 @ [0, word_of_nat 1, 0, word_of_nat 2] @ []) 16 (length ([] :: packet)) 16 28 0 [] =
   rr_text demo_resolver ([] @ [32, 1] @ replicate 10 0 @ [0, 0, 0, word_of_nat (16 * 1 + 2)] @ []) 16 (length ([] :: packet)) 16 28 0 []"
  by (rule aaaa_text_ambiguous) simp_all

end
