(* ===== verification/Spec2Isabelle.thy ===== *)
theory Spec2Isabelle
  imports TreeStore RingQueue Transmit Regexp BotCmds Bot ServerLife Reload Database DbThread SchemaUpgrade
    Versions Threads Plugins Auth CorePlugins Logging DbSystem NickTable UrlPlugin Notice RssThread TracThread MailboxQueries DnsText
begin

text \<open>
  Verification of beirdobot, an IRC bot in C (\<open>src/bot\<close>): threads that share balanced trees,
  linked lists and queues, a database behind a queue of queries, servers and channels that
  are loaded from it and reloaded on SIGHUP, commands, and plugins.

  Conventions. A structure is a record and a pointer an address (\<open>nat\<close>), \<open>ptr\<close> when it may
  be \<open>NULL\<close>. Code that can fault, by a \<open>NULL\<close> or freed pointer, an overrun buffer or a lock
  taken twice, returns an option with \<open>None\<close> for the fault. Effects on the outside (lines
  to send, queries to run, threads to start, calls through function pointers) are appended to
  an output list. Machine integers whose width matters are words; the others are \<open>int\<close>. C
  strings are \<open>string\<close>; \<open>nul_free\<close> is assumed where a proof needs it. Memory that
  \<open>malloc\<close> returns is an argument of the operation.

  Shared
    \<open>Prelude\<close>: pointers, locks, monadic folds, the collections of facts.
    \<open>CString\<close>: \<open>strchr\<close>, \<open>strcasecmp\<close>, \<open>atoi\<close>, \<open>snprintf\<close> and the two string routines
      of the vendored IRC library that the bot relies on.

  Containers
    \<open>LinkedList\<close> (\<open>linked_list.c\<close>): the doubly linked list on a store, with its mutex.
    \<open>KeyCompare\<close>, \<open>BTreeHeap\<close> (\<open>balanced_btree.c\<close>): the three comparison functions and all
      operations of the tree on a store of nodes, with parent and owner pointers.
    \<open>BTreeSpec\<close>: what they do on functional trees; the locales \<open>key_order\<close>, \<open>btree\<close>
      and \<open>keyed_store\<close> state the interface and are interpreted for each key type.
    \<open>BTreeRefine\<close>, \<open>BTreeRebalance\<close>, \<open>BTreeRemove\<close>, \<open>BTreeCorrect\<close>, \<open>TreeStore\<close>: the
      operations on the store compute the functional ones and touch nothing else.
    \<open>NamedTrees\<close>: trees keyed by names without regard to case, for the registers below.
    \<open>TimeTree\<close>: trees keyed by times, with the search for a free time that the plugins share.
    \<open>Sweep\<close>: the locale \<open>sweeper\<close> of the reloads: a routine that flushes one item that is
      gone, called until there is none. \<open>Follow\<close> extends it: items that follow the rows of a table.
    \<open>RingQueue\<close> (\<open>queue.c\<close>): the ring buffer on 32-bit indices; a refinement to a FIFO list;
      step relations for one and for many producers and consumers with the condition
      variables as signals.

  Talking to servers
    \<open>Transmit\<close> (\<open>transmit.c\<close>): lines, the flood list, the wait, the loop of the thread.
    \<open>Structs\<close>, \<open>Bot\<close> (\<open>bot.c\<close>): servers and channels, lookups, the handlers of IRC events.
    \<open>ServerLife\<close>, \<open>Reload\<close> (\<open>bot.c\<close>, \<open>main.c\<close>): start, kill, shutdown, SIGHUP and the
      removal of what the database no longer has.
    \<open>Regexp\<close> (\<open>regexp.c\<close>), \<open>BotCmds\<close> (\<open>bot_cmds.c\<close>): registered expressions and commands.
    \<open>Auth\<close> (\<open>authenticate.c\<close>): one-time passwords and sessions.

  Database
    \<open>Database\<close> (\<open>mysql.c\<close>): the query table, values, quoting and the text that is sent; the
      chains of queries.
    \<open>DbSystem\<close> (\<open>mysql.c\<close>): callers, their mutexes, the queue of queries and the MySQL
      thread as a step relation. \<open>NickTable\<close>: what the chained updates do to the table of nicks.
    \<open>DbThread\<close> (\<open>mysql.c\<close>): one query with its reconnects, results for a waiting caller, the
      rebuild of the search index.
    \<open>DbLoad\<close> (\<open>mysql.c\<close>, \<open>main.c\<close>, \<open>bot.c\<close>): loading servers and channels, the reload.
    \<open>SchemaUpgrade\<close> (\<open>mysql_upgrade.c\<close>, \<open>db_schema.h\<close>): the schema and its versions, with the
      queue of queries that run later than they are asked for.

  The program around it
    \<open>Threads\<close> (\<open>thread_api.c\<close>), \<open>Versions\<close> (\<open>main.c\<close>), \<open>Plugins\<close> (\<open>plugin_api.c\<close>).
    \<open>Logging\<close> (\<open>logging.c\<close>): the list of outputs on the store of \<open>LinkedList\<close>, the
      queue of messages and its thread. \<open>Notice\<close> (\<open>notice.c\<close>, \<open>protected_data.c\<close>).
    \<open>CorePlugins\<close>: \<open>core.c\<close>, \<open>trout.c\<close>, \<open>fart.c\<close> and \<open>tracredir.c\<close>.
    \<open>UrlPlugin\<close> (\<open>url.c\<close>). \<open>RssFeed\<close>, \<open>RssReload\<close>, \<open>RssThread\<close> (\<open>rssfeed.c\<close>): feeds
      and forms; the invariant of feeds and polls and the reload; the thread.
    \<open>PluginUi\<close>: menus and effects of the next two. \<open>Trac\<close>, \<open>TracDetails\<close>, \<open>TracReload\<close>,
      \<open>TracThread\<close> (\<open>trac.c\<close>): setups and links; the table of a ticket and the command; the
      reload, with the tree as an instance of \<open>follower\<close>; the thread.
    \<open>Mailbox\<close>, \<open>MailboxReload\<close>, \<open>MailboxText\<close>, \<open>MailboxThread\<close>, \<open>MailboxCmd\<close>
      (\<open>mailbox.c\<close>): mailboxes with their three trees; reports and the reload; the text of a report;
      the thread and the callbacks of the mail library; the command and the forms. \<open>MailboxPoll\<close> and
      \<open>MailboxFollow\<close> say what a poll and a load do, \<open>MailboxQueries\<close> makes the operations steps of
      one relation.
    \<open>Dns\<close>, \<open>DnsText\<close> (\<open>dns.c\<close>): the request, the thread and the reading of an answer; reverse
      names, the addresses of an answer and the text of IPv6 addresses.

  Groups of lemmas. Containers: well-formedness is kept by every operation, lookups after
  updates, and the store outside a structure is untouched (frame). Queues: every interleaving
  keeps the FIFO order; who waits has a reason to, and where more than one producer waits he
  may have none. Loops that need not end are \<open>partial_function\<close>s; that they end is a theorem
  (\<open>regexp_parse_ends\<close>, \<open>every_query_built\<close>, \<open>shutdown_frees_everything\<close>,
  \<open>schema_upgrade_ends\<close>, \<open>plugins_follow_database\<close>, \<open>feeds_follow_database\<close>, \<open>posts_in_order\<close>). No definition takes fuel. Several
  properties state where the program goes wrong; the manifest lists them as findings.

  Bounds of the model. Most properties are stated for well-formed states and complete rows; what
  each takes for granted is in its text, and where the program does not ensure it the manifest
  has a finding. In \<open>DbSystem\<close> putting and taking a query are single steps; the waits and signals of
  the queue, with their lost wake-up, are in \<open>RingQueue\<close>, so \<open>DbSystem\<close> states no liveness. A search
  of the tree of streams of the mailbox plugin faults when it reads a freed node on its way; the
  searches of the other trees of objects are taken to fault as soon as any of their objects is
  freed, which is stricter than the code: the theorems about them are about runs without a fault.
  The table of nicks compares keys letter by letter. \<open>sql_literal\<close>, \<open>fill\<close> and the like, which
  no entry of the manifest maps to code, are specifications.

  Not modelled. Log lines (\<open>LogPrint\<close>) throughout: they have no effect on the state. The
  user interface in \<open>curses.c\<close>, of which other parts keep the requests as effects; \<open>main.c\<close> apart from the reload and versions (command line,
  signals, process start); \<open>import.c\<close> (a separate tool); \<open>luascript.c\<close>, \<open>perl.c\<close>,
  \<open>svngit.c\<close> (bindings of interpreters and tools that are not in the repository);
  \<open>webservice.c\<close> with its vendored HTTP server; the vendored BotNet, CLucene, libmrss, libnxml,
  cJSON and OPIE libraries, which are parameters where the bot uses them.
\<close>

end
